(* ===== verification/Prelude.thy ===== *)
theory Prelude
  imports Main "HOL-Library.Word" "HOL-Library.List_Lexorder" "HOL-Library.Product_Lexorder"
begin

text \<open>
  Shared types and lemmas.  Byte strings and machine words, the little-endian coding of
  integers that every on-disk format of the repository uses, the binary search of Rust's
  \<open>partition_point\<close>, prefixes of byte strings, and the error type of
  \<open>crates/f4kvs-lsm/src/error.rs\<close>.

  A Rust \<open>String\<close> is its UTF-8 bytes: Rust compares strings bytewise, so the order on
  \<open>key\<close> is the lexicographic order of \<open>HOL-Library.List_Lexorder\<close> over bytes.
  A \<open>Result\<close> is a sum with the error on the left.  Where a definition can panic (slice out
  of range), its result has an outer option and \<open>None\<close> is the panic.
\<close>

type_synonym u8 = "8 word"
type_synonym u32 = "32 word"
type_synonym u64 = "64 word"
type_synonym bytes = "u8 list"
type_synonym key = "u8 list"

subsection \<open>Errors\<close>

datatype io_kind = NotFound | UnexpectedEof | Interrupted | OtherIo

datatype lsm_error =
    Io io_kind string
  | Serialization string
  | Corruption string
  | ConfigErr string
  | CompactionErr string
  | WalErr string
  | BloomFilterErr string
  | CompressionErr string
  | KeyNotFound string
  | ColumnFamilyNotFound string
  | InvalidOperation string
  | ResourceLimit string
  | Internal string

type_synonym 'a res = "lsm_error + 'a"

definition is_recoverable :: "lsm_error \<Rightarrow> bool" where
  "is_recoverable e = (case e of Io _ _ \<Rightarrow> True | CompactionErr _ \<Rightarrow> True | _ \<Rightarrow> False)"

definition is_corruption :: "lsm_error \<Rightarrow> bool" where
  "is_corruption e = (case e of Corruption _ \<Rightarrow> True | _ \<Rightarrow> False)"

fun res_bind :: "'a res \<Rightarrow> ('a \<Rightarrow> 'b res) \<Rightarrow> 'b res" where
  "res_bind (Inl e) f = Inl e"
| "res_bind (Inr x) f = f x"

lemma res_bind_Inr [simp]: "res_bind r f = Inr y \<longleftrightarrow> (\<exists>x. r = Inr x \<and> f x = Inr y)"
  by (cases r) auto

named_theorems store_simps \<open>reads after writes of the storage components\<close>
named_theorems wf_intro \<open>preservation of the well-formedness invariants\<close>

subsection \<open>Saturating and checked arithmetic on 64-bit counters\<close>

definition u64_max :: nat where "u64_max = 18446744073709551615"

definition saturating_add :: "nat \<Rightarrow> nat \<Rightarrow> nat" where
  "saturating_add a b = min (a + b) u64_max"

lemma saturating_add_ge: "a \<le> u64_max \<Longrightarrow> a \<le> saturating_add a b"
  by (simp add: saturating_add_def)

lemma saturating_add_exact: "a + b \<le> u64_max \<Longrightarrow> saturating_add a b = a + b"
  by (simp add: saturating_add_def)

subsection \<open>Little-endian integers\<close>

fun le_bytes :: "nat \<Rightarrow> nat \<Rightarrow> bytes" where
  "le_bytes 0 v = []"
| "le_bytes (Suc n) v = word_of_nat (v mod 256) # le_bytes n (v div 256)"

fun le_val :: "bytes \<Rightarrow> nat" where
  "le_val [] = 0"
| "le_val (b # bs) = unat b + 256 * le_val bs"

lemma length_le_bytes [simp]: "length (le_bytes n v) = n"
  by (induction n arbitrary: v) auto

lemma le_val_le_bytes: "le_val (le_bytes n v) = v mod 256 ^ n"
proof (induction n arbitrary: v)
  case 0
  then show ?case by simp
next
  case (Suc n)
  have "unat (word_of_nat (v mod 256) :: u8) = v mod 256"
    by (simp add: unat_of_nat take_bit_eq_mod)
  with Suc show ?case
    by (simp add: mod_mult2_eq)
qed

lemma le_val_bound: "le_val bs < 256 ^ length bs"
proof (induction bs)
  case Nil
  then show ?case by simp
next
  case (Cons b bs)
  have "unat b < 2 ^ LENGTH(8)" by (rule unsigned_less)
  then have "unat b < 256" by simp
  moreover have "256 * le_val bs + 256 \<le> 256 * 256 ^ length bs"
    using Cons by (metis Suc_leI mult_Suc_right mult_le_mono2 add.commute)
  ultimately show ?case by simp
qed

definition u32_to_le :: "u32 \<Rightarrow> bytes" where "u32_to_le w = le_bytes 4 (unat w)"
definition u64_to_le :: "u64 \<Rightarrow> bytes" where "u64_to_le w = le_bytes 8 (unat w)"
definition u32_from_le :: "bytes \<Rightarrow> u32" where "u32_from_le bs = word_of_nat (le_val bs)"
definition u64_from_le :: "bytes \<Rightarrow> u64" where "u64_from_le bs = word_of_nat (le_val bs)"

lemma length_u32_to_le [simp]: "length (u32_to_le w) = 4"
  by (simp add: u32_to_le_def)

lemma length_u64_to_le [simp]: "length (u64_to_le w) = 8"
  by (simp add: u64_to_le_def)

lemma u32_le_roundtrip [simp]: "u32_from_le (u32_to_le w) = w"
proof -
  have "unat w < 2 ^ LENGTH(32)" by (rule unsigned_less)
  then have "unat w < 256 ^ 4" by simp
  then show ?thesis by (simp add: u32_from_le_def u32_to_le_def le_val_le_bytes)
qed

lemma u64_le_roundtrip [simp]: "u64_from_le (u64_to_le w) = w"
proof -
  have "unat w < 2 ^ LENGTH(64)" by (rule unsigned_less)
  then have "unat w < 256 ^ 8" by simp
  then show ?thesis by (simp add: u64_from_le_def u64_to_le_def le_val_le_bytes)
qed

lemma unat_u32_of_nat: "n < 4294967296 \<Longrightarrow> unat (word_of_nat n :: u32) = n"
  by (simp add: unat_of_nat take_bit_eq_mod)

lemma unat_u64_of_nat: "n < 18446744073709551616 \<Longrightarrow> unat (word_of_nat n :: u64) = n"
  by (simp add: unat_of_nat take_bit_eq_mod)

subsection \<open>Slices\<close>

text \<open>\<open>&buf[a..b]\<close>: \<open>None\<close> where Rust panics.\<close>

definition slice :: "'a list \<Rightarrow> nat \<Rightarrow> nat \<Rightarrow> 'a list option" where
  "slice buf a b = (if a \<le> b \<and> b \<le> length buf then Some (take (b - a) (drop a buf)) else None)"

lemma slice_Some: "slice buf a b = Some s \<longleftrightarrow> a \<le> b \<and> b \<le> length buf \<and> s = take (b - a) (drop a buf)"
  by (auto simp: slice_def)

lemma length_slice: "slice buf a b = Some s \<Longrightarrow> length s = b - a"
  by (auto simp: slice_Some)

lemma slice_mid: "slice (xs @ ys @ zs) (length xs) (length xs + length ys) = Some ys"
  by (simp add: slice_def)

lemma slice_mid': "a = length xs \<Longrightarrow> b = a + length ys \<Longrightarrow> slice (xs @ ys @ zs) a b = Some ys"
  by (simp add: slice_def)

subsection \<open>Prefixes of byte strings\<close>

definition starts_with :: "'a list \<Rightarrow> 'a list \<Rightarrow> bool" where
  "starts_with k p \<longleftrightarrow> take (length p) k = p"

lemma starts_with_iff: "starts_with k p \<longleftrightarrow> (\<exists>r. k = p @ r)"
proof
  assume "starts_with k p"
  then have "k = p @ drop (length p) k"
    unfolding starts_with_def by (metis append_take_drop_id)
  then show "\<exists>r. k = p @ r" by blast
qed (auto simp: starts_with_def)

lemma starts_with_append [simp]: "starts_with (p @ r) p"
  by (simp add: starts_with_def)

lemma starts_with_Nil [simp]: "starts_with k []"
  by (simp add: starts_with_def)

lemma le_append: "(p :: 'a::linorder list) \<le> p @ r"
  by (induction p) auto

lemma starts_with_ge: "starts_with k p \<Longrightarrow> (p :: 'a::linorder list) \<le> k"
  by (auto simp: starts_with_iff le_append)

text \<open>The keys with a given prefix are convex in the order: a prefix scan may stop at the
  first key past the prefix.\<close>

lemma prefix_convex:
  fixes p :: "'a::linorder list"
  assumes "p \<le> a" and "a \<le> b" and "starts_with b p"
  shows "starts_with a p"
proof -
  obtain r where b: "b = p @ r" using assms(3) by (auto simp: starts_with_iff)
  have "p \<le> a \<Longrightarrow> a \<le> p @ r \<Longrightarrow> \<exists>s. a = p @ s"
  proof (induction p arbitrary: a)
    case Nil
    then show ?case by simp
  next
    case (Cons x p)
    then obtain y a' where a: "a = y # a'" by (cases a) auto
    with Cons.prems have "y = x" by auto
    with Cons a show ?case by auto
  qed
  with assms b show ?thesis by (auto simp: starts_with_iff)
qed

subsection \<open>Binary search\<close>

text \<open>
  \<open>slice::partition_point\<close> of the standard library: halve \<open>[lo, hi)\<close> until it is empty.
  On a list partitioned by the predicate it returns the length of the leading part.
\<close>

function pp_search :: "('a \<Rightarrow> bool) \<Rightarrow> 'a list \<Rightarrow> nat \<Rightarrow> nat \<Rightarrow> nat" where
  "pp_search P xs lo hi =
     (if lo < hi then
        (if P (xs ! (lo + (hi - lo) div 2)) then pp_search P xs (Suc (lo + (hi - lo) div 2)) hi
         else pp_search P xs lo (lo + (hi - lo) div 2))
      else lo)"
  by pat_completeness auto
termination
  by (relation "measure (\<lambda>(P, xs, lo, hi). hi - lo)") auto

declare pp_search.simps [simp del]

lemma pp_search_done [simp]: "\<not> lo < hi \<Longrightarrow> pp_search P xs lo hi = lo"
  by (simp add: pp_search.simps [of P xs lo hi])

lemma pp_search_step:
  assumes "lo < hi" and "m = lo + (hi - lo) div 2"
  shows "pp_search P xs lo hi = (if P (xs ! m) then pp_search P xs (Suc m) hi else pp_search P xs lo m)"
  using assms by (simp add: pp_search.simps [of P xs lo hi])

definition partition_point :: "('a \<Rightarrow> bool) \<Rightarrow> 'a list \<Rightarrow> nat" where
  "partition_point P xs = pp_search P xs 0 (length xs)"

definition partitioned :: "('a \<Rightarrow> bool) \<Rightarrow> 'a list \<Rightarrow> bool" where
  "partitioned P xs \<longleftrightarrow> (\<forall>i j. i < j \<and> j < length xs \<and> P (xs ! j) \<longrightarrow> P (xs ! i))"

lemma pp_search_bounds: "lo \<le> hi \<Longrightarrow> lo \<le> pp_search P xs lo hi \<and> pp_search P xs lo hi \<le> hi"
proof (induction "hi - lo" arbitrary: lo hi rule: less_induct)
  case less
  show ?case
  proof (cases "lo < hi")
    case True
    define m where m_def: "m = lo + (hi - lo) div 2"
    then have m: "lo \<le> m" "m < hi" using True by auto
    have up: "Suc m \<le> pp_search P xs (Suc m) hi \<and> pp_search P xs (Suc m) hi \<le> hi"
      using less.hyps [of hi "Suc m"] m True by simp
    have down: "lo \<le> pp_search P xs lo m \<and> pp_search P xs lo m \<le> m"
      using less.hyps [of m lo] m True by simp
    show ?thesis
      using pp_search_step [OF True m_def, of P xs] up down m by (cases "P (xs ! m)") simp_all
  next
    case False
    with less show ?thesis by simp
  qed
qed

lemma pp_search_spec:
  assumes part: "partitioned P xs"
  shows "hi \<le> length xs \<Longrightarrow> lo \<le> hi \<Longrightarrow> (\<And>i. i < lo \<Longrightarrow> P (xs ! i)) \<Longrightarrow>
         (\<And>i. hi \<le> i \<Longrightarrow> i < length xs \<Longrightarrow> \<not> P (xs ! i)) \<Longrightarrow>
         (\<forall>i < pp_search P xs lo hi. P (xs ! i)) \<and>
         (\<forall>i. pp_search P xs lo hi \<le> i \<and> i < length xs \<longrightarrow> \<not> P (xs ! i))"
proof (induction "hi - lo" arbitrary: lo hi rule: less_induct)
  case less
  show ?case
  proof (cases "lo < hi")
    case True
    define m where m_def: "m = lo + (hi - lo) div 2"
    then have m: "lo \<le> m" "m < hi" "m < length xs" using True less.prems(1) by auto
    note step = pp_search_step [OF True m_def, of P xs]
    show ?thesis
    proof (cases "P (xs ! m)")
      case Pm: True
      have before: "P (xs ! i)" if "i < Suc m" for i
      proof (cases "i = m")
        case False
        with that have "i < m" by simp
        with part Pm m(3) show ?thesis unfolding partitioned_def by blast
      qed (simp add: Pm)
      have dec: "hi - Suc m < hi - lo" "Suc m \<le> hi" using m True by auto
      show ?thesis
        using less.hyps [OF dec(1) less.prems(1) dec(2) before less.prems(4)] Pm step by simp
    next
      case nPm: False
      have after: "\<not> P (xs ! i)" if "m \<le> i" "i < length xs" for i
      proof (cases "i = m")
        case False
        with that have "m < i" by simp
        with part nPm that(2) show ?thesis unfolding partitioned_def by blast
      qed (simp add: nPm)
      have dec: "m - lo < hi - lo" "m \<le> length xs" using m True by auto
      show ?thesis
        using less.hyps [OF dec(1) dec(2) m(1) less.prems(3) after] nPm step by simp
    qed
  next
    case False
    with less.prems have "lo = hi" by simp
    with less.prems False show ?thesis by simp
  qed
qed

lemma partition_point_le: "partition_point P xs \<le> length xs"
  using pp_search_bounds [of 0 "length xs" P xs] by (simp add: partition_point_def)

lemma partition_point_before:
  "partitioned P xs \<Longrightarrow> i < partition_point P xs \<Longrightarrow> P (xs ! i)"
  using pp_search_spec [of P xs "length xs" 0] by (simp add: partition_point_def)

lemma partition_point_from:
  "partitioned P xs \<Longrightarrow> partition_point P xs \<le> i \<Longrightarrow> i < length xs \<Longrightarrow> \<not> P (xs ! i)"
  using pp_search_spec [of P xs "length xs" 0] by (simp add: partition_point_def)

lemma partition_point_takeWhile:
  assumes "partitioned P xs"
  shows "partition_point P xs = length (takeWhile P xs)"
proof -
  let ?n = "partition_point P xs"
  have "\<And>i. i < ?n \<Longrightarrow> P (xs ! i)" by (rule partition_point_before [OF assms])
  moreover have "?n < length xs \<Longrightarrow> \<not> P (xs ! ?n)"
    using partition_point_from [OF assms] by simp
  moreover have "?n \<le> length xs" by (rule partition_point_le)
  moreover have "takeWhile P xs = take ?n xs"
    by (rule takeWhile_eq_take_P_nth) (use calculation in auto)
  ultimately show ?thesis by simp
qed

lemma sorted_wrt_partitioned:
  assumes "sorted_wrt (<) (map f xs)"
  shows "partitioned (\<lambda>x. f x < (b :: 'b::linorder)) xs"
  unfolding partitioned_def
proof (intro allI impI, elim conjE)
  fix i j
  assume ij: "i < j" "j < length xs" "f (xs ! j) < b"
  then have "f (xs ! i) < f (xs ! j)"
    using sorted_wrt_nth_less [OF assms, of i j] by simp
  with ij show "f (xs ! i) < b" by simp
qed

fun res_all :: "('a \<Rightarrow> 'b res) \<Rightarrow> 'a list \<Rightarrow> 'b list res" where
  "res_all f [] = Inr []"
| "res_all f (x # xs) = res_bind (f x) (\<lambda>y. res_bind (res_all f xs) (\<lambda>ys. Inr (y # ys)))"

lemma res_all_Inr: "(\<And>x. x \<in> set xs \<Longrightarrow> f x = Inr (g x)) \<Longrightarrow> res_all f xs = Inr (map g xs)"
  by (induction xs) auto

end
