(* ===== verification/BTree_Map.thy ===== *)
theory BTree_Map
  imports Prelude
begin

text \<open>
  The part of \<open>std::collections::BTreeMap\<close> the repository uses, as association lists sorted
  strictly by key: lookup, insert, remove, iteration in key order and the range iterators.
  The memtable, the merged scan result and the legacy index decoder are built on it.  The
  locale \<open>ordered_map\<close> states what those clients rely on.
\<close>

type_synonym ('k, 'v) bt = "('k \<times> 'v) list"

definition bt_ok :: "('k::linorder, 'v) bt \<Rightarrow> bool" where
  "bt_ok m \<longleftrightarrow> sorted_wrt (<) (map fst m)"

fun bt_get :: "('k, 'v) bt \<Rightarrow> 'k \<Rightarrow> 'v option" where
  "bt_get [] k = None"
| "bt_get ((k', v) # m) k = (if k' = k then Some v else bt_get m k)"

fun bt_insert :: "'k::linorder \<Rightarrow> 'v \<Rightarrow> ('k, 'v) bt \<Rightarrow> ('k, 'v) bt" where
  "bt_insert k v [] = [(k, v)]"
| "bt_insert k v ((k', v') # m) =
     (if k < k' then (k, v) # (k', v') # m
      else if k = k' then (k, v) # m
      else (k', v') # bt_insert k v m)"

definition bt_remove :: "'k \<Rightarrow> ('k, 'v) bt \<Rightarrow> ('k, 'v) bt" where
  "bt_remove k m = filter (\<lambda>(k', _). k' \<noteq> k) m"

text \<open>\<open>range(start..)\<close>, \<open>range((Excluded(a), Unbounded))\<close> and \<open>range(start..end)\<close>; the last one
  panics when the start lies above the end.\<close>

definition bt_from :: "'k::linorder \<Rightarrow> ('k, 'v) bt \<Rightarrow> ('k, 'v) bt" where
  "bt_from s m = filter (\<lambda>(k, _). s \<le> k) m"

definition bt_after :: "'k::linorder \<Rightarrow> ('k, 'v) bt \<Rightarrow> ('k, 'v) bt" where
  "bt_after s m = filter (\<lambda>(k, _). s < k) m"

definition bt_range :: "'k::linorder \<Rightarrow> 'k \<Rightarrow> ('k, 'v) bt \<Rightarrow> ('k, 'v) bt option" where
  "bt_range s e m = (if e < s then None else Some (filter (\<lambda>(k, _). s \<le> k \<and> k < e) m))"

lemma bt_ok_Nil [simp]: "bt_ok []"
  by (simp add: bt_ok_def)

lemma bt_ok_Cons: "bt_ok ((k, v) # m) \<longleftrightarrow> (\<forall>k' \<in> fst ` set m. k < k') \<and> bt_ok m"
  by (auto simp: bt_ok_def)

lemma bt_get_map_of: "bt_get m = map_of m"
proof
  fix k show "bt_get m k = map_of m k"
    by (induction m) (auto simp: split: if_splits)
qed

lemma bt_get_None: "bt_get m k = None \<longleftrightarrow> k \<notin> fst ` set m"
  by (simp add: bt_get_map_of map_of_eq_None_iff)

lemma bt_ok_distinct: "bt_ok m \<Longrightarrow> distinct (map fst m)"
  unfolding bt_ok_def by (simp add: strict_sorted_iff)

lemma bt_ok_sorted: "bt_ok m \<Longrightarrow> sorted (map fst m)"
  unfolding bt_ok_def by (simp add: strict_sorted_iff)

lemma bt_get_in: "bt_ok m \<Longrightarrow> bt_get m k = Some v \<longleftrightarrow> (k, v) \<in> set m"
  using bt_ok_distinct [of m] by (simp add: bt_get_map_of)

lemma keys_bt_insert: "fst ` set (bt_insert k v m) = insert k (fst ` set m)"
  by (induction k v m rule: bt_insert.induct) auto

lemma bt_ok_insert [wf_intro]: "bt_ok m \<Longrightarrow> bt_ok (bt_insert k v m)"
  by (induction k v m rule: bt_insert.induct)
     (auto simp: bt_ok_Cons keys_bt_insert)

lemma bt_get_insert: "bt_ok m \<Longrightarrow> bt_get (bt_insert k v m) = (bt_get m)(k := Some v)"
proof (induction k v m rule: bt_insert.induct)
  case (1 k v)
  then show ?case by (auto simp: fun_eq_iff)
next
  case (2 k v k' v' m)
  have "bt_get m k = None" if "k < k'"
    using 2(2) that by (force simp: bt_ok_Cons bt_get_None)
  with 2 show ?case by (auto simp: fun_eq_iff bt_ok_Cons)
qed

lemma bt_ok_filter [wf_intro]: "bt_ok m \<Longrightarrow> bt_ok (filter P m)"
  unfolding bt_ok_def by (induction m) auto

lemma bt_get_filter: "bt_ok m \<Longrightarrow>
  bt_get (filter (\<lambda>(k, v). P k) m) k = (if P k then bt_get m k else None)"
  by (induction m) (auto simp: bt_ok_Cons)

lemma bt_ok_remove [wf_intro]: "bt_ok m \<Longrightarrow> bt_ok (bt_remove k m)"
  unfolding bt_remove_def by (rule bt_ok_filter)

lemma bt_get_remove: "bt_ok m \<Longrightarrow> bt_get (bt_remove k m) = (bt_get m)(k := None)"
  using bt_get_filter [of m "\<lambda>k'. k' \<noteq> k"] by (auto simp: bt_remove_def fun_eq_iff)

lemma length_bt_insert: "bt_ok m \<Longrightarrow>
  length (bt_insert k v m) = length m + (if bt_get m k = None then 1 else 0)"
proof (induction k v m rule: bt_insert.induct)
  case (2 k v k' v' m)
  have "bt_get m k = None" if "k < k'"
    using 2(2) that by (force simp: bt_ok_Cons bt_get_None)
  with 2 show ?case by (auto simp: bt_ok_Cons)
qed simp

text \<open>Two sorted maps with the same lookups are the same list.\<close>

lemma bt_ext:
  assumes "bt_ok m" and "bt_ok n" and "bt_get m = bt_get n"
  shows "m = n"
proof -
  have "set m = set n"
  proof (rule set_eqI)
    fix p :: "'a \<times> 'b"
    obtain k v where p: "p = (k, v)" by (cases p)
    show "p \<in> set m \<longleftrightarrow> p \<in> set n"
      using bt_get_in [OF assms(1), of k v] bt_get_in [OF assms(2), of k v] assms(3) p by simp
  qed
  moreover have "inj_on fst (set m \<union> set n)"
    using bt_ok_distinct [OF assms(1)] \<open>set m = set n\<close> by (simp add: distinct_map)
  ultimately show ?thesis
    using map_sorted_distinct_set_unique [of fst m n] assms(1,2)
    by (simp add: bt_ok_sorted bt_ok_distinct)
qed

text \<open>A key splits a sorted map in two.\<close>

lemma bt_takeWhile: "bt_ok m \<Longrightarrow> takeWhile (\<lambda>(k', _). k' < k) m = filter (\<lambda>(k', _). k' < k) m"
proof (induction m)
  case (Cons e m)
  obtain a v where e: "e = (a, v)" by (cases e)
  have none: "filter (\<lambda>(k', _). k' < k) m = []" if "\<not> a < k"
  proof -
    have "\<not> k' < k" if "(k', v') \<in> set m" for k' v'
      using Cons.prems e \<open>\<not> a < k\<close> that by (fastforce simp: bt_ok_Cons)
    then show ?thesis by (auto simp: filter_empty_conv)
  qed
  show ?case
    using none Cons e by (cases "a < k") (simp_all add: bt_ok_Cons)
qed simp

lemma bt_dropWhile: "bt_ok m \<Longrightarrow> dropWhile (\<lambda>(k', _). k' < k) m = filter (\<lambda>(k', _). k \<le> k') m"
proof (induction m)
  case (Cons e m)
  obtain a v where e: "e = (a, v)" by (cases e)
  have all: "filter (\<lambda>(k', _). k \<le> k') m = m" if "\<not> a < k"
  proof -
    have "k \<le> k'" if "(k', v') \<in> set m" for k' v'
      using Cons.prems e \<open>\<not> a < k\<close> that by (fastforce simp: bt_ok_Cons)
    then show ?thesis by (auto simp: filter_id_conv)
  qed
  show ?case
    using all Cons e by (cases "a < k") (simp_all add: bt_ok_Cons)
qed simp

subsection \<open>The interface its clients use\<close>

locale ordered_map =
  fixes get :: "'m \<Rightarrow> 'k::linorder \<Rightarrow> 'v option"
    and ins :: "'k \<Rightarrow> 'v \<Rightarrow> 'm \<Rightarrow> 'm"
    and rem :: "'k \<Rightarrow> 'm \<Rightarrow> 'm"
    and ok :: "'m \<Rightarrow> bool"
  assumes ok_ins: "ok m \<Longrightarrow> ok (ins k v m)"
    and ok_rem: "ok m \<Longrightarrow> ok (rem k m)"
    and get_ins: "ok m \<Longrightarrow> get (ins k v m) = (get m)(k := Some v)"
    and get_rem: "ok m \<Longrightarrow> get (rem k m) = (get m)(k := None)"
begin

text \<open>Replaying a list of updates, each an insert or a removal: the last one of a key decides.\<close>

lemma ok_replay:
  "ok m \<Longrightarrow> ok (fold (\<lambda>(k, c) m. case c of Some v \<Rightarrow> ins k v m | None \<Rightarrow> rem k m) us m)"
  by (induction us arbitrary: m) (auto simp: ok_ins ok_rem split: option.splits)

lemma get_replay:
  "ok m \<Longrightarrow>
   get (fold (\<lambda>(k, c) m. case c of Some v \<Rightarrow> ins k v m | None \<Rightarrow> rem k m) us m) k =
   (case map_of (rev us) k of Some c \<Rightarrow> c | None \<Rightarrow> get m k)"
proof (induction us arbitrary: m)
  case Nil
  then show ?case by simp
next
  case (Cons u us)
  obtain k' c where u: "u = (k', c)" by (cases u)
  let ?m = "case c of Some v \<Rightarrow> ins k' v m | None \<Rightarrow> rem k' m"
  have "ok ?m" using Cons.prems by (auto simp: ok_ins ok_rem split: option.splits)
  moreover have "get ?m k = (if k = k' then c else get m k)"
    using Cons.prems by (auto simp: get_ins get_rem split: option.splits)
  ultimately show ?case
    using Cons.IH [of ?m] u by (auto simp: map_add_def map_of_append split: option.splits)
qed

end

interpretation bt: ordered_map bt_get bt_insert bt_remove bt_ok
  by unfold_locales (simp_all add: bt_ok_insert bt_ok_remove bt_get_insert bt_get_remove)

end
