(* ===== verification/Value_Model.thy ===== *)
theory Value_Model
  imports Prelude
begin

text \<open>
  The value type of \<open>crates/f4kvs-value/src/value.rs\<close>: its variants, its sizes, its byte form and
  its JSON form.  A float is its 64-bit pattern.  \<open>serde_json\<close> is a library: its public enum is the
  datatype \<open>json\<close> over an abstract number type \<open>'n\<close>, and what the code asks of a number
  (\<open>as_i64\<close>, \<open>as_u64\<close>, \<open>as_f64\<close>, conversion from an integer or float) and the text form
  (\<open>to_string\<close>) are parameters.
\<close>

datatype 'n json =
    JNull
  | JBool bool
  | JNumber 'n
  | JString bytes
  | JArray "'n json list"
  | JObject "(string \<times> 'n json) list"

datatype 'n val =
    VString bytes
  | VInt64 u64
  | VUInt64 u64
  | VFloat64 u64
  | VBool bool
  | VBytes bytes
  | VJson "'n json"
  | VNull

definition is_null :: "'n val \<Rightarrow> bool" where
  "is_null v = (case v of VNull \<Rightarrow> True | _ \<Rightarrow> False)"

lemma is_null_iff [simp]: "is_null v \<longleftrightarrow> v = VNull"
  by (cases v) (simp_all add: is_null_def)

fun type_name :: "'n val \<Rightarrow> string" where
  "type_name (VString _) = ''String''"
| "type_name (VInt64 _) = ''Int64''"
| "type_name (VUInt64 _) = ''UInt64''"
| "type_name (VFloat64 _) = ''Float64''"
| "type_name (VBool _) = ''Bool''"
| "type_name (VBytes _) = ''Bytes''"
| "type_name (VJson _) = ''Json''"
| "type_name VNull = ''Null''"

text \<open>\<open>serialized_size\<close>, and the private copies \<open>estimate_value_size\<close> of the memtable and of the
  engine; \<open>js\<close> is \<open>serde_json\<close>'s \<open>to_string\<close>.\<close>

fun serialized_size :: "('n json \<Rightarrow> bytes) \<Rightarrow> 'n val \<Rightarrow> nat" where
  "serialized_size js (VString s) = length s"
| "serialized_size js (VInt64 _) = 8"
| "serialized_size js (VUInt64 _) = 8"
| "serialized_size js (VFloat64 _) = 8"
| "serialized_size js (VBool _) = 1"
| "serialized_size js (VBytes b) = length b"
| "serialized_size js (VJson j) = length (js j)"
| "serialized_size js VNull = 0"

fun to_bytes :: "('n json \<Rightarrow> bytes) \<Rightarrow> 'n val \<Rightarrow> bytes" where
  "to_bytes js (VString s) = s"
| "to_bytes js (VInt64 i) = u64_to_le i"
| "to_bytes js (VUInt64 u) = u64_to_le u"
| "to_bytes js (VFloat64 f) = u64_to_le f"
| "to_bytes js (VBool b) = [if b then 1 else 0]"
| "to_bytes js (VBytes b) = b"
| "to_bytes js (VJson j) = js j"
| "to_bytes js VNull = []"

lemma length_to_bytes: "length (to_bytes js v) = serialized_size js v"
  by (cases v) simp_all

text \<open>
  \<open>memory_size\<close>: on a 64-bit target \<open>size_of\<close> is 24 for \<open>String\<close> and \<open>Vec\<close>, 8 for the numbers
  and 1 for \<open>bool\<close>; \<open>jsz\<close> is \<open>size_of\<close> of \<open>serde_json::Value\<close>, a capacity is the length.
\<close>

fun json_elem_size :: "nat \<Rightarrow> 'n json \<Rightarrow> nat" where
  "json_elem_size jsz (JString s) = length s"
| "json_elem_size jsz (JNumber _) = 8"
| "json_elem_size jsz (JObject _) = 64"
| "json_elem_size jsz _ = jsz"

fun json_memory_size :: "nat \<Rightarrow> 'n json \<Rightarrow> nat" where
  "json_memory_size jsz JNull = jsz"
| "json_memory_size jsz (JBool _) = jsz"
| "json_memory_size jsz (JNumber _) = jsz + 8"
| "json_memory_size jsz (JString s) = jsz + length s"
| "json_memory_size jsz (JArray arr) =
     jsz + length arr * jsz + sum_list (map (json_elem_size jsz) arr)"
| "json_memory_size jsz (JObject m) =
     jsz + length m * (24 + jsz) + sum_list (map (\<lambda>(k, v). length k + json_elem_size jsz v) m)"

fun memory_size :: "nat \<Rightarrow> 'n val \<Rightarrow> nat" where
  "memory_size jsz (VString s) = length s + 24"
| "memory_size jsz (VInt64 _) = 8"
| "memory_size jsz (VUInt64 _) = 8"
| "memory_size jsz (VFloat64 _) = 8"
| "memory_size jsz (VBool _) = 1"
| "memory_size jsz (VBytes b) = length b + 24"
| "memory_size jsz (VJson v) = json_memory_size jsz v"
| "memory_size jsz VNull = 0"

subsection \<open>The JSON form\<close>

text \<open>The derived \<open>Serialize\<close> of \<open>ValueWrapper\<close>: an externally tagged enum, whose unit variant is a
  plain string.\<close>

record 'n numbers =
  of_i64 :: "u64 \<Rightarrow> 'n"
  of_u64 :: "u64 \<Rightarrow> 'n"
  of_f64 :: "u64 \<Rightarrow> 'n"
  as_i64 :: "'n \<Rightarrow> u64 option"
  as_u64 :: "'n \<Rightarrow> u64 option"
  as_f64 :: "'n \<Rightarrow> u64 option"

fun to_json_value :: "'n numbers \<Rightarrow> 'n val \<Rightarrow> 'n json" where
  "to_json_value N (VString s) = JObject [(''String'', JString s)]"
| "to_json_value N (VInt64 i) = JObject [(''Int64'', JNumber (of_i64 N i))]"
| "to_json_value N (VUInt64 u) = JObject [(''UInt64'', JNumber (of_u64 N u))]"
| "to_json_value N (VFloat64 f) = JObject [(''Float64'', JNumber (of_f64 N f))]"
| "to_json_value N (VBool b) = JObject [(''Bool'', JBool b)]"
| "to_json_value N (VBytes bs) =
     JObject [(''Bytes'', JArray (map (\<lambda>b. JNumber (of_u64 N (ucast b))) bs))]"
| "to_json_value N (VJson j) = JObject [(''Json'', j)]"
| "to_json_value N VNull = JString (map (\<lambda>c. word_of_nat (of_char c)) ''Null'')"

definition null_text :: bytes where
  "null_text = map (\<lambda>c. word_of_nat (of_char c)) ''Null''"

text \<open>\<open>item.as_u64().and_then(|n| u8::try_from(n).ok())\<close>.\<close>

fun json_byte :: "'n numbers \<Rightarrow> 'n json \<Rightarrow> u8 option" where
  "json_byte N (JNumber n) =
     (case as_u64 N n of None \<Rightarrow> None
      | Some w \<Rightarrow> if unat w < 256 then Some (ucast w) else None)"
| "json_byte N _ = None"

fun collect_bytes :: "'n numbers \<Rightarrow> 'n json list \<Rightarrow> bytes res" where
  "collect_bytes N [] = Inr []"
| "collect_bytes N (x # xs) =
     (case json_byte N x of None \<Rightarrow> Inl (Serialization ''expected byte array'')
      | Some b \<Rightarrow> (case collect_bytes N xs of Inl e \<Rightarrow> Inl e | Inr bs \<Rightarrow> Inr (b # bs)))"

definition num_or :: "string \<Rightarrow> ('n \<Rightarrow> u64 option) \<Rightarrow> (u64 \<Rightarrow> 'n val) \<Rightarrow> 'n json \<Rightarrow> 'n val res" where
  "num_or msg conv mk j =
     (case j of JNumber n \<Rightarrow> (case conv n of Some w \<Rightarrow> Inr (mk w) | None \<Rightarrow> Inl (Serialization msg))
      | _ \<Rightarrow> Inl (Serialization ''expected number''))"

definition from_tagged :: "'n numbers \<Rightarrow> string \<Rightarrow> 'n json \<Rightarrow> 'n val res" where
  "from_tagged N tag j =
     (if tag = ''String'' then
        (case j of JString s \<Rightarrow> Inr (VString s) | _ \<Rightarrow> Inl (Serialization ''expected string''))
      else if tag = ''Int64'' then num_or ''expected i64'' (as_i64 N) VInt64 j
      else if tag = ''UInt64'' then num_or ''expected u64'' (as_u64 N) VUInt64 j
      else if tag = ''Float64'' then num_or ''expected float'' (as_f64 N) VFloat64 j
      else if tag = ''Bool'' then
        (case j of JBool b \<Rightarrow> Inr (VBool b) | _ \<Rightarrow> Inl (Serialization ''expected bool''))
      else if tag = ''Bytes'' then
        (case j of JArray arr \<Rightarrow>
             (case collect_bytes N arr of Inl e \<Rightarrow> Inl e | Inr bs \<Rightarrow> Inr (VBytes bs))
         | _ \<Rightarrow> Inl (Serialization ''expected array''))
      else if tag = ''Json'' then Inr (VJson j)
      else if tag = ''Null'' then
        (case j of JNull \<Rightarrow> Inr VNull | _ \<Rightarrow> Inl (Serialization ''expected null''))
      else Inr (VJson (JObject [(tag, j)])))"

fun from_serde_json_value :: "'n numbers \<Rightarrow> 'n json \<Rightarrow> 'n val res" where
  "from_serde_json_value N (JObject [(tag, j)]) = from_tagged N tag j"
| "from_serde_json_value N (JString s) = (if s = null_text then Inr VNull else Inr (VJson (JString s)))"
| "from_serde_json_value N other = Inr (VJson other)"

definition numbers_ok :: "'n numbers \<Rightarrow> bool" where
  "numbers_ok N \<longleftrightarrow> (\<forall>i. as_i64 N (of_i64 N i) = Some i) \<and> (\<forall>u. as_u64 N (of_u64 N u) = Some u)"

lemma ucast_u8_u64:
  "unat (ucast (b :: u8) :: u64) = unat b" "ucast (ucast (b :: u8) :: u64) = b"
  by (transfer, simp add: take_bit_take_bit)+

lemma collect_bytes_map:
  "numbers_ok N \<Longrightarrow> collect_bytes N (map (\<lambda>b. JNumber (of_u64 N (ucast b))) bs) = Inr bs"
proof (induction bs)
  case Nil
  then show ?case by simp
next
  case (Cons b bs)
  have "unat b < 2 ^ LENGTH(8)" by (rule unsigned_less)
  then have b: "unat b < 256" by simp
  with Cons show ?case by (simp add: numbers_ok_def ucast_u8_u64)
qed

text \<open>
  C40: parsing the JSON form of a value gives the value back, for every value whose number, if it is
  a float, survives \<open>serde_json\<close>'s own conversion (a NaN or an infinity does not).
\<close>

theorem json_roundtrip:
  assumes "numbers_ok N"
    and "\<forall>f. v = VFloat64 f \<longrightarrow> as_f64 N (of_f64 N f) = Some f"
  shows "from_serde_json_value N (to_json_value N v) = Inr v"
  using assms
proof (cases v)
  case (VBytes bs)
  with assms(1) show ?thesis by (simp add: from_tagged_def collect_bytes_map)
qed (use assms in \<open>simp_all add: from_tagged_def num_or_def numbers_ok_def null_text_def\<close>)

definition plain_numbers :: "(u64 + u64) numbers" where
  "plain_numbers = \<lparr>of_i64 = Inl, of_u64 = Inl, of_f64 = Inr,
     as_i64 = (\<lambda>n. case n of Inl w \<Rightarrow> Some w | Inr _ \<Rightarrow> None),
     as_u64 = (\<lambda>n. case n of Inl w \<Rightarrow> Some w | Inr _ \<Rightarrow> None),
     as_f64 = (\<lambda>n. case n of Inl _ \<Rightarrow> None | Inr w \<Rightarrow> Some w)\<rparr>"

theorem json_roundtrip_witness:
  "numbers_ok plain_numbers \<and>
   from_serde_json_value plain_numbers (to_json_value plain_numbers (VBytes [1, 255])) = Inr (VBytes [1, 255])"
proof -
  have "numbers_ok plain_numbers" by (simp add: numbers_ok_def plain_numbers_def)
  then show ?thesis using json_roundtrip [of plain_numbers "VBytes [1, 255]"] by simp
qed

end
