(* ===== verification/Lsm_Utils.thy ===== *)
theory Lsm_Utils
  imports Prelude
begin

text \<open>
  \<open>crates/f4kvs-lsm/src/utils/lsm_utils.rs\<close>: the exclusive upper bound of a range scan.  The code
  pops the last \<open>char\<close> of a UTF-8 string and pushes its successor, so the model decodes the last
  scalar value from the bytes and encodes the next one.
\<close>

subsection \<open>UTF-8\<close>

definition scalar :: "nat \<Rightarrow> bool" where
  "scalar c \<longleftrightarrow> c < 0xD800 \<or> (0xE000 \<le> c \<and> c < 0x110000)"

definition utf8_nat :: "nat \<Rightarrow> nat list" where
  "utf8_nat c =
     (if c < 0x80 then [c]
      else if c < 0x800 then [0xC0 + c div 64, 0x80 + c mod 64]
      else if c < 0x10000 then [0xE0 + c div 64 div 64, 0x80 + c div 64 mod 64, 0x80 + c mod 64]
      else [0xF0 + c div 64 div 64 div 64, 0x80 + c div 64 div 64 mod 64, 0x80 + c div 64 mod 64,
            0x80 + c mod 64])"

definition utf8 :: "nat \<Rightarrow> bytes" where
  "utf8 c = map word_of_nat (utf8_nat c)"

text \<open>\<open>String::pop\<close> on the reversed bytes: the last scalar value and the reversed rest.\<close>

fun pop_rev :: "bytes \<Rightarrow> (nat \<times> bytes) option" where
  "pop_rev [] = None"
| "pop_rev [a] = Some (unat a, [])"
| "pop_rev [a, b] =
     (if unat a < 0x80 then Some (unat a, [b]) else Some (unat b mod 32 * 64 + unat a mod 64, []))"
| "pop_rev [a, b, c] =
     (if unat a < 0x80 then Some (unat a, [b, c])
      else if 0xC0 \<le> unat b then Some (unat b mod 32 * 64 + unat a mod 64, [c])
      else Some ((unat c mod 16 * 64 + unat b mod 64) * 64 + unat a mod 64, []))"
| "pop_rev (a # b # c # d # r) =
     (if unat a < 0x80 then Some (unat a, b # c # d # r)
      else if 0xC0 \<le> unat b then Some (unat b mod 32 * 64 + unat a mod 64, c # d # r)
      else if 0xC0 \<le> unat c then
        Some ((unat c mod 16 * 64 + unat b mod 64) * 64 + unat a mod 64, d # r)
      else Some (((unat d mod 8 * 64 + unat c mod 64) * 64 + unat b mod 64) * 64 + unat a mod 64, r))"

definition exclusive_range_end :: "bytes \<Rightarrow> bytes option" where
  "exclusive_range_end end =
     (case pop_rev (rev end) of
        None \<Rightarrow> None
      | Some (c, r) \<Rightarrow> if scalar (Suc c) then Some (rev r @ utf8 (Suc c)) else Some (end @ [1]))"

lemma utf8_nat_bytes: "c < 0x110000 \<Longrightarrow> b \<in> set (utf8_nat c) \<Longrightarrow> b < 256"
  by (auto simp: utf8_nat_def split: if_splits)

lemma unat_byte: "n < 256 \<Longrightarrow> unat (word_of_nat n :: u8) = n"
  by (simp add: unat_of_nat take_bit_eq_mod)

lemma lead_mod: "q < 32 \<Longrightarrow> (192 + q) mod 32 = q" "q < 16 \<Longrightarrow> (224 + q) mod 16 = q"
  "q < 8 \<Longrightarrow> (240 + q) mod 8 = (q::nat)"
  using mod_mult_self3 [of 6 32 q] mod_mult_self3 [of 14 16 q] mod_mult_self3 [of 30 8 q] by simp_all

lemma cont_mod: "(128 + q mod 64) mod 64 = (q mod 64 :: nat)" "\<not> 64 \<le> q mod (64 :: nat)"
  using mod_mult_self3 [of 2 64 "q mod 64"] by (simp_all add: not_le)

lemma pop_rev_utf8: "c < 0x110000 \<Longrightarrow> pop_rev (rev (p @ utf8 c)) = Some (c, rev p)"
proof -
  assume c: "c < 0x110000"
  have m: "c mod 64 < 64" "c div 64 mod 64 < 64" "c div 64 div 64 mod 64 < 64" by simp_all
  consider "c < 0x80" | "0x80 \<le> c" "c < 0x800" | "0x800 \<le> c" "c < 0x10000" | "0x10000 \<le> c"
    by linarith
  then show ?thesis
  proof cases
    case 1
    then show ?thesis
      by (cases "rev p" rule: pop_rev.cases) (simp_all add: utf8_def utf8_nat_def unat_byte)
  next
    case 2
    then have d: "c div 64 < 32" by (simp add: less_mult_imp_div_less)
    with 2 m show ?thesis
      by (cases "rev p" rule: pop_rev.cases)
         (simp_all add: utf8_def utf8_nat_def unat_byte lead_mod cont_mod del: of_nat_add)
  next
    case 3
    then have d: "c div 64 div 64 < 16" by (simp add: less_mult_imp_div_less)
    with 3 m show ?thesis
      by (cases "rev p" rule: pop_rev.cases)
         (simp_all add: utf8_def utf8_nat_def unat_byte lead_mod cont_mod del: of_nat_add)
  next
    case 4
    with c have d: "c div 64 div 64 div 64 < 8" by (simp add: less_mult_imp_div_less)
    with 4 m show ?thesis
      by (cases "rev p" rule: pop_rev.cases)
         (simp_all add: utf8_def utf8_nat_def unat_byte lead_mod cont_mod del: of_nat_add)
  qed
qed

lemma exclusive_range_end_utf8:
  "c < 0x110000 \<Longrightarrow> exclusive_range_end (p @ utf8 c) =
     (if scalar (Suc c) then Some (p @ utf8 (Suc c)) else Some (p @ utf8 c @ [1]))"
  by (simp only: exclusive_range_end_def pop_rev_utf8) simp

lemma pop_rev_None: "pop_rev xs = None \<longleftrightarrow> xs = []"
  by (cases xs rule: pop_rev.cases) simp_all

lemma exclusive_range_end_None: "exclusive_range_end e = None \<longleftrightarrow> e = []"
proof -
  have "exclusive_range_end e = None \<longleftrightarrow> pop_rev (rev e) = None"
    by (auto simp: exclusive_range_end_def split: option.splits if_splits)
  then show ?thesis by (simp add: pop_rev_None)
qed

text \<open>UTF-8 keeps the order of scalar values, whatever follows: the successor's encoding lies above
  every string that starts with the scalar.\<close>

lemma digit_less: "(c::nat) < d \<Longrightarrow> c div 64 < d div 64 \<or> c div 64 = d div 64 \<and> c mod 64 < d mod 64"
proof -
  assume "c < d"
  then have "c div 64 \<le> d div 64" by (simp add: div_le_mono)
  moreover have "c mod 64 < d mod 64" if "c div 64 = d div 64"
    using \<open>c < d\<close> that div_mult_mod_eq [of c 64] div_mult_mod_eq [of d 64] by linarith
  ultimately show ?thesis by linarith
qed

lemma utf8_nat_less:
  assumes "c < d"
  shows "utf8_nat c @ r < utf8_nat d @ s"
proof -
  have q2: "c < 2048 \<Longrightarrow> c div 64 < 32" by (simp add: less_mult_imp_div_less)
  have q3: "c < 65536 \<Longrightarrow> c div 64 div 64 < 16" by (simp add: less_mult_imp_div_less)
  note l = digit_less [OF assms] digit_less [of "c div 64" "d div 64"]
    digit_less [of "c div 64 div 64" "d div 64 div 64"]
  consider "d < 0x80" | "c < 0x80" "0x80 \<le> d" | "0x80 \<le> c" "d < 0x800"
    | "0x80 \<le> c" "c < 0x800" "0x800 \<le> d" | "0x800 \<le> c" "d < 0x10000"
    | "0x800 \<le> c" "c < 0x10000" "0x10000 \<le> d" | "0x10000 \<le> c"
    by linarith
  then show ?thesis
    by cases (use assms l q2 q3 in \<open>auto simp: utf8_nat_def\<close>)
qed

definition utf8s :: "nat list \<Rightarrow> bytes" where
  "utf8s cs = concat (map utf8 cs)"

lemma utf8s_simps [simp]: "utf8s [] = []" "utf8s (c # cs) = utf8 c @ utf8s cs"
  "utf8s (xs @ ys) = utf8s xs @ utf8s ys"
  by (simp_all add: utf8s_def)

lemma map_unat_less: "xs < ys \<longleftrightarrow> map unat xs < map unat (ys :: bytes)"
proof (induction xs arbitrary: ys)
  case Nil
  then show ?case by (cases ys) simp_all
next
  case (Cons x xs)
  then show ?case by (cases ys) (auto simp: word_less_nat_alt word_unat_eq_iff)
qed

lemma map_unat_utf8: "c < 0x110000 \<Longrightarrow> map unat (utf8 c) = utf8_nat c"
  unfolding utf8_def by (simp add: map_idI unat_byte utf8_nat_bytes)

lemma utf8_less: "c < d \<Longrightarrow> d < 0x110000 \<Longrightarrow> utf8 c @ r < utf8 d @ s"
  using utf8_nat_less [of c d "map unat r" "map unat s"] by (simp add: map_unat_less map_unat_utf8)

lemma append_less_cancel: "p @ xs < p @ ys \<longleftrightarrow> xs < (ys :: 'a::linorder list)"
  by (induction p) auto

lemma utf8s_mono: "xs < ys \<Longrightarrow> \<forall>c \<in> set ys. c < 0x110000 \<Longrightarrow> utf8s xs < utf8s ys"
proof (induction xs arbitrary: ys)
  case Nil
  then obtain d ys' where "ys = d # ys'" by (cases ys) auto
  moreover have "utf8 d \<noteq> []" by (simp add: utf8_def utf8_nat_def)
  ultimately show ?case by (cases "utf8 d") auto
next
  case (Cons c xs)
  then obtain d ys' where ys: "ys = d # ys'" by (cases ys) auto
  with Cons.prems have "c < d \<or> c = d \<and> xs < ys'" by auto
  with Cons ys show ?case by (auto simp: utf8_less append_less_cancel)
qed

lemma utf8s_less_iff:
  assumes "\<forall>c \<in> set xs. c < 0x110000" and "\<forall>c \<in> set ys. c < 0x110000"
  shows "utf8s xs < utf8s ys \<longleftrightarrow> xs < ys"
  using utf8s_mono [of xs ys] utf8s_mono [of ys xs] assms by (metis less_asym not_less_iff_gr_or_eq)

lemma less_successor: "ks < cs @ [Suc c] \<longleftrightarrow> ks \<le> cs @ [c] \<or> starts_with ks (cs @ [c])"
proof (induction cs arbitrary: ks)
  case Nil
  show ?case by (cases ks) (auto simp: starts_with_def less_Suc_eq)
next
  case (Cons d cs)
  show ?case
  proof (cases ks)
    case (Cons k ks')
    with Cons.IH [of ks'] show ?thesis by (auto simp: starts_with_def)
  qed (simp add: starts_with_def)
qed

text \<open>
  what the range scans use as the exclusive bound of \<open>..end\<close>: a key lies below it exactly when
  it is at most \<open>end\<close> or extends \<open>end\<close>.  So \<open>scan_range\<close> is inclusive of \<open>end\<close> and of every key
  \<open>end\<close> is a prefix of.  Stated for every UTF-8 string whose last scalar has a successor.
\<close>

theorem range_end_meaning:
  assumes "\<forall>x \<in> set ks. x < 0x110000" and "\<forall>x \<in> set cs. x < 0x110000" and "scalar (Suc c)"
  shows "\<exists>b. exclusive_range_end (utf8s (cs @ [c])) = Some b \<and>
             (utf8s ks < b \<longleftrightarrow> utf8s ks \<le> utf8s (cs @ [c]) \<or> starts_with ks (cs @ [c]))"
proof -
  have c: "Suc c < 0x110000" using assms(3) by (auto simp: scalar_def)
  have b: "exclusive_range_end (utf8s (cs @ [c])) = Some (utf8s (cs @ [Suc c]))"
    using c assms(3) exclusive_range_end_utf8 [of c "utf8s cs"] by simp
  have le: "utf8s ks \<le> utf8s (cs @ [c]) \<longleftrightarrow> ks \<le> cs @ [c]"
    using utf8s_less_iff [of "cs @ [c]" ks] assms(1,2) c by (auto simp: not_less [symmetric])
  have lt: "utf8s ks < utf8s (cs @ [Suc c]) \<longleftrightarrow> ks < cs @ [Suc c]"
    using utf8s_less_iff [of ks "cs @ [Suc c]"] assms(1,2) c by auto
  from b show ?thesis
    unfolding lt [symmetric] le less_successor [symmetric] by (auto simp: lt)
qed

theorem range_end_meaning_witness:
  "\<exists>b. exclusive_range_end (utf8s ([117, 58] @ [51])) = Some b \<and>
       (utf8s [117, 58, 51, 53] < b \<longleftrightarrow>
        utf8s [117, 58, 51, 53] \<le> utf8s ([117, 58] @ [51]) \<or> starts_with [117, 58, 51, 53 :: nat] ([117, 58] @ [51]))"
  by (rule range_end_meaning) (simp_all add: scalar_def)

end
