(* ===== verification/Memtable.thy ===== *)
theory Memtable
  imports BTree_Map Value_Model Lsm_Utils
begin

text \<open>
  \<open>crates/f4kvs-lsm/src/storage/memtable.rs\<close>.  The sorted data is a \<open>BTreeMap\<close> (theory
  \<open>BTree_Map\<close>); \<open>size\<close> and \<open>entry_count\<close> are the tracked counters, on \<open>nat\<close>, whose truncated
  subtraction is \<open>saturating_sub\<close>.  A deleted key is stored with the value \<open>Null\<close>.
\<close>

record 'n memtable =
  mt_max :: nat
  mt_data :: "(key, 'n val) bt"
  mt_size :: nat
  mt_count :: nat

datatype put_effect = Inserted | UpdatedLive | Resurrected

datatype 'n lookup_result = Found "'n val" | Tombstone | Missing

definition mt_new :: "nat \<Rightarrow> 'n memtable" where
  "mt_new mx = \<lparr>mt_max = mx, mt_data = [], mt_size = 0, mt_count = 0\<rparr>"

definition mt_put ::
  "('n json \<Rightarrow> bytes) \<Rightarrow> key \<Rightarrow> 'n val \<Rightarrow> 'n memtable \<Rightarrow> 'n memtable \<times> put_effect" where
  "mt_put js k v m =
     (let old = bt_get (mt_data m) k;
          effect = (case old of None \<Rightarrow> Inserted | Some VNull \<Rightarrow> Resurrected | Some _ \<Rightarrow> UpdatedLive);
          m1 = (case old of
                  Some ov \<Rightarrow> m\<lparr>mt_size := mt_size m - (length k + serialized_size js ov)
                                          + (length k + serialized_size js v)\<rparr>
                | None \<Rightarrow> m\<lparr>mt_size := mt_size m + (length k + serialized_size js v),
                             mt_count := mt_count m + 1\<rparr>)
      in (m1\<lparr>mt_data := bt_insert k v (mt_data m)\<rparr>, effect))"

definition mt_delete :: "('n json \<Rightarrow> bytes) \<Rightarrow> key \<Rightarrow> 'n memtable \<Rightarrow> 'n memtable" where
  "mt_delete js k m =
     (let m1 = (case bt_get (mt_data m) k of
                  Some ov \<Rightarrow> m\<lparr>mt_size := mt_size m - (length k + serialized_size js ov)\<rparr>
                | None \<Rightarrow> m\<lparr>mt_count := mt_count m + 1\<rparr>);
          m2 = m1\<lparr>mt_size := mt_size m1 + (length k + 1)\<rparr>
      in m2\<lparr>mt_data := bt_insert k VNull (mt_data m)\<rparr>)"

definition mt_lookup :: "'n memtable \<Rightarrow> key \<Rightarrow> 'n lookup_result" where
  "mt_lookup m k =
     (case bt_get (mt_data m) k of Some VNull \<Rightarrow> Tombstone | Some v \<Rightarrow> Found v | None \<Rightarrow> Missing)"

definition mt_get :: "'n memtable \<Rightarrow> key \<Rightarrow> 'n val option" where
  "mt_get m k =
     (case bt_get (mt_data m) k of Some v \<Rightarrow> if is_null v then None else Some v | None \<Rightarrow> None)"

definition mt_exists :: "'n memtable \<Rightarrow> key \<Rightarrow> bool" where
  "mt_exists m k = (case bt_get (mt_data m) k of Some v \<Rightarrow> \<not> is_null v | None \<Rightarrow> False)"

definition mt_is_tombstone :: "'n memtable \<Rightarrow> key \<Rightarrow> bool" where
  "mt_is_tombstone m k = (case bt_get (mt_data m) k of Some v \<Rightarrow> is_null v | None \<Rightarrow> False)"

definition mt_is_full :: "'n memtable \<Rightarrow> bool" where
  "mt_is_full m \<longleftrightarrow> mt_max m \<le> mt_size m"

definition mt_clear :: "'n memtable \<Rightarrow> 'n memtable" where
  "mt_clear m = m\<lparr>mt_data := [], mt_size := 0, mt_count := 0\<rparr>"

text \<open>The scans.  A range scan whose start lies above its bound panics inside \<open>BTreeMap::range\<close>:
  \<open>None\<close>.\<close>

definition first_if_prefix :: "key \<Rightarrow> (key, 'n val) bt \<Rightarrow> key option" where
  "first_if_prefix p m =
     (case m of [] \<Rightarrow> None | (k, _) # _ \<Rightarrow> if starts_with k p then Some k else None)"

definition first_key_after_map :: "(key, 'n val) bt \<Rightarrow> key \<Rightarrow> key option \<Rightarrow> key option" where
  "first_key_after_map data p after =
     (case after of Some a \<Rightarrow> first_if_prefix p (bt_after a data) | None \<Rightarrow> first_if_prefix p (bt_from p data))"

definition mt_first_key_after :: "'n memtable \<Rightarrow> key \<Rightarrow> key option \<Rightarrow> key option" where
  "mt_first_key_after m p after = first_key_after_map (mt_data m) p after"

definition with_deleted :: "(key, 'n val) bt \<Rightarrow> (key \<times> 'n val \<times> bool) list" where
  "with_deleted m = map (\<lambda>(k, v). (k, v, is_null v)) m"

definition mt_scan_prefix_layer :: "'n memtable \<Rightarrow> key \<Rightarrow> (key \<times> 'n val \<times> bool) list" where
  "mt_scan_prefix_layer m p =
     with_deleted (takeWhile (\<lambda>(k, _). starts_with k p) (bt_from p (mt_data m)))"

definition mt_scan_prefix :: "'n memtable \<Rightarrow> key \<Rightarrow> key list" where
  "mt_scan_prefix m p =
     map fst (filter (\<lambda>(_, v). \<not> is_null v)
       (takeWhile (\<lambda>(k, _). starts_with k p) (bt_from p (mt_data m))))"

definition mt_scan_range_layer :: "'n memtable \<Rightarrow> key \<Rightarrow> key \<Rightarrow> (key \<times> 'n val \<times> bool) list option" where
  "mt_scan_range_layer m s e =
     (case exclusive_range_end e of
        Some b \<Rightarrow> map_option with_deleted (bt_range s b (mt_data m))
      | None \<Rightarrow> Some (with_deleted (bt_from s (mt_data m))))"

definition mt_scan_range :: "'n memtable \<Rightarrow> key \<Rightarrow> key \<Rightarrow> key list option" where
  "mt_scan_range m s e =
     map_option (\<lambda>es. map fst (filter (\<lambda>(_, _, d). \<not> d) es)) (mt_scan_range_layer m s e)"

definition mt_get_all_entries :: "'n memtable \<Rightarrow> (key \<times> 'n val \<times> bool) list" where
  "mt_get_all_entries m = with_deleted (mt_data m)"

subsection \<open>Invariant and contract\<close>

text \<open>
  The data is sorted, the entry counter is the number of keys, and the size counter is at least the
  size of the data: it may drift above it (a tombstone adds one byte that overwriting it does not
  take back), never below, so \<open>saturating_sub\<close> never saturates.
\<close>

definition data_size :: "('n json \<Rightarrow> bytes) \<Rightarrow> (key, 'n val) bt \<Rightarrow> nat" where
  "data_size js m = sum_list (map (\<lambda>(k, v). length k + serialized_size js v) m)"

definition mt_inv :: "('n json \<Rightarrow> bytes) \<Rightarrow> 'n memtable \<Rightarrow> bool" where
  "mt_inv js m \<longleftrightarrow> bt_ok (mt_data m) \<and> mt_count m = length (mt_data m) \<and> data_size js (mt_data m) \<le> mt_size m"

lemma data_size_ge: "bt_get m k = Some v \<Longrightarrow> length k + serialized_size js v \<le> data_size js m"
proof (induction m)
  case (Cons p m)
  then show ?case by (cases p) (auto simp: data_size_def split: if_splits)
qed simp

lemma data_size_insert: "bt_ok m \<Longrightarrow>
  data_size js (bt_insert k v m) +
    (case bt_get m k of None \<Rightarrow> 0 | Some ov \<Rightarrow> length k + serialized_size js ov) =
  data_size js m + (length k + serialized_size js v)"
proof (induction k v m rule: bt_insert.induct)
  case (1 k v)
  then show ?case by (simp add: data_size_def)
next
  case (2 k v k' v' m)
  have "bt_get m k = None" if "k < k'"
    using 2(2) that by (force simp: bt_ok_Cons bt_get_None)
  with 2 show ?case by (auto simp: bt_ok_Cons data_size_def split: option.splits)
qed

lemma mt_inv_new [wf_intro]: "mt_inv js (mt_new mx)"
  by (simp add: mt_inv_def mt_new_def data_size_def)

lemma mt_inv_put [wf_intro]: "mt_inv js m \<Longrightarrow> mt_inv js (fst (mt_put js k v m))"
  using data_size_insert [of "mt_data m" js k v] data_size_ge [of "mt_data m" k _ js]
  by (auto simp: mt_inv_def mt_put_def Let_def bt_ok_insert length_bt_insert split: option.splits)

lemma mt_inv_delete [wf_intro]: "mt_inv js m \<Longrightarrow> mt_inv js (mt_delete js k m)"
  using data_size_insert [of "mt_data m" js k VNull] data_size_ge [of "mt_data m" k _ js]
  by (auto simp: mt_inv_def mt_delete_def Let_def bt_ok_insert length_bt_insert split: option.splits)

lemma mt_inv_clear [wf_intro]: "mt_inv js (mt_clear m)"
  by (simp add: mt_inv_def mt_clear_def data_size_def)

lemma mt_data_put: "mt_data (fst (mt_put js k v m)) = bt_insert k v (mt_data m)"
  by (simp add: mt_put_def Let_def)

lemma mt_data_delete: "mt_data (mt_delete js k m) = bt_insert k VNull (mt_data m)"
  by (simp add: mt_delete_def Let_def split: option.splits)

lemma mt_max_put [simp]: "mt_max (fst (mt_put js k v m)) = mt_max m"
  by (simp add: mt_put_def Let_def split: option.splits)

lemma mt_max_delete [simp]: "mt_max (mt_delete js k m) = mt_max m"
  by (simp add: mt_delete_def Let_def split: option.splits)

definition stored :: "'n val \<Rightarrow> 'n lookup_result" where
  "stored v = (case v of VNull \<Rightarrow> Tombstone | _ \<Rightarrow> Found v)"

lemma stored_simps [simp]: "stored VNull = Tombstone" "v \<noteq> VNull \<Longrightarrow> stored v = Found v"
  "stored v = Tombstone \<longleftrightarrow> v = VNull" "stored v \<noteq> Missing"
  by (cases v; simp add: stored_def)+

lemma mt_lookup_alt:
  "mt_lookup m k = (case bt_get (mt_data m) k of None \<Rightarrow> Missing | Some v \<Rightarrow> stored v)"
  by (auto simp: mt_lookup_def stored_def split: option.splits val.splits)

lemma mt_lookup_put [store_simps]: "mt_inv js m \<Longrightarrow>
  mt_lookup (fst (mt_put js k v m)) = (mt_lookup m)(k := stored v)"
  by (auto simp: fun_eq_iff mt_lookup_alt mt_data_put bt_get_insert mt_inv_def)

lemma mt_lookup_delete [store_simps]: "mt_inv js m \<Longrightarrow>
  mt_lookup (mt_delete js k m) = (mt_lookup m)(k := Tombstone)"
  by (auto simp: fun_eq_iff mt_lookup_alt mt_data_delete bt_get_insert mt_inv_def)

lemma mt_lookup_new [simp]: "mt_lookup (mt_new mx) k = Missing"
  by (simp add: mt_lookup_def mt_new_def)

lemma mt_get_lookup: "mt_get m k = (case mt_lookup m k of Found v \<Rightarrow> Some v | _ \<Rightarrow> None)"
  by (auto simp: mt_get_def mt_lookup_def split: option.splits val.splits)

lemma mt_exists_lookup: "mt_exists m k \<longleftrightarrow> (\<exists>v. mt_lookup m k = Found v)"
  by (auto simp: mt_exists_def mt_lookup_def split: option.splits val.splits)

lemma mt_is_tombstone_lookup: "mt_is_tombstone m k \<longleftrightarrow> mt_lookup m k = Tombstone"
  by (auto simp: mt_is_tombstone_def mt_lookup_def split: option.splits val.splits)

text \<open>
  C31: the memtable is a map with tombstones.  Reads after a put or a delete, the effect reported by
  a put, and the counters: one entry per distinct key, a size never below the data's.
\<close>

theorem memtable_contract:
  assumes "mt_inv js m"
  shows "mt_inv js (fst (mt_put js k v m)) \<and> mt_inv js (mt_delete js k m)
    \<and> mt_lookup (fst (mt_put js k v m)) = (mt_lookup m)(k := if v = VNull then Tombstone else Found v)
    \<and> mt_lookup (mt_delete js k m) = (mt_lookup m)(k := Tombstone)
    \<and> snd (mt_put js k v m) =
        (case mt_lookup m k of Missing \<Rightarrow> Inserted | Tombstone \<Rightarrow> Resurrected | Found _ \<Rightarrow> UpdatedLive)
    \<and> mt_count (mt_delete js k m) = mt_count m + (if mt_lookup m k = Missing then 1 else 0)
    \<and> data_size js (mt_data (mt_delete js k m)) \<le> mt_size (mt_delete js k m)"
proof -
  have "snd (mt_put js k v m) =
      (case mt_lookup m k of Missing \<Rightarrow> Inserted | Tombstone \<Rightarrow> Resurrected | Found _ \<Rightarrow> UpdatedLive)"
    by (auto simp: mt_put_def Let_def mt_lookup_def split: option.splits val.splits)
  moreover have "mt_count (mt_delete js k m) = mt_count m + (if mt_lookup m k = Missing then 1 else 0)"
    by (auto simp: mt_delete_def Let_def mt_lookup_alt split: option.splits)
  moreover have "stored v = (if v = VNull then Tombstone else Found v)" by simp
  ultimately show ?thesis
    using assms mt_inv_put mt_inv_delete [OF assms, of k]
    by (auto simp: store_simps mt_inv_def)
qed

theorem memtable_contract_witness:
  "mt_count (mt_delete (\<lambda>_. []) [97] (mt_new 10 :: nat memtable)) = 1"
proof -
  have "mt_inv (\<lambda>_. []) (mt_new 10 :: nat memtable)" by (rule mt_inv_new)
  from memtable_contract [OF this, of "[97]" VNull] show ?thesis
    by (simp add: mt_new_def mt_lookup_def)
qed

end
