(* ===== verification/Flat_Index.thy ===== *)
theory Flat_Index
  imports BTree_Map
begin

text \<open>
  The packed index of an SSTable, \<open>crates/f4kvs-lsm/src/storage/flat_index.rs\<close>: the records
  \<open>key_len, key, file_off, size\<close> packed in one buffer and a table of their offsets; binary search
  over the table; the \<open>F4IX\<close> file format and the decoder that also accepts the older bincode map.
  Every access to the buffer is a slice that may panic, so a lookup has an outer option whose
  \<open>None\<close> is the panic.  The locale \<open>sorted_index\<close> states what the table relies on.
\<close>

record flat_index =
  fi_data :: bytes
  fi_off :: "u32 list"

type_synonym loc = "u64 \<times> u32"

definition fi_empty :: flat_index where
  "fi_empty = \<lparr>fi_data = [], fi_off = []\<rparr>"

definition fi_record :: "key \<Rightarrow> loc \<Rightarrow> bytes" where
  "fi_record k l = u32_to_le (word_of_nat (length k)) @ k @ u64_to_le (fst l) @ u32_to_le (snd l)"

text \<open>The body of the loop of \<open>from_sorted\<close>; \<open>data.len() as u32\<close> truncates.\<close>

definition fi_push :: "key \<times> loc \<Rightarrow> flat_index \<Rightarrow> flat_index" where
  "fi_push p idx = \<lparr>fi_data = fi_data idx @ fi_record (fst p) (snd p),
                    fi_off = fi_off idx @ [word_of_nat (length (fi_data idx))]\<rparr>"

definition from_sorted :: "(key \<times> loc) list \<Rightarrow> flat_index" where
  "from_sorted ps = fold fi_push ps fi_empty"

definition fi_len :: "flat_index \<Rightarrow> nat" where
  "fi_len idx = length (fi_off idx)"

definition record_at_off :: "bytes \<Rightarrow> nat \<Rightarrow> (key \<times> loc) option" where
  "record_at_off buf off =
     (case slice buf off (off + 4) of None \<Rightarrow> None | Some kl \<Rightarrow>
      let klen = unat (u32_from_le kl); l = off + 4 + klen in
      case slice buf (off + 4) l of None \<Rightarrow> None | Some k \<Rightarrow>
      case slice buf l (l + 8) of None \<Rightarrow> None | Some fo \<Rightarrow>
      case slice buf (l + 8) (l + 12) of None \<Rightarrow> None | Some sz \<Rightarrow>
      Some (k, u64_from_le fo, u32_from_le sz))"

definition key_at_off :: "bytes \<Rightarrow> nat \<Rightarrow> key option" where
  "key_at_off buf off = map_option fst (record_at_off buf off)"

definition fi_at :: "flat_index \<Rightarrow> nat \<Rightarrow> (key \<times> loc) option option" where
  "fi_at idx i =
     (if fi_len idx \<le> i then Some None
      else map_option Some (record_at_off (fi_data idx) (unat (fi_off idx ! i))))"

text \<open>\<open>slice::partition_point\<close> with a predicate that may panic.\<close>

function pp_search_m :: "('a \<Rightarrow> bool option) \<Rightarrow> 'a list \<Rightarrow> nat \<Rightarrow> nat \<Rightarrow> nat option" where
  "pp_search_m P xs lo hi =
     (if lo < hi then
        (case P (xs ! (lo + (hi - lo) div 2)) of
           None \<Rightarrow> None
         | Some b \<Rightarrow> if b then pp_search_m P xs (Suc (lo + (hi - lo) div 2)) hi
                    else pp_search_m P xs lo (lo + (hi - lo) div 2))
      else Some lo)"
  by pat_completeness auto
termination
  by (relation "measure (\<lambda>(P, xs, lo, hi). hi - lo)") auto

declare pp_search_m.simps [simp del]

definition fi_partition_point :: "flat_index \<Rightarrow> key \<Rightarrow> nat option" where
  "fi_partition_point idx k =
     pp_search_m (\<lambda>off. map_option (\<lambda>k'. k' < k) (key_at_off (fi_data idx) (unat off)))
       (fi_off idx) 0 (length (fi_off idx))"

definition fi_get :: "flat_index \<Rightarrow> key \<Rightarrow> loc option option" where
  "fi_get idx k =
     (case fi_partition_point idx k of None \<Rightarrow> None | Some i \<Rightarrow>
      case fi_at idx i of None \<Rightarrow> None | Some None \<Rightarrow> Some None
      | Some (Some (k', l)) \<Rightarrow> Some (if k' = k then Some l else None))"

subsection \<open>The file format\<close>

definition fi_magic :: bytes where "fi_magic = [0x46, 0x34, 0x49, 0x58]"
definition fi_version :: u8 where "fi_version = 1"

definition fi_encode :: "flat_index \<Rightarrow> bytes" where
  "fi_encode idx = fi_magic @ [fi_version] @ u32_to_le (word_of_nat (length (fi_off idx)))
     @ concat (map u32_to_le (fi_off idx)) @ fi_data idx"

fun read_offs :: "nat \<Rightarrow> bytes \<Rightarrow> u32 list" where
  "read_offs 0 buf = []"
| "read_offs (Suc n) buf = u32_from_le (take 4 buf) # read_offs n (drop 4 buf)"

definition decode_v1 :: "bytes \<Rightarrow> flat_index res" where
  "decode_v1 buf =
     (if buf ! 4 \<noteq> fi_version then Inl (Serialization ''unsupported F4IX version'')
      else if length buf < 9 then Inl (Serialization ''truncated F4IX header'')
      else let count = unat (u32_from_le (take 4 (drop 5 buf))); records = 9 + count * 4 in
           if length buf < records then Inl (Serialization ''truncated F4IX offset table'')
           else Inr \<lparr>fi_data = drop records buf, fi_off = read_offs count (drop 9 buf)\<rparr>)"

text \<open>\<open>unbin\<close> is \<open>bincode::deserialize\<close> at the type of the older format, a map by key.\<close>

definition decode_bincode :: "(bytes \<Rightarrow> (key \<times> loc) list option) \<Rightarrow> bytes \<Rightarrow> flat_index res" where
  "decode_bincode unbin buf =
     (case unbin buf of None \<Rightarrow> Inl (Serialization ''Failed to deserialize index'')
      | Some m \<Rightarrow> Inr (from_sorted m))"

definition fi_decode :: "(bytes \<Rightarrow> (key \<times> loc) list option) \<Rightarrow> bytes \<Rightarrow> flat_index res" where
  "fi_decode unbin buf =
     (if 5 \<le> length buf \<and> starts_with buf fi_magic then decode_v1 buf else decode_bincode unbin buf)"

subsection \<open>The monadic search follows the plain one\<close>

lemma pp_search_m_done [simp]: "\<not> lo < hi \<Longrightarrow> pp_search_m P xs lo hi = Some lo"
  by (simp add: pp_search_m.simps [of P xs lo hi])

lemma pp_search_m_Some:
  "hi \<le> length xs \<Longrightarrow> (\<And>x. x \<in> set xs \<Longrightarrow> P x = Some (Q x)) \<Longrightarrow>
   pp_search_m P xs lo hi = Some (pp_search Q xs lo hi)"
proof (induction "hi - lo" arbitrary: lo hi rule: less_induct)
  case less
  show ?case
  proof (cases "lo < hi")
    case True
    define m where m_def: "m = lo + (hi - lo) div 2"
    then have m: "lo \<le> m" "m < hi" "m < length xs" using True less.prems(1) by auto
    then have P: "P (xs ! m) = Some (Q (xs ! m))" using less.prems(2) by simp
    have up: "pp_search_m P xs (Suc m) hi = Some (pp_search Q xs (Suc m) hi)"
      using less.hyps [of hi "Suc m"] less.prems m by simp
    have down: "pp_search_m P xs lo m = Some (pp_search Q xs lo m)"
      using less.hyps [of m lo] less.prems m by simp
    show ?thesis
      using P up down True pp_search_step [OF True m_def, of Q xs]
      by (simp add: pp_search_m.simps [of P xs lo hi] flip: m_def)
  qed simp
qed

subsection \<open>The interface of an index\<close>

text \<open>
  What the table asks of its index: an entry list strictly sorted by key, lookups and seeks that
  are those of the list, and no panic on a well-formed index.
\<close>

locale sorted_index =
  fixes entries :: "'i \<Rightarrow> (key \<times> 'l) list"
    and get :: "'i \<Rightarrow> key \<Rightarrow> 'l option option"
    and nth_entry :: "'i \<Rightarrow> nat \<Rightarrow> (key \<times> 'l) option option"
    and seek :: "'i \<Rightarrow> key \<Rightarrow> nat option"
    and ok :: "'i \<Rightarrow> bool"
  assumes ok_sorted: "ok x \<Longrightarrow> bt_ok (entries x)"
    and seek_spec: "ok x \<Longrightarrow> seek x k = Some (length (takeWhile (\<lambda>(k', _). k' < k) (entries x)))"
    and nth_spec: "ok x \<Longrightarrow>
      nth_entry x i = Some (if i < length (entries x) then Some (entries x ! i) else None)"
    and get_spec: "ok x \<Longrightarrow> get x k =
      (case seek x k of None \<Rightarrow> None | Some i \<Rightarrow> case nth_entry x i of None \<Rightarrow> None
       | Some None \<Rightarrow> Some None | Some (Some (k', l)) \<Rightarrow> Some (if k' = k then Some l else None))"
begin

lemma drop_seek:
  assumes "ok x" and "seek x k = Some i"
  shows "drop i (entries x) = filter (\<lambda>(k', _). k \<le> k') (entries x)"
proof -
  have "i = length (takeWhile (\<lambda>(k', _). k' < k) (entries x))"
    using assms seek_spec by simp
  then have "drop i (entries x) = dropWhile (\<lambda>(k', _). k' < k) (entries x)"
    by (simp add: dropWhile_eq_drop)
  then show ?thesis using bt_dropWhile [OF ok_sorted [OF assms(1)]] by simp
qed

text \<open>The exact lookup is the lookup in the entry list, and it never panics.\<close>

lemma get_map: "ok x \<Longrightarrow> get x k = Some (bt_get (entries x) k)"
proof -
  assume ok: "ok x"
  let ?es = "entries x"
  let ?i = "length (takeWhile (\<lambda>(k', _). k' < k) ?es)"
  have s: "seek x k = Some ?i" by (rule seek_spec [OF ok])
  have d: "drop ?i ?es = filter (\<lambda>(k', _). k \<le> k') ?es" by (rule drop_seek [OF ok s])
  have sorted: "bt_ok (filter (\<lambda>(k', _). k \<le> k') ?es)"
    by (rule bt_ok_filter [OF ok_sorted [OF ok]])
  have same: "bt_get ?es k = bt_get (filter (\<lambda>(k', _). k \<le> k') ?es) k"
    using bt_get_filter [OF ok_sorted [OF ok], of "\<lambda>k'. k \<le> k'" k] by simp
  show ?thesis
  proof (cases "filter (\<lambda>(k', _). k \<le> k') ?es")
    case Nil
    then have "length ?es \<le> ?i" using d by simp
    with Nil same ok show ?thesis by (simp add: get_spec s nth_spec)
  next
    case (Cons e rest)
    obtain a l where e: "e = (a, l)" by (cases e)
    have "?i < length ?es" using d Cons by (metis drop_eq_Nil list.distinct(1) not_le)
    moreover have "?es ! ?i = (a, l)" using d Cons e calculation by (metis hd_drop_conv_nth list.sel(1))
    moreover have "k \<le> a" using Cons e by (auto simp: filter_eq_Cons_iff)
    moreover have "bt_get rest k = None" if "k < a"
      using sorted Cons e that by (force simp: bt_ok_Cons bt_get_None)
    ultimately show ?thesis
      using same Cons e ok by (auto simp: get_spec s nth_spec)
  qed
qed

end

subsection \<open>The packed index implements it\<close>

text \<open>The records of \<open>ps\<close>, the first at offset \<open>base\<close>.\<close>

fun rec_offs :: "nat \<Rightarrow> (key \<times> loc) list \<Rightarrow> nat list" where
  "rec_offs base [] = []"
| "rec_offs base (p # ps) = base # rec_offs (base + length (fi_record (fst p) (snd p))) ps"

definition fi_recs :: "(key \<times> loc) list \<Rightarrow> bytes" where
  "fi_recs ps = concat (map (\<lambda>(k, l). fi_record k l) ps)"

lemma length_rec_offs [simp]: "length (rec_offs b ps) = length ps"
  by (induction ps arbitrary: b) auto

lemma fi_recs_Cons: "fi_recs (p # ps) = fi_record (fst p) (snd p) @ fi_recs ps"
  by (simp add: fi_recs_def split_def)

lemma fold_fi_push:
  "fold fi_push ps idx = \<lparr>fi_data = fi_data idx @ fi_recs ps,
     fi_off = fi_off idx @ map word_of_nat (rec_offs (length (fi_data idx)) ps)\<rparr>"
proof (induction ps arbitrary: idx)
  case Nil
  then show ?case by (simp add: fi_recs_def)
next
  case (Cons p ps)
  then show ?case by (simp add: fi_push_def fi_recs_Cons)
qed

lemma from_sorted_eq:
  "from_sorted ps = \<lparr>fi_data = fi_recs ps, fi_off = map word_of_nat (rec_offs 0 ps)\<rparr>"
  by (simp add: from_sorted_def fold_fi_push fi_empty_def)

lemma record_at_mid:
  assumes "length k < 4294967296"
  shows "record_at_off (pre @ fi_record k l @ post) (length pre) = Some (k, l)"
proof -
  let ?K = "u32_to_le (word_of_nat (length k))"
  let ?b = "pre @ fi_record k l @ post"
  have s1: "slice ?b (length pre) (length pre + 4) = Some ?K"
    by (simp add: fi_record_def slice_mid')
  have s2: "slice ?b (length pre + 4) (length pre + 4 + length k) = Some k"
    using slice_mid' [of "length pre + 4" "pre @ ?K" _ k] by (simp add: fi_record_def)
  have s3: "slice ?b (length pre + 4 + length k) (length pre + 4 + length k + 8) = Some (u64_to_le (fst l))"
    using slice_mid' [of "length pre + 4 + length k" "pre @ ?K @ k" _ "u64_to_le (fst l)"]
    by (simp add: fi_record_def)
  have s4: "slice ?b (length pre + 4 + length k + 8) (length pre + 4 + length k + 12) = Some (u32_to_le (snd l))"
    using slice_mid' [of "length pre + 4 + length k + 8" "pre @ ?K @ k @ u64_to_le (fst l)" _ "u32_to_le (snd l)"]
    by (simp add: fi_record_def)
  have klen: "unat (u32_from_le ?K) = length k"
    using assms by (simp add: unat_u32_of_nat)
  show ?thesis
    unfolding record_at_off_def using s1 s2 s3 s4 klen by (simp add: Let_def)
qed

lemma record_at_rec_offs:
  assumes "\<forall>(k, l) \<in> set ps. length k < 4294967296" and "i < length ps"
  shows "record_at_off (pre @ fi_recs ps) (rec_offs (length pre) ps ! i) = Some (ps ! i)"
  using assms
proof (induction ps arbitrary: pre i)
  case (Cons p ps)
  obtain k l where p: "p = (k, l)" by (cases p)
  show ?case
  proof (cases i)
    case 0
    with p Cons.prems show ?thesis
      using record_at_mid [of k pre l "fi_recs ps"] by (simp add: fi_recs_Cons)
  next
    case (Suc j)
    with Cons.IH [of j "pre @ fi_record k l"] Cons.prems p show ?thesis
      by (simp add: fi_recs_Cons)
  qed
qed simp

lemma rec_offs_bound: "o' \<in> set (rec_offs b ps) \<Longrightarrow> o' < b + length (fi_recs ps)"
proof (induction ps arbitrary: b)
  case (Cons p ps)
  have pos: "0 < length (fi_record (fst p) (snd p))" by (simp add: fi_record_def)
  from Cons.prems consider "o' = b" | "o' \<in> set (rec_offs (b + length (fi_record (fst p) (snd p))) ps)"
    by auto
  then show ?case
  proof cases
    case 1
    then show ?thesis using pos by (simp add: fi_recs_Cons)
  next
    case 2
    from Cons.IH [OF this] show ?thesis by (simp add: fi_recs_Cons)
  qed
qed simp

text \<open>The offsets are kept as \<open>u32\<close>, so the records must fit in 4 GiB.\<close>

definition fi_fits :: "(key \<times> loc) list \<Rightarrow> bool" where
  "fi_fits ps \<longleftrightarrow> bt_ok ps \<and> length (fi_recs ps) \<le> 4294967296"

lemma fi_fits_key: "fi_fits ps \<Longrightarrow> \<forall>(k, l) \<in> set ps. length k < 4294967296"
proof -
  have "(k, l) \<in> set ps \<Longrightarrow> length (fi_record k l) \<le> length (fi_recs ps)" for k l
  proof (induction ps)
    case (Cons p ps)
    then show ?case by (auto simp: fi_recs_Cons)
  qed simp
  then show "fi_fits ps \<Longrightarrow> ?thesis" by (fastforce simp: fi_fits_def fi_record_def)
qed

lemma fi_off_nat:
  assumes "fi_fits ps" and "i < length ps"
  shows "unat (fi_off (from_sorted ps) ! i) = rec_offs 0 ps ! i"
proof -
  have "rec_offs 0 ps ! i < 4294967296"
    using rec_offs_bound [of "rec_offs 0 ps ! i" 0 ps] assms by (simp add: fi_fits_def)
  with assms show ?thesis by (simp add: from_sorted_eq unat_u32_of_nat)
qed

lemma fi_record_at:
  assumes "fi_fits ps" and "i < length ps"
  shows "record_at_off (fi_data (from_sorted ps)) (unat (fi_off (from_sorted ps) ! i)) = Some (ps ! i)"
  using record_at_rec_offs [OF fi_fits_key [OF assms(1)] assms(2), of "[]"] fi_off_nat [OF assms]
  by (simp add: from_sorted_eq)

lemma fi_at_from_sorted:
  "fi_fits ps \<Longrightarrow> fi_at (from_sorted ps) i = Some (if i < length ps then Some (ps ! i) else None)"
  using fi_record_at [of ps i] by (simp add: fi_at_def fi_len_def from_sorted_eq)

definition fi_entries :: "flat_index \<Rightarrow> (key \<times> loc) list" where
  "fi_entries idx = map (\<lambda>off. the (record_at_off (fi_data idx) (unat off))) (fi_off idx)"

definition fi_ok :: "flat_index \<Rightarrow> bool" where
  "fi_ok idx \<longleftrightarrow> (\<forall>off \<in> set (fi_off idx). record_at_off (fi_data idx) (unat off) \<noteq> None) \<and> bt_ok (fi_entries idx)"

lemma fi_entries_from_sorted: "fi_fits ps \<Longrightarrow> fi_entries (from_sorted ps) = ps"
  by (rule nth_equalityI)
     (use fi_record_at in \<open>auto simp: fi_entries_def from_sorted_eq\<close>)

lemma fi_ok_from_sorted: "fi_fits ps \<Longrightarrow> fi_ok (from_sorted ps)"
  unfolding fi_ok_def
proof (intro conjI ballI)
  fix off assume fits: "fi_fits ps" and "off \<in> set (fi_off (from_sorted ps))"
  then obtain i where "i < length ps" "off = fi_off (from_sorted ps) ! i"
    by (auto simp: in_set_conv_nth from_sorted_eq)
  with fi_record_at [OF fits] show "record_at_off (fi_data (from_sorted ps)) (unat off) \<noteq> None" by simp
qed (simp add: fi_entries_from_sorted, simp add: fi_fits_def)

lemma fi_seek: "fi_ok idx \<Longrightarrow>
  fi_partition_point idx k = Some (length (takeWhile (\<lambda>(k', _). k' < k) (fi_entries idx)))"
proof -
  assume ok: "fi_ok idx"
  let ?rec = "\<lambda>off. the (record_at_off (fi_data idx) (unat off))"
  let ?Q = "\<lambda>off. fst (?rec off) < k"
  have some: "map_option (\<lambda>k'. k' < k) (key_at_off (fi_data idx) (unat off)) = Some (?Q off)"
    if "off \<in> set (fi_off idx)" for off
    using ok that by (auto simp: fi_ok_def key_at_off_def)
  have part: "partitioned ?Q (fi_off idx)"
    by (rule sorted_wrt_partitioned) (use ok in \<open>simp add: fi_ok_def fi_entries_def bt_ok_def comp_def\<close>)
  have "fi_partition_point idx k = Some (partition_point ?Q (fi_off idx))"
    unfolding fi_partition_point_def partition_point_def by (rule pp_search_m_Some [OF order_refl some])
  then show ?thesis
    using partition_point_takeWhile [OF part]
    by (simp add: fi_entries_def takeWhile_map comp_def split_def)
qed

lemma fi_nth: "fi_ok idx \<Longrightarrow>
  fi_at idx i = Some (if i < length (fi_entries idx) then Some (fi_entries idx ! i) else None)"
proof (cases "i < length (fi_off idx)")
  case True
  moreover assume "fi_ok idx"
  ultimately have "record_at_off (fi_data idx) (unat (fi_off idx ! i)) \<noteq> None"
    using nth_mem unfolding fi_ok_def by blast
  with True show ?thesis by (auto simp: fi_at_def fi_len_def fi_entries_def)
qed (simp add: fi_at_def fi_len_def fi_entries_def)

interpretation fi: sorted_index fi_entries fi_get fi_at fi_partition_point fi_ok
  by unfold_locales (simp_all add: fi_ok_def [THEN iffD1] fi_seek fi_nth fi_get_def)

lemma fi_fits_count: "fi_fits ps \<Longrightarrow> length (fi_off (from_sorted ps)) < 4294967296"
proof -
  have "length ps * 16 \<le> length (fi_recs ps)"
    by (induction ps) (auto simp: fi_recs_Cons fi_record_def)
  then show "fi_fits ps \<Longrightarrow> ?thesis" by (simp add: fi_fits_def from_sorted_eq)
qed

subsection \<open>Encoding and decoding\<close>

lemma read_offs_concat [simp]: "read_offs (length os) (concat (map u32_to_le os) @ rest) = os"
  by (induction os) auto

lemma length_concat_u32 [simp]: "length (concat (map u32_to_le os)) = 4 * length os"
  by (induction os) auto

lemma fi_decode_encode:
  assumes "length (fi_off idx) < 4294967296"
  shows "fi_decode unbin (fi_encode idx) = Inr idx"
proof -
  have count: "unat (u32_from_le (u32_to_le (word_of_nat (length (fi_off idx))))) = length (fi_off idx)"
    using assms by (simp add: unat_u32_of_nat)
  have skip: "drop (9 + length (fi_off idx) * 4) (fi_encode idx) = fi_data idx"
    using drop_append [of "9 + length (fi_off idx) * 4"
        "fi_magic @ [fi_version] @ u32_to_le (word_of_nat (length (fi_off idx)))
           @ concat (map u32_to_le (fi_off idx))" "fi_data idx"]
    by (simp add: fi_encode_def fi_magic_def)
  show ?thesis
    using count skip
    by (simp add: fi_decode_def fi_encode_def fi_magic_def starts_with_def decode_v1_def Let_def)
qed

text \<open>
  C23: the packed index.  Built from strictly sorted entries whose records fit in 4 GiB, it answers
  every lookup as the entry list does, without a panic, before and after a trip through the file.
\<close>

theorem flat_index_correct:
  assumes "fi_fits ps"
  shows "fi_decode unbin (fi_encode (from_sorted ps)) = Inr (from_sorted ps)
    \<and> fi_get (from_sorted ps) k = Some (map_of ps k)
    \<and> fi_partition_point (from_sorted ps) k = Some (length (filter (\<lambda>(k', _). k' < k) ps))
    \<and> fi_at (from_sorted ps) i = Some (if i < length ps then Some (ps ! i) else None)"
proof (intro conjI)
  have ok: "fi_ok (from_sorted ps)" by (rule fi_ok_from_sorted [OF assms])
  have "length (fi_off (from_sorted ps)) < 4294967296" by (rule fi_fits_count [OF assms])
  then show "fi_decode unbin (fi_encode (from_sorted ps)) = Inr (from_sorted ps)"
    by (rule fi_decode_encode)
  show "fi_get (from_sorted ps) k = Some (map_of ps k)"
    using fi.get_map [OF ok] by (simp add: fi_entries_from_sorted [OF assms] bt_get_map_of)
  have seek: "fi_partition_point (from_sorted ps) k = Some (length (takeWhile (\<lambda>(k', _). k' < k) ps))"
    using fi_seek [OF ok] by (simp add: fi_entries_from_sorted [OF assms])
  have "bt_ok ps" using assms by (simp add: fi_fits_def)
  with seek show "fi_partition_point (from_sorted ps) k = Some (length (filter (\<lambda>(k', _). k' < k) ps))"
    by (simp add: bt_takeWhile)
  show "fi_at (from_sorted ps) i = Some (if i < length ps then Some (ps ! i) else None)"
    by (rule fi_at_from_sorted [OF assms])
qed

theorem flat_index_correct_witness:
  "fi_get (from_sorted [([97], (10, 4)), ([97, 98, 99], (20, 8))]) [97, 98, 99] = Some (Some (20, 8))"
proof -
  have "fi_fits [([97], (10, 4)), ([97, 98, 99], (20, 8))]"
    by (simp add: fi_fits_def bt_ok_def fi_recs_def fi_record_def)
  from flat_index_correct [OF this] show ?thesis by simp
qed

text \<open>
  the decoder does not check the offset table against the records.  A file of thirteen bytes
  decodes without an error, and the first lookup in it panics.
\<close>

theorem decode_accepts_bad_offsets:
  "\<exists>buf idx. length buf = 13 \<and> fi_decode unbin buf = Inr idx \<and> fi_get idx k = None"
proof (intro exI conjI)
  let ?buf = "fi_magic @ [fi_version, 1, 0, 0, 0, 0, 0, 0, 0]"
  let ?idx = "\<lparr>fi_data = [], fi_off = [0]\<rparr>"
  show "length ?buf = 13" by (simp add: fi_magic_def)
  show "fi_decode unbin ?buf = Inr ?idx"
    by (simp add: fi_decode_def fi_magic_def starts_with_def decode_v1_def fi_version_def Let_def
        u32_from_le_def)
  show "fi_get ?idx k = None"
    by (simp add: fi_get_def fi_partition_point_def pp_search_m.simps key_at_off_def
        record_at_off_def slice_def)
qed

end
