(* ===== verification/Bloom.thy ===== *)
theory Bloom
  imports Prelude
begin

text \<open>
  The Bloom filter written into an SSTable, the module \<open>bloom_filter\<close> of
  \<open>crates/f4kvs-lsm/src/storage/sstable.rs\<close>: probes, the repair of a filter whose bit vector
  and size disagree, and the byte form.  \<open>h k i\<close> stands for the standard library's
  \<open>DefaultHasher\<close> over the key and the probe number, whose algorithm is unspecified; nothing
  below depends on it.  The filter of \<open>utils/bloom.rs\<close> keeps no keys and answers yes always.
\<close>

record bloom =
  bf_bits :: "bool list"
  bf_hashes :: nat
  bf_size :: nat

definition bf_new :: "nat \<Rightarrow> nat \<Rightarrow> bloom" where
  "bf_new n hc = \<lparr>bf_bits = replicate n False, bf_hashes = hc, bf_size = n\<rparr>"

definition with_optimal_params :: "nat \<Rightarrow> bloom" where
  "with_optimal_params items = bf_new (items * 10) 7"

definition bf_is_valid :: "bloom \<Rightarrow> bool" where
  "bf_is_valid f \<longleftrightarrow> length (bf_bits f) = bf_size f \<and> 0 < bf_size f"

text \<open>\<open>Vec::resize\<close> and \<open>Vec::truncate\<close>.\<close>

definition resize :: "nat \<Rightarrow> 'a \<Rightarrow> 'a list \<Rightarrow> 'a list" where
  "resize n x xs = take n xs @ replicate (n - length xs) x"

definition validate_and_fix_invariant :: "bloom \<Rightarrow> bloom" where
  "validate_and_fix_invariant f =
     (if length (bf_bits f) \<noteq> bf_size f then
        (if length (bf_bits f) < bf_size f then f\<lparr>bf_bits := resize (bf_size f) False (bf_bits f)\<rparr>
         else f\<lparr>bf_bits := take (bf_size f) (bf_bits f)\<rparr>)
      else f)"

text \<open>One round of the loop of \<open>add\<close>.\<close>

definition bf_set :: "nat \<Rightarrow> bloom \<Rightarrow> bloom" where
  "bf_set i f =
     (if i < length (bf_bits f) then f\<lparr>bf_bits := (bf_bits f)[i := True]\<rparr>
      else let g = validate_and_fix_invariant f in
           if i < length (bf_bits g) then g\<lparr>bf_bits := (bf_bits g)[i := True]\<rparr> else g)"

definition bf_index :: "(key \<Rightarrow> nat \<Rightarrow> u64) \<Rightarrow> bloom \<Rightarrow> key \<Rightarrow> nat \<Rightarrow> nat" where
  "bf_index h f k i = unat (h k i) mod bf_size f"

definition bf_add :: "(key \<Rightarrow> nat \<Rightarrow> u64) \<Rightarrow> key \<Rightarrow> bloom \<Rightarrow> bloom" where
  "bf_add h k f =
     (let f = validate_and_fix_invariant f in
      if bf_bits f = [] \<or> bf_size f = 0 then f
      else fold (\<lambda>i g. bf_set (bf_index h g k i) g) [0..<bf_hashes f] f)"

fun bf_probe :: "(key \<Rightarrow> nat \<Rightarrow> u64) \<Rightarrow> bloom \<Rightarrow> key \<Rightarrow> nat list \<Rightarrow> bool" where
  "bf_probe h f k [] = True"
| "bf_probe h f k (i # is) =
     (if length (bf_bits f) \<le> bf_index h f k i then True
      else if \<not> bf_bits f ! bf_index h f k i then False
      else bf_probe h f k is)"

definition might_contain :: "(key \<Rightarrow> nat \<Rightarrow> u64) \<Rightarrow> bloom \<Rightarrow> key \<Rightarrow> bool" where
  "might_contain h f k = (if \<not> bf_is_valid f then True else bf_probe h f k [0..<bf_hashes f])"

definition bf_clear :: "bloom \<Rightarrow> bloom" where
  "bf_clear f = (let g = validate_and_fix_invariant f in g\<lparr>bf_bits := map (\<lambda>_. False) (bf_bits g)\<rparr>)"

definition bf_clear_bits :: "bloom \<Rightarrow> bloom" where
  "bf_clear_bits f = f\<lparr>bf_bits := [], bf_size := 0\<rparr>"

definition size_bytes :: "bloom \<Rightarrow> nat" where
  "size_bytes f = (bf_size f + 7) div 8"

subsection \<open>The byte form\<close>

unbundle bit_operations_syntax

definition byte_of_bits :: "bool list \<Rightarrow> u8" where
  "byte_of_bits bs = fold (\<lambda>(i, b) acc. if b then acc OR push_bit i 1 else acc) (enumerate 0 bs) 0"

function pack_bits :: "bool list \<Rightarrow> bytes" where
  "pack_bits [] = []"
| "pack_bits (b # bs) = byte_of_bits (take 8 (b # bs)) # pack_bits (drop 8 (b # bs))"
  by pat_completeness auto
termination by (relation "measure length") auto

definition bf_to_bytes :: "bloom \<Rightarrow> bytes" where
  "bf_to_bytes f = u32_to_le (word_of_nat (bf_size f)) @ pack_bits (bf_bits f)"

definition bits_of_byte :: "u8 \<Rightarrow> bool list" where
  "bits_of_byte b = map (\<lambda>i. bit b i) [0..<8]"

definition unpack_bits :: "bytes \<Rightarrow> bool list" where
  "unpack_bits bs = concat (map bits_of_byte bs)"

definition max_bloom_size :: nat where "max_bloom_size = 100000000"

definition finish_filter :: "bloom \<Rightarrow> bloom" where
  "finish_filter f = (let g = validate_and_fix_invariant f in
     if bf_is_valid g then g else bf_new 0 (bf_hashes f))"

definition bf_from_bytes :: "bytes \<Rightarrow> nat \<Rightarrow> bloom" where
  "bf_from_bytes bs hc =
     (if bs = [] then bf_new 0 hc
      else if length bs < 4 then
        finish_filter \<lparr>bf_bits = unpack_bits bs, bf_hashes = hc, bf_size = length bs * 8\<rparr>
      else let n = unat (u32_from_le (take 4 bs)) in
        if max_bloom_size < n then bf_new 0 hc
        else finish_filter \<lparr>bf_bits = resize n False (unpack_bits (drop 4 bs)),
                            bf_hashes = hc, bf_size = n\<rparr>)"

subsection \<open>The filter of \<open>utils/bloom.rs\<close>\<close>

record stub_bloom =
  sb_data :: bytes
  sb_hash_count :: nat
  sb_bit_count :: nat

definition stub_new :: "nat \<Rightarrow> nat \<Rightarrow> stub_bloom res" where
  "stub_new bits hc =
     Inr \<lparr>sb_data = replicate ((bits + 7) div 8) 0, sb_hash_count = hc, sb_bit_count = bits\<rparr>"

definition stub_add :: "key \<Rightarrow> stub_bloom \<Rightarrow> stub_bloom" where
  "stub_add k f = f"

definition stub_might_contain :: "stub_bloom \<Rightarrow> key \<Rightarrow> bool res" where
  "stub_might_contain f k = Inr True"

subsection \<open>What a reader relies on\<close>

text \<open>A filter may answer yes for any key, and no only for a key never added.\<close>

locale membership_filter =
  fixes add :: "'k \<Rightarrow> 'f \<Rightarrow> 'f" and query :: "'f \<Rightarrow> 'k \<Rightarrow> bool" and ok :: "'f \<Rightarrow> bool"
  assumes ok_add: "ok f \<Longrightarrow> ok (add k f)"
    and query_add: "ok f \<Longrightarrow> query (add k f) k"
    and query_mono: "ok f \<Longrightarrow> query f k' \<Longrightarrow> query (add k f) k'"
begin

lemma ok_adds: "ok f \<Longrightarrow> ok (fold add ks f)"
  by (induction ks arbitrary: f) (auto simp: ok_add)

lemma query_adds_mono: "ok f \<Longrightarrow> query f k \<Longrightarrow> query (fold add ks f) k"
  by (induction ks arbitrary: f) (auto simp: ok_add query_mono)

lemma query_adds: "ok f \<Longrightarrow> k \<in> set ks \<Longrightarrow> query (fold add ks f) k"
  by (induction ks arbitrary: f) (auto simp: ok_add query_add query_adds_mono)

end

definition bf_ok :: "bloom \<Rightarrow> bool" where
  "bf_ok f \<longleftrightarrow> length (bf_bits f) = bf_size f"

lemma bf_ok_new [simp]: "bf_ok (bf_new n hc)"
  by (simp add: bf_ok_def bf_new_def)

lemma bf_fix_ok [simp]: "bf_ok f \<Longrightarrow> validate_and_fix_invariant f = f"
  by (simp add: validate_and_fix_invariant_def bf_ok_def)

lemma bf_ok_fix [simp]: "bf_ok (validate_and_fix_invariant f)"
  by (auto simp: validate_and_fix_invariant_def bf_ok_def resize_def)

text \<open>The probes of a key, all of them set.\<close>

definition probes_set :: "(key \<Rightarrow> nat \<Rightarrow> u64) \<Rightarrow> bloom \<Rightarrow> key \<Rightarrow> nat list \<Rightarrow> bool" where
  "probes_set h f k is \<longleftrightarrow> (\<forall>i \<in> set is. bf_bits f ! (unat (h k i) mod bf_size f))"

lemma bf_set_ok: "bf_ok f \<Longrightarrow> 0 < bf_size f \<Longrightarrow>
  bf_set (n mod bf_size f) f = f\<lparr>bf_bits := (bf_bits f)[n mod bf_size f := True]\<rparr>"
  by (simp add: bf_set_def bf_ok_def)

lemma fold_bf_set:
  assumes "bf_ok f" and "0 < bf_size f"
  shows "let g = fold (\<lambda>i g. bf_set (bf_index h g k i) g) is f in
    bf_ok g \<and> bf_size g = bf_size f \<and> bf_hashes g = bf_hashes f \<and> probes_set h g k is
    \<and> (\<forall>j. j < bf_size f \<longrightarrow> bf_bits f ! j \<longrightarrow> bf_bits g ! j)"
  using assms
proof (induction "is" arbitrary: f)
  case Nil
  then show ?case by (simp add: probes_set_def)
next
  case (Cons i "is")
  let ?j = "unat (h k i) mod bf_size f"
  let ?f = "f\<lparr>bf_bits := (bf_bits f)[?j := True]\<rparr>"
  have step: "bf_set (bf_index h f k i) f = ?f"
    using bf_set_ok [OF Cons.prems] by (simp add: bf_index_def)
  have f': "bf_ok ?f" "0 < bf_size ?f" using Cons.prems by (simp_all add: bf_ok_def)
  have j: "?j < length (bf_bits f)" using Cons.prems by (simp add: bf_ok_def)
  then have hit: "bf_bits ?f ! ?j" by simp
  have keep: "bf_bits f ! m \<Longrightarrow> m < bf_size f \<Longrightarrow> bf_bits ?f ! m" for m
    using Cons.prems by (cases "m = ?j") (simp_all add: bf_ok_def)
  have jb: "?j < bf_size f" using Cons.prems by simp
  show ?case
    using Cons.IH [OF f'] step hit keep jb by (auto simp: Let_def probes_set_def)
qed

lemma bf_probe_iff:
  assumes "bf_ok f" and "0 < bf_size f"
  shows "bf_probe h f k is \<longleftrightarrow> probes_set h f k is"
proof -
  have "\<not> length (bf_bits f) \<le> bf_index h f k i" for i
    using assms by (simp add: bf_index_def bf_ok_def not_le)
  then show ?thesis
    by (induction "is") (simp_all add: probes_set_def bf_index_def)
qed

lemma might_contain_iff:
  "bf_ok f \<Longrightarrow> might_contain h f k \<longleftrightarrow> bf_size f = 0 \<or> probes_set h f k [0..<bf_hashes f]"
  by (auto simp: might_contain_def bf_is_valid_def bf_ok_def bf_probe_iff)

lemma bf_add_facts:
  assumes "bf_ok f"
  shows "bf_ok (bf_add h k f)" and "might_contain h (bf_add h k f) k"
    and "might_contain h f k' \<Longrightarrow> might_contain h (bf_add h k f) k'"
proof -
  let ?g = "fold (\<lambda>i g. bf_set (bf_index h g k i) g) [0..<bf_hashes f] f"
  have all: "bf_ok (bf_add h k f) \<and> might_contain h (bf_add h k f) k
    \<and> (might_contain h f k' \<longrightarrow> might_contain h (bf_add h k f) k')"
  proof (cases "bf_size f = 0")
    case True
    then have "bf_add h k f = f" using assms by (simp add: bf_add_def bf_ok_def)
    with True assms show ?thesis by (simp add: might_contain_iff)
  next
    case False
    then have pos: "0 < bf_size f" by simp
    have g: "bf_add h k f = ?g" using False assms by (auto simp: bf_add_def bf_ok_def)
    have facts: "bf_ok ?g" "bf_size ?g = bf_size f" "bf_hashes ?g = bf_hashes f"
        "probes_set h ?g k [0..<bf_hashes f]"
        "\<And>j. j < bf_size f \<Longrightarrow> bf_bits f ! j \<Longrightarrow> bf_bits ?g ! j"
      using fold_bf_set [OF assms pos, of h k "[0..<bf_hashes f]"] unfolding Let_def by simp_all
    have "probes_set h f k' is \<Longrightarrow> probes_set h ?g k' is" for "is"
      using facts(2,5) pos by (auto simp: probes_set_def)
    with facts show ?thesis
      using assms by (auto simp: g might_contain_iff)
  qed
  show "bf_ok (bf_add h k f)" and "might_contain h (bf_add h k f) k" using all by simp_all
  show "might_contain h f k' \<Longrightarrow> might_contain h (bf_add h k f) k'" using all by simp
qed

interpretation bloom: membership_filter "bf_add h" "might_contain h" bf_ok for h
  by unfold_locales (rule bf_add_facts; assumption)+

interpretation stub: membership_filter stub_add "\<lambda>f k. stub_might_contain f k = Inr True" "\<lambda>_. True"
  by unfold_locales (simp_all add: stub_might_contain_def)

subsection \<open>Round trip of the byte form\<close>

lemma bit_fold_or:
  "bit (fold (\<lambda>(i, b) acc. if b then acc OR push_bit i 1 else acc) ibs (w :: u8)) j \<longleftrightarrow>
   bit w j \<or> (j < 8 \<and> (j, True) \<in> set ibs)"
proof (induction ibs arbitrary: w)
  case Nil
  then show ?case by simp
next
  case (Cons ib ibs)
  obtain i b where ib: "ib = (i, b)" by (cases ib)
  have "bit (w OR push_bit i 1) j \<longleftrightarrow> bit w j \<or> (j < 8 \<and> j = i)"
    using bit_imp_le_length [of w j]
    by (auto simp: bit_or_iff bit_exp_iff)
  with Cons.IH [of "w OR push_bit i 1"] Cons.IH [of w] ib show ?case
    by (cases b) (simp_all add: disj_ac, blast)
qed

lemma bits_of_byte_of_bits:
  "length bs \<le> 8 \<Longrightarrow> bits_of_byte (byte_of_bits bs) = bs @ replicate (8 - length bs) False"
proof -
  have bit_byte: "bit (byte_of_bits bs) i \<longleftrightarrow> i < length bs \<and> bs ! i" if "i < 8" for i bs
    using that by (auto simp: byte_of_bits_def bit_fold_or in_set_enumerate_eq)
  assume "length bs \<le> 8"
  then show ?thesis
    by (intro nth_equalityI) (auto simp: bits_of_byte_def bit_byte nth_append)
qed

lemma unpack_pack: "\<exists>n. unpack_bits (pack_bits bs) = bs @ replicate n False"
proof (induction bs rule: pack_bits.induct)
  case 1
  then show ?case by (simp add: unpack_bits_def)
next
  case (2 b bs)
  let ?x = "b # bs"
  obtain n where n: "unpack_bits (pack_bits (drop 8 ?x)) = drop 8 ?x @ replicate n False"
    using 2 by blast
  have head: "bits_of_byte (byte_of_bits (take 8 ?x))
      = take 8 ?x @ replicate (8 - length (take 8 ?x)) False"
    by (rule bits_of_byte_of_bits) simp
  have split: "unpack_bits (pack_bits ?x)
      = bits_of_byte (byte_of_bits (take 8 ?x)) @ unpack_bits (pack_bits (drop 8 ?x))"
    by (simp add: unpack_bits_def)
  show ?case
  proof (cases "8 \<le> length ?x")
    case True
    then have "8 - length (take 8 ?x) = 0" by simp
    then have "unpack_bits (pack_bits ?x) = take 8 ?x @ drop 8 ?x @ replicate n False"
      unfolding split head n by simp
    then show ?thesis by (metis append.assoc append_take_drop_id)
  next
    case False
    then have "drop 8 ?x = []" "take 8 ?x = ?x" by simp_all
    then have "unpack_bits (pack_bits ?x) = ?x @ replicate (8 - length ?x) False @ replicate n False"
      unfolding split head n by simp
    then show ?thesis by (metis replicate_add)
  qed
qed

lemma resize_padded: "resize (length bs) x (bs @ replicate n x) = bs"
  by (simp add: resize_def)

lemma bf_from_to_bytes:
  assumes "bf_ok f" and "bf_size f \<le> max_bloom_size" and "bf_hashes f = hc"
  shows "bf_from_bytes (bf_to_bytes f) hc = f"
proof -
  have len: "length (bf_bits f) = bf_size f" using assms(1) by (simp add: bf_ok_def)
  obtain n where n: "unpack_bits (pack_bits (bf_bits f)) = bf_bits f @ replicate n False"
    using unpack_pack by blast
  have size: "unat (u32_from_le (take 4 (bf_to_bytes f))) = bf_size f"
    using assms(2) by (simp add: bf_to_bytes_def max_bloom_size_def unat_u32_of_nat)
  have bits: "resize (bf_size f) False (unpack_bits (drop 4 (bf_to_bytes f))) = bf_bits f"
    using n resize_padded [of "bf_bits f"] len by (simp add: bf_to_bytes_def)
  have "\<not> length (bf_to_bytes f) < 4" "bf_to_bytes f \<noteq> []"
    by (simp add: bf_to_bytes_def) (simp add: bf_to_bytes_def flip: length_0_conv)
  moreover have "\<lparr>bf_bits = bf_bits f, bf_hashes = hc, bf_size = bf_size f\<rparr> = f"
    using assms(3) by simp
  moreover have "finish_filter f = f"
    using assms len by (cases "bf_size f") (auto simp: finish_filter_def bf_is_valid_def bf_new_def)
  ultimately show ?thesis
    using size bits assms(2) by (simp add: bf_from_bytes_def)
qed

lemma with_optimal_params_adds:
  "bf_ok (fold (bf_add h) ks (with_optimal_params n))"
  by (rule bloom.ok_adds) (simp add: with_optimal_params_def)

lemma size_bf_add: "bf_ok f \<Longrightarrow> bf_size (bf_add h k f) = bf_size f \<and> bf_hashes (bf_add h k f) = bf_hashes f"
proof -
  assume ok: "bf_ok f"
  show ?thesis
  proof (cases "bf_size f = 0")
    case True
    with ok show ?thesis by (simp add: bf_add_def bf_ok_def)
  next
    case False
    then have "0 < bf_size f" by simp
    from fold_bf_set [OF ok this, of h k "[0..<bf_hashes f]"] False ok show ?thesis
      by (auto simp: bf_add_def bf_ok_def Let_def)
  qed
qed

lemma size_bf_adds: "bf_ok f \<Longrightarrow>
  bf_size (fold (bf_add h) ks f) = bf_size f \<and> bf_hashes (fold (bf_add h) ks f) = bf_hashes f"
  by (induction ks arbitrary: f) (simp_all add: size_bf_add bf_add_facts)

lemma length_pack_bits: "length (pack_bits bs) \<le> length bs"
  by (induction bs rule: pack_bits.induct) auto

lemma length_bf_to_bytes:
  "length (bf_to_bytes (fold (bf_add h) ks (with_optimal_params n))) \<le> 4 + n * 10"
proof -
  let ?f = "fold (bf_add h) ks (with_optimal_params n)"
  have "length (bf_bits ?f) = n * 10"
    using with_optimal_params_adds [of h ks n] size_bf_adds [of "with_optimal_params n" h ks]
    by (simp add: bf_ok_def with_optimal_params_def bf_new_def)
  then show ?thesis using length_pack_bits [of "bf_bits ?f"] by (simp add: bf_to_bytes_def)
qed

text \<open>
  C29: no false negatives.  A filter sized for \<open>n\<close> items answers yes for every key added to it,
  however many were added and whatever the hash, and so does the filter read back from its bytes;
  up to ten million items the bytes give back the same filter.
\<close>

theorem bloom_no_false_negative:
  assumes "k \<in> set ks" and "n * 10 < 4294967296"
    and f_def: "f = fold (bf_add h) ks (with_optimal_params n)"
  shows "might_contain h f k \<and> might_contain h (bf_from_bytes (bf_to_bytes f) 7) k
      \<and> (n \<le> 10000000 \<longrightarrow> bf_from_bytes (bf_to_bytes f) 7 = f)"
proof -
  have ok0: "bf_ok (with_optimal_params n)" by (simp add: with_optimal_params_def)
  have ok: "bf_ok f" unfolding f_def by (rule with_optimal_params_adds)
  have size: "bf_size f = n * 10" "bf_hashes f = 7"
    using size_bf_adds [OF ok0] by (simp_all add: f_def with_optimal_params_def bf_new_def)
  have yes: "might_contain h f k"
    unfolding f_def by (rule bloom.query_adds [OF ok0 assms(1)])
  have small: "bf_from_bytes (bf_to_bytes f) 7 = f" if "n \<le> 10000000"
    by (rule bf_from_to_bytes) (use ok size that in \<open>auto simp: max_bloom_size_def\<close>)
  have big: "might_contain h (bf_from_bytes (bf_to_bytes f) 7) k" if "\<not> n \<le> 10000000"
  proof -
    have "unat (u32_from_le (take 4 (bf_to_bytes f))) = n * 10"
      using unat_u32_of_nat [OF assms(2)] size by (simp add: bf_to_bytes_def del: of_nat_mult)
    moreover have "\<not> length (bf_to_bytes f) < 4" "bf_to_bytes f \<noteq> []"
      by (simp add: bf_to_bytes_def) (simp add: bf_to_bytes_def flip: length_0_conv)
    ultimately have "bf_from_bytes (bf_to_bytes f) 7 = bf_new 0 7"
      using that by (simp add: bf_from_bytes_def max_bloom_size_def)
    then show ?thesis by (simp add: might_contain_def bf_is_valid_def bf_new_def)
  qed
  show ?thesis
    using yes small big by (cases "n \<le> 10000000") auto
qed

theorem bloom_no_false_negative_witness:
  "might_contain (\<lambda>k i. of_nat (length k + i)) (bf_from_bytes
     (bf_to_bytes (fold (bf_add (\<lambda>k i. of_nat (length k + i))) [[97], [98, 99]] (with_optimal_params 2))) 7) [97]"
  using bloom_no_false_negative [of "[97]" "[[97], [98, 99]]" 2, OF _ _ refl] by simp

end
