(* ===== verification/Names.thy ===== *)
theory Names
  imports Prelude
begin

text \<open>
  File names and the numbers in them: the formats \<open>{:016x}\<close> and \<open>{}\<close> of Rust and the parsers
  \<open>u64::from_str_radix(_, 16)\<close> and \<open>str::parse\<close>, and the names of tables
  (\<open>crates/f4kvs-lsm/src/core/engine.rs\<close>) and of log segments (\<open>storage/wal.rs\<close>, \<open>wal_frame.rs\<close>).  The
  parsers are those of the standard library: one leading plus is accepted, an empty string and a
  value beyond 64 bits are errors.
\<close>

subsection \<open>Numbers\<close>

definition digit_char :: "nat \<Rightarrow> char" where
  "digit_char d = char_of (if d < 10 then 48 + d else 87 + d)"

definition digit_val :: "char \<Rightarrow> nat option" where
  "digit_val c =
     (let n = of_char c :: nat in
      if 48 \<le> n \<and> n \<le> 57 then Some (n - 48)
      else if 97 \<le> n \<and> n \<le> 122 then Some (n - 87)
      else if 65 \<le> n \<and> n \<le> 90 then Some (n - 55)
      else None)"

lemma of_char_nat: "(n :: nat) < 256 \<Longrightarrow> of_char (char_of n :: char) = n"
  by simp

lemma digit_char_val: "d < 36 \<Longrightarrow> digit_val (digit_char d) = Some d"
  by (auto simp: digit_char_def digit_val_def Let_def of_char_nat simp del: of_char_of)

text \<open>\<open>radix_digits b n v\<close>: the last \<open>n\<close> digits of \<open>v\<close>, most significant first.\<close>

fun radix_digits :: "nat \<Rightarrow> nat \<Rightarrow> nat \<Rightarrow> string" where
  "radix_digits b 0 v = []"
| "radix_digits b (Suc n) v = radix_digits b n (v div b) @ [digit_char (v mod b)]"

definition hex16 :: "nat \<Rightarrow> string" where
  "hex16 v = radix_digits 16 16 v"

fun digits_value :: "nat \<Rightarrow> nat \<Rightarrow> string \<Rightarrow> nat option" where
  "digits_value b acc [] = Some acc"
| "digits_value b acc (c # cs) =
     (case digit_val c of None \<Rightarrow> None
      | Some d \<Rightarrow> if d < b \<and> acc * b + d < 2 ^ 64 then digits_value b (acc * b + d) cs else None)"

definition from_str_radix :: "nat \<Rightarrow> string \<Rightarrow> nat option" where
  "from_str_radix b s =
     (case s of [] \<Rightarrow> None
      | c # cs \<Rightarrow> if c = CHR ''+'' then (if cs = [] then None else digits_value b 0 cs)
          else digits_value b 0 s)"

lemma length_radix_digits [simp]: "length (radix_digits b n v) = n"
  by (induction n arbitrary: v) simp_all

lemma digits_value_append: "digits_value b acc (xs @ ys) = Option.bind (digits_value b acc xs) (\<lambda>a. digits_value b a ys)"
  by (induction b acc xs rule: digits_value.induct) (auto split: option.split)

lemma digits_value_radix:
  assumes "2 \<le> b" and "b \<le> 36"
  shows "v < b ^ n \<Longrightarrow> v < 2 ^ 64 \<Longrightarrow> digits_value b 0 (radix_digits b n v) = Some v"
proof (induction n arbitrary: v)
  case (Suc n)
  have "v div b < b ^ n" using Suc.prems(1) by (simp add: less_mult_imp_div_less mult.commute)
  moreover have "v div b < 2 ^ 64" using Suc.prems(2) div_le_dividend [of v b] by linarith
  moreover have "v div b * b + v mod b = v" by simp
  moreover have "v mod b < b" "digit_val (digit_char (v mod b)) = Some (v mod b)"
    using assms mod_less_divisor [of b v] by (auto intro!: digit_char_val simp del: mod_less_divisor)
  ultimately show ?case
    using Suc by (simp add: digits_value_append)
qed simp

lemma digit_char_plus: "d < 36 \<Longrightarrow> digit_char d \<noteq> CHR ''+''"
  using digit_char_val [of d] by (auto simp: digit_val_def)

lemma radix_digits_chars: "0 < b \<Longrightarrow> c \<in> set (radix_digits b n v) \<Longrightarrow> \<exists>d < b. c = digit_char d"
proof (induction n arbitrary: v)
  case (Suc n)
  show ?case
  proof (cases "c \<in> set (radix_digits b n (v div b))")
    case False
    with Suc.prems have "c = digit_char (v mod b)" "v mod b < b" by auto
    then show ?thesis by blast
  qed (use Suc in blast)
qed simp

lemma from_hex16: "v < 2 ^ 64 \<Longrightarrow> from_str_radix 16 (hex16 v) = Some v"
proof -
  assume v: "v < 2 ^ 64"
  obtain c cs where c: "hex16 v = c # cs"
    by (metis hex16_def length_0_conv length_radix_digits list.exhaust zero_neq_numeral)
  then have "c \<in> set (radix_digits 16 16 v)" by (simp add: hex16_def)
  then obtain d where "d < 16" "c = digit_char d" using radix_digits_chars [of 16 c 16 v] by auto
  then have "c \<noteq> CHR ''+''" using digit_char_plus [of d] by simp
  then have "from_str_radix 16 (hex16 v) = digits_value 16 0 (hex16 v)"
    using c by (simp add: from_str_radix_def)
  also have "\<dots> = Some v"
    unfolding hex16_def using v by (intro digits_value_radix) auto
  finally show ?thesis .
qed

subsection \<open>Splitting\<close>

definition strip_prefix :: "'a list \<Rightarrow> 'a list \<Rightarrow> 'a list option" where
  "strip_prefix p s = (if take (length p) s = p then Some (drop (length p) s) else None)"

definition strip_suffix :: "'a list \<Rightarrow> 'a list \<Rightarrow> 'a list option" where
  "strip_suffix p s = map_option rev (strip_prefix (rev p) (rev s))"

definition ends_with :: "'a list \<Rightarrow> 'a list \<Rightarrow> bool" where
  "ends_with s p \<longleftrightarrow> strip_suffix p s \<noteq> None"

lemma strip_prefix_append [simp]: "strip_prefix p (p @ s) = Some s"
  by (simp add: strip_prefix_def)

lemma strip_prefix_Some: "strip_prefix p s = Some r \<longleftrightarrow> s = p @ r"
  by (auto simp: strip_prefix_def) (metis append_take_drop_id)

lemma strip_suffix_append [simp]: "strip_suffix p (s @ p) = Some s"
  by (simp add: strip_suffix_def)

lemma strip_suffix_Some: "strip_suffix p s = Some r \<longleftrightarrow> s = r @ p"
  by (auto simp: strip_suffix_def strip_prefix_Some) (metis rev_append rev_rev_ident)

lemma ends_with_iff: "ends_with s p \<longleftrightarrow> (\<exists>r. s = r @ p)"
  by (auto simp: ends_with_def strip_suffix_Some)

text \<open>\<open>split(c).next()\<close> and \<open>split_once(c)\<close>.\<close>

definition first_part :: "char \<Rightarrow> string \<Rightarrow> string" where
  "first_part c s = takeWhile (\<lambda>x. x \<noteq> c) s"

definition split_once :: "char \<Rightarrow> string \<Rightarrow> (string \<times> string) option" where
  "split_once c s = (case dropWhile (\<lambda>x. x \<noteq> c) s of [] \<Rightarrow> None | _ # r \<Rightarrow> Some (takeWhile (\<lambda>x. x \<noteq> c) s, r))"

lemma split_once_append: "c \<notin> set a \<Longrightarrow> split_once c (a @ c # b) = Some (a, b)"
  by (induction a) (auto simp: split_once_def split: list.splits)

subsection \<open>Table files\<close>

definition parse_sstable_level_from_filename :: "string \<Rightarrow> nat option" where
  "parse_sstable_level_from_filename f =
     (if \<not> ends_with f ''.sst'' then None
      else case strip_prefix ''sstable_l'' f of
        Some r \<Rightarrow> from_str_radix 10 (first_part (CHR ''_'') r)
      | None \<Rightarrow>
          if starts_with f ''L'' then
            (case strip_prefix ''L'' (first_part (CHR ''_'') f) of None \<Rightarrow> None
             | Some s \<Rightarrow> from_str_radix 10 s)
          else None)"

definition parse_sstable_flush_sequence_from_filename :: "string \<Rightarrow> nat option" where
  "parse_sstable_flush_sequence_from_filename f =
     (if \<not> ends_with f ''.sst'' \<or> \<not> starts_with f ''L'' then None
      else Option.bind (strip_prefix ''L'' f) (\<lambda>r.
        Option.bind (split_once (CHR ''_'') r) (\<lambda>(_, s).
          Option.bind (strip_suffix ''.sst'' s) (from_str_radix 16))))"

definition flush_file_name :: "nat \<Rightarrow> string" where
  "flush_file_name s = ''L0_'' @ hex16 s @ ''.sst''"

lemma flush_name_ends: "ends_with (flush_file_name s) ''.sst''"
  unfolding ends_with_iff flush_file_name_def by (metis append_assoc)

lemma flush_name_starts: "starts_with (flush_file_name s) ''L''"
  "strip_prefix ''L'' (flush_file_name s) = Some (CHR ''0'' # CHR ''_'' # hex16 s @ ''.sst'')"
  "strip_prefix ''sstable_l'' (flush_file_name s) = None"
  "first_part (CHR ''_'') (flush_file_name s) = ''L0''"
  by (simp_all add: flush_file_name_def starts_with_def strip_prefix_def first_part_def)

lemma flush_name_sequence:
  assumes "s < 2 ^ 64"
  shows "parse_sstable_flush_sequence_from_filename (flush_file_name s) = Some s"
proof -
  have "split_once (CHR ''_'') ([CHR ''0''] @ CHR ''_'' # hex16 s @ ''.sst'') = Some ([CHR ''0''], hex16 s @ ''.sst'')"
    by (rule split_once_append) simp
  then show ?thesis
    unfolding parse_sstable_flush_sequence_from_filename_def
    using flush_name_ends flush_name_starts from_hex16 [OF assms] by simp
qed

lemma flush_name_level: "parse_sstable_level_from_filename (flush_file_name s) = Some 0"
proof -
  have "strip_prefix ''L'' ''L0'' = Some ''0''" by (simp add: strip_prefix_def)
  moreover have "from_str_radix 10 ''0'' = Some 0" by (simp add: from_str_radix_def digit_val_def)
  ultimately show ?thesis
    unfolding parse_sstable_level_from_filename_def using flush_name_ends flush_name_starts by simp
qed

lemma flush_file_name_inj: "s < 2 ^ 64 \<Longrightarrow> t < 2 ^ 64 \<Longrightarrow> flush_file_name s = flush_file_name t \<Longrightarrow> s = t"
  using flush_name_sequence [of s] flush_name_sequence [of t] by (metis option.inject)

subsection \<open>Log segments\<close>

definition log_name :: "string \<Rightarrow> nat \<Rightarrow> string" where
  "log_name p i = p @ hex16 i @ ''.wal''"

definition is_log_name :: "string \<Rightarrow> string \<Rightarrow> bool" where
  "is_log_name p f \<longleftrightarrow> starts_with f p \<and> ends_with f ''.wal''"

definition parse_log_id :: "string \<Rightarrow> string \<Rightarrow> nat option" where
  "parse_log_id p f =
     Option.bind (strip_prefix p f) (\<lambda>s. Option.bind (strip_suffix ''.wal'' s) (from_str_radix 16))"

lemma is_log_name [simp]: "is_log_name p (log_name p i)"
  unfolding is_log_name_def log_name_def ends_with_iff
  by (auto simp: starts_with_def)

lemma parse_log_id [simp]: "i < 2 ^ 64 \<Longrightarrow> parse_log_id p (log_name p i) = Some i"
  by (simp add: parse_log_id_def log_name_def from_hex16)

lemma log_name_inj: "i < 2 ^ 64 \<Longrightarrow> j < 2 ^ 64 \<Longrightarrow> log_name p i = log_name p j \<longleftrightarrow> i = j"
  using parse_log_id [of i p] parse_log_id [of j p] by (metis option.inject)

end
