(* ===== verification/Errors.thy ===== *)
theory Errors
  imports Names
begin

text \<open>
  The error type of the public interface, \<open>crates/f4kvs-value/src/error.rs\<close>, the conversion of the
  engine's errors into it and the retry loop of \<open>crates/f4kvs-lsm/src/core/engine.rs\<close>.  An operation
  that is retried is a function from the number of the attempt to its outcome.
\<close>

datatype error_severity = Low | Medium | High | Critical

fun severity_rank :: "error_severity \<Rightarrow> nat" where
  "severity_rank Low = 0"
| "severity_rank Medium = 1"
| "severity_rank High = 2"
| "severity_rank Critical = 3"

instantiation error_severity :: linorder
begin

definition less_eq_error_severity :: "error_severity \<Rightarrow> error_severity \<Rightarrow> bool" where
  "a \<le> b \<longleftrightarrow> severity_rank a \<le> severity_rank b"

definition less_error_severity :: "error_severity \<Rightarrow> error_severity \<Rightarrow> bool" where
  "a < b \<longleftrightarrow> severity_rank a < severity_rank b"

instance
proof
  fix a b :: error_severity
  assume "a \<le> b" "b \<le> a"
  then show "a = b" by (cases a; cases b) (simp_all add: less_eq_error_severity_def)
qed (auto simp: less_eq_error_severity_def less_error_severity_def)

end

datatype kv_error =
    InvalidKey string
  | InvalidValue string
  | StorageError string
  | IoError string
  | SerializationError string
  | TimeoutError string u64
  | KeyMissing string
  | ConfigError string
  | InternalError string
  | EncryptionError string
  | InvalidConfiguration string

type_synonym 'a kv = "kv_error + 'a"

fun severity :: "kv_error \<Rightarrow> error_severity" where
  "severity (InvalidKey _) = Low"
| "severity (InvalidValue _) = Low"
| "severity (KeyMissing _) = Low"
| "severity (ConfigError _) = Medium"
| "severity (InvalidConfiguration _) = Medium"
| "severity (SerializationError _) = Medium"
| "severity (EncryptionError _) = High"
| "severity (StorageError _) = High"
| "severity (IoError _) = High"
| "severity (TimeoutError _ _) = High"
| "severity (InternalError _) = Critical"

fun recovery_suggestion :: "kv_error \<Rightarrow> string option" where
  "recovery_suggestion (InvalidKey _) = Some ''Check key format and length requirements''"
| "recovery_suggestion (InvalidValue _) = Some ''Verify value type and content''"
| "recovery_suggestion (KeyMissing _) = Some ''Key may not exist or may have been deleted''"
| "recovery_suggestion (ConfigError _) = Some ''Check configuration file and environment variables''"
| "recovery_suggestion (InvalidConfiguration _) = Some ''Validate configuration values and format''"
| "recovery_suggestion (SerializationError _) = Some ''Check data format and encoding''"
| "recovery_suggestion (EncryptionError _) = Some ''Verify encryption keys and algorithms''"
| "recovery_suggestion (StorageError _) = Some ''Check storage backend and disk space''"
| "recovery_suggestion (IoError _) = Some ''Check file permissions and disk space''"
| "recovery_suggestion (TimeoutError _ _) = Some ''Retry operation or increase timeout''"
| "recovery_suggestion (InternalError _) = Some ''Contact support - this should not happen''"

definition kv_is_recoverable :: "kv_error \<Rightarrow> bool" where
  "kv_is_recoverable e =
     (case e of StorageError _ \<Rightarrow> True | IoError _ \<Rightarrow> True | TimeoutError _ _ \<Rightarrow> True | _ \<Rightarrow> False)"

subsection \<open>Messages\<close>

text \<open>The text of a number is a parameter of the recursion: the most significant digit comes first.\<close>

function decimal :: "nat \<Rightarrow> string" where
  "decimal n = (if n < 10 then [digit_char n] else decimal (n div 10) @ [digit_char (n mod 10)])"
  by pat_completeness auto
termination
  by (relation "measure id") auto

declare decimal.simps [simp del]

lemma decimal_digits: "c \<in> set (decimal n) \<Longrightarrow> \<exists>d < 10. c = digit_char d"
proof (induction n rule: decimal.induct)
  case (1 n)
  show ?case
  proof (cases "n < 10 \<or> c \<in> set (decimal (n div 10))")
    case False
    with 1(2) have "c = digit_char (n mod 10)" by (subst (asm) decimal.simps) simp
    then show ?thesis by (intro exI [of _ "n mod 10"]) simp
  qed (use 1 in \<open>subst (asm) decimal.simps, auto split: if_splits\<close>)
qed

lemma decimal_value: "n < 2 ^ 64 \<Longrightarrow> digits_value 10 0 (decimal n) = Some n"
proof (induction n rule: decimal.induct)
  case (1 n)
  have d: "digit_val (digit_char d) = Some d" if "d < 10" for d
    using that digit_char_val [of d] by simp
  show ?case
  proof (cases "n < 10")
    case True
    with 1(2) d show ?thesis by (subst decimal.simps) simp
  next
    case False
    with 1 have "digits_value 10 0 (decimal (n div 10)) = Some (n div 10)" by simp
    with False 1(2) d [of "n mod 10"] show ?thesis
      by (subst decimal.simps) (simp add: digits_value_append)
  qed
qed

lemma decimal_nonempty [simp]: "decimal n \<noteq> []"
  by (subst decimal.simps) simp

definition quoted :: "string \<Rightarrow> string" where
  "quoted s = CHR 0x27 # s @ [CHR 0x27]"

fun kv_display :: "kv_error \<Rightarrow> string" where
  "kv_display (InvalidKey r) = ''Invalid key: '' @ r"
| "kv_display (InvalidValue r) = ''Invalid value: '' @ r"
| "kv_display (StorageError m) = ''Storage error: '' @ m"
| "kv_display (IoError m) = ''I/O error: '' @ m"
| "kv_display (SerializationError m) = ''Serialization error: '' @ m"
| "kv_display (TimeoutError p t) = ''Operation '' @ quoted p @ '' timed out after '' @ decimal (unat t) @ ''ms''"
| "kv_display (KeyMissing k) = ''Key not found: '' @ k"
| "kv_display (ConfigError m) = ''Configuration error: '' @ m"
| "kv_display (InternalError m) = ''Internal error: '' @ m"
| "kv_display (EncryptionError m) = ''Encryption error: '' @ m"
| "kv_display (InvalidConfiguration m) = ''Invalid configuration: '' @ m"

fun lsm_display :: "lsm_error \<Rightarrow> string" where
  "lsm_display (Io _ m) = ''I/O error: '' @ m"
| "lsm_display (Serialization m) = ''Serialization error: '' @ m"
| "lsm_display (Corruption m) = ''Data corruption: '' @ m"
| "lsm_display (ConfigErr m) = ''Invalid configuration: '' @ m"
| "lsm_display (CompactionErr m) = ''Compaction error: '' @ m"
| "lsm_display (WalErr m) = ''WAL error: '' @ m"
| "lsm_display (BloomFilterErr m) = ''Bloom filter error: '' @ m"
| "lsm_display (CompressionErr m) = ''Compression error: '' @ m"
| "lsm_display (KeyNotFound k) = ''Key not found: '' @ k"
| "lsm_display (ColumnFamilyNotFound c) = ''Column family not found: '' @ c"
| "lsm_display (InvalidOperation m) = ''Invalid operation: '' @ m"
| "lsm_display (ResourceLimit m) = ''Resource limit exceeded: '' @ m"
| "lsm_display (Internal m) = ''Internal error: '' @ m"

fun user_message :: "lsm_error \<Rightarrow> string" where
  "user_message (Io _ m) = ''Storage I/O error: '' @ m"
| "user_message (Serialization m) = ''Data format error: '' @ m"
| "user_message (Corruption m) = ''Data corruption detected: '' @ m"
| "user_message (ConfigErr m) = ''Configuration error: '' @ m"
| "user_message (CompactionErr m) = ''Storage optimization error: '' @ m"
| "user_message (WalErr m) = ''Recovery error: '' @ m"
| "user_message (BloomFilterErr m) = ''Index error: '' @ m"
| "user_message (CompressionErr m) = ''Compression error: '' @ m"
| "user_message (KeyNotFound k) = ''Key not found: '' @ k"
| "user_message (ColumnFamilyNotFound c) = ''Column family not found: '' @ c"
| "user_message (InvalidOperation m) = ''Invalid operation: '' @ m"
| "user_message (ResourceLimit m) = ''Resource limit: '' @ m"
| "user_message (Internal m) = ''Internal error: '' @ m"

definition kv_to_lsm :: "kv_error \<Rightarrow> lsm_error" where
  "kv_to_lsm e = Internal (''F4KVS error: '' @ kv_display e)"

subsection \<open>From the engine's errors\<close>

fun convert_error :: "lsm_error \<Rightarrow> kv_error" where
  "convert_error (Io _ m) = IoError (''LSM I/O error: '' @ m)"
| "convert_error (Serialization m) = SerializationError (''LSM serialization error: '' @ m)"
| "convert_error (Corruption m) = StorageError (''LSM corruption error: '' @ m)"
| "convert_error (ConfigErr m) = ConfigError (''LSM config error: '' @ m)"
| "convert_error (WalErr m) = StorageError (''LSM WAL error: '' @ m)"
| "convert_error (BloomFilterErr m) = StorageError (''LSM bloom filter error: '' @ m)"
| "convert_error (CompressionErr m) = StorageError (''LSM compression error: '' @ m)"
| "convert_error (KeyNotFound k) = KeyMissing k"
| "convert_error (ColumnFamilyNotFound c) = StorageError (''Column family not found: '' @ c)"
| "convert_error (InvalidOperation m) = InvalidKey (''Invalid operation: '' @ m)"
| "convert_error (ResourceLimit m) = StorageError (''Resource limit: '' @ m)"
| "convert_error (Internal m) = InternalError (''LSM internal error: '' @ m)"
| "convert_error (CompactionErr m) = StorageError (''LSM compaction error: '' @ m)"

definition to_kv :: "'a res \<Rightarrow> 'a kv" where
  "to_kv r = map_sum convert_error id r"

lemma to_kv_simps [simp]: "to_kv (Inl e) = Inl (convert_error e)" "to_kv (Inr x) = Inr x"
  by (simp_all add: to_kv_def)

subsection \<open>Retries\<close>

definition is_recoverable_error :: "lsm_error \<Rightarrow> bool" where
  "is_recoverable_error e =
     (case e of Io _ _ \<Rightarrow> True | CompactionErr _ \<Rightarrow> True | WalErr _ \<Rightarrow> True | _ \<Rightarrow> False)"

definition max_retries :: nat where "max_retries = 3"
definition initial_delay_ms :: nat where "initial_delay_ms = 100"
definition max_delay_ms :: nat where "max_delay_ms = 5000"

text \<open>The loop with its two counters; the result carries the delays slept.\<close>

function retry_loop :: "(nat \<Rightarrow> 'a res) \<Rightarrow> nat \<Rightarrow> nat \<Rightarrow> 'a res \<times> nat list" where
  "retry_loop f attempt delay =
     (case f attempt of Inr x \<Rightarrow> (Inr x, [])
      | Inl e \<Rightarrow>
        if \<not> is_recoverable_error e \<or> max_retries < attempt + 1 then (Inl e, [])
        else (let (r, ds) = retry_loop f (attempt + 1) (min (delay * 2) max_delay_ms) in (r, delay # ds)))"
  by pat_completeness auto
termination
  by (relation "measure (\<lambda>(f, attempt, delay). Suc max_retries - attempt)") auto

declare retry_loop.simps [simp del]

definition execute_with_recovery :: "(nat \<Rightarrow> 'a res) \<Rightarrow> 'a res \<times> nat list" where
  "execute_with_recovery f = retry_loop f 0 initial_delay_ms"

definition retryable :: "'a res \<Rightarrow> bool" where
  "retryable r = (case r of Inl e \<Rightarrow> is_recoverable_error e | Inr _ \<Rightarrow> False)"

lemma retry_step: "retry_loop f n d =
  (if retryable (f n) \<and> n < max_retries
   then map_prod id ((#) d) (retry_loop f (n + 1) (min (d * 2) max_delay_ms)) else (f n, []))"
  by (subst retry_loop.simps)
     (auto simp: retryable_def not_less Suc_le_eq split: sum.split prod.splits)

lemma retry_result:
  assumes "n \<le> m" and "m \<le> max_retries" and "\<And>i. n \<le> i \<Longrightarrow> i < m \<Longrightarrow> retryable (f i)"
    and "\<not> retryable (f m) \<or> m = max_retries"
  shows "fst (retry_loop f n d) = f m \<and> length (snd (retry_loop f n d)) = m - n"
  using assms
proof (induction "m - n" arbitrary: n d)
  case 0
  then have "n = m" by simp
  with 0 show ?case by (subst retry_step, subst retry_step) auto
next
  case (Suc j)
  then have n: "n < m" "n < max_retries" "retryable (f n)" by auto
  have "fst (retry_loop f (n + 1) d') = f m \<and> length (snd (retry_loop f (n + 1) d')) = m - (n + 1)" for d'
    using Suc.prems Suc.hyps(2) n by (intro Suc.hyps(1)) auto
  with n show ?case by (subst retry_step, subst retry_step) auto
qed

lemma retry_delays: "sum_list (snd (retry_loop f n d)) + d \<le> d * 2 ^ (max_retries - n)"
proof (induction "max_retries - n" arbitrary: n d)
  case 0
  then show ?case by (subst retry_step) simp
next
  case (Suc j)
  let ?d = "min (d * 2) max_delay_ms"
  let ?s = "sum_list (snd (retry_loop f (n + 1) ?d))"
  obtain q where q: "2 ^ (max_retries - (n + 1)) = Suc q" by (metis nat.exhaust power_not_zero zero_neq_numeral)
  have j: "max_retries - n = Suc (max_retries - (n + 1))" using Suc.hyps(2) by simp
  have "?s + ?d \<le> ?d * Suc q"
    unfolding q [symmetric] using Suc.hyps(2) by (intro Suc.hyps(1)) auto
  then have "?s \<le> ?d * q" by simp
  also have "\<dots> \<le> d * 2 * q" by (rule mult_le_mono1) simp
  finally have "?s + 2 * d \<le> d * 2 ^ (max_retries - n)" unfolding j power_Suc q by simp
  then show ?case by (subst retry_step) auto
qed



end
