(* ===== verification/File_Reader.thy ===== *)
theory File_Reader
  imports Errors
begin

text \<open>
  The file reader of an SSTable, \<open>crates/f4kvs-lsm/src/storage/file_reader.rs\<close>: three read modes,
  one cached handle per mode, and the loop that turns short reads into exact ones.  A handle is
  the content of the file it was opened on, so a file unlinked while open stays readable through
  it; \<open>fs\<close> gives the content behind a path.  \<open>sys off len\<close> is how many bytes one \<open>pread\<close> delivers.

  The monad of the read path is here too: a computation over a state returns a result and the new
  state, or \<open>None\<close> where the code panics or does not return.
\<close>

subsection \<open>Fallible computations over a state\<close>

type_synonym ('s, 'a) io = "'s \<Rightarrow> ('a res \<times> 's) option"

definition io_ret :: "'a \<Rightarrow> ('s, 'a) io" where "io_ret x s = Some (Inr x, s)"
definition io_err :: "lsm_error \<Rightarrow> ('s, 'a) io" where "io_err e s = Some (Inl e, s)"
definition io_lift :: "'a res \<Rightarrow> ('s, 'a) io" where "io_lift r s = Some (r, s)"

text \<open>A value computed by code that may panic.\<close>

definition io_of :: "'a option \<Rightarrow> ('s, 'a) io" where
  "io_of x s = (case x of None \<Rightarrow> None | Some y \<Rightarrow> Some (Inr y, s))"

definition io_bind :: "('s, 'a) io \<Rightarrow> ('a \<Rightarrow> ('s, 'b) io) \<Rightarrow> ('s, 'b) io" where
  "io_bind m f s = (case m s of None \<Rightarrow> None | Some (Inl e, s') \<Rightarrow> Some (Inl e, s')
                    | Some (Inr x, s') \<Rightarrow> f x s')"

text \<open>\<open>match m { Ok(x) => f(x), Err(e) => h(e) }\<close>.\<close>

definition io_match :: "('s, 'a) io \<Rightarrow> ('a \<Rightarrow> ('s, 'b) io) \<Rightarrow> (lsm_error \<Rightarrow> ('s, 'b) io) \<Rightarrow> ('s, 'b) io" where
  "io_match m f h s = (case m s of None \<Rightarrow> None | Some (Inl e, s') \<Rightarrow> h e s' | Some (Inr x, s') \<Rightarrow> f x s')"

definition io_get :: "('s \<Rightarrow> 'a) \<Rightarrow> ('s, 'a) io" where "io_get f s = Some (Inr (f s), s)"
definition io_mod :: "('s \<Rightarrow> 's) \<Rightarrow> ('s, unit) io" where "io_mod f s = Some (Inr (), f s)"

lemmas io_defs = io_ret_def io_err_def io_lift_def io_of_def io_bind_def io_match_def io_get_def io_mod_def

subsection \<open>Exact reads over short ones\<close>

definition read_at_once :: "(nat \<Rightarrow> nat \<Rightarrow> nat) \<Rightarrow> bytes \<Rightarrow> nat \<Rightarrow> nat \<Rightarrow> bytes" where
  "read_at_once sys file off len = take (sys off len) (take len (drop off file))"

text \<open>\<open>err\<close> makes the error from the offset at which nothing came.\<close>

function read_loop :: "(nat \<Rightarrow> nat \<Rightarrow> nat) \<Rightarrow> bytes \<Rightarrow> (nat \<Rightarrow> lsm_error) \<Rightarrow> nat \<Rightarrow> nat \<Rightarrow> bytes \<Rightarrow> bytes res" where
  "read_loop sys file err off want acc =
     (if want = 0 then Inr acc
      else let d = read_at_once sys file off want in
           if d = [] then Inl (err off)
           else read_loop sys file err (off + length d) (want - length d) (acc @ d))"
  by pat_completeness auto
termination
  by (relation "measure (\<lambda>(sys, file, err, off, want, acc). want)") auto

declare read_loop.simps [simp del]

definition unexpected_eof :: "nat \<Rightarrow> nat \<Rightarrow> lsm_error" where
  "unexpected_eof len off = Io UnexpectedEof (''Unexpected EOF while reading '' @ decimal len @ '' bytes at offset '' @ decimal off)"

definition read_exact_at :: "(nat \<Rightarrow> nat \<Rightarrow> nat) \<Rightarrow> bytes \<Rightarrow> nat \<Rightarrow> nat \<Rightarrow> bytes res" where
  "read_exact_at sys file off len = read_loop sys file (\<lambda>_. unexpected_eof len off) off len []"

definition read_u32_le_at :: "(nat \<Rightarrow> nat \<Rightarrow> nat) \<Rightarrow> bytes \<Rightarrow> nat \<Rightarrow> u32 res" where
  "read_u32_le_at sys file off =
     (case read_exact_at sys file off 4 of Inl e \<Rightarrow> Inl e | Inr b \<Rightarrow> Inr (u32_from_le b))"

text \<open>\<open>pread\<close> delivers nothing only at the end of the file.\<close>

definition sys_ok :: "(nat \<Rightarrow> nat \<Rightarrow> nat) \<Rightarrow> bool" where
  "sys_ok sys \<longleftrightarrow> (\<forall>off len. 0 < len \<longrightarrow> 0 < sys off len)"

lemma read_loop_spec:
  "sys_ok sys \<Longrightarrow> read_loop sys file err off want acc =
     (if want = 0 \<or> off + want \<le> length file then Inr (acc @ take want (drop off file))
      else Inl (err (max off (length file))))"
proof (induction want arbitrary: off acc rule: less_induct)
  case (less want)
  show ?case
  proof (cases "want = 0")
    case False
    let ?d = "read_at_once sys file off want"
    have pos: "0 < sys off want" using less.prems False by (simp add: sys_ok_def)
    have dlen: "length ?d = min (sys off want) (min want (length file - off))"
      by (simp add: read_at_once_def)
    show ?thesis
    proof (cases "?d = []")
      case True
      then have "length file \<le> off" using pos False dlen by auto
      then show ?thesis using True False by (simp add: read_loop.simps [of sys "file" err off want acc])
    next
      case ne: False
      then have pos_d: "0 < length ?d" by simp
      then have d: "0 < length ?d" "length ?d \<le> want" "off + length ?d \<le> length file"
        using dlen by linarith+
      have pre: "?d = take (length ?d) (drop off file)"
      proof -
        have "?d = take (min (sys off want) want) (drop off file)" by (simp add: read_at_once_def)
        then show ?thesis by (metis append_eq_conv_conj append_take_drop_id)
      qed
      have tail: "?d @ take (want - length ?d) (drop (off + length ?d) file) = take want (drop off file)"
        using pre d(2) take_add [of "length ?d" "want - length ?d" "drop off file"]
        by (simp add: add.commute)
      have "read_loop sys file err off want acc = read_loop sys file err (off + length ?d) (want - length ?d) (acc @ ?d)"
        using False ne by (simp add: read_loop.simps [of sys "file" err off want acc] Let_def)
      also have "\<dots> = (if want = 0 \<or> off + want \<le> length file then Inr (acc @ take want (drop off file))
          else Inl (err (max off (length file))))"
        using less.IH [of "want - length ?d" "off + length ?d" "acc @ ?d"] less.prems d tail False
        by (auto simp: )
      finally show ?thesis .
    qed
qed (simp add: read_loop.simps [of sys "file" err off 0 acc])
qed

lemma read_exact_at_spec: "sys_ok sys \<Longrightarrow> read_exact_at sys file off len =
  (if len = 0 \<or> off + len \<le> length file then Inr (take len (drop off file))
   else Inl (unexpected_eof len off))"
  by (simp add: read_exact_at_def read_loop_spec)

lemma read_exact_mid: "sys_ok sys \<Longrightarrow> off = length pre \<Longrightarrow> n = length x \<Longrightarrow>
  read_exact_at sys (pre @ x @ post) off n = Inr x"
  by (simp add: read_exact_at_spec)

lemma read_u32_mid: "sys_ok sys \<Longrightarrow> off = length pre \<Longrightarrow>
  read_u32_le_at sys (pre @ u32_to_le w @ post) off = Inr w"
  by (simp add: read_u32_le_at_def read_exact_mid)

subsection \<open>Handles\<close>

type_synonym path = string
type_synonym fs = "path \<Rightarrow> bytes option"

datatype read_mode = SeekRead | PositionedRead | MmapHybrid

record reader =
  rd_path :: path
  rd_mode :: read_mode
  rd_async :: "bytes option"
  rd_sync :: "bytes option"
  rd_mmap :: "bytes option"

definition effective_mode :: "bool \<Rightarrow> read_mode \<Rightarrow> read_mode" where
  "effective_mode linux m = (if m = MmapHybrid \<and> \<not> linux then PositionedRead else m)"

definition rd_new :: "bool \<Rightarrow> path \<Rightarrow> read_mode \<Rightarrow> reader" where
  "rd_new linux p m = \<lparr>rd_path = p, rd_mode = effective_mode linux m,
                       rd_async = None, rd_sync = None, rd_mmap = None\<rparr>"

text \<open>The mapped reader counts as open when its file is not empty.\<close>

definition rd_is_open :: "reader \<Rightarrow> bool" where
  "rd_is_open r = (case rd_mode r of SeekRead \<Rightarrow> rd_async r \<noteq> None
                   | PositionedRead \<Rightarrow> rd_sync r \<noteq> None
                   | MmapHybrid \<Rightarrow> (case rd_mmap r of None \<Rightarrow> False | Some file \<Rightarrow> 0 < length file))"

definition no_such_file :: lsm_error where
  "no_such_file = Io NotFound ''No such file or directory''"

definition ensure_sync_open_blocking :: "fs \<Rightarrow> bool \<Rightarrow> reader \<Rightarrow> unit res \<times> reader" where
  "ensure_sync_open_blocking fs resilient r =
     (if rd_sync r \<noteq> None then (Inr (), r)
      else if \<not> resilient then (Inl (Internal ''Sync file not open and resilient handling is disabled''), r)
      else case fs (rd_path r) of None \<Rightarrow> (Inl no_such_file, r)
           | Some content \<Rightarrow> (Inr (), r\<lparr>rd_sync := Some content\<rparr>))"

definition ensure_open_blocking :: "fs \<Rightarrow> bool \<Rightarrow> reader \<Rightarrow> unit res \<times> reader" where
  "ensure_open_blocking fs resilient r = ensure_sync_open_blocking fs resilient r"

definition ensure_async_open :: "fs \<Rightarrow> bool \<Rightarrow> reader \<Rightarrow> unit res \<times> reader" where
  "ensure_async_open fs resilient r =
     (if rd_async r \<noteq> None then (Inr (), r)
      else if \<not> resilient then (Inl (Internal ''File not open and resilient handling is disabled''), r)
      else case fs (rd_path r) of None \<Rightarrow> (Inl no_such_file, r)
           | Some content \<Rightarrow> (Inr (), r\<lparr>rd_async := Some content\<rparr>))"

definition ensure_sync_open :: "fs \<Rightarrow> bool \<Rightarrow> reader \<Rightarrow> unit res \<times> reader" where
  "ensure_sync_open fs resilient r =
     (if rd_sync r \<noteq> None then (Inr (), r)
      else if \<not> resilient then (Inl (Internal ''Sync file not open and resilient handling is disabled''), r)
      else case fs (rd_path r) of None \<Rightarrow> (Inl no_such_file, r)
           | Some content \<Rightarrow> (Inr (), r\<lparr>rd_sync := Some content\<rparr>))"

definition ensure_mmap_open :: "fs \<Rightarrow> bool \<Rightarrow> reader \<Rightarrow> unit res \<times> reader" where
  "ensure_mmap_open fs resilient r =
     (if rd_mmap r \<noteq> None then (Inr (), r)
      else if \<not> resilient then (Inl (Internal ''Mmap reader not open and resilient handling is disabled''), r)
      else case fs (rd_path r) of None \<Rightarrow> (Inl no_such_file, r)
           | Some content \<Rightarrow> (Inr (), r\<lparr>rd_mmap := Some content\<rparr>))"

definition ensure_open :: "fs \<Rightarrow> bool \<Rightarrow> reader \<Rightarrow> unit res \<times> reader" where
  "ensure_open fs resilient r = (case rd_mode r of SeekRead \<Rightarrow> ensure_async_open fs resilient r
     | PositionedRead \<Rightarrow> ensure_sync_open fs resilient r | MmapHybrid \<Rightarrow> ensure_mmap_open fs resilient r)"

definition read_exact_at_blocking ::
  "(nat \<Rightarrow> nat \<Rightarrow> nat) \<Rightarrow> fs \<Rightarrow> reader \<Rightarrow> nat \<Rightarrow> nat \<Rightarrow> bytes res \<times> reader" where
  "read_exact_at_blocking sys fs r off len =
     (case ensure_open_blocking fs True r of
        (Inl e, r) \<Rightarrow> (Inl e, r)
      | (Inr _, r) \<Rightarrow> (case rd_sync r of
            None \<Rightarrow> (Inl (Internal ''Sync file not open''), r)
          | Some file \<Rightarrow> (read_exact_at sys file off len, r)))"

definition read_u32_le_at_blocking ::
  "(nat \<Rightarrow> nat \<Rightarrow> nat) \<Rightarrow> fs \<Rightarrow> reader \<Rightarrow> nat \<Rightarrow> u32 res \<times> reader" where
  "read_u32_le_at_blocking sys fs r off =
     (case read_exact_at_blocking sys fs r off 4 of
        (Inl e, r) \<Rightarrow> (Inl e, r) | (Inr b, r) \<Rightarrow> (Inr (u32_from_le b), r))"

definition file_size_blocking :: "fs \<Rightarrow> reader \<Rightarrow> nat res" where
  "file_size_blocking fs r = (case fs (rd_path r) of None \<Rightarrow> Inl no_such_file | Some f \<Rightarrow> Inr (length f))"

definition rd_file_size :: "fs \<Rightarrow> reader \<Rightarrow> nat res \<times> reader" where
  "rd_file_size fs r = (case ensure_open fs True r of (Inl e, r) \<Rightarrow> (Inl e, r) | (Inr _, r) \<Rightarrow> (file_size_blocking fs r, r))"

text \<open>
  One read in the mode of the reader.  In the mode \<open>MmapHybrid\<close> the handle is the file the mapped reader shows, which
  delivers all that is there; theory \<open>Mmap_Reader\<close> has its inside.
\<close>

definition read_at_mmap :: "bytes \<Rightarrow> nat \<Rightarrow> nat \<Rightarrow> bytes" where
  "read_at_mmap file off len = take len (drop off file)"

definition read_at_mode ::
  "(nat \<Rightarrow> nat \<Rightarrow> nat) \<Rightarrow> fs \<Rightarrow> reader \<Rightarrow> nat \<Rightarrow> nat \<Rightarrow> bytes res \<times> reader" where
  "read_at_mode sys fs r off len =
     (if len = 0 then (Inr [], r)
      else case ensure_open fs True r of
        (Inl e, r) \<Rightarrow> (Inl e, r)
      | (Inr _, r) \<Rightarrow> (case rd_mode r of
            SeekRead \<Rightarrow> (case rd_async r of None \<Rightarrow> Inl (Internal ''File not open'')
               | Some file \<Rightarrow> Inr (read_at_once sys file off len))
          | PositionedRead \<Rightarrow> (case rd_sync r of None \<Rightarrow> Inl (Internal ''Sync file not open'')
               | Some file \<Rightarrow> Inr (read_at_once sys file off len))
          | MmapHybrid \<Rightarrow> (case rd_mmap r of None \<Rightarrow> Inl (Internal ''Mmap reader not open'')
               | Some file \<Rightarrow> Inr (read_at_mmap file off len)), r))"

function mode_loop :: "(nat \<Rightarrow> nat \<Rightarrow> nat) \<Rightarrow> fs \<Rightarrow> lsm_error \<Rightarrow> nat \<Rightarrow> nat \<Rightarrow> bytes \<Rightarrow> reader \<Rightarrow> bytes res \<times> reader" where
  "mode_loop sys fs err off want acc r =
     (if want = 0 then (Inr acc, r)
      else case read_at_mode sys fs r off want of
          (Inl e, r) \<Rightarrow> (Inl e, r)
        | (Inr d, r) \<Rightarrow> if d = [] then (Inl err, r)
            else mode_loop sys fs err (off + length d) (want - length d) (acc @ d) r)"
  by pat_completeness auto
termination
  by (relation "measure (\<lambda>(sys, fs, err, off, want, acc, r). want)") auto

declare mode_loop.simps [simp del]

definition read_exact_at_mode ::
  "(nat \<Rightarrow> nat \<Rightarrow> nat) \<Rightarrow> fs \<Rightarrow> reader \<Rightarrow> nat \<Rightarrow> nat \<Rightarrow> bytes res \<times> reader" where
  "read_exact_at_mode sys fs r off len = mode_loop sys fs (unexpected_eof len off) off len [] r"

definition rd_close :: "reader \<Rightarrow> reader" where
  "rd_close r = r\<lparr>rd_async := None, rd_sync := None, rd_mmap := None\<rparr>"

text \<open>A reader that reads \<open>file\<close>: every open handle is on that content, and so is the path, or the
  blocking handle is open already.\<close>

definition reads :: "fs \<Rightarrow> bytes \<Rightarrow> reader \<Rightarrow> bool" where
  "reads fs file r \<longleftrightarrow> rd_sync r \<in> {None, Some file} \<and> (rd_sync r = None \<longrightarrow> fs (rd_path r) = Some file)"

lemma reads_open [simp]: "reads fs file r \<Longrightarrow> ensure_open_blocking fs True r = (Inr (), r\<lparr>rd_sync := Some file\<rparr>)"
  by (cases "rd_sync r")
     (auto simp: reads_def ensure_open_blocking_def ensure_sync_open_blocking_def)

lemma reads_sync [simp]: "reads fs file (r\<lparr>rd_sync := Some file\<rparr>)"
  by (simp add: reads_def)

lemma read_blocking: "reads fs file r \<Longrightarrow>
  read_exact_at_blocking sys fs r off len = (read_exact_at sys file off len, r\<lparr>rd_sync := Some file\<rparr>)"
  by (simp add: read_exact_at_blocking_def)

lemma read_u32_blocking: "reads fs file r \<Longrightarrow>
  read_u32_le_at_blocking sys fs r off = (read_u32_le_at sys file off, r\<lparr>rd_sync := Some file\<rparr>)"
  by (simp add: read_u32_le_at_blocking_def read_u32_le_at_def read_blocking split: sum.splits)

lemma opened_simps [simp]:
  "ensure_open_blocking fs True (r\<lparr>rd_sync := Some f\<rparr>) = (Inr (), r\<lparr>rd_sync := Some f\<rparr>)"
  "read_exact_at_blocking sys fs (r\<lparr>rd_sync := Some f\<rparr>) off len
     = (read_exact_at sys f off len, r\<lparr>rd_sync := Some f\<rparr>)"
  "read_u32_le_at_blocking sys fs (r\<lparr>rd_sync := Some f\<rparr>) off
     = (read_u32_le_at sys f off, r\<lparr>rd_sync := Some f\<rparr>)"
  using reads_open [OF reads_sync] read_blocking [OF reads_sync] read_u32_blocking [OF reads_sync] by auto

text \<open>The same for the mode of the reader.\<close>

definition rd_handle :: "reader \<Rightarrow> bytes option" where
  "rd_handle r = (case rd_mode r of SeekRead \<Rightarrow> rd_async r | PositionedRead \<Rightarrow> rd_sync r | MmapHybrid \<Rightarrow> rd_mmap r)"

definition reads_mode :: "fs \<Rightarrow> bytes \<Rightarrow> reader \<Rightarrow> bool" where
  "reads_mode fs file r \<longleftrightarrow> rd_handle r \<in> {None, Some file} \<and> (rd_handle r = None \<longrightarrow> fs (rd_path r) = Some file)"

lemma read_at_mode_once:
  assumes "sys_ok sys" and "reads_mode fs file r" and "0 < want"
  shows "\<exists>d r'. read_at_mode sys fs r off want = (Inr d, r') \<and> reads_mode fs file r' \<and> d = take (length d) (drop off file)
    \<and> length d \<le> want \<and> (d = [] \<longleftrightarrow> length file \<le> off) \<and> off + length d \<le> max off (length file)"
proof -
  let ?d = "case rd_mode r of MmapHybrid \<Rightarrow> read_at_mmap file off want | _ \<Rightarrow> read_at_once sys file off want"
  have "0 < sys off want" using assms(1,3) by (simp add: sys_ok_def)
  then have d: "?d = take (length ?d) (drop off file)" "length ?d \<le> want" "?d = [] \<longleftrightarrow> length file \<le> off"
    "off + length ?d \<le> max off (length file)"
    using assms(3) by (auto simp: read_at_mmap_def read_at_once_def min_def split: read_mode.splits)
  have "\<exists>r'. read_at_mode sys fs r off want = (Inr ?d, r') \<and> reads_mode fs file r'"
    using assms(2,3) by (cases "rd_mode r"; cases "rd_handle r")
      (auto simp: read_at_mode_def ensure_open_def ensure_async_open_def ensure_sync_open_def ensure_mmap_open_def
        reads_mode_def rd_handle_def)
  with d show ?thesis by blast
qed

lemma mode_loop_spec:
  "sys_ok sys \<Longrightarrow> reads_mode fs file r \<Longrightarrow> fst (mode_loop sys fs err off want acc r) =
     (if want = 0 \<or> off + want \<le> length file then Inr (acc @ take want (drop off file)) else Inl err)"
proof (induction want arbitrary: off acc r rule: less_induct)
  case (less want)
  show ?case
  proof (cases "want = 0")
    case False
    from read_at_mode_once [OF less.prems, of want off] False obtain d r' where
      d: "read_at_mode sys fs r off want = (Inr d, r')" "reads_mode fs file r'" "d = take (length d) (drop off file)"
        "length d \<le> want" "d = [] \<longleftrightarrow> length file \<le> off" "off + length d \<le> max off (length file)" by auto
    show ?thesis
    proof (cases "d = []")
      case True
      with d False show ?thesis by (subst mode_loop.simps) auto
    next
      case ne: False
      have step: "mode_loop sys fs err off want acc r = mode_loop sys fs err (off + length d) (want - length d) (acc @ d) r'"
        using False ne d(1) by (subst mode_loop.simps) simp
      have tail: "d @ take (want - length d) (drop (off + length d) file) = take want (drop off file)"
        using d(3,4) take_add [of "length d" "want - length d" "drop off file"] by (simp add: add.commute)
      have "want - length d < want" using False ne by simp
      from less.IH [OF this less.prems(1) d(2), of "off + length d" "acc @ d"] d(4,5,6) ne tail False
      show ?thesis unfolding step by auto
    qed
  qed (simp add: mode_loop.simps [of _ _ _ _ 0])
qed

lemma read_exact_at_mode_spec: "sys_ok sys \<Longrightarrow> reads_mode fs file r \<Longrightarrow>
  fst (read_exact_at_mode sys fs r off len) = read_exact_at sys file off len"
  by (simp add: read_exact_at_mode_def mode_loop_spec read_exact_at_spec)

text \<open>
  C34: exact reads.  Whatever the kernel delivers per call, the loop returns the bytes of the file at
  the offset when they are there and an end-of-file error otherwise, and it ends; through an open
  handle it does so even after the path is gone.  The asynchronous read gives the same in every mode.
\<close>

theorem exact_read_correct:
  assumes "sys_ok sys" and "reads fs file r"
  shows "fst (read_exact_at_blocking sys fs r off len) =
      (if len = 0 \<or> off + len \<le> length file then Inr (take len (drop off file))
       else Inl (unexpected_eof len off))
    \<and> reads (\<lambda>_. None) file (snd (read_exact_at_blocking sys fs r off len))
    \<and> (reads_mode fs file r \<longrightarrow> fst (read_exact_at_mode sys fs r off len) = fst (read_exact_at_blocking sys fs r off len))"
  using assms by (simp_all add: read_blocking read_exact_at_spec read_exact_at_mode_spec)

theorem exact_read_correct_witness:
  "fst (read_exact_at_blocking (\<lambda>_ _. 1) (\<lambda>_. Some [1, 2, 3]) (rd_new True ''t'' SeekRead) 1 2)
     = Inr [2, 3]"
proof -
  have "sys_ok (\<lambda>_ _. 1)" by (simp add: sys_ok_def)
  moreover have "reads (\<lambda>_. Some [1, 2, 3]) [1, 2, 3] (rd_new True ''t'' SeekRead)"
    by (simp add: reads_def rd_new_def)
  ultimately show ?thesis using exact_read_correct [of "\<lambda>_ _. 1" _ "[1, 2, 3]" _ 1 2] by simp
qed

end
