(* ===== verification/SSTable_Format.thy ===== *)
theory SSTable_Format
  imports Flat_Index Bloom Value_Model File_Reader
begin

text \<open>
  The file of an SSTable and how it is written, \<open>crates/f4kvs-lsm/src/storage/sstable.rs\<close>:
  framed entries with their checksum, Snappy blocks, the packed index, the Bloom filter and the
  metadata at the end.  \<open>bincode\<close>, \<open>snap\<close> and \<open>crc32fast\<close> are the fields of the record
  \<open>env\<close>; what is used of them is \<open>env_ok\<close> and \<open>entry_ok\<close>.  A hasher fed piece by piece is the
  checksum of the concatenation.  Writing to the file succeeds; what is left after an I/O error is
  not modelled.
\<close>

record 'n entry =
  en_key :: key
  en_value :: "'n val"
  en_ts :: nat
  en_deleted :: bool

record sst_meta =
  sm_entry_count :: nat
  sm_file_size :: nat
  sm_smallest :: key
  sm_largest :: key
  sm_level :: nat
  sm_checksum :: u32
  sm_created :: nat
  sm_index_offset :: nat
  sm_index_size :: nat
  sm_bloom_offset :: nat
  sm_bloom_size :: nat
  sm_bloom_hashes :: nat

record 'n env =
  sys_read :: "nat \<Rightarrow> nat \<Rightarrow> nat"
  ser_entry :: "'n entry \<Rightarrow> bytes option"
  de_entry :: "bytes \<Rightarrow> 'n entry option"
  ser_meta :: "sst_meta \<Rightarrow> bytes option"
  de_meta :: "bytes \<Rightarrow> sst_meta option"
  de_index :: "bytes \<Rightarrow> (key \<times> loc) list option"
  crc :: "bytes \<Rightarrow> u32"
  compress :: "bytes \<Rightarrow> bytes option"
  decompress :: "bytes \<Rightarrow> bytes option"
  key_hash :: "key \<Rightarrow> nat \<Rightarrow> u64"

definition max_entry :: nat where "max_entry = 100 * 1024 * 1024"
definition max_block :: nat where "max_block = 128 * 1024 * 1024"
definition SST_BLOCK_TARGET :: nat where "SST_BLOCK_TARGET = 32 * 1024"
definition SST_COMPRESSED_MAGIC :: bytes where "SST_COMPRESSED_MAGIC = [0x46, 0x34, 0x53, 0x43]"
definition sst_header :: bytes where "sst_header = SST_COMPRESSED_MAGIC @ [1, 0, 0, 0]"

subsection \<open>Framed entries\<close>

definition de_entry_res :: "'n env \<Rightarrow> bytes \<Rightarrow> 'n entry res" where
  "de_entry_res E d = (case de_entry E d of None \<Rightarrow> Inl (Serialization ''Failed to deserialize entry'')
                       | Some e \<Rightarrow> Inr e)"

definition frame :: "'n env \<Rightarrow> bytes \<Rightarrow> bytes" where
  "frame E d = (let n = u32_to_le (word_of_nat (length d)) in n @ d @ u32_to_le (crc E (n @ d)))"

definition parse_framed_entry :: "'n env \<Rightarrow> bytes \<Rightarrow> nat \<Rightarrow> 'n entry res" where
  "parse_framed_entry E buf pos =
     (if length buf < pos + 8 then Inl (Corruption ''framed entry header past block end'')
      else
        let size_le = take 4 (drop pos buf); entry_size = unat (u32_from_le size_le) in
        if entry_size = 0 \<or> max_entry < entry_size then Inl (Corruption ''invalid framed entry size'')
        else
          let data_end = pos + 4 + entry_size; crc_end = data_end + 4 in
          if length buf < crc_end then Inl (Corruption ''framed entry body past block end'')
          else
            let d = take entry_size (drop (pos + 4) buf); stored = u32_from_le (take 4 (drop data_end buf)) in
            if stored \<noteq> crc E (u32_to_le (word_of_nat entry_size) @ d)
            then Inl (Corruption ''framed entry checksum mismatch'')
            else de_entry_res E d)"

definition snap_compress :: "'n env \<Rightarrow> bytes \<Rightarrow> bytes res" where
  "snap_compress E raw = (case compress E raw of None \<Rightarrow> Inl (Internal ''snappy compress'') | Some c \<Rightarrow> Inr c)"

definition snap_decompress :: "'n env \<Rightarrow> bytes \<Rightarrow> bytes res" where
  "snap_decompress E c = (case decompress E c of None \<Rightarrow> Inl (Corruption ''snappy decompress'') | Some r \<Rightarrow> Inr r)"

subsection \<open>Writing the data blocks\<close>

text \<open>The locals of \<open>write_entries\<close>; \<open>ws_out\<close> is what has been written and hashed.\<close>

record wstate =
  ws_out :: bytes
  ws_offset :: nat
  ws_pairs :: "(key \<times> loc) list"
  ws_block :: bytes
  ws_pending :: "(key \<times> u32) list"

definition write_snappy_block :: "'n env \<Rightarrow> wstate \<Rightarrow> wstate res" where
  "write_snappy_block E st =
     (if ws_block st = [] then Inr st
      else res_bind (snap_compress E (ws_block st)) (\<lambda>c.
        Inr \<lparr>ws_out = ws_out st @ u32_to_le (word_of_nat (length (ws_block st)))
                       @ u32_to_le (word_of_nat (length c)) @ c,
             ws_offset = ws_offset st + 8 + length c,
             ws_pairs = ws_pairs st @ map (\<lambda>(k, in_off). (k, word_of_nat (ws_offset st), in_off)) (ws_pending st),
             ws_block = [], ws_pending = []\<rparr>))"

definition write_entry :: "'n env \<Rightarrow> 'n entry \<Rightarrow> wstate \<Rightarrow> wstate res" where
  "write_entry E e st =
     (case ser_entry E e of None \<Rightarrow> Inl (Serialization ''Failed to serialize entry'')
      | Some d \<Rightarrow>
        res_bind (if ws_block st \<noteq> [] \<and> SST_BLOCK_TARGET \<le> length (ws_block st)
                  then write_snappy_block E st else Inr st) (\<lambda>st.
          Inr (st\<lparr>ws_block := ws_block st @ frame E d,
                  ws_pending := ws_pending st @ [(en_key e, word_of_nat (length (ws_block st)))]\<rparr>)))"

fun write_loop :: "'n env \<Rightarrow> 'n entry list \<Rightarrow> wstate \<Rightarrow> wstate res" where
  "write_loop E [] st = write_snappy_block E st"
| "write_loop E (e # es) st = res_bind (write_entry E e st) (write_loop E es)"

definition ws_start :: wstate where
  "ws_start = \<lparr>ws_out = sst_header, ws_offset = length sst_header, ws_pairs = [], ws_block = [], ws_pending = []\<rparr>"

subsection \<open>What is used of the libraries\<close>

definition env_ok :: "'n env \<Rightarrow> bool" where
  "env_ok E \<longleftrightarrow> sys_ok (sys_read E)
     \<and> (\<forall>b. length b < 4294967296 \<longrightarrow> compress E b \<noteq> None)
     \<and> (\<forall>b c. compress E b = Some c \<longrightarrow>
          decompress E c = Some b \<and> c \<noteq> [] \<and> length c \<le> 32 + length b + length b div 6)"

definition entry_ok :: "'n env \<Rightarrow> 'n entry \<Rightarrow> bool" where
  "entry_ok E e \<longleftrightarrow> (\<exists>d. ser_entry E e = Some d \<and> 0 < length d \<and> length d \<le> max_entry)"

text \<open>What reading the entry back gives: the entry itself where the coding is faithful, and an error
  for a JSON value, which \<open>bincode\<close> writes but cannot read.\<close>

definition read_back :: "'n env \<Rightarrow> 'n entry \<Rightarrow> 'n entry res" where
  "read_back E e = de_entry_res E (the (ser_entry E e))"

definition reads_back :: "'n env \<Rightarrow> 'n entry \<Rightarrow> bool" where
  "reads_back E e \<longleftrightarrow> read_back E e = Inr e"

lemma env_sys [simp]: "env_ok E \<Longrightarrow> sys_ok (sys_read E)"
  by (simp add: env_ok_def)

lemma compress_total: "env_ok E \<Longrightarrow> length b < 4294967296 \<Longrightarrow> \<exists>c. compress E b = Some c"
  by (auto simp: env_ok_def)

lemma compress_back: "env_ok E \<Longrightarrow> compress E b = Some c \<Longrightarrow> decompress E c = Some b"
  by (auto simp: env_ok_def)

lemma compress_size: "env_ok E \<Longrightarrow> compress E b = Some c \<Longrightarrow>
  0 < length c \<and> length c \<le> 32 + length b + length b div 6"
  by (auto simp: env_ok_def)

text \<open>A block holds less than the target before its last entry, and Snappy's worst case on such a
  block stays below the limit the reader enforces.\<close>

lemma block_compressed_small:
  assumes "env_ok E" and "compress E b = Some c" and "length b < SST_BLOCK_TARGET + max_entry + 8"
  shows "length c \<le> max_block"
proof -
  have b: "length b \<le> 104890375" using assms(3) by (simp add: SST_BLOCK_TARGET_def max_entry_def)
  then have "length b div 6 \<le> 104890375 div 6" by (rule div_le_mono)
  with b compress_size [OF assms(1,2)] show ?thesis by (simp add: max_block_def)
qed

subsection \<open>Parsing what was framed\<close>

lemma length_frame [simp]: "length (frame E d) = length d + 8"
  by (simp add: frame_def Let_def)

lemma parse_frame:
  assumes "0 < length d" and "length d \<le> max_entry"
  shows "parse_framed_entry E (p @ frame E d @ q) (length p) = de_entry_res E d"
proof -
  let ?n = "u32_to_le (word_of_nat (length d))"
  let ?c = "u32_to_le (crc E (?n @ d))"
  let ?b = "p @ frame E d @ q"
  have b: "?b = p @ ?n @ d @ ?c @ q" by (simp add: frame_def Let_def)
  have size: "unat (u32_from_le ?n) = length d"
    using assms(2) by (simp add: max_entry_def unat_u32_of_nat)
  have h: "take 4 (drop (length p) ?b) = ?n" by (simp add: b)
  have body: "take (length d) (drop (length p + 4) ?b) = d" by (simp add: b)
  have "drop (length p + 4 + length d) ?b = ?c @ q" by (simp add: b)
  then have stored: "u32_from_le (take 4 (drop (length p + 4 + length d) ?b)) = crc E (?n @ d)" by simp
  have len: "\<not> length ?b < length p + 8" "\<not> length ?b < length p + 4 + length d + 4"
    by simp_all
  show ?thesis
    unfolding parse_framed_entry_def Let_def h size body stored
    using len assms by simp
qed

subsection \<open>Where the entries of a file are\<close>

text \<open>\<open>e\<close> is framed in \<open>blk\<close> at \<open>i\<close>; and \<open>blk\<close> is the block at \<open>off\<close> of \<open>out\<close>.\<close>

definition framed_at :: "'n env \<Rightarrow> bytes \<Rightarrow> nat \<Rightarrow> 'n entry \<Rightarrow> bool" where
  "framed_at E blk i e \<longleftrightarrow> (\<exists>p d q. blk = p @ frame E d @ q \<and> length p = i \<and> ser_entry E e = Some d
     \<and> 0 < length d \<and> length d \<le> max_entry)"

definition block_at :: "'n env \<Rightarrow> bytes \<Rightarrow> nat \<Rightarrow> bytes \<Rightarrow> bool" where
  "block_at E out off blk \<longleftrightarrow> (\<exists>pre c post. compress E blk = Some c
     \<and> out = pre @ u32_to_le (word_of_nat (length blk)) @ u32_to_le (word_of_nat (length c)) @ c @ post
     \<and> length pre = off \<and> blk \<noteq> [] \<and> length blk < SST_BLOCK_TARGET + max_entry + 8)"

definition located :: "'n env \<Rightarrow> bytes \<Rightarrow> 'n entry \<Rightarrow> key \<times> loc \<Rightarrow> bool" where
  "located E out e p \<longleftrightarrow> fst p = en_key e \<and>
     (\<exists>blk off. block_at E out off blk \<and> fst (snd p) = word_of_nat off
        \<and> unat (snd (snd p)) < SST_BLOCK_TARGET \<and> framed_at E blk (unat (snd (snd p))) e)"

lemma framed_at_append: "framed_at E blk i e \<Longrightarrow> framed_at E (blk @ r) i e"
  unfolding framed_at_def by force

lemma framed_at_parse: "framed_at E blk i e \<Longrightarrow> parse_framed_entry E blk i = read_back E e"
  unfolding framed_at_def read_back_def using parse_frame by force

lemma block_at_append: "block_at E out off blk \<Longrightarrow> block_at E (out @ r) off blk"
  unfolding block_at_def by force

lemma located_append: "located E out e p \<Longrightarrow> located E (out @ r) e p"
  unfolding located_def using block_at_append by blast

definition pending_ok :: "'n env \<Rightarrow> bytes \<Rightarrow> 'n entry \<Rightarrow> key \<times> u32 \<Rightarrow> bool" where
  "pending_ok E blk e p \<longleftrightarrow> fst p = en_key e \<and> unat (snd p) < SST_BLOCK_TARGET \<and> framed_at E blk (unat (snd p)) e"

text \<open>The loop invariant: the entries so far are those of the finished blocks followed by those
  of the open one.\<close>

definition ws_inv :: "'n env \<Rightarrow> 'n entry list \<Rightarrow> wstate \<Rightarrow> bool" where
  "ws_inv E done st \<longleftrightarrow> ws_offset st = length (ws_out st) \<and> 8 \<le> ws_offset st
     \<and> (\<exists>r. ws_out st = sst_header @ r)
     \<and> length (ws_block st) < SST_BLOCK_TARGET + max_entry + 8
     \<and> (ws_block st = [] \<longrightarrow> ws_pending st = [])
     \<and> (\<exists>fl pe. done = fl @ pe \<and> list_all2 (located E (ws_out st)) fl (ws_pairs st)
          \<and> list_all2 (pending_ok E (ws_block st)) pe (ws_pending st))"

lemma list_all2_mono2: "list_all2 P xs ys \<Longrightarrow> (\<And>x y. P x y \<Longrightarrow> Q x y) \<Longrightarrow> list_all2 Q xs ys"
  by (rule list_all2_mono)

lemma ws_inv_start: "ws_inv E [] ws_start"
  by (simp add: ws_inv_def ws_start_def sst_header_def SST_COMPRESSED_MAGIC_def max_entry_def)

lemma ws_inv_block:
  assumes inv: "ws_inv E done st" and env: "env_ok E"
  shows "\<exists>st'. write_snappy_block E st = Inr st' \<and> ws_inv E done st'
     \<and> ws_block st' = [] \<and> ws_pending st' = []"
proof (cases "ws_block st = []")
  case True
  with inv show ?thesis by (auto simp: write_snappy_block_def ws_inv_def)
next
  case False
  obtain fl pe where split: "done = fl @ pe" "list_all2 (located E (ws_out st)) fl (ws_pairs st)"
      "list_all2 (pending_ok E (ws_block st)) pe (ws_pending st)"
    using inv by (auto simp: ws_inv_def)
  have small: "length (ws_block st) < 4294967296"
    using inv by (simp add: ws_inv_def SST_BLOCK_TARGET_def max_entry_def)
  obtain c where c: "compress E (ws_block st) = Some c" using compress_total [OF env small] by blast
  define out where "out = ws_out st @ u32_to_le (word_of_nat (length (ws_block st)))
     @ u32_to_le (word_of_nat (length c)) @ c"
  let ?pairs = "map (\<lambda>(k, in_off). (k, word_of_nat (ws_offset st), in_off)) (ws_pending st)"
  let ?st = "\<lparr>ws_out = out, ws_offset = ws_offset st + 8 + length c,
     ws_pairs = ws_pairs st @ ?pairs, ws_block = [], ws_pending = []\<rparr>"
  have run: "write_snappy_block E st = Inr ?st"
    using False c by (simp add: write_snappy_block_def snap_compress_def out_def)
  have blk: "block_at E out (ws_offset st) (ws_block st)"
    unfolding block_at_def
    by (rule exI [of _ "ws_out st"], rule exI [of _ c], rule exI [of _ "[]"])
       (use inv c False in \<open>auto simp: out_def ws_inv_def\<close>)
  have loc: "located E out e (k, word_of_nat (ws_offset st), i)"
    if "pending_ok E (ws_block st) e (k, i)" for e k i
    using that blk by (auto simp: pending_ok_def located_def)
  have new: "list_all2 (located E out) pe ?pairs"
    using split(3) by (auto simp: list_all2_conv_all_nth split_def intro: loc)
  have old: "list_all2 (located E out) fl (ws_pairs st)"
    using split(2) located_append [of E "ws_out st"] unfolding out_def by (rule list_all2_mono2)
  have all: "list_all2 (located E out) done (ws_pairs st @ ?pairs)"
    unfolding split(1) by (rule list_all2_appendI [OF old new])
  have "ws_inv E done ?st"
    unfolding ws_inv_def
  proof (intro conjI)
    show "\<exists>r. ws_out ?st = sst_header @ r" using inv by (auto simp: ws_inv_def out_def)
    show "\<exists>fl pe. done = fl @ pe \<and> list_all2 (located E (ws_out ?st)) fl (ws_pairs ?st)
       \<and> list_all2 (pending_ok E (ws_block ?st)) pe (ws_pending ?st)"
      by (rule exI [of _ "done"], rule exI [of _ "[]"]) (use all in simp)
  qed (use inv in \<open>auto simp: ws_inv_def out_def max_entry_def\<close>)
  with run show ?thesis by auto
qed

lemma ws_inv_entry:
  assumes inv: "ws_inv E done st" and env: "env_ok E" and e: "entry_ok E e"
  shows "\<exists>st'. write_entry E e st = Inr st' \<and> ws_inv E (done @ [e]) st'"
proof -
  obtain d where d: "ser_entry E e = Some d" "0 < length d" "length d \<le> max_entry"
    using e by (auto simp: entry_ok_def)
  obtain st1 where st1: "(if ws_block st \<noteq> [] \<and> SST_BLOCK_TARGET \<le> length (ws_block st)
      then write_snappy_block E st else Inr st) = Inr st1" "ws_inv E done st1"
      "length (ws_block st1) < SST_BLOCK_TARGET"
  proof (cases "ws_block st \<noteq> [] \<and> SST_BLOCK_TARGET \<le> length (ws_block st)")
    case True
    with ws_inv_block [OF inv env] that show ?thesis by (force simp: SST_BLOCK_TARGET_def)
  next
    case False
    with inv that show ?thesis by (force simp: SST_BLOCK_TARGET_def)
  qed
  let ?i = "word_of_nat (length (ws_block st1)) :: u32"
  let ?st = "st1\<lparr>ws_block := ws_block st1 @ frame E d, ws_pending := ws_pending st1 @ [(en_key e, ?i)]\<rparr>"
  obtain fl pe where split: "done = fl @ pe" "list_all2 (located E (ws_out st1)) fl (ws_pairs st1)"
      "list_all2 (pending_ok E (ws_block st1)) pe (ws_pending st1)"
    using st1(2) by (auto simp: ws_inv_def)
  have i: "unat ?i = length (ws_block st1)"
    by (rule unat_u32_of_nat) (use st1(3) in \<open>simp add: SST_BLOCK_TARGET_def\<close>)
  have here: "framed_at E (ws_block st1 @ frame E d) (length (ws_block st1)) e"
    unfolding framed_at_def
    by (rule exI [of _ "ws_block st1"], rule exI [of _ d], rule exI [of _ "[]"]) (use d in simp)
  have old: "list_all2 (pending_ok E (ws_block st1 @ frame E d)) pe (ws_pending st1)"
    using split(3) by (rule list_all2_mono2) (auto simp: pending_ok_def framed_at_append)
  have "pending_ok E (ws_block st1 @ frame E d) e (en_key e, ?i)"
    using here i st1(3) by (simp add: pending_ok_def)
  then have all: "list_all2 (pending_ok E (ws_block st1 @ frame E d)) (pe @ [e]) (ws_pending st1 @ [(en_key e, ?i)])"
    using old by (simp add: list_all2_appendI)
  have "ws_inv E (done @ [e]) ?st"
    unfolding ws_inv_def
  proof (intro conjI)
    show "\<exists>fl pe. done @ [e] = fl @ pe \<and> list_all2 (located E (ws_out ?st)) fl (ws_pairs ?st)
       \<and> list_all2 (pending_ok E (ws_block ?st)) pe (ws_pending ?st)"
      by (rule exI [of _ fl], rule exI [of _ "pe @ [e]"]) (use split all in simp)
    show "length (ws_block ?st) < SST_BLOCK_TARGET + max_entry + 8"
      using st1(3) d(3) by simp
    show "ws_block ?st = [] \<longrightarrow> ws_pending ?st = []" by (simp flip: length_0_conv)
  qed (use st1(2) in \<open>auto simp: ws_inv_def\<close>)
  then show ?thesis using d(1) st1(1) by (simp add: write_entry_def)
qed

lemma write_loop_ok:
  "ws_inv E done st \<Longrightarrow> env_ok E \<Longrightarrow> \<forall>e \<in> set es. entry_ok E e \<Longrightarrow>
   \<exists>st'. write_loop E es st = Inr st' \<and> ws_inv E (done @ es) st' \<and> ws_pending st' = []"
proof (induction es arbitrary: "done" st)
  case Nil
  with ws_inv_block [of E "done" st] show ?case by auto
next
  case (Cons e es)
  obtain st1 where st1: "write_entry E e st = Inr st1" "ws_inv E (done @ [e]) st1"
    using ws_inv_entry [OF Cons.prems(1,2), of e] Cons.prems(3) by auto
  from Cons.IH [OF st1(2) Cons.prems(2)] Cons.prems(3) st1(1) show ?case by auto
qed

text \<open>The blocks of a run of the loop: every entry is where its index pair says.\<close>

lemma write_loop_located:
  assumes "env_ok E" and "\<forall>e \<in> set es. entry_ok E e"
  shows "\<exists>st. write_loop E es ws_start = Inr st \<and> list_all2 (located E (ws_out st)) es (ws_pairs st)
     \<and> (\<exists>r. ws_out st = sst_header @ r) \<and> ws_offset st = length (ws_out st)"
proof -
  from write_loop_ok [OF ws_inv_start assms] obtain st where
    st: "write_loop E es ws_start = Inr st" "ws_inv E es st" "ws_pending st = []" by auto
  then obtain fl pe where "es = fl @ pe" "list_all2 (located E (ws_out st)) fl (ws_pairs st)"
      "list_all2 (pending_ok E (ws_block st)) pe []"
    by (auto simp: ws_inv_def)
  with st show ?thesis by (auto simp: ws_inv_def)
qed

end
