(* ===== verification/Block_Cache.thy ===== *)
theory Block_Cache
  imports Prelude "HOL-Library.AList"
begin

text \<open>
  The LRU cache of decompressed blocks, \<open>crates/f4kvs-lsm/src/storage/block_cache.rs\<close>.  The hash
  map is an association list without duplicate keys (its order is never observed); access times
  and per-block counters, which only the statistics read, are left out.  The eviction loop of
  \<open>put\<close> ends only if every cached key is in the access order, so it is a partial function whose
  \<open>None\<close> is the endless loop.  A mutex serialises every operation of \<open>SharedBlockCache\<close>, which
  has no code besides.  The locale \<open>block_store\<close> is what the table's read path relies on.
\<close>

record 'k cache =
  bc_max :: nat
  bc_size :: nat
  bc_blocks :: "('k \<times> bytes) list"
  bc_order :: "'k list"
  bc_hits :: nat
  bc_misses :: nat
  bc_evictions :: nat

definition bc_new :: "nat \<Rightarrow> 'k cache" where
  "bc_new mx = \<lparr>bc_max = mx, bc_size = 0, bc_blocks = [], bc_order = [], bc_hits = 0,
               bc_misses = 0, bc_evictions = 0\<rparr>"

text \<open>\<open>iter().position(|k| k == key)\<close> and \<open>remove(pos)\<close>, if found: the first occurrence goes.\<close>

definition update_access_order :: "'k \<Rightarrow> 'k cache \<Rightarrow> 'k cache" where
  "update_access_order k c = c\<lparr>bc_order := remove1 k (bc_order c) @ [k]\<rparr>"

definition bc_get :: "'k \<Rightarrow> 'k cache \<Rightarrow> bytes option \<times> 'k cache" where
  "bc_get k c =
     (case map_of (bc_blocks c) k of
        None \<Rightarrow> (None, c\<lparr>bc_misses := bc_misses c + 1\<rparr>)
      | Some d \<Rightarrow> (Some d, update_access_order k (c\<lparr>bc_hits := bc_hits c + 1\<rparr>)))"

definition evict_lru :: "'k cache \<Rightarrow> 'k cache" where
  "evict_lru c =
     (case bc_order c of
        [] \<Rightarrow> c
      | k # rest \<Rightarrow>
          (case map_of (bc_blocks c) k of
             None \<Rightarrow> c\<lparr>bc_order := rest\<rparr>
           | Some d \<Rightarrow> c\<lparr>bc_blocks := AList.delete k (bc_blocks c),
                        bc_size := bc_size c - length d,
                        bc_evictions := bc_evictions c + 1,
                        bc_order := rest\<rparr>))"

partial_function (option) evict_while :: "nat \<Rightarrow> 'k cache \<Rightarrow> 'k cache option" where
  "evict_while n c =
     (if bc_max c < bc_size c + n \<and> bc_blocks c \<noteq> [] then evict_while n (evict_lru c) else Some c)"

definition bc_put :: "'k \<Rightarrow> bytes \<Rightarrow> 'k cache \<Rightarrow> 'k cache option" where
  "bc_put k d c =
     (case evict_while (length d) c of
        None \<Rightarrow> None
      | Some c \<Rightarrow> Some (c\<lparr>bc_blocks := AList.update k d (bc_blocks c),
                         bc_size := bc_size c + length d,
                         bc_order := bc_order c @ [k]\<rparr>))"

definition bc_remove :: "'k \<Rightarrow> 'k cache \<Rightarrow> bytes option \<times> 'k cache" where
  "bc_remove k c =
     (case map_of (bc_blocks c) k of
        None \<Rightarrow> (None, c)
      | Some d \<Rightarrow> (Some d, c\<lparr>bc_blocks := AList.delete k (bc_blocks c),
                            bc_size := bc_size c - length d,
                            bc_order := remove1 k (bc_order c)\<rparr>))"

definition bc_clear :: "'k cache \<Rightarrow> 'k cache" where
  "bc_clear c = c\<lparr>bc_blocks := [], bc_order := [], bc_size := 0\<rparr>"

definition bc_lookup :: "'k cache \<Rightarrow> 'k \<Rightarrow> bytes option" where
  "bc_lookup c = map_of (bc_blocks c)"

subsection \<open>Invariant\<close>

definition blocks_size :: "('k \<times> bytes) list \<Rightarrow> nat" where
  "blocks_size bs = sum_list (map (length \<circ> snd) bs)"

definition bc_inv :: "'k cache \<Rightarrow> bool" where
  "bc_inv c \<longleftrightarrow> distinct (map fst (bc_blocks c)) \<and> fst ` set (bc_blocks c) \<subseteq> set (bc_order c)
     \<and> blocks_size (bc_blocks c) \<le> bc_size c"

lemma dom_delete_alist: "fst ` set (AList.delete k bs) = fst ` set bs - {k}"
  using arg_cong [OF delete_keys [of k bs], of set] by (simp only: set_map set_removeAll)

lemma blocks_size_delete:
  "distinct (map fst bs) \<Longrightarrow> map_of bs k = Some d \<Longrightarrow>
   blocks_size bs = length d + blocks_size (AList.delete k bs)"
proof (induction bs)
  case (Cons b bs)
  obtain a e where b: "b = (a, e)" by (cases b)
  have "AList.delete a bs = bs"
    using Cons.prems b by simp
  with Cons b show ?case by (auto simp: blocks_size_def split: if_splits)
qed simp

lemma blocks_size_update:
  "blocks_size (AList.update k d bs) \<le> length d + blocks_size bs"
  by (induction bs) (auto simp: blocks_size_def)

lemma bc_inv_new [simp]: "bc_inv (bc_new mx)"
  by (simp add: bc_inv_def bc_new_def blocks_size_def)

lemma in_map_of: "k \<in> fst ` set bs \<longleftrightarrow> (\<exists>d. map_of bs k = Some d)"
  using map_of_eq_None_iff [of bs k] by (cases "map_of bs k") auto

lemma bc_inv_evict [wf_intro]: "bc_inv c \<Longrightarrow> bc_inv (evict_lru c)"
proof (cases "bc_order c")
  case (Cons k rest)
  assume inv: "bc_inv c"
  show ?thesis
  proof (cases "map_of (bc_blocks c) k")
    case None
    then have "k \<notin> fst ` set (bc_blocks c)" by (simp add: map_of_eq_None_iff)
    with inv None Cons show ?thesis by (auto simp: bc_inv_def evict_lru_def)
  next
    case (Some d)
    have "blocks_size (bc_blocks c) = length d + blocks_size (AList.delete k (bc_blocks c))"
      by (rule blocks_size_delete) (use inv Some in \<open>auto simp: bc_inv_def\<close>)
    with inv Some Cons show ?thesis
      by (auto simp: bc_inv_def evict_lru_def distinct_delete dom_delete_alist)
  qed
qed (simp add: evict_lru_def)

text \<open>The subtraction in \<open>evict_lru\<close> and \<open>remove\<close> is exact: a block is never larger than the
  size kept.\<close>

lemma block_le_size: "bc_inv c \<Longrightarrow> map_of (bc_blocks c) k = Some d \<Longrightarrow> length d \<le> bc_size c"
  using blocks_size_delete [of "bc_blocks c" k d] by (simp add: bc_inv_def)

lemma evict_order: "bc_order c \<noteq> [] \<Longrightarrow> length (bc_order (evict_lru c)) < length (bc_order c)"
  by (cases "bc_order c") (auto simp: evict_lru_def split: option.splits)

lemma bc_max_evict [simp]: "bc_max (evict_lru c) = bc_max c"
  by (auto simp: evict_lru_def split: list.splits option.splits)

lemma lookup_evict: "bc_lookup (evict_lru c) k \<in> {None, bc_lookup c k}"
  by (auto simp: evict_lru_def bc_lookup_def delete_conv split: list.splits option.splits)

lemma evict_while_ok:
  "bc_inv c \<Longrightarrow> \<exists>c'. evict_while n c = Some c' \<and> bc_inv c' \<and> bc_max c' = bc_max c
     \<and> (bc_size c' + n \<le> bc_max c \<or> bc_blocks c' = [])
     \<and> (\<forall>k. bc_lookup c' k \<in> {None, bc_lookup c k})"
proof (induction "length (bc_order c)" arbitrary: c rule: less_induct)
  case less
  show ?case
  proof (cases "bc_max c < bc_size c + n \<and> bc_blocks c \<noteq> []")
    case True
    then have "fst (hd (bc_blocks c)) \<in> set (bc_order c)"
      using less.prems hd_in_set [of "bc_blocks c"] by (auto simp: bc_inv_def)
    then have "bc_order c \<noteq> []" by auto
    from less.hyps [OF evict_order [OF this] bc_inv_evict [OF less.prems]] obtain c' where
      c': "evict_while n (evict_lru c) = Some c'" "bc_inv c'" "bc_max c' = bc_max c"
        "bc_size c' + n \<le> bc_max c \<or> bc_blocks c' = []"
        "\<forall>k. bc_lookup c' k \<in> {None, bc_lookup (evict_lru c) k}" by auto
    have "evict_while n c = Some c'"
      using c'(1) True by (simp add: evict_while.simps [of n c])
    moreover have "\<forall>k. bc_lookup c' k \<in> {None, bc_lookup c k}"
    proof
      fix k show "bc_lookup c' k \<in> {None, bc_lookup c k}"
        using c'(5) [rule_format, of k] lookup_evict [of c k] by auto
    qed
    ultimately show ?thesis using c' by blast
  next
    case False
    then have "evict_while n c = Some c" by (auto simp: evict_while.simps [of n c])
    with False less.prems show ?thesis by auto
  qed
qed

subsection \<open>What the read path relies on\<close>

text \<open>A store that may forget: after a put, the block written is found, and any other key has its
  old block or none.  A lookup changes no block.\<close>

locale block_store =
  fixes look :: "'c \<Rightarrow> 'k \<Rightarrow> bytes option"
    and fetch :: "'k \<Rightarrow> 'c \<Rightarrow> bytes option \<times> 'c"
    and put :: "'k \<Rightarrow> bytes \<Rightarrow> 'c \<Rightarrow> 'c option"
    and ok :: "'c \<Rightarrow> bool"
  assumes put_total: "ok c \<Longrightarrow> \<exists>c'. put k d c = Some c' \<and> ok c' \<and> look c' k = Some d
        \<and> (\<forall>k'. k' \<noteq> k \<longrightarrow> look c' k' \<in> {None, look c k'})"
    and fetch_look: "ok c \<Longrightarrow> fst (fetch k c) = look c k"
    and fetch_ok: "ok c \<Longrightarrow> ok (snd (fetch k c)) \<and> look (snd (fetch k c)) = look c"
begin

text \<open>Coherence with a source: every block cached is the source's.\<close>

definition coherent :: "('k \<Rightarrow> bytes option) \<Rightarrow> 'c \<Rightarrow> bool" where
  "coherent src c \<longleftrightarrow> ok c \<and> (\<forall>k d. look c k = Some d \<longrightarrow> src k = Some d)"

lemma coherent_put:
  assumes "coherent src c" and "src k = Some d" and "put k d c = Some c'"
  shows "coherent src c'"
proof -
  from assms(1) have ok: "ok c" by (simp add: coherent_def)
  from put_total [OF this, of k d] assms(3)
  have c': "ok c'" "look c' k = Some d" "\<forall>k'. k' \<noteq> k \<longrightarrow> look c' k' \<in> {None, look c k'}" by auto
  have "src k' = Some e" if "look c' k' = Some e" for k' e
  proof (cases "k' = k")
    case True with that c'(2) assms(2) show ?thesis by simp
  next
    case False
    with c'(3) that have "look c k' = Some e" by force
    with assms(1) show ?thesis by (simp add: coherent_def)
  qed
  with c'(1) show ?thesis by (simp add: coherent_def)
qed

lemma coherent_fetch:
  "coherent src c \<Longrightarrow> coherent src (snd (fetch k c))
     \<and> (\<forall>d. fst (fetch k c) = Some d \<longrightarrow> src k = Some d)"
  using fetch_ok [of c k] fetch_look [of c k] by (auto simp: coherent_def)

end

lemma bc_put_spec:
  assumes "bc_inv c"
  shows "\<exists>c'. bc_put k d c = Some c' \<and> bc_inv c' \<and> bc_lookup c' k = Some d
    \<and> (\<forall>k'. k' \<noteq> k \<longrightarrow> bc_lookup c' k' \<in> {None, bc_lookup c k'})"
proof -
  obtain e where e: "evict_while (length d) c = Some e" "bc_inv e"
    "\<forall>k. bc_lookup e k \<in> {None, bc_lookup c k}"
    using evict_while_ok [OF assms, of "length d"] by blast
  let ?c = "e\<lparr>bc_blocks := AList.update k d (bc_blocks e), bc_size := bc_size e + length d,
             bc_order := bc_order e @ [k]\<rparr>"
  have "blocks_size (AList.update k d (bc_blocks e)) \<le> length d + blocks_size (bc_blocks e)"
    by (rule blocks_size_update)
  then have "bc_inv ?c"
    using e(2) by (auto simp: bc_inv_def distinct_update dom_update)
  moreover have "bc_lookup ?c k = Some d" by (simp add: bc_lookup_def update_conv)
  moreover have "\<forall>k'. k' \<noteq> k \<longrightarrow> bc_lookup ?c k' \<in> {None, bc_lookup c k'}"
    using e(3) by (simp add: bc_lookup_def update_conv)
  ultimately show ?thesis using e(1) by (simp add: bc_put_def)
qed

lemma bc_get_spec:
  assumes "bc_inv c"
  shows "fst (bc_get k c) = bc_lookup c k" and "bc_inv (snd (bc_get k c))"
    and "bc_lookup (snd (bc_get k c)) = bc_lookup c"
proof -
  have "set (bc_order c) \<subseteq> insert k (set (remove1 k (bc_order c)))"
    by (metis in_set_remove1 insertCI subsetI)
  then show "bc_inv (snd (bc_get k c))"
    using assms unfolding bc_get_def bc_inv_def update_access_order_def
    by (auto split: option.splits dest!: subsetD [of "set (bc_order c)"])
qed (auto simp: bc_get_def bc_lookup_def update_access_order_def split: option.splits)

interpretation bc: block_store bc_lookup bc_get bc_put bc_inv
proof
  show "bc_inv c \<Longrightarrow> \<exists>c'. bc_put k d c = Some c' \<and> bc_inv c' \<and> bc_lookup c' k = Some d
    \<and> (\<forall>k'. k' \<noteq> k \<longrightarrow> bc_lookup c' k' \<in> {None, bc_lookup c k'})" for c :: "'k cache" and k d
    by (rule bc_put_spec)
qed (simp_all add: bc_get_spec)

lemma bc_inv_remove [wf_intro]: "bc_inv c \<Longrightarrow> bc_inv (snd (bc_remove k c))"
proof (cases "map_of (bc_blocks c) k")
  case (Some d)
  assume inv: "bc_inv c"
  have "blocks_size (bc_blocks c) = length d + blocks_size (AList.delete k (bc_blocks c))"
    by (rule blocks_size_delete) (use inv Some in \<open>auto simp: bc_inv_def\<close>)
  moreover have "fst ` set (AList.delete k (bc_blocks c)) \<subseteq> set (remove1 k (bc_order c))"
    using inv in_set_remove1 [of _ k "bc_order c"]
    unfolding dom_delete_alist bc_inv_def by blast
  ultimately show ?thesis
    using inv Some by (auto simp: bc_inv_def bc_remove_def distinct_delete)
qed (simp add: bc_remove_def)

lemma bc_inv_clear [wf_intro]: "bc_inv (bc_clear c)"
  by (simp add: bc_inv_def bc_clear_def blocks_size_def)

text \<open>
  C33: \<open>put\<close> always returns (its eviction loop ends on every cache the operations build), stores the
  block, leaves every other key its old block or none, and keeps the size within the capacity
  unless the cache was emptied for a block larger than what is left of it.
\<close>

theorem cache_put_terminates:
  assumes "bc_inv c"
  shows "\<exists>c'. bc_put k d c = Some c' \<and> bc_inv c' \<and> bc_lookup c' k = Some d
    \<and> (\<forall>k'. k' \<noteq> k \<longrightarrow> bc_lookup c' k' \<in> {None, bc_lookup c k'})
    \<and> (bc_size c' \<le> bc_max c' \<or> map fst (bc_blocks c') = [k])"
proof -
  obtain e where e: "evict_while (length d) c = Some e" "bc_max e = bc_max c"
    "bc_size e + length d \<le> bc_max c \<or> bc_blocks e = []"
    using evict_while_ok [OF assms, of "length d"] by blast
  from bc.put_total [OF assms, of k d] obtain c' where
    c': "bc_put k d c = Some c'" "bc_inv c'" "bc_lookup c' k = Some d"
      "\<forall>k'. k' \<noteq> k \<longrightarrow> bc_lookup c' k' \<in> {None, bc_lookup c k'}" by blast
  have "bc_size c' \<le> bc_max c' \<or> map fst (bc_blocks c') = [k]"
    using e c'(1) by (auto simp: bc_put_def)
  with c' show ?thesis by (intro exI [of _ c'] conjI)
qed

theorem cache_put_terminates_witness:
  "\<exists>c'. bc_put (2::nat) [1, 2, 3] (bc_new 4) = Some c' \<and> bc_lookup c' 2 = Some [1, 2, 3]"
  using cache_put_terminates [OF bc_inv_new, of "2::nat" "[1, 2, 3]" 4] by blast

text \<open>
  writing a block over itself counts it twice: after two puts of the same key and its removal
  the cache holds nothing and still accounts for the block, for good.
\<close>

theorem cache_double_put_leaks:
  assumes "2 * length d \<le> mx"
  shows "\<exists>c1 c2. bc_put k d (bc_new mx) = Some c1 \<and> bc_put k d c1 = Some c2
    \<and> bc_blocks (snd (bc_remove k c2)) = [] \<and> bc_size (snd (bc_remove k c2)) = length d
    \<and> bc_order (snd (bc_remove k c2)) = [k]"
proof -
  have ev: "evict_while (length d) c = Some c" if "bc_size c + length d \<le> bc_max c" for c :: "'a cache"
    using that by (simp add: evict_while.simps [of "length d" c])
  have one: "bc_put k d (bc_new mx) = Some ((bc_new mx)\<lparr>bc_blocks := [(k, d)],
      bc_size := length d, bc_order := [k]\<rparr>)"
    using ev [of "bc_new mx"] assms by (simp add: bc_put_def bc_new_def)
  have two: "bc_put k d ((bc_new mx)\<lparr>bc_blocks := [(k, d)], bc_size := length d, bc_order := [k]\<rparr>)
      = Some ((bc_new mx)\<lparr>bc_blocks := [(k, d)], bc_size := 2 * length d, bc_order := [k, k]\<rparr>)"
    using ev [of "(bc_new mx)\<lparr>bc_blocks := [(k, d)], bc_size := length d, bc_order := [k]\<rparr>"] assms
    by (simp add: bc_put_def bc_new_def)
  show ?thesis
    by (intro exI conjI, rule one, rule two) (simp_all add: bc_remove_def bc_new_def)
qed

theorem cache_double_put_leaks_witness:
  "\<exists>c1 c2. bc_put (7::nat) [1, 2] (bc_new 4) = Some c1 \<and> bc_put 7 [1, 2] c1 = Some c2
     \<and> bc_size (snd (bc_remove 7 c2)) = 2"
  using cache_double_put_leaks [of "[1, 2]" 4 "7::nat"] by auto

end
