(* ===== verification/SSTable.thy ===== *)
theory SSTable
  imports SSTable_Format Block_Cache Lsm_Utils
begin

text \<open>
  The SSTable handle of \<open>crates/f4kvs-lsm/src/storage/sstable.rs\<close>: writing a table, opening one
  (metadata scan from the end of the file, index decoded on first use), point lookups through the
  last block, the block cache and the file, scans over the index, reader pins and unlinking.

  The state of a read is the handle, the block cache if the caller passes one, and the guard that
  counts the reader.  Access times and log output are left out, and so are the sleeps between two
  attempts of a read.  \<open>fs\<close> does not change during one read.
\<close>

record sstable =
  sst_path :: path
  sst_retries :: nat
  sst_resilient :: bool
  sst_meta :: sst_meta
  sst_index :: flat_index
  sst_index_loaded :: bool
  sst_bloom :: "bloom option"
  sst_reader :: reader
  sst_readers :: nat
  sst_marked :: bool
  sst_ready :: bool
  sst_compressed :: bool
  sst_last :: "(nat \<times> bytes) option"

text \<open>The two forms of a cache key, \<open>path:blk:offset\<close> and \<open>path:offset\<close>.\<close>

datatype ckey = Block_Key path nat | Entry_Key path nat

record guard =
  gd_external :: bool
  gd_decremented :: bool

record rstate =
  rs_tab :: sstable
  rs_cache :: "ckey cache option"
  rs_guard :: guard

datatype 'n sst_result = SFound "'n val" nat | STombstone nat | SMissing

definition sst_new :: "bool \<Rightarrow> path \<Rightarrow> read_mode \<Rightarrow> nat \<Rightarrow> bool \<Rightarrow> nat \<Rightarrow> nat \<Rightarrow> sstable" where
  "sst_new linux p mode retries resilient level now = \<lparr>sst_path = p, sst_retries = retries,
     sst_resilient = resilient,
     sst_meta = \<lparr>sm_entry_count = 0, sm_file_size = 0, sm_smallest = [], sm_largest = [], sm_level = level,
                sm_checksum = 0, sm_created = now, sm_index_offset = 0, sm_index_size = 0,
                sm_bloom_offset = 0, sm_bloom_size = 0, sm_bloom_hashes = 7\<rparr>,
     sst_index = fi_empty, sst_index_loaded = False, sst_bloom = None, sst_reader = rd_new linux p mode,
     sst_readers = 0, sst_marked = False, sst_ready = False, sst_compressed = False, sst_last = None\<rparr>"

subsection \<open>Writing\<close>

text \<open>The handle after the write and the file's content, none if there was nothing to write.\<close>

definition write_entries :: "'n env \<Rightarrow> sstable \<Rightarrow> 'n entry list \<Rightarrow> (sstable \<times> bytes option) res" where
  "write_entries E t es =
     (if es = [] then Inr (t, None)
      else res_bind (write_loop E es ws_start) (\<lambda>st.
        let idx = from_sorted (ws_pairs st) in
        res_bind (snap_compress E (fi_encode idx)) (\<lambda>index_data.
          let out = ws_out st @ index_data @ u32_to_le (crc E index_data);
              bloom = fold (bf_add (key_hash E)) (map en_key es) (with_optimal_params (length es));
              bloom_data = bf_to_bytes bloom;
              out = out @ bloom_data @ u32_to_le (crc E bloom_data);
              meta = (sst_meta t)\<lparr>sm_entry_count := length es, sm_smallest := en_key (hd es),
                       sm_largest := en_key (last es), sm_file_size := ws_offset st,
                       sm_index_offset := ws_offset st, sm_index_size := length index_data,
                       sm_bloom_offset := ws_offset st + length index_data + 4,
                       sm_bloom_size := length bloom_data, sm_bloom_hashes := bf_hashes bloom,
                       sm_checksum := crc E out\<rparr> in
          case ser_meta E meta of
            None \<Rightarrow> Inl (Serialization ''Failed to serialize metadata'')
          | Some m \<Rightarrow> Inr (t\<lparr>sst_meta := meta, sst_compressed := True, sst_index := idx,
                            sst_index_loaded := True, sst_bloom := Some bloom, sst_ready := True\<rparr>,
                          Some (out @ m @ u32_to_le (crc E m))))))"

subsection \<open>Opening\<close>

definition rd_op :: "(reader \<Rightarrow> 'a res \<times> reader) \<Rightarrow> (rstate, 'a) io" where
  "rd_op f s = (case f (sst_reader (rs_tab s)) of (r, rd) \<Rightarrow>
     Some (r, s\<lparr>rs_tab := (rs_tab s)\<lparr>sst_reader := rd\<rparr>\<rparr>))"

definition tab :: "(sstable \<Rightarrow> 'a) \<Rightarrow> (rstate, 'a) io" where "tab f = io_get (\<lambda>s. f (rs_tab s))"
definition set_tab :: "(sstable \<Rightarrow> sstable) \<Rightarrow> (rstate, unit) io" where
  "set_tab f = io_mod (\<lambda>s. s\<lparr>rs_tab := f (rs_tab s)\<rparr>)"

definition rd_exact :: "'n env \<Rightarrow> fs \<Rightarrow> nat \<Rightarrow> nat \<Rightarrow> (rstate, bytes) io" where
  "rd_exact E fs off len = rd_op (\<lambda>r. read_exact_at_blocking (sys_read E) fs r off len)"

definition rd_u32 :: "'n env \<Rightarrow> fs \<Rightarrow> nat \<Rightarrow> (rstate, nat) io" where
  "rd_u32 E fs off = io_bind (rd_op (\<lambda>r. read_u32_le_at_blocking (sys_read E) fs r off)) (\<lambda>w. io_ret (unat w))"

definition rd_size :: "fs \<Rightarrow> (rstate, nat) io" where
  "rd_size fs s = Some (file_size_blocking fs (sst_reader (rs_tab s)), s)"

text \<open>The inner loop over one chunk: the last start at which the bytes up to four before the
  chunk's end parse as metadata.\<close>

fun scan_chunk :: "'n env \<Rightarrow> bytes \<Rightarrow> nat \<Rightarrow> (nat \<times> sst_meta) option" where
  "scan_chunk E chunk 0 = None"
| "scan_chunk E chunk (Suc i) =
     (case de_meta E (drop i (take (length chunk - 4) chunk)) of
        Some m \<Rightarrow> Some (i, m) | None \<Rightarrow> scan_chunk E chunk i)"

text \<open>The outer loop, backwards in chunks of 2048 bytes, each parsed on its own: the metadata, its
  offset and its size.\<close>

function scan_meta :: "'n env \<Rightarrow> bytes \<Rightarrow> nat \<Rightarrow> (sst_meta \<times> nat \<times> nat) res" where
  "scan_meta E file pos =
     (if pos = 0 then Inl (Corruption ''Failed to read metadata'')
      else let n = min pos 2048 in
        case read_exact_at (sys_read E) file (pos - n) n of
          Inl e \<Rightarrow> Inl e
        | Inr chunk \<Rightarrow> (case scan_chunk E chunk (n - 4) of
            Some (i, m) \<Rightarrow> Inr (m, pos - n + i, n - 4 - i)
          | None \<Rightarrow> scan_meta E file (pos - n)))"
  by pat_completeness auto
termination
  by (relation "measure (\<lambda>(E, file, pos). pos)") auto

declare scan_meta.simps [simp del]

definition rd_scan :: "'n env \<Rightarrow> fs \<Rightarrow> nat \<Rightarrow> (rstate, sst_meta \<times> nat \<times> nat) io" where
  "rd_scan E fs file_size = rd_op (\<lambda>r. case ensure_open_blocking fs True r of
      (Inl e, r) \<Rightarrow> (Inl e, r)
    | (Inr _, r) \<Rightarrow> (scan_meta E (case rd_sync r of None \<Rightarrow> [] | Some f \<Rightarrow> f) file_size, r))"

definition try_read_metadata :: "'n env \<Rightarrow> fs \<Rightarrow> (rstate, unit) io" where
  "try_read_metadata E fs =
     io_bind (rd_op (ensure_open_blocking fs True)) (\<lambda>_.
     io_bind (io_match (rd_exact E fs 0 4) (\<lambda>mag. io_ret (mag = SST_COMPRESSED_MAGIC)) (\<lambda>_. io_ret False)) (\<lambda>comp.
     io_bind (set_tab (\<lambda>t. t\<lparr>sst_compressed := comp\<rparr>)) (\<lambda>_.
     io_bind (rd_size fs) (\<lambda>n.
     io_bind (rd_scan E fs n) (\<lambda>(m, off, size).
     io_bind (set_tab (\<lambda>t. t\<lparr>sst_meta := m\<rparr>)) (\<lambda>_.
     io_bind (rd_u32 E fs (off + size)) (\<lambda>stored.
     io_bind (rd_exact E fs off size) (\<lambda>buf.
     if stored \<noteq> unat (crc E buf) then io_err (Corruption ''SSTable metadata checksum mismatch'')
     else set_tab (\<lambda>t. t\<lparr>sst_bloom := None\<rparr>)))))))))"

definition open_sync :: "'n env \<Rightarrow> fs \<Rightarrow> (rstate, unit) io" where
  "open_sync E fs =
     io_bind (tab sst_ready) (\<lambda>ready. if ready then io_ret () else
     io_bind (rd_op (ensure_open_blocking fs True)) (\<lambda>_.
     io_bind (try_read_metadata E fs) (\<lambda>_.
     set_tab (\<lambda>t. t\<lparr>sst_ready := True\<rparr>))))"

definition ensure_index_loaded :: "'n env \<Rightarrow> fs \<Rightarrow> (rstate, unit) io" where
  "ensure_index_loaded E fs =
     io_bind (tab sst_index_loaded) (\<lambda>loaded. if loaded then io_ret () else
     io_bind (rd_op (ensure_open_blocking fs True)) (\<lambda>_.
     io_bind (tab sst_meta) (\<lambda>m.
     if sm_index_size m = 0 then io_err (Corruption ''SSTable metadata has zero index_size'') else
     io_bind (rd_exact E fs (sm_index_offset m) (sm_index_size m)) (\<lambda>buf.
     io_bind (rd_u32 E fs (sm_index_offset m + sm_index_size m)) (\<lambda>stored.
     if stored \<noteq> unat (crc E buf) then io_err (Corruption ''SSTable index checksum mismatch'') else
     io_bind (tab sst_compressed) (\<lambda>comp.
     io_bind (io_lift (if comp then snap_decompress E buf else Inr buf)) (\<lambda>raw.
     io_bind (io_lift (fi_decode (de_index E) raw)) (\<lambda>idx.
     if fi_len idx \<noteq> sm_entry_count m then io_err (Corruption ''SSTable index size does not match entry_count'')
     else set_tab (\<lambda>t. t\<lparr>sst_index := idx, sst_index_loaded := True\<rparr>)))))))))"

definition index_guard :: "'n env \<Rightarrow> fs \<Rightarrow> (rstate, flat_index) io" where
  "index_guard E fs = io_bind (ensure_index_loaded E fs) (\<lambda>_. tab sst_index)"

subsection \<open>Seeks\<close>

definition usize_max :: nat where "usize_max = 18446744073709551615"

definition index_start :: "'n env \<Rightarrow> fs \<Rightarrow> key \<Rightarrow> (rstate, nat) io" where
  "index_start E fs prefix = io_match (index_guard E fs)
     (\<lambda>idx. io_of (fi_partition_point idx prefix)) (\<lambda>_. io_ret usize_max)"

definition index_key_at :: "'n env \<Rightarrow> fs \<Rightarrow> nat \<Rightarrow> (rstate, key option) io" where
  "index_key_at E fs pos = io_match (index_guard E fs)
     (\<lambda>idx. io_bind (io_of (fi_at idx pos)) (\<lambda>x. io_ret (map_option fst x))) (\<lambda>_. io_ret None)"

definition index_key_eq :: "'n env \<Rightarrow> fs \<Rightarrow> nat \<Rightarrow> key \<Rightarrow> (rstate, bool) io" where
  "index_key_eq E fs pos k = io_match (index_guard E fs)
     (\<lambda>idx. io_bind (io_of (fi_at idx pos)) (\<lambda>x. io_ret (map_option fst x = Some k))) (\<lambda>_. io_ret False)"

definition seek_after :: "flat_index \<Rightarrow> key \<Rightarrow> key option \<Rightarrow> nat option" where
  "seek_after idx prefix after =
     (let bound = (case after of Some a \<Rightarrow> a | None \<Rightarrow> prefix) in
      case fi_partition_point idx bound of None \<Rightarrow> None | Some i \<Rightarrow>
      if after = None then Some i
      else case fi_at idx i of None \<Rightarrow> None | Some None \<Rightarrow> Some i
           | Some (Some (k, _)) \<Rightarrow> Some (if k = bound then i + 1 else i))"

definition sst_first_key_after :: "'n env \<Rightarrow> fs \<Rightarrow> key \<Rightarrow> key option \<Rightarrow> (rstate, key option) io" where
  "sst_first_key_after E fs prefix after =
     io_bind (tab sst_ready) (\<lambda>ready. if \<not> ready then io_ret None else
     io_match (index_guard E fs) (\<lambda>idx.
       io_bind (io_of (seek_after idx prefix after)) (\<lambda>i.
       io_bind (io_of (fi_at idx i)) (\<lambda>x.
       io_ret (case x of None \<Rightarrow> None | Some (k, _) \<Rightarrow> if starts_with k prefix then Some k else None))))
     (\<lambda>_. io_ret None))"

definition key_may_exist :: "'n env \<Rightarrow> sstable \<Rightarrow> key \<Rightarrow> bool" where
  "key_may_exist E t k =
     (if \<not> sst_ready t then False
      else if k < sm_smallest (sst_meta t) \<or> sm_largest (sst_meta t) < k then False
      else case sst_bloom t of None \<Rightarrow> True | Some b \<Rightarrow> might_contain (key_hash E) b k)"

subsection \<open>Reading a block\<close>

definition ensure_file_open_sync :: "fs \<Rightarrow> (rstate, unit) io" where
  "ensure_file_open_sync fs =
     io_bind (tab (\<lambda>t. rd_is_open (sst_reader t))) (\<lambda>op. if op then io_ret () else
     io_bind (tab sst_resilient) (\<lambda>res.
     if res then rd_op (ensure_open_blocking fs True)
     else io_err (Internal ''File not open and resilient handling is disabled'')))"

definition cache_get :: "ckey \<Rightarrow> (rstate, bytes option) io" where
  "cache_get k s = (case rs_cache s of None \<Rightarrow> Some (Inr None, s)
     | Some c \<Rightarrow> (case bc_get k c of (r, c') \<Rightarrow> Some (Inr r, s\<lparr>rs_cache := Some c'\<rparr>)))"

definition cache_put :: "ckey \<Rightarrow> bytes \<Rightarrow> (rstate, unit) io" where
  "cache_put k d s = (case rs_cache s of None \<Rightarrow> Some (Inr (), s)
     | Some c \<Rightarrow> (case bc_put k d c of None \<Rightarrow> None | Some c' \<Rightarrow> Some (Inr (), s\<lparr>rs_cache := Some c'\<rparr>)))"

definition set_last :: "nat \<Rightarrow> bytes \<Rightarrow> (rstate, unit) io" where
  "set_last off d = set_tab (\<lambda>t. t\<lparr>sst_last := Some (off, d)\<rparr>)"

definition read_block_disk :: "'n env \<Rightarrow> fs \<Rightarrow> nat \<Rightarrow> (rstate, bytes) io" where
  "read_block_disk E fs off =
     io_bind (ensure_file_open_sync fs) (\<lambda>_.
     io_bind (rd_u32 E fs off) (\<lambda>unc.
     io_bind (rd_u32 E fs (off + 4)) (\<lambda>comp.
     if unc = 0 \<or> max_block < unc \<or> comp = 0 \<or> max_block < comp
     then io_err (Corruption ''invalid snappy block header'')
     else io_bind (rd_exact E fs (off + 8) comp) (\<lambda>c.
     io_bind (io_lift (snap_decompress E c)) (\<lambda>raw.
     if length raw \<noteq> unc then io_err (Corruption ''snappy block length mismatch'')
     else io_ret raw)))))"

definition read_block_cached :: "'n env \<Rightarrow> fs \<Rightarrow> path \<Rightarrow> nat \<Rightarrow> (rstate, bytes) io" where
  "read_block_cached E fs p off =
     io_bind (cache_get (Block_Key p off)) (\<lambda>hit.
     case hit of
       Some d \<Rightarrow> io_bind (set_last off d) (\<lambda>_. io_ret d)
     | None \<Rightarrow>
         io_bind (read_block_disk E fs off) (\<lambda>raw.
         io_bind (cache_put (Block_Key p off) raw) (\<lambda>_.
         io_bind (set_last off raw) (\<lambda>_. io_ret raw))))"

definition read_snappy_block_sync :: "'n env \<Rightarrow> fs \<Rightarrow> nat \<Rightarrow> (rstate, bytes) io" where
  "read_snappy_block_sync E fs off =
     io_bind (tab sst_last) (\<lambda>lst. io_bind (tab sst_path) (\<lambda>p.
     case lst of
       Some (off', d) \<Rightarrow> if off' = off then io_ret d else read_block_cached E fs p off
     | None \<Rightarrow> read_block_cached E fs p off))"

subsection \<open>Reading an entry\<close>

definition eof :: "string \<Rightarrow> lsm_error" where "eof msg = Io UnexpectedEof msg"

text \<open>The file of an older format has framed entries and no blocks.\<close>

definition try_read_entry_sync :: "'n env \<Rightarrow> fs \<Rightarrow> nat \<Rightarrow> nat \<Rightarrow> (rstate, 'n entry) io" where
  "try_read_entry_sync E fs off l =
     io_bind (ensure_file_open_sync fs) (\<lambda>_.
     io_bind (tab sst_compressed) (\<lambda>comp.
     if comp then io_bind (read_snappy_block_sync E fs off) (\<lambda>blk. io_lift (parse_framed_entry E blk l))
     else
       io_bind (rd_size fs) (\<lambda>disk. io_bind (tab sst_meta) (\<lambda>m.
       let file_size = max (sm_file_size m) disk in
       if file_size < off + 8 then io_err (eof ''entry header past EOF'') else
       io_bind (rd_u32 E fs off) (\<lambda>n.
       if n = 0 \<or> max_entry < n then io_err (Corruption ''invalid entry size'')
       else if file_size < off + 4 + n + 4 then io_err (eof ''entry body past EOF'') else
       io_bind (rd_exact E fs (off + 4) n) (\<lambda>d.
       io_bind (rd_u32 E fs (off + 4 + n)) (\<lambda>stored.
       if stored \<noteq> unat (crc E (u32_to_le (word_of_nat n) @ d))
       then io_err (Corruption ''SSTable entry checksum mismatch'')
       else io_lift (de_entry_res E d))))))))"

definition rd_exact_mode :: "'n env \<Rightarrow> fs \<Rightarrow> nat \<Rightarrow> nat \<Rightarrow> (rstate, bytes) io" where
  "rd_exact_mode E fs off len = rd_op (\<lambda>r. read_exact_at_mode (sys_read E) fs r off len)"

definition rd_u32_mode :: "'n env \<Rightarrow> fs \<Rightarrow> nat \<Rightarrow> (rstate, nat) io" where
  "rd_u32_mode E fs off = io_bind (rd_exact_mode E fs off 4) (\<lambda>b. io_ret (unat (u32_from_le b)))"

text \<open>The rest of \<open>try_read_entry\<close> after the two checks of the flags: the file does not change during
  the read, so the size read again after a checksum mismatch is the same and the error is final.\<close>

definition read_legacy_entry :: "'n env \<Rightarrow> fs \<Rightarrow> nat \<Rightarrow> (rstate, 'n entry) io" where
  "read_legacy_entry E fs off =
     io_bind (rd_op (ensure_open fs True)) (\<lambda>_.
     io_bind (rd_size fs) (\<lambda>file_size.
     io_bind (tab sst_meta) (\<lambda>m.
     if file_size < sm_file_size m then io_err (Corruption ''File size is smaller than expected minimum'')
     else if 0 < sm_index_offset m \<and> sm_index_offset m \<le> off
     then io_err (Corruption ''Read offset is in index/metadata section'')
     else if file_size \<le> off then io_err (eof ''Read offset exceeds file size'')
     else if file_size < off + 8 then io_err (eof ''Insufficient data'') else
     io_bind (rd_u32_mode E fs off) (\<lambda>n.
     if max_entry < n then io_err (Corruption ''Entry size is unreasonably large'')
     else if n = 0 then io_err (Corruption ''Entry size is zero'')
     else if file_size < off + 4 + n + 4 then io_err (eof ''Insufficient data for entry'') else
     io_bind (rd_exact_mode E fs (off + 4) n) (\<lambda>d.
     io_bind (rd_u32_mode E fs (off + 4 + n)) (\<lambda>stored.
     if stored \<noteq> unat (crc E (u32_to_le (word_of_nat n) @ d))
     then io_err (Corruption ''SSTable entry checksum mismatch'')
     else io_lift (de_entry_res E d)))))))"

definition try_read_legacy :: "'n env \<Rightarrow> fs \<Rightarrow> nat \<Rightarrow> (rstate, 'n entry) io" where
  "try_read_legacy E fs off =
     io_bind (tab (\<lambda>t. Entry_Key (sst_path t) off)) (\<lambda>ck.
     io_bind (cache_get ck) (\<lambda>hit.
     case (case hit of None \<Rightarrow> None | Some d \<Rightarrow> de_entry E d) of
       Some e \<Rightarrow> io_ret e
     | None \<Rightarrow>
         io_bind (tab sst_ready) (\<lambda>ready.
         if \<not> ready then io_err (Internal ''Cannot read entry from SSTable that is not ready'') else
         io_bind (tab sst_marked) (\<lambda>marked.
         if marked then io_err (Internal ''Cannot read from SSTable marked for deletion'') else
         io_bind (ensure_file_open_sync fs) (\<lambda>_.
         io_bind (read_legacy_entry E fs off) (\<lambda>e.
         io_bind (case ser_entry E e of None \<Rightarrow> io_ret () | Some d \<Rightarrow> cache_put ck d) (\<lambda>_.
         io_ret e)))))))"

definition try_read_entry :: "'n env \<Rightarrow> fs \<Rightarrow> nat \<Rightarrow> nat \<Rightarrow> (rstate, 'n entry) io" where
  "try_read_entry E fs off l =
     io_bind (tab sst_compressed) (\<lambda>comp.
     if comp then io_bind (read_snappy_block_sync E fs off) (\<lambda>blk. io_lift (parse_framed_entry E blk l))
     else try_read_legacy E fs off)"

text \<open>The two lookups pass no cache where the scans do.\<close>

definition without_cache :: "(rstate, 'a) io \<Rightarrow> (rstate, 'a) io" where
  "without_cache m s = (case m (s\<lparr>rs_cache := None\<rparr>) of None \<Rightarrow> None
     | Some (r, s') \<Rightarrow> Some (r, s'\<lparr>rs_cache := rs_cache s\<rparr>))"

subsection \<open>Lookups\<close>

definition entry_result :: "'n entry \<Rightarrow> 'n sst_result" where
  "entry_result e = (if en_deleted e then STombstone (en_ts e) else SFound (en_value e) (en_ts e))"

text \<open>What follows the index search, on the handle \<open>t\<close>.\<close>

definition read_hit_sync :: "'n env \<Rightarrow> fs \<Rightarrow> sstable \<Rightarrow> loc option \<Rightarrow> (rstate, 'n sst_result) io" where
  "read_hit_sync E fs t hit =
     (case hit of None \<Rightarrow> io_ret SMissing
      | Some (off, l) \<Rightarrow>
          if sm_index_offset (sst_meta t) = 0 \<or> sm_index_offset (sst_meta t) \<le> unat off then io_ret SMissing
          else if sst_compressed t \<and> max_entry < unat l then io_ret SMissing
          else if \<not> sst_compressed t \<and> (unat l = 0 \<or> max_entry < unat l) then io_ret SMissing
          else io_bind (try_read_entry_sync E fs (unat off) (unat l)) (\<lambda>e. io_ret (entry_result e)))"

definition lookup_sync :: "'n env \<Rightarrow> fs \<Rightarrow> key \<Rightarrow> (rstate, 'n sst_result) io" where
  "lookup_sync E fs k =
     io_bind (tab id) (\<lambda>t.
     if \<not> sst_ready t then io_err (Internal ''Cannot read from SSTable that is not ready'')
     else if \<not> key_may_exist E t k then io_ret SMissing
     else io_bind (index_guard E fs) (\<lambda>idx. io_bind (io_of (fi_get idx k)) (read_hit_sync E fs t)))"

definition guard_new :: "bool \<Rightarrow> guard" where
  "guard_new external = \<lparr>gd_external = external, gd_decremented = False\<rparr>"

definition guard_decrement :: "(rstate, unit) io" where
  "guard_decrement = io_mod (\<lambda>s.
     if gd_external (rs_guard s) \<or> gd_decremented (rs_guard s) then s
     else s\<lparr>rs_tab := (rs_tab s)\<lparr>sst_readers := sst_readers (rs_tab s) - 1\<rparr>,
            rs_guard := (rs_guard s)\<lparr>gd_decremented := True\<rparr>\<rparr>)"

definition is_permanent :: "lsm_error \<Rightarrow> bool" where
  "is_permanent e = (case e of Corruption _ \<Rightarrow> True | Serialization _ \<Rightarrow> True | _ \<Rightarrow> False)"

text \<open>The retry loop: at most \<open>max_attempts\<close> reads, at least one, no second one after a permanent
  error.  \<open>n\<close> is how many are left after this one.\<close>

fun read_retry :: "'n env \<Rightarrow> fs \<Rightarrow> nat \<Rightarrow> nat \<Rightarrow> nat \<Rightarrow> (rstate, 'n entry) io" where
  "read_retry E fs off l 0 = try_read_entry E fs off l"
| "read_retry E fs off l (Suc n) =
     io_match (try_read_entry E fs off l) io_ret
       (\<lambda>e. if is_permanent e then io_err e else read_retry E fs off l n)"

definition guarded_err :: "lsm_error \<Rightarrow> (rstate, 'a) io" where
  "guarded_err e = io_bind guard_decrement (\<lambda>_. io_err e)"

definition read_hit_guarded :: "'n env \<Rightarrow> fs \<Rightarrow> sstable \<Rightarrow> loc option \<Rightarrow> (rstate, 'n sst_result) io" where
  "read_hit_guarded E fs t hit =
     (case hit of None \<Rightarrow> io_bind guard_decrement (\<lambda>_. io_ret SMissing)
      | Some (off, l) \<Rightarrow>
          if sm_index_offset (sst_meta t) = 0
          then guarded_err (Internal ''SSTable metadata index_offset is 0 (uninitialized)'')
          else if sm_index_offset (sst_meta t) \<le> unat off
          then guarded_err (Corruption ''Index offset is in index/metadata section'')
          else if \<not> sst_compressed t \<and> unat l = 0
          then guarded_err (Corruption ''Index entry size is zero'')
          else if max_entry < unat l
          then guarded_err (Corruption ''Index entry size is unreasonably large'')
          else if sm_file_size (sst_meta t) < unat off
          then guarded_err (Corruption ''Index offset exceeds file size'')
          else io_bind (read_retry E fs (unat off) (unat l) (sst_retries t - 1)) (\<lambda>e.
               io_bind guard_decrement (\<lambda>_. io_ret (entry_result e))))"

definition lookup_with_reader_guard :: "'n env \<Rightarrow> fs \<Rightarrow> key \<Rightarrow> (rstate, 'n sst_result) io" where
  "lookup_with_reader_guard E fs k =
     io_bind (tab id) (\<lambda>t.
     if \<not> sst_ready t then io_err (Internal ''Cannot read from SSTable that is not ready'')
     else if \<not> key_may_exist E t k then io_ret SMissing
     else io_bind (io_match (index_guard E fs) io_ret guarded_err) (\<lambda>idx.
          io_bind (io_of (fi_get idx k)) (read_hit_guarded E fs t)))"

text \<open>\<open>lookup_pinned\<close>: the caller counts the reader.  \<open>get\<close> counts it itself, and the guard is
  dropped on every return.\<close>

definition with_guard :: "guard \<Rightarrow> (rstate, 'a) io \<Rightarrow> (rstate, 'a) io" where
  "with_guard g m s = (case m (s\<lparr>rs_guard := g\<rparr>) of None \<Rightarrow> None
     | Some (r, s') \<Rightarrow> (case guard_decrement s' of None \<Rightarrow> None | Some (_, s'') \<Rightarrow> Some (r, s''\<lparr>rs_guard := rs_guard s\<rparr>)))"

definition lookup_pinned :: "'n env \<Rightarrow> fs \<Rightarrow> key \<Rightarrow> (rstate, 'n sst_result) io" where
  "lookup_pinned E fs k = with_guard (guard_new True) (lookup_with_reader_guard E fs k)"

definition sst_get :: "'n env \<Rightarrow> fs \<Rightarrow> key \<Rightarrow> (rstate, 'n val option) io" where
  "sst_get E fs k =
     io_bind (set_tab (\<lambda>t. t\<lparr>sst_readers := sst_readers t + 1\<rparr>)) (\<lambda>_.
     with_guard (guard_new False) (io_bind (lookup_with_reader_guard E fs k) (\<lambda>r.
       io_ret (case r of SFound v _ \<Rightarrow> Some v | _ \<Rightarrow> None))))"

subsection \<open>Scans\<close>

text \<open>The loops over \<open>idx.at(i)\<close>, from a position up to the first key that fails the test.\<close>

function collect_locs :: "flat_index \<Rightarrow> (key \<Rightarrow> bool) \<Rightarrow> nat \<Rightarrow> (key \<times> loc) list option" where
  "collect_locs idx P i =
     (if i < fi_len idx then
        (case fi_at idx i of None \<Rightarrow> None | Some None \<Rightarrow> Some []
         | Some (Some p) \<Rightarrow> if P (fst p) then map_option (Cons p) (collect_locs idx P (i + 1)) else Some [])
      else Some [])"
  by pat_completeness auto
termination
  by (relation "measure (\<lambda>(idx, P, i). fi_len idx - i)") auto

declare collect_locs.simps [simp del]

definition locs_from :: "flat_index \<Rightarrow> key \<Rightarrow> (key \<Rightarrow> bool) \<Rightarrow> (key \<times> loc) list option" where
  "locs_from idx start P = (case fi_partition_point idx start of None \<Rightarrow> None | Some i \<Rightarrow> collect_locs idx P i)"

text \<open>An entry that cannot be read is dropped from a scan.\<close>

fun read_layer :: "'n env \<Rightarrow> fs \<Rightarrow> (key \<times> loc) list \<Rightarrow> (rstate, (key \<times> 'n val \<times> bool) list) io" where
  "read_layer E fs [] = io_ret []"
| "read_layer E fs ((k, off, l) # ps) =
     io_match (try_read_entry E fs (unat off) (unat l))
       (\<lambda>e. io_bind (read_layer E fs ps) (\<lambda>r. io_ret ((k, en_value e, en_deleted e) # r)))
       (\<lambda>_. read_layer E fs ps)"

definition sst_scan_prefix :: "'n env \<Rightarrow> fs \<Rightarrow> key \<Rightarrow> (rstate, key list) io" where
  "sst_scan_prefix E fs prefix =
     io_bind (index_guard E fs) (\<lambda>idx.
     io_bind (io_of (locs_from idx prefix (\<lambda>k. starts_with k prefix))) (\<lambda>ps. io_ret (map fst ps)))"

definition sst_scan_prefix_layer :: "'n env \<Rightarrow> fs \<Rightarrow> key \<Rightarrow> (rstate, (key \<times> 'n val \<times> bool) list) io" where
  "sst_scan_prefix_layer E fs prefix =
     io_bind (tab sst_ready) (\<lambda>ready. if \<not> ready then io_ret [] else
     io_bind (ensure_file_open_sync fs) (\<lambda>_.
     io_bind (index_guard E fs) (\<lambda>idx.
     io_bind (io_of (locs_from idx prefix (\<lambda>k. starts_with k prefix))) (\<lambda>ps.
     without_cache (read_layer E fs ps)))))"

definition sst_scan_range_layer :: "'n env \<Rightarrow> fs \<Rightarrow> key \<Rightarrow> key \<Rightarrow> (rstate, (key \<times> 'n val \<times> bool) list) io" where
  "sst_scan_range_layer E fs start end' =
     io_bind (tab sst_ready) (\<lambda>ready. if \<not> ready then io_ret [] else
     io_bind (ensure_file_open_sync fs) (\<lambda>_.
     io_bind (index_guard E fs) (\<lambda>idx.
     io_bind (io_of (locs_from idx start
       (\<lambda>k. case exclusive_range_end end' of None \<Rightarrow> True | Some b \<Rightarrow> k < b))) (\<lambda>ps.
     without_cache (read_layer E fs ps)))))"

definition sst_scan_range :: "'n env \<Rightarrow> fs \<Rightarrow> key \<Rightarrow> key \<Rightarrow> (rstate, key list) io" where
  "sst_scan_range E fs start end' =
     io_bind (sst_scan_range_layer E fs start end') (\<lambda>es.
     io_ret (map fst (filter (\<lambda>(_, _, deleted). \<not> deleted) es)))"

definition sst_scan_all :: "'n env \<Rightarrow> fs \<Rightarrow> (rstate, (key \<times> 'n val \<times> bool) list) io" where
  "sst_scan_all E fs =
     io_bind (index_guard E fs) (\<lambda>idx.
     io_bind (io_of (collect_locs idx (\<lambda>_. True) 0)) (\<lambda>ps.
     without_cache (read_layer E fs ps)))"

fun read_all :: "'n env \<Rightarrow> fs \<Rightarrow> (key \<times> loc) list \<Rightarrow> (rstate, 'n entry list) io" where
  "read_all E fs [] = io_ret []"
| "read_all E fs ((k, off, l) # ps) =
     io_bind (tab id) (\<lambda>t.
     if sst_marked t then io_err (Internal ''marked for deletion during get_all_entries'')
     else if sm_file_size (sst_meta t) < unat off then io_err (Internal ''Invalid offset'')
     else if (\<not> sst_compressed t \<and> unat l = 0) \<or> max_entry < unat l then io_err (Internal ''Invalid entry size'')
     else io_match (try_read_entry E fs (unat off) (unat l))
       (\<lambda>e. io_bind (read_all E fs ps) (\<lambda>r. io_ret (e # r)))
       (\<lambda>_. io_err (Internal ''Failed to read key'')))"

definition sst_get_all_entries :: "'n env \<Rightarrow> fs \<Rightarrow> (rstate, 'n entry list) io" where
  "sst_get_all_entries E fs =
     io_bind (tab id) (\<lambda>t.
     if \<not> sst_ready t then io_err (Internal ''Cannot read all entries from SSTable that is not ready'')
     else if sst_marked t then io_err (Internal ''Cannot read all entries from SSTable marked for deletion'')
     else io_bind (index_guard E fs) (\<lambda>idx.
       io_bind (io_of (collect_locs idx (\<lambda>_. True) 0)) (\<lambda>ps.
       io_bind (without_cache (read_all E fs ps)) (\<lambda>es.
       if length es \<noteq> length ps then io_err (Internal ''partial read'') else io_ret es))))"

subsection \<open>Pins and deletion\<close>

definition mark_for_deletion :: "sstable \<Rightarrow> sstable" where "mark_for_deletion t = t\<lparr>sst_marked := True\<rparr>"
definition pin_reader :: "sstable \<Rightarrow> sstable" where "pin_reader t = t\<lparr>sst_readers := sst_readers t + 1\<rparr>"
definition unpin_reader :: "sstable \<Rightarrow> sstable" where "unpin_reader t = t\<lparr>sst_readers := sst_readers t - 1\<rparr>"
definition can_delete :: "sstable \<Rightarrow> bool" where "can_delete t \<longleftrightarrow> sst_readers t = 0"

definition unlink_from_disk :: "sstable \<Rightarrow> fs \<Rightarrow> unit res \<times> sstable \<times> fs" where
  "unlink_from_disk t fs =
     (if \<not> sst_marked t then (Inr (), t, fs)
      else if \<not> can_delete t then (Inl (Internal ''SSTable still has readers''), t, fs)
      else (Inr (), t\<lparr>sst_reader := rd_close (sst_reader t)\<rparr>, fs(sst_path t := None)))"

end
