(* ===== verification/SSTable_Correct.thy ===== *)
theory SSTable_Correct
  imports SSTable
begin

text \<open>
  What the table serves: a file written by \<open>write_entries\<close> answers every lookup and scan as the
  list of entries does, from the handle that wrote it and from one opened later, with any mix of
  cached and uncached blocks.  The proofs follow the computations of \<open>SSTable\<close> with the triple
  \<open>runs I m r\<close>: from a state satisfying \<open>I\<close>, \<open>m\<close> returns \<open>r\<close> in such a state.
\<close>

subsection \<open>Triples\<close>

definition runs :: "('s \<Rightarrow> bool) \<Rightarrow> ('s, 'a) io \<Rightarrow> 'a res \<Rightarrow> bool" where
  "runs I m r \<longleftrightarrow> (\<forall>s. I s \<longrightarrow> (\<exists>s'. m s = Some (r, s') \<and> I s'))"

named_theorems runs_intro \<open>triples of the read path\<close>

lemma runs_ret [runs_intro]: "runs I (io_ret x) (Inr x)"
  by (simp add: runs_def io_ret_def)

lemma runs_err [runs_intro]: "runs I (io_err e) (Inl e)"
  by (simp add: runs_def io_err_def)

lemma runs_lift [runs_intro]: "runs I (io_lift r) r"
  by (simp add: runs_def io_lift_def)

lemma runs_of [runs_intro]: "x = Some y \<Longrightarrow> runs I (io_of x) (Inr y)"
  by (simp add: runs_def io_of_def)

lemma runs_bind: "runs I m (Inr x) \<Longrightarrow> runs I (f x) r \<Longrightarrow> runs I (io_bind m f) r"
  by (fastforce simp: runs_def io_bind_def)

lemma runs_bind_err: "runs I m (Inl e) \<Longrightarrow> runs I (io_bind m f) (Inl e)"
  by (fastforce simp: runs_def io_bind_def)

lemma runs_match: "runs I m (Inr x) \<Longrightarrow> runs I (f x) r \<Longrightarrow> runs I (io_match m f h) r"
  by (fastforce simp: runs_def io_match_def)

lemma runs_match_err: "runs I m (Inl e) \<Longrightarrow> runs I (h e) r \<Longrightarrow> runs I (io_match m f h) r"
  by (fastforce simp: runs_def io_match_def)

lemma runs_tab: "(\<And>s. I s \<Longrightarrow> runs I (f (g (rs_tab s))) r) \<Longrightarrow> runs I (io_bind (tab g) f) r"
  by (fastforce simp: runs_def io_bind_def tab_def io_get_def)

lemma runs_tab_const: "(\<And>s. I s \<Longrightarrow> g (rs_tab s) = x) \<Longrightarrow> runs I (tab g) (Inr x)"
  by (fastforce simp: runs_def tab_def io_get_def)

lemma runs_set_tab: "(\<And>s. I s \<Longrightarrow> I (s\<lparr>rs_tab := f (rs_tab s)\<rparr>)) \<Longrightarrow> runs I (set_tab f) (Inr ())"
  by (simp add: runs_def set_tab_def io_mod_def)

lemma runs_without_cache:
  assumes "runs I m r" and "\<And>s c. I s \<Longrightarrow> I (s\<lparr>rs_cache := None\<rparr>)"
    and "\<And>s s'. I s \<Longrightarrow> I s' \<Longrightarrow> I (s'\<lparr>rs_cache := rs_cache s\<rparr>)"
  shows "runs I (without_cache m) r"
  unfolding runs_def
proof (intro allI impI)
  fix s assume I: "I s"
  then have "I (s\<lparr>rs_cache := None\<rparr>)" by (rule assms(2))
  with assms(1) obtain s' where "m (s\<lparr>rs_cache := None\<rparr>) = Some (r, s')" "I s'"
    unfolding runs_def by blast
  with assms(3) [OF I] show "\<exists>s'. without_cache m s = Some (r, s') \<and> I s'"
    by (auto simp: without_cache_def)
qed

lemma runs_guard_decrement:
  assumes "\<And>s n. I s \<Longrightarrow> I (s\<lparr>rs_tab := (rs_tab s)\<lparr>sst_readers := n\<rparr>\<rparr>)"
    and "\<And>s g. I s \<Longrightarrow> I (s\<lparr>rs_guard := g\<rparr>)"
  shows "runs I guard_decrement (Inr ())"
  unfolding runs_def guard_decrement_def io_mod_def
proof (intro allI impI)
  fix s assume I: "I s"
  let ?s = "s\<lparr>rs_tab := (rs_tab s)\<lparr>sst_readers := sst_readers (rs_tab s) - 1\<rparr>\<rparr>"
  have "I (?s\<lparr>rs_guard := (rs_guard s)\<lparr>gd_decremented := True\<rparr>\<rparr>)"
    by (intro assms I)
  with I show "\<exists>s'. Some (Inr (), if gd_external (rs_guard s) \<or> gd_decremented (rs_guard s) then s
      else s\<lparr>rs_tab := (rs_tab s)\<lparr>sst_readers := sst_readers (rs_tab s) - 1\<rparr>,
             rs_guard := (rs_guard s)\<lparr>gd_decremented := True\<rparr>\<rparr>) = Some (Inr (), s') \<and> I s'"
    by auto
qed

lemma runs_with_guard:
  assumes "runs I m r"
    and "\<And>s n. I s \<Longrightarrow> I (s\<lparr>rs_tab := (rs_tab s)\<lparr>sst_readers := n\<rparr>\<rparr>)"
    and "\<And>s g. I s \<Longrightarrow> I (s\<lparr>rs_guard := g\<rparr>)"
  shows "runs I (with_guard g m) r"
  unfolding runs_def
proof (intro allI impI)
  fix s assume I: "I s"
  then have "I (s\<lparr>rs_guard := g\<rparr>)" by (rule assms(3))
  with assms(1) obtain s1 where s1: "m (s\<lparr>rs_guard := g\<rparr>) = Some (r, s1)" "I s1"
    unfolding runs_def by blast
  have "runs I guard_decrement (Inr ())" by (rule runs_guard_decrement) (erule assms)+
  with s1(2) obtain s2 where "guard_decrement s1 = Some (Inr (), s2)" "I s2"
    unfolding runs_def by blast
  with s1(1) assms(3) show "\<exists>s'. with_guard g m s = Some (r, s') \<and> I s'"
    by (auto simp: with_guard_def)
qed

subsection \<open>The invariant of a handle on a written file\<close>

text \<open>What a block read at \<open>off\<close> decompresses to; the blocks cached for a table are these.\<close>

definition raw_block :: "'n env \<Rightarrow> bytes \<Rightarrow> nat \<Rightarrow> bytes option" where
  "raw_block E file off =
     decompress E (take (unat (u32_from_le (take 4 (drop (off + 4) file)))) (drop (off + 8) file))"

record 'n view =
  vw_file :: bytes
  vw_path :: path
  vw_meta :: sst_meta
  vw_index :: flat_index
  vw_bloom :: bloom
  vw_src :: "ckey \<Rightarrow> bytes option"
  vw_marked :: bool

definition serves :: "'n env \<Rightarrow> fs \<Rightarrow> 'n view \<Rightarrow> rstate \<Rightarrow> bool" where
  "serves E fs v s \<longleftrightarrow> (let t = rs_tab s in
     sst_path t = vw_path v \<and> sst_meta t = vw_meta v \<and> sst_ready t \<and> sst_compressed t \<and> sst_resilient t
     \<and> sst_marked t = vw_marked v \<and> sst_bloom t \<in> {None, Some (vw_bloom v)}
     \<and> (sst_index_loaded t \<longrightarrow> sst_index t = vw_index v)
     \<and> reads fs (vw_file v) (sst_reader t) \<and> rd_path (sst_reader t) = vw_path v
     \<and> (\<forall>off d. sst_last t = Some (off, d) \<longrightarrow> raw_block E (vw_file v) off = Some d)
     \<and> (\<forall>c. rs_cache s = Some c \<longrightarrow> bc.coherent (vw_src v) c))"

definition src_ok :: "'n env \<Rightarrow> 'n view \<Rightarrow> bool" where
  "src_ok E v \<longleftrightarrow> (\<forall>off. vw_src v (Block_Key (vw_path v) off) = raw_block E (vw_file v) off)"

lemma runs_rd_op:
  assumes "\<And>r. reads fs (vw_file v) r \<Longrightarrow> f r = (x, r\<lparr>rd_sync := Some (vw_file v)\<rparr>)"
  shows "runs (serves E fs v) (rd_op f) x"
  unfolding runs_def
proof (intro allI impI)
  fix s assume s: "serves E fs v s"
  then have "f (sst_reader (rs_tab s)) = (x, (sst_reader (rs_tab s))\<lparr>rd_sync := Some (vw_file v)\<rparr>)"
    by (intro assms) (simp add: serves_def Let_def)
  with s show "\<exists>s'. rd_op f s = Some (x, s') \<and> serves E fs v s'"
    by (simp add: rd_op_def serves_def Let_def)
qed

lemma runs_open [runs_intro]: "runs (serves E fs v) (rd_op (ensure_open_blocking fs True)) (Inr ())"
  by (rule runs_rd_op) simp

lemma runs_rd_exact: "runs (serves E fs v) (rd_exact E fs off n) (read_exact_at (sys_read E) (vw_file v) off n)"
  unfolding rd_exact_def by (rule runs_rd_op) (simp add: read_blocking)

lemma runs_rd_u32:
  assumes "read_u32_le_at (sys_read E) (vw_file v) off = Inr w"
  shows "runs (serves E fs v) (rd_u32 E fs off) (Inr (unat w))"
  unfolding rd_u32_def
proof (rule runs_bind)
  show "runs (serves E fs v) (rd_op (\<lambda>r. read_u32_le_at_blocking (sys_read E) fs r off)) (Inr w)"
    by (rule runs_rd_op) (simp add: read_u32_blocking assms)
qed (rule runs_ret)

lemma runs_ensure_open: "runs (serves E fs v) (ensure_file_open_sync fs) (Inr ())"
  unfolding ensure_file_open_sync_def
proof (rule runs_tab)
  fix s
  show "runs (serves E fs v) (if rd_is_open (sst_reader (rs_tab s)) then io_ret ()
      else io_bind (tab sst_resilient) (\<lambda>res. if res then rd_op (ensure_open_blocking fs True)
        else io_err (Internal ''File not open and resilient handling is disabled''))) (Inr ())"
  proof (cases "rd_is_open (sst_reader (rs_tab s))")
    case False
    have "runs (serves E fs v) (tab sst_resilient) (Inr True)"
      by (rule runs_tab_const) (simp add: serves_def Let_def)
    then have "runs (serves E fs v) (io_bind (tab sst_resilient) (\<lambda>res.
        if res then rd_op (ensure_open_blocking fs True)
        else io_err (Internal ''File not open and resilient handling is disabled''))) (Inr ())"
      by (rule runs_bind) (simp add: runs_open)
    then show ?thesis using False by simp
  qed (simp add: runs_ret)
qed

subsection \<open>Blocks\<close>

lemma block_at_raw:
  assumes "env_ok E" and "block_at E file off blk"
  shows "raw_block E file off = Some blk"
proof -
  obtain pre c post where b: "compress E blk = Some c" "length pre = off"
      "length blk < SST_BLOCK_TARGET + max_entry + 8"
      "file = pre @ u32_to_le (word_of_nat (length blk)) @ u32_to_le (word_of_nat (length c)) @ c @ post"
    using assms(2) by (auto simp: block_at_def)
  have "length c < 4294967296"
    using block_compressed_small [OF assms(1) b(1,3)] by (simp add: max_block_def)
  then have "unat (word_of_nat (length c) :: u32) = length c" by (rule unat_u32_of_nat)
  then have "raw_block E file off = decompress E c"
    using b(2) by (simp add: raw_block_def b(4))
  then show ?thesis using compress_back [OF assms(1) b(1)] by simp
qed

lemma runs_block_disk:
  assumes env: "env_ok E" and blk: "block_at E (vw_file v) off blk"
  shows "runs (serves E fs v) (read_block_disk E fs off) (Inr blk)"
proof -
  obtain pre c post where b: "compress E blk = Some c" "length pre = off" "blk \<noteq> []"
      "length blk < SST_BLOCK_TARGET + max_entry + 8"
      "vw_file v = pre @ u32_to_le (word_of_nat (length blk)) @ u32_to_le (word_of_nat (length c)) @ c @ post"
    using blk by (auto simp: block_at_def)
  note size = compress_size [OF env b(1)]
  have cl: "length c \<le> max_block" by (rule block_compressed_small [OF env b(1,4)])
  have bl: "length blk \<le> max_block"
    using b(4) by (simp add: SST_BLOCK_TARGET_def max_entry_def max_block_def)
  have u: "unat (word_of_nat (length blk) :: u32) = length blk" "unat (word_of_nat (length c) :: u32) = length c"
    using bl cl by (simp_all add: max_block_def unat_u32_of_nat)
  have r1: "read_u32_le_at (sys_read E) (vw_file v) off = Inr (word_of_nat (length blk))"
    unfolding b(5) by (rule read_u32_mid) (simp_all add: env b(2))
  have r2: "read_u32_le_at (sys_read E) (vw_file v) (off + 4) = Inr (word_of_nat (length c))"
    using read_u32_mid [of "sys_read E" "off + 4" "pre @ u32_to_le (word_of_nat (length blk))"] env b(2)
    by (simp add: b(5))
  have r3: "read_exact_at (sys_read E) (vw_file v) (off + 8) (length c) = Inr c"
    using read_exact_mid [of "sys_read E" "off + 8"
        "pre @ u32_to_le (word_of_nat (length blk)) @ u32_to_le (word_of_nat (length c))" _ c] env b(2)
    by (simp add: b(5))
  have raw: "snap_decompress E c = Inr blk"
    using compress_back [OF env b(1)] by (simp add: snap_decompress_def)
  have ne: "length blk \<noteq> 0" "length c \<noteq> 0" using b(3) size by auto
  have e1: "runs (serves E fs v) (rd_u32 E fs off) (Inr (length blk))"
    using runs_rd_u32 [OF r1] u by simp
  have e2: "runs (serves E fs v) (rd_u32 E fs (off + 4)) (Inr (length c))"
    using runs_rd_u32 [OF r2] u by simp
  have e3: "runs (serves E fs v) (rd_exact E fs (off + 8) (length c)) (Inr c)"
    using runs_rd_exact [of E fs v "off + 8" "length c"] r3 by simp
  have e4: "runs (serves E fs v) (io_lift (snap_decompress E c)) (Inr blk)"
    by (simp add: raw runs_lift)
  show ?thesis
    unfolding read_block_disk_def
    apply (rule runs_bind [OF runs_ensure_open])
    apply (rule runs_bind [OF e1])
    apply (rule runs_bind [OF e2])
    using ne bl cl
    apply (simp add: not_less [symmetric])
    apply (rule runs_bind [OF e3])
    apply (rule runs_bind [OF e4])
    apply (simp add: runs_ret)
    done
qed

lemma runs_set_last:
  "raw_block E (vw_file v) off = Some d \<Longrightarrow> runs (serves E fs v) (set_last off d) (Inr ())"
  unfolding set_last_def by (rule runs_set_tab) (auto simp: serves_def Let_def)

lemma runs_cache_put:
  assumes "vw_src v k = Some d"
  shows "runs (serves E fs v) (cache_put k d) (Inr ())"
  unfolding runs_def
proof (intro allI impI)
  fix s assume s: "serves E fs v s"
  show "\<exists>s'. cache_put k d s = Some (Inr (), s') \<and> serves E fs v s'"
  proof (cases "rs_cache s")
    case (Some c)
    then have co: "bc.coherent (vw_src v) c" using s by (simp add: serves_def Let_def)
    then have "bc_inv c" by (simp add: bc.coherent_def)
    from bc.put_total [OF this, of k d] obtain c' where put: "bc_put k d c = Some c'" by blast
    with bc.coherent_put [OF co assms] have "bc.coherent (vw_src v) c'" by blast
    with s Some put show ?thesis by (simp add: cache_put_def serves_def Let_def)
  qed (use s in \<open>simp add: cache_put_def\<close>)
qed

lemma runs_block:
  assumes env: "env_ok E" and src: "src_ok E v" and blk: "block_at E (vw_file v) off blk"
  shows "runs (serves E fs v) (read_snappy_block_sync E fs off) (Inr blk)"
proof -
  let ?I = "serves E fs v"
  have raw: "raw_block E (vw_file v) off = Some blk" by (rule block_at_raw [OF env blk])
  have key: "vw_src v (Block_Key (vw_path v) off) = Some blk" using src raw by (simp add: src_ok_def)
  have miss: "runs ?I (io_bind (read_block_disk E fs off) (\<lambda>raw. io_bind (cache_put (Block_Key (vw_path v) off) raw)
      (\<lambda>_. io_bind (set_last off raw) (\<lambda>_. io_ret raw)))) (Inr blk)"
    by (rule runs_bind [OF runs_block_disk [OF env blk]], rule runs_bind [OF runs_cache_put [OF key]],
        rule runs_bind [OF runs_set_last [OF raw]]) (rule runs_ret)
  have hit: "runs ?I (io_bind (set_last off blk) (\<lambda>_. io_ret blk)) (Inr blk)"
    by (rule runs_bind [OF runs_set_last [OF raw]]) (rule runs_ret)
  have cached: "runs ?I (read_block_cached E fs (vw_path v) off) (Inr blk)"
    unfolding runs_def
  proof (intro allI impI)
    fix s assume s: "?I s"
    show "\<exists>s'. read_block_cached E fs (vw_path v) off s = Some (Inr blk, s') \<and> ?I s'"
    proof (cases "rs_cache s")
      case None
      with s miss show ?thesis
        by (simp add: read_block_cached_def io_bind_def [of "cache_get _"] cache_get_def runs_def)
    next
      case (Some c)
      obtain r c' where g: "bc_get (Block_Key (vw_path v) off) c = (r, c')" by fastforce
      have co: "bc.coherent (vw_src v) c" using s Some by (simp add: serves_def Let_def)
      from bc.coherent_fetch [OF co, of "Block_Key (vw_path v) off"] g
      have c': "bc.coherent (vw_src v) c'" "r = None \<or> r = Some blk" using key by (cases r; auto)+
      let ?s = "s\<lparr>rs_cache := Some c'\<rparr>"
      have s': "?I ?s" using s c'(1) by (simp add: serves_def Let_def)
      have "read_block_cached E fs (vw_path v) off s = (case r of
          Some d \<Rightarrow> io_bind (set_last off d) (\<lambda>_. io_ret d)
        | None \<Rightarrow> io_bind (read_block_disk E fs off) (\<lambda>raw. io_bind (cache_put (Block_Key (vw_path v) off) raw)
           (\<lambda>_. io_bind (set_last off raw) (\<lambda>_. io_ret raw)))) ?s"
        using Some g by (simp add: read_block_cached_def io_bind_def [of "cache_get _"] cache_get_def)
      with s' c'(2) hit miss show ?thesis unfolding runs_def by (cases r) auto
    qed
  qed
  have path: "runs ?I (tab sst_path) (Inr (vw_path v))"
    by (rule runs_tab_const) (simp add: serves_def Let_def)
  show ?thesis
    unfolding read_snappy_block_sync_def
  proof (rule runs_tab, rule runs_bind [OF path])
    fix s assume s: "?I s"
    show "runs ?I (case sst_last (rs_tab s) of None \<Rightarrow> read_block_cached E fs (vw_path v) off
       | Some (off', d) \<Rightarrow> if off' = off then io_ret d else read_block_cached E fs (vw_path v) off) (Inr blk)"
    proof (cases "sst_last (rs_tab s)")
      case (Some p)
      obtain off' d where p: "p = (off', d)" by (cases p)
      have "off' = off \<longrightarrow> d = blk" using s Some p raw by (auto simp: serves_def Let_def)
      then show ?thesis using Some p cached by (simp add: runs_ret)
    qed (simp add: cached)
  qed
qed

subsection \<open>The index\<close>

definition index_on_disk :: "'n env \<Rightarrow> 'n view \<Rightarrow> bool" where
  "index_on_disk E v \<longleftrightarrow> (\<exists>pre d post raw. vw_file v = pre @ d @ u32_to_le (crc E d) @ post
     \<and> length pre = sm_index_offset (vw_meta v) \<and> length d = sm_index_size (vw_meta v) \<and> d \<noteq> []
     \<and> decompress E d = Some raw \<and> fi_decode (de_index E) raw = Inr (vw_index v)
     \<and> fi_len (vw_index v) = sm_entry_count (vw_meta v))"

lemma runs_index:
  assumes env: "env_ok E" and disk: "index_on_disk E v"
  shows "runs (serves E fs v) (index_guard E fs) (Inr (vw_index v))"
proof -
  let ?I = "serves E fs v" and ?m = "vw_meta v"
  obtain pre d post raw where f: "vw_file v = pre @ d @ u32_to_le (crc E d) @ post"
      "length pre = sm_index_offset ?m" "length d = sm_index_size ?m" "d \<noteq> []"
      "decompress E d = Some raw" "fi_decode (de_index E) raw = Inr (vw_index v)"
      "fi_len (vw_index v) = sm_entry_count ?m"
    using disk by (auto simp: index_on_disk_def)
  have sz: "sm_index_size ?m \<noteq> 0" using f(3,4) by (cases d) auto
  have "read_exact_at (sys_read E) (vw_file v) (sm_index_offset ?m) (sm_index_size ?m) = Inr d"
    unfolding f(1) by (rule read_exact_mid) (simp_all add: env f(2,3))
  then have e1: "runs ?I (rd_exact E fs (sm_index_offset ?m) (sm_index_size ?m)) (Inr d)"
    using runs_rd_exact [of E fs v "sm_index_offset ?m" "sm_index_size ?m"] by simp
  have "read_u32_le_at (sys_read E) (vw_file v) (sm_index_offset ?m + sm_index_size ?m) = Inr (crc E d)"
    using read_u32_mid [of "sys_read E" "sm_index_offset ?m + sm_index_size ?m" "pre @ d"] env f(2,3)
    by (simp add: f(1))
  from runs_rd_u32 [OF this]
  have e2: "runs ?I (rd_u32 E fs (sm_index_offset ?m + sm_index_size ?m)) (Inr (unat (crc E d)))" .
  have m: "runs ?I (tab sst_meta) (Inr ?m)" and co: "runs ?I (tab sst_compressed) (Inr True)"
    by (rule runs_tab_const; simp add: serves_def Let_def)+
  have e3: "runs ?I (io_lift (snap_decompress E d)) (Inr raw)"
    by (simp add: snap_decompress_def f(5) runs_lift)
  have e4: "runs ?I (io_lift (fi_decode (de_index E) raw)) (Inr (vw_index v))"
    by (simp add: f(6) runs_lift)
  have e5: "runs ?I (set_tab (\<lambda>t. t\<lparr>sst_index := vw_index v, sst_index_loaded := True\<rparr>)) (Inr ())"
    by (rule runs_set_tab) (auto simp: serves_def Let_def)
  have loading: "runs ?I (ensure_index_loaded E fs) (Inr ())"
    unfolding ensure_index_loaded_def
  proof (rule runs_tab)
    fix s
    show "runs ?I (if sst_index_loaded (rs_tab s) then io_ret () else
     io_bind (rd_op (ensure_open_blocking fs True)) (\<lambda>_. io_bind (tab sst_meta) (\<lambda>m.
     if sm_index_size m = 0 then io_err (Corruption ''SSTable metadata has zero index_size'') else
     io_bind (rd_exact E fs (sm_index_offset m) (sm_index_size m)) (\<lambda>buf.
     io_bind (rd_u32 E fs (sm_index_offset m + sm_index_size m)) (\<lambda>stored.
     if stored \<noteq> unat (crc E buf) then io_err (Corruption ''SSTable index checksum mismatch'') else
     io_bind (tab sst_compressed) (\<lambda>comp.
     io_bind (io_lift (if comp then snap_decompress E buf else Inr buf)) (\<lambda>raw.
     io_bind (io_lift (fi_decode (de_index E) raw)) (\<lambda>idx.
     if fi_len idx \<noteq> sm_entry_count m then io_err (Corruption ''SSTable index size does not match entry_count'')
     else set_tab (\<lambda>t. t\<lparr>sst_index := idx, sst_index_loaded := True\<rparr>))))))))) (Inr ())"
      apply (cases "sst_index_loaded (rs_tab s)")
       apply (simp add: runs_ret)
      apply simp
      apply (rule runs_bind [OF runs_open])
      apply (rule runs_bind [OF m])
      using sz apply simp
      apply (rule runs_bind [OF e1])
      apply (rule runs_bind [OF e2])
      apply simp
      apply (rule runs_bind [OF co])
      apply simp
      apply (rule runs_bind [OF e3])
      apply (rule runs_bind [OF e4])
      apply (simp add: f(7) e5)
      done
  qed
  show ?thesis
    unfolding runs_def
  proof (intro allI impI)
    fix s assume s: "?I s"
    with loading obtain s1 where s1: "ensure_index_loaded E fs s = Some (Inr (), s1)" "?I s1"
      unfolding runs_def by blast
    have "sst_index_loaded (rs_tab s1)"
      using s1(1) unfolding ensure_index_loaded_def
      by (auto simp: io_bind_def tab_def io_get_def set_tab_def io_mod_def io_ret_def io_err_def
          split: option.splits sum.splits if_splits)
    with s1 show "\<exists>s'. index_guard E fs s = Some (Inr (vw_index v), s') \<and> ?I s'"
      by (auto simp: index_guard_def io_bind_def tab_def io_get_def serves_def Let_def)
  qed
qed

subsection \<open>A view of a written table\<close>

definition ent_map :: "'n entry list \<Rightarrow> key \<Rightarrow> 'n entry option" where
  "ent_map es = map_of (map (\<lambda>e. (en_key e, e)) es)"

definition sorted_entries :: "'n entry list \<Rightarrow> bool" where
  "sorted_entries es \<longleftrightarrow> sorted_wrt (<) (map en_key es)"

text \<open>What a lookup answers: the entry of the key, read back.\<close>

definition table_answer :: "'n env \<Rightarrow> 'n entry list \<Rightarrow> key \<Rightarrow> 'n sst_result res" where
  "table_answer E es k = (case ent_map es k of None \<Rightarrow> Inr SMissing
     | Some e \<Rightarrow> map_sum id entry_result (read_back E e))"

definition view_of :: "'n env \<Rightarrow> 'n entry list \<Rightarrow> 'n view \<Rightarrow> bool" where
  "view_of E es v \<longleftrightarrow> sorted_entries es \<and> es \<noteq> [] \<and> index_on_disk E v \<and> src_ok E v
     \<and> fi_ok (vw_index v) \<and> list_all2 (located E (vw_file v)) es (fi_entries (vw_index v))
     \<and> (\<forall>p \<in> set (fi_entries (vw_index v)). unat (fst (snd p)) < sm_index_offset (vw_meta v))
     \<and> sm_index_offset (vw_meta v) = sm_file_size (vw_meta v)
     \<and> length (vw_file v) < 18446744073709551616
     \<and> sm_smallest (vw_meta v) = en_key (hd es) \<and> sm_largest (vw_meta v) = en_key (last es)
     \<and> (\<forall>e \<in> set es. might_contain (key_hash E) (vw_bloom v) (en_key e))"

lemma located_lookup:
  "list_all2 (located E out) es ps \<Longrightarrow>
   (map_of ps k = None \<and> ent_map es k = None) \<or>
   (\<exists>l e. map_of ps k = Some l \<and> ent_map es k = Some e \<and> located E out e (k, l) \<and> e \<in> set es)"
proof (induction es ps rule: list_all2_induct)
  case (Cons e es p ps)
  then show ?case by (cases p) (auto simp: ent_map_def located_def)
qed (simp add: ent_map_def)

lemma located_read:
  assumes env: "env_ok E" and src: "src_ok E v" and l: "located E (vw_file v) e (k, off, l)"
    and small: "length (vw_file v) < 18446744073709551616"
  shows "runs (serves E fs v) (try_read_entry E fs (unat off) (unat l)) (read_back E e)"
    and "runs (serves E fs v) (try_read_entry_sync E fs (unat off) (unat l)) (read_back E e)"
    and "unat l \<le> max_entry" and "k = en_key e"
proof -
  obtain blk o' where b: "block_at E (vw_file v) o' blk" "off = word_of_nat o'"
      "unat l < SST_BLOCK_TARGET" "framed_at E blk (unat l) e" "k = en_key e"
    using l by (auto simp: located_def)
  from b(1) have "o' \<le> length (vw_file v)" by (auto simp: block_at_def)
  then have off: "unat off = o'" using b(2) small by (simp add: unat_u64_of_nat)
  have blk: "runs (serves E fs v) (read_snappy_block_sync E fs (unat off)) (Inr blk)"
    using runs_block [OF env src b(1)] off by simp
  have entry: "runs (serves E fs v) (io_bind (read_snappy_block_sync E fs (unat off))
      (\<lambda>blk. io_lift (parse_framed_entry E blk (unat l)))) (read_back E e)"
    by (rule runs_bind [OF blk]) (simp add: framed_at_parse [OF b(4)] runs_lift)
  have co: "runs (serves E fs v) (tab sst_compressed) (Inr True)"
    by (rule runs_tab_const) (simp add: serves_def Let_def)
  show "runs (serves E fs v) (try_read_entry E fs (unat off) (unat l)) (read_back E e)"
    unfolding try_read_entry_def by (rule runs_bind [OF co]) (simp add: entry)
  show "runs (serves E fs v) (try_read_entry_sync E fs (unat off) (unat l)) (read_back E e)"
    unfolding try_read_entry_sync_def
    by (rule runs_bind [OF runs_ensure_open], rule runs_bind [OF co]) (simp add: entry)
  show "unat l \<le> max_entry" "k = en_key e" using b(3,5) by (simp_all add: SST_BLOCK_TARGET_def max_entry_def)
qed

lemma sorted_entries_range:
  assumes "sorted_entries es" and "e \<in> set es"
  shows "en_key (hd es) \<le> en_key e \<and> en_key e \<le> en_key (last es)"
proof -
  have s: "sorted (map en_key es)" using assms(1) by (simp add: sorted_entries_def strict_sorted_iff)
  obtain i where i: "i < length es" "e = es ! i" using assms(2) by (auto simp: in_set_conv_nth)
  then have "es \<noteq> []" by auto
  moreover have "map en_key es ! 0 \<le> map en_key es ! i"
    by (rule sorted_nth_mono [OF s]) (use i in auto)
  moreover have "map en_key es ! i \<le> map en_key es ! (length es - 1)"
    by (rule sorted_nth_mono [OF s]) (use i in auto)
  ultimately show ?thesis using i by (simp add: hd_conv_nth last_conv_nth)
qed

lemma may_exist:
  assumes v: "view_of E es v" and s: "serves E fs v s" and e: "ent_map es k = Some e"
  shows "key_may_exist E (rs_tab s) k"
proof -
  have e': "e \<in> set es" "en_key e = k"
    using map_of_SomeD [OF e [unfolded ent_map_def]] by auto
  have "en_key (hd es) \<le> k \<and> k \<le> en_key (last es)"
    using sorted_entries_range [of es e] v e' by (auto simp: view_of_def)
  moreover have "might_contain (key_hash E) (vw_bloom v) k" using v e' by (auto simp: view_of_def)
  ultimately show ?thesis
    using v s by (auto simp: key_may_exist_def serves_def Let_def view_of_def)
qed

lemma view_get:
  "view_of E es v \<Longrightarrow> fi_get (vw_index v) k = Some (map_of (fi_entries (vw_index v)) k)"
  using fi.get_map [of "vw_index v" k] by (simp add: view_of_def bt_get_map_of)

subsection \<open>Lookups\<close>

text \<open>The search and the read, for both forms of the lookup: \<open>hit\<close> is what they do with the index
  entry found.\<close>

lemma runs_hit:
  assumes env: "env_ok E" and v: "view_of E es v"
    and guard: "runs (serves E fs v) g (Inr (vw_index v))"
    and missing: "runs (serves E fs v) (h None) (Inr SMissing)"
    and found: "\<And>off l e. located E (vw_file v) e (k, off, l) \<Longrightarrow> unat off < sm_index_offset (vw_meta v) \<Longrightarrow>
       runs (serves E fs v) (h (Some (off, l))) (map_sum id entry_result (read_back E e))"
  shows "runs (serves E fs v) (io_bind g (\<lambda>idx. io_bind (io_of (fi_get idx k)) h)) (table_answer E es k)"
proof -
  let ?I = "serves E fs v"
  have get: "runs ?I (io_of (fi_get (vw_index v) k)) (Inr (map_of (fi_entries (vw_index v)) k))"
    by (rule runs_of) (rule view_get [OF v])
  have la: "list_all2 (located E (vw_file v)) es (fi_entries (vw_index v))" using v by (simp add: view_of_def)
  consider (none) "map_of (fi_entries (vw_index v)) k = None" "ent_map es k = None"
    | (some) off l e where "map_of (fi_entries (vw_index v)) k = Some (off, l)" "ent_map es k = Some e"
        "located E (vw_file v) e (k, off, l)"
    using located_lookup [OF la, of k] by fast
  then have "runs ?I (h (map_of (fi_entries (vw_index v)) k)) (table_answer E es k)"
  proof cases
    case none
    then show ?thesis using missing by (simp add: table_answer_def)
  next
    case some
    have "(k, off, l) \<in> set (fi_entries (vw_index v))" using some(1) by (rule map_of_SomeD)
    then have "unat off < sm_index_offset (vw_meta v)" using v by (auto simp: view_of_def)
    from found [OF some(3) this] some show ?thesis by (simp add: table_answer_def)
  qed
  then show ?thesis by (intro runs_bind [OF guard] runs_bind [OF get])
qed

text \<open>A key outside the table, or one the filters let through.\<close>

lemma runs_filtered:
  assumes v: "view_of E es v" and s: "serves E fs v s"
    and body: "runs (serves E fs v) m (table_answer E es k)"
  shows "runs (serves E fs v) (if \<not> sst_ready (id (rs_tab s)) then io_err err
     else if \<not> key_may_exist E (id (rs_tab s)) k then io_ret SMissing else m) (table_answer E es k)"
proof -
  have "sst_ready (rs_tab s)" using s by (simp add: serves_def Let_def)
  moreover have "table_answer E es k = Inr SMissing" if "\<not> key_may_exist E (rs_tab s) k"
    using may_exist [OF v s, of k] that by (cases "ent_map es k") (auto simp: table_answer_def)
  ultimately show ?thesis using body by (auto simp: runs_ret)
qed

lemma runs_answer:
  assumes rd: "runs I m (read_back E e)" and post: "\<And>x. runs I (f x) (Inr (entry_result x))"
  shows "runs I (io_bind m f) (map_sum id entry_result (read_back E e))"
proof (cases "read_back E e")
  case (Inl err)
  with rd show ?thesis by (simp add: runs_bind_err)
next
  case (Inr e')
  with rd have "runs I m (Inr e')" by simp
  from runs_bind [OF this post] Inr show ?thesis by simp
qed

lemma runs_lookup_sync:
  assumes env: "env_ok E" and v: "view_of E es v"
  shows "runs (serves E fs v) (lookup_sync E fs k) (table_answer E es k)"
  unfolding lookup_sync_def
proof (rule runs_tab, rule runs_filtered [OF v], assumption)
  fix s assume s: "serves E fs v s"
  then have t: "sst_compressed (rs_tab s)" "sst_meta (rs_tab s) = vw_meta v"
    by (simp_all add: serves_def Let_def)
  have idx: "runs (serves E fs v) (index_guard E fs) (Inr (vw_index v))"
    by (rule runs_index [OF env]) (use v in \<open>simp add: view_of_def\<close>)
  have la: "src_ok E v" "length (vw_file v) < 18446744073709551616" using v by (simp_all add: view_of_def)
  show "runs (serves E fs v) (io_bind (index_guard E fs)
     (\<lambda>idx. io_bind (io_of (fi_get idx k)) (read_hit_sync E fs (id (rs_tab s))))) (table_answer E es k)"
  proof (rule runs_hit [OF env v idx])
    fix off l e
    assume l: "located E (vw_file v) e (k, off, l)" and o1: "unat off < sm_index_offset (vw_meta v)"
    note rd = located_read [OF env la(1) l la(2)]
    from runs_answer [OF rd(2) runs_ret] o1 rd(3) t
    show "runs (serves E fs v) (read_hit_sync E fs (id (rs_tab s)) (Some (off, l)))
        (map_sum id entry_result (read_back E e))"
      by (simp add: read_hit_sync_def not_less)
  qed (simp add: read_hit_sync_def runs_ret)
qed

lemma serves_readers [simp]: "serves E fs v (s\<lparr>rs_tab := (rs_tab s)\<lparr>sst_readers := n\<rparr>\<rparr>) = serves E fs v s"
  by (simp add: serves_def Let_def)

lemma serves_guard [simp]: "serves E fs v (s\<lparr>rs_guard := g\<rparr>) = serves E fs v s"
  by (simp add: serves_def)

lemma runs_dec: "runs (serves E fs v) guard_decrement (Inr ())"
  by (rule runs_guard_decrement) simp_all

lemma runs_retry:
  "runs I (try_read_entry E fs off l) r \<Longrightarrow> runs I (read_retry E fs off l n) r"
proof (induction n)
  case (Suc n)
  show ?case
  proof (cases r)
    case (Inl e)
    with Suc have "runs I (if is_permanent e then io_err e else read_retry E fs off l n) r"
      by (simp add: runs_err)
    with Suc.prems Inl show ?thesis by (auto intro: runs_match_err)
  next
    case (Inr x)
    with Suc.prems show ?thesis by (auto intro: runs_match runs_ret)
  qed
qed simp

lemma runs_lookup_guarded:
  assumes env: "env_ok E" and v: "view_of E es v"
  shows "runs (serves E fs v) (lookup_with_reader_guard E fs k) (table_answer E es k)"
  unfolding lookup_with_reader_guard_def
proof (rule runs_tab, rule runs_filtered [OF v], assumption)
  fix s assume s: "serves E fs v s"
  then have t: "sst_compressed (rs_tab s)" "sst_meta (rs_tab s) = vw_meta v"
    by (simp_all add: serves_def Let_def)
  have idx: "runs (serves E fs v) (io_match (index_guard E fs) io_ret guarded_err) (Inr (vw_index v))"
    by (rule runs_match [OF runs_index [OF env] runs_ret]) (use v in \<open>simp add: view_of_def\<close>)
  have la: "src_ok E v" "length (vw_file v) < 18446744073709551616"
    "sm_index_offset (vw_meta v) = sm_file_size (vw_meta v)" using v by (simp_all add: view_of_def)
  show "runs (serves E fs v) (io_bind (io_match (index_guard E fs) io_ret guarded_err)
     (\<lambda>idx. io_bind (io_of (fi_get idx k)) (read_hit_guarded E fs (id (rs_tab s))))) (table_answer E es k)"
  proof (rule runs_hit [OF env v idx])
    show "runs (serves E fs v) (read_hit_guarded E fs (id (rs_tab s)) None) (Inr SMissing)"
      using runs_bind [OF runs_dec, of E fs v "\<lambda>_. io_ret SMissing", OF runs_ret]
      by (simp add: read_hit_guarded_def)
    fix off l e
    assume l: "located E (vw_file v) e (k, off, l)" and o1: "unat off < sm_index_offset (vw_meta v)"
    note rd = located_read [OF env la(1) l la(2)]
    have "runs (serves E fs v) (io_bind (read_retry E fs (unat off) (unat l) (sst_retries (rs_tab s) - 1))
        (\<lambda>e. io_bind guard_decrement (\<lambda>_. io_ret (entry_result e)))) (map_sum id entry_result (read_back E e))"
      by (rule runs_answer [OF runs_retry [OF rd(1)] runs_bind [OF runs_dec runs_ret]])
    then show "runs (serves E fs v) (read_hit_guarded E fs (id (rs_tab s)) (Some (off, l)))
        (map_sum id entry_result (read_back E e))"
      using o1 rd(3) t la(3) by (simp add: read_hit_guarded_def not_less)
  qed
qed

lemma runs_lookup_pinned:
  assumes "env_ok E" and "view_of E es v"
  shows "runs (serves E fs v) (lookup_pinned E fs k) (table_answer E es k)"
  unfolding lookup_pinned_def
  by (rule runs_with_guard [OF runs_lookup_guarded [OF assms]]) simp_all

subsection \<open>Scans\<close>

lemma collect_locs_eq:
  assumes ok: "fi_ok idx"
  shows "collect_locs idx P i = Some (takeWhile (P \<circ> fst) (drop i (fi_entries idx)))"
proof (induction "length (fi_entries idx) - i" arbitrary: i)
  case 0
  then have "\<not> i < fi_len idx" by (simp add: fi_len_def fi_entries_def)
  with 0 show ?case by (simp add: collect_locs.simps [of idx P i])
next
  case (Suc n)
  then have i: "i < length (fi_entries idx)" by simp
  then have "i < fi_len idx" by (simp add: fi_len_def fi_entries_def)
  moreover have "fi_at idx i = Some (Some (fi_entries idx ! i))" using fi_nth [OF ok, of i] i by simp
  moreover have "collect_locs idx P (i + 1) = Some (takeWhile (P \<circ> fst) (drop (i + 1) (fi_entries idx)))"
    using Suc by simp
  moreover have "drop i (fi_entries idx) = fi_entries idx ! i # drop (i + 1) (fi_entries idx)"
    using i by (simp add: Cons_nth_drop_Suc)
  ultimately show ?case by (simp add: collect_locs.simps [of idx P i])
qed

lemma locs_from_eq:
  assumes "fi_ok idx"
  shows "locs_from idx start P
     = Some (takeWhile (P \<circ> fst) (filter (\<lambda>(k, _). start \<le> k) (fi_entries idx)))"
  using fi_seek [OF assms, of start] collect_locs_eq [OF assms]
    fi.drop_seek [OF assms fi_seek [OF assms, of start]]
  by (simp add: locs_from_def)

text \<open>A scan's answer for a list of entries: those that can be read.\<close>

definition layer_of :: "'n env \<Rightarrow> 'n entry list \<Rightarrow> (key \<times> 'n val \<times> bool) list" where
  "layer_of E es = concat (map (\<lambda>e. case read_back E e of Inl _ \<Rightarrow> []
     | Inr e' \<Rightarrow> [(en_key e, en_value e', en_deleted e')]) es)"

lemma runs_read_layer:
  assumes env: "env_ok E" and src: "src_ok E v" and small: "length (vw_file v) < 18446744073709551616"
  shows "list_all2 (located E (vw_file v)) es ps \<Longrightarrow>
    runs (serves E fs v) (read_layer E fs ps) (Inr (layer_of E es))"
proof (induction es ps rule: list_all2_induct)
  case Nil
  then show ?case by (simp add: layer_of_def runs_ret)
next
  case (Cons e es p ps)
  obtain k off l where p: "p = (k, off, l)" by (cases p)
  note rd = located_read [OF env src Cons(1) [unfolded p] small]
  show ?case
  proof (cases "read_back E e")
    case (Inl err)
    with rd(1) have "runs (serves E fs v) (try_read_entry E fs (unat off) (unat l)) (Inl err)" by simp
    from runs_match_err [OF this Cons(3)] show ?thesis by (simp add: p layer_of_def Inl)
  next
    case (Inr e')
    with rd(1) have "runs (serves E fs v) (try_read_entry E fs (unat off) (unat l)) (Inr e')" by simp
    from runs_match [OF this runs_bind [OF Cons(3) runs_ret]] rd(4) show ?thesis
      by (simp add: p layer_of_def Inr)
  qed
qed

lemma located_keys: "list_all2 (located E out) es ps \<Longrightarrow> map fst ps = map en_key es"
  by (induction rule: list_all2_induct) (auto simp: located_def)

lemma located_filter:
  "list_all2 (located E out) es ps \<Longrightarrow>
   list_all2 (located E out) (filter (P \<circ> en_key) es) (filter (P \<circ> fst) ps)"
  by (induction rule: list_all2_induct) (auto simp: located_def)

lemma located_takeWhile:
  "list_all2 (located E out) es ps \<Longrightarrow>
   list_all2 (located E out) (takeWhile (P \<circ> en_key) es) (takeWhile (P \<circ> fst) ps)"
  by (induction rule: list_all2_induct) (auto simp: located_def)

lemma runs_layer_scan:
  assumes env: "env_ok E" and v: "view_of E es v"
  shows "runs (serves E fs v) (io_bind (tab sst_ready) (\<lambda>ready. if \<not> ready then io_ret [] else
     io_bind (ensure_file_open_sync fs) (\<lambda>_. io_bind (index_guard E fs) (\<lambda>idx.
     io_bind (io_of (locs_from idx start P)) (\<lambda>ps. without_cache (read_layer E fs ps))))))
   (Inr (layer_of E (takeWhile (P \<circ> en_key) (filter (\<lambda>e. start \<le> en_key e) es))))"
proof -
  let ?I = "serves E fs v"
  have la: "list_all2 (located E (vw_file v)) es (fi_entries (vw_index v))" "src_ok E v"
    "length (vw_file v) < 18446744073709551616" "fi_ok (vw_index v)"
    using v by (simp_all add: view_of_def)
  let ?ps = "takeWhile (P \<circ> fst) (filter (\<lambda>(k, _). start \<le> k) (fi_entries (vw_index v)))"
  have "list_all2 (located E (vw_file v)) (takeWhile (P \<circ> en_key) (filter (\<lambda>e. start \<le> en_key e) es)) ?ps"
    using located_takeWhile [OF located_filter [OF la(1), of "\<lambda>k. start \<le> k"]]
    by (simp add: comp_def split_def)
  from runs_read_layer [OF env la(2,3) this]
  have layer: "runs ?I (without_cache (read_layer E fs ?ps))
      (Inr (layer_of E (takeWhile (P \<circ> en_key) (filter (\<lambda>e. start \<le> en_key e) es))))"
    by (rule runs_without_cache) (simp_all add: serves_def Let_def)
  have idx: "runs ?I (index_guard E fs) (Inr (vw_index v))"
    by (rule runs_index [OF env]) (use v in \<open>simp add: view_of_def\<close>)
  have locs: "runs ?I (io_of (locs_from (vw_index v) start P)) (Inr ?ps)"
    by (rule runs_of) (rule locs_from_eq [OF la(4)])
  have rdy: "runs ?I (tab sst_ready) (Inr True)"
    by (rule runs_tab_const) (simp add: serves_def Let_def)
  have body: "runs ?I (io_bind (ensure_file_open_sync fs) (\<lambda>_. io_bind (index_guard E fs) (\<lambda>idx.
     io_bind (io_of (locs_from idx start P)) (\<lambda>ps. without_cache (read_layer E fs ps)))))
     (Inr (layer_of E (takeWhile (P \<circ> en_key) (filter (\<lambda>e. start \<le> en_key e) es))))"
    by (rule runs_bind [OF runs_ensure_open], rule runs_bind [OF idx], rule runs_bind [OF locs]) (rule layer)
  show ?thesis by (rule runs_bind [OF rdy]) (simp add: body)
qed

lemma sorted_filter_entries: "sorted_entries es \<Longrightarrow> sorted_entries (filter P es)"
  unfolding sorted_entries_def by (induction es) auto

text \<open>The keys that pass the stop test of a scan form an initial part of the sorted entries from the
  start on.\<close>

lemma takeWhile_initial:
  "sorted_entries es \<Longrightarrow>
   (\<And>a b. a < b \<Longrightarrow> b \<in> en_key ` set es \<Longrightarrow> a \<in> en_key ` set es \<Longrightarrow> P b \<Longrightarrow> P a) \<Longrightarrow>
   takeWhile (P \<circ> en_key) es = filter (P \<circ> en_key) es"
proof (induction es)
  case (Cons e es)
  have "filter (P \<circ> en_key) es = []" if "\<not> P (en_key e)"
  proof -
    have "\<not> P (en_key x)" if "x \<in> set es" for x
      using Cons.prems(2) [of "en_key e" "en_key x"] Cons.prems(1) that \<open>\<not> P (en_key e)\<close>
      by (auto simp: sorted_entries_def)
    then show ?thesis by (simp add: filter_empty_conv)
  qed
  moreover have "takeWhile (P \<circ> en_key) es = filter (P \<circ> en_key) es"
    by (rule Cons.IH) (use Cons.prems in \<open>auto simp: sorted_entries_def\<close>)
  ultimately show ?case by (simp del: o_apply) (simp add: comp_def)
qed simp

lemma runs_scan_prefix_layer:
  assumes env: "env_ok E" and v: "view_of E es v"
  shows "runs (serves E fs v) (sst_scan_prefix_layer E fs prefix)
    (Inr (layer_of E (filter (\<lambda>e. starts_with (en_key e) prefix) es)))"
proof -
  let ?from = "filter (\<lambda>e. prefix \<le> en_key e) es"
  have "takeWhile ((\<lambda>k. starts_with k prefix) \<circ> en_key) ?from = filter ((\<lambda>k. starts_with k prefix) \<circ> en_key) ?from"
    by (rule takeWhile_initial)
       (use v in \<open>auto simp: view_of_def sorted_filter_entries intro: prefix_convex [OF _ less_imp_le]\<close>)
  also have "\<dots> = filter (\<lambda>e. starts_with (en_key e) prefix) es"
    by (auto simp: comp_def intro!: filter_cong starts_with_ge)
  finally show ?thesis
    using runs_layer_scan [OF env v, of fs prefix "\<lambda>k. starts_with k prefix"]
    by (simp add: sst_scan_prefix_layer_def)
qed

lemma runs_scan_range_layer:
  assumes env: "env_ok E" and v: "view_of E es v"
  shows "runs (serves E fs v) (sst_scan_range_layer E fs start end')
    (Inr (layer_of E (filter (\<lambda>e. start \<le> en_key e
       \<and> (case exclusive_range_end end' of None \<Rightarrow> True | Some b \<Rightarrow> en_key e < b)) es)))"
proof -
  let ?P = "\<lambda>k. case exclusive_range_end end' of None \<Rightarrow> True | Some b \<Rightarrow> k < b"
  let ?from = "filter (\<lambda>e. start \<le> en_key e) es"
  have "takeWhile (?P \<circ> en_key) ?from = filter (?P \<circ> en_key) ?from"
    by (rule takeWhile_initial)
       (use v in \<open>auto simp: view_of_def sorted_filter_entries split: option.splits\<close>)
  then show ?thesis
    using runs_layer_scan [OF env v, of fs start ?P]
    by (simp add: sst_scan_range_layer_def comp_def conj_commute)
qed

lemma runs_scan_prefix:
  assumes env: "env_ok E" and v: "view_of E es v"
  shows "runs (serves E fs v) (sst_scan_prefix E fs prefix)
    (Inr (map en_key (filter (\<lambda>e. starts_with (en_key e) prefix) es)))"
proof -
  let ?P = "\<lambda>k. starts_with k prefix"
  let ?ps = "takeWhile (?P \<circ> fst) (filter (\<lambda>(k, _). prefix \<le> k) (fi_entries (vw_index v)))"
  have la: "list_all2 (located E (vw_file v)) es (fi_entries (vw_index v))" "fi_ok (vw_index v)"
    "sorted_entries es" using v by (simp_all add: view_of_def)
  have "list_all2 (located E (vw_file v)) (takeWhile (?P \<circ> en_key) (filter (\<lambda>e. prefix \<le> en_key e) es)) ?ps"
    using located_takeWhile [OF located_filter [OF la(1), of "\<lambda>k. prefix \<le> k"], of ?P]
    by (simp add: comp_def split_def)
  from located_keys [OF this]
  have "map fst ?ps = map en_key (takeWhile (?P \<circ> en_key) (filter (\<lambda>e. prefix \<le> en_key e) es))" .
  also have "takeWhile (?P \<circ> en_key) (filter (\<lambda>e. prefix \<le> en_key e) es)
      = filter (?P \<circ> en_key) (filter (\<lambda>e. prefix \<le> en_key e) es)"
    by (rule takeWhile_initial)
       (use la(3) in \<open>auto simp: sorted_filter_entries intro: prefix_convex [OF _ less_imp_le]\<close>)
  also have "\<dots> = filter (\<lambda>e. ?P (en_key e)) es"
    by (auto simp: comp_def intro!: filter_cong starts_with_ge)
  finally have keys: "map fst ?ps = map en_key (filter (\<lambda>e. ?P (en_key e)) es)" .
  have idx: "runs (serves E fs v) (index_guard E fs) (Inr (vw_index v))"
    by (rule runs_index [OF env]) (use v in \<open>simp add: view_of_def\<close>)
  have locs: "runs (serves E fs v) (io_of (locs_from (vw_index v) prefix ?P)) (Inr ?ps)"
    by (rule runs_of) (rule locs_from_eq [OF la(2)])
  show ?thesis
    unfolding sst_scan_prefix_def
    by (rule runs_bind [OF idx], rule runs_bind [OF locs]) (simp only: keys runs_ret)
qed

text \<open>Compaction reads every entry, and only from a handle that is not marked.\<close>

lemma runs_read_all:
  assumes env: "env_ok E" and src: "src_ok E v" and small: "length (vw_file v) < 18446744073709551616"
    and meta: "sm_index_offset (vw_meta v) = sm_file_size (vw_meta v)" and live: "\<not> vw_marked v"
  shows "list_all2 (located E (vw_file v)) es ps \<Longrightarrow>
    \<forall>p \<in> set ps. unat (fst (snd p)) < sm_index_offset (vw_meta v) \<Longrightarrow> \<forall>e \<in> set es. reads_back E e \<Longrightarrow>
    runs (serves E fs v) (read_all E fs ps) (Inr es)"
proof (induction es ps rule: list_all2_induct)
  case Nil
  then show ?case by (simp add: runs_ret)
next
  case (Cons e es p ps)
  obtain k off l where p: "p = (k, off, l)" by (cases p)
  note rd = located_read [OF env src Cons(1) [unfolded p] small]
  have r1: "runs (serves E fs v) (try_read_entry E fs (unat off) (unat l)) (Inr e)"
    using rd(1) Cons(5) by (simp add: reads_back_def)
  have r2: "runs (serves E fs v) (read_all E fs ps) (Inr es)" using Cons by simp
  have body: "runs (serves E fs v) (io_match (try_read_entry E fs (unat off) (unat l))
      (\<lambda>e. io_bind (read_all E fs ps) (\<lambda>r. io_ret (e # r)))
      (\<lambda>_. io_err (Internal ''Failed to read key''))) (Inr (e # es))"
    by (rule runs_match [OF r1 runs_bind [OF r2 runs_ret]])
  show ?case
    unfolding p read_all.simps
  proof (rule runs_tab)
    fix s assume s: "serves E fs v s"
    then show "runs (serves E fs v) (if sst_marked (id (rs_tab s))
        then io_err (Internal ''marked for deletion during get_all_entries'')
     else if sm_file_size (sst_meta (id (rs_tab s))) < unat off then io_err (Internal ''Invalid offset'')
     else if (\<not> sst_compressed (id (rs_tab s)) \<and> unat l = 0) \<or> max_entry < unat l
     then io_err (Internal ''Invalid entry size'')
     else io_match (try_read_entry E fs (unat off) (unat l))
       (\<lambda>e. io_bind (read_all E fs ps) (\<lambda>r. io_ret (e # r)))
       (\<lambda>_. io_err (Internal ''Failed to read key''))) (Inr (e # es))"
      using body Cons(4) meta live rd(3) by (simp add: p serves_def Let_def not_less)
  qed
qed

lemma runs_get_all_entries:
  assumes env: "env_ok E" and v: "view_of E es v" and rb: "\<forall>e \<in> set es. reads_back E e"
    and live: "\<not> vw_marked v"
  shows "runs (serves E fs v) (sst_get_all_entries E fs) (Inr es)"
  unfolding sst_get_all_entries_def
proof (rule runs_tab)
  fix s assume s: "serves E fs v s"
  let ?I = "serves E fs v" and ?ps = "fi_entries (vw_index v)"
  have la: "list_all2 (located E (vw_file v)) es ?ps" "src_ok E v" "fi_ok (vw_index v)"
    "length (vw_file v) < 18446744073709551616" "sm_index_offset (vw_meta v) = sm_file_size (vw_meta v)"
    "\<forall>p \<in> set ?ps. unat (fst (snd p)) < sm_index_offset (vw_meta v)"
    using v unfolding view_of_def by blast+
  have idx: "runs ?I (index_guard E fs) (Inr (vw_index v))"
    by (rule runs_index [OF env]) (use v in \<open>simp add: view_of_def\<close>)
  have locs: "runs ?I (io_of (collect_locs (vw_index v) (\<lambda>_. True) 0)) (Inr ?ps)"
    using collect_locs_eq [OF la(3), of "\<lambda>_. True" 0] by (intro runs_of) (simp add: comp_def)
  have all: "runs ?I (without_cache (read_all E fs ?ps)) (Inr es)"
    by (rule runs_without_cache [OF runs_read_all [OF env la(2,4,5) live la(1,6) rb]])
       (simp_all add: serves_def Let_def)
  have len: "length es = length ?ps" using la(1) by (rule list_all2_lengthD)
  have body: "runs ?I (io_bind (index_guard E fs) (\<lambda>idx.
       io_bind (io_of (collect_locs idx (\<lambda>_. True) 0)) (\<lambda>ps.
       io_bind (without_cache (read_all E fs ps)) (\<lambda>es.
       if length es \<noteq> length ps then io_err (Internal ''partial read'') else io_ret es)))) (Inr es)"
    by (rule runs_bind [OF idx], rule runs_bind [OF locs], rule runs_bind [OF all])
       (simp add: len runs_ret)
  show "runs ?I (if \<not> sst_ready (id (rs_tab s))
      then io_err (Internal ''Cannot read all entries from SSTable that is not ready'')
     else if sst_marked (id (rs_tab s))
      then io_err (Internal ''Cannot read all entries from SSTable marked for deletion'')
     else io_bind (index_guard E fs) (\<lambda>idx.
       io_bind (io_of (collect_locs idx (\<lambda>_. True) 0)) (\<lambda>ps.
       io_bind (without_cache (read_all E fs ps)) (\<lambda>es.
       if length es \<noteq> length ps then io_err (Internal ''partial read'') else io_ret es)))) (Inr es)"
    using s live body by (simp add: serves_def Let_def)
qed

subsection \<open>What the writer produces\<close>

text \<open>The encoded index must fit in 4 GiB.\<close>

definition index_fits :: "'n entry list \<Rightarrow> bool" where
  "index_fits es \<longleftrightarrow> 9 + sum_list (map (\<lambda>e. 20 + length (en_key e)) es) < 4294967296"

lemma written_index_size:
  assumes "list_all2 (located E out) es ps"
  shows "length (fi_recs ps) + 4 * length ps = sum_list (map (\<lambda>e. 20 + length (en_key e)) es)"
proof -
  have "length (fi_recs ps) + 4 * length ps = sum_list (map (\<lambda>k. 20 + length k) (map fst ps))"
    by (induction ps) (auto simp: fi_recs_Cons fi_record_def fi_recs_def)
  then show ?thesis unfolding located_keys [OF assms] by (simp add: comp_def)
qed

lemma written_index_fits:
  assumes "sorted_entries es" and "index_fits es" and "list_all2 (located E out) es ps"
  shows "fi_fits ps" and "length (fi_encode (from_sorted ps)) < 4294967296"
  using assms(1,2) located_keys [OF assms(3)] written_index_size [OF assms(3)]
  by (simp_all add: fi_fits_def bt_ok_def sorted_entries_def index_fits_def from_sorted_eq fi_encode_def
      fi_magic_def del: map_map)

text \<open>Writing succeeds when the metadata can be serialised.\<close>

lemma write_total:
  assumes env: "env_ok E" and es: "es \<noteq> []" "sorted_entries es" "\<forall>e \<in> set es. entry_ok E e" "index_fits es"
    and meta: "\<forall>M. ser_meta E M \<noteq> None"
  shows "\<exists>t' file. write_entries E t es = Inr (t', Some file)"
proof -
  obtain st where st: "write_loop E es ws_start = Inr st" "list_all2 (located E (ws_out st)) es (ws_pairs st)"
    using write_loop_located [OF env es(3)] by blast
  obtain d where "compress E (fi_encode (from_sorted (ws_pairs st))) = Some d"
    using compress_total [OF env written_index_fits(2) [OF es(2,4) st(2)]] by blast
  with es(1) st(1) meta show ?thesis
    by (auto simp: write_entries_def snap_compress_def Let_def split: option.splits)
qed

text \<open>The view of a file just written, on a path whose blocks are not cached yet.\<close>

definition written_view :: "'n env \<Rightarrow> sstable \<Rightarrow> bytes \<Rightarrow> (ckey \<Rightarrow> bytes option) \<Rightarrow> 'n view" where
  "written_view E t file src = \<lparr>vw_file = file, vw_path = sst_path t, vw_meta = sst_meta t,
     vw_index = sst_index t, vw_bloom = (case sst_bloom t of None \<Rightarrow> bf_new 0 7 | Some b \<Rightarrow> b),
     vw_src = (\<lambda>k. case k of Block_Key p off \<Rightarrow> if p = sst_path t then raw_block E file off else src k
               | Entry_Key p off \<Rightarrow> src k), vw_marked = sst_marked t\<rparr>"

lemma write_view:
  assumes env: "env_ok E" and es: "es \<noteq> []" "sorted_entries es" "\<forall>e \<in> set es. entry_ok E e" "index_fits es"
    and w: "write_entries E t es = Inr (t', Some file)" and small: "length file < 18446744073709551616"
  shows "view_of E es (written_view E t' file src)"
    and "\<exists>m body. file = sst_header @ body @ m @ u32_to_le (crc E m) \<and> ser_meta E (sst_meta t') = Some m"
    and "sst_path t' = sst_path t" "sst_ready t'" "sst_compressed t'" "sst_reader t' = sst_reader t"
      "sst_marked t' = sst_marked t" "sst_resilient t' = sst_resilient t" "sst_last t' = sst_last t"
      "sst_bloom t' = Some (vw_bloom (written_view E t' file src))"
proof -
  obtain st where st: "write_loop E es ws_start = Inr st" "list_all2 (located E (ws_out st)) es (ws_pairs st)"
      "\<exists>r. ws_out st = sst_header @ r" "ws_offset st = length (ws_out st)"
    using write_loop_located [OF env es(3)] by blast
  let ?idx = "from_sorted (ws_pairs st)"
  obtain d where d: "compress E (fi_encode ?idx) = Some d"
    using w es(1) st(1)
    by (cases "compress E (fi_encode ?idx)") (simp_all add: write_entries_def snap_compress_def Let_def)
  define bl where "bl = fold (bf_add (key_hash E)) (map en_key es) (with_optimal_params (length es))"
  define body where "body = d @ u32_to_le (crc E d) @ bf_to_bytes bl @ u32_to_le (crc E (bf_to_bytes bl))"
  define M where "M = (sst_meta t)\<lparr>sm_entry_count := length es, sm_smallest := en_key (hd es),
       sm_largest := en_key (last es), sm_file_size := ws_offset st, sm_index_offset := ws_offset st,
       sm_index_size := length d, sm_bloom_offset := ws_offset st + length d + 4,
       sm_bloom_size := length (bf_to_bytes bl), sm_bloom_hashes := bf_hashes bl,
       sm_checksum := crc E (ws_out st @ body)\<rparr>"
  have w': "case ser_meta E M of None \<Rightarrow> False | Some m \<Rightarrow>
      t' = t\<lparr>sst_meta := M, sst_compressed := True, sst_index := ?idx, sst_index_loaded := True,
             sst_bloom := Some bl, sst_ready := True\<rparr>
      \<and> file = ws_out st @ body @ m @ u32_to_le (crc E m)"
    using w es(1) st(1) d
    by (auto simp: write_entries_def snap_compress_def M_def bl_def body_def Let_def split: option.splits)
  then obtain m where m: "ser_meta E M = Some m"
      "t' = t\<lparr>sst_meta := M, sst_compressed := True, sst_index := ?idx, sst_index_loaded := True,
             sst_bloom := Some bl, sst_ready := True\<rparr>"
      "file = ws_out st @ body @ m @ u32_to_le (crc E m)"
    by (auto split: option.splits)
  let ?v = "written_view E t' file src"
  have v: "vw_file ?v = file" "vw_path ?v = sst_path t" "vw_meta ?v = M" "vw_index ?v = ?idx"
      "vw_bloom ?v = bl"
    by (simp_all add: written_view_def m(2))
  have fits: "fi_fits (ws_pairs st)" by (rule written_index_fits(1) [OF es(2,4) st(2)])
  have len: "length (ws_pairs st) = length es" using list_all2_lengthD [OF st(2)] by simp
  have idx: "fi_entries ?idx = ws_pairs st" "fi_ok ?idx"
    by (rule fi_entries_from_sorted [OF fits], rule fi_ok_from_sorted [OF fits])
  have "length (fi_off ?idx) < 4294967296" by (rule fi_fits_count [OF fits])
  then have dec: "fi_decode (de_index E) (fi_encode ?idx) = Inr ?idx" by (rule fi_decode_encode)
  have disk: "index_on_disk E ?v"
    unfolding index_on_disk_def v
    by (rule exI [of _ "ws_out st"], rule exI [of _ d], rule exI [of _ "bf_to_bytes bl
          @ u32_to_le (crc E (bf_to_bytes bl)) @ m @ u32_to_le (crc E m)"], rule exI [of _ "fi_encode ?idx"])
       (use compress_size [OF env d] compress_back [OF env d] dec st(4) len in
         \<open>auto simp: m(3) body_def M_def fi_len_def from_sorted_eq\<close>)
  have loc: "list_all2 (located E file) es (fi_entries ?idx)"
    unfolding idx(1) m(3) using st(2) located_append [of E "ws_out st"] by (rule list_all2_mono2)
  have small': "length (ws_out st) < 18446744073709551616" using small by (simp add: m(3))
  have "unat (fst (snd p)) < ws_offset st" if p: "p \<in> set (ws_pairs st)" for p
  proof -
    from p st(2) obtain e where "located E (ws_out st) e p"
      by (metis in_set_conv_nth list_all2_conv_all_nth)
    then obtain blk off where b: "block_at E (ws_out st) off blk" "fst (snd p) = word_of_nat off"
      by (auto simp: located_def)
    then have "off < length (ws_out st)" by (auto simp: block_at_def)
    with b(2) small' st(4) show ?thesis by (simp add: unat_u64_of_nat)
  qed
  moreover have "might_contain (key_hash E) bl (en_key e)" if "e \<in> set es" for e
    unfolding bl_def by (rule bloom.query_adds) (use that in \<open>auto simp: with_optimal_params_def\<close>)
  ultimately show "view_of E es ?v"
    using es disk idx loc small by (simp add: view_of_def v src_ok_def M_def) (simp add: written_view_def m(2))
  obtain r where "ws_out st = sst_header @ r" using st(3) by blast
  then show "\<exists>m body. file = sst_header @ body @ m @ u32_to_le (crc E m) \<and> ser_meta E (sst_meta t') = Some m"
    using m by (intro exI [of _ m] exI [of _ "r @ body"]) simp
  show "sst_path t' = sst_path t" "sst_ready t'" "sst_compressed t'" "sst_reader t' = sst_reader t"
      "sst_marked t' = sst_marked t" "sst_resilient t' = sst_resilient t" "sst_last t' = sst_last t"
      "sst_bloom t' = Some (vw_bloom ?v)"
    by (simp_all add: m(2) written_view_def)
qed

end
