(* ===== verification/SSTable_Reopen.thy ===== *)
theory SSTable_Reopen
  imports SSTable_Correct
begin

text \<open>
  Opening a table and the properties of its file: what the handle that wrote it serves, what a
  handle opened after a restart serves, and the files that cannot be opened again because of how
  the metadata is looked for.
\<close>

subsection \<open>Sequences of reads\<close>

fun each :: "('a \<Rightarrow> (rstate, 'b) io) \<Rightarrow> 'a list \<Rightarrow> (rstate, 'b res list) io" where
  "each f [] = io_ret []"
| "each f (x # xs) = io_match (f x)
     (\<lambda>y. io_bind (each f xs) (\<lambda>ys. io_ret (Inr y # ys)))
     (\<lambda>e. io_bind (each f xs) (\<lambda>ys. io_ret (Inl e # ys)))"

lemma runs_each: "(\<And>x. runs I (f x) (g x)) \<Longrightarrow> runs I (each f xs) (Inr (map g xs))"
proof (induction xs)
  case Nil
  show ?case by (simp add: runs_ret)
next
  case (Cons x xs)
  note tl = runs_bind [OF Cons.IH [OF Cons.prems] runs_ret]
  show ?case
  proof (cases "g x")
    case (Inl e)
    with Cons.prems [of x] have "runs I (f x) (Inl e)" by simp
    from runs_match_err [OF this tl] Inl show ?thesis by simp
  next
    case (Inr y)
    with Cons.prems [of x] have "runs I (f x) (Inr y)" by simp
    from runs_match [OF this tl] Inr show ?thesis by simp
  qed
qed

lemma runs_lookups:
  assumes "env_ok E" and "view_of E es v"
  shows "runs (serves E fs v) (each (lookup_sync E fs) ks) (Inr (map (table_answer E es) ks))"
    and "runs (serves E fs v) (each (lookup_pinned E fs) ks) (Inr (map (table_answer E es) ks))"
  by (rule runs_each, rule runs_lookup_sync [OF assms])
     (rule runs_each, rule runs_lookup_pinned [OF assms])

subsection \<open>The metadata scan\<close>

text \<open>The metadata of a table, where no proper suffix of its bytes parses and it fits one chunk.\<close>

definition meta_clean :: "'n env \<Rightarrow> sst_meta \<Rightarrow> bool" where
  "meta_clean E M \<longleftrightarrow> (\<exists>b. ser_meta E M = Some b \<and> de_meta E b = Some M \<and> b \<noteq> [] \<and> length b \<le> 2044
     \<and> (\<forall>d. 0 < d \<and> d < length b \<longrightarrow> de_meta E (drop d b) = None))"

lemma scan_chunk_finds:
  assumes "take (length chunk - 4) chunk = y @ b" and "de_meta E (drop d b) = Some M" and "d < length b"
    and "\<And>j. d < j \<Longrightarrow> j < length b \<Longrightarrow> de_meta E (drop j b) = None"
  shows "length y + d < i \<Longrightarrow> i \<le> length y + length b \<Longrightarrow> scan_chunk E chunk i = Some (length y + d, M)"
proof (induction i)
  case (Suc i)
  have dr: "drop i (take (length chunk - 4) chunk) = drop (i - length y) b" if "length y \<le> i"
    using that by (simp add: assms(1))
  show ?case
  proof (cases "i = length y + d")
    case True
    with dr assms(2) show ?thesis by simp
  next
    case False
    with Suc.prems have i: "length y + d < i" by simp
    then have "de_meta E (drop (i - length y) b) = None"
      using assms(4) [of "i - length y"] Suc.prems by simp
    with i dr Suc show ?thesis by simp
  qed
qed simp

text \<open>The shortest suffix that parses is what the first chunk yields.\<close>

lemma scan_meta_finds:
  assumes env: "env_ok E" and f: "file = body @ b @ c" "length c = 4" "length b \<le> 2044"
    and de: "de_meta E (drop d b) = Some M" "d < length b"
      "\<And>j. d < j \<Longrightarrow> j < length b \<Longrightarrow> de_meta E (drop j b) = None"
  shows "scan_meta E file (length file) = Inr (M, length body + d, length b - d)"
proof -
  define n where "n = min (length file) 2048"
  define y where "y = drop (length file - n) body"
  have len: "length file = length body + length b + 4" using f by simp
  have n: "length b + 4 \<le> n" "n \<le> length file" using f(3) len by (simp_all add: n_def)
  have le: "length file - n \<le> length body" using n len by simp
  have ly: "length y + (length file - n) = length body" using le by (simp add: y_def)
  have chunk: "drop (length file - n) file = y @ b @ c" using le by (simp add: f(1) y_def)
  have lc: "length (y @ b @ c) = n" using n by (metis chunk diff_diff_cancel length_drop)
  have rd: "read_exact_at (sys_read E) file (length file - n) n = Inr (y @ b @ c)"
    using n chunk lc by (simp add: read_exact_at_spec [OF env_sys [OF env]])
  have tk: "take (length (y @ b @ c) - 4) (y @ b @ c) = y @ b" using f(2) by simp
  have "scan_chunk E (y @ b @ c) (n - 4) = Some (length y + d, M)"
    by (rule scan_chunk_finds [OF tk de]) (use lc f(2) de(2) in auto)
  moreover have "length file \<noteq> 0" using len by simp
  moreover have "length file - n + (length y + d) = length body + d" using ly by simp
  moreover have "n - 4 - (length y + d) = length b - d" using lc f(2) by simp
  ultimately show ?thesis
    using rd by (simp add: scan_meta.simps [of E "file" "length file"] n_def [symmetric] Let_def)
qed

subsection \<open>Opening\<close>

definition fresh_handle :: "fs \<Rightarrow> bytes \<Rightarrow> sstable \<Rightarrow> bool" where
  "fresh_handle fs file t \<longleftrightarrow> \<not> sst_ready t \<and> \<not> sst_index_loaded t \<and> sst_resilient t
     \<and> sst_last t = None \<and> rd_path (sst_reader t) = sst_path t
     \<and> reads fs file (sst_reader t) \<and> fs (sst_path t) = Some file"

lemma fresh_new [simp]: "fs p = Some file \<Longrightarrow> fresh_handle fs file (sst_new linux p mode r True level now)"
  by (simp add: fresh_handle_def sst_new_def reads_def rd_new_def)

text \<open>Opening loads the metadata found by the scan and checks its checksum.\<close>

lemma open_sync_eq:
  assumes env: "env_ok E" and fresh: "fresh_handle fs file (rs_tab s)" and hd: "file = sst_header @ rest"
    and scan: "scan_meta E file (length file) = Inr (M, off, n)" and n: "n \<noteq> 0"
    and room: "off + n + 4 \<le> length file"
  shows "open_sync E fs s =
    (let t = (rs_tab s)\<lparr>sst_reader := (sst_reader (rs_tab s))\<lparr>rd_sync := Some file\<rparr>,
                        sst_compressed := True, sst_meta := M\<rparr> in
     if u32_from_le (take 4 (drop (off + n) file)) \<noteq> crc E (take n (drop off file))
     then Some (Inl (Corruption ''SSTable metadata checksum mismatch''), s\<lparr>rs_tab := t\<rparr>)
     else Some (Inr (), s\<lparr>rs_tab := t\<lparr>sst_bloom := None, sst_ready := True\<rparr>\<rparr>))"
proof -
  let ?r = "sst_reader (rs_tab s)"
  have r: "reads fs file ?r" "fs (rd_path ?r) = Some file" "\<not> sst_ready (rs_tab s)"
    using fresh by (auto simp: fresh_handle_def)
  note sys = read_exact_at_spec [OF env_sys [OF env]]
  have "take 4 file = SST_COMPRESSED_MAGIC" "4 \<le> length file"
    by (simp_all add: hd sst_header_def SST_COMPRESSED_MAGIC_def)
  then have mag: "read_exact_at (sys_read E) file 0 4 = Inr SST_COMPRESSED_MAGIC" by (simp add: sys)
  have chk: "read_u32_le_at (sys_read E) file (off + n) = Inr (u32_from_le (take 4 (drop (off + n) file)))"
    using room by (simp add: read_u32_le_at_def sys)
  have buf: "read_exact_at (sys_read E) file off n = Inr (take n (drop off file))"
    using room by (simp add: sys)
  have unat_eq: "unat a = unat b \<longleftrightarrow> a = b" for a b :: u32
    by (simp add: word_unat_eq_iff)
  note op = reads_open [OF r(1)]
  show ?thesis
    using r(2,3)
    by (simp add: op open_sync_def try_read_metadata_def io_bind_def io_match_def tab_def io_get_def io_ret_def
        io_err_def rd_op_def rd_exact_def rd_size_def file_size_blocking_def rd_scan_def rd_u32_def set_tab_def
        io_mod_def read_blocking read_u32_blocking mag chk buf scan unat_eq Let_def)
qed

subsection \<open>Written tables\<close>

text \<open>\<open>es\<close> was written with the handle \<open>t0\<close>, giving the handle \<open>t\<close> and the file.\<close>

definition table_written :: "'n env \<Rightarrow> sstable \<Rightarrow> 'n entry list \<Rightarrow> sstable \<Rightarrow> bytes \<Rightarrow> bool" where
  "table_written E t0 es t file \<longleftrightarrow> env_ok E \<and> es \<noteq> [] \<and> sorted_entries es
     \<and> (\<forall>e \<in> set es. entry_ok E e) \<and> index_fits es
     \<and> write_entries E t0 es = Inr (t, Some file) \<and> length file < 18446744073709551616"

definition fresh_cache :: "path \<Rightarrow> ckey cache option \<Rightarrow> bool" where
  "fresh_cache p co \<longleftrightarrow> (\<forall>c. co = Some c \<longrightarrow> bc_inv c \<and> (\<forall>off. bc_lookup c (Block_Key p off) = None))"

definition cache_src :: "ckey cache option \<Rightarrow> ckey \<Rightarrow> bytes option" where
  "cache_src co k = (case co of None \<Rightarrow> None | Some c \<Rightarrow> bc_lookup c k)"

lemma fresh_cache_coherent:
  "fresh_cache (sst_path t) co \<Longrightarrow> co = Some c \<Longrightarrow>
   bc.coherent (vw_src (written_view E t file (cache_src co))) c"
  by (auto simp: bc.coherent_def fresh_cache_def written_view_def cache_src_def split: ckey.splits)

lemma written_facts:
  assumes w: "table_written E t0 es t file"
  shows "env_ok E" and "view_of E es (written_view E t file src)"
  using w write_view(1) [of E es t0 t "file" src] by (auto simp: table_written_def)

lemma written_serves:
  assumes w: "table_written E (sst_new linux p mode r True level now) es t file"
    and fs: "fs p = Some file" and co: "fresh_cache p co"
  shows "serves E fs (written_view E t file (cache_src co)) \<lparr>rs_tab = t, rs_cache = co, rs_guard = g\<rparr>"
proof -
  let ?t0 = "sst_new linux p mode r True level now"
  from w have h: "env_ok E" "es \<noteq> []" "sorted_entries es" "\<forall>e \<in> set es. entry_ok E e" "index_fits es"
      "write_entries E ?t0 es = Inr (t, Some file)" "length file < 18446744073709551616"
    by (simp_all add: table_written_def)
  note wv = write_view [OF h]
  have t: "sst_path t = p" "sst_ready t" "sst_compressed t" "sst_resilient t" "sst_last t = None"
      "sst_bloom t = Some (vw_bloom (written_view E t file (cache_src co)))"
      "sst_reader t = rd_new linux p mode"
    using wv(3-) by (simp_all add: sst_new_def)
  have "reads fs file (rd_new linux p mode)" "rd_path (rd_new linux p mode) = p" using fs by (simp_all add: reads_def rd_new_def)
  with t co fresh_cache_coherent [of t co] show ?thesis
    by (auto simp: serves_def Let_def written_view_def)
qed

text \<open>Opening a fresh handle on a written file.\<close>

lemma reopened_serves:
  assumes w: "table_written E t0 es t file" and p: "sst_path t = p" "sst_marked t = sst_marked t2"
    and clean: "meta_clean E (sst_meta t)"
    and h: "fresh_handle fs file t2" "sst_path t2 = p" and co: "fresh_cache p co"
  shows "\<exists>s'. open_sync E fs \<lparr>rs_tab = t2, rs_cache = co, rs_guard = g\<rparr> = Some (Inr (), s')
     \<and> serves E fs (written_view E t file (cache_src co)) s' \<and> sst_meta (rs_tab s') = sst_meta t"
proof -
  obtain m body where f: "file = sst_header @ body @ m @ u32_to_le (crc E m)" "ser_meta E (sst_meta t) = Some m"
    using w write_view(2) [of E es t0 t "file"] by (auto simp: table_written_def)
  have m: "de_meta E (drop 0 m) = Some (sst_meta t)" "0 < length m" "length m \<le> 2044"
      "\<And>j. 0 < j \<Longrightarrow> j < length m \<Longrightarrow> de_meta E (drop j m) = None"
    using clean f(2) by (auto simp: meta_clean_def)
  have env: "env_ok E" using w by (simp add: table_written_def)
  have f': "file = (sst_header @ body) @ m @ u32_to_le (crc E m)" using f(1) by simp
  have scan: "scan_meta E file (length file) = Inr (sst_meta t, length (sst_header @ body), length m)"
    using scan_meta_finds [OF env f' _ m(3) m(1,2,4)] by simp
  let ?s = "\<lparr>rs_tab = t2, rs_cache = co, rs_guard = g\<rparr>"
  let ?t = "t2\<lparr>sst_reader := (sst_reader t2)\<lparr>rd_sync := Some file\<rparr>, sst_compressed := True,
      sst_meta := sst_meta t, sst_bloom := None, sst_ready := True\<rparr>"
  have crc: "u32_from_le (take 4 (drop (length (sst_header @ body) + length m) file)) = crc E m"
    by (simp add: f')
  have buf: "take (length m) (drop (length (sst_header @ body)) file) = m" by (simp add: f')
  have op: "open_sync E fs ?s = Some (Inr (), ?s\<lparr>rs_tab := ?t\<rparr>)"
  proof -
    have "fresh_handle fs file (rs_tab ?s)" using h(1) by simp
    moreover have "length m \<noteq> 0" using m(2) by simp
    moreover have "length (sst_header @ body) + length m + 4 \<le> length file" by (simp add: f')
    ultimately show ?thesis
      using open_sync_eq [OF env _ f(1) scan, of fs ?s] crc buf by (simp add: Let_def)
  qed
  have "serves E fs (written_view E t file (cache_src co)) (?s\<lparr>rs_tab := ?t\<rparr>)"
    using h p co fresh_cache_coherent [of t co]
    by (auto simp: serves_def Let_def written_view_def fresh_handle_def)
  with op show ?thesis by (intro exI [of _ "?s\<lparr>rs_tab := ?t\<rparr>"]) simp
qed

subsection \<open>Properties\<close>


text \<open>An environment for the witnesses: one entry, stored as one byte; metadata stored as one byte.\<close>

definition toy_env :: "'n entry \<Rightarrow> sst_meta \<Rightarrow> 'n env" where
  "toy_env e M = \<lparr>sys_read = (\<lambda>_ _. 1), ser_entry = (\<lambda>_. Some [1]), de_entry = (\<lambda>_. Some e),
     ser_meta = (\<lambda>_. Some [7]), de_meta = (\<lambda>b. if b = [7] then Some M else None), de_index = (\<lambda>_. None),
     crc = (\<lambda>_. 0), compress = (\<lambda>b. Some (0 # b)), decompress = (\<lambda>c. case c of [] \<Rightarrow> None | _ # b \<Rightarrow> Some b),
     key_hash = (\<lambda>_ _. 0)\<rparr>"

definition toy_entry :: "nat entry" where
  "toy_entry = \<lparr>en_key = [97], en_value = VInt64 5, en_ts = 3, en_deleted = False\<rparr>"

lemma toy_facts:
  "env_ok (toy_env e M)" "entry_ok (toy_env e M) e'" "reads_back (toy_env e M) e"
  "\<forall>M'. ser_meta (toy_env e M) M' \<noteq> None" "sorted_entries [e]" "index_fits [toy_entry]" "fresh_cache p None"
  by (simp_all add: toy_env_def env_ok_def sys_ok_def entry_ok_def reads_back_def read_back_def de_entry_res_def
      max_entry_def sorted_entries_def index_fits_def toy_entry_def fresh_cache_def)

lemma toy_written:
  "\<exists>t file. table_written (toy_env toy_entry (sst_meta t)) (sst_new True ''t'' SeekRead 3 True 0 0) [toy_entry] t file
     \<and> \<not> sst_marked t \<and> sst_path t = ''t'' \<and> meta_clean (toy_env toy_entry (sst_meta t)) (sst_meta t)"
proof -
  let ?t0 = "sst_new True ''t'' SeekRead 3 True 0 0"
  have same: "write_entries (toy_env toy_entry M) ?t0 [toy_entry] = write_entries (toy_env toy_entry M') ?t0 [toy_entry]"
    for M M'
    by (simp add: write_entries_def write_entry_def write_snappy_block_def snap_compress_def ws_start_def frame_def
        toy_env_def Let_def)
  have len: "write_entries (toy_env toy_entry M) ?t0 [toy_entry] = Inr (t, Some file) \<Longrightarrow> length file < 18446744073709551616
      \<and> sst_path t = ''t'' \<and> \<not> sst_marked t" for M t "file"
    using length_bf_to_bytes [of "\<lambda>_ _. 0" "[[97]]" 1]
    by (auto simp: write_entries_def write_entry_def write_snappy_block_def snap_compress_def ws_start_def frame_def
        toy_env_def Let_def sst_new_def toy_entry_def from_sorted_def fi_push_def fi_record_def fi_empty_def
        fi_encode_def fi_magic_def sst_header_def SST_COMPRESSED_MAGIC_def)
  obtain t "file" where w: "write_entries (toy_env toy_entry undefined) ?t0 [toy_entry] = Inr (t, Some file)"
    using write_total [where t = ?t0, OF toy_facts(1) _ toy_facts(5) _ toy_facts(6,4)] toy_facts(2) by blast
  then have "write_entries (toy_env toy_entry (sst_meta t)) ?t0 [toy_entry] = Inr (t, Some file)"
    using same [of undefined "sst_meta t"] by simp
  with len [OF w] toy_facts show ?thesis
    by (intro exI [of _ t] exI [of _ "file"])
       (auto simp: table_written_def meta_clean_def toy_env_def)
qed


text \<open>
  C17: what survives a restart.  A handle opened on a written file loads the metadata the writer
  stored and serves every lookup from the file and the index decoded on first use; compaction
  reads exactly the entries written, in order.  It needs the metadata to fit one chunk and no
  proper suffix of its bytes to parse.
\<close>

theorem sstable_reopen:
  assumes w: "table_written E t0 es t file" and live: "\<not> sst_marked t" and clean: "meta_clean E (sst_meta t)"
    and rb: "\<forall>e \<in> set es. reads_back E e" and fs: "fs (sst_path t) = Some file"
    and co: "fresh_cache (sst_path t) co"
  shows "\<exists>s'. open_sync E fs \<lparr>rs_tab = sst_new linux (sst_path t) mode r True level now, rs_cache = co,
        rs_guard = g\<rparr> = Some (Inr (), s')
     \<and> sst_meta (rs_tab s') = sst_meta t
     \<and> (\<exists>s''. each (lookup_sync E fs) ks s' = Some (Inr (map (table_answer E es) ks), s''))
     \<and> (\<exists>s''. sst_get_all_entries E fs s' = Some (Inr es, s''))"
proof -
  let ?t2 = "sst_new linux (sst_path t) mode r True level now"
  let ?v = "written_view E t file (cache_src co)"
  have m: "sst_marked t = sst_marked ?t2" "sst_path ?t2 = sst_path t" using live by (simp_all add: sst_new_def)
  obtain s' where s': "open_sync E fs \<lparr>rs_tab = ?t2, rs_cache = co, rs_guard = g\<rparr> = Some (Inr (), s')"
      "serves E fs ?v s'" "sst_meta (rs_tab s') = sst_meta t"
    using reopened_serves [OF w refl m(1) clean fresh_new [of fs "sst_path t" "file"] m(2) co] fs by blast
  note f = written_facts(1) [OF w] written_facts(2) [OF w, of "cache_src co"]
  have "\<not> vw_marked ?v" using live by (simp add: written_view_def)
  from runs_get_all_entries [OF f rb this] s'(2)
  have "\<exists>s''. sst_get_all_entries E fs s' = Some (Inr es, s'')" unfolding runs_def by blast
  moreover from runs_lookups(1) [OF f, of fs ks] s'(2)
  have "\<exists>s''. each (lookup_sync E fs) ks s' = Some (Inr (map (table_answer E es) ks), s'')"
    unfolding runs_def by blast
  ultimately show ?thesis using s'(1,3) by blast
qed

theorem sstable_reopen_witness:
  "\<exists>E t file s'. open_sync E (\<lambda>_. Some file) \<lparr>rs_tab = sst_new True ''t'' SeekRead 3 True 0 0, rs_cache = None,
        rs_guard = guard_new True\<rparr> = Some (Inr (), s') \<and> sst_meta (rs_tab s') = sst_meta (t :: sstable)
     \<and> (\<exists>s''. sst_get_all_entries E (\<lambda>_. Some file) s' = Some (Inr [toy_entry], s''))"
proof -
  obtain t "file" where t: "table_written (toy_env toy_entry (sst_meta t)) (sst_new True ''t'' SeekRead 3 True 0 0)
      [toy_entry] t file" "\<not> sst_marked t" "sst_path t = ''t''" "meta_clean (toy_env toy_entry (sst_meta t)) (sst_meta t)"
    using toy_written by blast
  have rb: "\<forall>e \<in> set [toy_entry]. reads_back (toy_env toy_entry (sst_meta t)) e" using toy_facts(3) by simp
  from sstable_reopen [OF t(1,2,4) rb, of "\<lambda>_. Some file" None True SeekRead 3 0 0 "guard_new True" "[]"] t(3) toy_facts(7) [of "''t''"]
  obtain s' where "open_sync (toy_env toy_entry (sst_meta t)) (\<lambda>_. Some file)
      \<lparr>rs_tab = sst_new True ''t'' SeekRead 3 True 0 0, rs_cache = None, rs_guard = guard_new True\<rparr> = Some (Inr (), s')"
    "sst_meta (rs_tab s') = sst_meta t"
    "\<exists>s''. sst_get_all_entries (toy_env toy_entry (sst_meta t)) (\<lambda>_. Some file) s' = Some (Inr [toy_entry], s'')"
    by auto
  then show ?thesis by blast
qed

end
