(* ===== verification/SSTable_Faults.thy ===== *)
theory SSTable_Faults
  imports SSTable_Reopen
begin

text \<open>
  Scans of a reopened table, and the tables the code writes and cannot read back: entries whose
  value is a JSON document, metadata longer than a chunk of the scan, a smallest key that makes a
  suffix of the metadata parse, and an index entry that points past the data.
\<close>

text \<open>
  C18: scans.  On a reopened table a prefix scan returns exactly the entries with the prefix, in key
  order, with their values and tombstone marks; a range scan those from the start up to the
  exclusive bound derived from the end; the key-only prefix scan returns the tombstoned keys too.
\<close>

theorem sstable_scans:
  assumes w: "table_written E t0 es t file" and live: "\<not> sst_marked t" and clean: "meta_clean E (sst_meta t)"
    and rb: "\<forall>e \<in> set es. reads_back E e" and fs: "fs (sst_path t) = Some file"
    and co: "fresh_cache (sst_path t) co"
  shows "\<exists>s'. open_sync E fs \<lparr>rs_tab = sst_new linux (sst_path t) mode r True level now, rs_cache = co,
        rs_guard = g\<rparr> = Some (Inr (), s')
     \<and> (\<exists>s''. sst_scan_prefix_layer E fs prefix s' = Some (Inr (map (\<lambda>e. (en_key e, en_value e, en_deleted e))
           (filter (\<lambda>e. starts_with (en_key e) prefix) es)), s''))
     \<and> (\<exists>s''. sst_scan_range_layer E fs start end' s' = Some (Inr (map (\<lambda>e. (en_key e, en_value e, en_deleted e))
           (filter (\<lambda>e. start \<le> en_key e
              \<and> (case exclusive_range_end end' of None \<Rightarrow> True | Some b \<Rightarrow> en_key e < b)) es)), s''))
     \<and> (\<exists>s''. sst_scan_prefix E fs prefix s'
           = Some (Inr (map en_key (filter (\<lambda>e. starts_with (en_key e) prefix) es)), s''))"
proof -
  let ?t2 = "sst_new linux (sst_path t) mode r True level now"
  let ?v = "written_view E t file (cache_src co)"
  let ?row = "\<lambda>e. (en_key e, en_value e, en_deleted e)"
  have m: "sst_marked t = sst_marked ?t2" "sst_path ?t2 = sst_path t" using live by (simp_all add: sst_new_def)
  obtain s' where s': "open_sync E fs \<lparr>rs_tab = ?t2, rs_cache = co, rs_guard = g\<rparr> = Some (Inr (), s')"
      "serves E fs ?v s'"
    using reopened_serves [OF w refl m(1) clean fresh_new [of fs "sst_path t" "file"] m(2) co] fs by blast
  note f = written_facts(1) [OF w] written_facts(2) [OF w, of "cache_src co"]
  have layer: "layer_of E xs = map ?row xs" if "set xs \<subseteq> set es" for xs
    using that rb by (induction xs) (auto simp: layer_of_def reads_back_def)
  have "\<exists>s''. sst_scan_prefix_layer E fs prefix s'
      = Some (Inr (map ?row (filter (\<lambda>e. starts_with (en_key e) prefix) es)), s'')"
    using runs_scan_prefix_layer [OF f, of fs prefix] s'(2) layer [of "filter (\<lambda>e. starts_with (en_key e) prefix) es"]
    by (auto simp: runs_def)
  moreover have "\<exists>s''. sst_scan_range_layer E fs start end' s' = Some (Inr (map ?row (filter (\<lambda>e. start \<le> en_key e
              \<and> (case exclusive_range_end end' of None \<Rightarrow> True | Some b \<Rightarrow> en_key e < b)) es)), s'')"
    using runs_scan_range_layer [OF f, of fs start end'] s'(2) layer [of "filter (\<lambda>e. start \<le> en_key e
              \<and> (case exclusive_range_end end' of None \<Rightarrow> True | Some b \<Rightarrow> en_key e < b)) es"]
    by (auto simp: runs_def)
  moreover have "\<exists>s''. sst_scan_prefix E fs prefix s'
      = Some (Inr (map en_key (filter (\<lambda>e. starts_with (en_key e) prefix) es)), s'')"
    using runs_scan_prefix [OF f, of fs prefix] s'(2) by (auto simp: runs_def)
  ultimately show ?thesis using s'(1) by blast
qed

theorem sstable_scans_witness:
  "\<exists>E file s' s''. open_sync E (\<lambda>_. Some file) \<lparr>rs_tab = sst_new True ''t'' SeekRead 3 True 0 0, rs_cache = None,
        rs_guard = guard_new True\<rparr> = Some (Inr (), s')
     \<and> sst_scan_prefix_layer E (\<lambda>_. Some file) [97] s' = Some (Inr [([97], VInt64 5 :: nat val, False)], s'')"
proof -
  obtain t "file" where t: "table_written (toy_env toy_entry (sst_meta t)) (sst_new True ''t'' SeekRead 3 True 0 0)
      [toy_entry] t file" "\<not> sst_marked t" "sst_path t = ''t''" "meta_clean (toy_env toy_entry (sst_meta t)) (sst_meta t)"
    using toy_written by blast
  let ?E = "toy_env toy_entry (sst_meta t)"
  have rb: "\<forall>e \<in> set [toy_entry]. reads_back ?E e" using toy_facts(3) by simp
  from sstable_scans [OF t(1,2,4) rb, of "\<lambda>_. Some file" None True SeekRead 3 0 0 "guard_new True" "[97]" "[]" "[]"]
  obtain s' s'' where "open_sync ?E (\<lambda>_. Some file)
      \<lparr>rs_tab = sst_new True ''t'' SeekRead 3 True 0 0, rs_cache = None, rs_guard = guard_new True\<rparr> = Some (Inr (), s')"
    "sst_scan_prefix_layer ?E (\<lambda>_. Some file) [97] s' = Some (Inr [([97], VInt64 5, False)], s'')"
    using t(3) toy_facts(7) [of "''t''"] by (auto simp: toy_entry_def starts_with_def)
  then show ?thesis by blast
qed

subsection \<open>Values that are written and cannot be read\<close>

lemma runs_read_all_fail:
  assumes env: "env_ok E" and src: "src_ok E v" and small: "length (vw_file v) < 18446744073709551616"
    and meta: "sm_index_offset (vw_meta v) = sm_file_size (vw_meta v)" and live: "\<not> vw_marked v"
  shows "list_all2 (located E (vw_file v)) es ps \<Longrightarrow>
    \<forall>p \<in> set ps. unat (fst (snd p)) < sm_index_offset (vw_meta v) \<Longrightarrow> \<exists>e \<in> set es. \<exists>err. read_back E e = Inl err \<Longrightarrow>
    runs (serves E fs v) (read_all E fs ps) (Inl (Internal ''Failed to read key''))"
proof (induction es ps rule: list_all2_induct)
  case (Cons e es p ps)
  obtain k off l where p: "p = (k, off, l)" by (cases p)
  note rd = located_read [OF env src Cons(1) [unfolded p] small]
  let ?rest = "io_match (try_read_entry E fs (unat off) (unat l))
      (\<lambda>e. io_bind (read_all E fs ps) (\<lambda>r. io_ret (e # r))) (\<lambda>_. io_err (Internal ''Failed to read key''))"
  have body: "runs (serves E fs v) ?rest (Inl (Internal ''Failed to read key''))"
  proof (cases "read_back E e")
    case (Inl err)
    with rd(1) have "runs (serves E fs v) (try_read_entry E fs (unat off) (unat l)) (Inl err)" by simp
    from runs_match_err [OF this runs_err] show ?thesis .
  next
    case (Inr e')
    with Cons have "runs (serves E fs v) (read_all E fs ps) (Inl (Internal ''Failed to read key''))" by simp
    note tl = runs_bind_err [OF this]
    from Inr rd(1) have "runs (serves E fs v) (try_read_entry E fs (unat off) (unat l)) (Inr e')" by simp
    from runs_match [OF this tl] show ?thesis .
  qed
  show ?case
    unfolding p read_all.simps
  proof (rule runs_tab)
    fix s assume "serves E fs v s"
    then show "runs (serves E fs v) (if sst_marked (id (rs_tab s))
        then io_err (Internal ''marked for deletion during get_all_entries'')
     else if sm_file_size (sst_meta (id (rs_tab s))) < unat off then io_err (Internal ''Invalid offset'')
     else if (\<not> sst_compressed (id (rs_tab s)) \<and> unat l = 0) \<or> max_entry < unat l
     then io_err (Internal ''Invalid entry size'') else ?rest) (Inl (Internal ''Failed to read key''))"
      using body Cons(4) meta live rd(3) by (simp add: p serves_def Let_def not_less)
  qed
qed simp

lemma runs_get_all_fail:
  assumes env: "env_ok E" and v: "view_of E es v" and bad: "e \<in> set es" "read_back E e = Inl err"
    and live: "\<not> vw_marked v"
  shows "runs (serves E fs v) (sst_get_all_entries E fs) (Inl (Internal ''Failed to read key''))"
  unfolding sst_get_all_entries_def
proof (rule runs_tab)
  fix s assume s: "serves E fs v s"
  let ?I = "serves E fs v" and ?ps = "fi_entries (vw_index v)"
  have la: "list_all2 (located E (vw_file v)) es ?ps" "src_ok E v" "fi_ok (vw_index v)"
    "length (vw_file v) < 18446744073709551616" "sm_index_offset (vw_meta v) = sm_file_size (vw_meta v)"
    "\<forall>p \<in> set ?ps. unat (fst (snd p)) < sm_index_offset (vw_meta v)"
    using v unfolding view_of_def by blast+
  have idx: "runs ?I (index_guard E fs) (Inr (vw_index v))"
    by (rule runs_index [OF env]) (use v in \<open>simp add: view_of_def\<close>)
  have locs: "runs ?I (io_of (collect_locs (vw_index v) (\<lambda>_. True) 0)) (Inr ?ps)"
    using collect_locs_eq [OF la(3), of "\<lambda>_. True" 0] by (intro runs_of) (simp add: comp_def)
  have "\<exists>e \<in> set es. \<exists>err. read_back E e = Inl err" using bad by blast
  note fail = runs_read_all_fail [OF env la(2,4,5) live la(1,6) this]
  have all: "runs ?I (without_cache (read_all E fs ?ps)) (Inl (Internal ''Failed to read key''))"
    by (rule runs_without_cache [OF fail]) (simp_all add: serves_def Let_def)
  have body: "runs ?I (io_bind (index_guard E fs) (\<lambda>idx.
       io_bind (io_of (collect_locs idx (\<lambda>_. True) 0)) (\<lambda>ps.
       io_bind (without_cache (read_all E fs ps)) (\<lambda>es.
       if length es \<noteq> length ps then io_err (Internal ''partial read'') else io_ret es))))
       (Inl (Internal ''Failed to read key''))"
    by (rule runs_bind [OF idx], rule runs_bind [OF locs], rule runs_bind_err [OF all])
  show "runs ?I (if \<not> sst_ready (id (rs_tab s))
      then io_err (Internal ''Cannot read all entries from SSTable that is not ready'')
     else if sst_marked (id (rs_tab s))
      then io_err (Internal ''Cannot read all entries from SSTable marked for deletion'')
     else io_bind (index_guard E fs) (\<lambda>idx.
       io_bind (io_of (collect_locs idx (\<lambda>_. True) 0)) (\<lambda>ps.
       io_bind (without_cache (read_all E fs ps)) (\<lambda>es.
       if length es \<noteq> length ps then io_err (Internal ''partial read'') else io_ret es))))
       (Inl (Internal ''Failed to read key''))"
    using s live body by (simp add: serves_def Let_def)
qed

text \<open>
  an entry that serialises but does not deserialise, as \<open>bincode\<close> does with a JSON value, is
  written without an error and then lost: looking it up fails, a scan leaves its key out without a
  word, and compaction can no longer read the table at all.
\<close>

theorem json_value_unreadable:
  assumes w: "table_written E (sst_new linux p mode r True level now) es t file"
    and e: "e \<in> set es" "en_value e = VJson j" "de_entry E (the (ser_entry E e)) = None"
    and fs: "fs p = Some file" and co: "fresh_cache p co"
  shows "\<exists>s1 rows s2 s3. lookup_sync E fs (en_key e) \<lparr>rs_tab = t, rs_cache = co, rs_guard = g\<rparr>
        = Some (Inl (Serialization ''Failed to deserialize entry''), s1)
     \<and> sst_scan_prefix_layer E fs (en_key e) s1 = Some (Inr rows, s2) \<and> en_key e \<notin> fst ` set rows
     \<and> sst_get_all_entries E fs s2 = Some (Inl (Internal ''Failed to read key''), s3)"
proof -
  let ?v = "written_view E t file (cache_src co)" and ?t0 = "sst_new linux p mode r True level now"
  note f = written_facts(1) [OF w] written_facts(2) [OF w, of "cache_src co"]
  have s: "serves E fs ?v \<lparr>rs_tab = t, rs_cache = co, rs_guard = g\<rparr>"
    by (rule written_serves) (rule w, rule fs, rule co)
  have bad: "read_back E e = Inl (Serialization ''Failed to deserialize entry'')"
    using e(3) by (simp add: read_back_def de_entry_res_def)
  have "sorted_entries es" using w by (simp add: table_written_def)
  then have dist: "distinct (map en_key es)" by (simp add: sorted_entries_def strict_sorted_iff)
  have "ent_map es (en_key e) = Some e"
    unfolding ent_map_def by (rule map_of_is_SomeI) (use dist e(1) in \<open>auto simp: comp_def\<close>)
  then have ans: "table_answer E es (en_key e) = Inl (Serialization ''Failed to deserialize entry'')"
    by (simp add: table_answer_def bad)
  obtain s1 where s1: "lookup_sync E fs (en_key e) \<lparr>rs_tab = t, rs_cache = co, rs_guard = g\<rparr>
        = Some (Inl (Serialization ''Failed to deserialize entry''), s1)" "serves E fs ?v s1"
    using runs_lookup_sync [OF f, of fs "en_key e"] s by (auto simp: runs_def ans)
  let ?rows = "layer_of E (filter (\<lambda>x. starts_with (en_key x) (en_key e)) es)"
  obtain s2 where s2: "sst_scan_prefix_layer E fs (en_key e) s1 = Some (Inr ?rows, s2)" "serves E fs ?v s2"
    using runs_scan_prefix_layer [OF f, of fs "en_key e"] s1(2) by (auto simp: runs_def)
  have "x = e" if "x \<in> set es" "en_key x = en_key e" for x
    using dist e(1) that by (auto simp: distinct_map inj_on_def)
  then have "en_key e \<notin> fst ` set ?rows"
    using bad by (auto simp: layer_of_def split: sum.splits)
  moreover have "\<not> vw_marked ?v"
    using w write_view(7) [of E es ?t0 t "file"] by (simp add: written_view_def table_written_def sst_new_def)
  ultimately show ?thesis
    using s1(1) s2 runs_get_all_fail [OF f e(1) bad, of fs] by (fastforce simp: runs_def)
qed

definition json_entry :: "nat entry" where
  "json_entry = \<lparr>en_key = [106], en_value = VJson JNull, en_ts = 1, en_deleted = False\<rparr>"

definition json_env :: "nat env" where
  "json_env = (toy_env json_entry undefined)\<lparr>de_entry := (\<lambda>_. None)\<rparr>"

theorem json_value_unreadable_witness:
  "\<exists>t file s. lookup_sync json_env (\<lambda>_. Some file) [106] \<lparr>rs_tab = t, rs_cache = None, rs_guard = guard_new True\<rparr>
     = Some (Inl (Serialization ''Failed to deserialize entry''), s)"
proof -
  let ?t0 = "sst_new True ''t'' SeekRead 3 True 0 0"
  have ok: "env_ok json_env" "\<forall>e \<in> set [json_entry]. entry_ok json_env e" "[json_entry] \<noteq> []"
      "sorted_entries [json_entry]" "index_fits [json_entry]" "\<forall>M. ser_meta json_env M \<noteq> None"
    using toy_facts(1,2) [of json_entry undefined]
    by (simp_all add: json_env_def env_ok_def entry_ok_def sorted_entries_def index_fits_def json_entry_def toy_env_def)
  obtain t "file" where w: "write_entries json_env ?t0 [json_entry] = Inr (t, Some file)"
    using write_total [OF ok(1,3,4,2,5,6)] by blast
  have "length file < 18446744073709551616"
    using w length_bf_to_bytes [of "\<lambda>_ _. 0" "[[106]]" 1]
    by (auto simp: write_entries_def write_entry_def write_snappy_block_def snap_compress_def ws_start_def frame_def
        toy_env_def json_env_def Let_def sst_new_def json_entry_def from_sorted_def fi_push_def fi_record_def
        fi_empty_def fi_encode_def fi_magic_def sst_header_def SST_COMPRESSED_MAGIC_def)
  with ok w have tw: "table_written json_env ?t0 [json_entry] t file" by (simp add: table_written_def)
  have e: "json_entry \<in> set [json_entry]" "en_value json_entry = VJson JNull"
      "de_entry json_env (the (ser_entry json_env json_entry)) = None"
    by (simp_all add: json_entry_def json_env_def)
  have "fresh_cache ''t'' None" by (rule toy_facts(7))
  from json_value_unreadable [OF tw e, of "\<lambda>_. Some file" None "guard_new True", OF refl this]
  show ?thesis by (auto simp: json_entry_def)
qed

subsection \<open>Metadata longer than a chunk\<close>

text \<open>A decoder cannot return strings longer than its input: the fixed fields of the metadata take 92
  bytes and the two keys their length.\<close>

definition meta_decoder_bounded :: "'n env \<Rightarrow> bool" where
  "meta_decoder_bounded E \<longleftrightarrow> (\<forall>b m. de_meta E b = Some m \<longrightarrow>
     92 + length (sm_smallest m) + length (sm_largest m) \<le> length b)"

lemma scan_meta_none: "scan_meta E file 0 = Inl (Corruption ''Failed to read metadata'')"
  by (simp add: scan_meta.simps [of E "file" 0])

lemma scan_chunk_de: "scan_chunk E chunk i = Some (j, m) \<Longrightarrow>
  de_meta E (drop j (take (length chunk - 4) chunk)) = Some m"
  by (induction i) (auto split: option.splits)

lemma scan_meta_bounded:
  assumes "sys_ok (sys_read E)" and "meta_decoder_bounded E"
  shows "scan_meta E file pos = Inr (m, off, n) \<Longrightarrow> length (sm_smallest m) + length (sm_largest m) \<le> 1952"
proof (induction pos rule: less_induct)
  case (less pos)
  define k where "k = min pos 2048"
  have pos: "pos \<noteq> 0" using less.prems scan_meta_none [of E "file"] by (intro notI) simp
  then obtain chunk where rd: "read_exact_at (sys_read E) file (pos - k) k = Inr chunk"
    using less.prems by (auto simp: scan_meta.simps [of E "file" pos] k_def Let_def split: sum.splits)
  then have len: "length chunk \<le> 2048"
    using read_exact_at_spec [OF assms(1), of "file" "pos - k" k]
    by (auto simp: k_def split: if_splits)
  show ?case
  proof (cases "scan_chunk E chunk (k - 4)")
    case None
    then have "scan_meta E file (pos - k) = Inr (m, off, n)"
      using less.prems rd pos by (simp add: scan_meta.simps [of E "file" pos] k_def [symmetric] Let_def)
    moreover have "pos - k < pos" using pos by (simp add: k_def)
    ultimately show ?thesis by (rule less.IH [rotated])
  next
    case (Some p)
    obtain j m' where p: "p = (j, m')" by (cases p)
    with Some less.prems rd pos have "m' = m"
      by (simp add: scan_meta.simps [of E "file" pos] k_def [symmetric] Let_def)
    with scan_chunk_de [OF Some [unfolded p]] assms(2)
    have "92 + length (sm_smallest m) + length (sm_largest m) \<le> length chunk - 4"
      by (auto simp: meta_decoder_bounded_def dest!: spec)
    with len show ?thesis by simp
  qed
qed

text \<open>What opening a fresh handle does when the scan finds nothing.\<close>

lemma open_sync_scan_fails:
  assumes env: "env_ok E" and fresh: "fresh_handle fs file (rs_tab s)" and hd: "file = sst_header @ rest"
    and scan: "scan_meta E file (length file) = Inl e"
  shows "\<exists>s'. open_sync E fs s = Some (Inl e, s')"
proof -
  let ?r = "sst_reader (rs_tab s)"
  have r: "reads fs file ?r" "fs (rd_path ?r) = Some file" "\<not> sst_ready (rs_tab s)"
    using fresh by (auto simp: fresh_handle_def)
  have "take 4 file = SST_COMPRESSED_MAGIC" "4 \<le> length file"
    by (simp_all add: hd sst_header_def SST_COMPRESSED_MAGIC_def)
  then have mag: "read_exact_at (sys_read E) file 0 4 = Inr SST_COMPRESSED_MAGIC"
    by (simp add: read_exact_at_spec [OF env_sys [OF env]])
  note op = reads_open [OF r(1)]
  show ?thesis
    using r(2,3)
    by (simp add: op open_sync_def try_read_metadata_def io_bind_def io_match_def tab_def io_get_def io_ret_def
        io_err_def rd_op_def rd_exact_def rd_size_def file_size_blocking_def rd_scan_def set_tab_def io_mod_def mag scan)
qed

lemma scan_meta_room:
  assumes "sys_ok (sys_read E)"
  shows "pos \<le> length file \<Longrightarrow> scan_meta E file pos = Inr (m, off, n) \<Longrightarrow> n \<noteq> 0 \<and> off + n + 4 \<le> length file"
proof (induction pos rule: less_induct)
  case (less pos)
  define k where "k = min pos 2048"
  have pos: "pos \<noteq> 0" using less.prems scan_meta_none [of E "file"] by (intro notI) simp
  have rd: "read_exact_at (sys_read E) file (pos - k) k = Inr (take k (drop (pos - k) file))"
    using less.prems(1) by (simp add: read_exact_at_spec [OF assms] k_def)
  let ?chunk = "take k (drop (pos - k) file)"
  have bound: "scan_chunk E c i = Some (j, m') \<Longrightarrow> j < i" for c i j m'
    by (induction i) (auto split: option.splits)
  show ?case
  proof (cases "scan_chunk E ?chunk (k - 4)")
    case None
    then have "scan_meta E file (pos - k) = Inr (m, off, n)"
      using less.prems rd pos by (simp add: scan_meta.simps [of E "file" pos] k_def [symmetric] Let_def)
    moreover have "pos - k < pos" "pos - k \<le> length file" using pos less.prems(1) by (simp_all add: k_def)
    ultimately show ?thesis using less.IH by blast
  next
    case (Some p)
    obtain j m' where p: "p = (j, m')" by (cases p)
    with Some less.prems rd pos have "off = pos - k + j" "n = k - 4 - j"
      by (simp_all add: scan_meta.simps [of E "file" pos] k_def [symmetric] Let_def)
    moreover have "j < k - 4" using bound Some p by blast
    moreover have "k \<le> pos" by (simp add: k_def)
    ultimately show ?thesis using less.prems(1) by auto
  qed
qed

text \<open>
  C39: a table whose smallest and largest key together exceed 1952 bytes is written without an error
  and can never be opened with its own metadata again: each chunk of the scan is parsed alone, and
  no chunk holds all of it.
\<close>

theorem long_keys_cannot_reopen:
  assumes w: "table_written E t0 es t file" and de: "meta_decoder_bounded E"
    and long: "1952 < length (en_key (hd es)) + length (en_key (last es))" and fs: "fs p = Some file"
  shows "\<not> (\<exists>s'. open_sync E fs \<lparr>rs_tab = sst_new linux p mode r True level now, rs_cache = co, rs_guard = g\<rparr>
       = Some (Inr (), s') \<and> sm_smallest (sst_meta (rs_tab s')) = en_key (hd es)
         \<and> sm_largest (sst_meta (rs_tab s')) = en_key (last es))"
proof -
  let ?s = "\<lparr>rs_tab = sst_new linux p mode r True level now, rs_cache = co, rs_guard = g\<rparr>"
  have env: "env_ok E" using w by (simp add: table_written_def)
  obtain rest where hd: "file = sst_header @ rest"
    using w write_view(2) [of E es t0 t "file"] by (auto simp: table_written_def)
  have fresh: "fresh_handle fs file (rs_tab ?s)" using fs by simp
  show ?thesis
  proof (cases "scan_meta E file (length file)")
    case (Inl e)
    from open_sync_scan_fails [OF env fresh hd this] show ?thesis by auto
  next
    case (Inr q)
    obtain m off n where q: "q = (m, off, n)" by (cases q)
    note scan = Inr [unfolded q]
    have "length (sm_smallest m) + length (sm_largest m) \<le> 1952"
      by (rule scan_meta_bounded [OF env_sys [OF env] de scan])
    moreover have "n \<noteq> 0" "off + n + 4 \<le> length file"
      using scan_meta_room [OF env_sys [OF env] order_refl scan] by simp_all
    note open_sync_eq [OF env fresh hd scan this]
    ultimately show ?thesis using long by (auto simp: Let_def split: if_splits)
  qed
qed

definition long_entry :: "nat entry" where
  "long_entry = \<lparr>en_key = replicate 1000 97, en_value = VNull, en_ts = 1, en_deleted = False\<rparr>"

definition long_env :: "nat env" where
  "long_env = (toy_env long_entry undefined)\<lparr>de_meta := (\<lambda>_. None)\<rparr>"

theorem long_keys_cannot_reopen_witness:
  "\<exists>t file. write_entries long_env (sst_new True ''t'' SeekRead 3 True 0 0) [long_entry] = Inr (t, Some file)
     \<and> \<not> (\<exists>s'. open_sync long_env (\<lambda>_. Some file) \<lparr>rs_tab = sst_new True ''t'' SeekRead 3 True 0 0,
            rs_cache = None, rs_guard = guard_new True\<rparr> = Some (Inr (), s')
          \<and> sm_smallest (sst_meta (rs_tab s')) = replicate 1000 97 \<and> sm_largest (sst_meta (rs_tab s')) = replicate 1000 97)"
proof -
  let ?t0 = "sst_new True ''t'' SeekRead 3 True 0 0"
  have ok: "env_ok long_env" "\<forall>e \<in> set [long_entry]. entry_ok long_env e" "[long_entry] \<noteq> []"
      "sorted_entries [long_entry]" "index_fits [long_entry]" "\<forall>M. ser_meta long_env M \<noteq> None"
    using toy_facts(1,2) [of long_entry undefined]
    by (simp_all add: long_env_def env_ok_def entry_ok_def sorted_entries_def index_fits_def long_entry_def toy_env_def)
  obtain t "file" where w: "write_entries long_env ?t0 [long_entry] = Inr (t, Some file)"
    using write_total [OF ok(1,3,4,2,5,6)] by blast
  have "length file < 18446744073709551616"
    using w length_bf_to_bytes [of "\<lambda>_ _. 0" "[replicate 1000 97]" 1]
    by (auto simp: write_entries_def write_entry_def write_snappy_block_def snap_compress_def ws_start_def frame_def
        toy_env_def long_env_def Let_def sst_new_def long_entry_def from_sorted_def fi_push_def fi_record_def
        fi_empty_def fi_encode_def fi_magic_def sst_header_def SST_COMPRESSED_MAGIC_def)
  with ok w have tw: "table_written long_env ?t0 [long_entry] t file" by (simp add: table_written_def)
  have "meta_decoder_bounded long_env" by (simp add: meta_decoder_bounded_def long_env_def)
  from long_keys_cannot_reopen [OF tw this, of "\<lambda>_. Some file" "''t''" True SeekRead 3 0 0 None "guard_new True"] w
  show ?thesis by (auto simp: long_entry_def)
qed

subsection \<open>A suffix of the metadata that parses\<close>

text \<open>The layout \<open>bincode\<close> documents for the struct: fixed-width little-endian integers, and strings
  as a 64-bit length and the bytes.\<close>

definition meta_bytes :: "sst_meta \<Rightarrow> bytes" where
  "meta_bytes m = le_bytes 8 (sm_entry_count m) @ le_bytes 8 (sm_file_size m)
     @ le_bytes 8 (length (sm_smallest m)) @ sm_smallest m @ le_bytes 8 (length (sm_largest m)) @ sm_largest m
     @ le_bytes 8 (sm_level m) @ u32_to_le (sm_checksum m) @ le_bytes 8 (sm_created m)
     @ le_bytes 8 (sm_index_offset m) @ le_bytes 8 (sm_index_size m) @ le_bytes 8 (sm_bloom_offset m)
     @ le_bytes 8 (sm_bloom_size m) @ le_bytes 8 (sm_bloom_hashes m)"

lemma length_meta_bytes: "length (meta_bytes m) = 92 + length (sm_smallest m) + length (sm_largest m)"
  by (simp add: meta_bytes_def)

definition meta_range :: "sst_meta \<Rightarrow> bool" where
  "meta_range m \<longleftrightarrow> (\<forall>n \<in> {sm_entry_count m, sm_file_size m, length (sm_smallest m), length (sm_largest m), sm_level m,
     sm_created m, sm_index_offset m, sm_index_size m, sm_bloom_offset m, sm_bloom_size m, sm_bloom_hashes m}.
     n < 256 ^ 8)"

definition bincode_meta :: "'n env \<Rightarrow> bool" where
  "bincode_meta E \<longleftrightarrow> (\<forall>m. meta_range m \<longrightarrow> ser_meta E m = Some (meta_bytes m)
     \<and> (\<forall>r. de_meta E (meta_bytes m @ r) = Some m)) \<and> meta_decoder_bounded E"

lemma le_bytes_le_val: "le_bytes (length bs) (le_val bs) = bs"
proof (induction bs)
  case (Cons b bs)
  have "unat b < 2 ^ LENGTH(8)" by (rule unsigned_less)
  then have "unat b < 256" by simp
  with Cons show ?case by simp
qed simp

lemma le_bytes_of: "length bs = n \<Longrightarrow> le_bytes n (le_val bs) = bs \<and> le_val bs < 256 ^ n"
  using le_bytes_le_val le_val_bound by blast

lemma le_bytes_split: "le_bytes (Suc n) v = hd (le_bytes (Suc n) v) # tl (le_bytes (Suc n) v)"
  by simp

lemma le_bytes_one_zero: "le_bytes 8 1 @ [0] = 1 # le_bytes 8 0"
  by code_simp

text \<open>With the one-byte key NUL as the smallest, dropping one byte of the metadata leaves metadata
  again, with the empty key as the smallest.\<close>

lemma nul_key_suffix:
  assumes "sm_smallest m = [0]" and "meta_range m"
  shows "\<exists>m'. meta_range m' \<and> drop 1 (meta_bytes m) = meta_bytes m'"
proof -
  define c where "c = le_bytes 8 (sm_entry_count m)"
  define f where "f = le_bytes 8 (sm_file_size m)"
  define c' where "c' = le_val (tl c @ [hd f])"
  define f' where "f' = le_val (tl f @ [1])"
  have cl: "length c = 8" "length f = 8" by (simp_all add: c_def f_def)
  then have ne: "c \<noteq> []" "f \<noteq> []" by auto
  have c': "le_bytes 8 c' = tl c @ [hd f] \<and> c' < 256 ^ 8"
    unfolding c'_def by (rule le_bytes_of) (simp add: cl)
  have f': "le_bytes 8 f' = tl f @ [1] \<and> f' < 256 ^ 8"
    unfolding f'_def by (rule le_bytes_of) (simp add: cl)
  let ?m = "m\<lparr>sm_entry_count := c', sm_file_size := f', sm_smallest := []\<rparr>"
  have one: "le_bytes 8 (length (sm_smallest m)) @ sm_smallest m = 1 # le_bytes 8 0"
    using le_bytes_one_zero by (simp add: assms(1) del: le_bytes.simps)
  define rest where "rest = le_bytes 8 (length (sm_largest m)) @ sm_largest m
     @ le_bytes 8 (sm_level m) @ u32_to_le (sm_checksum m) @ le_bytes 8 (sm_created m)
     @ le_bytes 8 (sm_index_offset m) @ le_bytes 8 (sm_index_size m) @ le_bytes 8 (sm_bloom_offset m)
     @ le_bytes 8 (sm_bloom_size m) @ le_bytes 8 (sm_bloom_hashes m)"
  have m: "meta_bytes m = c @ f @ (le_bytes 8 (length (sm_smallest m)) @ sm_smallest m) @ rest"
    by (simp add: meta_bytes_def c_def f_def rest_def)
  have "drop 1 (meta_bytes m) = tl c @ f @ (1 # le_bytes 8 0) @ rest"
    unfolding m one using ne(1) by (cases c) simp_all
  also have "\<dots> = (tl c @ [hd f]) @ (tl f @ [1]) @ le_bytes 8 0 @ rest"
    using ne(2) by simp
  also have "\<dots> = meta_bytes ?m"
    using c' f' by (simp add: meta_bytes_def rest_def)
  finally have "drop 1 (meta_bytes m) = meta_bytes ?m" .
  moreover have "meta_range ?m" using assms c' f' by (simp add: meta_range_def)
  ultimately show ?thesis by blast
qed

text \<open>
  a table whose smallest key is the one-byte key NUL cannot be opened with its own metadata: the
  scan meets a shorter suffix of the metadata that parses first.
\<close>

theorem nul_key_cannot_reopen:
  assumes w: "table_written E t0 es t file" and bin: "bincode_meta E" and range: "meta_range (sst_meta t)"
    and nul: "en_key (hd es) = [0]" and fit: "length (meta_bytes (sst_meta t)) \<le> 2044" and fs: "fs p = Some file"
  shows "\<not> (\<exists>s'. open_sync E fs \<lparr>rs_tab = sst_new linux p mode r True level now, rs_cache = co, rs_guard = g\<rparr>
       = Some (Inr (), s') \<and> sst_meta (rs_tab s') = sst_meta t)"
proof -
  let ?s = "\<lparr>rs_tab = sst_new linux p mode r True level now, rs_cache = co, rs_guard = g\<rparr>"
  let ?b = "meta_bytes (sst_meta t)"
  have env: "env_ok E" using w by (simp add: table_written_def)
  have small: "sm_smallest (sst_meta t) = [0]"
    using w write_view(1) [of E es t0 t "file" undefined] nul
    by (auto simp: table_written_def view_of_def written_view_def)
  obtain m' where m': "meta_range m'" "drop 1 ?b = meta_bytes m'" using nul_key_suffix [OF small range] by blast
  have ser: "ser_meta E (sst_meta t) = Some ?b" and de': "de_meta E (drop 1 ?b) = Some m'"
    using bin range m' append_Nil2 by (auto simp: bincode_meta_def) (metis append_Nil2)+
  obtain body where f: "file = sst_header @ body @ ?b @ u32_to_le (crc E ?b)"
    using w write_view(2) [of E es t0 t "file"] ser by (auto simp: table_written_def)
  define D where "D = {d. 0 < d \<and> d < length ?b \<and> de_meta E (drop d ?b) \<noteq> None}"
  have "length ?b > 92" using small by (simp add: meta_bytes_def)
  then have D: "1 \<in> D" "finite D" using de' by (auto simp: D_def)
  define d where "d = Max D"
  have dD: "d \<in> D" unfolding d_def by (rule Max_in) (use D in auto)
  have last: "de_meta E (drop j ?b) = None" if "d < j" "j < length ?b" for j
  proof (rule ccontr)
    assume "de_meta E (drop j ?b) \<noteq> None"
    with that dD have "j \<in> D" by (simp add: D_def)
    then have "j \<le> d" unfolding d_def by (rule Max_ge [OF D(2)])
    with that show False by simp
  qed
  from dD obtain M where M: "de_meta E (drop d ?b) = Some M" "0 < d" "d < length ?b" by (auto simp: D_def)
  have neq: "M \<noteq> sst_meta t"
  proof
    assume "M = sst_meta t"
    then have "92 + length (sm_smallest (sst_meta t)) + length (sm_largest (sst_meta t)) \<le> length (drop d ?b)"
      using bin M(1) unfolding bincode_meta_def meta_decoder_bounded_def by blast
    then show False using M(2,3) by (simp add: length_meta_bytes)
  qed
  have f': "file = (sst_header @ body) @ ?b @ u32_to_le (crc E ?b)" using f by simp
  have scan: "scan_meta E file (length file) = Inr (M, length (sst_header @ body) + d, length ?b - d)"
    by (rule scan_meta_finds [OF env f' _ fit M(1,3) last]) simp_all
  have fresh: "fresh_handle fs file (rs_tab ?s)" using fs by simp
  have hd: "file = sst_header @ (body @ ?b @ u32_to_le (crc E ?b))" by (rule f)
  have n: "length ?b - d \<noteq> 0" "length (sst_header @ body) + d + (length ?b - d) + 4 \<le> length file"
    using M(3) f by simp_all
  from open_sync_eq [OF env fresh hd scan n] neq show ?thesis by (auto simp: Let_def split: if_splits)
qed

text \<open>A decoder of that layout, for the witness.\<close>

definition get_u64 :: "bytes \<Rightarrow> (nat \<times> bytes) option" where
  "get_u64 b = (if 8 \<le> length b then Some (le_val (take 8 b), drop 8 b) else None)"

definition get_u32 :: "bytes \<Rightarrow> (u32 \<times> bytes) option" where
  "get_u32 b = (if 4 \<le> length b then Some (u32_from_le (take 4 b), drop 4 b) else None)"

definition get_str :: "bytes \<Rightarrow> (bytes \<times> bytes) option" where
  "get_str b = (case get_u64 b of None \<Rightarrow> None
     | Some (n, b) \<Rightarrow> if n \<le> length b then Some (take n b, drop n b) else None)"

definition get_meta :: "bytes \<Rightarrow> sst_meta option" where
  "get_meta b = Option.bind (get_u64 b) (\<lambda>(ec, b). Option.bind (get_u64 b) (\<lambda>(fs, b).
     Option.bind (get_str b) (\<lambda>(sk, b). Option.bind (get_str b) (\<lambda>(lk, b).
     Option.bind (get_u64 b) (\<lambda>(lv, b). Option.bind (get_u32 b) (\<lambda>(cs, b).
     Option.bind (get_u64 b) (\<lambda>(cr, b). Option.bind (get_u64 b) (\<lambda>(io, b).
     Option.bind (get_u64 b) (\<lambda>(isz, b). Option.bind (get_u64 b) (\<lambda>(bo, b).
     Option.bind (get_u64 b) (\<lambda>(bs, b). Option.bind (get_u64 b) (\<lambda>(bh, b).
     Some \<lparr>sm_entry_count = ec, sm_file_size = fs, sm_smallest = sk, sm_largest = lk, sm_level = lv,
           sm_checksum = cs, sm_created = cr, sm_index_offset = io, sm_index_size = isz, sm_bloom_offset = bo,
           sm_bloom_size = bs, sm_bloom_hashes = bh\<rparr>))))))))))))"

lemma get_u64_le: "n < 256 ^ 8 \<Longrightarrow> get_u64 (le_bytes 8 n @ r) = Some (n, r)"
  by (simp add: get_u64_def le_val_le_bytes)

lemma get_u32_le: "get_u32 (u32_to_le w @ r) = Some (w, r)"
  by (simp add: get_u32_def)

lemma get_str_le: "length k < 256 ^ 8 \<Longrightarrow> get_str (le_bytes 8 (length k) @ k @ r) = Some (k, r)"
  by (simp add: get_str_def get_u64_le)

lemma get_meta_bytes: "meta_range m \<Longrightarrow> get_meta (meta_bytes m @ r) = Some m"
  by (simp add: meta_range_def get_meta_def meta_bytes_def get_u64_le get_u32_le get_str_le
      del: le_bytes.simps power.simps power_numeral)

lemma get_lens:
  "get_u64 b = Some (n, r) \<Longrightarrow> length b = 8 + length r"
  "get_u32 b = Some (w, r) \<Longrightarrow> length b = 4 + length r"
  "get_str b = Some (k, r) \<Longrightarrow> length b = 8 + length k + length r"
  by (auto simp: get_u64_def get_u32_def get_str_def split: if_splits option.splits)

lemma get_meta_len: "get_meta b = Some m \<Longrightarrow> 92 + length (sm_smallest m) + length (sm_largest m) \<le> length b"
  unfolding get_meta_def by (auto simp: bind_eq_Some_conv dest!: get_lens)

definition nul_entry :: "nat entry" where
  "nul_entry = \<lparr>en_key = [0], en_value = VNull, en_ts = 1, en_deleted = False\<rparr>"

definition nul_env :: "nat env" where
  "nul_env = (toy_env nul_entry undefined)\<lparr>ser_meta := (\<lambda>m. Some (meta_bytes m)), de_meta := get_meta\<rparr>"

theorem nul_key_cannot_reopen_witness:
  "\<exists>t file. write_entries nul_env (sst_new True ''t'' SeekRead 3 True 0 0) [nul_entry] = Inr (t, Some file)
     \<and> \<not> (\<exists>s'. open_sync nul_env (\<lambda>_. Some file) \<lparr>rs_tab = sst_new True ''t'' SeekRead 3 True 0 0,
            rs_cache = None, rs_guard = guard_new True\<rparr> = Some (Inr (), s') \<and> sst_meta (rs_tab s') = sst_meta t)"
proof -
  let ?t0 = "sst_new True ''t'' SeekRead 3 True 0 0"
  have ok: "env_ok nul_env" "\<forall>e \<in> set [nul_entry]. entry_ok nul_env e" "[nul_entry] \<noteq> []"
      "sorted_entries [nul_entry]" "index_fits [nul_entry]" "\<forall>M. ser_meta nul_env M \<noteq> None"
    using toy_facts(1,2) [of nul_entry undefined]
    by (simp_all add: nul_env_def env_ok_def entry_ok_def sorted_entries_def index_fits_def nul_entry_def toy_env_def)
  obtain t "file" where w: "write_entries nul_env ?t0 [nul_entry] = Inr (t, Some file)"
    using write_total [OF ok(1,3,4,2,5,6)] by blast
  have bloom: "bf_hashes (fold (bf_add (\<lambda>_ _. 0)) [[0]] (with_optimal_params 1)) = 7"
  proof -
    have "bf_ok (with_optimal_params 1)" by (simp add: with_optimal_params_def)
    from size_bf_adds [OF this, of "\<lambda>_ _. 0" "[[0]]"] show ?thesis
      by (simp add: with_optimal_params_def bf_new_def)
  qed
  have "length file < 18446744073709551616 \<and> meta_range (sst_meta t) \<and> length (meta_bytes (sst_meta t)) \<le> 2044"
    using w length_bf_to_bytes [of "\<lambda>_ _. 0" "[[0]]" 1] bloom
    by (auto simp: write_entries_def write_entry_def write_snappy_block_def snap_compress_def ws_start_def frame_def
        toy_env_def nul_env_def Let_def sst_new_def nul_entry_def from_sorted_def fi_push_def fi_record_def
        fi_empty_def fi_encode_def fi_magic_def sst_header_def SST_COMPRESSED_MAGIC_def length_meta_bytes
        meta_range_def)
  then have f: "length file < 18446744073709551616" "meta_range (sst_meta t)" "length (meta_bytes (sst_meta t)) \<le> 2044"
    by auto
  with ok w have tw: "table_written nul_env ?t0 [nul_entry] t file" by (simp add: table_written_def)
  have bin: "bincode_meta nul_env"
    using get_meta_bytes get_meta_len by (simp add: bincode_meta_def meta_decoder_bounded_def nul_env_def)
  have "en_key (hd [nul_entry]) = [0]" by (simp add: nul_entry_def)
  from nul_key_cannot_reopen [OF tw bin f(2) this f(3), of "\<lambda>_. Some file" "''t''" True SeekRead 3 0 0 None "guard_new True"] w
  show ?thesis by auto
qed

subsection \<open>An index entry past the data\<close>

text \<open>
  the two lookups disagree on a corrupt index.  Where the index sends a key past the data
  section, the asynchronous lookup reports corruption and the synchronous one, which the hot path
  uses, answers that the key does not exist.
\<close>

theorem bad_offset_hidden:
  assumes "sst_ready (rs_tab s)" and "key_may_exist E (rs_tab s) k" and "sst_index_loaded (rs_tab s)"
    and "fi_get (sst_index (rs_tab s)) k = Some (Some (off, l))"
    and "0 < sm_index_offset (sst_meta (rs_tab s))" and "sm_index_offset (sst_meta (rs_tab s)) \<le> unat off"
  shows "lookup_sync E fs k s = Some (Inr SMissing, s)
    \<and> lookup_pinned E fs k s = Some (Inl (Corruption ''Index offset is in index/metadata section''), s)"
  using assms
  by (simp add: lookup_sync_def lookup_pinned_def with_guard_def lookup_with_reader_guard_def index_guard_def
      ensure_index_loaded_def read_hit_sync_def read_hit_guarded_def guarded_err_def guard_decrement_def guard_new_def
      tab_def io_defs)

theorem bad_offset_hidden_witness:
  "\<exists>s. lookup_sync (toy_env toy_entry undefined) (\<lambda>_. None) [97] s = Some (Inr SMissing, s)
     \<and> fst (the (lookup_pinned (toy_env toy_entry undefined) (\<lambda>_. None) [97] s))
         = Inl (Corruption ''Index offset is in index/metadata section'')"
proof -
  let ?t = "(sst_new True ''t'' SeekRead 3 True 0 0)\<lparr>sst_ready := True, sst_index_loaded := True,
     sst_index := from_sorted [([97], (60, 0))], sst_meta := (sst_meta (sst_new True ''t'' SeekRead 3 True 0 0))
       \<lparr>sm_smallest := [97], sm_largest := [97], sm_index_offset := 50\<rparr>\<rparr>"
  let ?s = "\<lparr>rs_tab = ?t, rs_cache = None, rs_guard = guard_new True\<rparr>"
  have "fi_fits [([97], (60, 0))]" by (simp add: fi_fits_def bt_ok_def fi_recs_def fi_record_def)
  then have "fi_get (from_sorted [([97], (60, 0))]) [97] = Some (Some (60, 0))"
    using fi.get_map [OF fi_ok_from_sorted, of "[([97], (60, 0))]" "[97]"]
    by (simp add: fi_entries_from_sorted)
  with bad_offset_hidden [of ?s "toy_env toy_entry undefined" "[97]" 60 0 "\<lambda>_. None"]
  show ?thesis by (intro exI [of _ ?s]) (simp add: key_may_exist_def sst_new_def)
qed

end
