(* ===== verification/Levels.thy ===== *)
theory Levels
  imports Memtable SSTable_Correct
begin

text \<open>
  The levels of tables and the read path over them, \<open>crates/f4kvs-lsm/src/core/engine.rs\<close>.  A table
  is seen as the entries its file holds and what its handle knows of them; \<open>table_of\<close> is the view of
  a handle of theory \<open>SSTable\<close>, and \<open>runs_tb_lookup\<close> and its companions show that the operations of
  the handle answer as those of the view.  Closing and reopening file handles does not change an
  answer and is left out.
\<close>

record 'n table =
  tb_path :: path
  tb_entries :: "'n entry list"
  tb_size :: nat
  tb_count :: nat
  tb_smallest :: key
  tb_largest :: key
  tb_created :: nat
  tb_bloom :: "bloom option"
  tb_ready :: bool
  tb_marked :: bool
  tb_compressed :: bool
  tb_readers :: nat
  tb_fault :: "lsm_error option"

text \<open>\<open>rd_entry\<close> is what reading an entry back gives (\<open>read_back\<close> of the file format); a fault is an
  error every access to the file meets.\<close>

record 'n senv =
  hash_of :: "key \<Rightarrow> nat \<Rightarrow> u64"
  rd_entry :: "'n entry \<Rightarrow> 'n entry res"

definition tb_may :: "'n senv \<Rightarrow> 'n table \<Rightarrow> key \<Rightarrow> bool" where
  "tb_may S t k =
     (if \<not> tb_ready t then False
      else if k < tb_smallest t \<or> tb_largest t < k then False
      else case tb_bloom t of None \<Rightarrow> True | Some b \<Rightarrow> might_contain (hash_of S) b k)"

definition tb_lookup :: "'n senv \<Rightarrow> 'n table \<Rightarrow> key \<Rightarrow> 'n sst_result res" where
  "tb_lookup S t k =
     (if \<not> tb_ready t then Inl (Internal ''Cannot read from SSTable that is not ready'')
      else if \<not> tb_may S t k then Inr SMissing
      else case tb_fault t of Some e \<Rightarrow> Inl e
        | None \<Rightarrow> (case ent_map (tb_entries t) k of None \<Rightarrow> Inr SMissing
            | Some e \<Rightarrow> map_sum id entry_result (rd_entry S e)))"

definition tb_index_size :: "'n table \<Rightarrow> nat" where
  "tb_index_size t = (if tb_fault t = None then length (tb_entries t) else 0)"

text \<open>The entries of a scan; one that cannot be read is dropped.\<close>

definition tb_layer :: "'n senv \<Rightarrow> (key \<Rightarrow> bool) \<Rightarrow> 'n table \<Rightarrow> (key \<times> 'n val \<times> bool) list res" where
  "tb_layer S P t =
     (if \<not> tb_ready t then Inr []
      else case tb_fault t of Some e \<Rightarrow> Inl e
        | None \<Rightarrow> Inr (concat (map (\<lambda>e. case rd_entry S e of Inl _ \<Rightarrow> []
             | Inr e' \<Rightarrow> [(en_key e, en_value e', en_deleted e')]) (filter (\<lambda>e. P (en_key e)) (tb_entries t)))))"

definition tb_all_entries :: "'n senv \<Rightarrow> 'n table \<Rightarrow> 'n entry list res" where
  "tb_all_entries S t =
     (if \<not> tb_ready t then Inl (Internal ''Cannot read all entries from SSTable that is not ready'')
      else if tb_marked t then Inl (Internal ''Cannot read all entries from SSTable marked for deletion'')
      else case tb_fault t of Some e \<Rightarrow> Inl e
        | None \<Rightarrow> res_all (\<lambda>e. case rd_entry S e of Inl _ \<Rightarrow> Inl (Internal ''Failed to read key'')
             | Inr e' \<Rightarrow> Inr e') (tb_entries t))"

subsection \<open>The view of a handle\<close>

definition table_of :: "sstable \<Rightarrow> 'n entry list \<Rightarrow> 'n table" where
  "table_of t es = \<lparr>tb_path = sst_path t, tb_entries = es, tb_size = sm_file_size (sst_meta t),
     tb_count = sm_entry_count (sst_meta t), tb_smallest = sm_smallest (sst_meta t),
     tb_largest = sm_largest (sst_meta t), tb_created = sm_created (sst_meta t), tb_bloom = sst_bloom t,
     tb_ready = sst_ready t, tb_marked = sst_marked t, tb_compressed = sst_compressed t,
     tb_readers = sst_readers t, tb_fault = None\<rparr>"

definition senv_of :: "'n env \<Rightarrow> 'n senv" where
  "senv_of E = \<lparr>hash_of = key_hash E, rd_entry = read_back E\<rparr>"

lemma table_of_simps [simp]:
  "tb_ready (table_of t es) = sst_ready t" "tb_marked (table_of t es) = sst_marked t"
  "tb_entries (table_of t es) = es" "tb_fault (table_of t es) = None" "rd_entry (senv_of E) = read_back E"
  by (simp_all add: table_of_def senv_of_def)

lemma tb_may_view [simp]: "tb_may (senv_of E) (table_of t es) k = key_may_exist E t k"
  by (simp add: tb_may_def key_may_exist_def table_of_def senv_of_def split: option.split)

lemma tb_lookup_view:
  assumes "view_of E es v" and "serves E fs v s"
  shows "tb_lookup (senv_of E) (table_of (rs_tab s) es) k = table_answer E es k"
proof -
  have "sst_ready (rs_tab s)" using assms(2) by (simp add: serves_def Let_def)
  moreover have "table_answer E es k = Inr SMissing" if "\<not> key_may_exist E (rs_tab s) k"
    using may_exist [OF assms, of k] that by (cases "ent_map es k") (auto simp: table_answer_def)
  ultimately show ?thesis
    by (auto simp: tb_lookup_def table_answer_def split: option.split)
qed

lemma runs_tb_lookup:
  assumes "env_ok E" and "view_of E es v" and "serves E fs v s"
  shows "runs (serves E fs v) (lookup_sync E fs k) (tb_lookup (senv_of E) (table_of (rs_tab s) es) k)"
    and "runs (serves E fs v) (lookup_pinned E fs k) (tb_lookup (senv_of E) (table_of (rs_tab s) es) k)"
  using runs_lookup_sync [OF assms(1,2)] runs_lookup_pinned [OF assms(1,2)]
  by (simp_all add: tb_lookup_view [OF assms(2,3)])

lemma runs_tb_layer:
  assumes "env_ok E" and "view_of E es v" and "serves E fs v s"
  shows "runs (serves E fs v) (sst_scan_prefix_layer E fs p)
      (tb_layer (senv_of E) (\<lambda>k. starts_with k p) (table_of (rs_tab s) es))"
    and "runs (serves E fs v) (sst_scan_range_layer E fs a b)
      (tb_layer (senv_of E) (\<lambda>k. a \<le> k \<and> (case exclusive_range_end b of None \<Rightarrow> True | Some x \<Rightarrow> k < x))
        (table_of (rs_tab s) es))"
proof -
  have "sst_ready (rs_tab s)" using assms(3) by (simp add: serves_def Let_def)
  then show "runs (serves E fs v) (sst_scan_prefix_layer E fs p)
      (tb_layer (senv_of E) (\<lambda>k. starts_with k p) (table_of (rs_tab s) es))"
    and "runs (serves E fs v) (sst_scan_range_layer E fs a b)
      (tb_layer (senv_of E) (\<lambda>k. a \<le> k \<and> (case exclusive_range_end b of None \<Rightarrow> True | Some x \<Rightarrow> k < x))
        (table_of (rs_tab s) es))"
    using runs_scan_prefix_layer [OF assms(1,2)] runs_scan_range_layer [OF assms(1,2)]
    by (simp_all add: tb_layer_def layer_of_def)
qed

subsection \<open>Point reads over the levels\<close>

text \<open>\<open>HashMap<usize, Vec<SSTable>>\<close>; a level that is not in the map is empty.\<close>

type_synonym 'n levels = "nat \<Rightarrow> 'n table list"

definition find_sstable_for_key :: "'n table list \<Rightarrow> key \<Rightarrow> nat option" where
  "find_sstable_for_key ts k =
     (if ts = [] then None
      else let i = partition_point (\<lambda>t. tb_largest t < k) ts in
        if i < length ts \<and> tb_smallest (ts ! i) \<le> k \<and> k \<le> tb_largest (ts ! i) then Some i else None)"

definition candidates :: "'n senv \<Rightarrow> nat \<Rightarrow> 'n table list \<Rightarrow> key \<Rightarrow> nat list" where
  "candidates S level ts k =
     (if level = 0 then filter (\<lambda>i. tb_may S (ts ! i) k) [0..<length ts]
      else case find_sstable_for_key ts k of None \<Rightarrow> []
        | Some i \<Rightarrow> if tb_may S (ts ! i) k then [i] else [])"

definition result_ts :: "'n sst_result \<Rightarrow> nat" where
  "result_ts r = (case r of SFound _ ts \<Rightarrow> ts | STombstone ts \<Rightarrow> ts | SMissing \<Rightarrow> 0)"

definition result_value :: "'n sst_result \<Rightarrow> 'n val option" where
  "result_value r = (case r of SFound v _ \<Rightarrow> Some v | _ \<Rightarrow> None)"

definition pick :: "'n sst_result \<Rightarrow> nat \<times> 'n sst_result option \<Rightarrow> nat \<times> 'n sst_result option" where
  "pick r best = (if fst best \<le> result_ts r then (result_ts r, Some r) else best)"

text \<open>The loop over the candidates of one level.  Each candidate is looked up again in the map when
  it is pinned, so \<open>pin\<close> is the level as it is then; an error of one table is skipped.\<close>

fun probe :: "'n senv \<Rightarrow> nat \<Rightarrow> (nat \<Rightarrow> 'n table option) \<Rightarrow> key \<Rightarrow> nat list \<Rightarrow>
    nat \<times> 'n sst_result option \<Rightarrow> 'n sst_result option" where
  "probe S level pin k [] best = snd best"
| "probe S level pin k (i # is) best =
     (case pin i of None \<Rightarrow> probe S level pin k is best
      | Some t \<Rightarrow> (case tb_lookup S t k of
            Inl _ \<Rightarrow> probe S level pin k is best
          | Inr SMissing \<Rightarrow> probe S level pin k is best
          | Inr r \<Rightarrow> if level = 0 then probe S level pin k is (pick r best) else Some r))"

definition pin_sstable_clone :: "'n levels \<Rightarrow> nat \<Rightarrow> nat \<Rightarrow> 'n table option" where
  "pin_sstable_clone L level i = (if i < length (L level) then Some (L level ! i) else None)"

text \<open>\<open>M l\<close> is the map when the candidates of level \<open>l\<close> are collected, \<open>N l i\<close> when candidate
  \<open>i\<close> of it is pinned.  Without a concurrent flush or compaction they are all the same.\<close>

fun get_loop :: "'n senv \<Rightarrow> (nat \<Rightarrow> 'n levels) \<Rightarrow> (nat \<Rightarrow> nat \<Rightarrow> 'n levels) \<Rightarrow> key \<Rightarrow> nat list \<Rightarrow> 'n val option" where
  "get_loop S M N k [] = None"
| "get_loop S M N k (l # ls) =
     (case probe S l (\<lambda>i. pin_sstable_clone (N l i) l i) k (candidates S l (M l l) k) (0, None) of
        Some r \<Rightarrow> result_value r
      | None \<Rightarrow> get_loop S M N k ls)"

definition get_from_sstables ::
  "'n senv \<Rightarrow> nat \<Rightarrow> (nat \<Rightarrow> 'n levels) \<Rightarrow> (nat \<Rightarrow> nat \<Rightarrow> 'n levels) \<Rightarrow> key \<Rightarrow> 'n val option" where
  "get_from_sstables S count M N k = get_loop S M N k [0..<count]"

text \<open>The synchronous read holds the map for the whole lookup and returns the first error.\<close>

fun probe_sync :: "'n senv \<Rightarrow> nat \<Rightarrow> 'n table list \<Rightarrow> key \<Rightarrow> nat list \<Rightarrow>
    nat \<times> 'n sst_result option \<Rightarrow> 'n sst_result option res" where
  "probe_sync S level ts k [] best = Inr (snd best)"
| "probe_sync S level ts k (i # is) best =
     (case tb_lookup S (ts ! i) k of
        Inl e \<Rightarrow> Inl e
      | Inr SMissing \<Rightarrow> probe_sync S level ts k is best
      | Inr r \<Rightarrow> if level = 0 then probe_sync S level ts k is (pick r best) else Inr (Some r))"

fun get_loop_sync :: "'n senv \<Rightarrow> 'n levels \<Rightarrow> key \<Rightarrow> nat list \<Rightarrow> 'n val option res" where
  "get_loop_sync S L k [] = Inr None"
| "get_loop_sync S L k (l # ls) =
     (case probe_sync S l (L l) k (candidates S l (L l) k) (0, None) of
        Inl e \<Rightarrow> Inl e
      | Inr (Some r) \<Rightarrow> Inr (result_value r)
      | Inr None \<Rightarrow> get_loop_sync S L k ls)"

definition get_from_sstables_sync :: "'n senv \<Rightarrow> nat \<Rightarrow> 'n levels \<Rightarrow> key \<Rightarrow> 'n val option res" where
  "get_from_sstables_sync S count L k = get_loop_sync S L k [0..<count]"

subsection \<open>Scans over the levels\<close>

definition apply_scan_layer ::
  "(key \<times> 'n val \<times> bool) list \<Rightarrow> (key, 'n val) bt \<Rightarrow> (key, 'n val) bt" where
  "apply_scan_layer es m =
     fold (\<lambda>(k, v, deleted) m. if deleted then bt_remove k m else bt_insert k v m) es m"

text \<open>The first half of the two merged scans: every table of every level in turn.\<close>

fun merge_tables :: "('n table \<Rightarrow> (key \<times> 'n val \<times> bool) list res) \<Rightarrow> 'n table list \<Rightarrow> (key, 'n val) bt
    \<Rightarrow> (key, 'n val) bt res" where
  "merge_tables f [] m = Inr m"
| "merge_tables f (t # ts) m = res_bind (f t) (\<lambda>es. merge_tables f ts (apply_scan_layer es m))"

definition merge_levels :: "('n table \<Rightarrow> (key \<times> 'n val \<times> bool) list res) \<Rightarrow> nat \<Rightarrow> 'n levels
    \<Rightarrow> (key, 'n val) bt res" where
  "merge_levels f count L = merge_tables f (concat (map L [0..<count])) []"

subsection \<open>What a well-formed store answers\<close>

lemma ent_map_sorted: "sorted_entries es \<Longrightarrow> ent_map es k = Some e \<longleftrightarrow> e \<in> set es \<and> en_key e = k"
proof -
  assume "sorted_entries es"
  then have "distinct (map fst (map (\<lambda>e. (en_key e, e)) es))"
    by (simp add: sorted_entries_def strict_sorted_iff comp_def)
  from map_of_eq_Some_iff [OF this, of k e] show ?thesis by (auto simp: ent_map_def)
qed

lemma ent_map_None: "ent_map es k = None \<longleftrightarrow> (\<forall>e \<in> set es. en_key e \<noteq> k)"
  by (auto simp: ent_map_def map_of_eq_None_iff image_iff)

lemma ent_map_in: "ent_map es k = Some e \<Longrightarrow> e \<in> set es \<and> en_key e = k"
  by (auto simp: ent_map_def dest: map_of_SomeD)

definition table_ok :: "'n senv \<Rightarrow> 'n table \<Rightarrow> bool" where
  "table_ok S t \<longleftrightarrow> tb_ready t \<and> \<not> tb_marked t \<and> tb_fault t = None \<and> tb_entries t \<noteq> []
     \<and> sorted_entries (tb_entries t) \<and> tb_smallest t = en_key (hd (tb_entries t))
     \<and> tb_largest t = en_key (last (tb_entries t)) \<and> tb_count t = length (tb_entries t) \<and> 0 < tb_size t
     \<and> (\<forall>e \<in> set (tb_entries t). rd_entry S e = Inr e
          \<and> (\<forall>b. tb_bloom t = Some b \<longrightarrow> might_contain (hash_of S) b (en_key e)))"

text \<open>The levels from 1 on hold disjoint ranges in order.\<close>

definition disjoint_level :: "'n table list \<Rightarrow> bool" where
  "disjoint_level ts \<longleftrightarrow> sorted_wrt (\<lambda>a b. tb_largest a < tb_smallest b) ts"

definition levels_ok :: "'n senv \<Rightarrow> 'n levels \<Rightarrow> bool" where
  "levels_ok S L \<longleftrightarrow> (\<forall>l. \<forall>t \<in> set (L l). table_ok S t) \<and> (\<forall>l > 0. disjoint_level (L l))"

lemma table_range:
  assumes "table_ok S t" and "e \<in> set (tb_entries t)"
  shows "tb_smallest t \<le> en_key e \<and> en_key e \<le> tb_largest t"
  using sorted_entries_range [of "tb_entries t" e] assms by (simp add: table_ok_def)

lemma tb_may_ok: "table_ok S t \<Longrightarrow> ent_map (tb_entries t) k = Some e \<Longrightarrow> tb_may S t k"
  using table_range [of S t e] ent_map_in [of "tb_entries t" k e]
  by (auto simp: tb_may_def table_ok_def split: option.split)

lemma tb_lookup_ok:
  assumes "table_ok S t"
  shows "tb_lookup S t k = Inr (case ent_map (tb_entries t) k of None \<Rightarrow> SMissing | Some e \<Rightarrow> entry_result e)"
proof (cases "ent_map (tb_entries t) k")
  case None
  with assms show ?thesis by (simp add: tb_lookup_def table_ok_def)
next
  case (Some e)
  with assms tb_may_ok [OF assms Some] ent_map_in [OF Some] show ?thesis
    by (simp add: tb_lookup_def table_ok_def)
qed

lemma result_simps [simp]: "result_ts (entry_result e) = en_ts e" "entry_result e \<noteq> SMissing"
  "result_value (entry_result e) = (if en_deleted e then None else Some (en_value e))"
  by (simp_all add: result_ts_def result_value_def entry_result_def)

text \<open>The answer of a level: at level 0 the newest version, the later table deciding between two of
  the same timestamp; below, the entry of the one table whose range holds the key.\<close>

fun newer :: "'n entry option \<Rightarrow> 'n entry option \<Rightarrow> 'n entry option" where
  "newer None b = b"
| "newer (Some e) None = Some e"
| "newer (Some e) (Some e') = (if en_ts e' \<le> en_ts e then Some e else Some e')"

definition newest_in :: "'n table list \<Rightarrow> key \<Rightarrow> 'n entry option" where
  "newest_in ts k = fold (\<lambda>t. newer (ent_map (tb_entries t) k)) ts None"

definition level_entry :: "nat \<Rightarrow> 'n table list \<Rightarrow> key \<Rightarrow> 'n entry option" where
  "level_entry l ts k = (if l = 0 then newest_in ts k else ent_map (concat (map tb_entries ts)) k)"

fun first_entry :: "'n levels \<Rightarrow> key \<Rightarrow> nat list \<Rightarrow> 'n entry option" where
  "first_entry L k [] = None"
| "first_entry L k (l # ls) = (case level_entry l (L l) k of Some e \<Rightarrow> Some e | None \<Rightarrow> first_entry L k ls)"

definition stored_entry :: "nat \<Rightarrow> 'n levels \<Rightarrow> key \<Rightarrow> 'n entry option" where
  "stored_entry count L k = first_entry L k [0..<count]"

definition live :: "'n entry option \<Rightarrow> 'n val option" where
  "live x = (case x of Some e \<Rightarrow> if en_deleted e then None else Some (en_value e) | None \<Rightarrow> None)"

definition best_of :: "'n entry option \<Rightarrow> nat \<times> 'n sst_result option" where
  "best_of b = (case b of None \<Rightarrow> (0, None) | Some e \<Rightarrow> (en_ts e, Some (entry_result e)))"

lemma pick_best: "pick (entry_result e) (best_of b) = best_of (newer (Some e) b)"
  by (cases b) (simp_all add: pick_def best_of_def)

lemma probe_step:
  assumes "table_ok S t"
  shows "pin i = Some t \<Longrightarrow> probe S l pin k (i # is) best = (case ent_map (tb_entries t) k of
      None \<Rightarrow> probe S l pin k is best
    | Some e \<Rightarrow> if l = 0 then probe S l pin k is (pick (entry_result e) best) else Some (entry_result e))"
    and "ts ! i = t \<Longrightarrow> probe_sync S l ts k (i # is) best = (case ent_map (tb_entries t) k of
      None \<Rightarrow> probe_sync S l ts k is best
    | Some e \<Rightarrow> if l = 0 then probe_sync S l ts k is (pick (entry_result e) best) else Inr (Some (entry_result e)))"
  using assms by (auto simp: tb_lookup_ok entry_result_def split: option.split)

lemma probe_zero:
  assumes "\<And>i. i \<in> set is \<Longrightarrow> table_ok S (ts ! i) \<and> pin i = Some (ts ! i)"
  shows "probe S 0 pin k is (best_of b) = snd (best_of (fold (\<lambda>i. newer (ent_map (tb_entries (ts ! i)) k)) is b))"
    and "probe_sync S 0 ts k is (best_of b) = Inr (snd (best_of (fold (\<lambda>i. newer (ent_map (tb_entries (ts ! i)) k)) is b)))"
  using assms
proof (induction "is" arbitrary: b)
  case (Cons i "is")
  {
    case 1
    then have t: "table_ok S (ts ! i)" "pin i = Some (ts ! i)" by auto
    note step = probe_step(1) [OF t(1), of pin i, OF t(2)]
    from 1 Cons show ?case
      by (cases "ent_map (tb_entries (ts ! i)) k") (simp_all del: probe.simps add: step pick_best)
  next
    case 2
    then have "table_ok S (ts ! i)" by auto
    note step = probe_step(2) [OF this refl]
    from 2 Cons show ?case
      by (cases "ent_map (tb_entries (ts ! i)) k") (simp_all del: probe_sync.simps add: step pick_best)
  }
qed simp_all

lemma fold_newer_filter:
  assumes "\<And>x. x \<in> set xs \<Longrightarrow> \<not> P x \<Longrightarrow> f x = None"
  shows "fold (\<lambda>x. newer (f x)) (filter P xs) b = fold (\<lambda>x. newer (f x)) xs b"
  using assms by (induction xs arbitrary: b) auto

lemma newest_in_indices:
  "newest_in ts k = fold (\<lambda>i. newer (ent_map (tb_entries (ts ! i)) k)) [0..<length ts] None"
  using fold_map [of "\<lambda>t. newer (ent_map (tb_entries t) k)" "\<lambda>i. ts ! i" "[0..<length ts]"]
  by (simp add: newest_in_def map_nth comp_def)

lemma sorted_concat:
  "\<forall>t \<in> set ts. table_ok S t \<Longrightarrow> disjoint_level ts \<Longrightarrow> sorted_entries (concat (map tb_entries ts))"
proof (induction ts)
  case (Cons t ts)
  have "en_key a < en_key b" if "a \<in> set (tb_entries t)" "t' \<in> set ts" "b \<in> set (tb_entries t')" for a b t'
  proof -
    have "en_key a \<le> tb_largest t" "tb_smallest t' \<le> en_key b"
      using table_range [of S t a] table_range [of S t' b] Cons.prems(1) that by auto
    moreover have "tb_largest t < tb_smallest t'" using Cons.prems(2) that by (simp add: disjoint_level_def)
    ultimately show ?thesis by simp
  qed
  with Cons show ?case
    by (auto simp: sorted_entries_def sorted_wrt_append disjoint_level_def table_ok_def)
qed (simp add: sorted_entries_def)

lemma table_lookup: "table_ok S t \<Longrightarrow> ent_map (tb_entries t) k = Some e \<longleftrightarrow> e \<in> set (tb_entries t) \<and> en_key e = k"
  by (simp add: table_ok_def ent_map_sorted)

lemma disjoint_partitioned:
  assumes "\<forall>t \<in> set ts. table_ok S t" and "disjoint_level ts"
  shows "partitioned (\<lambda>t. tb_largest t < k) ts"
  unfolding partitioned_def
proof (intro allI impI, elim conjE)
  fix i j
  assume ij: "i < j" "j < length ts" "tb_largest (ts ! j) < k"
  have "tb_largest (ts ! i) < tb_smallest (ts ! j)"
    using sorted_wrt_nth_less [OF assms(2) [unfolded disjoint_level_def], of i j] ij by simp
  also have "\<dots> \<le> tb_largest (ts ! j)"
    using assms(1) ij table_range [of S "ts ! j" "hd (tb_entries (ts ! j))"] by (force simp: table_ok_def)
  finally show "tb_largest (ts ! i) < k" using ij by simp
qed

text \<open>The binary search finds the table whose range holds the key.\<close>

lemma find_sstable_correct:
  assumes ok: "\<forall>t \<in> set ts. table_ok S t" and dis: "disjoint_level ts"
    and e: "j < length ts" "e \<in> set (tb_entries (ts ! j))" "en_key e = k"
  shows "find_sstable_for_key ts k = Some j"
proof -
  note part = disjoint_partitioned [OF ok dis, of k]
  have r: "tb_smallest (ts ! j) \<le> k" "k \<le> tb_largest (ts ! j)"
    using table_range [of S "ts ! j" e] ok e by auto
  have "\<not> j < partition_point (\<lambda>t. tb_largest t < k) ts"
    using partition_point_before [OF part, of j] r(2) by auto
  moreover have "\<not> partition_point (\<lambda>t. tb_largest t < k) ts < j"
  proof
    assume less: "partition_point (\<lambda>t. tb_largest t < k) ts < j"
    then have "\<not> tb_largest (ts ! partition_point (\<lambda>t. tb_largest t < k) ts) < k"
      using partition_point_from [OF part] e(1) by simp
    moreover have "tb_largest (ts ! partition_point (\<lambda>t. tb_largest t < k) ts) < tb_smallest (ts ! j)"
      using sorted_wrt_nth_less [OF dis [unfolded disjoint_level_def] less e(1)] .
    ultimately show False using r(1) by simp
  qed
  ultimately have "partition_point (\<lambda>t. tb_largest t < k) ts = j" by simp
  with r e(1) show ?thesis by (auto simp: find_sstable_for_key_def Let_def)
qed

lemma probe_deeper:
  assumes ok: "\<forall>t \<in> set ts. table_ok S t" and dis: "disjoint_level ts" and l: "l > 0"
    and pin: "\<And>i. i < length ts \<Longrightarrow> pin i = Some (ts ! i)"
  shows "probe S l pin k (candidates S l ts k) (0, None)
      = map_option entry_result (ent_map (concat (map tb_entries ts)) k)"
    and "probe_sync S l ts k (candidates S l ts k) (0, None)
      = Inr (map_option entry_result (ent_map (concat (map tb_entries ts)) k))"
proof -
  note srt = sorted_concat [OF ok dis]
  show "probe S l pin k (candidates S l ts k) (0, None)
      = map_option entry_result (ent_map (concat (map tb_entries ts)) k)"
    and "probe_sync S l ts k (candidates S l ts k) (0, None)
      = Inr (map_option entry_result (ent_map (concat (map tb_entries ts)) k))"
  proof (atomize (full), cases "ent_map (concat (map tb_entries ts)) k")
    case (Some e)
    from ent_map_in [OF this] have "e \<in> set (concat (map tb_entries ts))" "en_key e = k" by simp_all
    then obtain j where j: "j < length ts" "e \<in> set (tb_entries (ts ! j))"
      by (auto simp: in_set_conv_nth [of _ ts])
    have t: "table_ok S (ts ! j)" using ok j by auto
    have m: "ent_map (tb_entries (ts ! j)) k = Some e"
      using table_lookup [OF t] j \<open>en_key e = k\<close> by simp
    note step = probe_step(1) [OF t, of pin j, OF pin [OF j(1)]] probe_step(2) [OF t refl]
    show "probe S l pin k (candidates S l ts k) (0, None)
      = map_option entry_result (ent_map (concat (map tb_entries ts)) k) \<and>
      probe_sync S l ts k (candidates S l ts k) (0, None)
      = Inr (map_option entry_result (ent_map (concat (map tb_entries ts)) k))"
      using find_sstable_correct [OF ok dis j \<open>en_key e = k\<close>] tb_may_ok [OF t m] l m Some
      by (simp del: probe.simps probe_sync.simps add: candidates_def step)
  next
    case None
    have none: "ent_map (tb_entries t) k = None" if "t \<in> set ts" for t
      using None that by (auto simp: ent_map_None)
    consider "candidates S l ts k = []" | i where "candidates S l ts k = [i]" "i < length ts"
    proof (cases "find_sstable_for_key ts k")
      case (Some i)
      then have "i < length ts" by (auto simp: find_sstable_for_key_def Let_def split: if_splits)
      with Some l that show ?thesis by (cases "tb_may S (ts ! i) k") (simp_all add: candidates_def)
    qed (use l that in \<open>simp add: candidates_def\<close>)
    then show "probe S l pin k (candidates S l ts k) (0, None)
      = map_option entry_result (ent_map (concat (map tb_entries ts)) k) \<and>
      probe_sync S l ts k (candidates S l ts k) (0, None)
      = Inr (map_option entry_result (ent_map (concat (map tb_entries ts)) k))"
    proof cases
      case 2
      then have t: "table_ok S (ts ! i)" using ok by auto
      note step = probe_step(1) [OF t, of pin i, OF pin [OF 2(2)]] probe_step(2) [OF t refl]
      with 2 None none [of "ts ! i"] show ?thesis by simp
    qed (simp add: None)
  qed
qed

lemma probe_level:
  assumes ok: "levels_ok S L" and pin: "\<And>i. i < length (L l) \<Longrightarrow> pin i = Some (L l ! i)"
  shows "probe S l pin k (candidates S l (L l) k) (0, None) = map_option entry_result (level_entry l (L l) k)"
    and "probe_sync S l (L l) k (candidates S l (L l) k) (0, None)
      = Inr (map_option entry_result (level_entry l (L l) k))"
proof -
  have t: "\<forall>t \<in> set (L l). table_ok S t" using ok by (simp add: levels_ok_def)
  have z: "snd (best_of b) = map_option entry_result b" for b :: "'a entry option"
    by (cases b) (simp_all add: best_of_def)
  have none: "best_of None = (0, None :: 'a sst_result option)" by (simp add: best_of_def)
  have may: "ent_map (tb_entries (L l ! i)) k = None" if "i < length (L l)" "\<not> tb_may S (L l ! i) k" for i
    using tb_may_ok [of S "L l ! i" k] t that by (cases "ent_map (tb_entries (L l ! i)) k") auto
  have all: "fold (\<lambda>i. newer (ent_map (tb_entries (L l ! i)) k)) (filter (\<lambda>i. tb_may S (L l ! i) k) [0..<length (L l)]) None
      = newest_in (L l) k"
    unfolding newest_in_indices by (rule fold_newer_filter) (use may in auto)
  have idx: "table_ok S (L l ! i) \<and> pin i = Some (L l ! i)"
    if "i \<in> set (filter (\<lambda>i. tb_may S (L l ! i) k) [0..<length (L l)])" for i
    using that t pin by auto
  note z1 = probe_zero(1) [OF idx, of "filter (\<lambda>i. tb_may S (L l ! i) k) [0..<length (L l)]" k None]
    and z2 = probe_zero(2) [OF idx, of "filter (\<lambda>i. tb_may S (L l ! i) k) [0..<length (L l)]" k None]
  show "probe S l pin k (candidates S l (L l) k) (0, None) = map_option entry_result (level_entry l (L l) k)"
    using z1 all probe_deeper(1) [OF t _ _ pin, of l k] ok
    by (cases "l = 0") (auto simp: candidates_def level_entry_def z none levels_ok_def)
  show "probe_sync S l (L l) k (candidates S l (L l) k) (0, None)
      = Inr (map_option entry_result (level_entry l (L l) k))"
    using z2 all probe_deeper(2) [OF t _ _ pin, of l k] ok
    by (cases "l = 0") (auto simp: candidates_def level_entry_def z none levels_ok_def)
qed

text \<open>Both reads answer with the newest version of the topmost level that has the key.\<close>

lemma get_from_sstables_correct:
  assumes "levels_ok S L"
  shows "get_from_sstables S count (\<lambda>_. L) (\<lambda>_ _. L) k = live (stored_entry count L k)"
    and "get_from_sstables_sync S count L k = Inr (live (stored_entry count L k))"
proof -
  have v: "result_value (entry_result e) = live (Some e)" for e :: "'a entry"
    by (simp add: live_def)
  have "get_loop S (\<lambda>_. L) (\<lambda>_ _. L) k ls = live (first_entry L k ls)" for ls
  proof (induction ls)
    case (Cons l ls)
    have "probe S l (\<lambda>i. pin_sstable_clone L l i) k (candidates S l (L l) k) (0, None)
        = map_option entry_result (level_entry l (L l) k)"
      by (rule probe_level(1) [OF assms]) (simp add: pin_sstable_clone_def)
    with Cons v show ?case by (auto split: option.split)
  qed (simp add: live_def)
  then show "get_from_sstables S count (\<lambda>_. L) (\<lambda>_ _. L) k = live (stored_entry count L k)"
    by (simp add: get_from_sstables_def stored_entry_def)
  have "get_loop_sync S L k ls = Inr (live (first_entry L k ls))" for ls
  proof (induction ls)
    case (Cons l ls)
    have "probe_sync S l (L l) k (candidates S l (L l) k) (0, None)
        = Inr (map_option entry_result (level_entry l (L l) k))"
      by (rule probe_level(2) [OF assms, where pin = "\<lambda>i. Some (L l ! i)"]) simp
    with Cons v show ?case by (auto split: option.split)
  qed (simp add: live_def)
  then show "get_from_sstables_sync S count L k = Inr (live (stored_entry count L k))"
    by (simp add: get_from_sstables_sync_def stored_entry_def)
qed

end
