(* ===== verification/Compaction.thy ===== *)
theory Compaction
  imports Levels
begin

text \<open>
  \<open>crates/f4kvs-lsm/src/compaction/manager.rs\<close>: which level is compacted and which of its tables,
  the merge of their entries, the new tables, and how they are installed in the map while other
  tasks change it.  The two points where the map is read and the one where it is written are
  separate arguments, so a flush or compaction in between is a different map there.  The state is
  what is on disk, the number of file names used and the statistics.
\<close>

datatype compaction_strategy = Leveled | SizeTiered | TimeWindowed | Hybrid

text \<open>What the adaptive manager answers, per level.\<close>

record adaptive =
  ad_schedule :: bool
  ad_strategy :: compaction_strategy
  ad_enabled :: "nat \<Rightarrow> bool"
  ad_max_sstables :: "nat \<Rightarrow> nat"
  ad_threshold :: "nat \<Rightarrow> nat"

text \<open>
  \<open>cc_threshold\<close> is \<open>(target_size as f64 * size_multiplier.powf(level)) as u64\<close>, \<open>cc_order\<close> the
  iteration order of a \<open>HashMap\<close>'s keys, \<open>cc_name level i\<close> the \<open>i\<close>-th file name made, and
  \<open>cc_write\<close> the outcome of writing a table: the size of its data and the length of the file.
\<close>

record 'n ccfg =
  cc_strategy :: compaction_strategy
  cc_levels :: nat
  cc_max_sstables :: nat
  cc_target :: nat
  cc_threshold :: "nat \<Rightarrow> nat"
  cc_adaptive :: "adaptive option"
  cc_js :: "'n json \<Rightarrow> bytes"
  cc_hash :: "key \<Rightarrow> nat \<Rightarrow> u64"
  cc_order :: "nat list \<Rightarrow> nat list"
  cc_name :: "nat \<Rightarrow> nat \<Rightarrow> path"
  cc_now :: "nat \<Rightarrow> nat"
  cc_mkdir :: "unit res"
  cc_write :: "path \<Rightarrow> nat \<Rightarrow> 'n entry list \<Rightarrow> (nat \<times> nat) res"
  cc_slow :: "path \<Rightarrow> bool"

record cstats =
  levels_compacted :: nat
  sstables_merged :: nat
  entries_processed :: nat
  entries_removed :: nat
  space_reclaimed :: nat

definition no_stats :: cstats where
  "no_stats = \<lparr>levels_compacted = 0, sstables_merged = 0, entries_processed = 0, entries_removed = 0,
     space_reclaimed = 0\<rparr>"

record cstate =
  cs_disk :: "path \<Rightarrow> nat option"
  cs_next :: nat
  cs_stats :: cstats

definition estimated_sstable_bytes :: "('n json \<Rightarrow> bytes) \<Rightarrow> 'n entry \<Rightarrow> nat" where
  "estimated_sstable_bytes js e = length (en_key e) * 2 + serialized_size js (en_value e) + 64"

definition sort_leveled_sstables :: "'n table list \<Rightarrow> 'n table list" where
  "sort_leveled_sstables ts = sort_key (\<lambda>t. (tb_largest t, tb_smallest t)) ts"

subsection \<open>Which level\<close>

definition cc_max_for :: "'n ccfg \<Rightarrow> nat \<Rightarrow> nat" where
  "cc_max_for C level = (case cc_adaptive C of Some a \<Rightarrow> ad_max_sstables a level | None \<Rightarrow> cc_max_sstables C)"

definition should_compact_leveled :: "'n ccfg \<Rightarrow> nat \<Rightarrow> 'n table list \<Rightarrow> bool" where
  "should_compact_leveled C level ts =
     (if level = 0 then cc_max_for C level < length ts
      else (case cc_adaptive C of Some a \<Rightarrow> ad_threshold a level | None \<Rightarrow> cc_threshold C level)
             < sum_list (map tb_size ts))"

text \<open>Grouping through a \<open>HashMap\<close>: the groups in its iteration order, each in input order, and
  \<open>max_by_key\<close> on their length, which takes the last of the longest.\<close>

definition groups_by :: "'n ccfg \<Rightarrow> ('n table \<Rightarrow> nat) \<Rightarrow> 'n table list \<Rightarrow> 'n table list list" where
  "groups_by C f ts = map (\<lambda>b. filter (\<lambda>t. f t = b) ts) (cc_order C (remdups (map f ts)))"

definition longest :: "'a list list \<Rightarrow> 'a list option" where
  "longest gs = fold (\<lambda>g best. case best of None \<Rightarrow> Some g
     | Some b \<Rightarrow> if length b \<le> length g then Some g else Some b) gs None"

definition size_bucket :: "'n table \<Rightarrow> nat" where
  "size_bucket t = tb_size t div (1024 * 1024) * (1024 * 1024)"

definition should_compact_size_tiered :: "'n ccfg \<Rightarrow> 'n table list \<Rightarrow> bool" where
  "should_compact_size_tiered C ts =
     (if length ts < 4 then False
      else case longest (groups_by C size_bucket ts) of Some g \<Rightarrow> 4 \<le> length g | None \<Rightarrow> False)"

definition time_window :: "'n table \<Rightarrow> nat" where
  "time_window t = tb_created t div 3600"

definition should_compact_time_windowed :: "'n ccfg \<Rightarrow> 'n table list \<Rightarrow> bool" where
  "should_compact_time_windowed C ts =
     (if length ts < 2 then False else \<exists>g \<in> set (groups_by C time_window ts). 1 < length g)"

definition should_compact_level :: "'n ccfg \<Rightarrow> nat \<Rightarrow> 'n table list \<Rightarrow> bool" where
  "should_compact_level C level ts =
     (if ts = [] then False
      else if (case cc_adaptive C of Some a \<Rightarrow> \<not> ad_enabled a level | None \<Rightarrow> False) then False
      else case (case cc_adaptive C of Some a \<Rightarrow> ad_strategy a | None \<Rightarrow> cc_strategy C) of
          Leveled \<Rightarrow> should_compact_leveled C level ts
        | SizeTiered \<Rightarrow> should_compact_size_tiered C ts
        | TimeWindowed \<Rightarrow> should_compact_time_windowed C ts
        | Hybrid \<Rightarrow> if level = 0 then should_compact_leveled C level ts else should_compact_size_tiered C ts)"

subsection \<open>Which tables\<close>

definition select_leveled_sstables :: "'n table list \<Rightarrow> 'n table list" where
  "select_leveled_sstables ts = ts"

definition select_size_tiered_sstables :: "'n ccfg \<Rightarrow> 'n table list \<Rightarrow> 'n table list" where
  "select_size_tiered_sstables C ts =
     (if length ts < 4 then []
      else case longest (groups_by C size_bucket ts) of
          Some g \<Rightarrow> if 4 \<le> length g then g else []
        | None \<Rightarrow> [])"

definition select_time_windowed_sstables :: "'n ccfg \<Rightarrow> 'n table list \<Rightarrow> 'n table list" where
  "select_time_windowed_sstables C ts =
     (case longest (groups_by C time_window ts) of
          Some g \<Rightarrow> if 1 < length g then g else []
        | None \<Rightarrow> [])"

definition select_sstables_for_compaction :: "'n ccfg \<Rightarrow> nat \<Rightarrow> 'n table list \<Rightarrow> 'n table list" where
  "select_sstables_for_compaction C level ts =
     (case cc_strategy C of
        Leveled \<Rightarrow> select_leveled_sstables ts
      | SizeTiered \<Rightarrow> select_size_tiered_sstables C ts
      | TimeWindowed \<Rightarrow> select_time_windowed_sstables C ts
      | Hybrid \<Rightarrow> if level = 0 then select_leveled_sstables ts else select_size_tiered_sstables C ts)"

definition valid_sstables_for_compact :: "'n table list \<Rightarrow> 'n table list" where
  "valid_sstables_for_compact ts = filter (\<lambda>t. tb_ready t \<and> \<not> tb_marked t \<and> 0 < tb_size t
     \<and> 0 < tb_count t \<and> 0 < tb_index_size t \<and> tb_index_size t = tb_count t) ts"

subsection \<open>The merge\<close>

definition read_sstable_entries :: "'n senv \<Rightarrow> 'n table \<Rightarrow> 'n entry list res" where
  "read_sstable_entries S t =
     (if \<not> tb_ready t then Inl (Internal ''Cannot read entries from SSTable that is not ready'')
      else if tb_marked t then Inl (Internal ''Cannot read entries from SSTable marked for deletion'')
      else tb_all_entries S t)"

definition read_sstable_entries_safe :: "'n senv \<Rightarrow> 'n ccfg \<Rightarrow> cstate \<Rightarrow> 'n table \<Rightarrow> 'n entry list" where
  "read_sstable_entries_safe S C st t =
     (if \<not> tb_ready t then []
      else if tb_marked t then []
      else case cs_disk st (tb_path t) of None \<Rightarrow> []
        | Some len \<Rightarrow> if len < tb_size t then []
            else if cc_slow C (tb_path t) then []
            else case read_sstable_entries S t of Inl _ \<Rightarrow> [] | Inr es \<Rightarrow> es)"

text \<open>\<open>sort_by\<close> is stable: by key, newest first.\<close>

definition sort_entries :: "'n entry list \<Rightarrow> 'n entry list" where
  "sort_entries es = sort_key (\<lambda>e. (en_key e, - int (en_ts e))) es"

definition merge_sstables_safe :: "'n senv \<Rightarrow> 'n ccfg \<Rightarrow> cstate \<Rightarrow> 'n table list \<Rightarrow> 'n entry list res" where
  "merge_sstables_safe S C st ts =
     (let rs = map (\<lambda>t. (read_sstable_entries_safe S C st t, tb_count t)) ts in
      if \<exists>(es, n) \<in> set rs. length es \<noteq> n
      then Inl (Internal ''Compaction aborted: SSTable(s) unreadable'')
      else Inr (sort_entries (concat (map fst rs))))"

fun dedup_loop :: "key set \<Rightarrow> 'n entry list \<Rightarrow> 'n entry list" where
  "dedup_loop seen [] = []"
| "dedup_loop seen (e # es) =
     (if en_key e \<in> seen then dedup_loop seen es
      else if en_deleted e then dedup_loop (insert (en_key e) seen) es
      else e # dedup_loop (insert (en_key e) seen) es)"

definition deduplicate_entries :: "'n entry list \<Rightarrow> 'n entry list" where
  "deduplicate_entries es = dedup_loop {} (sort_entries es)"

subsection \<open>The new tables\<close>

definition table_new :: "'n ccfg \<Rightarrow> path \<Rightarrow> nat \<Rightarrow> 'n entry list \<Rightarrow> nat \<Rightarrow> 'n table" where
  "table_new C p now es sz = \<lparr>tb_path = p, tb_entries = es, tb_size = sz, tb_count = length es,
     tb_smallest = en_key (hd es), tb_largest = en_key (last es), tb_created = now,
     tb_bloom = Some (fold (bf_add (cc_hash C)) (map en_key es) (with_optimal_params (length es))),
     tb_ready = True, tb_marked = False, tb_compressed = True, tb_readers = 0, tb_fault = None\<rparr>"

definition create_sstable_from_entries ::
  "'n ccfg \<Rightarrow> nat \<Rightarrow> 'n entry list \<Rightarrow> cstate \<Rightarrow> 'n table res \<times> cstate" where
  "create_sstable_from_entries C level es st =
     (case cc_mkdir C of Inl e \<Rightarrow> (Inl e, st)
      | Inr _ \<Rightarrow>
        let p = cc_name C level (cs_next st); st' = st\<lparr>cs_next := cs_next st + 1\<rparr> in
        case cc_write C p level es of Inl e \<Rightarrow> (Inl e, st')
        | Inr (sz, len) \<Rightarrow>
            (Inr (table_new C p (cc_now C (cs_next st)) es sz), st'\<lparr>cs_disk := (cs_disk st')(p \<mapsto> len)\<rparr>))"

fun new_sstables_loop :: "'n ccfg \<Rightarrow> nat \<Rightarrow> 'n table list \<Rightarrow> 'n entry list \<Rightarrow> nat \<Rightarrow> 'n entry list
    \<Rightarrow> cstate \<Rightarrow> 'n table list res \<times> cstate" where
  "new_sstables_loop C level acc cur sz [] st =
     (if cur = [] then (Inr acc, st)
      else case create_sstable_from_entries C level cur st of
          (Inl e, st) \<Rightarrow> (Inl e, st)
        | (Inr t, st) \<Rightarrow> (Inr (acc @ [t]), st))"
| "new_sstables_loop C level acc cur sz (e # es) st =
     (let n = estimated_sstable_bytes (cc_js C) e in
      if max (cc_target C) 1 < sz + n \<and> cur \<noteq> [] then
        (case create_sstable_from_entries C level cur st of
            (Inl err, st) \<Rightarrow> (Inl err, st)
          | (Inr t, st) \<Rightarrow> new_sstables_loop C level (acc @ [t]) [e] n es st)
      else new_sstables_loop C level acc (cur @ [e]) (sz + n) es st)"

definition create_new_sstables ::
  "'n ccfg \<Rightarrow> nat \<Rightarrow> 'n entry list \<Rightarrow> cstate \<Rightarrow> 'n table list res \<times> cstate" where
  "create_new_sstables C level es st =
     (if es = [] then (Inr [], st) else new_sstables_loop C level [] [] 0 es st)"

subsection \<open>Compacting tables\<close>

definition compact_level_sstables ::
  "'n senv \<Rightarrow> 'n ccfg \<Rightarrow> nat \<Rightarrow> 'n table list \<Rightarrow> cstate \<Rightarrow> 'n table list res \<times> cstate" where
  "compact_level_sstables S C level ts st =
     (if \<exists>t \<in> set ts. \<not> tb_ready t \<or> tb_marked t
      then (Inl (Internal ''SSTable is not ready for compaction or marked for deletion''), st)
      else case merge_sstables_safe S C st ts of Inl e \<Rightarrow> (Inl e, st)
        | Inr merged \<Rightarrow> create_new_sstables C level (deduplicate_entries merged) st)"

definition compact_level ::
  "'n senv \<Rightarrow> 'n ccfg \<Rightarrow> nat \<Rightarrow> 'n levels \<Rightarrow> cstate \<Rightarrow> 'n table list res \<times> cstate" where
  "compact_level S C level L st =
     (let current = L level in
      if current = [] then (Inr [], st)
      else
        let chosen = select_sstables_for_compaction C level current in
        if chosen = [] then (Inr current, st)
        else case merge_sstables_safe S C st chosen of Inl e \<Rightarrow> (Inl e, st)
          | Inr merged \<Rightarrow>
            let kept = deduplicate_entries merged in
            (case create_new_sstables C level kept st of (Inl e, st) \<Rightarrow> (Inl e, st)
             | (Inr new, st) \<Rightarrow>
               (Inr (filter (\<lambda>t. \<not> (\<exists>c \<in> set chosen. tb_path c = tb_path t)) current @ new),
                st\<lparr>cs_stats := \<lparr>levels_compacted = 1, sstables_merged = length chosen,
                     entries_processed = length merged, entries_removed = length merged - length kept,
                     space_reclaimed = sum_list (map tb_size chosen) - sum_list (map tb_size new)\<rparr>\<rparr>)))"

text \<open>Unlinking the inputs.  \<open>rd p\<close> is the number of readers of a file when the wait for them
  ends and when it is unlinked.\<close>

definition reclaim_compacted_inputs :: "(path \<Rightarrow> nat \<times> nat) \<Rightarrow> 'n table list \<Rightarrow> cstate \<Rightarrow> cstate" where
  "reclaim_compacted_inputs rd ts st =
     fold (\<lambda>t st. if fst (rd (tb_path t)) \<noteq> 0 then st
                   else if snd (rd (tb_path t)) \<noteq> 0 then st
                   else st\<lparr>cs_disk := (cs_disk st)(tb_path t := None)\<rparr>) ts st"

definition paths :: "'n table list \<Rightarrow> path set" where "paths ts = tb_path ` set ts"

text \<open>The tables that appeared in a level while the inputs were read.\<close>

definition concurrent :: "path set \<Rightarrow> 'n table list \<Rightarrow> 'n table list" where
  "concurrent inputs ts = filter (\<lambda>t. tb_path t \<notin> inputs \<and> \<not> tb_marked t) ts"

text \<open>\<open>M1\<close> is the map when the level is chosen, \<open>M2\<close> when its tables are taken, \<open>M3\<close> when the
  result is installed; \<open>None\<close> is a lock not obtained in time.  The result is the installed map, if
  any, and the tables to unlink.\<close>

definition compact_if_needed_inner ::
  "'n senv \<Rightarrow> 'n ccfg \<Rightarrow> 'n levels \<Rightarrow> 'n levels option \<Rightarrow> 'n levels option \<Rightarrow> cstate
    \<Rightarrow> ('n levels option \<times> 'n table list) res \<times> cstate" where
  "compact_if_needed_inner S C M1 M2 M3 st =
     (if (case cc_adaptive C of Some a \<Rightarrow> \<not> ad_schedule a | None \<Rightarrow> False) then (Inr (None, []), st)
      else case find (\<lambda>l. should_compact_level C l (M1 l)) [0..<cc_levels C] of
        None \<Rightarrow> (Inr (None, []), st)
      | Some level \<Rightarrow> (case M2 of None \<Rightarrow> (Inr (None, []), st)
        | Some all \<Rightarrow>
          if \<not> should_compact_level C level (all level) then (Inr (None, []), st)
          else (case compact_level S C level all st of
              (Inl e, st) \<Rightarrow> (Inl e, st)
            | (Inr new, st) \<Rightarrow> (case M3 of None \<Rightarrow> (Inr (None, []), st)
              | Some now \<Rightarrow>
                let merged = new @ concurrent (paths (all level)) (now level) in
                (Inr (Some (now(level := merged)), filter (\<lambda>t. tb_path t \<notin> paths merged) (all level)), st)))))"

text \<open>The flag \<open>compacting\<close> admits one at a time; it is released before the inputs are reclaimed.\<close>

definition compact_if_needed ::
  "'n senv \<Rightarrow> 'n ccfg \<Rightarrow> bool \<Rightarrow> 'n levels \<Rightarrow> 'n levels option \<Rightarrow> 'n levels option
    \<Rightarrow> (path \<Rightarrow> nat \<times> nat) \<Rightarrow> cstate \<Rightarrow> 'n levels option res \<times> cstate" where
  "compact_if_needed S C compacting M1 M2 M3 rd st =
     (if compacting then (Inr None, st)
      else case compact_if_needed_inner S C M1 M2 M3 st of
          (Inl e, st) \<Rightarrow> (Inl e, st)
        | (Inr (L, to_reclaim), st) \<Rightarrow> (Inr L, reclaim_compacted_inputs rd to_reclaim st))"

definition compact_all ::
  "'n senv \<Rightarrow> 'n ccfg \<Rightarrow> 'n levels \<Rightarrow> 'n levels option \<Rightarrow> (path \<Rightarrow> nat \<times> nat) \<Rightarrow> cstate
    \<Rightarrow> 'n levels option res \<times> cstate" where
  "compact_all S C M1 M2 rd st =
     (if cc_levels C < 2 then (Inl (Internal ''compact_all needs at least 2 levels''), st)
      else
        let valid0 = valid_sstables_for_compact (M1 0); valid1 = valid_sstables_for_compact (M1 1);
            needs_rewrite = (\<exists>t \<in> set (valid0 @ valid1). \<not> tb_compressed t);
            inputs = valid0 @ valid1 in
        if length valid0 < 2 \<and> \<not> needs_rewrite then (Inr None, st)
        else if inputs = [] then (Inr None, st)
        else case compact_level_sstables S C 1 inputs st of
            (Inl e, st) \<Rightarrow> (Inl e, st)
          | (Inr new, st) \<Rightarrow> (case M2 of
              None \<Rightarrow> (Inl (Internal ''Failed to acquire compaction lock to install L1''), st)
            | Some now \<Rightarrow>
              let l0 = concurrent (paths inputs) (now 0);
                  l1 = sort_leveled_sstables (new @ concurrent (paths inputs) (now 1)) in
              (Inr (Some (now(0 := l0, 1 := l1))), reclaim_compacted_inputs rd inputs st)))"

end
