(* ===== verification/Compaction_Merge.thy ===== *)
theory Compaction_Merge
  imports Compaction
begin

text \<open>
  The merge of a compaction: what is left of the versions of a key, how the result is cut into
  tables, and that the tables made form a level of disjoint ranges.
\<close>

subsection \<open>Versions\<close>

definition entries_of :: "'n table list \<Rightarrow> 'n entry list" where
  "entries_of ts = concat (map tb_entries ts)"

lemma entries_of_simps [simp]: "entries_of [] = []" "entries_of (t # ts) = tb_entries t @ entries_of ts"
  "entries_of (xs @ ys) = entries_of xs @ entries_of ys"
  by (simp_all add: entries_of_def)

lemma in_entries_of: "e \<in> set (entries_of ts) \<longleftrightarrow> (\<exists>t \<in> set ts. e \<in> set (tb_entries t))"
  by (auto simp: entries_of_def)

definition is_newest :: "'n entry list \<Rightarrow> key \<Rightarrow> 'n entry \<Rightarrow> bool" where
  "is_newest es k e \<longleftrightarrow> e \<in> set es \<and> en_key e = k \<and> (\<forall>e' \<in> set es. en_key e' = k \<longrightarrow> en_ts e' \<le> en_ts e)"

text \<open>The timestamps of the versions of a key differ.\<close>

definition no_ties :: "'n entry list \<Rightarrow> bool" where
  "no_ties es \<longleftrightarrow> (\<forall>e \<in> set es. \<forall>e' \<in> set es. en_key e = en_key e' \<and> en_ts e = en_ts e' \<longrightarrow> e = e')"

lemma newest_unique: "no_ties es \<Longrightarrow> is_newest es k e \<Longrightarrow> is_newest es k e' \<Longrightarrow> e = e'"
  unfolding no_ties_def is_newest_def by (metis le_antisym)

lemma no_ties_mono: "no_ties es \<Longrightarrow> set es' \<subseteq> set es \<Longrightarrow> no_ties es'"
  unfolding no_ties_def by blast

lemma is_newest_set: "set es = set es' \<Longrightarrow> is_newest es k e \<longleftrightarrow> is_newest es' k e"
  by (simp add: is_newest_def)

lemma is_newest_exists:
  assumes "e \<in> set es" and "en_key e = k"
  shows "\<exists>e. is_newest es k e"
proof -
  have "\<exists>e. is_newest es k e" if "e \<in> set es" "en_key e = k" for e
    using that
  proof (induction "Max (en_ts ` set es) - en_ts e" arbitrary: e rule: less_induct)
    case less
    show ?case
    proof (cases "is_newest es k e")
      case False
      then obtain e' where e': "e' \<in> set es" "en_key e' = k" "en_ts e < en_ts e'"
        using less.prems by (auto simp: is_newest_def not_le)
      have "en_ts e' \<le> Max (en_ts ` set es)" using e'(1) by simp
      with e'(3) have "Max (en_ts ` set es) - en_ts e' < Max (en_ts ` set es) - en_ts e" by linarith
      from less.hyps [OF this e'(1,2)] show ?thesis .
    qed blast
  qed
  with assms show ?thesis by blast
qed

lemma fold_newer:
  assumes "\<forall>t \<in> set ts. table_ok S t"
  shows "fold (\<lambda>t. newer (ent_map (tb_entries t) k)) ts b = (case newest_in ts k of
     None \<Rightarrow> b | Some e \<Rightarrow> newer (Some e) b)"
proof -
  have n: "newer (Some e) (newer x b) = newer (newer (Some e) x) b" for e :: "'a entry" and x b
    by (cases x; cases b) auto
  have "fold (\<lambda>t. newer (f t)) ts b = (case fold (\<lambda>t. newer (f t)) ts None of None \<Rightarrow> b | Some e \<Rightarrow> newer (Some e) b)"
    for f :: "'a table \<Rightarrow> 'a entry option"
  proof (induction ts arbitrary: b rule: rev_induct)
    case (snoc t ts)
    show ?case
    proof (cases "f t")
      case (Some e)
      with snoc [of b] n [of e _ b] show ?thesis
        by (cases "fold (\<lambda>t. newer (f t)) ts None") (auto split: option.splits)
    qed (simp add: snoc [of b])
  qed simp
  then show ?thesis by (simp add: newest_in_def)
qed

lemma newest_in_spec:
  assumes "\<forall>t \<in> set ts. table_ok S t"
  shows "case newest_in ts k of None \<Rightarrow> (\<forall>e \<in> set (entries_of ts). en_key e \<noteq> k)
     | Some e \<Rightarrow> is_newest (entries_of ts) k e"
  using assms
proof (induction ts rule: rev_induct)
  case (snoc t ts)
  have t: "table_ok S t" using snoc.prems by simp
  note lk = table_lookup [OF t, of k]
  have last: "newest_in (ts @ [t]) k = newer (ent_map (tb_entries t) k) (newest_in ts k)"
    by (simp add: newest_in_def)
  have IH: "case newest_in ts k of None \<Rightarrow> (\<forall>e \<in> set (entries_of ts). en_key e \<noteq> k)
     | Some e \<Rightarrow> is_newest (entries_of ts) k e"
    using snoc by simp
  have one: "e' = e" if "ent_map (tb_entries t) k = Some e" "e' \<in> set (tb_entries t)" "en_key e' = k" for e e'
    using that lk by (metis option.inject)
  show ?case
  proof (cases "ent_map (tb_entries t) k")
    case None
    then have "\<forall>e \<in> set (tb_entries t). en_key e \<noteq> k" by (simp add: ent_map_None)
    with None IH last show ?thesis by (cases "newest_in ts k") (auto simp: is_newest_def)
  next
    case (Some e)
    then have e: "e \<in> set (tb_entries t)" "en_key e = k" using lk by blast+
    have le: "en_ts e' \<le> en_ts e" if "e' \<in> set (tb_entries t)" "en_key e' = k" for e'
      using one [OF Some that] by simp
    show ?thesis
    proof (cases "newest_in ts k")
      case None
      with IH e le last Some show ?thesis by (auto simp: is_newest_def)
    next
      case (Some e0)
      with IH have e0: "is_newest (entries_of ts) k e0" by simp
      show ?thesis
      proof (cases "en_ts e0 \<le> en_ts e")
        case True
        have "is_newest (entries_of (ts @ [t])) k e"
          using e0 e le True unfolding is_newest_def by (auto intro: order_trans)
        with True last Some \<open>ent_map (tb_entries t) k = Some e\<close> show ?thesis by simp
      next
        case False
        have "is_newest (entries_of (ts @ [t])) k e0"
          using e0 le False unfolding is_newest_def by (auto intro: order_trans [OF le])
        with False last Some \<open>ent_map (tb_entries t) k = Some e\<close> show ?thesis by simp
      qed
    qed
  qed
qed (simp add: newest_in_def)

subsection \<open>Sorting and deduplication\<close>

lemma set_sort_entries [simp]: "set (sort_entries es) = set es"
  by (simp add: sort_entries_def)

lemma sort_entries_twice [simp]: "sort_entries (sort_entries es) = sort_entries es"
  by (simp add: sort_entries_def sort_key_id_if_sorted)

lemma find_newest:
  "sorted (map (\<lambda>e. (en_key e, - int (en_ts e))) es) \<Longrightarrow> find (\<lambda>e. en_key e = k) es = Some e
    \<Longrightarrow> is_newest es k e"
  by (induction es) (auto simp: is_newest_def split: if_splits)

lemma dedup_lookup: "ent_map (dedup_loop seen es) k =
  (if k \<in> seen then None
   else case find (\<lambda>e. en_key e = k) es of None \<Rightarrow> None | Some e \<Rightarrow> if en_deleted e then None else Some e)"
  by (induction es arbitrary: seen) (auto simp: ent_map_def split: option.splits)

lemma set_dedup: "x \<in> set (dedup_loop seen es) \<Longrightarrow> x \<in> set es \<and> en_key x \<notin> seen \<and> \<not> en_deleted x"
  by (induction es arbitrary: seen) (fastforce split: if_splits)+

lemma sorted_dedup:
  "sorted (map (\<lambda>e. (en_key e, - int (en_ts e))) es) \<Longrightarrow> sorted_entries (dedup_loop seen es)"
proof (induction es arbitrary: seen)
  case (Cons e es)
  have "en_key e < en_key x" if "x \<in> set (dedup_loop (insert (en_key e) seen) es)" for x
  proof -
    have "x \<in> set es" "en_key x \<noteq> en_key e" using set_dedup [OF that] by auto
    moreover have "en_key e \<le> en_key x" using Cons.prems \<open>x \<in> set es\<close> by fastforce
    ultimately show ?thesis by simp
  qed
  with Cons show ?case by (auto simp: sorted_entries_def)
qed (simp add: sorted_entries_def)

text \<open>What is left of a merge: sorted, no tombstones, the newest version of each key.\<close>

lemma dedup_spec:
  shows "sorted_entries (deduplicate_entries es)"
    and "e \<in> set (deduplicate_entries es) \<Longrightarrow> e \<in> set es \<and> \<not> en_deleted e"
    and "no_ties es \<Longrightarrow> is_newest es k e \<Longrightarrow>
      ent_map (deduplicate_entries es) k = (if en_deleted e then None else Some e)"
    and "\<forall>e \<in> set es. en_key e \<noteq> k \<Longrightarrow> ent_map (deduplicate_entries es) k = None"
proof -
  have srt: "sorted (map (\<lambda>e. (en_key e, - int (en_ts e))) (sort_entries es))"
    by (simp add: sort_entries_def)
  show "sorted_entries (deduplicate_entries es)"
    unfolding deduplicate_entries_def by (rule sorted_dedup [OF srt])
  show "e \<in> set (deduplicate_entries es) \<Longrightarrow> e \<in> set es \<and> \<not> en_deleted e"
    using set_dedup [of e "{}" "sort_entries es"] by (simp add: deduplicate_entries_def)
  show "ent_map (deduplicate_entries es) k = (if en_deleted e then None else Some e)"
    if nt: "no_ties es" and e: "is_newest es k e"
  proof (cases "find (\<lambda>e. en_key e = k) (sort_entries es)")
    case None
    then show ?thesis using e by (auto simp: find_None_iff is_newest_def)
  next
    case (Some e')
    have "is_newest es k e'"
      using find_newest [OF srt Some] is_newest_set [of "sort_entries es" es] by simp
    then have "e' = e" using newest_unique [OF nt _ e] by blast
    with Some show ?thesis by (simp add: deduplicate_entries_def dedup_lookup)
  qed
  show "\<forall>e \<in> set es. en_key e \<noteq> k \<Longrightarrow> ent_map (deduplicate_entries es) k = None"
    using find_None_iff [of "\<lambda>e. en_key e = k" "sort_entries es"]
    by (simp add: deduplicate_entries_def dedup_lookup)
qed

subsection \<open>Cutting into tables\<close>

definition est_size :: "'n ccfg \<Rightarrow> 'n entry list \<Rightarrow> nat" where
  "est_size C es = sum_list (map (estimated_sstable_bytes (cc_js C)) es)"

lemma est_size_simps [simp]: "est_size C [] = 0" "est_size C (e # es) = estimated_sstable_bytes (cc_js C) e + est_size C es"
  "est_size C (xs @ ys) = est_size C xs + est_size C ys"
  by (simp_all add: est_size_def)

text \<open>Where the entries are cut, and the tables made of the pieces.\<close>

fun chunks :: "'n ccfg \<Rightarrow> 'n entry list \<Rightarrow> 'n entry list \<Rightarrow> 'n entry list list" where
  "chunks C cur [] = (if cur = [] then [] else [cur])"
| "chunks C cur (e # es) =
     (if max (cc_target C) 1 < est_size C cur + estimated_sstable_bytes (cc_js C) e \<and> cur \<noteq> []
      then cur # chunks C [e] es else chunks C (cur @ [e]) es)"

lemma concat_chunks: "concat (chunks C cur es) = cur @ es"
  by (induction C cur es rule: chunks.induct) auto

lemma chunks_nonempty: "c \<in> set (chunks C cur es) \<Longrightarrow> c \<noteq> []"
  by (induction C cur es rule: chunks.induct) (auto split: if_splits)

lemma chunks_size:
  "est_size C cur \<le> max (cc_target C) 1 \<or> length cur \<le> 1 \<Longrightarrow> c \<in> set (chunks C cur es)
    \<Longrightarrow> est_size C c \<le> max (cc_target C) 1 \<or> length c = 1"
proof (induction C cur es rule: chunks.induct)
  case (1 C cur)
  then show ?case by (cases cur) (auto split: if_splits)
next
  case (2 C cur e es)
  then show ?case by (cases "cur = []") (auto simp: le_Suc_eq split: if_splits)
qed

definition cc_ok :: "'n ccfg \<Rightarrow> bool" where
  "cc_ok C \<longleftrightarrow> cc_mkdir C = Inr () \<and> (\<forall>level. inj (cc_name C level))
     \<and> (\<forall>p level es. es \<noteq> [] \<longrightarrow> (\<exists>sz len. cc_write C p level es = Inr (sz, len) \<and> 0 < sz \<and> sz \<le> len))"

fun made :: "'n ccfg \<Rightarrow> nat \<Rightarrow> nat \<Rightarrow> 'n entry list list \<Rightarrow> 'n table list \<Rightarrow> bool" where
  "made C level n [] [] = True"
| "made C level n (c # cs) (t # ts) =
     ((\<exists>now sz. 0 < sz \<and> t = table_new C (cc_name C level n) now c sz) \<and> made C level (Suc n) cs ts)"
| "made C level n _ _ = False"

lemma table_new_simps [simp]: "tb_path (table_new C p now es sz) = p" "tb_entries (table_new C p now es sz) = es"
  "tb_size (table_new C p now es sz) = sz" "tb_compressed (table_new C p now es sz)"
  by (simp_all add: table_new_def)

lemma made_entries: "made C level n cs ts \<Longrightarrow> map tb_entries ts = cs"
  by (induction C level n cs ts rule: made.induct) auto

lemma made_table: "made C level n cs ts \<Longrightarrow> t \<in> set ts \<Longrightarrow>
  \<exists>now sz i. 0 < sz \<and> n \<le> i \<and> i < n + length ts \<and> t = table_new C (cc_name C level i) now (tb_entries t) sz"
proof (induction C level n cs ts rule: made.induct)
  case (2 C level n c cs t' ts)
  show ?case
  proof (cases "t = t'")
    case True
    from 2(2) obtain now sz where "0 < sz" "t' = table_new C (cc_name C level n) now c sz" by auto
    then show ?thesis
      unfolding True by (intro exI [of _ now] exI [of _ sz] exI [of _ n]) simp
  next
    case False
    with 2 obtain now sz i where i: "0 < sz" "Suc n \<le> i" "i < Suc n + length ts"
        "t = table_new C (cc_name C level i) now (tb_entries t) sz"
      by auto
    show ?thesis by (rule exI [of _ now], rule exI [of _ sz], rule exI [of _ i]) (use i in auto)
  qed
qed auto

definition on_disk :: "cstate \<Rightarrow> 'n table list \<Rightarrow> bool" where
  "on_disk st ts \<longleftrightarrow> (\<forall>t \<in> set ts. \<exists>len. cs_disk st (tb_path t) = Some len \<and> tb_size t \<le> len)"

lemma create_ok:
  assumes "cc_ok C" and "es \<noteq> []"
  shows "\<exists>now sz len. create_sstable_from_entries C level es st
      = (Inr (table_new C (cc_name C level (cs_next st)) now es sz),
         st\<lparr>cs_next := Suc (cs_next st), cs_disk := (cs_disk st)(cc_name C level (cs_next st) \<mapsto> len)\<rparr>)
     \<and> 0 < sz \<and> sz \<le> len"
proof -
  obtain sz len where "cc_write C (cc_name C level (cs_next st)) level es = Inr (sz, len)" "0 < sz" "sz \<le> len"
    using assms unfolding cc_ok_def by blast
  then show ?thesis
    using assms(1) by (auto simp: create_sstable_from_entries_def cc_ok_def Let_def)
qed

lemma new_sstables_loop_ok:
  assumes ok: "cc_ok C"
  shows "\<exists>ts st'. new_sstables_loop C level acc cur (est_size C cur) es st = (Inr (acc @ ts), st')
     \<and> made C level (cs_next st) (chunks C cur es) ts \<and> on_disk st' ts
     \<and> (\<forall>p. p \<notin> paths ts \<longrightarrow> cs_disk st' p = cs_disk st p) \<and> cs_next st' = cs_next st + length ts"
proof (induction es arbitrary: acc cur st)
  case Nil
  show ?case
  proof (cases "cur = []")
    case False
    from create_ok [OF ok this, of level st] obtain now sz len where
      "create_sstable_from_entries C level cur st
        = (Inr (table_new C (cc_name C level (cs_next st)) now cur sz),
           st\<lparr>cs_next := Suc (cs_next st), cs_disk := (cs_disk st)(cc_name C level (cs_next st) \<mapsto> len)\<rparr>)"
      "0 < sz" "sz \<le> len" by blast
    with False show ?thesis
      by (intro exI [of _ "[table_new C (cc_name C level (cs_next st)) now cur sz]"])
         (auto simp: on_disk_def paths_def)
  qed (simp add: on_disk_def)
next
  case (Cons e es)
  let ?n = "estimated_sstable_bytes (cc_js C) e"
  show ?case
  proof (cases "max (cc_target C) 1 < est_size C cur + ?n \<and> cur \<noteq> []")
    case True
    then have "cur \<noteq> []" by simp
    from create_ok [OF ok this, of level st] obtain now sz len where
      c: "create_sstable_from_entries C level cur st
        = (Inr (table_new C (cc_name C level (cs_next st)) now cur sz),
           st\<lparr>cs_next := Suc (cs_next st), cs_disk := (cs_disk st)(cc_name C level (cs_next st) \<mapsto> len)\<rparr>)"
      "0 < sz" "sz \<le> len" by blast
    let ?t = "table_new C (cc_name C level (cs_next st)) now cur sz"
    let ?st = "st\<lparr>cs_next := Suc (cs_next st), cs_disk := (cs_disk st)(cc_name C level (cs_next st) \<mapsto> len)\<rparr>"
    obtain ts st' where
      IH: "new_sstables_loop C level (acc @ [?t]) [e] ?n es ?st = (Inr ((acc @ [?t]) @ ts), st')"
      "made C level (Suc (cs_next st)) (chunks C [e] es) ts" "on_disk st' ts"
      "\<forall>p. p \<notin> paths ts \<longrightarrow> cs_disk st' p = cs_disk ?st p" "cs_next st' = Suc (cs_next st) + length ts"
      using Cons.IH [of "acc @ [?t]" "[e]" ?st] by auto
    have "tb_path ?t \<notin> paths ts"
    proof
      assume "tb_path ?t \<in> paths ts"
      then obtain t where t: "t \<in> set ts" "tb_path t = cc_name C level (cs_next st)"
        by (auto simp: paths_def)
      from made_table [OF IH(2) t(1)] obtain i now' sz' where
        "Suc (cs_next st) \<le> i" "t = table_new C (cc_name C level i) now' (tb_entries t) sz'" by blast
      then have "cc_name C level i = cc_name C level (cs_next st)" "i \<noteq> cs_next st"
        using t(2) by (metis table_new_simps(1), simp)
      then show False using ok by (auto simp: cc_ok_def dest: injD)
    qed
    with IH(3,4) c(3) have d: "on_disk st' (?t # ts)"
      by (auto simp: on_disk_def)
    have "new_sstables_loop C level acc cur (est_size C cur) (e # es) st = (Inr (acc @ ?t # ts), st')"
      using True c(1) IH(1) by (simp add: Let_def)
    moreover have "made C level (cs_next st) (chunks C cur (e # es)) (?t # ts)"
      using True IH(2) c(2) by auto
    moreover have "\<forall>p. p \<notin> paths (?t # ts) \<longrightarrow> cs_disk st' p = cs_disk st p"
      using IH(4) by (simp add: paths_def)
    ultimately show ?thesis using d IH(5) by (intro exI [of _ "?t # ts"]) auto
  next
    case False
    with Cons.IH [of acc "cur @ [e]" st] show ?thesis by (auto simp: Let_def)
  qed
qed

lemma create_new_sstables_ok:
  assumes "cc_ok C"
  shows "\<exists>ts st'. create_new_sstables C level es st = (Inr ts, st')
     \<and> made C level (cs_next st) (chunks C [] es) ts \<and> on_disk st' ts
     \<and> (\<forall>p. p \<notin> paths ts \<longrightarrow> cs_disk st' p = cs_disk st p) \<and> cs_next st' = cs_next st + length ts"
  using new_sstables_loop_ok [OF assms, of level "[]" "[]" es st]
  by (cases "es = []") (auto simp: create_new_sstables_def on_disk_def)

subsection \<open>The level made\<close>

lemma table_new_ok:
  assumes "es \<noteq> []" and "sorted_entries es" and "\<forall>e \<in> set es. rd_entry S e = Inr e"
    and "cc_hash C = hash_of S" and "0 < sz"
  shows "table_ok S (table_new C p now es sz)"
proof -
  have "bf_ok (with_optimal_params (length es))" by (simp add: with_optimal_params_def)
  then have "might_contain (hash_of S) (fold (bf_add (hash_of S)) (map en_key es) (with_optimal_params (length es)))
      (en_key e)" if "e \<in> set es" for e
    using that by (intro bloom.query_adds) auto
  with assms show ?thesis by (simp add: table_ok_def table_new_def)
qed

lemma sorted_pieces:
  "sorted_entries (concat cs) \<Longrightarrow> \<forall>c \<in> set cs. c \<noteq> [] \<Longrightarrow>
    sorted_wrt (\<lambda>a b. en_key (last a) < en_key (hd b)) cs \<and> (\<forall>c \<in> set cs. sorted_entries c)"
proof (induction cs)
  case (Cons c cs)
  have "en_key (last c) < en_key (hd d)" if "d \<in> set cs" for d
  proof -
    have "c \<noteq> []" "d \<noteq> []" using Cons.prems(2) that by auto
    then have "last c \<in> set c" "hd d \<in> set (concat cs)" using that hd_in_set [of d]
      by (auto intro: bexI [of _ d])
    moreover have "\<forall>x \<in> set c. \<forall>y \<in> set (concat cs). en_key x < en_key y"
      using Cons.prems(1) by (simp add: sorted_entries_def sorted_wrt_append del: set_concat)
    ultimately show ?thesis by blast
  qed
  with Cons show ?case by (simp add: sorted_entries_def sorted_wrt_append)
qed simp

lemma made_level:
  assumes m: "made C level n (chunks C [] es) ts" and es: "sorted_entries es" "\<forall>e \<in> set es. rd_entry S e = Inr e"
    and h: "cc_hash C = hash_of S"
  shows "\<forall>t \<in> set ts. table_ok S t" and "disjoint_level ts" and "entries_of ts = es"
proof -
  have ents: "map tb_entries ts = chunks C [] es" using made_entries [OF m] .
  have cat: "concat (chunks C [] es) = es" by (simp add: concat_chunks)
  have piece: "tb_entries t \<in> set (chunks C [] es)" if "t \<in> set ts" for t
    using that ents by (metis imageI list.set_map)
  have pieces: "sorted_wrt (\<lambda>a b. en_key (last a) < en_key (hd b)) (chunks C [] es)"
      "\<forall>c \<in> set (chunks C [] es). sorted_entries c"
    using sorted_pieces [of "chunks C [] es"] es(1) cat chunks_nonempty by auto
  show ok: "\<forall>t \<in> set ts. table_ok S t"
  proof
    fix t assume t: "t \<in> set ts"
    from made_table [OF m t] obtain now sz i where
      e: "0 < sz" "t = table_new C (cc_name C level i) now (tb_entries t) sz" by blast
    have "set (tb_entries t) \<subseteq> set es" using piece [OF t] cat by (metis UN_upper set_concat)
    then have "table_ok S (table_new C (cc_name C level i) now (tb_entries t) sz)"
      using piece [OF t] pieces(2) chunks_nonempty [OF piece [OF t]] es(2) h e(1)
      by (intro table_new_ok) auto
    with e(2) show "table_ok S t" by simp
  qed
  show "entries_of ts = es" using ents cat by (simp add: entries_of_def)
  have "sorted_wrt (\<lambda>a b. en_key (last a) < en_key (hd b)) (map tb_entries ts)"
    using pieces(1) by (simp add: ents)
  then have "sorted_wrt (\<lambda>a b. en_key (last (tb_entries a)) < en_key (hd (tb_entries b))) ts"
    by (simp add: sorted_wrt_map)
  then show "disjoint_level ts"
    unfolding disjoint_level_def
    by (rule sorted_wrt_mono_rel [rotated]) (use ok in \<open>auto simp: table_ok_def\<close>)
qed

lemma new_tables_partition_lemma:
  assumes "cc_ok C" and "cc_hash C = hash_of S" and "sorted_entries es" and "\<forall>e \<in> set es. rd_entry S e = Inr e"
  shows "\<exists>ts st'. create_new_sstables C level es st = (Inr ts, st') \<and> entries_of ts = es
    \<and> disjoint_level ts \<and> on_disk st' ts \<and> (\<forall>p. p \<notin> paths ts \<longrightarrow> cs_disk st' p = cs_disk st p)
    \<and> (\<forall>t \<in> set ts. table_ok S t \<and> (est_size C (tb_entries t) \<le> max (cc_target C) 1 \<or> length (tb_entries t) = 1)
         \<and> (\<exists>i \<ge> cs_next st. i < cs_next st' \<and> tb_path t = cc_name C level i))"
proof -
  obtain ts st' where c: "create_new_sstables C level es st = (Inr ts, st')"
      "made C level (cs_next st) (chunks C [] es) ts" "on_disk st' ts"
      "\<forall>p. p \<notin> paths ts \<longrightarrow> cs_disk st' p = cs_disk st p" "cs_next st' = cs_next st + length ts"
    using create_new_sstables_ok [OF assms(1)] by blast
  note lvl = made_level [OF c(2) assms(3,4,2)]
  have "est_size C (tb_entries t) \<le> max (cc_target C) 1 \<or> length (tb_entries t) = 1" if "t \<in> set ts" for t
  proof -
    have "tb_entries t \<in> set (chunks C [] es)" using that made_entries [OF c(2)] by (metis imageI list.set_map)
    from chunks_size [OF _ this] show ?thesis by simp
  qed
  moreover have "\<exists>i \<ge> cs_next st. i < cs_next st' \<and> tb_path t = cc_name C level i" if "t \<in> set ts" for t
    using made_table [OF c(2) that] c(5) by (metis table_new_simps(1))
  ultimately show ?thesis using c lvl by blast
qed

lemma made_distinct: "cc_ok C \<Longrightarrow> made C level n cs ts \<Longrightarrow> distinct (map tb_path ts)"
proof (induction C level n cs ts rule: made.induct)
  case (2 C level n c cs t ts)
  then obtain now sz where t: "t = table_new C (cc_name C level n) now c sz" and m: "made C level (Suc n) cs ts"
    by auto
  have "tb_path t \<noteq> tb_path t'" if t': "t' \<in> set ts" for t'
  proof -
    obtain i now' sz' where i: "Suc n \<le> i" "t' = table_new C (cc_name C level i) now' (tb_entries t') sz'"
      using made_table [OF m t'] by blast
    then have "tb_path t' = cc_name C level i" by (metis table_new_simps(1))
    moreover have "inj (cc_name C level)" using 2(2) by (simp add: cc_ok_def)
    ultimately show ?thesis using t i(1) by (auto dest: injD)
  qed
  with 2 m show ?case by auto
qed simp_all

lemma new_tables_distinct:
  assumes "cc_ok C" and "create_new_sstables C level es st = (Inr ts, st')"
  shows "distinct (map tb_path ts)"
  using create_new_sstables_ok [OF assms(1), of level es st] made_distinct [OF assms(1)] assms(2) by fastforce

subsection \<open>Properties\<close>

text \<open>
  C19: what a merge keeps.  The entries left are in strict key order, and an entry is left exactly if
  it is the newest version of its key in the inputs and not a tombstone.
\<close>

theorem dedup_keeps_newest:
  assumes "no_ties es"
  shows "sorted_entries (deduplicate_entries es) \<and>
    (\<forall>e. e \<in> set (deduplicate_entries es) \<longleftrightarrow> is_newest es (en_key e) e \<and> \<not> en_deleted e)"
proof (intro conjI allI)
  show s: "sorted_entries (deduplicate_entries es)" by (rule dedup_spec(1))
  fix e
  note look = ent_map_sorted [OF s, of "en_key e" e]
  show "e \<in> set (deduplicate_entries es) \<longleftrightarrow> is_newest es (en_key e) e \<and> \<not> en_deleted e"
  proof
    assume e: "e \<in> set (deduplicate_entries es)"
    then have "e \<in> set es" "\<not> en_deleted e" using dedup_spec(2) by blast+
    then obtain e' where e': "is_newest es (en_key e) e'" using is_newest_exists by blast
    from dedup_spec(3) [OF assms this] e look have "e' = e" by (simp split: if_splits)
    with e' \<open>\<not> en_deleted e\<close> show "is_newest es (en_key e) e \<and> \<not> en_deleted e" by simp
  next
    assume "is_newest es (en_key e) e \<and> \<not> en_deleted e"
    with dedup_spec(3) [OF assms] look show "e \<in> set (deduplicate_entries es)" by auto
  qed
qed

definition toy_ver :: "u8 \<Rightarrow> nat \<Rightarrow> bool \<Rightarrow> nat entry" where
  "toy_ver k ts d = \<lparr>en_key = [k], en_value = VInt64 (word_of_nat ts), en_ts = ts, en_deleted = d\<rparr>"

theorem dedup_keeps_newest_witness:
  "toy_ver 1 5 False \<in> set (deduplicate_entries [toy_ver 1 5 False, toy_ver 2 6 True, toy_ver 1 3 False, toy_ver 2 1 False])"
proof -
  let ?es = "[toy_ver 1 5 False, toy_ver 2 6 True, toy_ver 1 3 False, toy_ver 2 1 False]"
  have "no_ties ?es" by (simp add: no_ties_def toy_ver_def)
  from dedup_keeps_newest [OF this] show ?thesis by (simp add: is_newest_def toy_ver_def)
qed

text \<open>
  C20: the tables a compaction writes hold exactly the entries left, in order; each is well-formed
  and non-empty, their key ranges are disjoint and ascending, each stays within the target size
  unless it holds a single entry, and their files are on disk under names not used before.
\<close>

theorem new_tables_partition:
  assumes "cc_ok C" and "cc_hash C = hash_of S" and "sorted_entries es" and "\<forall>e \<in> set es. rd_entry S e = Inr e"
  shows "\<exists>ts st'. create_new_sstables C level es st = (Inr ts, st') \<and> entries_of ts = es
    \<and> disjoint_level ts \<and> on_disk st' ts \<and> (\<forall>p. p \<notin> paths ts \<longrightarrow> cs_disk st' p = cs_disk st p)
    \<and> (\<forall>t \<in> set ts. table_ok S t \<and> (est_size C (tb_entries t) \<le> max (cc_target C) 1 \<or> length (tb_entries t) = 1)
         \<and> (\<exists>i \<ge> cs_next st. i < cs_next st' \<and> tb_path t = cc_name C level i))"
  by (rule new_tables_partition_lemma [OF assms])

definition toy_name :: "nat \<Rightarrow> nat \<Rightarrow> path" where
  "toy_name level i = replicate i CHR ''i'' @ CHR ''l'' # replicate level CHR ''l''"

lemma inj_toy_name: "inj (toy_name level)"
proof (rule injI)
  fix i j assume "toy_name level i = toy_name level j"
  from arg_cong [OF this, of length] show "i = j" by (simp add: toy_name_def)
qed

definition toy_cfg :: "nat \<Rightarrow> nat ccfg" where
  "toy_cfg target = \<lparr>cc_strategy = Leveled, cc_levels = 4, cc_max_sstables = 1, cc_target = target,
     cc_threshold = (\<lambda>_. 1000), cc_adaptive = None, cc_js = (\<lambda>_. []), cc_hash = (\<lambda>_ _. 0),
     cc_order = id, cc_name = toy_name, cc_now = (\<lambda>_. 0), cc_mkdir = Inr (),
     cc_write = (\<lambda>_ _ es. Inr (length es, length es)), cc_slow = (\<lambda>_. False)\<rparr>"

definition toy_senv :: "nat senv" where
  "toy_senv = \<lparr>hash_of = (\<lambda>_ _. 0), rd_entry = Inr\<rparr>"

definition toy_cstate :: "nat table list \<Rightarrow> cstate" where
  "toy_cstate ts = \<lparr>cs_disk = map_of (map (\<lambda>t. (tb_path t, tb_size t)) ts), cs_next = 0, cs_stats = no_stats\<rparr>"

lemma toy_cfg_ok: "cc_ok (toy_cfg target)" "cc_hash (toy_cfg target) = hash_of toy_senv"
  by (auto simp: cc_ok_def toy_cfg_def toy_senv_def inj_toy_name)

theorem new_tables_partition_witness:
  "\<exists>ts st'. create_new_sstables (toy_cfg 150) 1 [toy_ver 1 1 False, toy_ver 2 2 False, toy_ver 3 3 False]
     (toy_cstate []) = (Inr ts, st') \<and> disjoint_level ts"
proof -
  have "sorted_entries [toy_ver 1 1 False, toy_ver 2 2 False, toy_ver 3 3 False]"
      "\<forall>e \<in> set [toy_ver 1 1 False, toy_ver 2 2 False, toy_ver 3 3 False]. rd_entry toy_senv e = Inr e"
    by (simp_all add: sorted_entries_def toy_ver_def toy_senv_def)
  from new_tables_partition [OF toy_cfg_ok this] show ?thesis by blast
qed

end
