(* ===== verification/Compaction_Reads.thy ===== *)
theory Compaction_Reads
  imports Compaction_Merge
begin

text \<open>
  What compaction does to reads: where the answers stay the same, and the situations in which they
  change.  \<open>sget\<close> is a point read of the tables with nothing running beside it.
\<close>

definition sget :: "'n senv \<Rightarrow> nat \<Rightarrow> 'n levels \<Rightarrow> key \<Rightarrow> 'n val option" where
  "sget S count L k = get_from_sstables S count (\<lambda>_. L) (\<lambda>_ _. L) k"

lemma sget_correct: "levels_ok S L \<Longrightarrow> sget S count L k = live (stored_entry count L k)"
  by (simp add: sget_def get_from_sstables_correct(1))

lemma first_entry_cong: "(\<And>l. l \<in> set ls \<Longrightarrow> L l = M l) \<Longrightarrow> first_entry L k ls = first_entry M k ls"
  by (induction ls) (auto split: option.split)

text \<open>The two upper levels and the rest.\<close>

definition top_entry :: "'n table list \<Rightarrow> 'n table list \<Rightarrow> key \<Rightarrow> 'n entry option" where
  "top_entry l0 l1 k = (case newest_in l0 k of Some e \<Rightarrow> Some e | None \<Rightarrow> ent_map (entries_of l1) k)"

lemma stored_two: "2 \<le> count \<Longrightarrow> stored_entry count L k = (case top_entry (L 0) (L 1) k of
    Some e \<Rightarrow> Some e | None \<Rightarrow> first_entry L k [2..<count])"
proof -
  assume "2 \<le> count"
  then have "[0..<count] = 0 # 1 # [2..<count]"
    by (simp add: upt_conv_Cons numeral_2_eq_2)
  then show ?thesis
    by (auto simp: stored_entry_def top_entry_def level_entry_def entries_of_def split: option.split)
qed

text \<open>Every version in level 0 is newer than those of its key in level 1.\<close>

definition newer_than :: "'n entry list \<Rightarrow> 'n entry list \<Rightarrow> bool" where
  "newer_than xs ys \<longleftrightarrow> (\<forall>x \<in> set xs. \<forall>y \<in> set ys. en_key x = en_key y \<longrightarrow> en_ts y < en_ts x)"

lemma top_entry_newest:
  assumes t: "\<forall>t \<in> set (l0 @ l1). table_ok S t" and d: "disjoint_level l1"
    and order: "newer_than (entries_of l0) (entries_of l1)"
  shows "case top_entry l0 l1 k of None \<Rightarrow> (\<forall>e \<in> set (entries_of (l0 @ l1)). en_key e \<noteq> k)
     | Some e \<Rightarrow> is_newest (entries_of (l0 @ l1)) k e"
proof -
  have spec: "case newest_in l0 k of None \<Rightarrow> (\<forall>e \<in> set (entries_of l0). en_key e \<noteq> k)
      | Some e \<Rightarrow> is_newest (entries_of l0) k e"
    by (rule newest_in_spec [where S = S]) (use t in simp)
  have srt: "sorted_entries (entries_of l1)"
    unfolding entries_of_def by (rule sorted_concat [OF _ d, of S]) (use t in simp)
  show ?thesis
  proof (cases "newest_in l0 k")
    case (Some e)
    with spec have e: "is_newest (entries_of l0) k e" by simp
    have "en_ts e' \<le> en_ts e" if "e' \<in> set (entries_of l1)" "en_key e' = k" for e'
      using e that order unfolding is_newest_def newer_than_def by fastforce
    with e Some show ?thesis by (auto simp: top_entry_def is_newest_def)
  next
    case None
    with spec have none: "\<forall>e \<in> set (entries_of l0). en_key e \<noteq> k" by simp
    show ?thesis
    proof (cases "ent_map (entries_of l1) k")
      case e: (Some e)
      have "e' = e" if "e' \<in> set (entries_of l1)" "en_key e' = k" for e'
        using ent_map_sorted [OF srt, of k] that e by (metis option.inject)
      with None none e ent_map_in [OF e] show ?thesis by (auto simp: top_entry_def is_newest_def)
    next
      case n1: None
      then have "\<forall>e \<in> set (entries_of l1). en_key e \<noteq> k" by (simp add: ent_map_None)
      with None none n1 show ?thesis by (auto simp: top_entry_def)
    qed
  qed
qed

text \<open>Reads depend only on the versions in the two upper levels, and not even on the tombstones
  among them where nothing below is hidden.\<close>

definition hides_nothing :: "nat \<Rightarrow> 'n levels \<Rightarrow> nat \<Rightarrow> 'n entry list \<Rightarrow> bool" where
  "hides_nothing count L below es \<longleftrightarrow> (\<forall>e \<in> set es. en_deleted e \<longrightarrow>
     (\<forall>l. below < l \<and> l < count \<longrightarrow> (\<forall>x \<in> set (entries_of (L l)). en_key x \<noteq> en_key e)))"

lemma level_entry_None:
  assumes "\<forall>t \<in> set (L l). table_ok S t" and "\<forall>x \<in> set (entries_of (L l)). en_key x \<noteq> k"
  shows "level_entry l (L l) k = None"
proof (cases "newest_in (L l) k")
  case (Some e)
  with newest_in_spec [OF assms(1), of k] assms(2) show ?thesis by (auto simp: is_newest_def)
qed (use assms(2) in \<open>auto simp: level_entry_def ent_map_None entries_of_def\<close>)

lemma first_entry_None:
  "levels_ok S L \<Longrightarrow> (\<And>l. l \<in> set ls \<Longrightarrow> \<forall>x \<in> set (entries_of (L l)). en_key x \<noteq> k) \<Longrightarrow>
   first_entry L k ls = None"
proof (induction ls)
  case (Cons l ls)
  have "level_entry l (L l) k = None"
    by (rule level_entry_None) (use Cons.prems in \<open>auto simp: levels_ok_def\<close>)
  moreover have "first_entry L k ls = None"
    by (rule Cons.IH [OF Cons.prems(1)], rule Cons.prems(2)) simp
  ultimately show ?case by simp
qed simp

lemma hidden_first:
  assumes "levels_ok S L" and "hides_nothing count L below es" and "is_newest es k e" and "en_deleted e"
  shows "first_entry L k [Suc below..<count] = None"
proof (rule first_entry_None [OF assms(1)])
  fix l assume "l \<in> set [Suc below..<count]"
  then have "below < l \<and> l < count" by simp
  with assms(2-4) show "\<forall>x \<in> set (entries_of (L l)). en_key x \<noteq> k"
    unfolding hides_nothing_def is_newest_def by metis
qed

subsection \<open>The merge of readable inputs\<close>

definition readable :: "'n senv \<Rightarrow> 'n ccfg \<Rightarrow> cstate \<Rightarrow> 'n table list \<Rightarrow> bool" where
  "readable S C st ts \<longleftrightarrow> (\<forall>t \<in> set ts. table_ok S t \<and> \<not> cc_slow C (tb_path t)) \<and> on_disk st ts"

lemma all_entries_ok: "table_ok S t \<Longrightarrow> tb_all_entries S t = Inr (tb_entries t)"
proof -
  assume t: "table_ok S t"
  have "res_all (\<lambda>e. case rd_entry S e of Inl _ \<Rightarrow> Inl (Internal ''Failed to read key'') | Inr e' \<Rightarrow> Inr e')
      (tb_entries t) = Inr (map id (tb_entries t))"
    by (rule res_all_Inr) (use t in \<open>simp add: table_ok_def\<close>)
  with t show ?thesis by (simp add: tb_all_entries_def table_ok_def)
qed

lemma merge_ok:
  assumes "readable S C st ts"
  shows "merge_sstables_safe S C st ts = Inr (sort_entries (entries_of ts))"
proof -
  have r: "read_sstable_entries_safe S C st t = tb_entries t \<and> tb_count t = length (tb_entries t)" if m: "t \<in> set ts" for t
  proof -
    have t: "table_ok S t" "\<not> cc_slow C (tb_path t)" using assms m by (auto simp: readable_def)
    obtain len where "cs_disk st (tb_path t) = Some len" "tb_size t \<le> len"
      using assms m by (auto simp: readable_def on_disk_def)
    with t all_entries_ok [OF t(1)] show ?thesis
      by (simp add: read_sstable_entries_safe_def read_sstable_entries_def table_ok_def)
  qed
  then have "concat (map (read_sstable_entries_safe S C st) ts) = entries_of ts"
    by (simp add: entries_of_def cong: map_cong)
  with r show ?thesis by (auto simp: merge_sstables_safe_def comp_def)
qed

lemma valid_ok: "\<forall>t \<in> set ts. table_ok S t \<Longrightarrow> valid_sstables_for_compact ts = ts"
  by (auto simp: valid_sstables_for_compact_def table_ok_def tb_index_size_def intro!: filter_True)

lemma sort_leveled_id:
  assumes "\<forall>t \<in> set ts. table_ok S t" and "disjoint_level ts"
  shows "sort_leveled_sstables ts = ts"
proof -
  have "tb_smallest t \<le> tb_largest t" if "t \<in> set ts" for t
    using table_range [of S t "hd (tb_entries t)"] assms(1) that by (force simp: table_ok_def)
  then have "sorted_wrt (\<lambda>a b. (tb_largest a, tb_smallest a) \<le> (tb_largest b, tb_smallest b)) ts"
    using assms(2) unfolding disjoint_level_def
    by (elim sorted_wrt_mono_rel [rotated]) (auto intro: less_le_trans)
  then show ?thesis
    by (simp add: sort_leveled_sstables_def sort_key_id_if_sorted sorted_wrt_map)
qed

lemma disk_reclaim: "cs_disk (reclaim_compacted_inputs rd ts st) p =
  (if p \<in> paths ts \<and> rd p = (0, 0) then None else cs_disk st p)"
proof (induction ts arbitrary: st)
  case (Cons t ts)
  let ?st = "if rd (tb_path t) = (0, 0) then st\<lparr>cs_disk := (cs_disk st)(tb_path t := None)\<rparr> else st"
  have "reclaim_compacted_inputs rd (t # ts) st = reclaim_compacted_inputs rd ts ?st"
    by (cases "rd (tb_path t)") (simp add: reclaim_compacted_inputs_def)
  with Cons [of ?st] show ?case by (auto simp: paths_def)
qed (simp add: reclaim_compacted_inputs_def paths_def)

subsection \<open>Draining level 0 into level 1\<close>

text \<open>\<open>M2\<close> is \<open>M1\<close> after the flushes that finished while the inputs were merged.\<close>

definition flushed_between :: "'n senv \<Rightarrow> 'n levels \<Rightarrow> 'n table list \<Rightarrow> 'n levels \<Rightarrow> bool" where
  "flushed_between S M1 new M2 \<longleftrightarrow> levels_ok S M1 \<and> M2 = M1(0 := M1 0 @ new) \<and> (\<forall>t \<in> set new. table_ok S t)
     \<and> paths new \<inter> paths (M1 0 @ M1 1) = {} \<and> no_ties (entries_of (M1 0 @ M1 1 @ new))
     \<and> newer_than (entries_of (M1 0)) (entries_of (M1 1))
     \<and> newer_than (entries_of new) (entries_of (M1 0 @ M1 1))"

lemma flushed_facts:
  assumes "flushed_between S M1 new M2"
  shows "\<forall>t \<in> set (M1 0 @ M1 1). table_ok S t" and "\<forall>t \<in> set new. table_ok S t" and "levels_ok S M2"
    and "disjoint_level (M1 1)" and "no_ties (entries_of (M1 0 @ M1 1))"
    and "concurrent (paths (M1 0 @ M1 1)) (M2 0) = new" and "concurrent (paths (M1 0 @ M1 1)) (M2 1) = []"
proof -
  have ok: "levels_ok S M1" and new: "\<forall>t \<in> set new. table_ok S t" and M2: "M2 = M1(0 := M1 0 @ new)"
      and p: "paths new \<inter> paths (M1 0 @ M1 1) = {}" and nt: "no_ties (entries_of (M1 0 @ M1 1 @ new))"
    using assms by (simp_all add: flushed_between_def)
  show "\<forall>t \<in> set (M1 0 @ M1 1). table_ok S t" using ok by (auto simp: levels_ok_def)
  show "\<forall>t \<in> set new. table_ok S t" by (rule new)
  show "levels_ok S M2" using ok new M2 by (auto simp: levels_ok_def)
  show "disjoint_level (M1 1)" using ok by (simp add: levels_ok_def)
  show "no_ties (entries_of (M1 0 @ M1 1))" by (rule no_ties_mono [OF nt]) auto
  have "filter (\<lambda>t. tb_path t \<notin> paths (M1 0 @ M1 1) \<and> \<not> tb_marked t) new = new"
    using new p by (intro filter_True) (auto simp: table_ok_def paths_def)
  moreover have "filter (\<lambda>t. tb_path t \<notin> paths (M1 0 @ M1 1) \<and> \<not> tb_marked t) (M1 l) = []" if "l = 0 \<or> l = 1" for l
    using that by (auto simp: paths_def filter_empty_conv)
  ultimately show "concurrent (paths (M1 0 @ M1 1)) (M2 0) = new" "concurrent (paths (M1 0 @ M1 1)) (M2 1) = []"
    by (simp_all add: concurrent_def M2)
qed

text \<open>The tables a merge of \<open>ts\<close> gives.\<close>

definition merged_into :: "'n senv \<Rightarrow> 'n ccfg \<Rightarrow> nat \<Rightarrow> 'n table list \<Rightarrow> cstate \<Rightarrow> 'n table list \<Rightarrow> cstate \<Rightarrow> bool" where
  "merged_into S C level ts st outs st1 \<longleftrightarrow> (\<forall>t \<in> set outs. table_ok S t) \<and> disjoint_level outs
     \<and> entries_of outs = deduplicate_entries (entries_of ts) \<and> on_disk st1 outs
     \<and> (\<forall>p. p \<notin> paths outs \<longrightarrow> cs_disk st1 p = cs_disk st p)
     \<and> (\<forall>t \<in> set outs. \<exists>i \<ge> cs_next st. i < cs_next st1 \<and> tb_path t = cc_name C level i)
     \<and> distinct (map tb_path outs)"

lemma merge_create:
  assumes C: "cc_ok C" "cc_hash C = hash_of S" and ts: "readable S C st ts"
  shows "\<exists>outs st1. create_new_sstables C level (deduplicate_entries (sort_entries (entries_of ts))) st = (Inr outs, st1)
     \<and> merged_into S C level ts st outs st1"
proof -
  let ?es = "deduplicate_entries (entries_of ts)"
  have "rd_entry S e = Inr e" if "e \<in> set ?es" for e
  proof -
    from dedup_spec(2) [OF that] obtain t where "t \<in> set ts" "e \<in> set (tb_entries t)"
      by (auto simp: in_entries_of)
    with ts show ?thesis by (auto simp: readable_def table_ok_def)
  qed
  then have rd: "\<forall>e \<in> set ?es. rd_entry S e = Inr e" by blast
  have "deduplicate_entries (sort_entries (entries_of ts)) = ?es" by (simp add: deduplicate_entries_def)
  with new_tables_partition_lemma [OF C dedup_spec(1) rd, of level st] new_tables_distinct [OF C(1), of level ?es st]
  show ?thesis by (auto simp: merged_into_def)
qed

lemma compact_all_result:
  assumes C: "cc_ok C" "cc_hash C = hash_of S" "2 \<le> cc_levels C" and f: "flushed_between S M1 new M2"
    and rd: "readable S C st (M1 0 @ M1 1)"
  shows "compact_all S C M1 (Some M2) quiet st = (Inr None, st) \<or>
    (\<exists>outs st1. compact_all S C M1 (Some M2) quiet st
        = (Inr (Some (M2(0 := new, 1 := outs))), reclaim_compacted_inputs quiet (M1 0 @ M1 1) st1)
      \<and> merged_into S C 1 (M1 0 @ M1 1) st outs st1)"
proof -
  note ff = flushed_facts [OF f]
  have v: "valid_sstables_for_compact (M1 0) = M1 0" "valid_sstables_for_compact (M1 1) = M1 1"
    using ff(1) by (auto intro!: valid_ok)
  obtain outs st1 where outs: "create_new_sstables C 1 (deduplicate_entries (sort_entries (entries_of (M1 0 @ M1 1)))) st
      = (Inr outs, st1)" "merged_into S C 1 (M1 0 @ M1 1) st outs st1"
    using merge_create [OF C(1,2) rd, of 1] by blast
  have ok: "\<forall>t \<in> set outs. table_ok S t" "disjoint_level outs" using outs(2) by (simp_all add: merged_into_def)
  have "\<not> (\<exists>t \<in> set (M1 0 @ M1 1). \<not> tb_ready t \<or> tb_marked t)" using ff(1) by (auto simp: table_ok_def)
  then have c: "compact_level_sstables S C 1 (M1 0 @ M1 1) st = (Inr outs, st1)"
    using outs(1) merge_ok [OF rd] by (simp add: compact_level_sstables_def del: set_append)
  show ?thesis
    using C(3) c outs(2) ff(6,7) sort_leveled_id [OF ok]
    by (simp add: compact_all_def v Let_def del: One_nat_def) blast
qed

text \<open>Reading after such a merge: \<open>new\<close> stays in level 0, \<open>outs\<close> takes the place of the rest.\<close>

lemma reads_after_merge:
  assumes M2: "levels_ok S M2" and L: "levels_ok S L" and count: "2 \<le> count"
    and new: "\<forall>t \<in> set new. table_ok S t" and old: "\<forall>t \<in> set (l0 @ l1). table_ok S t" "disjoint_level l1"
    and top: "M2 0 = l0 @ new" "M2 1 = l1" "L 0 = new" "L 1 = outs" "\<And>l. 2 \<le> l \<Longrightarrow> L l = M2 l"
    and outs: "entries_of outs = deduplicate_entries (entries_of (l0 @ l1))"
    and ties: "no_ties (entries_of (l0 @ l1 @ new))" and order: "newer_than (entries_of l0) (entries_of l1)"
      "newer_than (entries_of new) (entries_of (l0 @ l1))"
    and hide: "hides_nothing count M2 1 (entries_of (l0 @ l1))"
  shows "sget S count L k = sget S count M2 k"
proof -
  have deep: "first_entry L k [2..<count] = first_entry M2 k [2..<count]"
    by (rule first_entry_cong) (simp add: top(5))
  have spec_new: "case newest_in new k of None \<Rightarrow> (\<forall>e \<in> set (entries_of new). en_key e \<noteq> k)
      | Some e \<Rightarrow> is_newest (entries_of new) k e"
    by (rule newest_in_spec [OF new])
  have spec_old: "case top_entry l0 l1 k of None \<Rightarrow> (\<forall>e \<in> set (entries_of (l0 @ l1)). en_key e \<noteq> k)
      | Some e \<Rightarrow> is_newest (entries_of (l0 @ l1)) k e"
    by (rule top_entry_newest [OF old order(1)])
  have order2: "newer_than (entries_of (l0 @ new)) (entries_of l1)"
    using order by (auto simp: newer_than_def)
  have "\<forall>t \<in> set ((l0 @ new) @ l1). table_ok S t" using new old(1) by auto
  from top_entry_newest [OF this old(2) order2, of k]
  have spec_all: "case top_entry (l0 @ new) l1 k of None \<Rightarrow> (\<forall>e \<in> set (entries_of ((l0 @ new) @ l1)). en_key e \<noteq> k)
      | Some e \<Rightarrow> is_newest (entries_of ((l0 @ new) @ l1)) k e" .
  have ties': "no_ties (entries_of ((l0 @ new) @ l1))" and ties_old: "no_ties (entries_of (l0 @ l1))"
    by (rule no_ties_mono [OF ties]; auto)+
  note st = sget_correct [OF M2, of count k] sget_correct [OF L, of count k]
    stored_two [OF count, of M2 k] stored_two [OF count, of L k]
  show ?thesis
  proof (cases "newest_in new k")
    case (Some e)
    with spec_new have e: "is_newest (entries_of new) k e" by simp
    then have all: "is_newest (entries_of ((l0 @ new) @ l1)) k e"
      using order(2) by (auto simp: is_newest_def newer_than_def intro: less_imp_le)
    then obtain e' where "top_entry (l0 @ new) l1 k = Some e'" "is_newest (entries_of ((l0 @ new) @ l1)) k e'"
      using spec_all by (cases "top_entry (l0 @ new) l1 k") (auto simp: is_newest_def)
    with newest_unique [OF ties' all] have "top_entry (l0 @ new) l1 k = Some e" by auto
    with Some show ?thesis by (simp add: st top top_entry_def [of new] del: One_nat_def)
  next
    case None
    with spec_new have none: "\<forall>e \<in> set (entries_of new). en_key e \<noteq> k" by simp
    have same: "top_entry (l0 @ new) l1 k = top_entry l0 l1 k"
    proof (cases "top_entry l0 l1 k")
      case (Some e)
      with spec_old none have e: "is_newest (entries_of ((l0 @ new) @ l1)) k e"
        by (auto simp: is_newest_def)
      then obtain e' where "top_entry (l0 @ new) l1 k = Some e'" "is_newest (entries_of ((l0 @ new) @ l1)) k e'"
        using spec_all by (cases "top_entry (l0 @ new) l1 k") (auto simp: is_newest_def)
      with newest_unique [OF ties' e] Some show ?thesis by auto
    next
      case n: None
      with spec_old none spec_all show ?thesis
        by (cases "top_entry (l0 @ new) l1 k") (auto simp: is_newest_def)
    qed
    have out: "top_entry new outs k = ent_map (deduplicate_entries (entries_of (l0 @ l1))) k"
      using None outs by (simp add: top_entry_def)
    show ?thesis
    proof (cases "top_entry l0 l1 k")
      case n: None
      with spec_old dedup_spec(4) [of "entries_of (l0 @ l1)" k]
      have "ent_map (deduplicate_entries (entries_of (l0 @ l1))) k = None" by simp
      with n show ?thesis by (simp add: same out deep st top(1-4) del: One_nat_def)
    next
      case (Some e)
      with spec_old have e: "is_newest (entries_of (l0 @ l1)) k e" by simp
      note d = dedup_spec(3) [OF ties_old e]
      show ?thesis
      proof (cases "en_deleted e")
        case True
        have "first_entry M2 k [2..<count] = None"
          using hidden_first [OF M2 hide e True] by (simp add: numeral_2_eq_2)
        with Some d True show ?thesis by (simp add: same out deep st top(1-4) live_def del: One_nat_def)
      qed (use Some d in \<open>simp add: same out deep st top(1-4) del: One_nat_def\<close>)
    qed
  qed
qed

subsection \<open>Compacting level 0 in place\<close>

lemma newest_in_eq:
  assumes "\<forall>t \<in> set ts. table_ok S t" and "no_ties (entries_of ts)"
  shows "newest_in ts k = Some e \<longleftrightarrow> is_newest (entries_of ts) k e"
    and "newest_in ts k = None \<longleftrightarrow> (\<forall>e \<in> set (entries_of ts). en_key e \<noteq> k)"
proof -
  note spec = newest_in_spec [OF assms(1), of k]
  show "newest_in ts k = Some e \<longleftrightarrow> is_newest (entries_of ts) k e"
    using spec newest_unique [OF assms(2)] by (cases "newest_in ts k") (auto simp: is_newest_def)
  show "newest_in ts k = None \<longleftrightarrow> (\<forall>e \<in> set (entries_of ts). en_key e \<noteq> k)"
    using spec by (cases "newest_in ts k") (auto simp: is_newest_def)
qed

lemma stored_one: "1 \<le> count \<Longrightarrow> stored_entry count L k = (case newest_in (L 0) k of
    Some e \<Rightarrow> Some e | None \<Rightarrow> first_entry L k [1..<count])"
  by (simp add: stored_entry_def upt_conv_Cons level_entry_def split: option.split)

lemma reads_after_l0:
  assumes M: "levels_ok S M" and L: "levels_ok S L" and count: "1 \<le> count"
    and top: "M 0 = l0 @ new" "L 0 = outs @ new" "\<And>l. 1 \<le> l \<Longrightarrow> L l = M l"
    and outs: "entries_of outs = deduplicate_entries (entries_of l0)"
    and ties: "no_ties (entries_of (l0 @ new))" and order: "newer_than (entries_of new) (entries_of l0)"
    and hide: "hides_nothing count M 0 (entries_of l0)"
  shows "sget S count L k = sget S count M k"
proof -
  have deep: "first_entry L k [1..<count] = first_entry M k [1..<count]"
    by (rule first_entry_cong) (simp add: top(3))
  have tM: "\<forall>t \<in> set (l0 @ new). table_ok S t" and tL: "\<forall>t \<in> set (outs @ new). table_ok S t"
    using M L by (auto simp: levels_ok_def simp flip: top(1,2))
  have sub: "set (entries_of outs) \<subseteq> set (entries_of l0)"
    using dedup_spec(2) outs by auto
  have tiesL: "no_ties (entries_of (outs @ new))"
    by (rule no_ties_mono [OF ties]) (use sub in auto)
  note nM = newest_in_eq [OF tM ties, of k] and nL = newest_in_eq [OF tL tiesL, of k]
  note st = sget_correct [OF M, of count k] sget_correct [OF L, of count k]
    stored_one [OF count, of M k] stored_one [OF count, of L k]
  show ?thesis
  proof (cases "\<exists>e \<in> set (entries_of new). en_key e = k")
    case True
    then obtain e where e: "is_newest (entries_of new) k e" using is_newest_exists by blast
    have "\<forall>e' \<in> set (entries_of l0). en_key e' = k \<longrightarrow> en_ts e' \<le> en_ts e"
      using e order by (auto simp: is_newest_def newer_than_def intro: less_imp_le)
    then have "is_newest (entries_of (l0 @ new)) k e" "is_newest (entries_of (outs @ new)) k e"
      using e sub by (auto simp: is_newest_def)
    then have "newest_in (l0 @ new) k = Some e" "newest_in (outs @ new) k = Some e"
      using nM(1) nL(1) by blast+
    then show ?thesis by (simp add: st top(1,2))
  next
    case False
    then have none: "\<forall>e \<in> set (entries_of new). en_key e \<noteq> k" by simp
    show ?thesis
    proof (cases "\<exists>e \<in> set (entries_of l0). en_key e = k")
      case old: True
      then obtain e where e: "is_newest (entries_of l0) k e" using is_newest_exists by blast
      have ties0: "no_ties (entries_of l0)" by (rule no_ties_mono [OF ties]) simp
      have eM: "newest_in (M 0) k = Some e" using e none nM(1) by (auto simp: top(1) is_newest_def)
      note d = dedup_spec(3) [OF ties0 e]
      have look: "ent_map (entries_of outs) k = Some x \<longleftrightarrow> x \<in> set (entries_of outs) \<and> en_key x = k" for x
        by (rule ent_map_sorted) (simp add: outs dedup_spec(1))
      show ?thesis
      proof (cases "en_deleted e")
        case True
        then have "ent_map (entries_of outs) k = None" using d outs by simp
        then have "newest_in (L 0) k = None" using none nL(2) by (auto simp: top(2) ent_map_None)
        moreover have "first_entry M k [1..<count] = None"
          using hidden_first [OF M hide e True] by simp
        ultimately show ?thesis using eM True by (simp add: st deep live_def del: One_nat_def)
      next
        case live: False
        then have m: "ent_map (entries_of outs) k = Some e" using d outs by simp
        then have "is_newest (entries_of (outs @ new)) k e"
          using look none e sub by (auto simp: is_newest_def)
        then have "newest_in (L 0) k = Some e" using nL(1) by (simp add: top(2))
        with eM show ?thesis by (simp add: st)
      qed
    next
      case no: False
      then have "newest_in (M 0) k = None" "newest_in (L 0) k = None"
        using nM(2) nL(2) none sub by (auto simp: top(1,2))
      then show ?thesis by (simp add: st deep del: One_nat_def)
    qed
  qed
qed


lemma compact_level0_result:
  assumes C: "cc_ok C" "cc_hash C = hash_of S" "1 \<le> cc_levels C" "cc_strategy C \<in> {Leveled, Hybrid}"
      "cc_adaptive C = None"
    and f: "flushed_between S M1 new M2" and rd: "readable S C st (M1 0)" and due: "should_compact_level C 0 (M1 0)"
  shows "\<exists>outs st1 st2 gone. compact_if_needed S C False M1 (Some M1) (Some M2) quiet st
        = (Inr (Some (M2(0 := outs @ new))), reclaim_compacted_inputs quiet gone st2)
      \<and> merged_into S C 0 (M1 0) st outs st1 \<and> cs_disk st2 = cs_disk st1 \<and> cs_next st2 = cs_next st1
      \<and> set gone = {t \<in> set (M1 0). tb_path t \<notin> paths (outs @ new)}"
proof -
  note ff = flushed_facts [OF f]
  obtain outs st1 where outs: "create_new_sstables C 0 (deduplicate_entries (sort_entries (entries_of (M1 0)))) st
      = (Inr outs, st1)" "merged_into S C 0 (M1 0) st outs st1"
    using merge_create [OF C(1,2) rd, of 0] by blast
  have ne: "M1 0 \<noteq> []" using due by (auto simp: should_compact_level_def)
  have sel: "select_sstables_for_compaction C 0 (M1 0) = M1 0"
    using C(4) by (auto simp: select_sstables_for_compaction_def select_leveled_sstables_def)
  have gone: "filter (\<lambda>t. \<not> (\<exists>c \<in> set (M1 0). tb_path c = tb_path t)) (M1 0) = []"
    by (auto simp: filter_empty_conv)
  obtain st2 where c: "compact_level S C 0 M1 st = (Inr outs, st2)" "cs_disk st2 = cs_disk st1" "cs_next st2 = cs_next st1"
    using outs(1) merge_ok [OF rd] ne sel gone by (auto simp: compact_level_def Let_def)
  have conc: "concurrent (paths (M1 0)) (M2 0) = new"
  proof -
    have "concurrent (paths (M1 0)) new = new"
      using ff(2) f by (auto simp: concurrent_def flushed_between_def table_ok_def paths_def intro!: filter_True)
    moreover have "concurrent (paths (M1 0)) (M1 0) = []"
      by (auto simp: concurrent_def filter_empty_conv paths_def)
    moreover have "M2 0 = M1 0 @ new" using f by (simp add: flushed_between_def)
    ultimately show ?thesis by (simp add: concurrent_def)
  qed
  have find: "find (\<lambda>l. should_compact_level C l (M1 l)) [0..<cc_levels C] = Some 0"
    using C(3) due by (simp add: upt_conv_Cons)
  have inner: "compact_if_needed_inner S C M1 (Some M1) (Some M2) st
      = (Inr (Some (M2(0 := outs @ new)), filter (\<lambda>t. tb_path t \<notin> paths (outs @ new)) (M1 0)), st2)"
    using C(5) find due c(1) conc by (simp add: compact_if_needed_inner_def Let_def)
  show ?thesis
    by (rule exI [of _ outs], rule exI [of _ st1], rule exI [of _ st2],
        rule exI [of _ "filter (\<lambda>t. tb_path t \<notin> paths (outs @ new)) (M1 0)"])
       (use inner c outs(2) in \<open>simp add: compact_if_needed_def\<close>)
qed

end
