(* ===== verification/Compaction_Safety.thy ===== *)
theory Compaction_Safety
  imports Compaction_Reads
begin

text \<open>
  The properties of compaction: when reads are preserved, what happens to files, and the cases in
  which a compaction or a read beside one loses or revives a key.
\<close>

subsection \<open>Small stores\<close>

definition toy_table :: "nat \<Rightarrow> nat entry list \<Rightarrow> nat table" where
  "toy_table i es = \<lparr>tb_path = ''t'' @ replicate i CHR ''t'', tb_entries = es, tb_size = length es,
     tb_count = length es, tb_smallest = en_key (hd es), tb_largest = en_key (last es), tb_created = 0,
     tb_bloom = None, tb_ready = True, tb_marked = False, tb_compressed = True, tb_readers = 0, tb_fault = None\<rparr>"

lemma toy_table_simps [simp]: "tb_entries (toy_table i es) = es" "tb_path (toy_table i es) = replicate (Suc i) CHR ''t''"
  "tb_size (toy_table i es) = length es" "tb_smallest (toy_table i es) = en_key (hd es)"
  "tb_largest (toy_table i es) = en_key (last es)" "tb_compressed (toy_table i es)" "\<not> tb_marked (toy_table i es)"
  by (simp_all add: toy_table_def)

lemma toy_table_ok: "es \<noteq> [] \<Longrightarrow> sorted_entries es \<Longrightarrow> table_ok toy_senv (toy_table i es)"
  by (simp add: table_ok_def toy_table_def toy_senv_def)

definition toy_levels :: "nat table list list \<Rightarrow> nat levels" where
  "toy_levels ls l = (if l < length ls then ls ! l else [])"

definition no_readers :: "path \<Rightarrow> nat \<times> nat" where "no_readers p = (0, 0)"

subsection \<open>Reads over a compaction\<close>

text \<open>
  C8: the manual compaction does not change what is read.  From any well-formed store whose level 0
  is newer than level 1, with any flush finishing while the inputs are merged, \<open>compact_all\<close>
  succeeds, the store is again well-formed (level 1 ordered for the binary search), and every key
  reads as it would have without the compaction; provided no tombstone of the two levels hides a
  version further down, which is what dropping tombstones needs.
\<close>

theorem compact_all_preserves_reads:
  assumes "cc_ok C" and "cc_hash C = hash_of S" and "2 \<le> cc_levels C" and "flushed_between S M1 new M2"
    and "readable S C st (M1 0 @ M1 1)" and "hides_nothing (cc_levels C) M1 1 (entries_of (M1 0 @ M1 1))"
  shows "\<exists>r st'. compact_all S C M1 (Some M2) rd st = (Inr r, st') \<and>
    (let L = (case r of None \<Rightarrow> M2 | Some L \<Rightarrow> L) in
       levels_ok S L \<and> (\<forall>k. sget S (cc_levels C) L k = sget S (cc_levels C) M2 k))"
proof -
  note ff = flushed_facts [OF assms(4)]
  have f: "M2 = M1(0 := M1 0 @ new)" "no_ties (entries_of (M1 0 @ M1 1 @ new))"
      "newer_than (entries_of (M1 0)) (entries_of (M1 1))" "newer_than (entries_of new) (entries_of (M1 0 @ M1 1))"
    using assms(4) by (simp_all add: flushed_between_def)
  have hide: "hides_nothing (cc_levels C) M2 1 (entries_of (M1 0 @ M1 1))"
    using assms(6) by (simp add: hides_nothing_def f(1))
  consider "compact_all S C M1 (Some M2) rd st = (Inr None, st)"
    | outs st1 where "compact_all S C M1 (Some M2) rd st
        = (Inr (Some (M2(0 := new, 1 := outs))), reclaim_compacted_inputs rd (M1 0 @ M1 1) st1)"
      "merged_into S C 1 (M1 0 @ M1 1) st outs st1"
    using compact_all_result [OF assms(1-5), of rd] by blast
  then show ?thesis
  proof cases
    case 2
    let ?L = "M2(0 := new, 1 := outs)"
    have m: "\<forall>t \<in> set outs. table_ok S t" "disjoint_level outs"
        "entries_of outs = deduplicate_entries (entries_of (M1 0 @ M1 1))"
      using 2(2) by (simp_all add: merged_into_def)
    have L: "levels_ok S ?L" using ff(2,3) m(1,2) by (auto simp: levels_ok_def)
    have "sget S (cc_levels C) ?L k = sget S (cc_levels C) M2 k" for k
      by (rule reads_after_merge [OF ff(3) L assms(3) ff(2) ff(1) ff(4) _ _ _ _ _ m(3) f(2-4) hide])
         (simp_all add: f(1))
    with 2(1) L show ?thesis by (simp add: Let_def)
  qed (use ff(3) in \<open>simp add: Let_def\<close>)
qed

definition toy_l0 :: "nat table list" where
  "toy_l0 = [toy_table 0 [toy_ver 1 5 False, toy_ver 2 6 True], toy_table 1 [toy_ver 2 8 False, toy_ver 3 9 True]]"
definition toy_l1 :: "nat table list" where "toy_l1 = [toy_table 2 [toy_ver 1 1 False, toy_ver 3 2 False]]"
definition toy_new :: "nat table list" where "toy_new = [toy_table 3 [toy_ver 1 12 True]]"

lemma toy_flushed: "flushed_between toy_senv (toy_levels [toy_l0, toy_l1]) toy_new (toy_levels [toy_l0 @ toy_new, toy_l1])"
proof -
  have ok: "\<forall>t \<in> set (toy_l0 @ toy_l1 @ toy_new). table_ok toy_senv t"
    by (auto simp: toy_l0_def toy_l1_def toy_new_def sorted_entries_def toy_ver_def intro!: toy_table_ok)
  have "levels_ok toy_senv (toy_levels [toy_l0, toy_l1])"
    using ok by (auto simp: levels_ok_def toy_levels_def nth_Cons' toy_l1_def disjoint_level_def)
  moreover have "toy_levels [toy_l0 @ toy_new, toy_l1] = (toy_levels [toy_l0, toy_l1])(0 := toy_l0 @ toy_new)"
    by (auto simp: toy_levels_def fun_eq_iff nth_Cons')
  moreover have "toy_levels [toy_l0, toy_l1] 0 = toy_l0" "toy_levels [toy_l0, toy_l1] 1 = toy_l1"
    by (simp_all add: toy_levels_def)
  moreover have "paths toy_new \<inter> paths (toy_l0 @ toy_l1) = {}"
    by (simp add: paths_def toy_new_def toy_l0_def toy_l1_def numeral_eq_Suc)
  moreover have "no_ties (entries_of (toy_l0 @ toy_l1 @ toy_new))"
    by (simp add: no_ties_def toy_new_def toy_l0_def toy_l1_def toy_ver_def)
  moreover have "newer_than (entries_of toy_l0) (entries_of toy_l1)"
      "newer_than (entries_of toy_new) (entries_of (toy_l0 @ toy_l1))"
    by (simp_all add: newer_than_def toy_new_def toy_l0_def toy_l1_def toy_ver_def)
  ultimately show ?thesis using ok by (simp add: flushed_between_def del: One_nat_def)
qed

lemma toy_readable: "readable toy_senv (toy_cfg 150) (toy_cstate (toy_l0 @ toy_l1)) (toy_l0 @ toy_l1)"
proof -
  have "\<forall>t \<in> set (toy_l0 @ toy_l1). table_ok toy_senv t"
    by (auto simp: toy_l0_def toy_l1_def sorted_entries_def toy_ver_def intro!: toy_table_ok)
  then show ?thesis
    by (simp add: readable_def on_disk_def toy_cstate_def toy_cfg_def toy_l0_def toy_l1_def)
qed

theorem compact_all_preserves_reads_witness:
  "\<exists>r st'. compact_all toy_senv (toy_cfg 150) (toy_levels [toy_l0, toy_l1])
      (Some (toy_levels [toy_l0 @ toy_new, toy_l1])) no_readers (toy_cstate (toy_l0 @ toy_l1)) = (Inr r, st')"
proof -
  have "hides_nothing (cc_levels (toy_cfg 150)) (toy_levels [toy_l0, toy_l1]) 1
      (entries_of (toy_levels [toy_l0, toy_l1] 0 @ toy_levels [toy_l0, toy_l1] 1))"
    by (simp add: hides_nothing_def toy_levels_def)
  moreover have "2 \<le> cc_levels (toy_cfg 150)" by (simp add: toy_cfg_def)
  moreover have "readable toy_senv (toy_cfg 150) (toy_cstate (toy_l0 @ toy_l1))
      (toy_levels [toy_l0, toy_l1] 0 @ toy_levels [toy_l0, toy_l1] 1)"
    using toy_readable by (simp add: toy_levels_def)
  ultimately show ?thesis
    using compact_all_preserves_reads [OF toy_cfg_ok _ toy_flushed] by blast
qed

text \<open>
  C21: no file is lost.  After the manual compaction every table of the two levels is on disk with
  its data, the concurrently flushed ones included, and no file with a reader, when the wait for
  readers ends or when it would be unlinked, has been removed.
\<close>

theorem compaction_keeps_files:
  assumes "cc_ok C" and "cc_hash C = hash_of S" and "2 \<le> cc_levels C" and "flushed_between S M1 new M2"
    and "readable S C st (M1 0 @ M1 1)" and "on_disk st new"
    and "\<forall>i \<ge> cs_next st. cc_name C 1 i \<notin> paths (M2 0 @ M2 1)"
  shows "\<exists>r st'. compact_all S C M1 (Some M2) rd st = (Inr r, st') \<and>
    (let L = (case r of None \<Rightarrow> M2 | Some L \<Rightarrow> L) in on_disk st' (L 0 @ L 1)) \<and>
    (\<forall>p. cs_disk st p \<noteq> None \<and> rd p \<noteq> (0, 0) \<longrightarrow> cs_disk st' p \<noteq> None)"
proof -
  have f: "M2 = M1(0 := M1 0 @ new)" "paths new \<inter> paths (M1 0 @ M1 1) = {}"
    using assms(4) by (simp_all add: flushed_between_def)
  have disk: "on_disk st (M2 0 @ M2 1)" using assms(5,6) by (auto simp: readable_def on_disk_def f(1))
  consider "compact_all S C M1 (Some M2) rd st = (Inr None, st)"
    | outs st1 where "compact_all S C M1 (Some M2) rd st
        = (Inr (Some (M2(0 := new, 1 := outs))), reclaim_compacted_inputs rd (M1 0 @ M1 1) st1)"
      "merged_into S C 1 (M1 0 @ M1 1) st outs st1"
    using compact_all_result [OF assms(1-5), of rd] by blast
  then show ?thesis
  proof cases
    case 2
    let ?st = "reclaim_compacted_inputs rd (M1 0 @ M1 1) st1"
    have m: "on_disk st1 outs" "\<forall>p. p \<notin> paths outs \<longrightarrow> cs_disk st1 p = cs_disk st p"
        "\<forall>t \<in> set outs. \<exists>i \<ge> cs_next st. tb_path t = cc_name C 1 i"
      using 2(2) unfolding merged_into_def by blast+
    have "tb_path t \<notin> paths (M2 0 @ M2 1)" if "t \<in> set outs" for t
      using m(3) assms(7) that by metis
    then have fresh: "paths outs \<inter> paths (M2 0 @ M2 1) = {}" by (auto simp: paths_def)
    then have fresh': "paths outs \<inter> paths (M1 0 @ M1 1) = {}" "paths outs \<inter> paths new = {}"
      by (auto simp: f(1) paths_def)
    have keep: "cs_disk ?st p = cs_disk st1 p" if "p \<notin> paths (M1 0 @ M1 1)" for p
      using that by (simp only: disk_reclaim) simp
    have "\<exists>len. cs_disk ?st (tb_path t) = Some len \<and> tb_size t \<le> len" if "t \<in> set outs \<union> set new" for t
    proof (cases "t \<in> set outs")
      case True
      then have "tb_path t \<notin> paths (M1 0 @ M1 1)" using fresh'(1) by (auto simp: paths_def)
      with keep m(1) True show ?thesis by (auto simp: on_disk_def)
    next
      case False
      with that have "t \<in> set new" by simp
      then have "tb_path t \<notin> paths (M1 0 @ M1 1)" "tb_path t \<notin> paths outs"
        using f(2) fresh'(2) by (auto simp: paths_def)
      with keep m(2) assms(6) \<open>t \<in> set new\<close> show ?thesis by (auto simp: on_disk_def)
    qed
    then have "on_disk ?st (new @ outs)" by (auto simp: on_disk_def)
    moreover have "cs_disk ?st p \<noteq> None" if "cs_disk st p \<noteq> None" "rd p \<noteq> (0, 0)" for p
    proof (cases "p \<in> paths outs")
      case True
      with m(1) that(2) show ?thesis by (auto simp: disk_reclaim on_disk_def paths_def)
    qed (use m(2) that in \<open>simp add: disk_reclaim\<close>)
    ultimately show ?thesis using 2(1) by (simp add: Let_def)
  qed (use disk in \<open>simp add: Let_def\<close>)
qed

lemma toy_levels_01 [simp]: "toy_levels [a, b] 0 = a" "toy_levels [a, b] (Suc 0) = b"
  by (simp_all add: toy_levels_def)

theorem compaction_keeps_files_witness:
  "\<exists>r st'. compact_all toy_senv (toy_cfg 150) (toy_levels [toy_l0, toy_l1])
      (Some (toy_levels [toy_l0 @ toy_new, toy_l1])) no_readers (toy_cstate (toy_l0 @ toy_l1 @ toy_new)) = (Inr r, st')"
proof -
  have "readable toy_senv (toy_cfg 150) (toy_cstate (toy_l0 @ toy_l1 @ toy_new))
      (toy_levels [toy_l0, toy_l1] 0 @ toy_levels [toy_l0, toy_l1] 1)"
    using toy_readable by (simp add: readable_def on_disk_def toy_cstate_def toy_l0_def toy_l1_def toy_new_def)
  moreover have "on_disk (toy_cstate (toy_l0 @ toy_l1 @ toy_new)) toy_new"
    by (simp add: on_disk_def toy_cstate_def toy_l0_def toy_l1_def toy_new_def numeral_eq_Suc)
  moreover have "\<forall>i \<ge> cs_next (toy_cstate (toy_l0 @ toy_l1 @ toy_new)). cc_name (toy_cfg 150) 1 i \<notin>
      paths (toy_levels [toy_l0 @ toy_new, toy_l1] 0 @ toy_levels [toy_l0 @ toy_new, toy_l1] 1)"
  proof -
    have "CHR ''l'' \<in> set (toy_name 1 i)" for i by (simp add: toy_name_def)
    moreover have "CHR ''l'' \<notin> set p" if "p \<in> paths (toy_l0 @ toy_new @ toy_l1)" for p
      using that by (auto simp: paths_def toy_l0_def toy_l1_def toy_new_def)
    ultimately show ?thesis by (auto simp: toy_cfg_def paths_def)
  qed
  moreover have "2 \<le> cc_levels (toy_cfg 150)" by (simp add: toy_cfg_def)
  ultimately show ?thesis
    using compaction_keeps_files [OF toy_cfg_ok _ toy_flushed, of 150 "toy_cstate (toy_l0 @ toy_l1 @ toy_new)" no_readers]
    by blast
qed


definition toy_l0' :: "nat table list" where
  "toy_l0' = [toy_table 0 [toy_ver 1 5 False], toy_table 1 [toy_ver 2 8 False, toy_ver 4 9 True]]"

lemma toy_flushed': "flushed_between toy_senv (toy_levels [toy_l0', toy_l1]) toy_new (toy_levels [toy_l0' @ toy_new, toy_l1])"
proof -
  have ok: "\<forall>t \<in> set (toy_l0' @ toy_l1 @ toy_new). table_ok toy_senv t"
    by (auto simp: toy_l0'_def toy_l1_def toy_new_def sorted_entries_def toy_ver_def intro!: toy_table_ok)
  have "levels_ok toy_senv (toy_levels [toy_l0', toy_l1])"
    using ok by (auto simp: levels_ok_def toy_levels_def nth_Cons' toy_l1_def disjoint_level_def)
  moreover have "toy_levels [toy_l0' @ toy_new, toy_l1] = (toy_levels [toy_l0', toy_l1])(0 := toy_l0' @ toy_new)"
    by (auto simp: toy_levels_def fun_eq_iff nth_Cons')
  moreover have "paths toy_new \<inter> paths (toy_l0' @ toy_l1) = {}"
    by (simp add: paths_def toy_new_def toy_l0'_def toy_l1_def numeral_eq_Suc)
  moreover have "no_ties (entries_of (toy_l0' @ toy_l1 @ toy_new))"
    by (simp add: no_ties_def toy_new_def toy_l0'_def toy_l1_def toy_ver_def)
  moreover have "newer_than (entries_of toy_l0') (entries_of toy_l1)"
      "newer_than (entries_of toy_new) (entries_of (toy_l0' @ toy_l1))"
    by (simp_all add: newer_than_def toy_new_def toy_l0'_def toy_l1_def toy_ver_def)
  ultimately show ?thesis using ok by (simp add: flushed_between_def)
qed


subsection \<open>Where a key is revived or lost\<close>

definition installed :: "'n levels option res \<times> cstate \<Rightarrow> 'n levels" where
  "installed r = (case fst r of Inr (Some L) \<Rightarrow> L | _ \<Rightarrow> (\<lambda>_. []))"

definition buried :: "nat levels" where
  "buried = toy_levels [[toy_table 0 [toy_ver 1 5 True], toy_table 1 [toy_ver 2 6 False]],
                        [toy_table 2 [toy_ver 1 1 False]]]"


definition windowed_cfg :: "nat ccfg" where
  "windowed_cfg = (toy_cfg 1000)\<lparr>cc_strategy := TimeWindowed\<rparr>"

definition windowed :: "nat levels" where
  "windowed = toy_levels [[], [toy_table 0 [toy_ver 1 1 False], toy_table 1 [toy_ver 2 2 False],
     (toy_table 2 [toy_ver 9 9 False])\<lparr>tb_created := 3600\<rparr>]]"

text \<open>
  the time-windowed strategy merges the two tables of level 1 made in the same hour and puts the
  result behind the table that stays (the size-tiered one does the same with tables of one size).
  The level is no longer ordered by its largest keys, the binary search stops at the wrong table,
  and the keys of the merged tables, readable before, are not found.
\<close>

theorem install_leaves_level_unordered:
  "sget toy_senv 4 windowed [2] = Some (VInt64 2) \<and>
   (let r = compact_if_needed toy_senv windowed_cfg False windowed (Some windowed) (Some windowed) no_readers
        (toy_cstate (windowed 1)) in
    sget toy_senv 4 (installed r) [2] = None \<and> length (installed r 1) = 2)"
  by code_simp

definition before_merge :: "nat levels" where
  "before_merge = toy_levels [[toy_table 0 [toy_ver 1 5 False], toy_table 1 [toy_ver 2 6 False]]]"


text \<open>
  a table that cannot be read.  When the newest version of a key is in a table of level 0 whose
  file fails, the asynchronous read logs the error and answers with the older version it finds
  elsewhere; the synchronous read of the same store returns the error.
\<close>

theorem read_error_answers_differ:
  assumes "table_ok S old" and "ent_map (tb_entries old) k = Some e" and "\<not> en_deleted e"
    and "tb_ready bad" and "tb_may S bad k" and "tb_fault bad = Some err" and "L 0 = [old, bad]" and "0 < n"
  shows "get_from_sstables S n (\<lambda>_. L) (\<lambda>_ _. L) k = Some (en_value e) \<and> get_from_sstables_sync S n L k = Inl err"
proof -
  have may: "tb_may S old k" by (rule tb_may_ok [OF assms(1,2)])
  have hit: "tb_lookup S old k = Inr (SFound (en_value e) (en_ts e))"
    using tb_lookup_ok [OF assms(1), of k] assms(2,3) by (simp add: entry_result_def)
  have bad: "tb_lookup S bad k = Inl err" using assms(4-6) by (simp add: tb_lookup_def)
  have c: "candidates S 0 [old, bad] k = [0, 1]"
    using may assms(5) by (simp add: candidates_def upt_conv_Cons)
  have ls: "[0..<n] = 0 # [1..<n]" using assms(8) by (simp add: upt_conv_Cons)
  have "get_from_sstables_sync S n L k = Inl err"
    by (simp add: get_from_sstables_sync_def ls c assms(7) hit bad del: One_nat_def)
  moreover have "get_from_sstables S n (\<lambda>_. L) (\<lambda>_ _. L) k = Some (en_value e)"
    by (simp add: get_from_sstables_def ls c assms(7) hit bad pin_sstable_clone_def pick_def result_value_def
        del: One_nat_def)
  ultimately show ?thesis by simp
qed

theorem read_error_answers_differ_witness:
  "get_from_sstables_sync toy_senv 4 (toy_levels [[toy_table 0 [toy_ver 1 5 False],
     (toy_table 1 [toy_ver 1 6 False])\<lparr>tb_fault := Some (Corruption [])\<rparr>]]) [1] = Inl (Corruption [])"
proof -
  let ?L = "toy_levels [[toy_table 0 [toy_ver 1 5 False],
     (toy_table 1 [toy_ver 1 6 False])\<lparr>tb_fault := Some (Corruption [])\<rparr>]]"
  have "table_ok toy_senv (toy_table 0 [toy_ver 1 5 False])"
    by (rule toy_table_ok) (simp_all add: sorted_entries_def)
  moreover have "ent_map (tb_entries (toy_table 0 [toy_ver 1 5 False])) [1] = Some (toy_ver 1 5 False)"
      "\<not> en_deleted (toy_ver 1 5 False)"
    by (simp_all add: ent_map_def toy_ver_def)
  moreover have "tb_ready ((toy_table 1 [toy_ver 1 6 False])\<lparr>tb_fault := Some (Corruption [])\<rparr>)"
      "tb_may toy_senv ((toy_table 1 [toy_ver 1 6 False])\<lparr>tb_fault := Some (Corruption [])\<rparr>) [1]"
    by (simp_all add: tb_may_def toy_table_def toy_ver_def)
  moreover have "?L 0 = [toy_table 0 [toy_ver 1 5 False], (toy_table 1 [toy_ver 1 6 False])\<lparr>tb_fault := Some (Corruption [])\<rparr>]"
    by (simp add: toy_levels_def)
  ultimately show ?thesis
    using read_error_answers_differ [of toy_senv "toy_table 0 [toy_ver 1 5 False]" "[1]" "toy_ver 1 5 False"
        "(toy_table 1 [toy_ver 1 6 False])\<lparr>tb_fault := Some (Corruption [])\<rparr>" "Corruption []" ?L 4] by simp
qed

end
