(* ===== verification/Wal_Files.thy ===== *)
theory Wal_Files
  imports Value_Model Names
begin

text \<open>
  The directory of the write-ahead log as the operating system sees it, and the entries of the log
  (\<open>WALEntry\<close> of \<open>crates/f4kvs-lsm/src/storage/wal.rs\<close>).  A directory entry names an inode, so a file
  that was removed while a handle is open keeps its data and is out of the directory.  A write takes
  free space; when there is not enough it writes what fits and reports an error, as \<open>write_all\<close>
  does.  A power loss keeps of every file at least what was synced.
\<close>

datatype 'n wal_entry =
    WPut key "'n val" nat
  | WDelete key nat
  | WFlush nat nat
  | WCheckpoint nat

fun entry_timestamp :: "'n wal_entry \<Rightarrow> nat" where
  "entry_timestamp (WPut _ _ t) = t"
| "entry_timestamp (WDelete _ t) = t"
| "entry_timestamp (WFlush _ t) = t"
| "entry_timestamp (WCheckpoint t) = t"

datatype sync_mode = SyncNone | SyncFlush | SyncFsync | SyncFsyncAsync

subsection \<open>Results with a state\<close>

fun and_then :: "'a res \<times> 's \<Rightarrow> ('a \<Rightarrow> 's \<Rightarrow> 'b res \<times> 's) \<Rightarrow> 'b res \<times> 's" where
  "and_then (Inl e, s) f = (Inl e, s)"
| "and_then (Inr x, s) f = f x s"

lemma and_then_Inr: "and_then r f = (Inr y, t) \<longleftrightarrow> (\<exists>x s. r = (Inr x, s) \<and> f x s = (Inr y, t))"
  by (cases r; cases "fst r") auto

subsection \<open>Files\<close>

record fsys =
  f_dir :: "(string \<times> nat) list"
  f_data :: "nat \<Rightarrow> bytes"
  f_synced :: "nat \<Rightarrow> nat"
  f_created :: "nat \<Rightarrow> nat"
  f_next :: nat
  f_space :: nat

definition empty_fs :: "nat \<Rightarrow> fsys" where
  "empty_fs sp = \<lparr>f_dir = [], f_data = (\<lambda>_. []), f_synced = (\<lambda>_. 0), f_created = (\<lambda>_. 0), f_next = 0, f_space = sp\<rparr>"

definition f_len :: "fsys \<Rightarrow> nat \<Rightarrow> nat" where
  "f_len fs i = length (f_data fs i)"

text \<open>\<open>open\<close> with \<open>create(true)\<close> and \<open>truncate(false)\<close>.\<close>

definition f_create :: "nat \<Rightarrow> string \<Rightarrow> fsys \<Rightarrow> nat \<times> fsys" where
  "f_create now n fs =
     (case map_of (f_dir fs) n of Some i \<Rightarrow> (i, fs)
      | None \<Rightarrow> let i = f_next fs in
          (i, fs\<lparr>f_dir := f_dir fs @ [(n, i)], f_data := (f_data fs)(i := []), f_synced := (f_synced fs)(i := 0),
                f_created := (f_created fs)(i := now), f_next := Suc i\<rparr>))"

definition no_space :: lsm_error where
  "no_space = Io OtherIo ''No space left on device''"

definition f_write :: "nat \<Rightarrow> nat \<Rightarrow> bytes \<Rightarrow> fsys \<Rightarrow> unit res \<times> fsys" where
  "f_write i off bs fs =
     (let d = f_data fs i; n = min (length bs) (length d + f_space fs - off) in
      (if n = length bs then Inr () else Inl no_space,
       fs\<lparr>f_data := (f_data fs)(i := take off d @ take n bs @ drop (off + n) d),
          f_space := f_space fs - (off + n - length d)\<rparr>))"

definition f_append :: "nat \<Rightarrow> bytes \<Rightarrow> fsys \<Rightarrow> unit res \<times> fsys" where
  "f_append i bs fs = f_write i (f_len fs i) bs fs"

definition f_sync :: "nat \<Rightarrow> fsys \<Rightarrow> fsys" where
  "f_sync i fs = fs\<lparr>f_synced := (f_synced fs)(i := f_len fs i)\<rparr>"

definition f_remove :: "string \<Rightarrow> fsys \<Rightarrow> fsys" where
  "f_remove n fs = fs\<lparr>f_dir := filter (\<lambda>(m, _). m \<noteq> n) (f_dir fs)\<rparr>"

definition f_wipe :: "fsys \<Rightarrow> fsys" where
  "f_wipe fs = fs\<lparr>f_dir := []\<rparr>"

definition power_loss :: "(nat \<Rightarrow> nat) \<Rightarrow> fsys \<Rightarrow> fsys" where
  "power_loss keep fs =
     (let d = (\<lambda>i. take (max (f_synced fs i) (keep i)) (f_data fs i)) in
      fs\<lparr>f_data := d, f_synced := (\<lambda>i. length (d i))\<rparr>)"

lemma f_append_ok: "length bs \<le> f_space fs \<Longrightarrow> f_append i bs fs =
    (Inr (), fs\<lparr>f_data := (f_data fs)(i := f_data fs i @ bs), f_space := f_space fs - length bs\<rparr>)"
  by (simp add: f_append_def f_write_def f_len_def Let_def)

lemma f_write_over: "off + length bs \<le> f_len fs i \<Longrightarrow> f_write i off bs fs =
    (Inr (), fs\<lparr>f_data := (f_data fs)(i := take off (f_data fs i) @ bs @ drop (off + length bs) (f_data fs i))\<rparr>)"
  by (simp add: f_write_def f_len_def Let_def)

subsection \<open>Records on disk\<close>

text \<open>A record is its length in four bytes and its bytes; \<open>ser\<close> and \<open>de\<close> are \<open>bincode\<close>.\<close>

definition log_frame :: "bytes \<Rightarrow> bytes" where
  "log_frame b = le_bytes 4 (length b) @ b"

lemma frame_length [simp]: "length (log_frame b) = 4 + length b"
  by (simp add: log_frame_def)

lemma frame_size: "length b < 4294967296 \<Longrightarrow> unat (u32_from_le (take 4 (log_frame b @ r))) = length b"
  by (simp add: log_frame_def u32_from_le_def le_val_le_bytes unat_u32_of_nat)

lemma frame_body: "drop 4 (log_frame b @ r) = b @ r"
  by (simp add: log_frame_def)

text \<open>The entries of a log as one string of records.\<close>

fun frames :: "('n wal_entry \<Rightarrow> bytes option) \<Rightarrow> 'n wal_entry list \<Rightarrow> bytes res" where
  "frames ser [] = Inr []"
| "frames ser (e # es) =
     (case ser e of None \<Rightarrow> Inl (Serialization ''Failed to serialize entry'')
      | Some b \<Rightarrow> res_bind (frames ser es) (\<lambda>r. Inr (log_frame b @ r)))"

definition body :: "('n wal_entry \<Rightarrow> bytes option) \<Rightarrow> 'n wal_entry list \<Rightarrow> bytes" where
  "body ser es = concat (map (\<lambda>e. log_frame (the (ser e))) es)"

lemma body_simps [simp]: "body ser [] = []" "body ser (e # es) = log_frame (the (ser e)) @ body ser es"
  "body ser (es @ fs) = body ser es @ body ser fs"
  by (simp_all add: body_def)

text \<open>An entry that survives the round trip; a value that holds JSON does not.\<close>

definition storable :: "('n wal_entry \<Rightarrow> bytes option) \<Rightarrow> (bytes \<Rightarrow> 'n wal_entry option) \<Rightarrow> nat \<Rightarrow> 'n wal_entry \<Rightarrow> bool" where
  "storable ser de mx e \<longleftrightarrow> (\<exists>b. ser e = Some b \<and> de b = Some e \<and> b \<noteq> [] \<and> length b \<le> mx \<and> length b < 4294967296)"

lemma frames_body: "\<forall>e \<in> set es. storable ser de mx e \<Longrightarrow> frames ser es = Inr (body ser es)"
  by (induction es) (auto simp: storable_def)

text \<open>How many whole records the first \<open>n\<close> bytes hold.\<close>

fun whole :: "('n wal_entry \<Rightarrow> bytes option) \<Rightarrow> nat \<Rightarrow> 'n wal_entry list \<Rightarrow> nat" where
  "whole ser n [] = 0"
| "whole ser n (e # es) =
     (let l = length (log_frame (the (ser e))) in if l \<le> n then Suc (whole ser (n - l) es) else 0)"

lemma whole_le: "whole ser n es \<le> length es"
  by (induction ser n es rule: whole.induct) (simp_all add: Let_def)

lemma whole_ge: "i \<le> length es \<Longrightarrow> length (body ser (take i es)) \<le> n \<Longrightarrow> i \<le> whole ser n es"
proof (induction es arbitrary: i n)
  case (Cons e es)
  then show ?case
    by (cases i) (fastforce simp: Let_def)+
qed simp

lemma whole_all: "length (body ser es) \<le> n \<Longrightarrow> whole ser n es = length es"
  using whole_ge [of "length es" es ser n] whole_le [of ser n es] by simp

end
