(* ===== verification/Wal_Segment.thy ===== *)
theory Wal_Segment
  imports Wal_Files
begin

text \<open>
  One segment of the log, \<open>WALSegment\<close> of \<open>crates/f4kvs-lsm/src/storage/wal.rs\<close>: creating it, appending an
  entry, syncing and reading it back.  \<open>bincode\<close> is a library: its coding of an entry and of the
  header are parameters.  The handle holds the inode of its file.
\<close>

record wal_header =
  wh_magic :: bytes
  wh_version :: u8
  wh_created :: u64
  wh_count :: u32

record 'n wenv =
  we_ser :: "'n wal_entry \<Rightarrow> bytes option"
  we_de :: "bytes \<Rightarrow> 'n wal_entry option"
  we_hser :: "wal_header \<Rightarrow> bytes"
  we_hde :: "bytes \<Rightarrow> wal_header option"
  we_hsize :: nat
  we_max :: nat
  we_sync :: sync_mode
  we_group :: bool
  we_batch :: nat
  we_wait :: bool

record segment =
  sg_name :: string
  sg_ino :: nat
  sg_header :: wal_header
  sg_count :: u32

definition wal_magic :: bytes where "wal_magic = [87, 65, 76, 49]"
definition wal_version :: u8 where "wal_version = 1"

definition new_header :: "nat \<Rightarrow> wal_header" where
  "new_header now = \<lparr>wh_magic = wal_magic, wh_version = wal_version, wh_created = word_of_nat now, wh_count = 0\<rparr>"

definition sg_write_header :: "'n wenv \<Rightarrow> segment \<Rightarrow> fsys \<Rightarrow> unit res \<times> fsys" where
  "sg_write_header W g fs = f_write (sg_ino g) 0 (we_hser W (sg_header g)) fs"

definition sg_sync_after_flush :: "'n wenv \<Rightarrow> segment \<Rightarrow> fsys \<Rightarrow> fsys" where
  "sg_sync_after_flush W g fs = (case we_sync W of SyncFsync \<Rightarrow> f_sync (sg_ino g) fs | _ \<Rightarrow> fs)"

definition sg_new :: "'n wenv \<Rightarrow> nat \<Rightarrow> string \<Rightarrow> fsys \<Rightarrow> segment res \<times> fsys" where
  "sg_new W now n fs =
     (let (i, fs) = f_create now n fs;
          g = \<lparr>sg_name = n, sg_ino = i, sg_header = new_header now, sg_count = 0\<rparr> in
      and_then (sg_write_header W g fs) (\<lambda>_ fs. (Inr g, f_sync i fs)))"

definition sg_open_empty_for_append :: "'n wenv \<Rightarrow> nat \<Rightarrow> string \<Rightarrow> fsys \<Rightarrow> segment option" where
  "sg_open_empty_for_append W now n fs =
     (case map_of (f_dir fs) n of None \<Rightarrow> None
      | Some i \<Rightarrow>
          if f_len fs i \<noteq> we_hsize W then None
          else Some \<lparr>sg_name = n, sg_ino = i, sg_header = new_header now, sg_count = 0\<rparr>)"

definition sg_open_for_reading :: "'n wenv \<Rightarrow> string \<Rightarrow> fsys \<Rightarrow> segment res" where
  "sg_open_for_reading W n fs =
     (case map_of (f_dir fs) n of None \<Rightarrow> Inl (Io NotFound ''No such file or directory'')
      | Some i \<Rightarrow>
          if f_len fs i = 0 \<or> f_len fs i < we_hsize W
          then Inr \<lparr>sg_name = n, sg_ino = i, sg_header = new_header 0, sg_count = 0\<rparr>
          else case we_hde W (take (we_hsize W) (f_data fs i)) of
            None \<Rightarrow> Inl (Serialization ''Failed to deserialize header'')
          | Some h \<Rightarrow>
              if wh_magic h \<noteq> wal_magic then Inl (Corruption ''Invalid WAL magic number'')
              else Inr \<lparr>sg_name = n, sg_ino = i, sg_header = h, sg_count = wh_count h\<rparr>)"

text \<open>\<open>Ok(false)\<close> asks for a rotation.\<close>

definition sg_write_entry :: "'n wenv \<Rightarrow> 'n wal_entry \<Rightarrow> segment \<Rightarrow> fsys \<Rightarrow> (bool \<times> segment) res \<times> fsys" where
  "sg_write_entry W e g fs =
     (case we_ser W e of None \<Rightarrow> (Inl (Serialization ''Failed to serialize entry''), fs)
      | Some b \<Rightarrow>
          if we_max W < f_len fs (sg_ino g) + (length b + 4) then (Inr (False, g), fs)
          else and_then (f_append (sg_ino g) (le_bytes 4 (length b)) fs) (\<lambda>_ fs.
               and_then (f_append (sg_ino g) b fs) (\<lambda>_ fs.
                 let g' = g\<lparr>sg_count := sg_count g + 1, sg_header := (sg_header g)\<lparr>wh_count := sg_count g + 1\<rparr>\<rparr> in
                 (Inr (True, g'), sg_sync_after_flush W g' fs))))"

definition sg_sync_header_and_flush :: "'n wenv \<Rightarrow> segment \<Rightarrow> fsys \<Rightarrow> unit res \<times> fsys" where
  "sg_sync_header_and_flush W g fs =
     and_then (sg_write_header W g fs) (\<lambda>_ fs. (Inr (), sg_sync_after_flush W g fs))"

definition sg_should_rotate :: "'n wenv \<Rightarrow> segment \<Rightarrow> fsys \<Rightarrow> bool" where
  "sg_should_rotate W g fs \<longleftrightarrow> we_max W \<le> f_len fs (sg_ino g)"

definition sg_close :: "'n wenv \<Rightarrow> segment \<Rightarrow> fsys \<Rightarrow> unit res \<times> fsys" where
  "sg_close W g fs = and_then (sg_write_header W g fs) (\<lambda>_ fs. (Inr (), f_sync (sg_ino g) fs))"

subsection \<open>Reading a segment\<close>

text \<open>The loop of \<open>read_entries\<close>: it stops at the end of the file, at a length of zero, at one above
  the limit and inside a torn record, and skips a record that does not deserialise.\<close>

function log_read_loop :: "'n wenv \<Rightarrow> bytes \<Rightarrow> 'n wal_entry list" where
  "log_read_loop W bs =
     (if length bs < 4 then []
      else let n = unat (u32_from_le (take 4 bs)); rest = drop 4 bs in
        if n = 0 then []
        else if we_max W < n then []
        else if length rest < n then []
        else case we_de W (take n rest) of
            None \<Rightarrow> log_read_loop W (drop n rest)
          | Some e \<Rightarrow> e # log_read_loop W (drop n rest))"
  by pat_completeness auto
termination
  by (relation "measure (\<lambda>(W, bs). length bs)") auto

declare log_read_loop.simps [simp del]

definition sg_read_entries :: "'n wenv \<Rightarrow> segment \<Rightarrow> fsys \<Rightarrow> 'n wal_entry list" where
  "sg_read_entries W g fs =
     (let len = f_len fs (sg_ino g) in
      if len = 0 then []
      else if len \<le> we_hsize W then []
      else log_read_loop W (drop (we_hsize W) (f_data fs (sg_ino g))))"

text \<open>What is asked of \<open>bincode\<close>: the header has a fixed size and reads back.\<close>

definition wenv_ok :: "'n wenv \<Rightarrow> bool" where
  "wenv_ok W \<longleftrightarrow> 0 < we_hsize W
     \<and> (\<forall>h. wh_magic h = wal_magic \<longrightarrow> length (we_hser W h) = we_hsize W \<and> we_hde W (we_hser W h) = Some h)"

abbreviation keeps :: "'n wenv \<Rightarrow> 'n wal_entry \<Rightarrow> bool" where
  "keeps W \<equiv> storable (we_ser W) (we_de W) (we_max W)"

lemma log_read_loop_short: "length bs < 4 \<Longrightarrow> log_read_loop W bs = []"
  by (subst log_read_loop.simps) simp

lemma log_read_loop_frame:
  assumes "keeps W e"
  shows "log_read_loop W (log_frame (the (we_ser W e)) @ r) = e # log_read_loop W r"
proof -
  obtain b where b: "we_ser W e = Some b" "we_de W b = Some e" "b \<noteq> []" "length b \<le> we_max W" "length b < 4294967296"
    using assms by (auto simp: storable_def)
  have "log_read_loop W (log_frame b @ r) = e # log_read_loop W r"
    by (subst log_read_loop.simps) (use b frame_size [of b r] frame_body [of b r] in \<open>simp add: Let_def\<close>)
  with b show ?thesis by simp
qed

text \<open>A torn tail costs the torn record and nothing before it.\<close>

lemma log_read_loop_torn:
  "\<forall>e \<in> set es. keeps W e \<Longrightarrow> log_read_loop W (take n (body (we_ser W) es)) = take (whole (we_ser W) n es) es"
proof (induction es arbitrary: n)
  case (Cons e es)
  then obtain b where b: "we_ser W e = Some b" "b \<noteq> []" "length b \<le> we_max W" "length b < 4294967296"
    by (auto simp: storable_def)
  show ?case
  proof (cases "length (log_frame b) \<le> n")
    case True
    with Cons b show ?thesis
      using log_read_loop_frame [of W e "take (n - length (log_frame b)) (body (we_ser W) es)"] by simp
  next
    case False
    then have t: "take n (log_frame b @ body (we_ser W) es) = take n (log_frame b)" by simp
    have "log_read_loop W (take n (log_frame b)) = []"
    proof (cases "n < 4")
      case False
      then have "take 4 (take n (log_frame b)) = take 4 (log_frame b @ [])" by (simp add: min_def)
      moreover have "n - 4 < length b" "drop 4 (take n (log_frame b)) = take (n - 4) b"
        using False \<open>\<not> length (log_frame b) \<le> n\<close> by (auto simp: log_frame_def drop_take)
      ultimately show ?thesis
        by (subst log_read_loop.simps) (use b frame_size [of b "[]"] in \<open>simp add: Let_def\<close>)
    qed (simp add: log_read_loop_short)
    with False b t show ?thesis by simp
  qed
qed (simp add: log_read_loop_short)

lemma log_read_loop_body: "\<forall>e \<in> set es. keeps W e \<Longrightarrow> log_read_loop W (body (we_ser W) es) = es"
  using log_read_loop_torn [of es W "length (body (we_ser W) es)"] by (simp add: whole_all)

end
