(* ===== verification/Wal_Manager.thy ===== *)
theory Wal_Manager
  imports Wal_Segment Errors
begin

text \<open>
  The segment log, \<open>WALManager\<close> of \<open>crates/f4kvs-lsm/src/storage/wal.rs\<close>.  The state is the log
  directory, the open segment, the list of completed segments, the counter of the next segment and the queue
  of the group commit.  \<open>now\<close> is the clock in seconds.  Without concurrent writers the background task of
  the group commit runs right after an entry was queued by a writer that waits for it.
\<close>

record 'n wal_mgr =
  wm_fs :: fsys
  wm_cur :: "segment option"
  wm_segs :: "(nat \<times> string) list"
  wm_counter :: nat
  wm_pending :: "'n wal_entry list"

definition seg_prefix :: string where "seg_prefix = ''segment_''"

definition wm_new :: "fsys \<Rightarrow> 'n wal_mgr" where
  "wm_new fs = \<lparr>wm_fs = fs, wm_cur = None, wm_segs = [], wm_counter = 0, wm_pending = []\<rparr>"

fun lift_fs :: "'n wal_mgr \<Rightarrow> 'a res \<times> fsys \<Rightarrow> 'a res \<times> 'n wal_mgr" where
  "lift_fs m (r, fs) = (r, m\<lparr>wm_fs := fs\<rparr>)"

definition list_segment_files_on_disk :: "'n wal_mgr \<Rightarrow> string list" where
  "list_segment_files_on_disk m = filter (is_log_name seg_prefix) (map fst (f_dir (wm_fs m)))"

definition scan_existing_segments :: "'n wal_mgr \<Rightarrow> 'n wal_mgr" where
  "scan_existing_segments m =
     m\<lparr>wm_counter := fold max (List.map_filter (parse_log_id seg_prefix) (list_segment_files_on_disk m)) 0 + 1\<rparr>"

definition rotate_segment :: "'n wenv \<Rightarrow> nat \<Rightarrow> 'n wal_mgr \<Rightarrow> unit res \<times> 'n wal_mgr" where
  "rotate_segment W now m =
     and_then
       (case wm_cur m of None \<Rightarrow> (Inr (), m)
        | Some g \<Rightarrow>
            and_then (lift_fs (m\<lparr>wm_cur := None\<rparr>) (sg_close W g (wm_fs m))) (\<lambda>_ m.
              (Inr (), m\<lparr>wm_segs := filter (\<lambda>(i, _). i \<noteq> wm_counter m) (wm_segs m) @ [(wm_counter m, sg_name g)]\<rparr>)))
       (\<lambda>_ m. and_then (lift_fs m (sg_new W now (log_name seg_prefix (wm_counter m)) (wm_fs m))) (\<lambda>g m.
          (Inr (), m\<lparr>wm_cur := Some g, wm_counter := wm_counter m + 1\<rparr>)))"

definition try_reuse_last_empty_segment :: "'n wenv \<Rightarrow> nat \<Rightarrow> 'n wal_mgr \<Rightarrow> bool \<times> 'n wal_mgr" where
  "try_reuse_last_empty_segment W now m =
     (if wm_counter m \<le> 1 then (False, m)
      else case sg_open_empty_for_append W now (log_name seg_prefix (wm_counter m - 1)) (wm_fs m) of
          None \<Rightarrow> (False, m)
        | Some g \<Rightarrow> (True, m\<lparr>wm_cur := Some g\<rparr>))"

definition wal_initialize :: "'n wenv \<Rightarrow> nat \<Rightarrow> 'n wal_mgr \<Rightarrow> unit res \<times> 'n wal_mgr" where
  "wal_initialize W now m =
     (case try_reuse_last_empty_segment W now (scan_existing_segments m) of
        (True, m) \<Rightarrow> (Inr (), m)
      | (False, m) \<Rightarrow> rotate_segment W now m)"

subsection \<open>Writing\<close>

definition no_segment :: lsm_error where "no_segment = Internal ''No current WAL segment''"

definition wal_write_entry :: "'n wenv \<Rightarrow> nat \<Rightarrow> 'n wal_entry \<Rightarrow> 'n wal_mgr \<Rightarrow> unit res \<times> 'n wal_mgr" where
  "wal_write_entry W now e m =
     (case wm_cur m of None \<Rightarrow> (Inl no_segment, m)
      | Some g \<Rightarrow>
          and_then (lift_fs m (sg_write_entry W e g (wm_fs m))) (\<lambda>(ok, g) m.
            if ok then (Inr (), m\<lparr>wm_cur := Some g\<rparr>)
            else and_then (rotate_segment W now m) (\<lambda>_ m.
              case wm_cur m of None \<Rightarrow> (Inl (Internal ''Failed to create new WAL segment''), m)
              | Some g \<Rightarrow> and_then (lift_fs m (sg_write_entry W e g (wm_fs m))) (\<lambda>(_, g) m.
                  (Inr (), m\<lparr>wm_cur := Some g\<rparr>)))))"

definition batch_write_entries :: "'n wenv \<Rightarrow> nat \<Rightarrow> 'n wal_entry list \<Rightarrow> 'n wal_mgr \<Rightarrow> unit res \<times> 'n wal_mgr" where
  "batch_write_entries W now es m =
     (if es = [] then (Inr (), m)
      else case frames (we_ser W) es of Inl e \<Rightarrow> (Inl e, m)
      | Inr bs \<Rightarrow>
        and_then
          (case wm_cur m of None \<Rightarrow> (Inr (), m)
           | Some g \<Rightarrow> if sg_should_rotate W g (wm_fs m) then rotate_segment W now m else (Inr (), m))
          (\<lambda>_ m. case wm_cur m of None \<Rightarrow> (Inl no_segment, m)
            | Some g \<Rightarrow>
              and_then
                (if we_max W < f_len (wm_fs m) (sg_ino g) + length bs then rotate_segment W now m else (Inr (), m))
                (\<lambda>_ m. case wm_cur m of None \<Rightarrow> (Inl no_segment, m)
                  | Some g \<Rightarrow>
                    and_then (lift_fs m (f_append (sg_ino g) bs (wm_fs m))) (\<lambda>_ m.
                      let n = sg_count g + word_of_nat (length es);
                          g = g\<lparr>sg_count := n, sg_header := (sg_header g)\<lparr>wh_count := n\<rparr>\<rparr> in
                      lift_fs (m\<lparr>wm_cur := Some g\<rparr>) (sg_sync_header_and_flush W g (wm_fs m))))))"

definition flush_pending_group_commit :: "'n wenv \<Rightarrow> nat \<Rightarrow> 'n wal_mgr \<Rightarrow> unit res \<times> 'n wal_mgr" where
  "flush_pending_group_commit W now m =
     (if wm_pending m = [] then (Inr (), m)
      else batch_write_entries W now (wm_pending m) (m\<lparr>wm_pending := []\<rparr>))"

definition write_entry_group_commit :: "'n wenv \<Rightarrow> nat \<Rightarrow> 'n wal_entry \<Rightarrow> 'n wal_mgr \<Rightarrow> unit res \<times> 'n wal_mgr" where
  "write_entry_group_commit W now e m =
     (let m = m\<lparr>wm_pending := wm_pending m @ [e]\<rparr> in
      if \<not> we_wait W then (Inr (), m)
      else case flush_pending_group_commit W now m of
          (Inl err, m) \<Rightarrow> (Inl (Internal (lsm_display err)), m)
        | (Inr _, m) \<Rightarrow> (Inr (), m))"

definition write_operation :: "'n wenv \<Rightarrow> nat \<Rightarrow> key \<Rightarrow> 'n val \<Rightarrow> 'n wal_mgr \<Rightarrow> unit res \<times> 'n wal_mgr" where
  "write_operation W now k v m =
     (if we_group W then write_entry_group_commit W now (WPut k v now) m
      else wal_write_entry W now (WPut k v now) m)"

definition write_delete :: "'n wenv \<Rightarrow> nat \<Rightarrow> key \<Rightarrow> 'n wal_mgr \<Rightarrow> unit res \<times> 'n wal_mgr" where
  "write_delete W now k m =
     (if we_group W then write_entry_group_commit W now (WDelete k now) m
      else wal_write_entry W now (WDelete k now) m)"

definition batch_write_operations ::
  "'n wenv \<Rightarrow> nat \<Rightarrow> (key \<times> 'n val) list \<Rightarrow> 'n wal_mgr \<Rightarrow> unit res \<times> 'n wal_mgr" where
  "batch_write_operations W now items m =
     (if items = [] then (Inr (), m)
      else and_then (if we_group W then flush_pending_group_commit W now m else (Inr (), m))
        (\<lambda>_ m. batch_write_entries W now (map (\<lambda>(k, v). WPut k v now) items) m))"

definition wal_flush :: "'n wenv \<Rightarrow> nat \<Rightarrow> 'n wal_mgr \<Rightarrow> unit res \<times> 'n wal_mgr" where
  "wal_flush W now m =
     and_then (if we_group W then flush_pending_group_commit W now m else (Inr (), m)) (\<lambda>_ m.
       case wm_cur m of None \<Rightarrow> (Inr (), m)
       | Some g \<Rightarrow> lift_fs m (sg_sync_header_and_flush W g (wm_fs m)))"

subsection \<open>Reading\<close>

text \<open>The segments in the order of their numbers, a name without a number last.\<close>

definition segment_files :: "'n wal_mgr \<Rightarrow> string list" where
  "segment_files m =
     sort_key (\<lambda>f. case parse_log_id seg_prefix f of Some i \<Rightarrow> i | None \<Rightarrow> u64_max) (list_segment_files_on_disk m)"

definition read_segment :: "'n wenv \<Rightarrow> fsys \<Rightarrow> string \<Rightarrow> 'n wal_entry list res" where
  "read_segment W fs f = res_bind (sg_open_for_reading W f fs) (\<lambda>g. Inr (sg_read_entries W g fs))"

definition ok_parts :: "'a res list \<Rightarrow> 'a list" where
  "ok_parts rs = List.map_filter (\<lambda>r. case r of Inl _ \<Rightarrow> None | Inr x \<Rightarrow> Some x) rs"

definition read_entries_from_disk :: "'n wenv \<Rightarrow> 'n wal_mgr \<Rightarrow> 'n wal_entry list res" where
  "read_entries_from_disk W m =
     (let rs = map (read_segment W (wm_fs m)) (segment_files m) in
      if rs \<noteq> [] \<and> ok_parts rs = [] then Inl (WalErr ''Failed to recover from WAL segment(s)'')
      else Inr (sort_key entry_timestamp (concat (ok_parts rs))))"

text \<open>
  The reader of the running log.  It opens the completed segments with \<open>WALSegment::new\<close>, which
  writes a fresh header over the old one; the order in which the map yields them is the argument \<open>order\<close>.
\<close>

fun read_completed :: "'n wenv \<Rightarrow> nat \<Rightarrow> string list \<Rightarrow> fsys \<Rightarrow> 'n wal_entry list \<times> fsys" where
  "read_completed W now [] fs = ([], fs)"
| "read_completed W now (n # ns) fs =
     (case sg_new W now n fs of
        (Inl _, fs) \<Rightarrow> read_completed W now ns fs
      | (Inr g, fs) \<Rightarrow> map_prod ((@) (sg_read_entries W g fs)) id (read_completed W now ns fs))"

definition wal_read_entries ::
  "'n wenv \<Rightarrow> nat \<Rightarrow> ((nat \<times> string) list \<Rightarrow> (nat \<times> string) list) \<Rightarrow> 'n wal_mgr \<Rightarrow> 'n wal_entry list res \<times> 'n wal_mgr" where
  "wal_read_entries W now order m =
     (case (case wm_cur m of None \<Rightarrow> Inr [] | Some g \<Rightarrow> read_segment W (wm_fs m) (sg_name g)) of
        Inl e \<Rightarrow> (Inl e, m)
      | Inr es \<Rightarrow>
          (let (rest, fs) = read_completed W now (map snd (order (wm_segs m))) (wm_fs m) in
           (Inr (sort_key entry_timestamp (es @ rest)), m\<lparr>wm_fs := fs\<rparr>)))"

subsection \<open>Removing segments\<close>

definition remove_files :: "string list \<Rightarrow> fsys \<Rightarrow> fsys" where
  "remove_files ns fs = fold f_remove ns fs"

definition truncate_after_flush :: "'n wenv \<Rightarrow> nat \<Rightarrow> 'n wal_mgr \<Rightarrow> unit res \<times> 'n wal_mgr" where
  "truncate_after_flush W now m =
     (let m = (case wm_cur m of None \<Rightarrow> m
               | Some g \<Rightarrow> m\<lparr>wm_cur := None, wm_fs := snd (sg_close W g (wm_fs m))\<rparr>);
          m = m\<lparr>wm_segs := []\<rparr>;
          m = m\<lparr>wm_fs := remove_files (list_segment_files_on_disk m) (wm_fs m)\<rparr> in
      if list_segment_files_on_disk m \<noteq> [] then (Inl (Io OtherIo ''WAL truncation incomplete''), m)
      else rotate_segment W now m)"

definition verify_truncated :: "'n wal_mgr \<Rightarrow> bool" where
  "verify_truncated m =
     (case wm_cur m of None \<Rightarrow> False
      | Some g \<Rightarrow>
          if wm_segs m \<noteq> [] then False
          else (case list_segment_files_on_disk m of [] \<Rightarrow> True
            | [f] \<Rightarrow> f = sg_name g
            | _ \<Rightarrow> False))"

text \<open>\<open>now - retention\<close> is unchecked; in a release build it wraps.\<close>

definition older_than :: "nat \<Rightarrow> fsys \<Rightarrow> (nat \<times> string) \<Rightarrow> bool" where
  "older_than cutoff fs s = (case map_of (f_dir fs) (snd s) of None \<Rightarrow> False | Some i \<Rightarrow> f_created fs i < cutoff)"

definition remove_older :: "nat \<Rightarrow> 'n wal_mgr \<Rightarrow> 'n wal_mgr" where
  "remove_older cutoff m =
     (let old = filter (older_than cutoff (wm_fs m)) (wm_segs m) in
      m\<lparr>wm_segs := filter (\<lambda>s. \<not> older_than cutoff (wm_fs m) s) (wm_segs m),
        wm_fs := remove_files (map snd old) (wm_fs m)\<rparr>)"

definition cleanup_old_segments :: "nat \<Rightarrow> nat \<Rightarrow> 'n wal_mgr \<Rightarrow> 'n wal_mgr" where
  "cleanup_old_segments now retention m =
     remove_older (if retention \<le> now then now - retention else 2 ^ 64 + now - retention) m"

definition cleanup_flushed_segments :: "nat \<Rightarrow> nat \<Rightarrow> 'n wal_mgr \<Rightarrow> 'n wal_mgr" where
  "cleanup_flushed_segments now grace m = remove_older (now - grace) m"

definition force_cleanup :: "'n wenv \<Rightarrow> nat \<Rightarrow> 'n wal_mgr \<Rightarrow> unit res \<times> 'n wal_mgr" where
  "force_cleanup W now m =
     (let m = (case wm_cur m of None \<Rightarrow> m
               | Some g \<Rightarrow> m\<lparr>wm_cur := None, wm_fs := f_remove (sg_name g) (snd (sg_close W g (wm_fs m)))\<rparr>);
          m = m\<lparr>wm_fs := remove_files (map snd (wm_segs m)) (wm_fs m), wm_segs := []\<rparr> in
      rotate_segment W now m)"

definition force_rotate :: "'n wenv \<Rightarrow> nat \<Rightarrow> 'n wal_mgr \<Rightarrow> unit res \<times> 'n wal_mgr" where
  "force_rotate W now m = rotate_segment W now m"

definition mark_clean_shutdown :: "'n wenv \<Rightarrow> nat \<Rightarrow> 'n wal_mgr \<Rightarrow> unit res \<times> 'n wal_mgr" where
  "mark_clean_shutdown W now m =
     and_then
       (case wm_cur m of None \<Rightarrow> (Inr (), m)
        | Some _ \<Rightarrow>
            and_then (if we_group W then flush_pending_group_commit W now m else (Inr (), m)) (\<lambda>_ m.
            and_then (wal_write_entry W now (WCheckpoint now) m) (\<lambda>_ m. wal_flush W now m)))
       (\<lambda>_ m. truncate_after_flush W now m)"

text \<open>\<open>remove_dir_all\<close> and \<open>create_dir_all\<close> by the engine, behind the manager's back.\<close>

definition wal_clear_dir :: "'n wal_mgr \<Rightarrow> 'n wal_mgr" where
  "wal_clear_dir m = m\<lparr>wm_fs := f_wipe (wm_fs m)\<rparr>"

text \<open>A crash: the process is gone, and of the files what was synced and some more is left.\<close>

definition wal_crash :: "(nat \<Rightarrow> nat) \<Rightarrow> 'n wal_mgr \<Rightarrow> 'n wal_mgr" where
  "wal_crash keep m = wm_new (power_loss keep (wm_fs m))"

end
