(* ===== verification/Wal_Correct.thy ===== *)
theory Wal_Correct
  imports Wal_Manager
begin

text \<open>
  The segment log keeps what it is told.  \<open>holds W m L\<close> relates the directory to the entries of each
  of its segments, the open one last; writing an entry appends it, a crash leaves a prefix that
  holds everything synced, and recovery reads exactly that back.
\<close>

record 'n part =
  pt_id :: nat
  pt_ino :: nat
  pt_es :: "'n wal_entry list"

definition logged :: "'n part list \<Rightarrow> 'n wal_entry list" where
  "logged L = concat (map pt_es L)"

definition good_header :: "'n wenv \<Rightarrow> bytes \<Rightarrow> bool" where
  "good_header W h \<longleftrightarrow> length h = we_hsize W \<and> (\<exists>hd. we_hde W h = Some hd \<and> wh_magic hd = wal_magic)"

definition read_bytes :: "'n wenv \<Rightarrow> bytes \<Rightarrow> 'n wal_entry list res" where
  "read_bytes W d =
     (if length d < we_hsize W then Inr []
      else case we_hde W (take (we_hsize W) d) of
          None \<Rightarrow> Inl (Serialization ''Failed to deserialize header'')
        | Some h \<Rightarrow> if wh_magic h \<noteq> wal_magic then Inl (Corruption ''Invalid WAL magic number'')
            else Inr (log_read_loop W (drop (we_hsize W) d)))"

lemma read_segment_bytes:
  assumes "wenv_ok W" and "map_of (f_dir fs) n = Some i"
  shows "read_segment W fs n = read_bytes W (f_data fs i)"
  using assms
  by (auto simp: read_segment_def sg_open_for_reading_def sg_read_entries_def read_bytes_def f_len_def
      wenv_ok_def Let_def log_read_loop_short not_less split: option.split)

definition open_ok :: "'n wenv \<Rightarrow> fsys \<Rightarrow> segment \<Rightarrow> 'n part \<Rightarrow> bool" where
  "open_ok W fs g p \<longleftrightarrow> sg_name g = log_name seg_prefix (pt_id p) \<and> sg_ino g = pt_ino p
     \<and> wh_magic (sg_header g) = wal_magic \<and> (\<forall>e \<in> set (pt_es p). keeps W e)
     \<and> (\<exists>h. good_header W h \<and> f_data fs (pt_ino p) = h @ body (we_ser W) (pt_es p))
     \<and> we_hsize W \<le> f_synced fs (pt_ino p) \<and> f_synced fs (pt_ino p) \<le> f_len fs (pt_ino p)
     \<and> (we_sync W = SyncFsync \<longrightarrow> f_synced fs (pt_ino p) = f_len fs (pt_ino p))"

definition part_ok :: "'n wenv \<Rightarrow> fsys \<Rightarrow> 'n part \<Rightarrow> bool" where
  "part_ok W fs p \<longleftrightarrow> pt_ino p < f_next fs \<and> read_bytes W (f_data fs (pt_ino p)) = Inr (pt_es p)"

definition sealed :: "fsys \<Rightarrow> 'n part \<Rightarrow> bool" where
  "sealed fs p \<longleftrightarrow> f_synced fs (pt_ino p) = f_len fs (pt_ino p)"

definition holds :: "'n wenv \<Rightarrow> 'n wal_mgr \<Rightarrow> 'n part list \<Rightarrow> bool" where
  "holds W m L \<longleftrightarrow>
     f_dir (wm_fs m) = map (\<lambda>p. (log_name seg_prefix (pt_id p), pt_ino p)) L
     \<and> sorted_wrt (<) (map pt_id L) \<and> distinct (map pt_ino L)
     \<and> (\<forall>p \<in> set L. pt_id p < wm_counter m \<and> part_ok W (wm_fs m) p) \<and> wm_counter m < 2 ^ 64
     \<and> (case wm_cur m of None \<Rightarrow> \<forall>p \<in> set L. sealed (wm_fs m) p
        | Some g \<Rightarrow> L \<noteq> [] \<and> open_ok W (wm_fs m) g (last L) \<and> (\<forall>p \<in> set (butlast L). sealed (wm_fs m) p))"

lemma read_open: "wenv_ok W \<Longrightarrow> good_header W h \<Longrightarrow> \<forall>e \<in> set es. keeps W e \<Longrightarrow> 
  read_bytes W (take n (h @ body (we_ser W) es)) =
    Inr (if n < we_hsize W then [] else take (whole (we_ser W) (n - we_hsize W) es) es)"
  by (auto simp: read_bytes_def good_header_def log_read_loop_torn)

lemma read_open_all: "wenv_ok W \<Longrightarrow> good_header W h \<Longrightarrow> \<forall>e \<in> set es. keeps W e \<Longrightarrow>
  read_bytes W (h @ body (we_ser W) es) = Inr es"
  using read_open [of W h es "length (h @ body (we_ser W) es)"] by (simp add: whole_all good_header_def)

subsection \<open>The operations on the open segment\<close>

lemma last_inode:
  assumes "distinct (map pt_ino L)" and "L \<noteq> []" and "p \<in> set (butlast L)"
  shows "pt_ino p \<noteq> pt_ino (last L)"
proof -
  have "map pt_ino L = map pt_ino (butlast L) @ [pt_ino (last L)]"
    using assms(2) by (metis append_butlast_last_id list.simps(8,9) map_append)
  with assms(1) have "pt_ino (last L) \<notin> pt_ino ` set (butlast L)" by simp
  with assms(3) show ?thesis by (metis imageI)
qed

text \<open>Changing only the file of the open segment keeps the others.\<close>

lemma holds_open:
  assumes m: "holds W m L" "wm_cur m = Some g" and W: "wenv_ok W"
    and fs: "f_dir fs' = f_dir (wm_fs m)" "f_next fs' = f_next (wm_fs m)"
      "\<And>i. i \<noteq> sg_ino g \<Longrightarrow> f_data fs' i = f_data (wm_fs m) i \<and> f_synced fs' i = f_synced (wm_fs m) i"
    and g': "open_ok W fs' g' (last L\<lparr>pt_es := es\<rparr>)"
  shows "holds W (m\<lparr>wm_fs := fs', wm_cur := Some g'\<rparr>) (butlast L @ [last L\<lparr>pt_es := es\<rparr>])"
proof -
  have L: "L \<noteq> []" and gi: "sg_ino g = pt_ino (last L)"
    using m by (auto simp: holds_def open_ok_def)
  define L0 x where "L0 = butlast L" and "x = last L"
  have Lx: "L = L0 @ [x]" using L by (simp add: L0_def x_def)
  have x': "part_ok W fs' (x\<lparr>pt_es := es\<rparr>)"
    using g' fs(2) m W read_open_all [OF W] Lx by (auto simp: part_ok_def open_ok_def holds_def)
  have other: "part_ok W fs' p \<longleftrightarrow> part_ok W (wm_fs m) p" "sealed fs' p \<longleftrightarrow> sealed (wm_fs m) p"
    if "p \<in> set L0" for p
    using fs(2,3) that last_inode [of L p] m(1) Lx gi
    by (auto simp: part_ok_def sealed_def f_len_def holds_def)
  show ?thesis
    using m x' other g' fs(1) unfolding Lx by (auto simp: holds_def)
qed

lemma write_header_over:
  assumes "wenv_ok W" and "open_ok W fs g p"
  shows "sg_write_header W g fs =
      (Inr (), fs\<lparr>f_data := (f_data fs)(sg_ino g := we_hser W (sg_header g) @ body (we_ser W) (pt_es p))\<rparr>)"
proof -
  obtain h where h: "length h = we_hsize W" "f_data fs (sg_ino g) = h @ body (we_ser W) (pt_es p)" "sg_ino g = pt_ino p"
    using assms(2) by (auto simp: open_ok_def good_header_def)
  have "length (we_hser W (sg_header g)) = we_hsize W" using assms by (simp add: wenv_ok_def open_ok_def)
  with h show ?thesis
    unfolding sg_write_header_def by (subst f_write_over) (simp_all add: f_len_def)
qed

lemma header_good: "wenv_ok W \<Longrightarrow> wh_magic h = wal_magic \<Longrightarrow> good_header W (we_hser W h)"
  by (simp add: wenv_ok_def good_header_def)

lemma open_fits: "holds W m L \<Longrightarrow> wm_cur m = Some g \<Longrightarrow> open_ok W (wm_fs m) g (last L)"
  by (simp add: holds_def)

lemma holds_frame [simp]: "holds W (m\<lparr>wm_segs := x\<rparr>) L = holds W m L"
  "holds W (m\<lparr>wm_pending := y\<rparr>) L = holds W m L"
  by (simp_all add: holds_def split: option.split)

lemma open_headered:
  assumes "wenv_ok W" and "open_ok W fs g p"
    and "f_data fs' = (f_data fs)(sg_ino g := we_hser W (sg_header g) @ body (we_ser W) (pt_es p))"
    and "f_synced fs' = f_synced fs \<or> f_synced fs' = (f_synced fs)(sg_ino g := f_len fs' (sg_ino g))"
  shows "open_ok W fs' g p \<and> f_len fs' (sg_ino g) = f_len fs (sg_ino g)"
proof -
  obtain h where h: "length h = we_hsize W" "f_data fs (pt_ino p) = h @ body (we_ser W) (pt_es p)" "sg_ino g = pt_ino p"
    using assms(2) by (auto simp: open_ok_def good_header_def)
  have n: "length (we_hser W (sg_header g)) = we_hsize W" using assms(1,2) by (simp add: wenv_ok_def open_ok_def)
  have "good_header W (we_hser W (sg_header g))"
    using header_good [OF assms(1)] assms(2) by (simp add: open_ok_def)
  with assms(2-4) h n show ?thesis
    by (auto simp: open_ok_def f_len_def)
qed

lemma holds_seal:
  assumes "holds W m L" and "wm_cur m = Some g" and "f_synced (wm_fs m) (sg_ino g) = f_len (wm_fs m) (sg_ino g)"
  shows "holds W (m\<lparr>wm_cur := None\<rparr>) L"
proof -
  define L0 x where "L0 = butlast L" and "x = last L"
  have "L = L0 @ [x]" using assms by (simp add: L0_def x_def holds_def)
  with assms show ?thesis by (auto simp: holds_def sealed_def open_ok_def)
qed

lemma close_ok:
  assumes W: "wenv_ok W" and m: "holds W m L" and g: "wm_cur m = Some g"
  shows "\<exists>fs. sg_close W g (wm_fs m) = (Inr (), fs) \<and> holds W (m\<lparr>wm_cur := None, wm_fs := fs\<rparr>) L
    \<and> f_space fs = f_space (wm_fs m) \<and> f_dir fs = f_dir (wm_fs m)"
proof -
  have o: "open_ok W (wm_fs m) g (last L)" and L: "L \<noteq> []" using m g by (auto simp: holds_def)
  define fs where "fs = f_sync (sg_ino g) ((wm_fs m)\<lparr>f_data := (f_data (wm_fs m))(sg_ino g :=
      we_hser W (sg_header g) @ body (we_ser W) (pt_es (last L)))\<rparr>)"
  have c: "sg_close W g (wm_fs m) = (Inr (), fs)"
    by (simp add: sg_close_def write_header_over [OF W o] fs_def)
  have f: "f_data fs = (f_data (wm_fs m))(sg_ino g := we_hser W (sg_header g) @ body (we_ser W) (pt_es (last L)))"
    "f_synced fs = (f_synced (wm_fs m))(sg_ino g := f_len fs (sg_ino g))"
    "f_dir fs = f_dir (wm_fs m)" "f_next fs = f_next (wm_fs m)" "f_space fs = f_space (wm_fs m)"
    by (simp_all add: fs_def f_sync_def f_len_def)
  have o': "open_ok W fs g (last L\<lparr>pt_es := pt_es (last L)\<rparr>)"
    using open_headered [OF W o f(1)] f(2) by simp
  have "holds W (m\<lparr>wm_fs := fs, wm_cur := Some g\<rparr>) (butlast L @ [last L\<lparr>pt_es := pt_es (last L)\<rparr>])"
    by (rule holds_open [OF m g W _ _ _ o']) (simp_all add: f)
  then have "holds W (m\<lparr>wm_fs := fs, wm_cur := Some g\<rparr>) L" using L by simp
  from holds_seal [OF this] f(2) have "holds W (m\<lparr>wm_fs := fs, wm_cur := None\<rparr>) L" by simp
  also have "m\<lparr>wm_fs := fs, wm_cur := None\<rparr> = m\<lparr>wm_cur := None, wm_fs := fs\<rparr>" by simp
  finally have "holds W (m\<lparr>wm_cur := None, wm_fs := fs\<rparr>) L" .
  with c f show ?thesis by blast
qed

lemma fresh_name: "holds W m L \<Longrightarrow> map_of (f_dir (wm_fs m)) (log_name seg_prefix (wm_counter m)) = None"
  by (auto simp: holds_def map_of_eq_None_iff log_name_inj)

lemma new_ok:
  assumes W: "wenv_ok W" and m: "holds W m L" and g: "wm_cur m = None"
    and sp: "we_hsize W \<le> f_space (wm_fs m)" and c: "wm_counter m + 1 < 2 ^ 64"
  shows "\<exists>g fs. sg_new W now (log_name seg_prefix (wm_counter m)) (wm_fs m) = (Inr g, fs)
    \<and> holds W (m\<lparr>wm_fs := fs, wm_cur := Some g, wm_counter := wm_counter m + 1\<rparr>)
        (L @ [\<lparr>pt_id = wm_counter m, pt_ino = f_next (wm_fs m), pt_es = []\<rparr>])
    \<and> f_space fs = f_space (wm_fs m) - we_hsize W \<and> f_len fs (sg_ino g) = we_hsize W"
proof -
  let ?fs = "wm_fs m" let ?n = "log_name seg_prefix (wm_counter m)" let ?i = "f_next (wm_fs m)"
  define g' where "g' = \<lparr>sg_name = ?n, sg_ino = ?i, sg_header = new_header now, sg_count = 0\<rparr>"
  define h where "h = we_hser W (new_header now)"
  have h: "length h = we_hsize W" "good_header W h"
    using W header_good [OF W, of "new_header now"] by (simp_all add: wenv_ok_def h_def new_header_def)
  define fs where "fs = ?fs\<lparr>f_dir := f_dir ?fs @ [(?n, ?i)], f_data := (f_data ?fs)(?i := h),
     f_synced := (f_synced ?fs)(?i := length h), f_created := (f_created ?fs)(?i := now), f_next := Suc ?i,
     f_space := f_space ?fs - length h\<rparr>"
  have new: "sg_new W now ?n ?fs = (Inr g', fs)"
    using fresh_name [OF m] h sp
    by (simp add: sg_new_def f_create_def Let_def sg_write_header_def f_write_def g'_def h_def [symmetric]
        fs_def f_sync_def f_len_def)
  have old: "part_ok W fs p" "sealed fs p" "pt_ino p \<noteq> ?i" if "p \<in> set L" for p
    using m that g by (auto simp: holds_def part_ok_def sealed_def fs_def f_len_def)
  have p: "part_ok W fs \<lparr>pt_id = wm_counter m, pt_ino = ?i, pt_es = []\<rparr>"
    using read_open_all [OF W h(2), of "[]"] by (simp add: part_ok_def fs_def)
  have "open_ok W fs g' \<lparr>pt_id = wm_counter m, pt_ino = ?i, pt_es = []\<rparr>"
    using h by (auto simp: open_ok_def g'_def fs_def f_len_def new_header_def)
  moreover have "f_dir fs = f_dir ?fs @ [(?n, ?i)]" by (simp add: fs_def)
  moreover have "?i \<notin> pt_ino ` set L" using old(3) by (metis imageE)
  ultimately have "holds W (m\<lparr>wm_fs := fs, wm_cur := Some g', wm_counter := wm_counter m + 1\<rparr>)
      (L @ [\<lparr>pt_id = wm_counter m, pt_ino = ?i, pt_es = []\<rparr>])"
    using m c p old by (auto simp: holds_def sorted_wrt_append)
  moreover have "f_len fs (sg_ino g') = we_hsize W" using h by (simp add: fs_def g'_def f_len_def)
  ultimately show ?thesis using new h(1) by (auto simp: fs_def)
qed

lemma rotate_ok:
  assumes W: "wenv_ok W" and m: "holds W m L"
    and sp: "we_hsize W \<le> f_space (wm_fs m)" and c: "wm_counter m + 1 < 2 ^ 64"
  shows "\<exists>m' g i. rotate_segment W now m = (Inr (), m') \<and> holds W m' (L @ [\<lparr>pt_id = wm_counter m, pt_ino = i, pt_es = []\<rparr>])
    \<and> wm_cur m' = Some g \<and> f_len (wm_fs m') (sg_ino g) = we_hsize W
    \<and> f_space (wm_fs m') = f_space (wm_fs m) - we_hsize W \<and> wm_counter m' = wm_counter m + 1
    \<and> wm_pending m' = wm_pending m"
proof (cases "wm_cur m")
  case None
  from new_ok [OF W m None sp c, of now] None show ?thesis
    by (fastforce simp: rotate_segment_def)
next
  case (Some g)
  from close_ok [OF W m Some] obtain fs where fs: "sg_close W g (wm_fs m) = (Inr (), fs)"
    "holds W (m\<lparr>wm_cur := None, wm_fs := fs\<rparr>) L" "f_space fs = f_space (wm_fs m)" by blast
  define m1 where "m1 = m\<lparr>wm_cur := None, wm_fs := fs, wm_segs :=
     filter (\<lambda>(i, _). i \<noteq> wm_counter m) (wm_segs m) @ [(wm_counter m, sg_name g)]\<rparr>"
  have m1: "holds W m1 L" "wm_cur m1 = None" "we_hsize W \<le> f_space (wm_fs m1)" "wm_counter m1 + 1 < 2 ^ 64"
    using fs(2) sp c by (simp_all add: m1_def fs(3))
  have "rotate_segment W now m = and_then (lift_fs m1 (sg_new W now (log_name seg_prefix (wm_counter m1)) (wm_fs m1)))
      (\<lambda>g m. (Inr (), m\<lparr>wm_cur := Some g, wm_counter := wm_counter m + 1\<rparr>))"
    by (simp add: rotate_segment_def Some fs(1) m1_def)
  with new_ok [OF W m1, of now] show ?thesis
    by (fastforce simp: m1_def fs(3))
qed

definition ser_len :: "'n wenv \<Rightarrow> 'n wal_entry \<Rightarrow> nat" where
  "ser_len W e = length (the (we_ser W e))"

text \<open>An entry that fits an empty segment.\<close>

definition fits :: "'n wenv \<Rightarrow> 'n wal_entry \<Rightarrow> bool" where
  "fits W e \<longleftrightarrow> keeps W e \<and> we_hsize W + ser_len W e + 4 \<le> we_max W"

lemma append_ok:
  assumes W: "wenv_ok W" and m: "holds W m L" and g: "wm_cur m = Some g" and e: "keeps W e"
    and room: "f_len (wm_fs m) (sg_ino g) + ser_len W e + 4 \<le> we_max W" and sp: "ser_len W e + 4 \<le> f_space (wm_fs m)"
  shows "\<exists>g' fs. sg_write_entry W e g (wm_fs m) = (Inr (True, g'), fs)
    \<and> holds W (m\<lparr>wm_fs := fs, wm_cur := Some g'\<rparr>) (butlast L @ [last L\<lparr>pt_es := pt_es (last L) @ [e]\<rparr>])
    \<and> f_space fs = f_space (wm_fs m) - (ser_len W e + 4)"
proof -
  let ?fs = "wm_fs m" and ?i = "sg_ino g"
  obtain b where b: "we_ser W e = Some b" "ser_len W e = length b" using e by (auto simp: storable_def ser_len_def)
  have o: "open_ok W ?fs g (last L)" and L: "L \<noteq> []" using m g by (auto simp: holds_def)
  define g' where "g' = g\<lparr>sg_count := sg_count g + 1, sg_header := (sg_header g)\<lparr>wh_count := sg_count g + 1\<rparr>\<rparr>"
  define fs1 where "fs1 = ?fs\<lparr>f_data := (f_data ?fs)(?i := f_data ?fs ?i @ log_frame b), f_space := f_space ?fs - (length b + 4)\<rparr>"
  define fs where "fs = sg_sync_after_flush W g' fs1"
  have room': "f_len ?fs ?i + (length b + 4) \<le> we_max W" "length b + 4 \<le> f_space ?fs" using room sp b by simp_all
  have a1: "f_append ?i (le_bytes 4 (length b)) ?fs = (Inr (), ?fs\<lparr>f_data := (f_data ?fs)(?i := f_data ?fs ?i @ le_bytes 4 (length b)),
      f_space := f_space ?fs - 4\<rparr>)"
    using room'(2) by (subst f_append_ok) simp_all
  have a2: "f_append ?i b (?fs\<lparr>f_data := (f_data ?fs)(?i := f_data ?fs ?i @ le_bytes 4 (length b)), f_space := f_space ?fs - 4\<rparr>)
      = (Inr (), fs1)"
    using room'(2) by (subst f_append_ok) (simp_all add: fs1_def log_frame_def add.commute)
  have w: "sg_write_entry W e g ?fs = (Inr (True, g'), fs)"
    using room'(1) by (simp add: sg_write_entry_def b(1) a1 a2 fs_def g'_def Let_def del: le_bytes.simps)
  have f: "f_data fs = f_data fs1" "f_dir fs = f_dir ?fs" "f_next fs = f_next ?fs" "f_space fs = f_space fs1"
    "f_synced fs = (if we_sync W = SyncFsync then (f_synced ?fs)(?i := f_len fs1 ?i) else f_synced ?fs)"
    by (simp_all add: fs_def fs1_def sg_sync_after_flush_def f_sync_def g'_def f_len_def split: sync_mode.split)
  have o': "open_ok W fs g' (last L\<lparr>pt_es := pt_es (last L) @ [e]\<rparr>)"
    using o e b by (auto simp: open_ok_def f fs1_def g'_def f_len_def)
  have "holds W (m\<lparr>wm_fs := fs, wm_cur := Some g'\<rparr>) (butlast L @ [last L\<lparr>pt_es := pt_es (last L) @ [e]\<rparr>])"
    by (rule holds_open [OF m g W _ _ _ o']) (simp_all add: f fs1_def)
  with w show ?thesis by (auto simp: f fs1_def b)
qed

lemma logged_append: "L \<noteq> [] \<Longrightarrow> logged (butlast L @ [last L\<lparr>pt_es := pt_es (last L) @ es\<rparr>]) = logged L @ es"
proof -
  assume "L \<noteq> []"
  then have "logged L = logged (butlast L @ [last L])" by simp
  then show ?thesis by (simp only: logged_def map_append concat_append) simp
qed

lemma write_entry_ok:
  assumes W: "wenv_ok W" and m: "holds W m L" and g: "wm_cur m \<noteq> None" and e: "fits W e"
    and sp: "we_hsize W + ser_len W e + 4 \<le> f_space (wm_fs m)" and c: "wm_counter m + 1 < 2 ^ 64"
  shows "\<exists>m' L'. wal_write_entry W now e m = (Inr (), m') \<and> holds W m' L' \<and> wm_cur m' \<noteq> None
    \<and> logged L' = logged L @ [e] \<and> wm_counter m' \<le> wm_counter m + 1 \<and> wm_pending m' = wm_pending m
    \<and> f_space (wm_fs m) \<le> f_space (wm_fs m') + we_hsize W + ser_len W e + 4"
proof -
  obtain g where g: "wm_cur m = Some g" using g by auto
  have L: "L \<noteq> []" using m g by (auto simp: holds_def)
  have keeps: "keeps W e" using e by (simp add: fits_def)
  show ?thesis
  proof (cases "f_len (wm_fs m) (sg_ino g) + ser_len W e + 4 \<le> we_max W")
    case True
    have sp': "ser_len W e + 4 \<le> f_space (wm_fs m)" using sp by simp
    from append_ok [OF W m g keeps True sp'] obtain g' fs where w:
      "sg_write_entry W e g (wm_fs m) = (Inr (True, g'), fs)"
      "holds W (m\<lparr>wm_fs := fs, wm_cur := Some g'\<rparr>) (butlast L @ [last L\<lparr>pt_es := pt_es (last L) @ [e]\<rparr>])"
      "f_space fs = f_space (wm_fs m) - (ser_len W e + 4)" by blast
    have "wal_write_entry W now e m = (Inr (), m\<lparr>wm_fs := fs, wm_cur := Some g'\<rparr>)"
      by (simp add: wal_write_entry_def g w(1))
    with w(2,3) logged_append [OF L, of "[e]"] show ?thesis
      by (intro exI conjI) (assumption | simp)+
  next
    case False
    obtain b where b: "we_ser W e = Some b" "ser_len W e = length b" using keeps by (auto simp: storable_def ser_len_def)
    have no: "sg_write_entry W e g (wm_fs m) = (Inr (False, g), wm_fs m)"
      using False b by (simp add: sg_write_entry_def)
    have "we_hsize W \<le> f_space (wm_fs m)" using sp by simp
    from rotate_ok [OF W m this c, of now] obtain m1 g1 i where r: "rotate_segment W now m = (Inr (), m1)"
      "holds W m1 (L @ [\<lparr>pt_id = wm_counter m, pt_ino = i, pt_es = []\<rparr>])" "wm_cur m1 = Some g1"
      "f_len (wm_fs m1) (sg_ino g1) = we_hsize W" "f_space (wm_fs m1) = f_space (wm_fs m) - we_hsize W"
      "wm_counter m1 = wm_counter m + 1" "wm_pending m1 = wm_pending m" by blast
    have "f_len (wm_fs m1) (sg_ino g1) + ser_len W e + 4 \<le> we_max W" "ser_len W e + 4 \<le> f_space (wm_fs m1)"
      using e r sp by (auto simp: fits_def)
    from append_ok [OF W r(2,3) keeps this] obtain g' fs where w:
      "sg_write_entry W e g1 (wm_fs m1) = (Inr (True, g'), fs)"
      "holds W (m1\<lparr>wm_fs := fs, wm_cur := Some g'\<rparr>) (L @ [\<lparr>pt_id = wm_counter m, pt_ino = i, pt_es = [e]\<rparr>])"
      "f_space fs = f_space (wm_fs m1) - (ser_len W e + 4)" by auto
    have "m\<lparr>wm_fs := wm_fs m\<rparr> = m" by simp
    then have "wal_write_entry W now e m = (Inr (), m1\<lparr>wm_fs := fs, wm_cur := Some g'\<rparr>)"
      by (simp add: wal_write_entry_def g no r(1,3) w(1))
    moreover have "logged (L @ [\<lparr>pt_id = wm_counter m, pt_ino = i, pt_es = [e]\<rparr>]) = logged L @ [e]"
      by (simp add: logged_def)
    ultimately show ?thesis using w(2,3) r(5-7) by (intro exI conjI) (assumption | simp)+
  qed
qed

subsection \<open>Reading back\<close>

definition on_files :: "'n wenv \<Rightarrow> fsys \<Rightarrow> 'n part list \<Rightarrow> bool" where
  "on_files W fs L \<longleftrightarrow> f_dir fs = map (\<lambda>p. (log_name seg_prefix (pt_id p), pt_ino p)) L
     \<and> sorted_wrt (<) (map pt_id L) \<and> distinct (map pt_ino L)
     \<and> (\<forall>p \<in> set L. pt_id p + 1 < 2 ^ 64 \<and> part_ok W fs p)"

lemma holds_on_files: "holds W m L \<Longrightarrow> on_files W (wm_fs m) L"
  by (fastforce simp: holds_def on_files_def)

lemma ok_parts_Inr [simp]: "ok_parts (map (\<lambda>x. Inr (f x)) xs) = map f xs"
  by (induction xs) (simp_all add: ok_parts_def List.map_filter_def)

lemma on_files_names:
  assumes "on_files W (wm_fs m) L"
  shows "list_segment_files_on_disk m = map (\<lambda>p. log_name seg_prefix (pt_id p)) L"
    and "segment_files m = map (\<lambda>p. log_name seg_prefix (pt_id p)) L"
    and "List.map_filter (parse_log_id seg_prefix) (list_segment_files_on_disk m) = map pt_id L"
proof -
  have id: "parse_log_id seg_prefix (log_name seg_prefix (pt_id p)) = Some (pt_id p)" if "p \<in> set L" for p
    using assms that by (intro parse_log_id) (auto simp: on_files_def)
  have dir: "f_dir (wm_fs m) = map (\<lambda>p. (log_name seg_prefix (pt_id p), pt_ino p)) L"
    using assms by (simp add: on_files_def)
  show l: "list_segment_files_on_disk m = map (\<lambda>p. log_name seg_prefix (pt_id p)) L"
    unfolding list_segment_files_on_disk_def dir by (simp add: comp_def filter_id_conv)
  have ids: "map (\<lambda>f. case parse_log_id seg_prefix f of Some i \<Rightarrow> i | None \<Rightarrow> u64_max) (list_segment_files_on_disk m) = map pt_id L"
    unfolding l using id by (auto simp: comp_def)
  have "sorted (map pt_id L)" using assms by (simp add: on_files_def strict_sorted_iff)
  then show "segment_files m = map (\<lambda>p. log_name seg_prefix (pt_id p)) L"
    unfolding segment_files_def l [symmetric] by (intro sort_key_id_if_sorted) (simp only: ids)
  show "List.map_filter (parse_log_id seg_prefix) (list_segment_files_on_disk m) = map pt_id L"
    unfolding l using id by (induction L) (simp_all add: List.map_filter_def)
qed

lemma on_files_lookup:
  assumes "on_files W fs L" and "p \<in> set L"
  shows "map_of (f_dir fs) (log_name seg_prefix (pt_id p)) = Some (pt_ino p)"
proof -
  have ids: "distinct (map pt_id L)" and lt: "\<And>q. q \<in> set L \<Longrightarrow> pt_id q < 2 ^ 64"
    using assms(1) by (auto simp: on_files_def strict_sorted_iff)
  have "inj_on (log_name seg_prefix) (pt_id ` set L)"
    using lt by (intro inj_onI) (auto simp: log_name_inj)
  then have "distinct (map (\<lambda>p. log_name seg_prefix (pt_id p)) L)"
    using ids by (auto simp: distinct_map intro: inj_on_subset comp_inj_on [unfolded comp_def])
  then show ?thesis
    using assms by (intro map_of_is_SomeI) (auto simp: on_files_def comp_def)
qed

lemma read_disk_ok:
  assumes W: "wenv_ok W" and L: "on_files W (wm_fs m) L"
  shows "read_entries_from_disk W m = Inr (sort_key entry_timestamp (logged L))"
proof -
  have "read_segment W (wm_fs m) (log_name seg_prefix (pt_id p)) = Inr (pt_es p)" if "p \<in> set L" for p
    using read_segment_bytes [OF W on_files_lookup [OF L that]] L that by (simp add: on_files_def part_ok_def)
  then have "map (read_segment W (wm_fs m)) (segment_files m) = map (\<lambda>p. Inr (pt_es p)) L"
    by (simp add: on_files_names [OF L])
  then show ?thesis
    by (auto simp: read_entries_from_disk_def Let_def logged_def)
qed

text \<open>What a crash leaves.\<close>

lemma crash_files:
  assumes W: "wenv_ok W" and m: "holds W m L"
  shows "\<exists>L' j. on_files W (power_loss keep (wm_fs m)) L' \<and> map pt_id L' = map pt_id L
    \<and> logged L' = take j (logged L) \<and> j \<le> length (logged L)
    \<and> (we_sync W = SyncFsync \<or> wm_cur m = None \<longrightarrow> j = length (logged L))"
proof -
  let ?fs = "power_loss keep (wm_fs m)"
  have same: "part_ok W ?fs p" if "p \<in> set L" "sealed (wm_fs m) p" for p
    using m that by (auto simp: part_ok_def sealed_def power_loss_def Let_def holds_def f_len_def)
  have dir: "f_dir ?fs = f_dir (wm_fs m)" by (simp add: power_loss_def Let_def)
  show ?thesis
  proof (cases "wm_cur m")
    case None
    then have "on_files W ?fs L"
      using m same dir by (auto simp: on_files_def holds_def)
    then show ?thesis by (intro exI [of _ L] exI [of _ "length (logged L)"]) simp
  next
    case (Some g)
    define L0 x where "L0 = butlast L" and "x = last L"
    have L: "L = L0 @ [x]" using m Some by (simp add: L0_def x_def holds_def)
    have o: "open_ok W (wm_fs m) g x" using m Some L by (simp add: holds_def)
    then obtain h where h: "good_header W h" "f_data (wm_fs m) (pt_ino x) = h @ body (we_ser W) (pt_es x)"
      and k: "\<forall>e \<in> set (pt_es x). keeps W e" by (auto simp: open_ok_def)
    define n where "n = max (f_synced (wm_fs m) (pt_ino x)) (keep (pt_ino x))"
    define j where "j = whole (we_ser W) (n - we_hsize W) (pt_es x)"
    have n: "\<not> n < we_hsize W" using o by (auto simp: open_ok_def n_def)
    have d: "f_data ?fs (pt_ino x) = take n (h @ body (we_ser W) (pt_es x))"
      by (simp add: power_loss_def Let_def n_def h(2))
    have "pt_ino x < f_next ?fs" using m L by (simp add: holds_def part_ok_def power_loss_def Let_def)
    then have x': "part_ok W ?fs (x\<lparr>pt_es := take j (pt_es x)\<rparr>)"
      using n read_open [OF W h(1) k, of n] by (simp add: part_ok_def d j_def del: take_append)
    have "on_files W ?fs (L0 @ [x\<lparr>pt_es := take j (pt_es x)\<rparr>])"
      using m Some x' same dir unfolding L by (auto simp: on_files_def holds_def)
    moreover have j: "j \<le> length (pt_es x)" by (simp add: j_def whole_le)
    moreover have "j = length (pt_es x)" if "we_sync W = SyncFsync"
    proof -
      have "f_synced (wm_fs m) (pt_ino x) = we_hsize W + length (body (we_ser W) (pt_es x))"
        using o that h by (simp add: open_ok_def f_len_def good_header_def)
      then have "length (body (we_ser W) (pt_es x)) \<le> n - we_hsize W" by (simp add: n_def)
      then show ?thesis by (simp add: j_def whole_all)
    qed
    ultimately show ?thesis
      using L Some
      by (intro exI [of _ "L0 @ [x\<lparr>pt_es := take j (pt_es x)\<rparr>]"] exI [of _ "length (logged L0) + j"])
         (auto simp: logged_def)
  qed
qed

lemma fold_max_sorted: "sorted (xs :: nat list) \<Longrightarrow> (\<forall>x \<in> set xs. n \<le> x) \<Longrightarrow> fold max xs n = (if xs = [] then n else last xs)"
  by (induction xs arbitrary: n) auto

lemma scan_counter:
  assumes "on_files W (wm_fs m) L"
  shows "wm_counter (scan_existing_segments m) = (if L = [] then 1 else pt_id (last L) + 1)"
proof -
  have "sorted (map pt_id L)" using assms by (simp add: on_files_def strict_sorted_iff)
  then show ?thesis
    using fold_max_sorted [of "map pt_id L" 0]
    by (simp add: scan_existing_segments_def on_files_names(3) [OF assms] last_map)
qed

text \<open>Opening the log of an earlier process.\<close>

lemma initialize_ok:
  assumes W: "wenv_ok W" and L: "on_files W fs L" and s: "\<forall>p \<in> set L. sealed fs p"
    and sp: "we_hsize W \<le> f_space fs" and c: "\<forall>p \<in> set L. pt_id p < K" "0 < K" "K + 1 < 2 ^ 64"
  shows "\<exists>m' L'. wal_initialize W now (wm_new fs) = (Inr (), m') \<and> holds W m' L' \<and> wm_cur m' \<noteq> None
    \<and> logged L' = logged L \<and> wm_pending m' = [] \<and> f_space fs \<le> f_space (wm_fs m') + we_hsize W
    \<and> wm_counter m' \<le> K + 1"
proof -
  define m where "m = scan_existing_segments (wm_new fs :: 'a wal_mgr)"
  have fs: "wm_fs m = fs" "wm_cur m = None" "wm_pending m = []" "wm_segs m = []"
    by (simp_all add: m_def scan_existing_segments_def wm_new_def)
  have cnt: "wm_counter m = (if L = [] then 1 else pt_id (last L) + 1)"
    using scan_counter [of W "wm_new fs" L] L by (simp add: m_def wm_new_def)
  have srt: "sorted_wrt (<) (map pt_id L)" using L by (simp add: on_files_def)
  have below: "pt_id p < wm_counter m" if "p \<in> set L" for p
  proof -
    have "L \<noteq> []" using that by auto
    then have "pt_id p \<le> pt_id (last L)"
      using srt that by (induction L) (auto simp: less_imp_le)
    with cnt \<open>L \<noteq> []\<close> show ?thesis by simp
  qed
  have le: "wm_counter m \<le> K" using c cnt by (cases "L = []") (auto simp: Suc_le_eq)
  have big: "wm_counter m + 1 < 2 ^ 64" using c le by simp
  then have hm: "holds W m L"
    using L s below fs by (simp add: holds_def on_files_def)
  show ?thesis
  proof (cases "try_reuse_last_empty_segment W now m")
    case (Pair r m')
    show ?thesis
    proof (cases r)
      case False
      then have "m' = m" using Pair by (auto simp: try_reuse_last_empty_segment_def split: if_splits option.splits)
      then have "wal_initialize W now (wm_new fs) = rotate_segment W now m"
        using Pair False by (simp add: wal_initialize_def m_def)
      with rotate_ok [OF W hm _ big, of now] sp fs le show ?thesis by (fastforce simp: logged_def)
    next
      case True
      then obtain i where i: "1 < wm_counter m" "map_of (f_dir fs) (log_name seg_prefix (wm_counter m - 1)) = Some i"
        "f_len fs i = we_hsize W" and m': "m' = m\<lparr>wm_cur := Some \<lparr>sg_name = log_name seg_prefix (wm_counter m - 1),
          sg_ino = i, sg_header = new_header now, sg_count = 0\<rparr>\<rparr>"
        using Pair fs by (auto simp: try_reuse_last_empty_segment_def sg_open_empty_for_append_def split: if_splits option.splits)
      have ne: "L \<noteq> []" using cnt i(1) by auto
      then have last: "last L \<in> set L" "wm_counter m - 1 = pt_id (last L)" using cnt by auto
      then have ino: "i = pt_ino (last L)" using on_files_lookup [OF L last(1)] i(2) by simp
      have p: "read_bytes W (f_data fs i) = Inr (pt_es (last L))"
        using L last(1) ino by (simp add: on_files_def part_ok_def)
      have len: "length (f_data fs i) = we_hsize W" using i(3) by (simp add: f_len_def)
      then have es: "pt_es (last L) = []" "good_header W (f_data fs i)"
        using p by (auto simp: read_bytes_def good_header_def log_read_loop_short split: option.splits if_splits)
      have "open_ok W fs \<lparr>sg_name = log_name seg_prefix (wm_counter m - 1), sg_ino = i, sg_header = new_header now, sg_count = 0\<rparr> (last L)"
        using es ino last s len unfolding open_ok_def by (auto simp: new_header_def sealed_def f_len_def)
      moreover have "\<forall>p \<in> set (butlast L). sealed fs p" using s by (auto dest: in_set_butlastD)
      ultimately have "holds W m' L"
        using hm fs ne by (simp add: holds_def m')
      moreover have "wal_initialize W now (wm_new fs) = (Inr (), m')"
        using Pair True by (simp add: wal_initialize_def m_def)
      ultimately show ?thesis using m' fs le by auto
    qed
  qed
qed

end
