(* ===== verification/Wal_Durability.thy ===== *)
theory Wal_Durability
  imports Wal_Correct
begin

text \<open>
  The write path of the segment log as its client sees it: \<open>wal_log\<close> states the promises of a log that
  the engine relies on, and \<open>seg\<close> interprets it on the manager of \<open>storage/wal.rs\<close> when every write
  is synced.  Then the crash theorem for every sync mode, and the cases where an acknowledged entry is
  not on disk.
\<close>

lemma append_batch_ok:
  assumes W: "wenv_ok W" and m: "holds W m L" and g: "wm_cur m = Some g" and es: "\<forall>e \<in> set es. keeps W e"
    and sp: "length (body (we_ser W) es) \<le> f_space (wm_fs m)"
  shows "\<exists>g' fs. and_then (lift_fs m (f_append (sg_ino g) (body (we_ser W) es) (wm_fs m))) (\<lambda>_ m.
        let n = sg_count g + word_of_nat (length es);
            g = g\<lparr>sg_count := n, sg_header := (sg_header g)\<lparr>wh_count := n\<rparr>\<rparr> in
        lift_fs (m\<lparr>wm_cur := Some g\<rparr>) (sg_sync_header_and_flush W g (wm_fs m)))
      = (Inr (), m\<lparr>wm_fs := fs, wm_cur := Some g'\<rparr>)
    \<and> holds W (m\<lparr>wm_fs := fs, wm_cur := Some g'\<rparr>) (butlast L @ [last L\<lparr>pt_es := pt_es (last L) @ es\<rparr>])
    \<and> f_space fs = f_space (wm_fs m) - length (body (we_ser W) es)"
proof -
  let ?fs = "wm_fs m" and ?i = "sg_ino g" and ?b = "body (we_ser W) es"
  have o: "open_ok W ?fs g (last L)" and L: "L \<noteq> []" using m g by (auto simp: holds_def)
  define n where "n = sg_count g + word_of_nat (length es)"
  define g' where "g' = g\<lparr>sg_count := n, sg_header := (sg_header g)\<lparr>wh_count := n\<rparr>\<rparr>"
  define p where "p = last L\<lparr>pt_es := pt_es (last L) @ es\<rparr>"
  define fs1 where "fs1 = ?fs\<lparr>f_data := (f_data ?fs)(?i := f_data ?fs ?i @ ?b), f_space := f_space ?fs - length ?b\<rparr>"
  define fs2 where "fs2 = fs1\<lparr>f_data := (f_data fs1)(?i := we_hser W (sg_header g') @ body (we_ser W) (pt_es p))\<rparr>"
  define fs where "fs = sg_sync_after_flush W g' fs2"
  obtain h where h: "good_header W h" "f_data ?fs ?i = h @ body (we_ser W) (pt_es (last L))"
    using o by (auto simp: open_ok_def)
  have hg: "good_header W (we_hser W (sg_header g'))"
    using o header_good [OF W] by (simp add: open_ok_def g'_def)
  have a: "f_append ?i ?b ?fs = (Inr (), fs1)" using sp by (simp add: f_append_ok fs1_def)
  have len: "length (we_hser W (sg_header g')) = we_hsize W" using hg by (simp add: good_header_def)
  have wh: "sg_write_header W g' fs1 = (Inr (), fs2)"
    unfolding sg_write_header_def using h len
    by (subst f_write_over) (simp_all add: f_len_def fs1_def fs2_def g'_def p_def good_header_def)
  have f: "f_data fs = f_data fs2" "f_dir fs = f_dir ?fs" "f_next fs = f_next ?fs" "f_space fs = f_space fs1"
    "f_synced fs = (if we_sync W = SyncFsync then (f_synced ?fs)(?i := f_len fs2 ?i) else f_synced ?fs)"
    by (simp_all add: fs_def fs2_def fs1_def sg_sync_after_flush_def f_sync_def g'_def f_len_def split: sync_mode.split)
  have o': "open_ok W fs g' p"
    using o es hg len h by (auto simp: open_ok_def f fs2_def fs1_def g'_def f_len_def p_def good_header_def)
  have hold: "holds W (m\<lparr>wm_fs := fs, wm_cur := Some g'\<rparr>) (butlast L @ [p])"
    unfolding p_def by (rule holds_open [OF m g W _ _ _ o' [unfolded p_def]]) (simp_all add: f fs2_def fs1_def)
  have eq: "m\<lparr>wm_fs := fs1, wm_cur := Some g', wm_fs := fs\<rparr> = m\<lparr>wm_fs := fs, wm_cur := Some g'\<rparr>" by simp
  have "and_then (lift_fs m (f_append ?i ?b ?fs)) (\<lambda>_ m. let n = sg_count g + word_of_nat (length es);
      g = g\<lparr>sg_count := n, sg_header := (sg_header g)\<lparr>wh_count := n\<rparr>\<rparr> in
      lift_fs (m\<lparr>wm_cur := Some g\<rparr>) (sg_sync_header_and_flush W g (wm_fs m))) = (Inr (), m\<lparr>wm_fs := fs, wm_cur := Some g'\<rparr>)"
    using wh by (simp add: a Let_def n_def [symmetric] g'_def [symmetric] sg_sync_header_and_flush_def fs_def [symmetric])
  moreover have "f_space fs = f_space ?fs - length ?b" by (simp add: f fs1_def)
  ultimately show ?thesis using hold [unfolded p_def] by blast
qed

text \<open>The header of the segment may be written twice; a batch never needs more.\<close>

lemma rotate_if_ok:
  assumes W: "wenv_ok W" and m: "holds W m L" and g: "wm_cur m \<noteq> None"
    and sp: "we_hsize W \<le> f_space (wm_fs m)" and c: "wm_counter m + 1 < 2 ^ 64"
  shows "\<exists>m' L'. (if b then rotate_segment W now m else (Inr (), m)) = (Inr (), m') \<and> holds W m' L'
    \<and> logged L' = logged L \<and> wm_cur m' \<noteq> None \<and> wm_pending m' = wm_pending m
    \<and> f_space (wm_fs m) \<le> f_space (wm_fs m') + we_hsize W \<and> wm_counter m' \<le> wm_counter m + 1"
proof (cases b)
  case True
  with rotate_ok [OF W m sp c, of now] show ?thesis by (fastforce simp: logged_def)
qed (use m g in auto)

lemma batch_ok:
  assumes W: "wenv_ok W" and m: "holds W m L" and g: "wm_cur m \<noteq> None" and es: "\<forall>e \<in> set es. keeps W e"
    and sp: "2 * we_hsize W + length (body (we_ser W) es) \<le> f_space (wm_fs m)" and c: "wm_counter m + 2 < 2 ^ 64"
  shows "\<exists>m' L'. batch_write_entries W now es m = (Inr (), m') \<and> holds W m' L' \<and> wm_cur m' \<noteq> None
    \<and> logged L' = logged L @ es \<and> wm_pending m' = wm_pending m \<and> wm_counter m' \<le> wm_counter m + 2
    \<and> f_space (wm_fs m) \<le> f_space (wm_fs m') + 2 * we_hsize W + length (body (we_ser W) es)"
proof (cases "es = []")
  case True
  with m g show ?thesis by (auto simp: batch_write_entries_def)
next
  case False
  obtain g where g: "wm_cur m = Some g" using g by auto
  have "we_hsize W \<le> f_space (wm_fs m)" "wm_counter m + 1 < 2 ^ 64" using sp c by simp_all
  from rotate_if_ok [OF W m _ this, of "sg_should_rotate W g (wm_fs m)" now] g obtain m1 L1 where r1:
    "(if sg_should_rotate W g (wm_fs m) then rotate_segment W now m else (Inr (), m)) = (Inr (), m1)"
    "holds W m1 L1" "logged L1 = logged L" "wm_cur m1 \<noteq> None" "wm_pending m1 = wm_pending m"
    "f_space (wm_fs m) \<le> f_space (wm_fs m1) + we_hsize W" "wm_counter m1 \<le> wm_counter m + 1" by auto
  obtain g1 where g1: "wm_cur m1 = Some g1" using r1 by auto
  have "we_hsize W \<le> f_space (wm_fs m1)" "wm_counter m1 + 1 < 2 ^ 64" using r1 sp c by simp_all
  from rotate_if_ok [OF W r1(2,4) this, of "we_max W < f_len (wm_fs m1) (sg_ino g1) + length (body (we_ser W) es)" now]
  obtain m2 L2 where r2:
    "(if we_max W < f_len (wm_fs m1) (sg_ino g1) + length (body (we_ser W) es) then rotate_segment W now m1 else (Inr (), m1)) = (Inr (), m2)"
    "holds W m2 L2" "logged L2 = logged L1" "wm_cur m2 \<noteq> None" "wm_pending m2 = wm_pending m1"
    "f_space (wm_fs m1) \<le> f_space (wm_fs m2) + we_hsize W" "wm_counter m2 \<le> wm_counter m1 + 1" by blast
  obtain g2 where g2: "wm_cur m2 = Some g2" using r2 by auto
  have L2: "L2 \<noteq> []" using r2 g2 by (auto simp: holds_def)
  have "length (body (we_ser W) es) \<le> f_space (wm_fs m2)" using r1 r2 sp by simp
  from append_batch_ok [OF W r2(2) g2 es this] obtain g' fs where a:
    "and_then (lift_fs m2 (f_append (sg_ino g2) (body (we_ser W) es) (wm_fs m2))) (\<lambda>_ m.
        let n = sg_count g2 + word_of_nat (length es);
            g = g2\<lparr>sg_count := n, sg_header := (sg_header g2)\<lparr>wh_count := n\<rparr>\<rparr> in
        lift_fs (m\<lparr>wm_cur := Some g\<rparr>) (sg_sync_header_and_flush W g (wm_fs m)))
      = (Inr (), m2\<lparr>wm_fs := fs, wm_cur := Some g'\<rparr>)"
    "holds W (m2\<lparr>wm_fs := fs, wm_cur := Some g'\<rparr>) (butlast L2 @ [last L2\<lparr>pt_es := pt_es (last L2) @ es\<rparr>])"
    "f_space fs = f_space (wm_fs m2) - length (body (we_ser W) es)" by blast
  have "frames (we_ser W) es = Inr (body (we_ser W) es)" by (rule frames_body [OF es])
  then have "batch_write_entries W now es m = (Inr (), m2\<lparr>wm_fs := fs, wm_cur := Some g'\<rparr>)"
    using False by (simp add: batch_write_entries_def g r1(1) g1 r2(1) g2 a(1))
  with a(2,3) logged_append [OF L2, of es] r1 r2 show ?thesis
    by (intro exI conjI) (assumption | simp)+
qed

lemma fold_remove_dir: "f_dir (fold f_remove ns fs) = filter (\<lambda>(n, _). n \<notin> set ns) (f_dir fs)"
  by (induction ns arbitrary: fs) (auto simp: f_remove_def intro!: filter_cong)

lemma fold_remove_same [simp]: "f_data (fold f_remove ns fs) = f_data fs" "f_next (fold f_remove ns fs) = f_next fs"
  "f_space (fold f_remove ns fs) = f_space fs" "f_synced (fold f_remove ns fs) = f_synced fs"
  by (induction ns arbitrary: fs) (auto simp: f_remove_def)

lemma truncate_ok:
  assumes W: "wenv_ok W" and m: "holds W m L" and sp: "we_hsize W \<le> f_space (wm_fs m)" and c: "wm_counter m + 1 < 2 ^ 64"
  shows "\<exists>m' p. truncate_after_flush W now m = (Inr (), m') \<and> holds W m' [p] \<and> pt_es p = []
    \<and> wm_cur m' \<noteq> None \<and> wm_pending m' = wm_pending m \<and> verify_truncated m'
    \<and> f_space (wm_fs m) \<le> f_space (wm_fs m') + we_hsize W \<and> wm_counter m' = wm_counter m + 1"
proof -
  define m1 where "m1 = (case wm_cur m of None \<Rightarrow> m
      | Some g \<Rightarrow> m\<lparr>wm_cur := None, wm_fs := snd (sg_close W g (wm_fs m))\<rparr>)\<lparr>wm_segs := []\<rparr>"
  have m1: "holds W m1 L" "wm_cur m1 = None" "f_space (wm_fs m1) = f_space (wm_fs m)" "wm_counter m1 = wm_counter m"
    "wm_pending m1 = wm_pending m" "wm_segs m1 = []"
    using close_ok [OF W m] m by (auto simp: m1_def split: option.split)
  define m2 where "m2 = m1\<lparr>wm_fs := remove_files (list_segment_files_on_disk m1) (wm_fs m1)\<rparr>"
  have "f_dir (wm_fs m2) = []"
    using on_files_names(1) [OF holds_on_files [OF m1(1)]] m1(1)
    by (auto simp: m2_def remove_files_def fold_remove_dir holds_def)
  then have m2: "holds W m2 []" "list_segment_files_on_disk m2 = []" "wm_cur m2 = None" "wm_segs m2 = []"
    "f_space (wm_fs m2) = f_space (wm_fs m)" "wm_counter m2 = wm_counter m" "wm_pending m2 = wm_pending m"
    using m1 c by (simp_all add: holds_def m2_def remove_files_def list_segment_files_on_disk_def)
  have t: "truncate_after_flush W now m = rotate_segment W now m2"
    using m2(2) unfolding truncate_after_flush_def Let_def m1_def [symmetric] m2_def by simp
  have sp2: "we_hsize W \<le> f_space (wm_fs m2)" and c2: "wm_counter m2 + 1 < 2 ^ 64" using m2 sp c by simp_all
  from new_ok [OF W m2(1,3) sp2 c2, of now] obtain g fs where n:
    "sg_new W now (log_name seg_prefix (wm_counter m2)) (wm_fs m2) = (Inr g, fs)"
    "holds W (m2\<lparr>wm_fs := fs, wm_cur := Some g, wm_counter := wm_counter m2 + 1\<rparr>)
        ([] @ [\<lparr>pt_id = wm_counter m2, pt_ino = f_next (wm_fs m2), pt_es = []\<rparr>])"
    "f_space fs = f_space (wm_fs m2) - we_hsize W" by blast
  let ?m = "m2\<lparr>wm_fs := fs, wm_cur := Some g, wm_counter := wm_counter m2 + 1\<rparr>"
  have r: "rotate_segment W now m2 = (Inr (), ?m)"
    using n(1) m2(3) by (simp add: rotate_segment_def)
  have "verify_truncated ?m"
    using n(2) m2(4) by (simp add: verify_truncated_def holds_def list_segment_files_on_disk_def open_ok_def)
  with t r n m2 show ?thesis by (intro exI conjI) (assumption | simp)+
qed

subsection \<open>What the engine relies on\<close>

text \<open>The operations of \<open>WalHandle\<close> (\<open>storage/wal_handle.rs\<close>) that the engine calls.\<close>

record ('n, 'w) wal_ops =
  w_init :: "nat \<Rightarrow> 'w \<Rightarrow> unit res \<times> 'w"
  w_put :: "nat \<Rightarrow> key \<Rightarrow> 'n val \<Rightarrow> 'w \<Rightarrow> unit res \<times> 'w"
  w_delete :: "nat \<Rightarrow> key \<Rightarrow> 'w \<Rightarrow> unit res \<times> 'w"
  w_batch :: "nat \<Rightarrow> (key \<times> 'n val) list \<Rightarrow> 'w \<Rightarrow> unit res \<times> 'w"
  w_flush :: "nat \<Rightarrow> 'w \<Rightarrow> unit res \<times> 'w"
  w_truncate :: "nat \<Rightarrow> 'w \<Rightarrow> unit res \<times> 'w"
  w_verify :: "'w \<Rightarrow> bool"
  w_shutdown :: "nat \<Rightarrow> 'w \<Rightarrow> unit res \<times> 'w"
  w_read :: "'w \<Rightarrow> 'n wal_entry list res"
  w_clear :: "'w \<Rightarrow> 'w"

text \<open>\<open>inv n w es\<close>: the log \<open>w\<close> holds the entries \<open>es\<close> and has room for \<open>n\<close> more writes; \<open>ok\<close> are the
  entries it can hold, and \<open>crash w w'\<close> the loss of the process, and of what the environment takes with it,
  after which the log is \<open>w'\<close>.\<close>

locale wal_log =
  fixes ops :: "('n, 'w) wal_ops"
    and inv :: "nat \<Rightarrow> 'w \<Rightarrow> 'n wal_entry list \<Rightarrow> bool"
    and ok :: "'n wal_entry \<Rightarrow> bool"
    and crash :: "'w \<Rightarrow> 'w \<Rightarrow> bool"
  assumes inv_less: "inv (Suc n) w es \<Longrightarrow> inv n w es"
    and put: "inv (Suc n) w es \<Longrightarrow> ok (WPut k v now) \<Longrightarrow>
      \<exists>w'. w_put ops now k v w = (Inr (), w') \<and> inv n w' (es @ [WPut k v now])"
    and delete: "inv (Suc n) w es \<Longrightarrow> ok (WDelete k now) \<Longrightarrow>
      \<exists>w'. w_delete ops now k w = (Inr (), w') \<and> inv n w' (es @ [WDelete k now])"
    and batch: "inv (n + length kvs) w es \<Longrightarrow> \<forall>(k, v) \<in> set kvs. ok (WPut k v now) \<Longrightarrow>
      \<exists>w'. w_batch ops now kvs w = (Inr (), w') \<and> inv n w' (es @ map (\<lambda>(k, v). WPut k v now) kvs)"
    and flush: "inv (Suc n) w es \<Longrightarrow> \<exists>w'. w_flush ops now w = (Inr (), w') \<and> inv n w' es"
    and truncate: "inv (Suc n) w es \<Longrightarrow> \<exists>w'. w_truncate ops now w = (Inr (), w') \<and> inv n w' [] \<and> w_verify ops w'"
    and shutdown: "inv (n + 3) w es \<Longrightarrow> ok (WCheckpoint now) \<Longrightarrow> \<exists>w'. w_shutdown ops now w = (Inr (), w') \<and> inv n w' []"
    and crashes: "\<exists>c. crash w c"
    and read: "inv n w es \<Longrightarrow> crash w c \<Longrightarrow> w_read ops c = Inr (sort_key entry_timestamp es)"
    and reopen: "inv (Suc n) w es \<Longrightarrow> crash w c \<Longrightarrow> \<exists>w'. w_init ops now c = (Inr (), w') \<and> inv n w' es"
begin

lemma inv_le: "inv n w es \<Longrightarrow> m \<le> n \<Longrightarrow> inv m w es"
proof -
  assume "inv n w es" "m \<le> n"
  from this(2) this(1) show "inv m w es" by (rule inc_induct) (rule inv_less)
qed

text \<open>With a clock that never runs backwards the log is read back in the order of its writes.\<close>

lemma read_in_order: "inv n w es \<Longrightarrow> crash w c \<Longrightarrow> sorted (map entry_timestamp es) \<Longrightarrow> w_read ops c = Inr es"
  by (simp add: read sort_key_id_if_sorted)

end

definition seg_ops :: "'n wenv \<Rightarrow> ('n, 'n wal_mgr) wal_ops" where
  "seg_ops W = \<lparr>w_init = wal_initialize W, w_put = write_operation W, w_delete = write_delete W,
     w_batch = batch_write_operations W, w_flush = wal_flush W, w_truncate = truncate_after_flush W,
     w_verify = verify_truncated, w_shutdown = mark_clean_shutdown W, w_read = read_entries_from_disk W,
     w_clear = wal_clear_dir\<rparr>"

definition seg_inv :: "'n wenv \<Rightarrow> nat \<Rightarrow> 'n wal_mgr \<Rightarrow> 'n wal_entry list \<Rightarrow> bool" where
  "seg_inv W n m es \<longleftrightarrow> wenv_ok W \<and> (we_group W \<longrightarrow> we_wait W) \<and> we_hsize W + 4 \<le> we_max W
     \<and> (\<exists>L. holds W m L \<and> logged L = es) \<and> wm_cur m \<noteq> None \<and> wm_pending m = []
     \<and> 2 * n * we_max W \<le> f_space (wm_fs m) \<and> wm_counter m + 2 * n + 1 < 2 ^ 64"

lemma entry_logged:
  assumes m: "seg_inv W (Suc n) m es" and e: "fits W e"
  shows "\<exists>m'. wal_write_entry W now e m = (Inr (), m') \<and> seg_inv W n m' (es @ [e])"
proof -
  from m obtain L where L: "holds W m L" "logged L = es" by (auto simp: seg_inv_def)
  from m have W: "wenv_ok W" "wm_cur m \<noteq> None" "wm_pending m = []" by (auto simp: seg_inv_def)
  have k: "we_hsize W + ser_len W e + 4 \<le> we_max W" "keeps W e" using e by (simp_all add: fits_def)
  have sp: "2 * we_max W + 2 * n * we_max W \<le> f_space (wm_fs m)" "wm_counter m + 2 * n + 3 < 2 ^ 64"
    using m by (simp_all add: seg_inv_def)
  have "we_hsize W + ser_len W e + 4 \<le> f_space (wm_fs m)" "wm_counter m + 1 < 2 ^ 64" using k(1) sp by simp_all
  from write_entry_ok [OF W(1) L(1) W(2) e this, of now] m sp k obtain m' L' where w:
    "wal_write_entry W now e m = (Inr (), m')" "holds W m' L'" "wm_cur m' \<noteq> None" "logged L' = es @ [e]"
    "wm_counter m' \<le> wm_counter m + 1" "f_space (wm_fs m) \<le> f_space (wm_fs m') + we_hsize W + ser_len W e + 4"
    "wm_pending m' = wm_pending m"
    using L(2) by auto
  have "seg_inv W n m' (es @ [e])"
    using w L m sp k unfolding seg_inv_def by (intro conjI exI [of _ L']) (auto simp: W(3))
  with w(1) show ?thesis by auto
qed

lemma write_logged:
  assumes m: "seg_inv W (Suc n) m es" and e: "fits W e"
  shows "\<exists>m'. (if we_group W then write_entry_group_commit W now e m else wal_write_entry W now e m) = (Inr (), m')
    \<and> seg_inv W n m' (es @ [e])"
proof -
  from m obtain L where L: "holds W m L" "logged L = es" by (auto simp: seg_inv_def)
  from m have W: "wenv_ok W" "wm_cur m \<noteq> None" "wm_pending m = []" by (auto simp: seg_inv_def)
  have k: "we_hsize W + ser_len W e + 4 \<le> we_max W" "keeps W e" using e by (simp_all add: fits_def)
  have sp: "2 * we_max W + 2 * n * we_max W \<le> f_space (wm_fs m)" "wm_counter m + 2 * n + 3 < 2 ^ 64"
    using m by (simp_all add: seg_inv_def)
  show ?thesis
  proof (cases "we_group W")
    case False
    with entry_logged [OF m e] show ?thesis by simp
  next
    case True
    have b: "body (we_ser W) [e] = log_frame (the (we_ser W e))" by simp
    have "2 * we_hsize W + length (body (we_ser W) [e]) \<le> f_space (wm_fs (m\<lparr>wm_pending := []\<rparr>))" "wm_counter (m\<lparr>wm_pending := []\<rparr>) + 2 < 2 ^ 64"
      using k(1) sp by (simp_all add: ser_len_def)
    from batch_ok [OF W(1) _ _ _ this, of L now] L W k obtain m' L' where w:
      "batch_write_entries W now [e] (m\<lparr>wm_pending := []\<rparr>) = (Inr (), m')" "holds W m' L'" "wm_cur m' \<noteq> None"
      "logged L' = es @ [e]" "wm_pending m' = []" "wm_counter m' \<le> wm_counter m + 2"
      "f_space (wm_fs m) \<le> f_space (wm_fs m') + 2 * we_hsize W + (4 + ser_len W e)"
      by (auto simp: ser_len_def)
    have "write_entry_group_commit W now e m = (Inr (), m')"
      using m True w(1) W(3) by (simp add: write_entry_group_commit_def flush_pending_group_commit_def seg_inv_def)
    moreover have "seg_inv W n m' (es @ [e])"
      using w L m sp k unfolding seg_inv_def by (intro conjI exI [of _ L']) auto
    ultimately show ?thesis using True by simp
  qed
qed

lemma sync_ok:
  assumes W: "wenv_ok W" and m: "holds W m L" and g: "wm_cur m = Some g"
  shows "\<exists>fs. sg_sync_header_and_flush W g (wm_fs m) = (Inr (), fs) \<and> holds W (m\<lparr>wm_fs := fs\<rparr>) L
    \<and> f_space fs = f_space (wm_fs m)"
proof -
  have o: "open_ok W (wm_fs m) g (last L)" and L: "L \<noteq> []" using m g by (auto simp: holds_def)
  define fs1 where "fs1 = (wm_fs m)\<lparr>f_data := (f_data (wm_fs m))(sg_ino g :=
      we_hser W (sg_header g) @ body (we_ser W) (pt_es (last L)))\<rparr>"
  define fs where "fs = sg_sync_after_flush W g fs1"
  have f: "f_data fs = f_data fs1" "f_dir fs = f_dir (wm_fs m)" "f_next fs = f_next (wm_fs m)" "f_space fs = f_space (wm_fs m)"
    "f_synced fs = (if we_sync W = SyncFsync then (f_synced (wm_fs m))(sg_ino g := f_len fs (sg_ino g)) else f_synced (wm_fs m))"
    by (simp_all add: fs_def fs1_def sg_sync_after_flush_def f_sync_def f_len_def split: sync_mode.split)
  have d: "f_data fs = (f_data (wm_fs m))(sg_ino g := we_hser W (sg_header g) @ body (we_ser W) (pt_es (last L)))"
    by (simp add: f fs1_def)
  have "open_ok W fs g (last L\<lparr>pt_es := pt_es (last L)\<rparr>)"
    using open_headered [OF W o d] f(5) by (auto split: if_splits)
  then have "holds W (m\<lparr>wm_fs := fs, wm_cur := Some g\<rparr>) (butlast L @ [last L\<lparr>pt_es := pt_es (last L)\<rparr>])"
    by (intro holds_open [OF m g W]) (auto simp: f fs1_def)
  moreover have "m\<lparr>wm_fs := fs, wm_cur := Some g\<rparr> = m\<lparr>wm_fs := fs\<rparr>" using g by simp
  ultimately have "holds W (m\<lparr>wm_fs := fs\<rparr>) L" using L by simp
  moreover have "sg_sync_header_and_flush W g (wm_fs m) = (Inr (), fs)"
    by (simp add: sg_sync_header_and_flush_def write_header_over [OF W o] fs_def fs1_def)
  ultimately show ?thesis using f(4) by auto
qed

lemma batch_logged:
  assumes m: "seg_inv W (n + length new) m es" and new: "new \<noteq> []" "\<forall>e \<in> set new. fits W e"
  shows "\<exists>m'. batch_write_entries W now new m = (Inr (), m') \<and> seg_inv W n m' (es @ new)"
proof -
  from m obtain L where L: "holds W m L" "logged L = es" by (auto simp: seg_inv_def)
  from m have W: "wenv_ok W" "wm_cur m \<noteq> None" by (auto simp: seg_inv_def)
  have k: "\<forall>e \<in> set new. keeps W e" using new(2) by (auto simp: fits_def)
  have b: "length (body (we_ser W) new) + length new * we_hsize W \<le> length new * we_max W"
    using new(2) by (induction new) (auto simp: fits_def ser_len_def)
  have k1: "we_hsize W \<le> length new * we_hsize W" "we_max W \<le> length new * we_max W" "1 \<le> length new"
    using new(1) by (cases new; simp)+
  have "2 * (n + length new) * we_max W = 2 * n * we_max W + length new * we_max W + length new * we_max W"
    by (simp add: algebra_simps)
  then have sp: "2 * n * we_max W + length new * we_max W + length new * we_max W \<le> f_space (wm_fs m)"
    and c: "wm_counter m + 2 * n + 2 * length new + 1 < 2 ^ 64" and h: "we_hsize W \<le> we_max W"
    using m by (simp_all add: seg_inv_def)
  have sp': "2 * n * we_max W + (2 * we_hsize W + length (body (we_ser W) new)) \<le> f_space (wm_fs m)"
    using b k1 sp h by linarith
  then have "2 * we_hsize W + length (body (we_ser W) new) \<le> f_space (wm_fs m)" "wm_counter m + 2 < 2 ^ 64"
    using c k1 by linarith+
  from batch_ok [OF W(1) L(1) W(2) k this, of now] obtain m' L' where w:
    "batch_write_entries W now new m = (Inr (), m')" "holds W m' L'" "wm_cur m' \<noteq> None"
    "logged L' = logged L @ new" "wm_pending m' = wm_pending m" "wm_counter m' \<le> wm_counter m + 2"
    "f_space (wm_fs m) \<le> f_space (wm_fs m') + 2 * we_hsize W + length (body (we_ser W) new)" by blast
  have "2 * n * we_max W \<le> f_space (wm_fs m')" using sp' w(7) by linarith
  moreover have "wm_counter m' + 2 * n + 1 < 2 ^ 64" using c k1 w(6) by linarith
  ultimately show ?thesis using m w L by (auto simp: seg_inv_def)
qed

lemma seg_batch:
  assumes m: "seg_inv W (n + length kvs) m es" and e: "\<forall>(k, v) \<in> set kvs. fits W (WPut k v now)"
  shows "\<exists>m'. batch_write_operations W now kvs m = (Inr (), m') \<and> seg_inv W n m' (es @ map (\<lambda>(k, v). WPut k v now) kvs)"
proof (cases "kvs = []")
  case True
  with m show ?thesis by (auto simp: batch_write_operations_def)
next
  case False
  have p: "wm_pending m = []" using m by (simp add: seg_inv_def)
  have "\<forall>e \<in> set (map (\<lambda>(k, v). WPut k v now) kvs). fits W e" using e by auto
  then show ?thesis using batch_logged [of W n "map (\<lambda>(k, v). WPut k v now) kvs" m es now] m False p
    by (simp add: batch_write_operations_def flush_pending_group_commit_def)
qed

lemma seg_inv_mono: "seg_inv W (Suc n) m es \<Longrightarrow> seg_inv W n m es"
  by (auto simp: seg_inv_def)

lemma seg_keeps:
  assumes m: "seg_inv W (Suc n) m es" and h: "holds W m' L'" "logged L' = es'" "wm_cur m' \<noteq> None" "wm_pending m' = []"
    and b: "f_space (wm_fs m) \<le> f_space (wm_fs m') + we_hsize W" "wm_counter m' \<le> wm_counter m + 2"
  shows "seg_inv W n m' es'"
  using assms by (auto simp: seg_inv_def)

lemma seg_flush:
  assumes "seg_inv W (Suc n) m es"
  shows "\<exists>m'. wal_flush W now m = (Inr (), m') \<and> seg_inv W n m' es"
proof -
  from assms obtain L where m: "holds W m L" "logged L = es" "wenv_ok W" "wm_cur m \<noteq> None" "wm_pending m = []"
    by (auto simp: seg_inv_def)
  then obtain g where g: "wm_cur m = Some g" by auto
  from sync_ok [OF m(3,1) g] obtain fs where fs: "sg_sync_header_and_flush W g (wm_fs m) = (Inr (), fs)"
    "holds W (m\<lparr>wm_fs := fs\<rparr>) L" "f_space fs = f_space (wm_fs m)" by blast
  have "wal_flush W now m = (Inr (), m\<lparr>wm_fs := fs\<rparr>)"
    using m(5) g fs(1) by (simp add: wal_flush_def flush_pending_group_commit_def)
  moreover have "seg_inv W n (m\<lparr>wm_fs := fs\<rparr>) es"
    using m fs by (intro seg_keeps [OF assms fs(2)]) simp_all
  ultimately show ?thesis by blast
qed

lemma seg_truncate:
  assumes "seg_inv W (Suc n) m es"
  shows "\<exists>m'. truncate_after_flush W now m = (Inr (), m') \<and> seg_inv W n m' [] \<and> verify_truncated m'"
proof -
  from assms obtain L where m: "holds W m L" "wenv_ok W" "wm_pending m = []" by (auto simp: seg_inv_def)
  have "we_hsize W \<le> f_space (wm_fs m)" "wm_counter m + 1 < 2 ^ 64" using assms by (auto simp: seg_inv_def)
  from truncate_ok [OF m(2,1) this, of now] obtain m' p where t: "truncate_after_flush W now m = (Inr (), m')"
    "holds W m' [p]" "pt_es p = []" "wm_cur m' \<noteq> None" "wm_pending m' = wm_pending m" "verify_truncated m'"
    "f_space (wm_fs m) \<le> f_space (wm_fs m') + we_hsize W" "wm_counter m' = wm_counter m + 1" by blast
  have "seg_inv W n m' []"
    using t m(3) by (intro seg_keeps [OF assms t(2)]) (simp_all add: logged_def)
  with t show ?thesis by blast
qed

lemma seg_shutdown:
  assumes m: "seg_inv W (n + 3) m es" and e: "fits W (WCheckpoint now)"
  shows "\<exists>m'. mark_clean_shutdown W now m = (Inr (), m') \<and> seg_inv W n m' []"
proof -
  have "seg_inv W (Suc (Suc (Suc n))) m es" using m by (simp add: numeral_3_eq_3)
  from entry_logged [OF this e, of now] obtain m1 where m1: "wal_write_entry W now (WCheckpoint now) m = (Inr (), m1)"
    "seg_inv W (Suc (Suc n)) m1 (es @ [WCheckpoint now])" by blast
  from seg_flush [OF m1(2), of now] obtain m2 where m2: "wal_flush W now m1 = (Inr (), m2)"
    "seg_inv W (Suc n) m2 (es @ [WCheckpoint now])" by blast
  from seg_truncate [OF m2(2), of now] obtain m3 where m3: "truncate_after_flush W now m2 = (Inr (), m3)" "seg_inv W n m3 []"
    by blast
  have "wm_cur m \<noteq> None" "wm_pending m = []" using m by (simp_all add: seg_inv_def)
  then have "mark_clean_shutdown W now m = (Inr (), m3)"
    using m1(1) m2(1) m3(1) by (auto simp: mark_clean_shutdown_def flush_pending_group_commit_def)
  with m3(2) show ?thesis by blast
qed

text \<open>When every write is synced a crash loses nothing.\<close>

definition seg_synced :: "'n wenv \<Rightarrow> nat \<Rightarrow> 'n wal_mgr \<Rightarrow> 'n wal_entry list \<Rightarrow> bool" where
  "seg_synced W n m es \<longleftrightarrow> we_sync W = SyncFsync \<and> seg_inv W n m es"

lemma seg_read:
  assumes "seg_synced W n m es"
  shows "read_entries_from_disk W (wal_crash keep m) = Inr (sort_key entry_timestamp es)"
proof -
  from assms obtain L where m: "holds W m L" "logged L = es" "wenv_ok W" "we_sync W = SyncFsync"
    by (auto simp: seg_inv_def seg_synced_def)
  from crash_files [OF m(3,1), of keep] m(2,4) obtain L' where L':
    "on_files W (wm_fs (wal_crash keep m)) L'" "logged L' = es"
    by (auto simp: wal_crash_def wm_new_def)
  from read_disk_ok [OF m(3) L'(1)] L'(2) show ?thesis by simp
qed

lemma seg_reopen:
  assumes "seg_synced W (Suc n) m es"
  shows "\<exists>m'. wal_initialize W now (wal_crash keep m) = (Inr (), m') \<and> seg_synced W n m' es"
proof -
  have inv: "seg_inv W (Suc n) m es" using assms by (simp add: seg_synced_def)
  from assms obtain L where m: "holds W m L" "logged L = es" "wenv_ok W" "we_sync W = SyncFsync"
    by (auto simp: seg_inv_def seg_synced_def)
  let ?fs = "power_loss keep (wm_fs m)"
  from crash_files [OF m(3,1), of keep] m(2,4) obtain L' where L':
    "on_files W ?fs L'" "logged L' = es" "map pt_id L' = map pt_id L" by auto
  have s: "\<forall>p \<in> set L'. sealed ?fs p" by (simp add: sealed_def power_loss_def Let_def f_len_def)
  have sp: "f_space ?fs = f_space (wm_fs m)" by (simp add: power_loss_def Let_def)
  have "\<forall>i \<in> set (map pt_id L'). i < wm_counter m" unfolding L'(3) using m(1) by (auto simp: holds_def)
  then have c: "\<forall>p \<in> set L'. pt_id p < wm_counter m" by simp
  have "L \<noteq> []" using inv m(1) by (auto simp: seg_inv_def holds_def)
  then have "0 < wm_counter m" using m(1) by (cases L) (auto simp: holds_def)
  moreover have "we_hsize W \<le> f_space ?fs" "wm_counter m + 1 < 2 ^ 64" using inv sp by (auto simp: seg_inv_def)
  ultimately obtain m' L'' where i: "wal_initialize W now (wm_new ?fs) = (Inr (), m')" "holds W m' L''"
    "wm_cur m' \<noteq> None" "logged L'' = es" "wm_pending m' = []" "f_space ?fs \<le> f_space (wm_fs m') + we_hsize W"
    "wm_counter m' \<le> wm_counter m + 1"
    using initialize_ok [OF m(3) L'(1) s _ c, of now] L'(2) by blast
  have "seg_inv W n m' es"
    using i sp by (intro seg_keeps [OF inv i(2,4)]) simp_all
  with i(1) m(4) show ?thesis by (auto simp: wal_crash_def seg_synced_def)
qed

lemma seg_put:
  assumes "seg_inv W (Suc n) m es"
  shows "fits W (WPut k v now) \<Longrightarrow> \<exists>m'. write_operation W now k v m = (Inr (), m') \<and> seg_inv W n m' (es @ [WPut k v now])"
    and "fits W (WDelete k now) \<Longrightarrow> \<exists>m'. write_delete W now k m = (Inr (), m') \<and> seg_inv W n m' (es @ [WDelete k now])"
  using write_logged [OF assms] by (auto simp: write_operation_def write_delete_def split: if_splits)

text \<open>A crash keeps what was synced and any part of the rest.\<close>

definition seg_crash :: "'n wal_mgr \<Rightarrow> 'n wal_mgr \<Rightarrow> bool" where
  "seg_crash m m' \<longleftrightarrow> (\<exists>keep. m' = wal_crash keep m)"

interpretation seg: wal_log "seg_ops W" "seg_synced W" "fits W" seg_crash for W :: "'n wenv"
  by unfold_locales
    (auto simp: seg_ops_def seg_crash_def seg_read intro: seg_reopen, auto simp: seg_synced_def
      intro: seg_inv_mono seg_put seg_batch seg_flush seg_truncate seg_shutdown)

subsection \<open>A run of writes and a crash\<close>

fun log_all :: "'n wenv \<Rightarrow> 'n wal_entry list \<Rightarrow> 'n wal_mgr \<Rightarrow> unit res \<times> 'n wal_mgr" where
  "log_all W [] m = (Inr (), m)"
| "log_all W (WPut k v now # es) m = and_then (write_operation W now k v m) (\<lambda>_ m. log_all W es m)"
| "log_all W (WDelete k now # es) m = and_then (write_delete W now k m) (\<lambda>_ m. log_all W es m)"
| "log_all W (_ # es) m = log_all W es m"

definition is_write :: "'n wal_entry \<Rightarrow> bool" where
  "is_write e = (case e of WPut _ _ _ \<Rightarrow> True | WDelete _ _ \<Rightarrow> True | _ \<Rightarrow> False)"

lemma log_all_ok:
  "seg_inv W (length es + n) m ds \<Longrightarrow> \<forall>e \<in> set es. is_write e \<and> fits W e \<Longrightarrow>
    \<exists>m'. log_all W es m = (Inr (), m') \<and> seg_inv W n m' (ds @ es)"
proof (induction es arbitrary: m ds)
  case (Cons e es)
  then have m: "seg_inv W (Suc (length es + n)) m ds" by simp
  from Cons.prems(2) have "is_write e" "fits W e" by simp_all
  then show ?case
    using seg_put [OF m] Cons.IH [of _ "ds @ [e]"] Cons.prems(2)
    by (cases e) (fastforce simp: is_write_def)+
qed simp

lemma fresh_log:
  assumes "wenv_ok W" and "we_group W \<longrightarrow> we_wait W" and "we_hsize W + 4 \<le> we_max W"
    and "2 * Suc n * we_max W \<le> sp" and "2 * n + 4 < 2 ^ 64"
  shows "\<exists>m. wal_initialize W now (wm_new (empty_fs sp)) = (Inr (), m) \<and> seg_inv W n m []"
proof -
  have "on_files W (empty_fs sp) []" by (simp add: on_files_def empty_fs_def)
  then obtain m L where m: "wal_initialize W now (wm_new (empty_fs sp)) = (Inr (), m)" "holds W m L" "wm_cur m \<noteq> None"
    "logged L = []" "wm_pending m = []" "sp \<le> f_space (wm_fs m) + we_hsize W" "wm_counter m \<le> 2"
    using initialize_ok [OF assms(1), of "empty_fs sp" "[]" 1 now] assms by (auto simp: empty_fs_def logged_def)
  then show ?thesis using assms by (auto simp: seg_inv_def)
qed


text \<open>A small coding of headers and entries to run the log on.\<close>

fun toy_ser :: "nat wal_entry \<Rightarrow> bytes option" where
  "toy_ser (WPut k (VBytes b) t) = Some ([1, word_of_nat t, word_of_nat (length k)] @ k @ b)"
| "toy_ser (WPut k (VJson j) t) = Some [2]"
| "toy_ser (WPut k v t) = None"
| "toy_ser (WDelete k t) = Some ([3, word_of_nat t] @ k)"
| "toy_ser (WFlush i t) = Some [4, word_of_nat i, word_of_nat t]"
| "toy_ser (WCheckpoint t) = Some [5, word_of_nat t]"

definition toy_de :: "bytes \<Rightarrow> nat wal_entry option" where
  "toy_de b = (case b of
       [] \<Rightarrow> None
     | x # r \<Rightarrow>
         if x = 1 then (case r of t # n # r \<Rightarrow> Some (WPut (take (unat n) r) (VBytes (drop (unat n) r)) (unat t)) | _ \<Rightarrow> None)
         else if x = 3 then (case r of t # k \<Rightarrow> Some (WDelete k (unat t)) | _ \<Rightarrow> None)
         else if x = 4 then (case r of [i, t] \<Rightarrow> Some (WFlush (unat i) (unat t)) | _ \<Rightarrow> None)
         else if x = 5 then (case r of [t] \<Rightarrow> Some (WCheckpoint (unat t)) | _ \<Rightarrow> None)
         else None)"

definition toy_wenv :: "nat \<Rightarrow> sync_mode \<Rightarrow> nat wenv" where
  "toy_wenv mx sm = \<lparr>we_ser = toy_ser, we_de = toy_de,
     we_hser = (\<lambda>h. wh_magic h @ [wh_version h] @ u64_to_le (wh_created h) @ u32_to_le (wh_count h)),
     we_hde = (\<lambda>b. Some \<lparr>wh_magic = take 4 b, wh_version = b ! 4, wh_created = u64_from_le (take 8 (drop 5 b)),
        wh_count = u32_from_le (take 4 (drop 13 b))\<rparr>),
     we_hsize = 17, we_max = mx, we_sync = sm, we_group = False, we_batch = 1, we_wait = True\<rparr>"

lemma toy_wenv_simps [simp]: "we_ser (toy_wenv mx sm) = toy_ser" "we_de (toy_wenv mx sm) = toy_de"
  "we_hsize (toy_wenv mx sm) = 17" "we_max (toy_wenv mx sm) = mx" "we_sync (toy_wenv mx sm) = sm"
  "\<not> we_group (toy_wenv mx sm)"
  by (simp_all add: toy_wenv_def)

lemma toy_wenv_ok: "wenv_ok (toy_wenv mx sm)"
  unfolding wenv_ok_def
proof (intro conjI allI impI)
  fix h :: wal_header
  assume "wh_magic h = wal_magic"
  then have m: "length (wh_magic h) = 4" by (simp add: wal_magic_def)
  then show "length (we_hser (toy_wenv mx sm) h) = we_hsize (toy_wenv mx sm)" by (simp add: toy_wenv_def)
  from m show "we_hde (toy_wenv mx sm) (we_hser (toy_wenv mx sm) h) = Some h"
    by (cases h) (simp add: toy_wenv_def nth_append)
qed simp

lemma toy_put_fits: "t < 256 \<Longrightarrow> length k < 256 \<Longrightarrow> length k + length b + 24 \<le> mx \<Longrightarrow> length k + length b + 3 < 4294967296 \<Longrightarrow>
  fits (toy_wenv mx sm) (WPut k (VBytes b) t)"
  by (simp add: fits_def storable_def ser_len_def toy_de_def unat_of_nat take_bit_eq_mod)

lemma toy_delete_fits: "t < 256 \<Longrightarrow> length k + 23 \<le> mx \<Longrightarrow> length k + 2 < 4294967296 \<Longrightarrow>
  fits (toy_wenv mx sm) (WDelete k t)"
  by (simp add: fits_def storable_def ser_len_def toy_de_def unat_of_nat take_bit_eq_mod)

lemma toy_checkpoint_fits: "t < 256 \<Longrightarrow> 23 \<le> mx \<Longrightarrow> fits (toy_wenv mx sm) (WCheckpoint t)"
  by (simp add: fits_def storable_def ser_len_def toy_de_def unat_of_nat take_bit_eq_mod)


end
