(* ===== verification/Wal_Frame.thy ===== *)
theory Wal_Frame
  imports Wal_Manager
begin

text \<open>
  The frame log, \<open>crates/f4kvs-lsm/src/storage/wal_frame.rs\<close>: the same surface as the segment log with a
  header that carries a page size, \<open>sync_data\<close> in place of \<open>sync_all\<close>, and a reader of its own.  It
  runs on the directory of theory \<open>Wal_Files\<close>.
\<close>

record frame_header =
  fh_magic :: bytes
  fh_version :: u8
  fh_created :: u64
  fh_count :: u32
  fh_page :: u32

record 'n fenv =
  fe_ser :: "'n wal_entry \<Rightarrow> bytes option"
  fe_de :: "bytes \<Rightarrow> 'n wal_entry option"
  fe_hser :: "frame_header \<Rightarrow> bytes"
  fe_hde :: "bytes \<Rightarrow> frame_header option"
  fe_hsize :: nat
  fe_max :: nat
  fe_sync :: sync_mode
  fe_group :: bool
  fe_wait :: bool
  fe_page_size :: nat

record frame_segment =
  fg_name :: string
  fg_ino :: nat
  fg_header :: frame_header
  fg_count :: u32
  fg_synced :: nat

definition frame_magic :: bytes where "frame_magic = [87, 65, 76, 70]"

definition frame_page :: "'n fenv \<Rightarrow> u32" where
  "frame_page F = word_of_nat (max (fe_page_size F) 512)"

definition fg_new_header :: "'n fenv \<Rightarrow> nat \<Rightarrow> frame_header" where
  "fg_new_header F now = \<lparr>fh_magic = frame_magic, fh_version = 1, fh_created = word_of_nat now, fh_count = 0,
     fh_page = frame_page F\<rparr>"

definition fg_write_header :: "'n fenv \<Rightarrow> frame_segment \<Rightarrow> fsys \<Rightarrow> unit res \<times> fsys" where
  "fg_write_header F g fs = f_write (fg_ino g) 0 (fe_hser F (fg_header g)) fs"

definition fg_new :: "'n fenv \<Rightarrow> nat \<Rightarrow> string \<Rightarrow> fsys \<Rightarrow> frame_segment res \<times> fsys" where
  "fg_new F now n fs =
     (let (i, fs) = f_create now n fs;
          g = \<lparr>fg_name = n, fg_ino = i, fg_header = fg_new_header F now, fg_count = 0, fg_synced = 0\<rparr> in
      and_then (fg_write_header F g fs) (\<lambda>_ fs. (Inr (g\<lparr>fg_synced := f_len fs i\<rparr>), fs)))"

definition fg_open_for_reading :: "'n fenv \<Rightarrow> string \<Rightarrow> fsys \<Rightarrow> frame_segment res" where
  "fg_open_for_reading F n fs =
     (case map_of (f_dir fs) n of None \<Rightarrow> Inl (Io NotFound ''No such file or directory'')
      | Some i \<Rightarrow>
          if f_len fs i < fe_hsize F then Inl (Io UnexpectedEof ''early eof'')
          else case fe_hde F (take (fe_hsize F) (f_data fs i)) of
            None \<Rightarrow> Inl (Serialization ''Failed to deserialize header'')
          | Some h \<Rightarrow>
              if fh_magic h \<noteq> frame_magic then Inl (Corruption ''Invalid frame WAL magic'')
              else Inr \<lparr>fg_name = n, fg_ino = i, fg_header = h, fg_count = fh_count h, fg_synced = f_len fs i\<rparr>)"

definition fg_sync_after_flush :: "'n fenv \<Rightarrow> frame_segment \<Rightarrow> fsys \<Rightarrow> frame_segment \<times> fsys" where
  "fg_sync_after_flush F g fs =
     (case fe_sync F of SyncFsync \<Rightarrow> (g\<lparr>fg_synced := f_len fs (fg_ino g)\<rparr>, f_sync (fg_ino g) fs) | _ \<Rightarrow> (g, fs))"

definition fg_write_entry :: "'n fenv \<Rightarrow> 'n wal_entry \<Rightarrow> frame_segment \<Rightarrow> fsys \<Rightarrow> (bool \<times> frame_segment) res \<times> fsys" where
  "fg_write_entry F e g fs =
     (case fe_ser F e of None \<Rightarrow> (Inl (Serialization ''Failed to serialize entry''), fs)
      | Some b \<Rightarrow>
          if fe_max F < f_len fs (fg_ino g) + (length b + 4) then (Inr (False, g), fs)
          else and_then (f_append (fg_ino g) (le_bytes 4 (length b)) fs) (\<lambda>_ fs.
               and_then (f_append (fg_ino g) b fs) (\<lambda>_ fs.
                 let g = g\<lparr>fg_count := fg_count g + 1, fg_header := (fg_header g)\<lparr>fh_count := fg_count g + 1\<rparr>\<rparr>;
                     (g, fs) = fg_sync_after_flush F g fs in
                 (Inr (True, g), fs))))"

definition fg_sync_header_and_flush :: "'n fenv \<Rightarrow> frame_segment \<Rightarrow> fsys \<Rightarrow> frame_segment res \<times> fsys" where
  "fg_sync_header_and_flush F g fs =
     and_then (fg_write_header F g fs) (\<lambda>_ fs. let (g, fs) = fg_sync_after_flush F g fs in (Inr g, fs))"

definition fg_should_rotate :: "'n fenv \<Rightarrow> frame_segment \<Rightarrow> fsys \<Rightarrow> bool" where
  "fg_should_rotate F g fs \<longleftrightarrow> fe_max F \<le> f_len fs (fg_ino g)"

definition fg_close :: "'n fenv \<Rightarrow> frame_segment \<Rightarrow> fsys \<Rightarrow> unit res \<times> fsys" where
  "fg_close F g fs = and_then (fg_write_header F g fs) (\<lambda>_ fs. (Inr (), f_sync (fg_ino g) fs))"

text \<open>The reader: a length that cannot be read ends the log, a record cut short is an error.\<close>

function frame_read_loop :: "'n fenv \<Rightarrow> bytes \<Rightarrow> 'n wal_entry list res" where
  "frame_read_loop F bs =
     (if length bs < 4 then Inr []
      else let n = unat (u32_from_le (take 4 bs)); rest = drop 4 bs in
        if n = 0 then Inr []
        else if length rest < n then Inl (Io UnexpectedEof ''early eof'')
        else case fe_de F (take n rest) of
            None \<Rightarrow> frame_read_loop F (drop n rest)
          | Some e \<Rightarrow> res_bind (frame_read_loop F (drop n rest)) (\<lambda>es. Inr (e # es)))"
  by pat_completeness auto
termination
  by (relation "measure (\<lambda>(F, bs). length bs)") auto

declare frame_read_loop.simps [simp del]

definition fg_read_entries :: "'n fenv \<Rightarrow> frame_segment \<Rightarrow> fsys \<Rightarrow> 'n wal_entry list res" where
  "fg_read_entries F g fs = frame_read_loop F (drop (fe_hsize F) (f_data fs (fg_ino g)))"

subsection \<open>The manager\<close>

record 'n frame_mgr =
  fm_fs :: fsys
  fm_cur :: "frame_segment option"
  fm_segs :: "(nat \<times> string) list"
  fm_counter :: nat
  fm_pending :: "'n wal_entry list"

definition frame_prefix :: string where "frame_prefix = ''frame_''"

definition fm_new :: "fsys \<Rightarrow> 'n frame_mgr" where
  "fm_new fs = \<lparr>fm_fs = fs, fm_cur = None, fm_segs = [], fm_counter = 0, fm_pending = []\<rparr>"

fun lift_ffs :: "'n frame_mgr \<Rightarrow> 'a res \<times> fsys \<Rightarrow> 'a res \<times> 'n frame_mgr" where
  "lift_ffs m (r, fs) = (r, m\<lparr>fm_fs := fs\<rparr>)"

definition list_frame_files_on_disk :: "'n frame_mgr \<Rightarrow> string list" where
  "list_frame_files_on_disk m = filter (is_log_name frame_prefix) (map fst (f_dir (fm_fs m)))"

definition fm_scan_existing_segments :: "'n frame_mgr \<Rightarrow> 'n frame_mgr" where
  "fm_scan_existing_segments m =
     m\<lparr>fm_counter := fold max (List.map_filter (parse_log_id frame_prefix) (list_frame_files_on_disk m)) 0 + 1\<rparr>"

definition fm_rotate_segment :: "'n fenv \<Rightarrow> nat \<Rightarrow> 'n frame_mgr \<Rightarrow> unit res \<times> 'n frame_mgr" where
  "fm_rotate_segment F now m =
     and_then
       (case fm_cur m of None \<Rightarrow> (Inr (), m)
        | Some g \<Rightarrow>
            and_then (lift_ffs (m\<lparr>fm_cur := None\<rparr>) (fg_close F g (fm_fs m))) (\<lambda>_ m.
              (Inr (), m\<lparr>fm_segs := filter (\<lambda>(i, _). i \<noteq> fm_counter m) (fm_segs m) @ [(fm_counter m, fg_name g)]\<rparr>)))
       (\<lambda>_ m. and_then (lift_ffs m (fg_new F now (log_name frame_prefix (fm_counter m)) (fm_fs m))) (\<lambda>g m.
          (Inr (), m\<lparr>fm_cur := Some g, fm_counter := fm_counter m + 1\<rparr>)))"

definition fm_initialize :: "'n fenv \<Rightarrow> nat \<Rightarrow> 'n frame_mgr \<Rightarrow> unit res \<times> 'n frame_mgr" where
  "fm_initialize F now m = fm_rotate_segment F now (fm_scan_existing_segments m)"

definition fm_no_segment :: lsm_error where "fm_no_segment = Internal ''No current frame WAL segment''"

definition fm_write_entry :: "'n fenv \<Rightarrow> nat \<Rightarrow> 'n wal_entry \<Rightarrow> 'n frame_mgr \<Rightarrow> unit res \<times> 'n frame_mgr" where
  "fm_write_entry F now e m =
     (case fm_cur m of None \<Rightarrow> (Inl fm_no_segment, m)
      | Some g \<Rightarrow>
          and_then (lift_ffs m (fg_write_entry F e g (fm_fs m))) (\<lambda>(ok, g) m.
            if ok then (Inr (), m\<lparr>fm_cur := Some g\<rparr>)
            else and_then (fm_rotate_segment F now m) (\<lambda>_ m.
              case fm_cur m of None \<Rightarrow> (Inl (Internal ''Failed to create frame WAL segment''), m)
              | Some g \<Rightarrow> and_then (lift_ffs m (fg_write_entry F e g (fm_fs m))) (\<lambda>(_, g) m.
                  (Inr (), m\<lparr>fm_cur := Some g\<rparr>)))))"

definition fm_append_batch :: "'n fenv \<Rightarrow> bytes \<Rightarrow> nat \<Rightarrow> frame_segment \<Rightarrow> 'n frame_mgr \<Rightarrow> unit res \<times> 'n frame_mgr" where
  "fm_append_batch F bs n g m =
     and_then (lift_ffs m (f_append (fg_ino g) bs (fm_fs m))) (\<lambda>_ m.
       let c = fg_count g + word_of_nat n;
           g = g\<lparr>fg_count := c, fg_header := (fg_header g)\<lparr>fh_count := c\<rparr>\<rparr> in
       and_then (lift_ffs (m\<lparr>fm_cur := Some g\<rparr>) (fg_sync_header_and_flush F g (fm_fs m))) (\<lambda>g m.
         (Inr (), m\<lparr>fm_cur := Some g\<rparr>)))"

definition fm_batch_write_entries :: "'n fenv \<Rightarrow> nat \<Rightarrow> 'n wal_entry list \<Rightarrow> 'n frame_mgr \<Rightarrow> unit res \<times> 'n frame_mgr" where
  "fm_batch_write_entries F now es m =
     (if es = [] then (Inr (), m)
      else and_then
          (case fm_cur m of None \<Rightarrow> (Inr (), m)
           | Some g \<Rightarrow> if fg_should_rotate F g (fm_fs m) then fm_rotate_segment F now m else (Inr (), m))
          (\<lambda>_ m. case fm_cur m of None \<Rightarrow> (Inl (Internal ''No current frame WAL segment for batch''), m)
            | Some g \<Rightarrow> (case frames (fe_ser F) es of Inl e \<Rightarrow> (Inl e, m)
              | Inr bs \<Rightarrow>
                if fe_max F < f_len (fm_fs m) (fg_ino g) + length bs then
                  and_then (fm_rotate_segment F now m) (\<lambda>_ m.
                    case fm_cur m of None \<Rightarrow> (Inl (Internal ''Failed frame WAL segment after rotation''), m)
                    | Some g \<Rightarrow> fm_append_batch F bs (length es) g m)
                else fm_append_batch F bs (length es) g m)))"

definition fm_flush_pending_group_commit :: "'n fenv \<Rightarrow> nat \<Rightarrow> 'n frame_mgr \<Rightarrow> unit res \<times> 'n frame_mgr" where
  "fm_flush_pending_group_commit F now m =
     (if fm_pending m = [] then (Inr (), m)
      else fm_batch_write_entries F now (fm_pending m) (m\<lparr>fm_pending := []\<rparr>))"

definition fm_write_entry_group_commit :: "'n fenv \<Rightarrow> nat \<Rightarrow> 'n wal_entry \<Rightarrow> 'n frame_mgr \<Rightarrow> unit res \<times> 'n frame_mgr" where
  "fm_write_entry_group_commit F now e m =
     (let m = m\<lparr>fm_pending := fm_pending m @ [e]\<rparr> in
      if \<not> fe_wait F then (Inr (), m)
      else case fm_flush_pending_group_commit F now m of
          (Inl err, m) \<Rightarrow> (Inl (Internal (lsm_display err)), m)
        | (Inr _, m) \<Rightarrow> (Inr (), m))"

definition fm_write_operation :: "'n fenv \<Rightarrow> nat \<Rightarrow> key \<Rightarrow> 'n val \<Rightarrow> 'n frame_mgr \<Rightarrow> unit res \<times> 'n frame_mgr" where
  "fm_write_operation F now k v m =
     (if fe_group F then fm_write_entry_group_commit F now (WPut k v now) m
      else fm_write_entry F now (WPut k v now) m)"

definition fm_write_delete :: "'n fenv \<Rightarrow> nat \<Rightarrow> key \<Rightarrow> 'n frame_mgr \<Rightarrow> unit res \<times> 'n frame_mgr" where
  "fm_write_delete F now k m =
     (if fe_group F then fm_write_entry_group_commit F now (WDelete k now) m
      else fm_write_entry F now (WDelete k now) m)"

definition fm_batch_write_operations ::
  "'n fenv \<Rightarrow> nat \<Rightarrow> (key \<times> 'n val) list \<Rightarrow> 'n frame_mgr \<Rightarrow> unit res \<times> 'n frame_mgr" where
  "fm_batch_write_operations F now items m =
     (if items = [] then (Inr (), m)
      else and_then (if fe_group F then fm_flush_pending_group_commit F now m else (Inr (), m))
        (\<lambda>_ m. fm_batch_write_entries F now (map (\<lambda>(k, v). WPut k v now) items) m))"

definition fm_flush :: "'n fenv \<Rightarrow> nat \<Rightarrow> 'n frame_mgr \<Rightarrow> unit res \<times> 'n frame_mgr" where
  "fm_flush F now m =
     and_then (if fe_group F then fm_flush_pending_group_commit F now m else (Inr (), m)) (\<lambda>_ m.
       case fm_cur m of None \<Rightarrow> (Inr (), m)
       | Some g \<Rightarrow> and_then (lift_ffs m (fg_sync_header_and_flush F g (fm_fs m))) (\<lambda>g m.
           (Inr (), m\<lparr>fm_cur := Some g\<rparr>)))"

text \<open>A segment that cannot be read contributes nothing, and no error is reported.\<close>

definition fm_read_segment :: "'n fenv \<Rightarrow> fsys \<Rightarrow> string \<Rightarrow> 'n wal_entry list res" where
  "fm_read_segment F fs f = res_bind (fg_open_for_reading F f fs) (\<lambda>g. fg_read_entries F g fs)"

definition frame_files :: "'n frame_mgr \<Rightarrow> string list" where
  "frame_files m =
     sort_key (\<lambda>f. case parse_log_id frame_prefix f of Some i \<Rightarrow> i | None \<Rightarrow> u64_max) (list_frame_files_on_disk m)"

definition fm_read_entries_from_disk :: "'n fenv \<Rightarrow> 'n frame_mgr \<Rightarrow> 'n wal_entry list res" where
  "fm_read_entries_from_disk F m =
     Inr (sort_key entry_timestamp (concat (ok_parts (map (fm_read_segment F (fm_fs m)) (frame_files m)))))"

definition fm_read_entries ::
  "'n fenv \<Rightarrow> ((nat \<times> string) list \<Rightarrow> (nat \<times> string) list) \<Rightarrow> 'n frame_mgr \<Rightarrow> 'n wal_entry list res" where
  "fm_read_entries F order m =
     res_bind (case fm_cur m of None \<Rightarrow> Inr [] | Some g \<Rightarrow> fm_read_segment F (fm_fs m) (fg_name g)) (\<lambda>es.
       Inr (sort_key entry_timestamp
         (es @ concat (ok_parts (map (\<lambda>(_, n). fm_read_segment F (fm_fs m) n) (order (fm_segs m)))))))"

definition fm_truncate_after_flush :: "'n fenv \<Rightarrow> nat \<Rightarrow> 'n frame_mgr \<Rightarrow> unit res \<times> 'n frame_mgr" where
  "fm_truncate_after_flush F now m =
     (let m = (case fm_cur m of None \<Rightarrow> m
               | Some g \<Rightarrow> m\<lparr>fm_cur := None, fm_fs := snd (fg_close F g (fm_fs m))\<rparr>);
          m = m\<lparr>fm_segs := []\<rparr>;
          m = m\<lparr>fm_fs := remove_files (list_frame_files_on_disk m) (fm_fs m)\<rparr> in
      if list_frame_files_on_disk m \<noteq> [] then (Inl (Io OtherIo ''frame WAL truncation incomplete''), m)
      else fm_rotate_segment F now m)"

definition fm_verify_truncated :: "'n frame_mgr \<Rightarrow> bool" where
  "fm_verify_truncated m \<longleftrightarrow>
     (if fm_cur m = None then False else if fm_segs m \<noteq> [] then False else length (list_frame_files_on_disk m) \<le> 1)"

definition fm_mark_clean_shutdown :: "'n fenv \<Rightarrow> nat \<Rightarrow> 'n frame_mgr \<Rightarrow> unit res \<times> 'n frame_mgr" where
  "fm_mark_clean_shutdown F now m =
     and_then
       (case fm_cur m of None \<Rightarrow> (Inr (), m)
        | Some _ \<Rightarrow>
            and_then (if fe_group F then fm_flush_pending_group_commit F now m else (Inr (), m)) (\<lambda>_ m.
            and_then (fm_write_entry F now (WCheckpoint now) m) (\<lambda>_ m. fm_flush F now m)))
       (\<lambda>_ m. fm_truncate_after_flush F now m)"

definition fm_cleanup_old_segments :: "nat \<Rightarrow> nat \<Rightarrow> 'n frame_mgr \<Rightarrow> 'n frame_mgr" where
  "fm_cleanup_old_segments now retention m =
     (let cutoff = if retention \<le> now then now - retention else 2 ^ 64 + now - retention;
          old = filter (older_than cutoff (fm_fs m)) (fm_segs m) in
      m\<lparr>fm_segs := filter (\<lambda>s. \<not> older_than cutoff (fm_fs m) s) (fm_segs m),
        fm_fs := remove_files (map snd old) (fm_fs m)\<rparr>)"

definition fm_cleanup_flushed_segments :: "nat \<Rightarrow> nat \<Rightarrow> 'n frame_mgr \<Rightarrow> 'n frame_mgr" where
  "fm_cleanup_flushed_segments now grace m = fm_cleanup_old_segments now grace m"

definition fm_force_cleanup :: "'n frame_mgr \<Rightarrow> 'n frame_mgr" where
  "fm_force_cleanup m = m\<lparr>fm_fs := remove_files (map snd (fm_segs m)) (fm_fs m), fm_segs := []\<rparr>"

definition fm_clear_dir :: "'n frame_mgr \<Rightarrow> 'n frame_mgr" where
  "fm_clear_dir m = m\<lparr>fm_fs := f_wipe (fm_fs m)\<rparr>"

definition fm_crash :: "(nat \<Rightarrow> nat) \<Rightarrow> 'n frame_mgr \<Rightarrow> 'n frame_mgr" where
  "fm_crash keep m = fm_new (power_loss keep (fm_fs m))"

lemma frame_loop_frame:
  assumes "storable (fe_ser F) (fe_de F) mx e"
  shows "frame_read_loop F (log_frame (the (fe_ser F e)) @ r) = res_bind (frame_read_loop F r) (\<lambda>es. Inr (e # es))"
proof -
  obtain b where b: "fe_ser F e = Some b" "fe_de F b = Some e" "b \<noteq> []" "length b < 4294967296"
    using assms by (auto simp: storable_def)
  have "frame_read_loop F (log_frame b @ r) = res_bind (frame_read_loop F r) (\<lambda>es. Inr (e # es))"
    by (subst frame_read_loop.simps) (use b frame_size [of b r] frame_body [of b r] in \<open>simp add: Let_def\<close>)
  with b show ?thesis by simp
qed

end
