(* ===== verification/Wal_Faults.thy ===== *)
theory Wal_Faults
  imports Wal_Durability Wal_Frame
begin

text \<open>Where an acknowledged entry is not read back.\<close>

lemma whole_last: "length (body ser es) \<le> n \<Longrightarrow> n < length (body ser (es @ [e])) \<Longrightarrow> whole ser n (es @ [e]) = length es"
  by (induction es arbitrary: n) (auto simp: Let_def)

lemma frame_loop_torn:
  assumes "\<forall>e \<in> set (es @ [e]). storable (fe_ser F) (fe_de F) mx e"
    and "length (body (fe_ser F) es) + 4 \<le> n" and "n < length (body (fe_ser F) (es @ [e]))"
  shows "\<exists>err. frame_read_loop F (take n (body (fe_ser F) (es @ [e]))) = Inl err"
  using assms
proof (induction es arbitrary: n)
  case Nil
  then obtain b where b: "fe_ser F e = Some b" "b \<noteq> []" "length b < 4294967296" by (auto simp: storable_def)
  from Nil b have n: "4 \<le> n" "n - 4 < length b" by auto
  then have "take 4 (take n (log_frame b)) = take 4 (log_frame b @ [])" by (simp add: min_def)
  moreover have "drop 4 (take n (log_frame b)) = take (n - 4) b" using n by (auto simp: log_frame_def drop_take min_def)
  ultimately have "\<exists>err. frame_read_loop F (take n (log_frame b)) = Inl err"
    by (subst frame_read_loop.simps) (use b n frame_size [of b "[]"] in \<open>simp add: Let_def\<close>)
  with b show ?case by simp
next
  case (Cons x es)
  let ?f = "log_frame (the (fe_ser F x))"
  have "take n (body (fe_ser F) ((x # es) @ [e])) = ?f @ take (n - length ?f) (body (fe_ser F) (es @ [e]))"
    using Cons.prems(2) by simp
  moreover have "\<exists>err. frame_read_loop F (take (n - length ?f) (body (fe_ser F) (es @ [e]))) = Inl err"
    using Cons.prems by (intro Cons.IH) auto
  ultimately show ?case using frame_loop_frame [of F mx x] Cons.prems(1) by auto
qed

text \<open>
  a torn last record.  The process dies while it writes the record of \<open>e\<close>, after the four bytes of
  its length and before its end.  The segment log still reads back every earlier entry; the frame log
  reads back none of the segment, and reports no error.
\<close>

theorem torn_record_costs_frame_segment:
  assumes "wenv_ok W" and "good_header W hw" and "\<forall>x \<in> set (es @ [e]). keeps W x"
    and "length hf = fe_hsize F" and "fe_hde F hf \<noteq> None" and "fe_ser F = we_ser W" and "fe_de F = we_de W"
    and "length (body (we_ser W) es) + 4 \<le> n" and "n < length (body (we_ser W) (es @ [e]))" and "i + 1 < 2 ^ 64"
    and "wm_fs m = (empty_fs sp)\<lparr>f_dir := [(log_name seg_prefix i, 0)], f_next := 1,
      f_data := (\<lambda>_. hw @ take n (body (we_ser W) (es @ [e])))\<rparr>"
    and "fm_fs fm = (empty_fs sp)\<lparr>f_dir := [(log_name frame_prefix i, 0)], f_next := 1,
      f_data := (\<lambda>_. hf @ take n (body (we_ser W) (es @ [e])))\<rparr>"
  shows "read_entries_from_disk W m = Inr (sort_key entry_timestamp es) \<and> fm_read_entries_from_disk F fm = Inr []"
proof
  have "log_read_loop W (take n (body (we_ser W) (es @ [e]))) = take (whole (we_ser W) n (es @ [e])) (es @ [e])"
    by (rule log_read_loop_torn) (use assms(3) in simp)
  also have "whole (we_ser W) n (es @ [e]) = length es" by (rule whole_last) (use assms(8,9) in simp_all)
  finally have "read_bytes W (hw @ take n (body (we_ser W) (es @ [e]))) = Inr es"
    using assms(2) by (auto simp: read_bytes_def good_header_def)
  then have "on_files W (wm_fs m) [\<lparr>pt_id = i, pt_ino = 0, pt_es = es\<rparr>]"
    using assms(10) by (simp add: on_files_def part_ok_def assms(11))
  from read_disk_ok [OF assms(1) this] show "read_entries_from_disk W m = Inr (sort_key entry_timestamp es)"
    by (simp add: logged_def)
  obtain err where "frame_read_loop F (take n (body (we_ser W) (es @ [e]))) = Inl err"
    using frame_loop_torn [of es e F "we_max W" n] assms(3,6-9) by auto
  then have "\<exists>err. fm_read_segment F (fm_fs fm) (log_name frame_prefix i) = Inl err"
    using assms(4,5)
    by (auto simp: fm_read_segment_def fg_open_for_reading_def fg_read_entries_def assms(12) f_len_def split: option.split)
  then show "fm_read_entries_from_disk F fm = Inr []"
    by (auto simp: fm_read_entries_from_disk_def frame_files_def list_frame_files_on_disk_def assms(12) ok_parts_def
        List.map_filter_def)
qed

definition toy_fenv :: "nat fenv" where
  "toy_fenv = \<lparr>fe_ser = toy_ser, fe_de = toy_de, fe_hser = (\<lambda>_. replicate 21 0),
     fe_hde = (\<lambda>b. Some \<lparr>fh_magic = take 4 b, fh_version = 1, fh_created = 0, fh_count = 0, fh_page = 512\<rparr>),
     fe_hsize = 21, fe_max = 100, fe_sync = SyncFsync, fe_group = False, fe_wait = True, fe_page_size = 4096\<rparr>"

theorem torn_record_costs_frame_segment_witness:
  "read_entries_from_disk (toy_wenv 100 SyncFsync) (wm_new ((empty_fs 0)\<lparr>f_dir := [(log_name seg_prefix 1, 0)], f_next := 1,
      f_data := (\<lambda>_. we_hser (toy_wenv 100 SyncFsync) (new_header 5) @ take 15 (body toy_ser ([WPut [97] (VBytes [1]) 7] @ [WDelete [97] 9])))\<rparr>))
    = Inr (sort_key entry_timestamp [WPut [97] (VBytes [1]) 7])
   \<and> fm_read_entries_from_disk toy_fenv (fm_new ((empty_fs 0)\<lparr>f_dir := [(log_name frame_prefix 1, 0)], f_next := 1,
      f_data := (\<lambda>_. frame_magic @ replicate 17 0 @ take 15 (body toy_ser ([WPut [97] (VBytes [1]) 7] @ [WDelete [97] 9])))\<rparr>))
    = Inr []"
proof -
  have k: "\<forall>x \<in> set ([WPut [97] (VBytes [1]) 7] @ [WDelete [97] 9]). keeps (toy_wenv 100 SyncFsync) x"
    using toy_put_fits [of 7 "[97]" "[1]" 100 SyncFsync] toy_delete_fits [of 9 "[97]" 100 SyncFsync] by (simp add: fits_def)
  have h: "good_header (toy_wenv 100 SyncFsync) (we_hser (toy_wenv 100 SyncFsync) (new_header 5))"
    using header_good [OF toy_wenv_ok] by (simp add: new_header_def)
  show ?thesis
    by (rule torn_record_costs_frame_segment [where e = "WDelete [97] 9" and hf = "frame_magic @ replicate 17 0" and i = 1
          and n = 15 and sp = 0, OF toy_wenv_ok h k])
      (use h in \<open>simp_all add: good_header_def toy_fenv_def frame_magic_def wm_new_def fm_new_def\<close>)
qed

text \<open>
  An entry too large for a segment.  Writing it is acknowledged; the open segment is closed, a new
  one is started, the second attempt does not fit either, and its answer is dropped.  The log holds
  what it held before.
\<close>

theorem oversize_entry_not_logged:
  assumes "seg_inv W (Suc n) m es" and "\<not> we_group W" and "we_ser W (WPut k v now) = Some b"
    and "we_max W < we_hsize W + length b + 4"
  shows "\<exists>m'. write_operation W now k v m = (Inr (), m') \<and> seg_inv W n m' es"
proof -
  from assms(1) obtain L g where L: "holds W m L" "logged L = es" "wenv_ok W" "wm_cur m = Some g" "wm_pending m = []"
    by (auto simp: seg_inv_def)
  have sp: "we_hsize W \<le> f_space (wm_fs m)" and c: "wm_counter m + 1 < 2 ^ 64" using assms(1) by (auto simp: seg_inv_def)
  have "we_hsize W \<le> f_len (wm_fs m) (sg_ino g)"
    using L(1,4) by (auto simp: holds_def open_ok_def f_len_def good_header_def)
  then have no: "sg_write_entry W (WPut k v now) g (wm_fs m) = (Inr (False, g), wm_fs m)"
    using assms(3,4) by (simp add: sg_write_entry_def)
  from rotate_ok [OF L(3,1) sp c, of now] obtain m1 g1 i where r: "rotate_segment W now m = (Inr (), m1)"
    "holds W m1 (L @ [\<lparr>pt_id = wm_counter m, pt_ino = i, pt_es = []\<rparr>])" "wm_cur m1 = Some g1"
    "f_len (wm_fs m1) (sg_ino g1) = we_hsize W" "f_space (wm_fs m1) = f_space (wm_fs m) - we_hsize W"
    "wm_counter m1 = wm_counter m + 1" "wm_pending m1 = wm_pending m" by blast
  have no1: "sg_write_entry W (WPut k v now) g1 (wm_fs m1) = (Inr (False, g1), wm_fs m1)"
    using assms(3,4) r(4) by (simp add: sg_write_entry_def)
  have "m\<lparr>wm_fs := wm_fs m\<rparr> = m" "m1\<lparr>wm_fs := wm_fs m1, wm_cur := Some g1\<rparr> = m1" using r(3) by simp_all
  then have "write_operation W now k v m = (Inr (), m1)"
    using assms(2) by (simp add: write_operation_def wal_write_entry_def L(4) no r(1,3) no1)
  moreover have "seg_inv W n m1 es"
    using L r by (intro seg_keeps [OF assms(1) r(2)]) (simp_all add: logged_def)
  ultimately show ?thesis by blast
qed

theorem oversize_entry_not_logged_witness:
  "\<exists>m m'. wal_initialize (toy_wenv 40 SyncFsync) 7 (wm_new (empty_fs 1000)) = (Inr (), m)
    \<and> write_operation (toy_wenv 40 SyncFsync) 8 [97] (VBytes (replicate 17 5)) m = (Inr (), m')
    \<and> read_entries_from_disk (toy_wenv 40 SyncFsync) (wal_crash (\<lambda>_. 0) m') = Inr []"
proof -
  obtain m where m: "wal_initialize (toy_wenv 40 SyncFsync) 7 (wm_new (empty_fs 1000)) = (Inr (), m)"
    "seg_inv (toy_wenv 40 SyncFsync) 1 m []"
    using fresh_log [OF toy_wenv_ok, of 40 SyncFsync 1 1000 7] by auto
  from oversize_entry_not_logged [of "toy_wenv 40 SyncFsync" 0 m "[]" "[97]" "VBytes (replicate 17 5)" 8] m(2)
  obtain m' where m': "write_operation (toy_wenv 40 SyncFsync) 8 [97] (VBytes (replicate 17 5)) m = (Inr (), m')"
    "seg_inv (toy_wenv 40 SyncFsync) 0 m' []" by auto
  then have "read_entries_from_disk (toy_wenv 40 SyncFsync) (wal_crash (\<lambda>_. 0) m') = Inr []"
    using seg_read [of "toy_wenv 40 SyncFsync" 0 m' "[]"] by (simp add: seg_synced_def)
  with m(1) m'(1) show ?thesis by blast
qed

lemma log_read_loop_append: "\<forall>e \<in> set es. keeps W e \<Longrightarrow> log_read_loop W (body (we_ser W) es @ r) = es @ log_read_loop W r"
  by (induction es) (simp_all add: log_read_loop_frame)

lemma log_read_loop_cut:
  assumes "0 < n" and "n < 4294967296" and "length rest < n"
  shows "log_read_loop W (le_bytes 4 n @ rest) = []"
proof -
  have "unat (u32_from_le (take 4 (le_bytes 4 n @ rest))) = n"
    using assms(2) by (simp add: u32_from_le_def le_val_le_bytes unat_u32_of_nat)
  then show ?thesis
    by (subst log_read_loop.simps) (use assms in \<open>simp add: Let_def del: le_bytes.simps\<close>)
qed

text \<open>
  a full disk.  A write that runs out of space reports an error and leaves the bytes it wrote.  Nothing
  cuts them off: an entry acknowledged after space was freed lies behind the torn record, and the
  reader, which stops there, does not return it.
\<close>

theorem writes_after_full_disk_lost:
  assumes "wenv_ok W" and "open_ok W fs g p" and "we_ser W e = Some b" and "length b < 4294967296"
    and "f_len fs (sg_ino g) + length b + 4 \<le> we_max W" and "4 \<le> f_space fs"
    and "keeps W e2" and "f_space fs + ser_len W e2 < length b" and "ser_len W e2 + 4 \<le> freed"
  shows "\<exists>fs1 g2 fs2. sg_write_entry W e g fs = (Inl no_space, fs1)
    \<and> sg_write_entry W e2 g (fs1\<lparr>f_space := freed\<rparr>) = (Inr (True, g2), fs2)
    \<and> sg_read_entries W g2 fs2 = pt_es p"
proof -
  let ?i = "sg_ino g" and ?d = "f_data fs (sg_ino g)" and ?s = "f_space fs"
  obtain b2 where b2: "we_ser W e2 = Some b2" "ser_len W e2 = length b2" using assms(7) by (auto simp: storable_def ser_len_def)
  obtain h where h: "length h = we_hsize W" "?d = h @ body (we_ser W) (pt_es p)" "\<forall>e \<in> set (pt_es p). keeps W e"
    using assms(2) by (auto simp: open_ok_def good_header_def)
  define d1 where "d1 = ?d @ le_bytes 4 (length b) @ take (?s - 4) b"
  define fs1 where "fs1 = fs\<lparr>f_data := (f_data fs)(?i := d1), f_space := 0\<rparr>"
  have a1: "f_append ?i (le_bytes 4 (length b)) fs = (Inr (), fs\<lparr>f_data := (f_data fs)(?i := ?d @ le_bytes 4 (length b)), f_space := ?s - 4\<rparr>)"
    using assms(6) by (subst f_append_ok) simp_all
  have a2: "f_append ?i b (fs\<lparr>f_data := (f_data fs)(?i := ?d @ le_bytes 4 (length b)), f_space := ?s - 4\<rparr>) = (Inl no_space, fs1)"
    using assms(6,8) by (simp add: f_append_def f_write_def f_len_def Let_def fs1_def d1_def min_def del: le_bytes.simps)
  have w1: "sg_write_entry W e g fs = (Inl no_space, fs1)"
    using assms(3,5) by (simp add: sg_write_entry_def a1 a2 del: le_bytes.simps)
  have len1: "f_len fs1 ?i = length ?d + ?s" using assms(6,8) by (simp add: f_len_def fs1_def d1_def)
  define g2 where "g2 = g\<lparr>sg_count := sg_count g + 1, sg_header := (sg_header g)\<lparr>wh_count := sg_count g + 1\<rparr>\<rparr>"
  define fsx where "fsx = fs1\<lparr>f_data := (f_data fs1)(?i := d1 @ log_frame b2), f_space := freed - (length b2 + 4)\<rparr>"
  define fs3 where "fs3 = fs1\<lparr>f_data := (f_data fs1)(?i := d1 @ le_bytes 4 (length b2)), f_space := freed - 4\<rparr>"
  have room: "f_len fs1 ?i + (length b2 + 4) \<le> we_max W"
    using len1 assms(5,8) b2 by (simp add: f_len_def)
  have c1: "f_append ?i (le_bytes 4 (length b2)) (fs1\<lparr>f_space := freed\<rparr>) = (Inr (), fs3)"
    using assms(9) b2 by (subst f_append_ok) (simp_all add: fs1_def fs3_def)
  have c2: "f_append ?i b2 fs3 = (Inr (), fsx)"
    using assms(9) b2 by (subst f_append_ok) (simp_all add: fsx_def fs3_def log_frame_def)
  have w2: "sg_write_entry W e2 g (fs1\<lparr>f_space := freed\<rparr>) = (Inr (True, g2), sg_sync_after_flush W g2 fsx)"
    using room by (simp add: sg_write_entry_def b2(1) c1 c2 g2_def Let_def f_len_def del: le_bytes.simps)
  have "f_data (sg_sync_after_flush W g2 fsx) (sg_ino g2) = d1 @ log_frame b2"
    by (simp add: sg_sync_after_flush_def f_sync_def g2_def fsx_def split: sync_mode.split)
  then have "sg_read_entries W g2 (sg_sync_after_flush W g2 fsx)
      = log_read_loop W (body (we_ser W) (pt_es p) @ le_bytes 4 (length b) @ take (?s - 4) b @ log_frame b2)"
    using h by (simp add: sg_read_entries_def f_len_def d1_def Let_def del: le_bytes.simps)
  also have "\<dots> = pt_es p"
    using assms(4,6,8) b2 h(3) by (subst log_read_loop_append) (auto intro!: log_read_loop_cut simp del: le_bytes.simps)
  finally show ?thesis using w1 w2 by blast
qed

definition toy_open :: "fsys \<times> segment \<times> nat part" where
  "toy_open = (let g = \<lparr>sg_name = log_name seg_prefix 1, sg_ino = 0, sg_header = new_header 5, sg_count = 1\<rparr>;
      p = \<lparr>pt_id = 1, pt_ino = 0, pt_es = [WPut [97] (VBytes [1]) 7]\<rparr>;
      d = we_hser (toy_wenv 100 SyncFsync) (new_header 5) @ body toy_ser (pt_es p) in
    ((empty_fs 6)\<lparr>f_dir := [(sg_name g, 0)], f_data := (\<lambda>_. d), f_synced := (\<lambda>_. length d), f_next := 1\<rparr>, g, p))"

theorem writes_after_full_disk_lost_witness:
  "\<exists>fs1 g2 fs2. sg_write_entry (toy_wenv 100 SyncFsync) (WPut [97] (VBytes (replicate 9 2)) 8) (fst (snd toy_open)) (fst toy_open) = (Inl no_space, fs1)
    \<and> sg_write_entry (toy_wenv 100 SyncFsync) (WDelete [97] 9) (fst (snd toy_open)) (fs1\<lparr>f_space := 50\<rparr>) = (Inr (True, g2), fs2)
    \<and> sg_read_entries (toy_wenv 100 SyncFsync) g2 fs2 = pt_es (snd (snd toy_open))"
proof -
  have h: "good_header (toy_wenv 100 SyncFsync) (we_hser (toy_wenv 100 SyncFsync) (new_header 5))"
    using header_good [OF toy_wenv_ok] by (simp add: new_header_def)
  then have l: "length (we_hser (toy_wenv 100 SyncFsync) (new_header 5)) = 17" by (simp add: good_header_def)
  have "open_ok (toy_wenv 100 SyncFsync) (fst toy_open) (fst (snd toy_open)) (snd (snd toy_open))"
    using h l toy_put_fits [of 7 "[97]" "[1]" 100 SyncFsync]
    by (auto simp: open_ok_def toy_open_def Let_def f_len_def new_header_def fits_def)
  moreover have "keeps (toy_wenv 100 SyncFsync) (WDelete [97] 9)"
    using toy_delete_fits [of 9 "[97]" 100 SyncFsync] by (simp add: fits_def)
  ultimately show ?thesis
    by (intro writes_after_full_disk_lost [where b = "[1, 8, 1, 97] @ replicate 9 2", OF toy_wenv_ok])
      (use l in \<open>simp_all add: toy_open_def Let_def f_len_def empty_fs_def ser_len_def\<close>)
qed

end
