(* ===== verification/Engine.thy ===== *)
theory Engine
  imports Compaction_Reads Wal_Durability
begin

text \<open>
  The storage engine, \<open>LsmTreeEngine\<close> of \<open>crates/f4kvs-lsm/src/core/engine.rs\<close>: the active memtable, the
  memtables being flushed, the levels of tables, the log and the counters.  An operation is a function on
  the whole state; the parts of a flush between which the code releases its locks are separate
  definitions, so that other operations can come in between.  The features \<open>ttl\<close> and \<open>metrics\<close> are off, as
  they are by default.  Statistics are unsigned 64-bit and wrap.
\<close>

record estats =
  es_writes :: u64
  es_bytes :: u64
  es_deletes :: u64
  es_keys :: u64
  es_flushes :: u64
  es_compactions :: u64
  es_processed :: u64
  es_removed :: u64
  es_reclaimed :: u64
  es_levels :: u64
  es_merged :: u64

record reads =
  rd_total :: u64
  rd_memtable :: u64
  rd_sstable :: u64
  rd_miss :: u64

text \<open>\<open>ec_dir\<close> is the data directory with its separator; \<open>ec_open p\<close> is the outcome of opening a table
  just written and \<open>ec_persist\<close> whether the file \<open>SEQUENCE\<close> can be written.\<close>

record 'n ecfg =
  ec_S :: "'n senv"
  ec_C :: "'n ccfg"
  ec_mem_max :: nat
  ec_wal :: bool
  ec_max_batch :: nat
  ec_dir :: string
  ec_open :: "path \<Rightarrow> unit res"
  ec_persist :: bool
  ec_default_cf :: bytes

record ('n, 'w) engine =
  eg_active :: "'n memtable"
  eg_imm :: "'n memtable list"
  eg_levels :: "'n levels"
  eg_disk :: cstate
  eg_seq :: nat
  eg_seq_file :: nat
  eg_live :: u64
  eg_bulk :: bool
  eg_cfs :: "(bytes \<times> nat) list"
  eg_wal :: 'w
  eg_stats :: estats
  eg_reads :: reads

definition no_estats :: estats where
  "no_estats = \<lparr>es_writes = 0, es_bytes = 0, es_deletes = 0, es_keys = 0, es_flushes = 0, es_compactions = 0,
     es_processed = 0, es_removed = 0, es_reclaimed = 0, es_levels = 0, es_merged = 0\<rparr>"

definition no_reads :: reads where
  "no_reads = \<lparr>rd_total = 0, rd_memtable = 0, rd_sstable = 0, rd_miss = 0\<rparr>"

definition create_engine_structure :: "'n ecfg \<Rightarrow> cstate \<Rightarrow> nat \<Rightarrow> 'w \<Rightarrow> ('n, 'w) engine" where
  "create_engine_structure E disk seq_file w =
     \<lparr>eg_active = mt_new (ec_mem_max E), eg_imm = [], eg_levels = (\<lambda>_. []), eg_disk = disk, eg_seq = 0,
      eg_seq_file = seq_file, eg_live = 0, eg_bulk = False, eg_cfs = [(ec_default_cf E, 0)], eg_wal = w,
      eg_stats = no_estats, eg_reads = no_reads\<rparr>"

subsection \<open>Counters\<close>

definition set_bulk_import :: "bool \<Rightarrow> ('n, 'w) engine \<Rightarrow> ('n, 'w) engine" where
  "set_bulk_import b e = e\<lparr>eg_bulk := b\<rparr>"

definition adjust_live_key_count :: "int \<Rightarrow> ('n, 'w) engine \<Rightarrow> ('n, 'w) engine" where
  "adjust_live_key_count delta e =
     (if 0 < delta then e\<lparr>eg_live := eg_live e + word_of_int delta\<rparr>
      else if delta < 0 then e\<lparr>eg_live := eg_live e - word_of_int (- delta)\<rparr>
      else e)"

datatype get_kind = KMemtable | KSstable | KMiss

definition note_get :: "get_kind \<Rightarrow> ('n, 'w) engine \<Rightarrow> ('n, 'w) engine" where
  "note_get kind e =
     (let r = eg_reads e; r = r\<lparr>rd_total := rd_total r + 1\<rparr> in
      e\<lparr>eg_reads := (case kind of
          KMemtable \<Rightarrow> r\<lparr>rd_memtable := rd_memtable r + 1\<rparr>
        | KSstable \<Rightarrow> r\<lparr>rd_sstable := rd_sstable r + 1\<rparr>
        | KMiss \<Rightarrow> r\<lparr>rd_miss := rd_miss r + 1\<rparr>)\<rparr>)"

definition set_total_keys :: "('n, 'w) engine \<Rightarrow> ('n, 'w) engine" where
  "set_total_keys e = e\<lparr>eg_stats := (eg_stats e)\<lparr>es_keys := eg_live e\<rparr>\<rparr>"

subsection \<open>Point reads\<close>

fun lookup_first :: "'n memtable list \<Rightarrow> key \<Rightarrow> 'n lookup_result" where
  "lookup_first [] k = Missing"
| "lookup_first (m # ms) k = (case mt_lookup m k of Missing \<Rightarrow> lookup_first ms k | r \<Rightarrow> r)"

definition get_from_memtables :: "('n, 'w) engine \<Rightarrow> key \<Rightarrow> 'n lookup_result" where
  "get_from_memtables e k =
     (case mt_lookup (eg_active e) k of Missing \<Rightarrow> lookup_first (eg_imm e) k | r \<Rightarrow> r)"

definition get_from_tables :: "'n ecfg \<Rightarrow> ('n, 'w) engine \<Rightarrow> key \<Rightarrow> 'n val option" where
  "get_from_tables E e k = sget (ec_S E) (cc_levels (ec_C E)) (eg_levels e) k"

definition eng_get :: "'n ecfg \<Rightarrow> key \<Rightarrow> ('n, 'w) engine \<Rightarrow> 'n val option kv \<times> ('n, 'w) engine" where
  "eng_get E k e =
     (case get_from_memtables e k of
        Found v \<Rightarrow> (Inr (Some v), note_get KMemtable e)
      | Tombstone \<Rightarrow> (Inr None, note_get KMemtable e)
      | Missing \<Rightarrow>
          (case get_from_tables E e k of
             Some v \<Rightarrow> (Inr (Some v), note_get KSstable e)
           | None \<Rightarrow> (Inr None, note_get KMiss e)))"

definition eng_exists :: "'n ecfg \<Rightarrow> key \<Rightarrow> ('n, 'w) engine \<Rightarrow> bool" where
  "eng_exists E k e =
     (case get_from_memtables e k of
        Found _ \<Rightarrow> True
      | Tombstone \<Rightarrow> False
      | Missing \<Rightarrow> get_from_tables E e k \<noteq> None)"

text \<open>The locks of the synchronous read, each tried when it is reached.\<close>

datatype lock = LGuard | LActive | LImmutable | LTables

definition get_from_memtables_sync :: "(lock \<Rightarrow> bool) \<Rightarrow> ('n, 'w) engine \<Rightarrow> key \<Rightarrow> 'n lookup_result option" where
  "get_from_memtables_sync held e k =
     (if held LActive then None
      else case mt_lookup (eg_active e) k of
        Missing \<Rightarrow> if held LImmutable then None else Some (lookup_first (eg_imm e) k)
      | r \<Rightarrow> Some r)"

definition try_get_sync ::
  "'n ecfg \<Rightarrow> (lock \<Rightarrow> bool) \<Rightarrow> key \<Rightarrow> ('n, 'w) engine \<Rightarrow> ('n val option kv option) \<times> ('n, 'w) engine" where
  "try_get_sync E held k e =
     (if held LGuard then (None, e)
      else case get_from_memtables_sync held e k of None \<Rightarrow> (None, e)
      | Some (Found v) \<Rightarrow> (Some (Inr (Some v)), note_get KMemtable e)
      | Some Tombstone \<Rightarrow> (Some (Inr None), note_get KMemtable e)
      | Some Missing \<Rightarrow>
          if held LTables then (None, e)
          else (case get_from_sstables_sync (ec_S E) (cc_levels (ec_C E)) (eg_levels e) k of
              Inr (Some v) \<Rightarrow> (Some (Inr (Some v)), note_get KSstable e)
            | Inr None \<Rightarrow> (Some (Inr None), note_get KMiss e)
            | Inl err \<Rightarrow> (Some (Inl (convert_error err)), e)))"

subsection \<open>The count of live keys\<close>

definition apply_put_key_count :: "'n ecfg \<Rightarrow> key \<Rightarrow> put_effect \<Rightarrow> ('n, 'w) engine \<Rightarrow> ('n, 'w) engine" where
  "apply_put_key_count E k eff e =
     (let delta = (case eff of UpdatedLive \<Rightarrow> 0 | Resurrected \<Rightarrow> 1
                   | Inserted \<Rightarrow> if eg_bulk e then 1 else if get_from_tables E e k \<noteq> None then 0 else 1) in
      if delta \<noteq> 0 then set_total_keys (adjust_live_key_count delta e) else e)"

definition batch_apply_put_key_counts :: "'n ecfg \<Rightarrow> (key \<times> put_effect) list \<Rightarrow> ('n, 'w) engine \<Rightarrow> ('n, 'w) engine" where
  "batch_apply_put_key_counts E effs e =
     (if eg_bulk e then
        (let delta = sum_list (map (\<lambda>(_, eff). case eff of UpdatedLive \<Rightarrow> 0 | _ \<Rightarrow> (1 :: int)) effs) in
         if delta \<noteq> 0 then set_total_keys (adjust_live_key_count delta e) else e)
      else fold (\<lambda>(k, eff) e. apply_put_key_count E k eff e) effs e)"

definition refresh_live_key_count :: "'n ecfg \<Rightarrow> nat list \<Rightarrow> ('n, 'w) engine \<Rightarrow> ('n, 'w) engine" where
  "refresh_live_key_count E levels e =
     (let c = fold (\<lambda>t c. saturating_add c (tb_count t)) (concat (map (eg_levels e) levels)) 0;
          c = saturating_add c (mt_count (eg_active e));
          c = fold (\<lambda>m c. saturating_add c (mt_count m)) (eg_imm e) c in
      e\<lparr>eg_live := word_of_nat c, eg_stats := (eg_stats e)\<lparr>es_keys := word_of_nat c\<rparr>\<rparr>)"

subsection \<open>Flushing a memtable\<close>

definition seq_next :: "nat \<Rightarrow> nat" where
  "seq_next s = (s + 1) mod 2 ^ 64"

definition flush_path :: "'n ecfg \<Rightarrow> nat \<Rightarrow> path" where
  "flush_path E s = ec_dir E @ flush_file_name s"

text \<open>The loop that takes sequence numbers until one names no file.  It would not end if all \<open>2^64\<close>
  names were taken; the model stops there, after as many rounds.\<close>

function free_seq :: "'n ecfg \<Rightarrow> (path \<Rightarrow> nat option) \<Rightarrow> nat \<Rightarrow> nat \<Rightarrow> nat" where
  "free_seq E disk tries s =
     (if 2 ^ 64 \<le> tries then s
      else if disk (flush_path E s) = None then s
      else free_seq E disk (tries + 1) (seq_next s))"
  by pat_completeness auto
termination
  by (relation "measure (\<lambda>(E, disk, tries, s). 2 ^ 64 - tries)") auto

declare free_seq.simps [simp del]

fun stamp_entries :: "nat \<Rightarrow> (key \<times> 'n val \<times> bool) list \<Rightarrow> 'n entry list \<times> nat" where
  "stamp_entries s [] = ([], s)"
| "stamp_entries s ((k, v, d) # es) =
     (let (r, s') = stamp_entries (seq_next s) es in
      (\<lparr>en_key = k, en_value = v, en_ts = s, en_deleted = d\<rparr> # r, s'))"

definition persist_sequence_high_water :: "'n ecfg \<Rightarrow> ('n, 'w) engine \<Rightarrow> ('n, 'w) engine" where
  "persist_sequence_high_water E e =
     (if eg_seq e = 0 then e else if ec_persist E then e\<lparr>eg_seq_file := eg_seq e\<rparr> else e)"

definition flush_memtable_entries_to_sstable ::
  "'n ecfg \<Rightarrow> (key \<times> 'n val \<times> bool) list \<Rightarrow> ('n, 'w) engine \<Rightarrow> unit res \<times> ('n, 'w) engine" where
  "flush_memtable_entries_to_sstable E entries e =
     (if entries = [] then (Inr (), e)
      else
        let s = free_seq E (cs_disk (eg_disk e)) 0 (eg_seq e); p = flush_path E s;
            (es, s') = stamp_entries (seq_next s) (sort_key fst entries);
            e = e\<lparr>eg_seq := s'\<rparr> in
        (case cc_write (ec_C E) p 0 es of Inl err \<Rightarrow> (Inl err, e)
         | Inr (sz, len) \<Rightarrow>
           let e = e\<lparr>eg_disk := (eg_disk e)\<lparr>cs_disk := (cs_disk (eg_disk e))(p \<mapsto> len)\<rparr>\<rparr>;
               e = persist_sequence_high_water E e in
           (case ec_open E p of Inl err \<Rightarrow> (Inl err, e)
            | Inr _ \<Rightarrow>
              let t = table_new (ec_C E) p (cc_now (ec_C E) s) es sz in
              if \<not> tb_ready t then (Inl (Internal ''Newly created SSTable is not ready after open''), e)
              else if tb_size t = 0 then (Inl (Internal ''SSTable has zero file size after write''), e)
              else if tb_count t = 0 then (Inl (Internal ''SSTable has zero entry count after write''), e)
              else if tb_index_size t = 0 then (Inl (Internal ''SSTable index is empty after open''), e)
              else (Inr (), e\<lparr>eg_levels := (eg_levels e)(0 := eg_levels e 0 @ [t])\<rparr>))))"

text \<open>The three sections of \<open>flush_memtable_internal\<close>: swapping the active memtable out, writing the
  memtable that is then at the remembered index, and removing whatever is at that index.\<close>

definition flush_begin :: "'n ecfg \<Rightarrow> ('n, 'w) engine \<Rightarrow> nat option \<times> ('n, 'w) engine" where
  "flush_begin E e =
     (let old = eg_active e; e = e\<lparr>eg_active := mt_new (ec_mem_max E)\<rparr> in
      if 0 < mt_count old then (Some (length (eg_imm e)), e\<lparr>eg_imm := eg_imm e @ [old]\<rparr>) else (None, e))"

definition flush_write :: "'n ecfg \<Rightarrow> nat \<Rightarrow> ('n, 'w) engine \<Rightarrow> unit res \<times> ('n, 'w) engine" where
  "flush_write E i e = flush_memtable_entries_to_sstable E (mt_get_all_entries (eg_imm e ! i)) e"

definition flush_end :: "nat \<Rightarrow> ('n, 'w) engine \<Rightarrow> ('n, 'w) engine" where
  "flush_end i e =
     (let e = (if i < length (eg_imm e) then e\<lparr>eg_imm := take i (eg_imm e) @ drop (Suc i) (eg_imm e)\<rparr> else e) in
      e\<lparr>eg_stats := (eg_stats e)\<lparr>es_flushes := es_flushes (eg_stats e) + 1\<rparr>\<rparr>)"

definition flush_memtable_internal :: "'n ecfg \<Rightarrow> ('n, 'w) engine \<Rightarrow> unit res \<times> ('n, 'w) engine" where
  "flush_memtable_internal E e =
     (case flush_begin E e of (None, e) \<Rightarrow> (Inr (), e)
      | (Some i, e) \<Rightarrow>
          if i < length (eg_imm e) then and_then (flush_write E i e) (\<lambda>_ e. (Inr (), flush_end i e))
          else (Inr (), e))"

subsection \<open>Compaction\<close>

definition idle :: "path \<Rightarrow> nat \<times> nat" where "idle p = (0, 0)"

text \<open>The statistics of the last merge are added at every call, also when nothing was merged.\<close>

definition add_compaction_stats :: "cstats \<Rightarrow> estats \<Rightarrow> estats" where
  "add_compaction_stats c s = s\<lparr>es_compactions := es_compactions s + 1,
     es_processed := es_processed s + word_of_nat (entries_processed c),
     es_removed := es_removed s + word_of_nat (entries_removed c),
     es_reclaimed := es_reclaimed s + word_of_nat (space_reclaimed c),
     es_levels := es_levels s + word_of_nat (levels_compacted c),
     es_merged := es_merged s + word_of_nat (sstables_merged c)\<rparr>"

definition eng_compact_if_needed :: "'n ecfg \<Rightarrow> ('n, 'w) engine \<Rightarrow> unit res \<times> ('n, 'w) engine" where
  "eng_compact_if_needed E e =
     (case compact_if_needed (ec_S E) (ec_C E) False (eg_levels e) (Some (eg_levels e)) (Some (eg_levels e)) idle (eg_disk e) of
        (Inl err, st) \<Rightarrow> (Inl err, e\<lparr>eg_disk := st\<rparr>)
      | (Inr L, st) \<Rightarrow>
          (Inr (), e\<lparr>eg_disk := st, eg_levels := (case L of None \<Rightarrow> eg_levels e | Some L \<Rightarrow> L),
             eg_stats := add_compaction_stats (cs_stats st) (eg_stats e)\<rparr>))"

definition flush_memtable :: "'n ecfg \<Rightarrow> ('n, 'w) engine \<Rightarrow> unit res \<times> ('n, 'w) engine" where
  "flush_memtable E e =
     and_then (flush_memtable_internal E e) (\<lambda>_ e.
       (Inr (), if eg_bulk e then e else snd (eng_compact_if_needed E e)))"

definition check_memtable_flush :: "'n ecfg \<Rightarrow> ('n, 'w) engine \<Rightarrow> unit res \<times> ('n, 'w) engine" where
  "check_memtable_flush E e =
     (if ec_mem_max E \<le> mt_size (eg_active e) then flush_memtable E e else (Inr (), e))"

definition eng_compact_all :: "'n ecfg \<Rightarrow> ('n, 'w) engine \<Rightarrow> unit res \<times> ('n, 'w) engine" where
  "eng_compact_all E e =
     and_then (flush_memtable_internal E e) (\<lambda>_ e.
       case compact_all (ec_S E) (ec_C E) (eg_levels e) (Some (eg_levels e)) idle (eg_disk e) of
         (Inl err, st) \<Rightarrow> (Inl err, e\<lparr>eg_disk := st\<rparr>)
       | (Inr L, st) \<Rightarrow> (Inr (), e\<lparr>eg_disk := st, eg_levels := (case L of None \<Rightarrow> eg_levels e | Some L \<Rightarrow> L)\<rparr>))"

end
