(* ===== verification/Engine_Ops.thy ===== *)
theory Engine_Ops
  imports Engine
begin

text \<open>
  The writing operations of the engine (\<open>core/engine.rs\<close>, the implementation of the trait
  \<open>StorageEngine\<close>).  \<open>lg\<close> are the operations of the log, \<open>now\<close> the clock in seconds; the log is touched only
  when it is enabled.  Locks are released between the sections of an operation, but not inside one.
\<close>

definition on_wal :: "('n, 'w) engine \<Rightarrow> ('w \<Rightarrow> 'a res \<times> 'w) \<Rightarrow> 'a res \<times> ('n, 'w) engine" where
  "on_wal e f = (case f (eg_wal e) of (r, w) \<Rightarrow> (r, e\<lparr>eg_wal := w\<rparr>))"

definition if_wal :: "'n ecfg \<Rightarrow> ('n, 'w) engine \<Rightarrow> ('w \<Rightarrow> unit res \<times> 'w) \<Rightarrow> unit res \<times> ('n, 'w) engine" where
  "if_wal E e f = (if ec_wal E then on_wal e f else (Inr (), e))"

definition converted :: "'a res \<times> 's \<Rightarrow> 'a kv \<times> 's" where
  "converted r = (to_kv (fst r), snd r)"

definition count_writes :: "nat \<Rightarrow> nat \<Rightarrow> ('n, 'w) engine \<Rightarrow> ('n, 'w) engine" where
  "count_writes n bytes e =
     e\<lparr>eg_stats := (eg_stats e)\<lparr>es_writes := es_writes (eg_stats e) + word_of_nat n,
         es_bytes := es_bytes (eg_stats e) + word_of_nat bytes\<rparr>\<rparr>"

definition count_delete :: "('n, 'w) engine \<Rightarrow> ('n, 'w) engine" where
  "count_delete e = e\<lparr>eg_stats := (eg_stats e)\<lparr>es_deletes := es_deletes (eg_stats e) + 1\<rparr>\<rparr>"

definition put_memtable :: "'n ecfg \<Rightarrow> key \<Rightarrow> 'n val \<Rightarrow> ('n, 'w) engine \<Rightarrow> put_effect \<times> ('n, 'w) engine" where
  "put_memtable E k v e =
     (let (m, eff) = mt_put (cc_js (ec_C E)) k v (eg_active e) in (eff, e\<lparr>eg_active := m\<rparr>))"

definition put_core :: "'n ecfg \<Rightarrow> ('n, 'w) wal_ops \<Rightarrow> nat \<Rightarrow> key \<Rightarrow> 'n val \<Rightarrow> ('n, 'w) engine \<Rightarrow> unit res \<times> ('n, 'w) engine" where
  "put_core E lg now k v e =
     and_then (if_wal E e (w_put lg now k v)) (\<lambda>_ e.
       let (eff, e) = put_memtable E k v e in (Inr (), apply_put_key_count E k eff e))"

definition eng_put :: "'n ecfg \<Rightarrow> ('n, 'w) wal_ops \<Rightarrow> nat \<Rightarrow> key \<Rightarrow> 'n val \<Rightarrow> ('n, 'w) engine \<Rightarrow> unit kv \<times> ('n, 'w) engine" where
  "eng_put E lg now k v e =
     converted (and_then (put_core E lg now k v e) (\<lambda>_ e.
       check_memtable_flush E (count_writes 1 (length k + serialized_size (cc_js (ec_C E)) v) e)))"

definition eng_delete :: "'n ecfg \<Rightarrow> ('n, 'w) wal_ops \<Rightarrow> nat \<Rightarrow> key \<Rightarrow> ('n, 'w) engine \<Rightarrow> unit kv \<times> ('n, 'w) engine" where
  "eng_delete E lg now k e =
     (let was_live = eng_exists E k e in
      converted (and_then (if_wal E e (w_delete lg now k)) (\<lambda>_ e.
        let e = e\<lparr>eg_active := mt_delete (cc_js (ec_C E)) k (eg_active e)\<rparr>;
            e = (if was_live then set_total_keys (adjust_live_key_count (- 1) e) else e) in
        check_memtable_flush E (count_delete e))))"

fun put_all :: "'n ecfg \<Rightarrow> (key \<times> 'n val) list \<Rightarrow> ('n, 'w) engine \<Rightarrow> (key \<times> put_effect) list \<times> ('n, 'w) engine" where
  "put_all E [] e = ([], e)"
| "put_all E ((k, v) # kvs) e =
     (let (eff, e) = put_memtable E k v e; (effs, e) = put_all E kvs e in ((k, eff) # effs, e))"

definition batch_too_large :: "nat \<Rightarrow> nat \<Rightarrow> kv_error" where
  "batch_too_large n mx = StorageError (''Batch size '' @ decimal n @ '' exceeds maximum allowed size of ''
     @ decimal mx @ '' items. This limit prevents DoS attacks.'')"

definition eng_batch_put ::
  "'n ecfg \<Rightarrow> ('n, 'w) wal_ops \<Rightarrow> nat \<Rightarrow> (key \<times> 'n val) list \<Rightarrow> ('n, 'w) engine \<Rightarrow> unit kv \<times> ('n, 'w) engine" where
  "eng_batch_put E lg now items e =
     (if ec_max_batch E < length items then (Inl (batch_too_large (length items) (ec_max_batch E)), e)
      else converted (and_then (if_wal E e (w_batch lg now items)) (\<lambda>_ e.
        let (effs, e) = put_all E items e;
            e = batch_apply_put_key_counts E effs e in
        check_memtable_flush E (count_writes (length items) 0 e))))"

fun eng_batch_get :: "'n ecfg \<Rightarrow> key list \<Rightarrow> ('n, 'w) engine \<Rightarrow> 'n val option list kv \<times> ('n, 'w) engine" where
  "eng_batch_get E [] e = (Inr [], e)"
| "eng_batch_get E (k # ks) e =
     (case eng_get E k e of (Inl err, e) \<Rightarrow> (Inl err, e)
      | (Inr x, e) \<Rightarrow> (case eng_batch_get E ks e of (Inl err, e) \<Rightarrow> (Inl err, e) | (Inr xs, e) \<Rightarrow> (Inr (x # xs), e)))"

fun eng_batch_delete :: "'n ecfg \<Rightarrow> ('n, 'w) wal_ops \<Rightarrow> nat \<Rightarrow> key list \<Rightarrow> ('n, 'w) engine \<Rightarrow> unit kv \<times> ('n, 'w) engine" where
  "eng_batch_delete E lg now [] e = (Inr (), e)"
| "eng_batch_delete E lg now (k # ks) e =
     (case eng_delete E lg now k e of (Inl err, e) \<Rightarrow> (Inl err, e) | (Inr _, e) \<Rightarrow> eng_batch_delete E lg now ks e)"

subsection \<open>Time to live\<close>

text \<open>Without the feature the write is done and then an error is returned; the statistics and the
  check of the memtable's size are skipped.\<close>

definition no_ttl :: kv_error where "no_ttl = StorageError ''TTL feature is not enabled''"

definition eng_put_with_ttl :: "'n ecfg \<Rightarrow> ('n, 'w) wal_ops \<Rightarrow> nat \<Rightarrow> key \<Rightarrow> 'n val \<Rightarrow> nat \<Rightarrow> ('n, 'w) engine \<Rightarrow> unit kv \<times> ('n, 'w) engine" where
  "eng_put_with_ttl E lg now k v ttl e =
     (case converted (put_core E lg now k v e) of (Inl err, e) \<Rightarrow> (Inl err, e) | (Inr _, e) \<Rightarrow> (Inl no_ttl, e))"

subsection \<open>Flush, compaction and shutdown\<close>

definition eng_flush :: "'n ecfg \<Rightarrow> ('n, 'w) wal_ops \<Rightarrow> nat \<Rightarrow> ('n, 'w) engine \<Rightarrow> unit kv \<times> ('n, 'w) engine" where
  "eng_flush E lg now e =
     (case converted (and_then (if_wal E e (w_flush lg now)) (\<lambda>_ e.
          and_then (flush_memtable_internal E e) (\<lambda>_ e. if_wal E e (w_truncate lg now)))) of
        (Inl err, e) \<Rightarrow> (Inl err, e)
      | (Inr _, e) \<Rightarrow>
          if ec_wal E \<and> \<not> w_verify lg (eg_wal e) then (Inl (StorageError ''WAL truncation verification failed''), e)
          else (Inr (), if eg_bulk e then e else snd (eng_compact_if_needed E e)))"

definition eng_compact :: "'n ecfg \<Rightarrow> ('n, 'w) engine \<Rightarrow> unit kv \<times> ('n, 'w) engine" where
  "eng_compact E e = converted (eng_compact_all E e)"

definition eng_flush_wal :: "'n ecfg \<Rightarrow> ('n, 'w) wal_ops \<Rightarrow> nat \<Rightarrow> ('n, 'w) engine \<Rightarrow> unit res \<times> ('n, 'w) engine" where
  "eng_flush_wal E lg now e = if_wal E e (w_flush lg now)"

definition eng_force_flush :: "'n ecfg \<Rightarrow> ('n, 'w) engine \<Rightarrow> unit res \<times> ('n, 'w) engine" where
  "eng_force_flush E e = flush_memtable E e"

text \<open>Closing the files of the tables changes nothing a later open would see.\<close>

definition shutdown_background_tasks :: "'n ecfg \<Rightarrow> ('n, 'w) wal_ops \<Rightarrow> nat \<Rightarrow> ('n, 'w) engine \<Rightarrow> unit res \<times> ('n, 'w) engine" where
  "shutdown_background_tasks E lg now e = (Inr (), snd (on_wal e (w_flush lg now)))"

definition eng_shutdown :: "'n ecfg \<Rightarrow> ('n, 'w) wal_ops \<Rightarrow> nat \<Rightarrow> ('n, 'w) engine \<Rightarrow> unit res \<times> ('n, 'w) engine" where
  "eng_shutdown E lg now e =
     and_then (shutdown_background_tasks E lg now e) (\<lambda>_ e.
     and_then (flush_memtable E e) (\<lambda>_ e.
       case if_wal E e (w_shutdown lg now) of
         (Inl err, e) \<Rightarrow> (Inl (kv_to_lsm (convert_error err)), e)
       | (Inr _, e) \<Rightarrow> (Inr (), e)))"

definition clear_wal_directory :: "('n, 'w) wal_ops \<Rightarrow> ('n, 'w) engine \<Rightarrow> ('n, 'w) engine" where
  "clear_wal_directory lg e = e\<lparr>eg_wal := w_clear lg (eg_wal e)\<rparr>"

definition eng_clear :: "'n ecfg \<Rightarrow> ('n, 'w) wal_ops \<Rightarrow> ('n, 'w) engine \<Rightarrow> unit kv \<times> ('n, 'w) engine" where
  "eng_clear E lg e =
     (let e = e\<lparr>eg_active := mt_new (ec_mem_max E), eg_imm := [], eg_levels := (\<lambda>_. [])\<rparr>;
          e = (if ec_wal E then clear_wal_directory lg e else e) in
      (Inr (), e\<lparr>eg_stats := no_estats, eg_live := 0\<rparr>))"

definition recover_from_corruption :: "'n ecfg \<Rightarrow> ('n, 'w) wal_ops \<Rightarrow> ('n, 'w) engine \<Rightarrow> unit res \<times> ('n, 'w) engine" where
  "recover_from_corruption E lg e =
     (let e = (if ec_wal E then clear_wal_directory lg e else e);
          e = e\<lparr>eg_imm := [], eg_stats := no_estats, eg_reads := no_reads\<rparr> in
      (Inr (), snd (flush_memtable E e)))"

text \<open>\<open>health_check\<close>: the directories and the files of the installed tables are there.\<close>

definition health_check :: "'n ecfg \<Rightarrow> bool \<Rightarrow> bool \<Rightarrow> nat list \<Rightarrow> ('n, 'w) engine \<Rightarrow> unit res" where
  "health_check E data_dir wal_dir levels e =
     (if \<not> data_dir then Inl (Io NotFound ''Data directory does not exist'')
      else if ec_wal E \<and> \<not> wal_dir then Inl (WalErr ''WAL directory does not exist'')
      else if \<exists>t \<in> set (concat (map (eg_levels e) levels)). cs_disk (eg_disk e) (tb_path t) = None
      then Inl (Io NotFound ''SSTable file not found'')
      else Inr ())"

subsection \<open>Column families\<close>

definition cf_key :: "bytes \<Rightarrow> key \<Rightarrow> key" where
  "cf_key cf k = cf @ 35 # k"

definition cf_known :: "bytes \<Rightarrow> ('n, 'w) engine \<Rightarrow> bool" where
  "cf_known cf e \<longleftrightarrow> map_of (eg_cfs e) cf \<noteq> None"

definition to_text :: "bytes \<Rightarrow> string" where
  "to_text b = map (\<lambda>x. char_of (unat x)) b"

definition cf_missing :: "bytes \<Rightarrow> kv_error" where
  "cf_missing cf = StorageError (''Column family not found: '' @ to_text cf)"

definition with_cf :: "bytes \<Rightarrow> ('n, 'w) engine \<Rightarrow> 'a kv \<times> ('n, 'w) engine \<Rightarrow> 'a kv \<times> ('n, 'w) engine" where
  "with_cf cf e r = (if cf_known cf e then r else (Inl (cf_missing cf), e))"

definition get_cf :: "'n ecfg \<Rightarrow> bytes \<Rightarrow> key \<Rightarrow> ('n, 'w) engine \<Rightarrow> 'n val option kv \<times> ('n, 'w) engine" where
  "get_cf E cf k e = with_cf cf e (eng_get E (cf_key cf k) e)"

definition put_cf :: "'n ecfg \<Rightarrow> ('n, 'w) wal_ops \<Rightarrow> nat \<Rightarrow> bytes \<Rightarrow> key \<Rightarrow> 'n val \<Rightarrow> ('n, 'w) engine \<Rightarrow> unit kv \<times> ('n, 'w) engine" where
  "put_cf E lg now cf k v e = with_cf cf e (eng_put E lg now (cf_key cf k) v e)"

definition delete_cf :: "'n ecfg \<Rightarrow> ('n, 'w) wal_ops \<Rightarrow> nat \<Rightarrow> bytes \<Rightarrow> key \<Rightarrow> ('n, 'w) engine \<Rightarrow> unit kv \<times> ('n, 'w) engine" where
  "delete_cf E lg now cf k e = with_cf cf e (eng_delete E lg now (cf_key cf k) e)"

definition exists_cf :: "'n ecfg \<Rightarrow> bytes \<Rightarrow> key \<Rightarrow> ('n, 'w) engine \<Rightarrow> bool kv \<times> ('n, 'w) engine" where
  "exists_cf E cf k e = with_cf cf e (Inr (eng_exists E (cf_key cf k) e), e)"

definition batch_put_cf ::
  "'n ecfg \<Rightarrow> ('n, 'w) wal_ops \<Rightarrow> nat \<Rightarrow> bytes \<Rightarrow> (key \<times> 'n val) list \<Rightarrow> ('n, 'w) engine \<Rightarrow> unit kv \<times> ('n, 'w) engine" where
  "batch_put_cf E lg now cf items e = with_cf cf e (eng_batch_put E lg now (map (\<lambda>(k, v). (cf_key cf k, v)) items) e)"

definition batch_get_cf :: "'n ecfg \<Rightarrow> bytes \<Rightarrow> key list \<Rightarrow> ('n, 'w) engine \<Rightarrow> 'n val option list kv \<times> ('n, 'w) engine" where
  "batch_get_cf E cf ks e = with_cf cf e (eng_batch_get E (map (cf_key cf) ks) e)"

definition batch_delete_cf :: "'n ecfg \<Rightarrow> ('n, 'w) wal_ops \<Rightarrow> nat \<Rightarrow> bytes \<Rightarrow> key list \<Rightarrow> ('n, 'w) engine \<Rightarrow> unit kv \<times> ('n, 'w) engine" where
  "batch_delete_cf E lg now cf ks e = with_cf cf e (eng_batch_delete E lg now (map (cf_key cf) ks) e)"

definition put_cf_with_ttl ::
  "'n ecfg \<Rightarrow> ('n, 'w) wal_ops \<Rightarrow> nat \<Rightarrow> bytes \<Rightarrow> key \<Rightarrow> 'n val \<Rightarrow> nat \<Rightarrow> ('n, 'w) engine \<Rightarrow> unit kv \<times> ('n, 'w) engine" where
  "put_cf_with_ttl E lg now cf k v ttl e = with_cf cf e (eng_put_with_ttl E lg now (cf_key cf k) v ttl e)"

definition get_ttl :: "key \<Rightarrow> nat option kv" where
  "get_ttl k = Inl no_ttl"

definition get_ttl_cf :: "bytes \<Rightarrow> key \<Rightarrow> ('n, 'w) engine \<Rightarrow> nat option kv" where
  "get_ttl_cf cf k e = (if cf_known cf e then Inl no_ttl else Inl (cf_missing cf))"

definition create_column_family :: "bytes \<Rightarrow> ('n, 'w) engine \<Rightarrow> ('n, 'w) engine" where
  "create_column_family cf e =
     e\<lparr>eg_cfs := filter (\<lambda>(n, _). n \<noteq> cf) (eg_cfs e) @ [(cf, length (eg_cfs e))]\<rparr>"

definition drop_column_family :: "bytes \<Rightarrow> ('n, 'w) engine \<Rightarrow> ('n, 'w) engine" where
  "drop_column_family cf e = e\<lparr>eg_cfs := filter (\<lambda>(n, _). n \<noteq> cf) (eg_cfs e)\<rparr>"

definition list_column_families :: "('n, 'w) engine \<Rightarrow> bytes list" where
  "list_column_families e = map fst (eg_cfs e)"

end
