(* ===== verification/Engine_Scan.thy ===== *)
theory Engine_Scan
  imports Engine_Ops
begin

text \<open>
  The scans of the engine (\<open>core/engine.rs\<close>): the lists of keys, the merged scans with values, the
  prefix scan that visits one key after the other, and the scans of a column family.  \<open>None\<close> is a
  panic: a range that starts above its end makes \<open>BTreeMap::range\<close> of the memtable panic.
\<close>

subsection \<open>The keys of a table\<close>

definition tb_keys :: "'n table \<Rightarrow> key list" where
  "tb_keys t = map en_key (tb_entries t)"

definition tb_scan_prefix :: "'n table \<Rightarrow> key \<Rightarrow> key list res" where
  "tb_scan_prefix t p =
     (case tb_fault t of Some e \<Rightarrow> Inl e | None \<Rightarrow> Inr (filter (\<lambda>k. starts_with k p) (tb_keys t)))"

definition in_range :: "key \<Rightarrow> key \<Rightarrow> key \<Rightarrow> bool" where
  "in_range a b k \<longleftrightarrow> a \<le> k \<and> (case exclusive_range_end b of None \<Rightarrow> True | Some x \<Rightarrow> k < x)"

definition live_keys :: "(key \<times> 'n val \<times> bool) list \<Rightarrow> key list" where
  "live_keys es = map fst (filter (\<lambda>(_, _, d). \<not> d) es)"

definition live_pairs :: "(key \<times> 'n val \<times> bool) list \<Rightarrow> (key \<times> 'n val) list" where
  "live_pairs es = map (\<lambda>(k, v, _). (k, v)) (filter (\<lambda>(_, _, d). \<not> d) es)"

definition tb_scan_range :: "'n senv \<Rightarrow> key \<Rightarrow> key \<Rightarrow> 'n table \<Rightarrow> key list res" where
  "tb_scan_range S a b t = res_bind (tb_layer S (in_range a b) t) (\<lambda>es. Inr (live_keys es))"

definition tb_scan_all :: "'n senv \<Rightarrow> 'n table \<Rightarrow> (key \<times> 'n val \<times> bool) list res" where
  "tb_scan_all S t =
     (case tb_fault t of Some e \<Rightarrow> Inl e
      | None \<Rightarrow> Inr (concat (map (\<lambda>e. case rd_entry S e of Inl _ \<Rightarrow> []
           | Inr e' \<Rightarrow> [(en_key e, en_value e', en_deleted e')]) (tb_entries t))))"

definition all_tables :: "'n ecfg \<Rightarrow> ('n, 'w) engine \<Rightarrow> 'n table list" where
  "all_tables E e = concat (map (eg_levels e) [0..<cc_levels (ec_C E)])"

definition memtables :: "('n, 'w) engine \<Rightarrow> 'n memtable list" where
  "memtables e = eg_active e # eg_imm e"

subsection \<open>Lists of keys\<close>

definition sort_dedup :: "key list \<Rightarrow> key list" where
  "sort_dedup ks = remdups_adj (sort ks)"

definition eng_scan_prefix :: "'n ecfg \<Rightarrow> key \<Rightarrow> ('n, 'w) engine \<Rightarrow> key list kv" where
  "eng_scan_prefix E p e =
     to_kv (res_bind (res_all (\<lambda>t. tb_scan_prefix t p) (all_tables E e)) (\<lambda>kss.
       Inr (sort_dedup (concat (map (\<lambda>m. mt_scan_prefix m p) (memtables e)) @ concat kss))))"

definition eng_keys :: "'n ecfg \<Rightarrow> ('n, 'w) engine \<Rightarrow> key list kv" where
  "eng_keys E e = eng_scan_prefix E [] e"

definition eng_count :: "('n, 'w) engine \<Rightarrow> u64" where
  "eng_count e = eg_live e"

definition opt_all :: "('a \<Rightarrow> 'b option) \<Rightarrow> 'a list \<Rightarrow> 'b list option" where
  "opt_all f xs = (if \<forall>x \<in> set xs. f x \<noteq> None then Some (map (\<lambda>x. the (f x)) xs) else None)"

definition eng_scan_range :: "'n ecfg \<Rightarrow> key \<Rightarrow> key \<Rightarrow> ('n, 'w) engine \<Rightarrow> key list kv option" where
  "eng_scan_range E a b e =
     map_option (\<lambda>mss. to_kv (res_bind (res_all (tb_scan_range (ec_S E) a b) (all_tables E e)) (\<lambda>kss.
         Inr (sort_dedup (concat mss @ concat kss)))))
       (opt_all (\<lambda>m. mt_scan_range m a b) (memtables e))"

text \<open>The limited scan stops at the first source that reaches the limit; it neither sorts nor removes
  duplicates.\<close>

fun take_memtables :: "key \<Rightarrow> key \<Rightarrow> nat \<Rightarrow> 'n memtable list \<Rightarrow> key list \<Rightarrow> (key list \<times> bool) option" where
  "take_memtables a b n [] ks = Some (ks, False)"
| "take_memtables a b n (m # ms) ks =
     (case mt_scan_range m a b of None \<Rightarrow> None
      | Some new \<Rightarrow> if n \<le> length (ks @ new) then Some (take n (ks @ new), True) else take_memtables a b n ms (ks @ new))"

fun take_tables :: "'n senv \<Rightarrow> key \<Rightarrow> key \<Rightarrow> nat \<Rightarrow> 'n table list \<Rightarrow> key list \<Rightarrow> key list res" where
  "take_tables S a b n [] ks = Inr ks"
| "take_tables S a b n (t # ts) ks =
     (case tb_scan_range S a b t of Inl err \<Rightarrow> Inl err
      | Inr new \<Rightarrow> if n \<le> length (ks @ new) then Inr (take n (ks @ new)) else take_tables S a b n ts (ks @ new))"

definition eng_scan_range_limit :: "'n ecfg \<Rightarrow> key \<Rightarrow> key \<Rightarrow> nat \<Rightarrow> ('n, 'w) engine \<Rightarrow> key list kv option" where
  "eng_scan_range_limit E a b n e =
     map_option (\<lambda>(ks, full). if full then Inr ks else to_kv (take_tables (ec_S E) a b n (all_tables E e) ks))
       (take_memtables a b n (memtables e) [])"

definition eng_scan_all :: "'n ecfg \<Rightarrow> ('n, 'w) engine \<Rightarrow> (key \<times> 'n val) list kv" where
  "eng_scan_all E e =
     to_kv (res_bind (res_all (tb_scan_all (ec_S E)) (all_tables E e)) (\<lambda>ess.
       Inr (concat (map (\<lambda>m. live_pairs (mt_get_all_entries m)) (memtables e)) @ concat (map live_pairs ess))))"

subsection \<open>Merged scans\<close>

definition merge_scan_prefix_with_values :: "'n ecfg \<Rightarrow> key \<Rightarrow> ('n, 'w) engine \<Rightarrow> (key \<times> 'n val) list res" where
  "merge_scan_prefix_with_values E p e =
     res_bind (merge_levels (tb_layer (ec_S E) (\<lambda>k. starts_with k p)) (cc_levels (ec_C E)) (eg_levels e)) (\<lambda>m.
       Inr (fold (\<lambda>t m. apply_scan_layer (mt_scan_prefix_layer t p) m) (eg_imm e @ [eg_active e]) m))"

definition merge_scan_range_with_values ::
  "'n ecfg \<Rightarrow> key \<Rightarrow> key \<Rightarrow> ('n, 'w) engine \<Rightarrow> (key \<times> 'n val) list res option" where
  "merge_scan_range_with_values E a b e =
     (case merge_levels (tb_layer (ec_S E) (in_range a b)) (cc_levels (ec_C E)) (eg_levels e) of
        Inl err \<Rightarrow> Some (Inl err)
      | Inr m \<Rightarrow> map_option (\<lambda>ls. Inr (fold apply_scan_layer ls m))
          (opt_all (\<lambda>t. mt_scan_range_layer t a b) (eg_imm e @ [eg_active e])))"

definition eng_scan_prefix_with_values :: "'n ecfg \<Rightarrow> key \<Rightarrow> ('n, 'w) engine \<Rightarrow> (key \<times> 'n val) list kv" where
  "eng_scan_prefix_with_values E p e = to_kv (merge_scan_prefix_with_values E p e)"

definition eng_scan_range_with_values ::
  "'n ecfg \<Rightarrow> key \<Rightarrow> key \<Rightarrow> ('n, 'w) engine \<Rightarrow> (key \<times> 'n val) list kv option" where
  "eng_scan_range_with_values E a b e = map_option to_kv (merge_scan_range_with_values E a b e)"

definition eng_scan_range_limit_with_values ::
  "'n ecfg \<Rightarrow> key \<Rightarrow> key \<Rightarrow> nat \<Rightarrow> ('n, 'w) engine \<Rightarrow> (key \<times> 'n val) list kv option" where
  "eng_scan_range_limit_with_values E a b n e =
     map_option (\<lambda>r. to_kv (res_bind r (\<lambda>kvs. Inr (take n kvs)))) (merge_scan_range_with_values E a b e)"

text \<open>The iterator over a finished scan.\<close>

record 'n kv_iter =
  it_values :: "(key \<times> 'n val) list"
  it_index :: nat

definition iter_new :: "(key \<times> 'n val) list \<Rightarrow> 'n kv_iter" where
  "iter_new vs = \<lparr>it_values = vs, it_index = 0\<rparr>"

definition iter_next :: "'n kv_iter \<Rightarrow> (key \<times> 'n val) option \<times> 'n kv_iter" where
  "iter_next it =
     (if it_index it < length (it_values it) then (Some (it_values it ! it_index it), it\<lparr>it_index := it_index it + 1\<rparr>)
      else (None, it))"

definition eng_iter_range :: "'n ecfg \<Rightarrow> key \<Rightarrow> key \<Rightarrow> ('n, 'w) engine \<Rightarrow> 'n kv_iter kv option" where
  "eng_iter_range E a b e = map_option (map_sum id iter_new) (eng_scan_range_with_values E a b e)"

subsection \<open>The prefix scan, one key at a time\<close>

record 'n scan_head =
  hd_sst :: "'n table"
  hd_level :: nat
  hd_pos :: nat

record 'n prefix_scan =
  ps_prefix :: key
  ps_last :: "key option"
  ps_heads :: "'n scan_head list"

definition tb_index_start :: "'n table \<Rightarrow> key \<Rightarrow> nat" where
  "tb_index_start t p = (if tb_fault t = None then partition_point (\<lambda>k. k < p) (tb_keys t) else usize_max)"

definition tb_key_at :: "'n table \<Rightarrow> nat \<Rightarrow> key option" where
  "tb_key_at t i = (if tb_fault t = None \<and> i < length (tb_keys t) then Some (tb_keys t ! i) else None)"

definition tb_key_eq :: "'n table \<Rightarrow> nat \<Rightarrow> key \<Rightarrow> bool" where
  "tb_key_eq t i k \<longleftrightarrow> tb_key_at t i = Some k"

text \<open>\<open>order\<close> is the iteration order of the map of levels.\<close>

definition prefix_scan_start :: "nat list \<Rightarrow> key \<Rightarrow> ('n, 'w) engine \<Rightarrow> 'n prefix_scan" where
  "prefix_scan_start order p e =
     \<lparr>ps_prefix = p, ps_last = None,
      ps_heads = concat (map (\<lambda>l. map (\<lambda>t. \<lparr>hd_sst = t, hd_level = l, hd_pos = tb_index_start t p\<rparr>)
        (filter (\<lambda>t. tb_ready t \<and> \<not> tb_marked t) (eg_levels e l))) order)\<rparr>"

definition prefix_scan_seek_after :: "key \<Rightarrow> 'n prefix_scan \<Rightarrow> 'n prefix_scan" where
  "prefix_scan_seek_after after st =
     st\<lparr>ps_heads := map (\<lambda>h. let i = tb_index_start (hd_sst h) after in
          h\<lparr>hd_pos := if tb_key_eq (hd_sst h) i after then i + 1 else i\<rparr>) (ps_heads st)\<rparr>"

definition consider_key :: "'n prefix_scan \<Rightarrow> key option \<Rightarrow> key option \<Rightarrow> key option" where
  "consider_key st cand best =
     (case cand of None \<Rightarrow> best
      | Some c \<Rightarrow>
          if \<not> starts_with c (ps_prefix st) then best
          else if (case ps_last st of None \<Rightarrow> False | Some a \<Rightarrow> c \<le> a) then best
          else case best of None \<Rightarrow> Some c | Some b \<Rightarrow> if c < b then Some c else Some b)"

definition scan_candidates :: "('n, 'w) engine \<Rightarrow> 'n prefix_scan \<Rightarrow> key option list" where
  "scan_candidates e st = map (\<lambda>h. tb_key_at (hd_sst h) (hd_pos h)) (ps_heads st)
     @ map (\<lambda>m. mt_first_key_after m (ps_prefix st) (ps_last st)) (memtables e)"

definition prefix_scan_min_key :: "('n, 'w) engine \<Rightarrow> 'n prefix_scan \<Rightarrow> key option" where
  "prefix_scan_min_key e st = fold (consider_key st) (scan_candidates e st) None"

definition prefix_scan_advance :: "key \<Rightarrow> 'n prefix_scan \<Rightarrow> 'n prefix_scan" where
  "prefix_scan_advance k st =
     st\<lparr>ps_last := Some k,
        ps_heads := map (\<lambda>h. if tb_key_eq (hd_sst h) (hd_pos h) k then h\<lparr>hd_pos := hd_pos h + 1\<rparr> else h) (ps_heads st)\<rparr>"

fun resolve_heads :: "'n senv \<Rightarrow> key \<Rightarrow> 'n scan_head list \<Rightarrow> nat \<times> 'n sst_result option \<Rightarrow> 'n sst_result option res" where
  "resolve_heads S k [] best = Inr (snd best)"
| "resolve_heads S k (h # hs) best =
     (if \<not> tb_key_eq (hd_sst h) (hd_pos h) k then resolve_heads S k hs best
      else case tb_lookup S (hd_sst h) k of
          Inl err \<Rightarrow> Inl err
        | Inr SMissing \<Rightarrow> resolve_heads S k hs best
        | Inr r \<Rightarrow>
            if hd_level h = 0 then resolve_heads S k hs (pick r best)
            else if snd best = None then resolve_heads S k hs (fst best, Some r)
            else resolve_heads S k hs best)"

definition prefix_scan_resolve :: "'n ecfg \<Rightarrow> ('n, 'w) engine \<Rightarrow> 'n prefix_scan \<Rightarrow> key \<Rightarrow> 'n val option res" where
  "prefix_scan_resolve E e st k =
     (case get_from_memtables e k of
        Found v \<Rightarrow> Inr (Some v)
      | Tombstone \<Rightarrow> Inr None
      | Missing \<Rightarrow> res_bind (resolve_heads (ec_S E) k (ps_heads st) (0, None)) (\<lambda>best.
          Inr (case best of None \<Rightarrow> None | Some r \<Rightarrow> result_value r)))"

text \<open>The keys a scan can still visit: the loop visits each at most once.\<close>

definition source_keys :: "('n, 'w) engine \<Rightarrow> 'n prefix_scan \<Rightarrow> key set" where
  "source_keys e st = (\<Union>h \<in> set (ps_heads st). set (tb_keys (hd_sst h))) \<union> (\<Union>m \<in> set (memtables e). fst ` set (mt_data m))"

definition keys_left :: "('n, 'w) engine \<Rightarrow> 'n prefix_scan \<Rightarrow> key set" where
  "keys_left e st = {k \<in> source_keys e st. case ps_last st of None \<Rightarrow> True | Some a \<Rightarrow> a < k}"

lemma finite_keys_left: "finite (keys_left e st)"
  by (simp add: keys_left_def source_keys_def)

lemma consider_key_in: "fold (consider_key st) cs b = Some k \<Longrightarrow> b = Some k \<or>
   (Some k \<in> set cs \<and> starts_with k (ps_prefix st) \<and> (case ps_last st of None \<Rightarrow> True | Some a \<Rightarrow> a < k))"
proof (induction cs arbitrary: b)
  case (Cons c cs)
  from Cons.IH [of "consider_key st c b"] Cons.prems show ?case
    by (auto simp: consider_key_def not_le split: option.splits if_splits)
qed simp

lemma first_if_prefix_in: "first_if_prefix p m = Some k \<Longrightarrow> k \<in> fst ` set m \<and> starts_with k p"
  by (auto simp: first_if_prefix_def split: list.splits if_splits)

lemma mt_first_key_in: "mt_first_key_after m p a = Some k \<Longrightarrow> k \<in> fst ` set (mt_data m)"
  by (auto simp: mt_first_key_after_def first_key_after_map_def bt_after_def bt_from_def
      dest!: first_if_prefix_in split: option.splits)

lemma tb_key_at_in: "tb_key_at t i = Some k \<Longrightarrow> k \<in> set (tb_keys t)"
  by (auto simp: tb_key_at_def split: if_splits)

lemma min_key_left: "prefix_scan_min_key e st = Some k \<Longrightarrow> k \<in> keys_left e st"
  unfolding prefix_scan_min_key_def
  by (drule consider_key_in)
     (fastforce simp: scan_candidates_def keys_left_def source_keys_def image_iff
        dest!: sym [of "Some _"] dest: tb_key_at_in mt_first_key_in)

lemma advance_sources [simp]: "source_keys e (prefix_scan_advance k st) = source_keys e st"
  by (auto simp: source_keys_def prefix_scan_advance_def)

lemma advance_left: "k \<in> keys_left e st \<Longrightarrow> keys_left e (prefix_scan_advance k st) \<subset> keys_left e st"
  by (auto simp: keys_left_def prefix_scan_advance_def source_keys_def split: option.splits)

function prefix_scan_next :: "'n ecfg \<Rightarrow> ('n, 'w) engine \<Rightarrow> 'n prefix_scan \<Rightarrow> (key \<times> 'n val) option res \<times> 'n prefix_scan" where
  "prefix_scan_next E e st =
     (case prefix_scan_min_key e st of None \<Rightarrow> (Inr None, st)
      | Some k \<Rightarrow>
          (case prefix_scan_resolve E e st k of Inl err \<Rightarrow> (Inl err, st)
           | Inr (Some v) \<Rightarrow> (Inr (Some (k, v)), prefix_scan_advance k st)
           | Inr None \<Rightarrow> prefix_scan_next E e (prefix_scan_advance k st)))"
  by pat_completeness auto
termination
  by (relation "measure (\<lambda>(E, e, st). card (keys_left e st))")
     (auto intro!: psubset_card_mono finite_keys_left advance_left min_key_left)

declare prefix_scan_next.simps [simp del]

definition scan_next :: "'n ecfg \<Rightarrow> nat list \<Rightarrow> key \<Rightarrow> key option \<Rightarrow> ('n, 'w) engine \<Rightarrow> (key \<times> 'n val) option kv" where
  "scan_next E order p after e =
     (let st = prefix_scan_start order p e; st = st\<lparr>ps_last := after\<rparr>;
          st = (case after of None \<Rightarrow> st | Some a \<Rightarrow> prefix_scan_seek_after a st) in
      to_kv (fst (prefix_scan_next E e st)))"

subsection \<open>The same without waiting for locks\<close>

text \<open>\<open>held r\<close> are the locks a writer holds at the \<open>r\<close>-th time the scan tries them.  When it meets one, the
  call returns \<open>None\<close> and the pairs collected so far are gone, but the state of the scan has moved on.\<close>

definition try_prefix_scan_start_sync ::
  "(lock \<Rightarrow> bool) \<Rightarrow> nat list \<Rightarrow> key \<Rightarrow> ('n, 'w) engine \<Rightarrow> 'n prefix_scan option" where
  "try_prefix_scan_start_sync held order p e = (if held LTables then None else Some (prefix_scan_start order p e))"

definition prefix_scan_min_key_sync :: "(lock \<Rightarrow> bool) \<Rightarrow> ('n, 'w) engine \<Rightarrow> 'n prefix_scan \<Rightarrow> key option option" where
  "prefix_scan_min_key_sync held e st =
     (if held LActive \<or> held LImmutable then None else Some (prefix_scan_min_key e st))"

definition prefix_scan_resolve_sync ::
  "'n ecfg \<Rightarrow> (lock \<Rightarrow> bool) \<Rightarrow> ('n, 'w) engine \<Rightarrow> 'n prefix_scan \<Rightarrow> key \<Rightarrow> 'n val option res option" where
  "prefix_scan_resolve_sync E held e st k =
     (case get_from_memtables_sync held e k of None \<Rightarrow> None
      | Some (Found v) \<Rightarrow> Some (Inr (Some v))
      | Some Tombstone \<Rightarrow> Some (Inr None)
      | Some Missing \<Rightarrow> Some (res_bind (resolve_heads (ec_S E) k (ps_heads st) (0, None)) (\<lambda>best.
          Inr (case best of None \<Rightarrow> None | Some r \<Rightarrow> result_value r))))"

lemma min_key_sync_left: "prefix_scan_min_key_sync held e st = Some (Some k) \<Longrightarrow> k \<in> keys_left e st"
  by (auto simp: prefix_scan_min_key_sync_def intro: min_key_left split: if_splits)

function scan_n_loop :: "'n ecfg \<Rightarrow> (nat \<Rightarrow> lock \<Rightarrow> bool) \<Rightarrow> nat \<Rightarrow> nat \<Rightarrow> ('n, 'w) engine \<Rightarrow> 'n prefix_scan
    \<Rightarrow> (key \<times> 'n val) list \<Rightarrow> ((key \<times> 'n val) list \<times> bool) kv option \<times> 'n prefix_scan" where
  "scan_n_loop E held r n e st items =
     (if n \<le> length items then (Some (Inr (items, False)), st)
      else case prefix_scan_min_key_sync (held r) e st of
        None \<Rightarrow> (None, st)
      | Some None \<Rightarrow> (Some (Inr (items, True)), st)
      | Some (Some k) \<Rightarrow>
          (case prefix_scan_resolve_sync E (held (r + 1)) e st k of
             None \<Rightarrow> (None, st)
           | Some (Inl err) \<Rightarrow> (Some (Inl (convert_error err)), st)
           | Some (Inr v) \<Rightarrow> scan_n_loop E held (r + 2) n e (prefix_scan_advance k st)
               (items @ (case v of None \<Rightarrow> [] | Some v \<Rightarrow> [(k, v)]))))"
  by pat_completeness auto
termination
  by (relation "measure (\<lambda>(E, held, r, n, e, st, items). card (keys_left e st))")
     (auto intro!: psubset_card_mono finite_keys_left advance_left min_key_sync_left)

declare scan_n_loop.simps [simp del]

definition try_prefix_scan_next_n_sync :: "'n ecfg \<Rightarrow> (nat \<Rightarrow> lock \<Rightarrow> bool) \<Rightarrow> nat \<Rightarrow> ('n, 'w) engine \<Rightarrow> 'n prefix_scan
    \<Rightarrow> ((key \<times> 'n val) list \<times> bool) kv option \<times> 'n prefix_scan" where
  "try_prefix_scan_next_n_sync E held n e st =
     (if held 0 LGuard then (None, st) else scan_n_loop E held 0 n e st [])"

text \<open>The visitor sees the bytes of strings and of byte values; other values are skipped.\<close>

definition payload_of :: "'n val \<Rightarrow> bytes option" where
  "payload_of v = (case v of VBytes b \<Rightarrow> Some b | VString s \<Rightarrow> Some s | _ \<Rightarrow> None)"

function foreach_loop :: "'n ecfg \<Rightarrow> (nat \<Rightarrow> lock \<Rightarrow> bool) \<Rightarrow> nat \<Rightarrow> (key \<Rightarrow> bytes \<Rightarrow> 'v \<Rightarrow> bool \<times> 'v) \<Rightarrow> ('n, 'w) engine
    \<Rightarrow> 'n prefix_scan \<Rightarrow> 'v \<Rightarrow> unit kv option \<times> 'v" where
  "foreach_loop E held r visit e st x =
     (case prefix_scan_min_key_sync (held r) e st of
        None \<Rightarrow> (None, x)
      | Some None \<Rightarrow> (Some (Inr ()), x)
      | Some (Some k) \<Rightarrow>
          (case prefix_scan_resolve_sync E (held (r + 1)) e st k of
             None \<Rightarrow> (None, x)
           | Some (Inl err) \<Rightarrow> (Some (Inl (convert_error err)), x)
           | Some (Inr v) \<Rightarrow>
               let st = prefix_scan_advance k st in
               (case Option.bind v payload_of of
                  None \<Rightarrow> foreach_loop E held (r + 2) visit e st x
                | Some b \<Rightarrow> (case visit k b x of (go_on, x) \<Rightarrow>
                    if go_on then foreach_loop E held (r + 2) visit e st x else (Some (Inr ()), x)))))"
  by pat_completeness auto
termination
  by (relation "measure (\<lambda>(E, held, r, visit, e, st, x). card (keys_left e st))")
     (auto intro!: psubset_card_mono finite_keys_left advance_left min_key_sync_left)

declare foreach_loop.simps [simp del]

definition try_prefix_scan_foreach_sync :: "'n ecfg \<Rightarrow> (nat \<Rightarrow> lock \<Rightarrow> bool) \<Rightarrow> nat list \<Rightarrow> key
    \<Rightarrow> (key \<Rightarrow> bytes \<Rightarrow> 'v \<Rightarrow> bool \<times> 'v) \<Rightarrow> ('n, 'w) engine \<Rightarrow> 'v \<Rightarrow> unit kv option \<times> 'v" where
  "try_prefix_scan_foreach_sync E held order p visit e x =
     (case try_prefix_scan_start_sync (held 0) order p e of None \<Rightarrow> (None, x)
      | Some st \<Rightarrow> if held 1 LGuard then (None, x) else foreach_loop E held 2 visit e st x)"

subsection \<open>The scans of a column family\<close>

text \<open>The two prefix scans remove the prefix asked for from the keys they return, not only the name of the
  family; the range scans remove only the name.\<close>

definition cf_end :: "bytes \<Rightarrow> key \<Rightarrow> key" where
  "cf_end cf b = (if b = [] then cf_key cf [] else cf_key cf b)"

definition strip_keys :: "key \<Rightarrow> key list \<Rightarrow> key list" where
  "strip_keys p ks = map (\<lambda>k. drop (length p) k) (filter (\<lambda>k. starts_with k p) ks)"

definition strip_pairs :: "key \<Rightarrow> (key \<times> 'n val) list \<Rightarrow> (key \<times> 'n val) list" where
  "strip_pairs p kvs = map (\<lambda>(k, v). (drop (length p) k, v)) (filter (\<lambda>(k, v). starts_with k p) kvs)"

definition in_cf :: "bytes \<Rightarrow> ('n, 'w) engine \<Rightarrow> 'a kv \<Rightarrow> 'a kv" where
  "in_cf cf e r = (if cf_known cf e then r else Inl (cf_missing cf))"

definition in_cf_opt :: "bytes \<Rightarrow> ('n, 'w) engine \<Rightarrow> 'a kv option \<Rightarrow> 'a kv option" where
  "in_cf_opt cf e r = (if cf_known cf e then r else Some (Inl (cf_missing cf)))"

definition scan_prefix_cf :: "'n ecfg \<Rightarrow> key \<Rightarrow> bytes \<Rightarrow> ('n, 'w) engine \<Rightarrow> key list kv" where
  "scan_prefix_cf E p cf e = in_cf cf e (map_sum id (strip_keys (cf_key cf p)) (eng_scan_prefix E (cf_key cf p) e))"

definition scan_range_cf :: "'n ecfg \<Rightarrow> key \<Rightarrow> key \<Rightarrow> bytes \<Rightarrow> ('n, 'w) engine \<Rightarrow> key list kv option" where
  "scan_range_cf E a b cf e =
     in_cf_opt cf e (map_option (map_sum id (strip_keys (cf_key cf []))) (eng_scan_range E (cf_key cf a) (cf_end cf b) e))"

definition scan_range_limit_cf :: "'n ecfg \<Rightarrow> key \<Rightarrow> key \<Rightarrow> nat \<Rightarrow> bytes \<Rightarrow> ('n, 'w) engine \<Rightarrow> key list kv option" where
  "scan_range_limit_cf E a b n cf e =
     in_cf_opt cf e (map_option (map_sum id (strip_keys (cf_key cf [])))
       (eng_scan_range_limit E (cf_key cf a) (cf_end cf b) n e))"

definition scan_all_cf :: "'n ecfg \<Rightarrow> bytes \<Rightarrow> ('n, 'w) engine \<Rightarrow> (key \<times> 'n val) list kv" where
  "scan_all_cf E cf e =
     in_cf cf e (map_sum id (strip_pairs (cf_key cf [])) (eng_scan_prefix_with_values E (cf_key cf []) e))"

definition scan_prefix_with_values_cf :: "'n ecfg \<Rightarrow> key \<Rightarrow> bytes \<Rightarrow> ('n, 'w) engine \<Rightarrow> (key \<times> 'n val) list kv" where
  "scan_prefix_with_values_cf E p cf e =
     in_cf cf e (map_sum id (strip_pairs (cf_key cf p)) (eng_scan_prefix_with_values E (cf_key cf p) e))"

definition scan_range_with_values_cf ::
  "'n ecfg \<Rightarrow> key \<Rightarrow> key \<Rightarrow> bytes \<Rightarrow> ('n, 'w) engine \<Rightarrow> (key \<times> 'n val) list kv option" where
  "scan_range_with_values_cf E a b cf e =
     in_cf_opt cf e (map_option (map_sum id (strip_pairs (cf_key cf [])))
       (eng_scan_range_with_values E (cf_key cf a) (cf_end cf b) e))"

definition between :: "key \<Rightarrow> key \<Rightarrow> key \<Rightarrow> bool" where
  "between a b k \<longleftrightarrow>
     (if a = [] \<and> b = [] then True else if a = [] then k \<le> b else if b = [] then a \<le> k else a \<le> k \<and> k \<le> b)"

definition iter_range_cf :: "'n ecfg \<Rightarrow> key \<Rightarrow> key \<Rightarrow> bytes \<Rightarrow> ('n, 'w) engine \<Rightarrow> 'n kv_iter kv option" where
  "iter_range_cf E a b cf e =
     in_cf_opt cf e (map_option (map_sum id (\<lambda>kvs. iter_new
         (filter (\<lambda>(k, v). between a b k) (strip_pairs (cf_key cf []) kvs))))
       (eng_scan_range_with_values E (cf_key cf a) (cf_end cf b) e))"

end
