(* ===== verification/Engine_Open.thy ===== *)
theory Engine_Open
  imports Engine_Scan
begin

text \<open>
  Opening the engine (\<open>core/engine.rs\<close>, \<open>LsmTreeEngine::new\<close>): replaying the log into the memtable,
  loading the tables in the data directory, choosing the next sequence number and counting the keys.
  Also the task that trims the log in the background and the limit on open files.
\<close>

subsection \<open>Recovery from the log\<close>

definition last_checkpoint :: "'n wal_entry list \<Rightarrow> nat option" where
  "last_checkpoint es =
     (case filter (\<lambda>e. case e of WCheckpoint _ \<Rightarrow> True | _ \<Rightarrow> False) (rev es) of [] \<Rightarrow> None
      | e # _ \<Rightarrow> Some (entry_timestamp e))"

text \<open>What is at or before the last checkpoint is skipped; the comparison is on the clock.\<close>

definition entries_to_recover :: "'n wal_entry list \<Rightarrow> 'n wal_entry list" where
  "entries_to_recover es =
     (case last_checkpoint es of None \<Rightarrow> es | Some c \<Rightarrow> filter (\<lambda>e. c < entry_timestamp e) es)"

fun replay_entry :: "('n json \<Rightarrow> bytes) \<Rightarrow> 'n wal_entry \<Rightarrow> 'n memtable \<Rightarrow> 'n memtable" where
  "replay_entry js (WPut k v _) m = fst (mt_put js k v m)"
| "replay_entry js (WDelete k _) m = mt_delete js k m"
| "replay_entry js _ m = m"

text \<open>\<open>allow\<close> is \<open>wal.allow_recovery_failure\<close>, \<open>timed_out\<close> whether reading took longer than allowed.\<close>

definition recover_from_wal ::
  "'n ecfg \<Rightarrow> ('n, 'w) wal_ops \<Rightarrow> bool \<Rightarrow> bool \<Rightarrow> ('n, 'w) engine \<Rightarrow> unit res \<times> ('n, 'w) engine" where
  "recover_from_wal E lg allow timed_out e =
     (if timed_out then
        (Inl (WalErr ''WAL recovery timed out: Elapsed(()). Recovery did not complete within the timeout period.''), e)
      else case w_read lg (eg_wal e) of
        Inl err \<Rightarrow>
          if allow then (Inr (), clear_wal_directory lg e)
          else (Inl (WalErr (''Failed to read WAL entries during recovery: '' @ lsm_display err)), e)
      | Inr es \<Rightarrow>
          (Inr (), e\<lparr>eg_active := fold (replay_entry (cc_js (ec_C E))) (entries_to_recover es) (eg_active e)\<rparr>))"

definition recovery_refused :: "lsm_error \<Rightarrow> string" where
  "recovery_refused err =
     ''CRITICAL: WAL recovery failed, refusing to start engine. Recent writes may be lost if recovery cannot complete. Error: ''
     @ lsm_display err @ ''. If this is intentional (e.g., for development/testing), set wal.allow_recovery_failure=true in configuration. WARNING: Enabling allow_recovery_failure may result in data loss.''"

definition initialize_wal ::
  "'n ecfg \<Rightarrow> ('n, 'w) wal_ops \<Rightarrow> nat \<Rightarrow> bool \<Rightarrow> bool \<Rightarrow> ('n, 'w) engine \<Rightarrow> unit res \<times> ('n, 'w) engine" where
  "initialize_wal E lg now allow timed_out e =
     (if \<not> ec_wal E then (Inr (), e)
      else
        and_then
          (case recover_from_wal E lg allow timed_out e of
             (Inr _, e) \<Rightarrow> (Inr (), e)
           | (Inl err, e) \<Rightarrow> if allow then (Inr (), e)
               else (Inl (WalErr (recovery_refused err)), e))
          (\<lambda>_ e. case on_wal e (w_init lg now) of
             (Inl err, e) \<Rightarrow> (Inl (WalErr (''Failed to initialize WAL: '' @ lsm_display err)), e)
           | (Inr _, e) \<Rightarrow> (Inr (), e)))"

subsection \<open>Loading the tables\<close>

text \<open>The file \<open>SEQUENCE\<close> holds the next number in decimal; a file that is missing or does not parse
  counts as 0.\<close>

definition blank :: "char \<Rightarrow> bool" where
  "blank c \<longleftrightarrow> c \<in> set [CHR '' '', CHR 0x09, CHR 0x0A, CHR 0x0B, CHR 0x0C, CHR 0x0D]"

definition trim :: "string \<Rightarrow> string" where
  "trim s = rev (dropWhile blank (rev (dropWhile blank s)))"

definition parse_sequence :: "string \<Rightarrow> nat option" where
  "parse_sequence s = from_str_radix 10 (trim s)"

definition load_sequence_file :: "string option \<Rightarrow> nat" where
  "load_sequence_file f = (case f of None \<Rightarrow> 0 | Some s \<Rightarrow> (case parse_sequence s of None \<Rightarrow> 0 | Some n \<Rightarrow> n))"

definition sequence_text :: "nat \<Rightarrow> string" where
  "sequence_text n = decimal n @ [CHR 0x0A]"

lemma blank_digit: "d < 10 \<Longrightarrow> \<not> blank (digit_char d)"
  using digit_char_val [of d] by (auto simp: blank_def digit_val_def)

text \<open>What is written to \<open>SEQUENCE\<close> is read back.\<close>

lemma load_sequence_text: "n < 2 ^ 64 \<Longrightarrow> load_sequence_file (Some (sequence_text n)) = n"
proof -
  assume n: "n < 2 ^ 64"
  have nb: "\<not> blank c" if "c \<in> set (decimal n)" for c
    using decimal_digits [OF that] blank_digit by auto
  obtain c cs where c: "decimal n = c # cs" by (cases "decimal n") simp_all
  have "dropWhile blank (sequence_text n) = sequence_text n"
    using nb [of c] c by (simp add: sequence_text_def)
  moreover have "dropWhile blank (rev (decimal n)) = rev (decimal n)"
    using nb [of "last (decimal n)"] by (simp add: hd_rev dropWhile_eq_self_iff)
  ultimately have "trim (sequence_text n) = decimal n"
    by (simp add: trim_def sequence_text_def blank_def)
  moreover have "c \<noteq> CHR ''+''"
    using decimal_digits [of c n] c by (auto simp: digit_char_plus)
  ultimately have "parse_sequence (sequence_text n) = Some n"
    using decimal_value [OF n] c by (simp add: parse_sequence_def from_str_radix_def)
  then show ?thesis by (simp add: load_sequence_file_def)
qed

text \<open>The directory is a list of file names with what opening the file gives.\<close>

type_synonym 'n listing = "(string \<times> 'n table res) list"

definition max_flush_sequence :: "'n listing \<Rightarrow> nat" where
  "max_flush_sequence files = fold max (List.map_filter parse_sstable_flush_sequence_from_filename (map fst files)) 0"

definition opened :: "'n listing \<Rightarrow> (nat \<times> string \<times> 'n table) list" where
  "opened files =
     List.map_filter (\<lambda>(n, r). case parse_sstable_level_from_filename n of None \<Rightarrow> None
       | Some l \<Rightarrow> (case r of Inl _ \<Rightarrow> None | Inr t \<Rightarrow> Some (l, n, t))) files"

definition max_entry_ts :: "(nat \<times> string \<times> 'n table) list \<Rightarrow> nat" where
  "max_entry_ts ts = fold (\<lambda>(_, n, t) m. case parse_sstable_flush_sequence_from_filename n of None \<Rightarrow> m
     | Some s \<Rightarrow> max m (saturating_add s (tb_count t))) ts 0"

definition loaded_level :: "(nat \<times> string \<times> 'n table) list \<Rightarrow> 'n levels" where
  "loaded_level ts l =
     (let level = map (\<lambda>(_, _, t). t) (filter (\<lambda>(l', _, _). l' = l) ts) in
      if l = 0 then level else sort_leveled_sstables level)"

definition load_existing_sstables :: "'n ecfg \<Rightarrow> 'n listing \<Rightarrow> ('n, 'w) engine \<Rightarrow> ('n, 'w) engine" where
  "load_existing_sstables E files e =
     (let ts = opened files;
          next = max (saturating_add (max (max_flush_sequence files) (max_entry_ts ts)) 1) (eg_seq_file e);
          e = e\<lparr>eg_levels := loaded_level ts, eg_seq := next\<rparr> in
      if eg_seq_file e < next \<and> ec_persist E then e\<lparr>eg_seq_file := next\<rparr> else e)"

definition eng_open ::
  "'n ecfg \<Rightarrow> ('n, 'w) wal_ops \<Rightarrow> nat \<Rightarrow> bool \<Rightarrow> bool \<Rightarrow> 'n listing \<Rightarrow> nat list \<Rightarrow> cstate \<Rightarrow> nat \<Rightarrow> 'w
    \<Rightarrow> unit res \<times> ('n, 'w) engine" where
  "eng_open E lg now allow timed_out files order disk seq_file w =
     and_then (initialize_wal E lg now allow timed_out (create_engine_structure E disk seq_file w)) (\<lambda>_ e.
       (Inr (), refresh_live_key_count E order (load_existing_sstables E files e)))"

subsection \<open>Background tasks\<close>

definition background_compaction_tick :: "'n ecfg \<Rightarrow> ('n, 'w) engine \<Rightarrow> ('n, 'w) engine" where
  "background_compaction_tick E e =
     (case compact_if_needed (ec_S E) (ec_C E) False (eg_levels e) (Some (eg_levels e)) (Some (eg_levels e)) idle (eg_disk e) of
        (Inl err, st) \<Rightarrow> e\<lparr>eg_disk := st\<rparr>
      | (Inr L, st) \<Rightarrow> e\<lparr>eg_disk := st, eg_levels := (case L of None \<Rightarrow> eg_levels e | Some L \<Rightarrow> L)\<rparr>)"

text \<open>One tick of the task that trims the log: by age twice, and all of it when there are too many
  files.  Whether what a segment holds was flushed is not asked.\<close>

definition wal_cleanup_tick :: "'n wenv \<Rightarrow> nat \<Rightarrow> nat \<Rightarrow> nat \<Rightarrow> nat \<Rightarrow> 'n wal_mgr \<Rightarrow> unit res \<times> 'n wal_mgr" where
  "wal_cleanup_tick W now retention grace max_segments m =
     (let n = length (f_dir (wm_fs m));
          m = cleanup_flushed_segments now grace (cleanup_old_segments now retention m) in
      if max_segments < n then force_cleanup W now m else (Inr (), m))"

text \<open>The handles to close when too many files are open: a handle is its position, whether it is open,
  whether nothing reads it, and its last use.\<close>

record handle =
  ha_at :: "nat \<times> nat"
  ha_open :: bool
  ha_free :: bool
  ha_used :: nat

definition ensure_file_handle_capacity :: "nat \<Rightarrow> handle list \<Rightarrow> handle list" where
  "ensure_file_handle_capacity max_open hs =
     (let n = length (filter ha_open hs);
          lru = sort_key ha_used (filter (\<lambda>h. ha_open h \<and> ha_free h) hs);
          close = map ha_at (take (min (n - max_open + 1) (length lru)) lru) in
      if n < max_open then hs
      else map (\<lambda>h. if ha_at h \<in> set close then h\<lparr>ha_open := False\<rparr> else h) hs)"

end
