(* ===== verification/Engine_Correct.thy ===== *)
theory Engine_Correct
  imports Engine_Open
begin

text \<open>
  The engine refines a map.  \<open>eng_view\<close> is what a read returns for each key; \<open>eng_ok\<close> is the invariant
  that lets every operation change the view as its specification says, flushes and the compactions
  they trigger included.  The invariant describes a store that never ran the manual compaction: all
  tables are in level 0.
\<close>

subsection \<open>What is read\<close>

fun answer :: "'n lookup_result \<Rightarrow> 'n val option \<Rightarrow> 'n val option" where
  "answer (Found v) x = Some v"
| "answer Tombstone x = None"
| "answer Missing x = x"

definition eng_view :: "'n ecfg \<Rightarrow> ('n, 'w) engine \<Rightarrow> key \<Rightarrow> 'n val option" where
  "eng_view E e k = answer (get_from_memtables e k) (get_from_tables E e k)"

definition store_val :: "'n val \<Rightarrow> 'n val option" where
  "store_val v = (if v = VNull then None else Some v)"

lemma answer_stored [simp]: "answer (stored v) x = store_val v"
  by (cases v) (simp_all add: stored_def store_val_def)

lemma eng_get_view: "fst (eng_get E k e) = Inr (eng_view E e k)"
  by (simp add: eng_get_def eng_view_def split: lookup_result.split option.split)

lemma eng_exists_view: "eng_exists E k e \<longleftrightarrow> eng_view E e k \<noteq> None"
  by (simp add: eng_exists_def eng_view_def split: lookup_result.split)

subsection \<open>The counters are not read\<close>

definition data_of :: "('n, 'w) engine \<Rightarrow> 'n memtable \<times> 'n memtable list \<times> 'n levels \<times> cstate \<times> nat \<times> nat" where
  "data_of e = (eg_active e, eg_imm e, eg_levels e, eg_disk e, eg_seq e, eg_seq_file e)"

lemma adjust_frame [simp]: "data_of (adjust_live_key_count d e) = data_of e"
  "eg_wal (adjust_live_key_count d e) = eg_wal e"
  by (simp_all add: adjust_live_key_count_def data_of_def)

lemma counter_frame [simp]:
  "data_of (note_get g e) = data_of e" "eg_wal (note_get g e) = eg_wal e"
  "data_of (set_total_keys e) = data_of e" "eg_wal (set_total_keys e) = eg_wal e"
  "data_of (count_writes n b e) = data_of e" "eg_wal (count_writes n b e) = eg_wal e"
  "data_of (count_delete e) = data_of e" "eg_wal (count_delete e) = eg_wal e"
  "data_of (e\<lparr>eg_wal := w\<rparr>) = data_of e" "data_of (e\<lparr>eg_stats := s\<rparr>) = data_of e"
  by (simp_all add: note_get_def set_total_keys_def count_writes_def count_delete_def data_of_def Let_def)

lemma put_count_frame [simp]: "data_of (apply_put_key_count E k eff e) = data_of e"
  "eg_wal (apply_put_key_count E k eff e) = eg_wal e"
  by (simp_all add: apply_put_key_count_def Let_def)

lemma fold_put_counts: "data_of (fold (\<lambda>(k, eff) e. apply_put_key_count E k eff e) effs e) = data_of e"
  "eg_wal (fold (\<lambda>(k, eff) e. apply_put_key_count E k eff e) effs e) = eg_wal e"
  by (induction effs arbitrary: e) auto

lemma batch_count_frame [simp]: "data_of (batch_apply_put_key_counts E effs e) = data_of e"
  "eg_wal (batch_apply_put_key_counts E effs e) = eg_wal e"
  by (simp_all add: batch_apply_put_key_counts_def Let_def fold_put_counts)

lemma data_of_eq:
  assumes "data_of e' = data_of e"
  shows "eg_active e' = eg_active e" "eg_imm e' = eg_imm e" "eg_levels e' = eg_levels e" "eg_disk e' = eg_disk e"
    "eg_seq e' = eg_seq e" "eg_seq_file e' = eg_seq_file e"
  using assms by (simp_all add: data_of_def)

lemma view_frame:
  assumes "data_of e' = data_of e"
  shows "eng_view E e' = eng_view E e" and "get_from_tables E e' = get_from_tables E e"
  by (simp_all add: eng_view_def get_from_memtables_def get_from_tables_def fun_eq_iff data_of_eq [OF assms]
      split: lookup_result.split)

subsection \<open>The invariant\<close>

text \<open>What is asked of the surroundings: files can be written and opened, the strategy is leveled (or
  hybrid, the same at level 0), and the names compaction gives are not those of flushes.\<close>

definition env_fine :: "'n ecfg \<Rightarrow> bool" where
  "env_fine E \<longleftrightarrow> cc_ok (ec_C E) \<and> cc_hash (ec_C E) = hash_of (ec_S E) \<and> 1 \<le> cc_levels (ec_C E)
     \<and> cc_strategy (ec_C E) \<in> {Leveled, Hybrid} \<and> cc_adaptive (ec_C E) = None \<and> ec_persist E
     \<and> (\<forall>p. ec_open E p = Inr () \<and> \<not> cc_slow (ec_C E) p)
     \<and> (\<forall>i. \<exists>b. cc_name (ec_C E) 0 i = ec_dir E @ b \<and> parse_sstable_level_from_filename b = Some 0
          \<and> parse_sstable_flush_sequence_from_filename b = None)"

definition fits_table :: "'n ecfg \<Rightarrow> key \<Rightarrow> 'n val \<Rightarrow> bool" where
  "fits_table E k v \<longleftrightarrow> (\<forall>ts < 2 ^ 64. rd_entry (ec_S E) \<lparr>en_key = k, en_value = v, en_ts = ts, en_deleted = is_null v\<rparr>
     = Inr \<lparr>en_key = k, en_value = v, en_ts = ts, en_deleted = is_null v\<rparr>)"

definition mem_ok :: "'n ecfg \<Rightarrow> 'n memtable \<Rightarrow> bool" where
  "mem_ok E m \<longleftrightarrow> mt_inv (cc_js (ec_C E)) m \<and> (\<forall>(k, v) \<in> set (mt_data m). fits_table E k v)"

definition name_ok :: "'n ecfg \<Rightarrow> nat \<Rightarrow> 'n table \<Rightarrow> bool" where
  "name_ok E s t \<longleftrightarrow> (\<exists>b. tb_path t = ec_dir E @ b \<and> parse_sstable_level_from_filename b = Some 0
     \<and> (\<forall>i. parse_sstable_flush_sequence_from_filename b = Some i \<longrightarrow> i + length (tb_entries t) < s))"

definition tables_ok :: "'n ecfg \<Rightarrow> ('n, 'w) engine \<Rightarrow> bool" where
  "tables_ok E e \<longleftrightarrow> levels_ok (ec_S E) (eg_levels e) \<and> (\<forall>l > 0. eg_levels e l = [])
     \<and> on_disk (eg_disk e) (eg_levels e 0) \<and> dom (cs_disk (eg_disk e)) = paths (eg_levels e 0)
     \<and> distinct (map tb_path (eg_levels e 0)) \<and> no_ties (entries_of (eg_levels e 0))
     \<and> (\<forall>x \<in> set (entries_of (eg_levels e 0)). en_ts x < eg_seq e) \<and> eg_seq_file e = eg_seq e
     \<and> (\<forall>t \<in> set (eg_levels e 0). name_ok E (eg_seq e) t) \<and> 0 < eg_seq e"

text \<open>\<open>n\<close> is the number of writes that can follow before the sequence number overflows.\<close>

definition eng_ok :: "'n ecfg \<Rightarrow> nat \<Rightarrow> ('n, 'w) engine \<Rightarrow> bool" where
  "eng_ok E n e \<longleftrightarrow> mem_ok E (eg_active e) \<and> eg_imm e = [] \<and> tables_ok E e
     \<and> eg_seq e + mt_count (eg_active e) + 2 * n < 2 ^ 64"

lemma ok_frame:
  assumes "data_of e' = data_of e"
  shows "eng_ok E n e' = eng_ok E n e" and "tables_ok E e' = tables_ok E e"
  by (simp_all add: eng_ok_def tables_ok_def data_of_eq [OF assms])

lemma eng_ok_less: "eng_ok E (Suc n) e \<Longrightarrow> eng_ok E n e"
  by (auto simp: eng_ok_def)

lemma view_one: "eg_imm e = [] \<Longrightarrow> eng_view E e k = answer (mt_lookup (eg_active e) k) (get_from_tables E e k)"
  by (simp add: eng_view_def get_from_memtables_def split: lookup_result.split)

lemma mem_ok_new: "mem_ok E (mt_new n)"
  by (simp add: mem_ok_def mt_inv_new) (simp add: mt_new_def)

lemma in_bt_insert: "p \<in> set (bt_insert k v m) \<Longrightarrow> p = (k, v) \<or> p \<in> set m"
  by (induction k v m rule: bt_insert.induct) (auto split: if_splits)

lemma mem_ok_put: "mem_ok E m \<Longrightarrow> fits_table E k v \<Longrightarrow> mem_ok E (fst (mt_put (cc_js (ec_C E)) k v m))"
  by (auto simp: mem_ok_def mt_inv_put mt_data_put dest!: in_bt_insert)

lemma mem_ok_delete: "mem_ok E m \<Longrightarrow> fits_table E k VNull \<Longrightarrow> mem_ok E (mt_delete (cc_js (ec_C E)) k m)"
  by (auto simp: mem_ok_def mt_inv_delete mt_data_delete dest!: in_bt_insert)

lemma put_count: "mt_count (fst (mt_put js k v m)) \<le> Suc (mt_count m)" "mt_count (mt_delete js k m) \<le> Suc (mt_count m)"
  by (simp_all add: mt_put_def mt_delete_def Let_def split: option.split)

subsection \<open>Writing a memtable to a table\<close>

lemma stamp_spec:
  "s + length es < 2 ^ 64 \<Longrightarrow> snd (stamp_entries s es) = s + length es
    \<and> length (fst (stamp_entries s es)) = length es
    \<and> map en_key (fst (stamp_entries s es)) = map fst es
    \<and> (\<forall>x \<in> set (fst (stamp_entries s es)). s \<le> en_ts x \<and> en_ts x < s + length es
         \<and> (en_key x, en_value x, en_deleted x) \<in> set es)"
proof (induction s es rule: stamp_entries.induct)
  case (2 s k v d es)
  have n: "seq_next s = Suc s" using 2(2) by (simp add: seq_next_def)
  obtain r s' where r: "stamp_entries (Suc s) es = (r, s')" by (cases "stamp_entries (Suc s) es") auto
  have IH: "s' = Suc s + length es \<and> length r = length es \<and> map en_key r = map fst es
     \<and> (\<forall>x \<in> set r. Suc s \<le> en_ts x \<and> en_ts x < Suc s + length es \<and> (en_key x, en_value x, en_deleted x) \<in> set es)"
    using 2 n r by simp
  then show ?case by (auto simp: n r)
qed simp

lemma with_deleted_keys: "map fst (with_deleted m) = map fst m"
  by (auto simp: with_deleted_def comp_def case_prod_unfold)

lemma stamped_answer:
  assumes m: "mt_inv js m" and s: "s + length (mt_data m) < 2 ^ 64"
    and r: "r = fst (stamp_entries s (mt_get_all_entries m))"
  shows "answer (mt_lookup m k) y = (case ent_map r k of None \<Rightarrow> y | Some x \<Rightarrow> live (Some x))"
proof -
  let ?es = "mt_get_all_entries m"
  have len: "s + length ?es < 2 ^ 64" using s by (simp add: mt_get_all_entries_def with_deleted_def)
  note sp = stamp_spec [OF len, folded r]
  have ok: "bt_ok (mt_data m)" using m by (simp add: mt_inv_def)
  have "map en_key r = map fst (mt_data m)"
    using sp by (simp add: mt_get_all_entries_def with_deleted_keys)
  then have keys: "en_key ` set r = fst ` set (mt_data m)" by (metis list.set_map)
  show ?thesis
  proof (cases "ent_map r k")
    case None
    then have "k \<notin> en_key ` set r" by (auto simp: ent_map_None)
    then have "bt_get (mt_data m) k = None" by (simp add: bt_get_None keys)
    with None show ?thesis by (simp add: mt_lookup_alt)
  next
    case (Some x)
    from ent_map_in [OF Some] sp have "(k, en_value x, en_deleted x) \<in> set ?es" by auto
    then have "(k, en_value x) \<in> set (mt_data m)" "en_deleted x = is_null (en_value x)"
      by (auto simp: mt_get_all_entries_def with_deleted_def)
    moreover from this have "bt_get (mt_data m) k = Some (en_value x)" by (simp add: bt_get_in [OF ok])
    ultimately show ?thesis using Some by (simp add: mt_lookup_alt live_def store_val_def)
  qed
qed

lemma tables_read: "tables_ok E e \<Longrightarrow> env_fine E \<Longrightarrow> get_from_tables E e k = live (newest_in (eg_levels e 0) k)"
proof -
  assume t: "tables_ok E e" and E: "env_fine E"
  have "first_entry (eg_levels e) k [1..<cc_levels (ec_C E)] = None"
    by (rule first_entry_None [of "ec_S E"]) (use t in \<open>auto simp: tables_ok_def\<close>)
  with t E show ?thesis
    by (simp add: get_from_tables_def sget_correct tables_ok_def env_fine_def stored_one split: option.split)
qed

subsection \<open>A flush\<close>

lemma free_seq_here: "cs_disk d (flush_path E s) = None \<Longrightarrow> free_seq E (cs_disk d) 0 s = s"
  by (subst free_seq.simps) simp

lemma flush_path_new:
  assumes E: "env_fine E" and t: "tables_ok E e" and s: "eg_seq e < 2 ^ 64"
  shows "cs_disk (eg_disk e) (flush_path E (eg_seq e)) = None"
proof (rule ccontr)
  assume "\<not> ?thesis"
  then have "flush_path E (eg_seq e) \<in> paths (eg_levels e 0)" using t by (auto simp: tables_ok_def)
  then obtain x where x: "x \<in> set (eg_levels e 0)" "tb_path x = ec_dir E @ flush_file_name (eg_seq e)"
    by (auto simp: paths_def flush_path_def)
  with t have "name_ok E (eg_seq e) x" by (simp add: tables_ok_def)
  with x(2) flush_name_sequence [OF s] show False by (auto simp: name_ok_def)
qed

text \<open>The table a flush of the memtable \<open>m\<close> adds to level 0.\<close>

lemma flush_write_ok:
  assumes E: "env_fine E" and t: "tables_ok E e" and m: "mem_ok E m" "mt_data m \<noteq> []"
    and room: "eg_seq e + mt_count m + 1 < 2 ^ 64"
  shows "\<exists>e'. flush_memtable_entries_to_sstable E (mt_get_all_entries m) e = (Inr (), e') \<and> tables_ok E e'
    \<and> (\<forall>k. get_from_tables E e' k = answer (mt_lookup m k) (get_from_tables E e k))
    \<and> eg_active e' = eg_active e \<and> eg_imm e' = eg_imm e \<and> eg_wal e' = eg_wal e \<and> eg_bulk e' = eg_bulk e
    \<and> eg_seq e' = eg_seq e + mt_count m + 1"
proof -
  let ?es = "mt_get_all_entries m" and ?s = "eg_seq e" and ?L = "eg_levels e 0" and ?C = "ec_C E"
  let ?p = "flush_path E ?s"
  have inv: "mt_inv (cc_js ?C) m" using m by (simp add: mem_ok_def)
  then have ok: "bt_ok (mt_data m)" and len: "length ?es = mt_count m"
    by (simp_all add: mt_inv_def mt_get_all_entries_def with_deleted_def)
  have ne: "?es \<noteq> []" using m(2) by (simp add: mt_get_all_entries_def with_deleted_def)
  have srt: "sort_key fst ?es = ?es"
    using bt_ok_sorted [OF ok] by (simp add: mt_get_all_entries_def with_deleted_keys sort_key_id_if_sorted)
  have next1: "seq_next ?s = Suc ?s" using room by (simp add: seq_next_def)
  obtain r s' where r: "stamp_entries (Suc ?s) ?es = (r, s')" by (cases "stamp_entries (Suc ?s) ?es") auto
  have "Suc ?s + length ?es < 2 ^ 64" using room len by simp
  note sp = stamp_spec [OF this, unfolded r fst_conv snd_conv]
  have rne: "r \<noteq> []" using sp ne by auto
  have keys: "map en_key r = map fst (mt_data m)" using sp by (simp add: mt_get_all_entries_def with_deleted_keys)
  have "sorted_entries r"
    using ok by (simp add: sorted_entries_def keys bt_ok_def)
  moreover have rd: "\<forall>x \<in> set r. rd_entry (ec_S E) x = Inr x"
  proof
    fix x assume x: "x \<in> set r"
    with sp have "(en_key x, en_value x, en_deleted x) \<in> set ?es" "en_ts x < 2 ^ 64" using room len by auto
    then have "(en_key x, en_value x) \<in> set (mt_data m)" "en_deleted x = is_null (en_value x)"
      by (auto simp: mt_get_all_entries_def with_deleted_def)
    with m(1) have "fits_table E (en_key x) (en_value x)" by (auto simp: mem_ok_def)
    then show "rd_entry (ec_S E) x = Inr x"
      using \<open>en_ts x < 2 ^ 64\<close> \<open>en_deleted x = is_null (en_value x)\<close> by (cases x) (simp add: fits_table_def)
  qed
  moreover obtain sz ln where w: "cc_write ?C ?p 0 r = Inr (sz, ln)" "0 < sz" "sz \<le> ln"
    using E rne unfolding env_fine_def cc_ok_def by blast
  ultimately have tok: "table_ok (ec_S E) (table_new ?C ?p now r sz)" for now
    using E rne by (intro table_new_ok) (auto simp: env_fine_def)
  define t' where "t' = table_new ?C ?p (cc_now ?C ?s) r sz"
  define e' where "e' = e\<lparr>eg_seq := s', eg_disk := (eg_disk e)\<lparr>cs_disk := (cs_disk (eg_disk e))(?p \<mapsto> ln)\<rparr>,
    eg_seq_file := s', eg_levels := (eg_levels e)(0 := ?L @ [t'])\<rparr>"
  have s': "s' = ?s + mt_count m + 1" using sp len by simp
  have disk: "cs_disk (eg_disk e) ?p = None" using room by (intro flush_path_new [OF E t]) simp
  have run: "flush_memtable_entries_to_sstable E ?es e = (Inr (), e')"
  proof -
    have "ec_open E ?p = Inr ()" "ec_persist E" using E by (auto simp: env_fine_def)
    moreover have "tb_ready t'" "tb_size t' = sz" "tb_count t' = length r" "tb_index_size t' = length r"
      by (simp_all add: t'_def table_new_def tb_index_size_def)
    moreover have "s' \<noteq> 0" using s' by simp
    ultimately show ?thesis
      using ne rne w
      by (simp add: flush_memtable_entries_to_sstable_def free_seq_here [OF disk] next1 srt r Let_def
          persist_sequence_high_water_def t'_def [symmetric] e'_def)
  qed
  have "dom (cs_disk (eg_disk e)) = paths ?L" using t by (simp add: tables_ok_def)
  with disk have fresh: "?p \<notin> paths ?L" by blast
  have old: "\<forall>x \<in> set (entries_of ?L). en_ts x < ?s" using t by (simp add: tables_ok_def)
  have ts: "\<forall>x \<in> set r. ?s < en_ts x \<and> en_ts x < s'" using sp by auto
  have tt: "tb_entries t' = r" "tb_path t' = ?p" by (simp_all add: t'_def)
  have ties: "no_ties (entries_of ?L @ r)"
  proof -
    have "inj_on en_key (set r)" using bt_ok_distinct [OF ok] by (simp add: keys [symmetric] distinct_map)
    then have "no_ties r" by (auto simp: no_ties_def dest: inj_onD)
    moreover have "no_ties (entries_of ?L)" using t by (simp add: tables_ok_def)
    moreover have "\<forall>x \<in> set (entries_of ?L). \<forall>y \<in> set r. en_ts x \<noteq> en_ts y \<and> en_ts y \<noteq> en_ts x"
      using old ts by (metis less_asym less_irrefl)
    ultimately show ?thesis by (simp add: no_ties_def ball_Un)
  qed
  have tab: "tables_ok E e'"
  proof -
    have "name_ok E s' t'"
      unfolding name_ok_def
      using flush_name_level [of ?s] flush_name_sequence [of ?s] room sp len tt s'
      by (intro exI [of _ "flush_file_name ?s"]) (auto simp: flush_path_def)
    moreover have "name_ok E s' x" if "name_ok E ?s x" for x
      using that s' unfolding name_ok_def by fastforce
    ultimately have "\<forall>x \<in> set (?L @ [t']). name_ok E s' x" using t by (auto simp: tables_ok_def)
    moreover have "levels_ok (ec_S E) ((eg_levels e)(0 := ?L @ [t']))"
      using t tok by (auto simp: tables_ok_def levels_ok_def t'_def)
    moreover have "on_disk (eg_disk e') (?L @ [t'])"
      using t fresh w(3) tt by (auto simp: tables_ok_def on_disk_def e'_def paths_def t'_def image_iff)
    moreover have "dom (cs_disk (eg_disk e')) = paths (?L @ [t'])"
      using t by (auto simp: tables_ok_def e'_def paths_def tt)
    moreover have "distinct (map tb_path (?L @ [t']))" using t fresh by (auto simp: tables_ok_def paths_def tt)
    moreover have "\<forall>x \<in> set (entries_of (?L @ [t'])). en_ts x < s'" using old ts s' tt by fastforce
    moreover have "no_ties (entries_of (?L @ [t']))" using ties tt by simp
    ultimately show ?thesis using t s' by (simp add: tables_ok_def e'_def)
  qed
  have look: "get_from_tables E e' k = answer (mt_lookup m k) (get_from_tables E e k)" for k
  proof -
    have nw: "newest_in (?L @ [t']) k = newer (ent_map r k) (newest_in ?L k)"
      by (simp add: newest_in_def tt)
    have "newer (Some x) (newest_in ?L k) = Some x" if x: "ent_map r k = Some x" for x
    proof (cases "newest_in ?L k")
      case (Some y)
      have "\<forall>t \<in> set ?L. table_ok (ec_S E) t" using t by (auto simp: tables_ok_def levels_ok_def)
      from newest_in_spec [OF this, of k] Some have "y \<in> set (entries_of ?L)" by (simp add: is_newest_def)
      with old ts ent_map_in [OF x] have "en_ts y \<le> en_ts x" by fastforce
      with Some show ?thesis by simp
    qed simp
    then have "live (newest_in (?L @ [t']) k) = (case ent_map r k of None \<Rightarrow> live (newest_in ?L k) | Some x \<Rightarrow> live (Some x))"
      by (simp add: nw split: option.split)
    also have "\<dots> = answer (mt_lookup m k) (live (newest_in ?L k))"
      using stamped_answer [OF inv, of "Suc ?s" r k "live (newest_in ?L k)"] room r inv by (simp add: mt_inv_def)
    finally show ?thesis
      using tables_read [OF tab E, of k] tables_read [OF t E, of k] by (simp add: e'_def)
  qed
  show ?thesis
    by (rule exI [of _ e'], intro conjI allI run tab look) (simp_all add: e'_def s')
qed

subsection \<open>The compaction a flush triggers\<close>

lemma due_only_top: "tables_ok E e \<Longrightarrow> should_compact_level C l (eg_levels e l) \<Longrightarrow> l = 0"
  by (cases l) (auto simp: tables_ok_def should_compact_level_def)

lemma merged_top_ok:
  assumes E: "env_fine E" and t: "tables_ok E e"
    and m: "merged_into (ec_S E) (ec_C E) 0 (eg_levels e 0) st outs st1"
    and st: "cs_disk st = cs_disk (eg_disk e)" "cs_disk st2 = cs_disk st1"
      "set gone = {t \<in> set (eg_levels e 0). tb_path t \<notin> paths outs}"
    and e': "eg_levels e' = (eg_levels e)(0 := outs)" "eg_disk e' = reclaim_compacted_inputs idle gone st2"
      "eg_seq e' = eg_seq e" "eg_seq_file e' = eg_seq_file e"
  shows "tables_ok E e' \<and> get_from_tables E e' k = get_from_tables E e k"
proof -
  let ?L = "eg_levels e 0"
  have outs: "\<forall>t \<in> set outs. table_ok (ec_S E) t" "entries_of outs = deduplicate_entries (entries_of ?L)"
      "on_disk st1 outs" "distinct (map tb_path outs)" "\<forall>p. p \<notin> paths outs \<longrightarrow> cs_disk st1 p = cs_disk st p"
    using m by (simp_all add: merged_into_def)
  have names: "\<forall>t \<in> set outs. \<exists>i. tb_path t = cc_name (ec_C E) 0 i" using m by (auto simp: merged_into_def)
  have sub: "set (entries_of outs) \<subseteq> set (entries_of ?L)" using dedup_spec(2) outs(2) by auto
  have lv: "levels_ok (ec_S E) ((eg_levels e)(0 := outs))" "levels_ok (ec_S E) (eg_levels e)"
    using t outs(1) by (auto simp: tables_ok_def levels_ok_def)
  have ties: "no_ties (entries_of ?L)" "no_ties (entries_of outs)"
    using t sub no_ties_mono by (auto simp: tables_ok_def)
  have disk: "cs_disk (eg_disk e') p = (if p \<in> paths outs then cs_disk st1 p else None)" for p
  proof -
    have dom: "dom (cs_disk (eg_disk e)) = paths ?L" using t by (simp add: tables_ok_def)
    have "paths gone = paths ?L - paths outs" using st(3) by (auto simp: paths_def)
    then have "cs_disk (eg_disk e') p = (if p \<in> paths ?L - paths outs then None else cs_disk st1 p)"
      by (simp add: e' disk_reclaim idle_def st(2))
    moreover have "cs_disk st1 p = None" if "p \<notin> paths outs" "p \<notin> paths ?L"
      using that outs(5) st(1) dom by (metis domIff)
    ultimately show ?thesis by auto
  qed
  have on: "on_disk (eg_disk e') outs" using outs(3) by (auto simp: on_disk_def disk paths_def)
  have "dom (cs_disk (eg_disk e')) = paths outs"
    using outs(3) by (auto simp: dom_def disk on_disk_def paths_def)
  moreover have "name_ok E (eg_seq e) x" if x: "x \<in> set outs" for x
  proof -
    obtain i where "tb_path x = cc_name (ec_C E) 0 i" using names x by blast
    moreover obtain b where "cc_name (ec_C E) 0 i = ec_dir E @ b" "parse_sstable_level_from_filename b = Some 0"
        "parse_sstable_flush_sequence_from_filename b = None"
      using E unfolding env_fine_def by blast
    ultimately show ?thesis unfolding name_ok_def by auto
  qed
  ultimately have ok: "tables_ok E e'"
    using t lv(1) on outs(4) ties(2) sub by (auto simp: tables_ok_def e')
  have "get_from_tables E e' k = get_from_tables E e k"
    unfolding get_from_tables_def e'(1)
    by (rule reads_after_l0 [OF lv(2,1), where new = "[]" and ?l0.0 = ?L and outs = outs])
       (use E t outs(2) ties(1) in \<open>auto simp: env_fine_def tables_ok_def newer_than_def hides_nothing_def\<close>)
  with ok show ?thesis by blast
qed

lemma compact_ok:
  assumes E: "env_fine E" and t: "tables_ok E e"
  shows "\<exists>e'. eng_compact_if_needed E e = (Inr (), e') \<and> tables_ok E e'
    \<and> (\<forall>k. get_from_tables E e' k = get_from_tables E e k) \<and> eg_active e' = eg_active e
    \<and> eg_imm e' = eg_imm e \<and> eg_wal e' = eg_wal e \<and> eg_bulk e' = eg_bulk e \<and> eg_seq e' = eg_seq e"
proof (cases "should_compact_level (ec_C E) 0 (eg_levels e 0)")
  case False
  have "find (\<lambda>l. should_compact_level (ec_C E) l (eg_levels e l)) [0..<cc_levels (ec_C E)] = None"
    unfolding find_None_iff using due_only_top [OF t] False by metis
  moreover have "cc_adaptive (ec_C E) = None" using E by (simp add: env_fine_def)
  ultimately have "compact_if_needed (ec_S E) (ec_C E) False (eg_levels e) (Some (eg_levels e)) (Some (eg_levels e)) idle (eg_disk e)
      = (Inr None, eg_disk e)"
    by (simp add: compact_if_needed_def compact_if_needed_inner_def reclaim_compacted_inputs_def)
  then have "eng_compact_if_needed E e = (Inr (), e\<lparr>eg_stats := add_compaction_stats (cs_stats (eg_disk e)) (eg_stats e)\<rparr>)"
    by (simp add: eng_compact_if_needed_def)
  with t show ?thesis
    by (intro exI conjI) (assumption | simp add: tables_ok_def get_from_tables_def)+
next
  case True
  have lv: "levels_ok (ec_S E) (eg_levels e)" and L1: "eg_levels e 1 = []" using t by (simp_all add: tables_ok_def)
  have "flushed_between (ec_S E) (eg_levels e) [] (eg_levels e)"
    using t lv L1 by (simp add: flushed_between_def newer_than_def tables_ok_def paths_def del: One_nat_def)
  moreover have "readable (ec_S E) (ec_C E) (eg_disk e) (eg_levels e 0)"
    using t E lv by (auto simp: readable_def tables_ok_def env_fine_def levels_ok_def)
  moreover have "cc_ok (ec_C E)" "cc_hash (ec_C E) = hash_of (ec_S E)" "1 \<le> cc_levels (ec_C E)"
      "cc_strategy (ec_C E) \<in> {Leveled, Hybrid}" "cc_adaptive (ec_C E) = None"
    using E by (simp_all add: env_fine_def)
  ultimately obtain outs st1 st2 gone where c: "compact_if_needed (ec_S E) (ec_C E) False (eg_levels e) (Some (eg_levels e)) (Some (eg_levels e)) idle (eg_disk e)
        = (Inr (Some ((eg_levels e)(0 := outs @ []))), reclaim_compacted_inputs idle gone st2)"
      "merged_into (ec_S E) (ec_C E) 0 (eg_levels e 0) (eg_disk e) outs st1" "cs_disk st2 = cs_disk st1"
      "set gone = {t \<in> set (eg_levels e 0). tb_path t \<notin> paths (outs @ [])}"
    using compact_level0_result [of "ec_C E" "ec_S E" "eg_levels e" "[]" "eg_levels e" "eg_disk e" idle] True by blast
  define e' where "e' = e\<lparr>eg_disk := reclaim_compacted_inputs idle gone st2, eg_levels := (eg_levels e)(0 := outs),
    eg_stats := add_compaction_stats (cs_stats (reclaim_compacted_inputs idle gone st2)) (eg_stats e)\<rparr>"
  have "eng_compact_if_needed E e = (Inr (), e')" using c(1) by (simp add: eng_compact_if_needed_def e'_def)
  moreover have "tables_ok E e' \<and> get_from_tables E e' k = get_from_tables E e k" for k
    by (rule merged_top_ok [OF E t c(2) refl c(3)]) (use c(4) in \<open>simp_all add: e'_def\<close>)
  ultimately show ?thesis by (auto simp: e'_def)
qed

subsection \<open>The operations\<close>

lemma fetch_active: "eng_ok E n e \<Longrightarrow> 0 < mt_count (eg_active e) \<longleftrightarrow> mt_data (eg_active e) \<noteq> []"
  by (auto simp: eng_ok_def mem_ok_def mt_inv_def)

lemma flush_internal_ok:
  assumes E: "env_fine E" and e: "eng_ok E (Suc n) e"
  shows "\<exists>e'. flush_memtable_internal E e = (Inr (), e') \<and> eng_ok E n e' \<and> eng_view E e' = eng_view E e
    \<and> mt_data (eg_active e') = [] \<and> eg_wal e' = eg_wal e \<and> eg_bulk e' = eg_bulk e"
proof (cases "mt_data (eg_active e) = []")
  case True
  let ?e = "e\<lparr>eg_active := mt_new (ec_mem_max E)\<rparr>"
  have "flush_memtable_internal E e = (Inr (), ?e)"
    using True fetch_active [OF e] by (simp add: flush_memtable_internal_def flush_begin_def)
  moreover have "eng_ok E n ?e"
    using e mem_ok_new by (auto simp: eng_ok_def tables_ok_def mt_new_def)
  moreover have "eng_view E ?e = eng_view E e"
    using e True by (simp add: fun_eq_iff view_one eng_ok_def get_from_tables_def mt_lookup_alt mt_new_def)
  ultimately show ?thesis by (intro exI conjI) (assumption | simp add: mt_new_def)+
next
  case False
  let ?m = "eg_active e"
  define e1 where "e1 = e\<lparr>eg_active := mt_new (ec_mem_max E), eg_imm := [?m]\<rparr>"
  have im: "eg_imm e = []" "mem_ok E ?m" "tables_ok E e" "eg_seq e + mt_count ?m + 2 * Suc n < 2 ^ 64"
    using e by (simp_all add: eng_ok_def)
  have b: "flush_begin E e = (Some 0, e1)"
    using False fetch_active [OF e] im(1) by (simp add: flush_begin_def e1_def Let_def)
  have t1: "tables_ok E e1" "get_from_tables E e1 = get_from_tables E e" "eg_seq e1 = eg_seq e"
    using im(3) by (simp_all add: e1_def tables_ok_def get_from_tables_def fun_eq_iff)
  have "eg_seq e1 + mt_count ?m + 1 < 2 ^ 64" using im(4) t1(3) by simp
  from flush_write_ok [OF E t1(1) im(2) False this] obtain e2 where e2:
    "flush_memtable_entries_to_sstable E (mt_get_all_entries ?m) e1 = (Inr (), e2)" "tables_ok E e2"
    "\<And>k. get_from_tables E e2 k = answer (mt_lookup ?m k) (get_from_tables E e1 k)"
    "eg_active e2 = eg_active e1" "eg_imm e2 = eg_imm e1" "eg_wal e2 = eg_wal e1" "eg_bulk e2 = eg_bulk e1"
    "eg_seq e2 = eg_seq e1 + mt_count ?m + 1" by blast
  define e3 where "e3 = flush_end 0 e2"
  have e3: "eg_imm e3 = []" "eg_active e3 = mt_new (ec_mem_max E)" "eg_wal e3 = eg_wal e" "eg_bulk e3 = eg_bulk e"
    "eg_seq e3 = eg_seq e + mt_count ?m + 1" "tables_ok E e3" "get_from_tables E e3 = get_from_tables E e2"
    using e2 t1(3) by (auto simp: e3_def flush_end_def e1_def tables_ok_def get_from_tables_def fun_eq_iff Let_def)
  have "flush_memtable_internal E e = (Inr (), e3)"
    using e2(1) by (simp add: flush_memtable_internal_def b flush_write_def e1_def e3_def)
  moreover have "eng_ok E n e3"
    using e3 im(4) mem_ok_new by (simp add: eng_ok_def mt_new_def)
  moreover have "eng_view E e3 = eng_view E e"
    using e3(1,2,7) e2(3) im(1) t1(2) by (simp add: fun_eq_iff view_one)
  ultimately show ?thesis using e3 by (intro exI conjI) (assumption | simp add: mt_new_def)+
qed

lemma compact_view:
  assumes E: "env_fine E" and e: "eng_ok E n e"
  shows "\<exists>e'. (if eg_bulk e then e else snd (eng_compact_if_needed E e)) = e' \<and> eng_ok E n e'
    \<and> eng_view E e' = eng_view E e \<and> eg_active e' = eg_active e \<and> eg_wal e' = eg_wal e"
proof (cases "eg_bulk e")
  case False
  have "tables_ok E e" and im: "eg_imm e = []" using e by (simp_all add: eng_ok_def)
  from compact_ok [OF E this(1)] obtain e' where e': "eng_compact_if_needed E e = (Inr (), e')" "tables_ok E e'"
    "\<And>k. get_from_tables E e' k = get_from_tables E e k" "eg_active e' = eg_active e" "eg_imm e' = eg_imm e"
    "eg_wal e' = eg_wal e" "eg_bulk e' = eg_bulk e" "eg_seq e' = eg_seq e" by blast
  have "eng_ok E n e'" using e e' by (simp add: eng_ok_def)
  moreover have "eng_view E e' = eng_view E e" using e' im by (simp add: fun_eq_iff view_one)
  ultimately show ?thesis using False e' by simp
qed (use e in simp)

lemma flush_ok:
  assumes E: "env_fine E" and e: "eng_ok E (Suc n) e"
  shows "\<exists>e'. flush_memtable E e = (Inr (), e') \<and> eng_ok E n e' \<and> eng_view E e' = eng_view E e
    \<and> mt_data (eg_active e') = [] \<and> eg_wal e' = eg_wal e"
proof -
  from flush_internal_ok [OF assms] obtain e1 where e1: "flush_memtable_internal E e = (Inr (), e1)" "eng_ok E n e1"
    "eng_view E e1 = eng_view E e" "mt_data (eg_active e1) = []" "eg_wal e1 = eg_wal e" by blast
  from compact_view [OF E e1(2)] obtain e2 where "(if eg_bulk e1 then e1 else snd (eng_compact_if_needed E e1)) = e2"
    "eng_ok E n e2" "eng_view E e2 = eng_view E e1" "eg_active e2 = eg_active e1" "eg_wal e2 = eg_wal e1" by blast
  with e1 show ?thesis by (simp add: flush_memtable_def)
qed

lemma check_flush_ok:
  assumes "env_fine E" and "eng_ok E (Suc n) e"
  shows "\<exists>e'. check_memtable_flush E e = (Inr (), e') \<and> eng_ok E n e' \<and> eng_view E e' = eng_view E e \<and> eg_wal e' = eg_wal e"
  using flush_ok [OF assms] eng_ok_less [OF assms(2)] by (auto simp: check_memtable_flush_def)

end
