(* ===== verification/Engine_Durable.thy ===== *)
theory Engine_Durable
  imports Engine_Correct
begin

text \<open>
  The engine over a log that keeps its promises (locale \<open>wal_log\<close>): every operation succeeds and
  changes what is read as its specification says, and after a crash the engine opens with the same
  contents.  The locale is interpreted on the segment log in theory \<open>Wal_Durability\<close>.
\<close>

subsection \<open>The log and the tables\<close>

text \<open>What the log alone says of a key, and the invariant: reading the log over the tables gives what
  the engine reads.  \<open>N\<close> bounds the entries of the log, \<open>n\<close> is what is left of the budget.\<close>

fun log_apply :: "'n wal_entry \<Rightarrow> (key \<Rightarrow> 'n lookup_result) \<Rightarrow> key \<Rightarrow> 'n lookup_result" where
  "log_apply (WPut k v _) f = f(k := stored v)"
| "log_apply (WDelete k _) f = f(k := Tombstone)"
| "log_apply _ f = f"

definition last_write :: "'n wal_entry list \<Rightarrow> key \<Rightarrow> 'n lookup_result" where
  "last_write es = fold log_apply es (\<lambda>_. Missing)"

fun fits_entry :: "'n ecfg \<Rightarrow> 'n wal_entry \<Rightarrow> bool" where
  "fits_entry E (WPut k v _) = fits_table E k v"
| "fits_entry E (WDelete k _) = fits_table E k VNull"
| "fits_entry E _ = False"

definition durable :: "'n ecfg \<Rightarrow> (nat \<Rightarrow> 'w \<Rightarrow> 'n wal_entry list \<Rightarrow> bool) \<Rightarrow> nat \<Rightarrow> nat \<Rightarrow> nat \<Rightarrow> ('n, 'w) engine \<Rightarrow> bool" where
  "durable E J N n now e \<longleftrightarrow> (\<exists>es. J n (eg_wal e) es \<and> eng_ok E (n * Suc N) e \<and> length es + n \<le> N
     \<and> (\<forall>x \<in> set es. fits_entry E x \<and> entry_timestamp x \<le> now) \<and> sorted (map entry_timestamp es)
     \<and> (\<forall>k. answer (last_write es k) (get_from_tables E e k) = eng_view E e k))"

lemma in_map_filter: "y \<in> set (List.map_filter f xs) \<longleftrightarrow> (\<exists>x \<in> set xs. f x = Some y)"
  by (induction xs) (auto simp: List.map_filter_simps split: option.split)

lemma answer_absorb: "answer r x = y \<Longrightarrow> answer r y = y"
  by (cases r) simp_all

lemma last_write_put [simp]: "last_write (es @ [WPut k v t]) = (last_write es)(k := stored v)"
  "last_write (es @ [WDelete k t]) = (last_write es)(k := Tombstone)" "last_write [] = (\<lambda>_. Missing)"
  by (simp_all add: last_write_def)

lemma last_write_batch: "last_write (es @ map (\<lambda>(k, v). WPut k v t) kvs) =
    fold (\<lambda>(k, v) f. f(k := stored v)) kvs (last_write es)"
proof -
  have "fold log_apply (map (\<lambda>(k, v). WPut k v t) kvs) f = fold (\<lambda>(k, v) f. f(k := stored v)) kvs f" for f
    by (induction kvs arbitrary: f) auto
  then show ?thesis by (simp add: last_write_def)
qed

lemma replay_spec:
  "mem_ok E m \<Longrightarrow> \<forall>x \<in> set es. fits_entry E x \<Longrightarrow>
    mem_ok E (fold (replay_entry (cc_js (ec_C E))) es m)
    \<and> mt_lookup (fold (replay_entry (cc_js (ec_C E))) es m) = fold log_apply es (mt_lookup m)
    \<and> mt_count (fold (replay_entry (cc_js (ec_C E))) es m) \<le> mt_count m + length es"
proof (induction es arbitrary: m)
  case (Cons x es)
  let ?js = "cc_js (ec_C E)"
  have inv: "mt_inv ?js m" using Cons.prems by (simp add: mem_ok_def)
  have "mem_ok E (replay_entry ?js x m) \<and> mt_lookup (replay_entry ?js x m) = log_apply x (mt_lookup m)
      \<and> mt_count (replay_entry ?js x m) \<le> Suc (mt_count m)"
    using Cons.prems
    by (cases x) (simp_all add: put_count mem_ok_put mem_ok_delete mt_lookup_put [OF inv] mt_lookup_delete [OF inv])
  with Cons.IH [of "replay_entry ?js x m"] Cons.prems show ?case by fastforce
qed simp

lemma new_facts: "mt_lookup (mt_new n) = (\<lambda>_. Missing)" "mt_count (mt_new n) = 0"
  by (simp_all add: fun_eq_iff) (simp add: mt_new_def)

lemma recover_all: "\<forall>x \<in> set es. fits_entry E x \<Longrightarrow> entries_to_recover es = es"
proof -
  assume f: "\<forall>x \<in> set es. fits_entry E x"
  have "filter (\<lambda>e. case e of WCheckpoint _ \<Rightarrow> True | _ \<Rightarrow> False) (rev es) = []"
    using f by (force simp: filter_empty_conv split: wal_entry.split)
  then show ?thesis by (simp add: entries_to_recover_def last_checkpoint_def)
qed

subsection \<open>Loading the tables again\<close>

text \<open>The files of a data directory: one per table, and others whose names are not those of tables.\<close>

definition lists :: "'n ecfg \<Rightarrow> 'n listing \<Rightarrow> 'n table list \<Rightarrow> bool" where
  "lists E files ts \<longleftrightarrow> distinct (map fst files)
     \<and> (\<forall>f \<in> set files. parse_sstable_level_from_filename (fst f) = None \<longrightarrow>
          parse_sstable_flush_sequence_from_filename (fst f) = None)
     \<and> (\<forall>n r. (n, r) \<in> set files \<and> parse_sstable_level_from_filename n \<noteq> None \<longleftrightarrow>
          (\<exists>t \<in> set ts. tb_path t = ec_dir E @ n \<and> r = Inr t))"

lemma fold_max_le: "\<forall>x \<in> set xs. x < b \<Longrightarrow> a < b \<Longrightarrow> fold max xs a < (b :: nat)"
  by (induction xs arbitrary: a) auto

lemma opened_tables:
  assumes ts: "\<forall>t \<in> set ts. name_ok E s t" and f: "lists E files ts"
  shows "\<forall>x \<in> set (opened files). \<exists>n t. x = (0, n, t) \<and> t \<in> set ts \<and> tb_path t = ec_dir E @ n"
    and "set (map (\<lambda>(_, _, t). t) (opened files)) = set ts"
    and "distinct (map (\<lambda>(_, _, t). tb_path t) (opened files))"
proof -
  let ?f = "\<lambda>(n, r). case parse_sstable_level_from_filename n of None \<Rightarrow> None
       | Some l \<Rightarrow> (case r of Inl _ \<Rightarrow> None | Inr t \<Rightarrow> Some (l, n, t))"
  have lvl: "parse_sstable_level_from_filename n = Some 0" if "t \<in> set ts" "tb_path t = ec_dir E @ n" for t n
    using ts that by (auto simp: name_ok_def)
  have mem: "(n, r) \<in> set files \<and> parse_sstable_level_from_filename n \<noteq> None \<longleftrightarrow>
      (\<exists>t \<in> set ts. tb_path t = ec_dir E @ n \<and> r = Inr t)" for n r
    using f by (simp add: lists_def)
  have op: "set (opened files) = {(0 :: nat, n, t) | n t. t \<in> set ts \<and> tb_path t = ec_dir E @ n}"
  proof (intro set_eqI iffI)
    fix x assume "x \<in> set (opened files)"
    then obtain n r where nr: "(n, r) \<in> set files" "?f (n, r) = Some x"
      by (auto simp: opened_def in_map_filter)
    then have "parse_sstable_level_from_filename n \<noteq> None" by (auto split: option.splits)
    with mem nr(1) obtain t where t: "t \<in> set ts" "tb_path t = ec_dir E @ n" "r = Inr t" by blast
    with nr(2) lvl [OF t(1,2)] show "x \<in> {(0 :: nat, n, t) | n t. t \<in> set ts \<and> tb_path t = ec_dir E @ n}" by auto
  next
    fix x assume "x \<in> {(0 :: nat, n, t) | n t. t \<in> set ts \<and> tb_path t = ec_dir E @ n}"
    then obtain n t where t: "t \<in> set ts" "tb_path t = ec_dir E @ n" "x = (0, n, t)" by blast
    with mem [of n "Inr t"] have "(n, Inr t) \<in> set files" by blast
    moreover have "?f (n, Inr t) = Some x" using lvl [OF t(1,2)] t(3) by simp
    ultimately show "x \<in> set (opened files)" unfolding opened_def in_map_filter by force
  qed
  then show one: "\<forall>x \<in> set (opened files). \<exists>n t. x = (0, n, t) \<and> t \<in> set ts \<and> tb_path t = ec_dir E @ n" by blast
  have "\<exists>n. tb_path t = ec_dir E @ n" if "t \<in> set ts" for t using ts that by (auto simp: name_ok_def)
  then show "set (map (\<lambda>(_, _, t). t) (opened files)) = set ts" unfolding set_map op by force
  have "distinct (map fst files)" using f by (simp add: lists_def)
  then have "distinct (map (\<lambda>(_, n, _). n) (opened files))"
  proof (unfold opened_def, induction files)
    case (Cons a files)
    have "n \<in> fst ` set files" if "(l, n, t) \<in> set (List.map_filter ?f files)" for l n t
      using that by (force simp: in_map_filter split: option.splits sum.splits)
    with Cons show ?case
      by (auto simp: List.map_filter_simps split: option.split sum.split prod.split)
  qed simp
  then have "distinct (map ((@) (ec_dir E)) (map (\<lambda>(_, n, _). n) (opened files)))" by (simp add: distinct_map inj_on_def)
  moreover have "map ((@) (ec_dir E)) (map (\<lambda>(_, n, _). n) (opened files)) = map (\<lambda>(_, _, t). tb_path t) (opened files)"
    using one by (auto simp: map_eq_conv)
  ultimately show "distinct (map (\<lambda>(_, _, t). tb_path t) (opened files))" by metis
qed

lemma load_ok:
  assumes E: "env_fine E" and e: "tables_ok E e" and f: "lists E files (eg_levels e 0)"
    and e1: "cs_disk (eg_disk e1) = cs_disk (eg_disk e)" "eg_seq_file e1 = eg_seq_file e" and s: "eg_seq e < 2 ^ 64"
  shows "tables_ok E (load_existing_sstables E files e1)
    \<and> get_from_tables E (load_existing_sstables E files e1) k = get_from_tables E e k
    \<and> eg_seq (load_existing_sstables E files e1) = eg_seq e"
proof -
  let ?L = "eg_levels e 0" and ?ts = "opened files" and ?e = "load_existing_sstables E files e1"
  have names: "\<forall>t \<in> set ?L. name_ok E (eg_seq e) t" and q: "eg_seq_file e = eg_seq e" "0 < eg_seq e"
    using e by (simp_all add: tables_ok_def)
  note op = opened_tables [OF names f]
  define L where "L = map (\<lambda>(_, _, t). t) ?ts"
  have zero: "filter (\<lambda>(l', _, _). l' = l) ?ts = (if l = 0 then ?ts else [])" for l
    using op(1) by (auto intro!: filter_True filter_False)
  have lv: "loaded_level ?ts l = (if l = 0 then L else [])" for l
    by (simp add: loaded_level_def zero L_def Let_def sort_leveled_sstables_def)
  have L: "set L = set ?L" "distinct (map tb_path L)"
    using op(2,3) by (simp_all add: L_def comp_def case_prod_unfold)
  have ent: "set (entries_of L) = set (entries_of ?L)" using L(1) by (auto simp: in_entries_of)
  have seqs: "i + length (tb_entries t) < eg_seq e"
    if "t \<in> set ?L" "tb_path t = ec_dir E @ n" "parse_sstable_flush_sequence_from_filename n = Some i" for t n i
    using names that by (auto simp: name_ok_def)
  have "max_flush_sequence files < eg_seq e"
    unfolding max_flush_sequence_def
  proof (rule fold_max_le)
    show "\<forall>x \<in> set (List.map_filter parse_sstable_flush_sequence_from_filename (map fst files)). x < eg_seq e"
    proof
      fix x assume "x \<in> set (List.map_filter parse_sstable_flush_sequence_from_filename (map fst files))"
      then obtain n r where n: "(n, r) \<in> set files" "parse_sstable_flush_sequence_from_filename n = Some x"
        by (force simp: in_map_filter)
      then have "parse_sstable_level_from_filename n \<noteq> None" using f by (fastforce simp: lists_def)
      with n(1) f obtain t where "t \<in> set ?L" "tb_path t = ec_dir E @ n" unfolding lists_def by blast
      with seqs n(2) show "x < eg_seq e" by fastforce
    qed
  qed (rule q(2))
  moreover have "max_entry_ts ?ts < eg_seq e"
  proof -
    have ok: "\<forall>t \<in> set ?L. tb_count t = length (tb_entries t)" using e by (auto simp: tables_ok_def levels_ok_def table_ok_def)
    have "fold (\<lambda>(_, n, t) m. case parse_sstable_flush_sequence_from_filename n of None \<Rightarrow> m
        | Some s \<Rightarrow> max m (saturating_add s (tb_count t))) xs a < eg_seq e"
      if "set xs \<subseteq> set ?ts" "a < eg_seq e" for xs a
      using that
    proof (induction xs arbitrary: a)
      case (Cons x xs)
      then obtain n t where x: "x = (0, n, t)" "t \<in> set ?L" "tb_path t = ec_dir E @ n" using op(1) by auto
      have "saturating_add i (tb_count t) < eg_seq e"
        if "parse_sstable_flush_sequence_from_filename n = Some i" for i
        using seqs [OF x(2,3) that] ok x(2) by (simp add: saturating_add_def)
      with Cons x(1) show ?case by (auto split: option.split)
    qed simp
    from this [of ?ts 0] q(2) show ?thesis by (simp add: max_entry_ts_def)
  qed
  ultimately have nxt: "max (saturating_add (max (max_flush_sequence files) (max_entry_ts ?ts)) 1) (eg_seq_file e1) = eg_seq e"
    using s q e1(2) by (simp add: saturating_add_def)
  have e': "?e = e1\<lparr>eg_levels := loaded_level ?ts, eg_seq := eg_seq e\<rparr>"
    using e1(2) q(1) unfolding load_existing_sstables_def Let_def nxt by simp
  have tabs: "\<forall>t \<in> set L. table_ok (ec_S E) t" "\<forall>t \<in> set ?L. table_ok (ec_S E) t"
    using e L(1) by (auto simp: tables_ok_def levels_ok_def)
  have ties: "no_ties (entries_of ?L)" using e by (simp add: tables_ok_def)
  then have ties': "no_ties (entries_of L)" using ent by (intro no_ties_mono [OF ties]) simp
  have "levels_ok (ec_S E) (loaded_level ?ts)" using tabs(1) by (simp add: levels_ok_def lv disjoint_level_def)
  moreover have "on_disk (eg_disk e1) L" "paths L = paths ?L"
    using e L(1) e1(1) by (simp_all add: on_disk_def tables_ok_def paths_def)
  ultimately have ok: "tables_ok E ?e"
    using e L ent ties' e1 q names by (simp add: tables_ok_def e' lv)
  have "newest_in L k = newest_in ?L k"
  proof (cases "newest_in ?L k")
    case None
    then have "newest_in L k = None" using newest_in_eq(2) [OF tabs(2) ties] newest_in_eq(2) [OF tabs(1) ties'] ent by simp
    with None show ?thesis by simp
  next
    case (Some x)
    then have "is_newest (entries_of L) k x"
      using newest_in_eq(1) [OF tabs(2) ties] is_newest_set [OF ent] by simp
    then show ?thesis using Some newest_in_eq(1) [OF tabs(1) ties'] by simp
  qed
  with tables_read [OF ok E] tables_read [OF e E] ok show ?thesis by (simp add: e' lv)
qed

subsection \<open>Operations over a log that keeps its promises\<close>

lemma put_all_spec:
  "eng_ok E (length kvs + n) e \<Longrightarrow> \<forall>(k, v) \<in> set kvs. fits_table E k v \<Longrightarrow>
    eng_ok E n (snd (put_all E kvs e)) \<and> eg_wal (snd (put_all E kvs e)) = eg_wal e
    \<and> eng_view E (snd (put_all E kvs e)) = fold (\<lambda>(k, v) f. f(k := store_val v)) kvs (eng_view E e)
    \<and> get_from_tables E (snd (put_all E kvs e)) = get_from_tables E e"
proof (induction kvs arbitrary: e)
  case (Cons kv kvs)
  obtain k v where kv: "kv = (k, v)" by (cases kv)
  let ?js = "cc_js (ec_C E)"
  obtain m eff where m: "mt_put ?js k v (eg_active e) = (m, eff)" by (cases "mt_put ?js k v (eg_active e)")
  let ?e = "e\<lparr>eg_active := m\<rparr>"
  have m': "m = fst (mt_put ?js k v (eg_active e))" by (simp add: m)
  have ok: "mem_ok E (eg_active e)" "mt_inv ?js (eg_active e)" "eg_imm e = []"
    using Cons.prems(1) by (simp_all add: eng_ok_def mem_ok_def)
  have "mem_ok E m" unfolding m' using ok(1) Cons.prems(2) kv by (intro mem_ok_put) auto
  moreover have "mt_count m \<le> Suc (mt_count (eg_active e))" unfolding m' by (rule put_count)
  ultimately have "eng_ok E (length kvs + n) ?e"
    using Cons.prems(1) by (simp add: eng_ok_def tables_ok_def)
  moreover have t: "get_from_tables E ?e = get_from_tables E e" by (simp add: get_from_tables_def fun_eq_iff)
  moreover have "mt_lookup m = (mt_lookup (eg_active e))(k := stored v)" unfolding m' by (rule mt_lookup_put [OF ok(2)])
  then have "eng_view E ?e = (eng_view E e)(k := store_val v)"
    using ok(3) by (simp add: fun_eq_iff view_one t)
  moreover have "snd (put_all E (kv # kvs) e) = snd (put_all E kvs ?e)"
    by (simp add: kv m put_memtable_def case_prod_unfold Let_def)
  ultimately show ?case using Cons.IH [of ?e] Cons.prems(2) kv by simp
qed simp

text \<open>Writing to the memtable what was just logged.\<close>

lemma after_put:
  assumes e: "eng_ok E (Suc n) e" and v: "fits_table E k v" and w: "data_of e1 = data_of e"
    and p: "put_memtable E k v e1 = (eff, e2)" and d: "data_of e3 = data_of e2"
  shows "eng_ok E n e3 \<and> eng_view E e3 = (eng_view E e)(k := store_val v) \<and> get_from_tables E e3 = get_from_tables E e"
proof -
  have "put_all E [(k, v)] e1 = ([(k, eff)], e2)" using p by simp
  then have e2: "e2 = snd (put_all E [(k, v)] e1)" by simp
  have "eng_ok E (length [(k, v)] + n) e1" using e by (simp add: ok_frame [OF w])
  from put_all_spec [OF this] v have "eng_ok E n e2" "eng_view E e2 = (eng_view E e1)(k := store_val v)"
    "get_from_tables E e2 = get_from_tables E e1" unfolding e2 by simp_all
  then show ?thesis by (simp add: ok_frame [OF d] view_frame [OF d] view_frame [OF w])
qed

lemma after_delete:
  assumes e: "eng_ok E (Suc n) e" and v: "fits_table E k VNull" and w: "data_of e1 = data_of e"
    and d: "data_of e3 = data_of (e1\<lparr>eg_active := mt_delete (cc_js (ec_C E)) k (eg_active e1)\<rparr>)"
  shows "eng_ok E n e3 \<and> eng_view E e3 = (eng_view E e)(k := None) \<and> get_from_tables E e3 = get_from_tables E e"
proof -
  let ?js = "cc_js (ec_C E)"
  let ?e = "e1\<lparr>eg_active := mt_delete ?js k (eg_active e1)\<rparr>"
  have e1: "eng_ok E (Suc n) e1" using e by (simp add: ok_frame [OF w])
  then have ok: "mem_ok E (eg_active e1)" "mt_inv ?js (eg_active e1)" "eg_imm e1 = []"
    by (simp_all add: eng_ok_def mem_ok_def)
  have "eng_ok E n ?e"
    using e1 mem_ok_delete [OF ok(1) v] put_count(2) [of ?js k "eg_active e1"] by (simp add: eng_ok_def tables_ok_def)
  moreover have t: "get_from_tables E ?e = get_from_tables E e1" by (simp add: get_from_tables_def fun_eq_iff)
  moreover have "eng_view E ?e = (eng_view E e1)(k := None)"
    using ok(3) by (simp add: fun_eq_iff view_one t mt_lookup_delete [OF ok(2)])
  ultimately show ?thesis by (simp add: ok_frame [OF d] view_frame [OF d] view_frame [OF w])
qed

lemma durable_frame:
  assumes "data_of e' = data_of e" and "eg_wal e' = eg_wal e"
  shows "durable E J N n t e' = durable E J N n t e"
  by (simp add: durable_def ok_frame [OF assms(1)] view_frame [OF assms(1)] assms(2))

lemma durable_later: "durable E J N n t e \<Longrightarrow> t \<le> now \<Longrightarrow> durable E J N n now e"
  unfolding durable_def using order_trans by blast

lemma eng_ok_mono: "eng_ok E m e \<Longrightarrow> n \<le> m \<Longrightarrow> eng_ok E n e"
  by (auto simp: eng_ok_def)

lemma durable_less:
  assumes "durable E J N (Suc n) now e" and "\<And>w es. J (Suc n) w es \<Longrightarrow> J n w es"
  shows "durable E J N n now e"
proof -
  from assms(1) obtain es where es: "J (Suc n) (eg_wal e) es" "eng_ok E (Suc n * Suc N) e" "length es + Suc n \<le> N"
    "(\<forall>x \<in> set es. fits_entry E x \<and> entry_timestamp x \<le> now) \<and> sorted (map entry_timestamp es)
     \<and> (\<forall>k. answer (last_write es k) (get_from_tables E e k) = eng_view E e k)" by (auto simp: durable_def)
  have "eng_ok E (n * Suc N) e" by (rule eng_ok_mono [OF es(2)]) simp
  with es assms(2) [OF es(1)] show ?thesis unfolding durable_def by (intro exI [of _ es]) simp
qed

text \<open>An entry was appended to the log and applied.\<close>

lemma durable_grow:
  assumes "J n (eg_wal e') (es @ new)" and "eng_ok E (n * Suc N) e'" and "length (es @ new) + n \<le> N"
    and "\<forall>x \<in> set es. fits_entry E x \<and> entry_timestamp x \<le> t" and "sorted (map entry_timestamp es)" and "t \<le> now"
    and "\<forall>x \<in> set new. fits_entry E x \<and> entry_timestamp x = now"
    and "\<And>k. answer (last_write (es @ new) k) (get_from_tables E e' k) = eng_view E e' k"
  shows "durable E J N n now e'"
proof -
  have "sorted (map entry_timestamp new)" using assms(7) by (auto simp: sorted_iff_nth_mono)
  then have "sorted (map entry_timestamp (es @ new))" using assms(4-7) by (auto simp: sorted_append intro: order_trans)
  moreover have "\<forall>x \<in> set (es @ new). fits_entry E x \<and> entry_timestamp x \<le> now" using assms(4,6,7) by auto
  ultimately show ?thesis using assms(1-3,8) unfolding durable_def by blast
qed

lemma check_flush_tables:
  assumes "env_fine E" and "eng_ok E (Suc n) e"
  shows "\<exists>e'. check_memtable_flush E e = (Inr (), e') \<and> eng_ok E n e' \<and> eng_view E e' = eng_view E e \<and> eg_wal e' = eg_wal e
    \<and> (get_from_tables E e' = get_from_tables E e \<or> get_from_tables E e' = eng_view E e)"
proof (cases "ec_mem_max E \<le> mt_size (eg_active e)")
  case True
  from flush_ok [OF assms] obtain e' where e': "flush_memtable E e = (Inr (), e')" "eng_ok E n e'"
    "eng_view E e' = eng_view E e" "mt_data (eg_active e') = []" "eg_wal e' = eg_wal e" by blast
  then have "get_from_tables E e' = eng_view E e'"
    by (auto simp: fun_eq_iff view_one eng_ok_def mt_lookup_alt)
  with True e' show ?thesis by (simp add: check_memtable_flush_def)
qed (use eng_ok_less [OF assms(2)] in \<open>simp add: check_memtable_flush_def\<close>)

lemma log_over:
  assumes "\<And>k. answer (r k) (t k) = v k" and "t' = t \<or> t' = v"
  shows "answer (r k) (t' k) = v k"
  using assms answer_absorb [OF assms(1)] by auto

lemma finish_write:
  assumes E: "env_fine E" and e: "eng_ok E (Suc (n * Suc N)) e" and J: "J n (eg_wal e) (es @ new)"
    and len: "length (es @ new) + n \<le> N"
    and es: "\<forall>x \<in> set es. fits_entry E x \<and> entry_timestamp x \<le> t" "sorted (map entry_timestamp es)" "t \<le> now"
    and new: "\<forall>x \<in> set new. fits_entry E x \<and> entry_timestamp x = now"
    and a: "\<And>k. answer (last_write (es @ new) k) (get_from_tables E e k) = eng_view E e k"
  shows "\<exists>e'. check_memtable_flush E e = (Inr (), e') \<and> durable E J N n now e' \<and> eng_view E e' = eng_view E e"
proof -
  from check_flush_tables [OF E e] obtain e4 where e4: "check_memtable_flush E e = (Inr (), e4)"
    "eng_ok E (n * Suc N) e4" "eng_view E e4 = eng_view E e" "eg_wal e4 = eg_wal e"
    "get_from_tables E e4 = get_from_tables E e \<or> get_from_tables E e4 = eng_view E e" by blast
  have "answer (last_write (es @ new) j) (get_from_tables E e4 j) = eng_view E e4 j" for j
    using log_over [OF a e4(5)] by (simp add: e4(3))
  from durable_grow [OF _ e4(2) len es new this] J e4 show ?thesis by auto
qed

lemma batch_over: "answer (r j) x = g j \<Longrightarrow>
  answer (fold (\<lambda>(k, v) f. f(k := stored v)) kvs r j) x = fold (\<lambda>(k, v) f. f(k := store_val v)) kvs g j"
proof (induction kvs arbitrary: r g)
  case (Cons kv kvs)
  obtain k v where kv: "kv = (k, v)" by (cases kv)
  have "answer ((r(k := stored v)) j) x = (g(k := store_val v)) j" using Cons.prems by simp
  from Cons.IH [of "r(k := stored v)" "g(k := store_val v)", OF this]
  show ?case by (simp only: kv fold_Cons comp_def prod.case)
qed simp

context wal_log
begin

lemma durable_put:
  assumes E: "env_fine E" and on: "ec_wal E" and d: "durable E inv N (n + 2) t e" and now: "t \<le> now"
    and ok: "ok (WPut k v now)" "fits_table E k v"
  shows "\<exists>e'. eng_put E ops now k v e = (Inr (), e') \<and> durable E inv N n now e'
    \<and> eng_view E e' = (eng_view E e)(k := store_val v)"
proof -
  from d obtain es where es: "inv (n + 2) (eg_wal e) es" "eng_ok E ((n + 2) * Suc N) e" "length es + (n + 2) \<le> N"
    "\<forall>x \<in> set es. fits_entry E x \<and> entry_timestamp x \<le> t" "sorted (map entry_timestamp es)"
    "\<And>k. answer (last_write es k) (get_from_tables E e k) = eng_view E e k" by (auto simp: durable_def)
  have "inv (Suc n) (eg_wal e) es" by (rule inv_le [OF es(1)]) simp
  from put [OF this ok(1)] obtain w where w: "w_put ops now k v (eg_wal e) = (Inr (), w)" "inv n w (es @ [WPut k v now])"
    by blast
  define e1 where "e1 = e\<lparr>eg_wal := w\<rparr>"
  obtain eff e2 where p: "put_memtable E k v e1 = (eff, e2)" by (cases "put_memtable E k v e1")
  define e3 where "e3 = count_writes 1 (length k + serialized_size (cc_js (ec_C E)) v) (apply_put_key_count E k eff e2)"
  have w3: "eg_wal e3 = w" using p by (auto simp: put_memtable_def e1_def e3_def split: prod.splits)
  have r: "eng_ok E (Suc (Suc (n * Suc N))) e" by (rule eng_ok_mono [OF es(2)]) (use es(3) in simp)
  have "data_of e1 = data_of e" "data_of e3 = data_of e2" by (simp_all add: e1_def e3_def)
  from after_put [OF r ok(2) this(1) p this(2)] have e3: "eng_ok E (Suc (n * Suc N)) e3"
    "eng_view E e3 = (eng_view E e)(k := store_val v)" "get_from_tables E e3 = get_from_tables E e" by blast+
  have a: "answer (last_write (es @ [WPut k v now]) j) (get_from_tables E e3 j) = eng_view E e3 j" for j
    using es(6) by (simp add: e3)
  have "length (es @ [WPut k v now]) + n \<le> N" using es(3) by simp
  from finish_write [where J = inv, OF E e3(1) _ this es(4,5) now _ a] w(2) w3 ok(2) obtain e4 where
    e4: "check_memtable_flush E e3 = (Inr (), e4)" "durable E inv N n now e4" "eng_view E e4 = eng_view E e3" by auto
  have "eng_put E ops now k v e = (Inr (), e4)"
    using on w(1) p e4(1)
    by (simp add: eng_put_def put_core_def if_wal_def on_wal_def e1_def e3_def converted_def to_kv_def)
  with e4(2,3) e3(2) show ?thesis by auto
qed

lemma durable_delete:
  assumes E: "env_fine E" and on: "ec_wal E" and d: "durable E inv N (n + 2) t e" and now: "t \<le> now"
    and ok: "ok (WDelete k now)" "fits_table E k VNull"
  shows "\<exists>e'. eng_delete E ops now k e = (Inr (), e') \<and> durable E inv N n now e'
    \<and> eng_view E e' = (eng_view E e)(k := None)"
proof -
  from d obtain es where es: "inv (n + 2) (eg_wal e) es" "eng_ok E ((n + 2) * Suc N) e" "length es + (n + 2) \<le> N"
    "\<forall>x \<in> set es. fits_entry E x \<and> entry_timestamp x \<le> t" "sorted (map entry_timestamp es)"
    "\<And>k. answer (last_write es k) (get_from_tables E e k) = eng_view E e k" by (auto simp: durable_def)
  have "inv (Suc n) (eg_wal e) es" by (rule inv_le [OF es(1)]) simp
  from delete [OF this ok(1)] obtain w where w: "w_delete ops now k (eg_wal e) = (Inr (), w)" "inv n w (es @ [WDelete k now])"
    by blast
  define e1 where "e1 = e\<lparr>eg_wal := w\<rparr>"
  define e2 where "e2 = e1\<lparr>eg_active := mt_delete (cc_js (ec_C E)) k (eg_active e1)\<rparr>"
  define e3 where "e3 = count_delete (if eng_exists E k e then set_total_keys (adjust_live_key_count (- 1) e2) else e2)"
  have w3: "eg_wal e3 = w" by (simp add: e1_def e2_def e3_def)
  have r: "eng_ok E (Suc (Suc (n * Suc N))) e" by (rule eng_ok_mono [OF es(2)]) (use es(3) in simp)
  have "data_of e1 = data_of e" "data_of e3 = data_of e2" by (simp_all add: e1_def e3_def)
  from after_delete [OF r ok(2) this(1) this(2) [unfolded e2_def]] have e3: "eng_ok E (Suc (n * Suc N)) e3"
    "eng_view E e3 = (eng_view E e)(k := None)" "get_from_tables E e3 = get_from_tables E e" by blast+
  have a: "answer (last_write (es @ [WDelete k now]) j) (get_from_tables E e3 j) = eng_view E e3 j" for j
    using es(6) by (simp add: e3)
  have "length (es @ [WDelete k now]) + n \<le> N" using es(3) by simp
  from finish_write [where J = inv, OF E e3(1) _ this es(4,5) now _ a] w(2) w3 ok(2) obtain e4 where
    e4: "check_memtable_flush E e3 = (Inr (), e4)" "durable E inv N n now e4" "eng_view E e4 = eng_view E e3" by auto
  have "eng_delete E ops now k e = (Inr (), e4)"
    using on w(1) e4(1)
    by (cases "eng_exists E k e")
       (simp_all add: eng_delete_def if_wal_def on_wal_def e1_def e2_def e3_def converted_def to_kv_def Let_def)
  with e4(2,3) e3(2) show ?thesis by auto
qed

lemma durable_deletes:
  assumes E: "env_fine E" "ec_wal E"
  shows "durable E inv N (n + 2 * length ks) t e \<Longrightarrow> t \<le> now \<Longrightarrow> \<forall>k \<in> set ks. ok (WDelete k now) \<and> fits_table E k VNull \<Longrightarrow>
    \<exists>e'. eng_batch_delete E ops now ks e = (Inr (), e') \<and> durable E inv N n now e'
      \<and> eng_view E e' = fold (\<lambda>k f. f(k := None)) ks (eng_view E e)"
proof (induction ks arbitrary: t e)
  case Nil
  then show ?case by (auto intro: durable_later)
next
  case (Cons k ks)
  have "durable E inv N (n + 2 * length ks + 2) t e" using Cons.prems(1) by (simp add: ac_simps)
  from durable_delete [OF E this Cons.prems(2), of k] Cons.prems(3) obtain e1 where e1: "eng_delete E ops now k e = (Inr (), e1)"
    "durable E inv N (n + 2 * length ks) now e1" "eng_view E e1 = (eng_view E e)(k := None)" by auto
  from Cons.IH [OF e1(2) order_refl] Cons.prems(3) e1(1,3) show ?case by simp
qed

lemma durable_batch:
  assumes E: "env_fine E" and on: "ec_wal E" and d: "durable E inv N (n + length kvs + 1) t e" and now: "t \<le> now"
    and size: "length kvs \<le> ec_max_batch E" and ok: "\<forall>(k, v) \<in> set kvs. ok (WPut k v now) \<and> fits_table E k v"
  shows "\<exists>e'. eng_batch_put E ops now kvs e = (Inr (), e') \<and> durable E inv N n now e'
    \<and> eng_view E e' = fold (\<lambda>(k, v) f. f(k := store_val v)) kvs (eng_view E e)"
proof -
  let ?m = "n + length kvs + 1" and ?new = "map (\<lambda>(k, v). WPut k v now) kvs"
  from d obtain es where es: "inv ?m (eg_wal e) es" "eng_ok E (?m * Suc N) e" "length es + ?m \<le> N"
    "\<forall>x \<in> set es. fits_entry E x \<and> entry_timestamp x \<le> t" "sorted (map entry_timestamp es)"
    "\<And>k. answer (last_write es k) (get_from_tables E e k) = eng_view E e k" by (auto simp: durable_def)
  have "inv (n + length kvs) (eg_wal e) es" by (rule inv_le [OF es(1)]) simp
  from batch [OF this, of now] ok obtain w where w: "w_batch ops now kvs (eg_wal e) = (Inr (), w)" "inv n w (es @ ?new)"
    by auto
  define e1 where "e1 = e\<lparr>eg_wal := w\<rparr>"
  obtain effs e2 where p: "put_all E kvs e1 = (effs, e2)" by (cases "put_all E kvs e1")
  define e3 where "e3 = count_writes (length kvs) 0 (batch_apply_put_key_counts E effs e2)"
  have d1: "data_of e1 = data_of e" and d3: "data_of e3 = data_of e2" by (simp_all add: e1_def e3_def)
  have "length kvs + Suc (n * Suc N) \<le> ?m * Suc N" by (simp add: algebra_simps)
  from eng_ok_mono [OF es(2) this] have "eng_ok E (length kvs + Suc (n * Suc N)) e1" by (simp add: ok_frame [OF d1])
  from put_all_spec [OF this] ok have pa: "eng_ok E (Suc (n * Suc N)) e2" "eg_wal e2 = eg_wal e1"
    "eng_view E e2 = fold (\<lambda>(k, v) f. f(k := store_val v)) kvs (eng_view E e1)" "get_from_tables E e2 = get_from_tables E e1"
    unfolding p snd_conv by auto
  have e3: "eng_ok E (Suc (n * Suc N)) e3" "eg_wal e3 = w"
    "eng_view E e3 = fold (\<lambda>(k, v) f. f(k := store_val v)) kvs (eng_view E e)" "get_from_tables E e3 = get_from_tables E e"
    using pa by (simp_all add: ok_frame [OF d3] view_frame [OF d3] view_frame [OF d1]) (simp_all add: e3_def e1_def)
  have a: "answer (last_write (es @ ?new) j) (get_from_tables E e3 j) = eng_view E e3 j" for j
    unfolding e3 last_write_batch by (rule batch_over) (rule es(6))
  have len: "length (es @ ?new) + n \<le> N" using es(3) by simp
  have new: "\<forall>x \<in> set ?new. fits_entry E x \<and> entry_timestamp x = now" using ok by auto
  from finish_write [where J = inv, OF E e3(1) _ len es(4,5) now new a] w(2) e3(2) obtain e4 where
    e4: "check_memtable_flush E e3 = (Inr (), e4)" "durable E inv N n now e4" "eng_view E e4 = eng_view E e3" by auto
  have "eng_batch_put E ops now kvs e = (Inr (), e4)"
    using on w(1) size p e4(1)
    by (simp add: eng_batch_put_def if_wal_def on_wal_def e1_def e3_def converted_def to_kv_def Let_def)
  with e4(2,3) e3(3) show ?thesis by auto
qed

lemma durable_force:
  assumes E: "env_fine E" and d: "durable E inv N (n + 1) t e" and now: "t \<le> now"
  shows "\<exists>e'. eng_force_flush E e = (Inr (), e') \<and> durable E inv N n now e' \<and> eng_view E e' = eng_view E e"
proof -
  from d obtain es where es: "inv (n + 1) (eg_wal e) es" "eng_ok E ((n + 1) * Suc N) e" "length es + (n + 1) \<le> N"
    "\<forall>x \<in> set es. fits_entry E x \<and> entry_timestamp x \<le> t" "sorted (map entry_timestamp es)"
    "\<And>k. answer (last_write es k) (get_from_tables E e k) = eng_view E e k" by (auto simp: durable_def)
  have "eng_ok E (Suc (n * Suc N)) e" by (rule eng_ok_mono [OF es(2)]) simp
  from flush_ok [OF E this] obtain e' where e': "flush_memtable E e = (Inr (), e')" "eng_ok E (n * Suc N) e'"
    "eng_view E e' = eng_view E e" "mt_data (eg_active e') = []" "eg_wal e' = eg_wal e" by blast
  have t: "get_from_tables E e' = eng_view E e'"
    using e' by (auto simp: fun_eq_iff view_one eng_ok_def mt_lookup_alt)
  have "answer (last_write (es @ []) k) (get_from_tables E e' k) = eng_view E e' k" for k
    using log_over [of "last_write es", OF es(6), of "get_from_tables E e'"] t e'(3) by simp
  from durable_grow [where J = inv and new = "[]", OF _ e'(2) _ es(4,5) now _ this] es(1,3) e'(5) inv_less
  have "durable E inv N n now e'" by simp
  with e' show ?thesis by (auto simp: eng_force_flush_def)
qed

text \<open>A flush puts everything into tables, whatever the log says.\<close>

lemma flush_restores:
  assumes E: "env_fine E" and on: "ec_wal E"
    and es: "inv (n + 2) (eg_wal e) es" "eng_ok E ((n + 2) * Suc N) e" "length es + (n + 2) \<le> N"
  shows "\<exists>e'. eng_flush E ops now e = (Inr (), e') \<and> durable E inv N n now e' \<and> eng_view E e' = eng_view E e"
proof -
  from es(1) have "inv (Suc (Suc n)) (eg_wal e) es" by simp
  from flush [OF this, of now] obtain w where w: "w_flush ops now (eg_wal e) = (Inr (), w)" "inv (Suc n) w es" by blast
  define e1 where "e1 = e\<lparr>eg_wal := w\<rparr>"
  have d1: "data_of e1 = data_of e" by (simp add: e1_def)
  have "Suc (n * Suc N) \<le> (n + 2) * Suc N" by simp
  from eng_ok_mono [OF es(2) this] have "eng_ok E (Suc (n * Suc N)) e1" by (simp add: ok_frame [OF d1])
  from flush_internal_ok [OF E this] obtain e2 where e2: "flush_memtable_internal E e1 = (Inr (), e2)"
    "eng_ok E (n * Suc N) e2" "eng_view E e2 = eng_view E e1" "mt_data (eg_active e2) = []" "eg_wal e2 = w"
    by (auto simp: e1_def)
  from truncate [OF w(2), of now] obtain w' where w': "w_truncate ops now w = (Inr (), w')" "inv n w' []" "w_verify ops w'"
    by blast
  define e3 where "e3 = e2\<lparr>eg_wal := w'\<rparr>"
  have d3: "data_of e3 = data_of e2" by (simp add: e3_def)
  have "eng_ok E (n * Suc N) e3" using e2(2) by (simp add: ok_frame [OF d3])
  from compact_view [OF E this] obtain e4 where e4: "(if eg_bulk e3 then e3 else snd (eng_compact_if_needed E e3)) = e4"
    "eng_ok E (n * Suc N) e4" "eng_view E e4 = eng_view E e3" "eg_active e4 = eg_active e3" "eg_wal e4 = eg_wal e3" by blast
  have run: "eng_flush E ops now e = (Inr (), e4)"
  proof -
    have "if_wal E e (w_flush ops now) = (Inr (), e1)" "if_wal E e2 (w_truncate ops now) = (Inr (), e3)"
      using on w(1) e2(5) w'(1) by (simp_all add: if_wal_def on_wal_def e1_def e3_def)
    moreover have "eg_wal e3 = w'" by (simp add: e3_def)
    ultimately show ?thesis using e2(1) w'(3) e4(1) by (simp add: eng_flush_def converted_def)
  qed
  have v: "eng_view E e4 = eng_view E e" using e2(3) e4(3) by (simp add: view_frame [OF d3] view_frame [OF d1])
  have "get_from_tables E e4 k = eng_view E e4 k" for k
    using e4(2,4) e2(4) by (simp add: view_one eng_ok_def mt_lookup_alt e3_def)
  moreover have "eg_wal e4 = w'" using e4(5) by (simp add: e3_def)
  ultimately have "durable E inv N n now e4"
    using e4(2) w'(2) es(3) by (auto simp: durable_def intro!: exI [of _ "[]"])
  with run v show ?thesis by auto
qed

lemma durable_flush:
  assumes "env_fine E" and "ec_wal E" and "durable E inv N (n + 2) t e"
  shows "\<exists>e'. eng_flush E ops now e = (Inr (), e') \<and> durable E inv N n now e' \<and> eng_view E e' = eng_view E e"
  using assms(3) flush_restores [OF assms(1,2)] by (auto simp: durable_def)

lemma durable_shutdown:
  assumes E: "env_fine E" and on: "ec_wal E" and d: "durable E inv N (n + 5) t e" and now: "t \<le> now"
    and ok: "ok (WCheckpoint now)"
  shows "\<exists>e'. eng_shutdown E ops now e = (Inr (), e') \<and> durable E inv N n now e' \<and> eng_view E e' = eng_view E e"
proof -
  from d obtain es where es: "inv (n + 5) (eg_wal e) es" "eng_ok E ((n + 5) * Suc N) e" "length es + (n + 5) \<le> N"
    by (auto simp: durable_def)
  from es(1) have "inv (Suc (n + 4)) (eg_wal e) es" by (simp add: ac_simps)
  from flush [OF this, of now] obtain w where w: "w_flush ops now (eg_wal e) = (Inr (), w)" "inv (n + 4) w es" by blast
  define e1 where "e1 = e\<lparr>eg_wal := w\<rparr>"
  have d1: "data_of e1 = data_of e" by (simp add: e1_def)
  have "Suc (n * Suc N) \<le> (n + 5) * Suc N" by (simp add: algebra_simps)
  from eng_ok_mono [OF es(2) this] have "eng_ok E (Suc (n * Suc N)) e1" by (simp add: ok_frame [OF d1])
  from flush_ok [OF E this] obtain e2 where e2: "flush_memtable E e1 = (Inr (), e2)" "eng_ok E (n * Suc N) e2"
    "eng_view E e2 = eng_view E e1" "mt_data (eg_active e2) = []" "eg_wal e2 = w" by (auto simp: e1_def)
  have "inv (n + 3) w es" by (rule inv_le [OF w(2)]) simp
  from shutdown [OF this ok] obtain w' where w': "w_shutdown ops now w = (Inr (), w')" "inv n w' []" by blast
  define e3 where "e3 = e2\<lparr>eg_wal := w'\<rparr>"
  have d3: "data_of e3 = data_of e2" by (simp add: e3_def)
  have run: "eng_shutdown E ops now e = (Inr (), e3)"
    using on w(1) e2(1,5) w'(1)
    by (simp add: eng_shutdown_def shutdown_background_tasks_def on_wal_def if_wal_def e1_def [symmetric] e3_def)
  have ok3: "eng_ok E (n * Suc N) e3" using e2(2) by (simp add: ok_frame [OF d3])
  have v: "eng_view E e3 = eng_view E e" using e2(3) by (simp add: view_frame [OF d3] view_frame [OF d1])
  have "get_from_tables E e3 k = eng_view E e3 k" for k
    using ok3 e2(4) by (simp add: view_one eng_ok_def mt_lookup_alt e3_def)
  moreover have "eg_wal e3 = w'" by (simp add: e3_def)
  ultimately have "durable E inv N n now e3"
    using ok3 w'(2) es(3) by (auto simp: durable_def intro!: exI [of _ "[]"])
  with run v show ?thesis by auto
qed

lemma durable_open:
  assumes E: "env_fine E" and on: "ec_wal E" and d: "durable E inv N (n + 1) t e" and now: "t \<le> now"
    and f: "lists E files (eg_levels e 0)" and disk: "cs_disk disk = cs_disk (eg_disk e)" and c: "crash (eg_wal e) c"
  shows "\<exists>e'. eng_open E ops now allow False files order disk (eg_seq_file e) c = (Inr (), e')
    \<and> durable E inv N n now e' \<and> eng_view E e' = eng_view E e"
proof -
  from d obtain es where es: "inv (Suc n) (eg_wal e) es" "eng_ok E ((n + 1) * Suc N) e" "length es + (n + 1) \<le> N"
    "\<forall>x \<in> set es. fits_entry E x \<and> entry_timestamp x \<le> t" "sorted (map entry_timestamp es)"
    "\<And>k. answer (last_write es k) (get_from_tables E e k) = eng_view E e k" by (auto simp: durable_def)
  have fit: "\<forall>x \<in> set es. fits_entry E x" using es(4) by blast
  define m where "m = fold (replay_entry (cc_js (ec_C E))) es (mt_new (ec_mem_max E))"
  from replay_spec [OF mem_ok_new fit, of "ec_mem_max E"] have m: "mem_ok E m" "mt_lookup m = last_write es"
    "mt_count m \<le> length es"
    by (simp_all add: m_def last_write_def new_facts)
  from reopen [OF es(1) c, of now] obtain w where w: "w_init ops now c = (Inr (), w)" "inv n w es" by blast
  define e0 where "e0 = create_engine_structure E disk (eg_seq_file e) c"
  define e1 where "e1 = e0\<lparr>eg_active := m, eg_wal := w\<rparr>"
  have i: "initialize_wal E ops now allow False e0 = (Inr (), e1)"
    using on read_in_order [OF es(1) c es(5)] w(1) recover_all [OF fit]
    by (simp add: initialize_wal_def recover_from_wal_def e0_def create_engine_structure_def on_wal_def m_def e1_def)
  define e2 where "e2 = load_existing_sstables E files e1"
  have old: "tables_ok E e" "eg_seq e < 2 ^ 64" using es(2) by (simp_all add: eng_ok_def)
  have same: "cs_disk (eg_disk e1) = cs_disk (eg_disk e)" "eg_seq_file e1 = eg_seq_file e"
    using disk by (simp_all add: e1_def e0_def create_engine_structure_def)
  from load_ok [OF E old(1) f same old(2)] have e2: "tables_ok E e2" "\<And>k. get_from_tables E e2 k = get_from_tables E e k"
    "eg_seq e2 = eg_seq e" by (simp_all add: e2_def)
  define e3 where "e3 = refresh_live_key_count E order e2"
  have f3: "data_of e3 = data_of e2" "eg_wal e3 = eg_wal e2"
    by (simp_all add: e3_def refresh_live_key_count_def data_of_def Let_def)
  have e2': "eg_active e2 = m" "eg_imm e2 = []" "eg_wal e2 = w"
    by (simp_all add: e2_def load_existing_sstables_def e1_def e0_def create_engine_structure_def Let_def)
  have "eng_ok E (n * Suc N) e2"
    using e2 e2' m es(2,3) by (simp add: eng_ok_def)
  then have ok3: "eng_ok E (n * Suc N) e3" by (simp add: ok_frame [OF f3(1)])
  have v: "eng_view E e2 k = eng_view E e k" for k
    using es(6) by (simp add: view_one e2' m(2) e2(2))
  have run: "eng_open E ops now allow False files order disk (eg_seq_file e) c = (Inr (), e3)"
    using i by (simp add: eng_open_def e0_def e3_def e2_def)
  have "answer (last_write (es @ []) k) (get_from_tables E e3 k) = eng_view E e3 k" for k
    using es(6) by (simp add: view_frame [OF f3(1)] v e2(2))
  from durable_grow [where J = inv and new = "[]", OF _ ok3 _ es(4,5) now _ this] w(2) es(3) f3(2) e2'(3)
  have "durable E inv N n now e3" by simp
  with run v show ?thesis by (auto simp: fun_eq_iff view_frame [OF f3(1)])
qed

end

end
