(* ===== verification/Float64.thy ===== *)
theory Float64
  imports Complex_Main Prelude
begin

text \<open>
  The values of Rust's \<open>f64\<close>: a finite one is the rational number it stands for, and every operation
  rounds its exact result to 53 bits, to even on a tie, as IEEE 754 asks for.  The two zeros are one value; the
  program never looks at the sign of a zero.
\<close>

datatype f64 = NaN | Infinity bool | Fin rat

subsection \<open>Rounding\<close>

definition pow2 :: "int \<Rightarrow> rat" where
  "pow2 e = (if 0 \<le> e then 2 ^ nat e else 1 / 2 ^ nat (- e))"

function bits :: "int \<Rightarrow> int" where
  "bits n = (if n \<le> 0 then 0 else 1 + bits (n div 2))"
  by pat_completeness auto
termination
  by (relation "measure nat") auto

declare bits.simps [simp del]

text \<open>The largest \<open>e\<close> with \<open>2^e \<le> \<bar>x\<bar>\<close>.\<close>

definition exponent :: "rat \<Rightarrow> int" where
  "exponent x =
     (let (p, q) = quotient_of \<bar>x\<bar>; e = bits p - bits q in
      if pow2 e \<le> \<bar>x\<bar> then e else e - 1)"

definition round_even :: "rat \<Rightarrow> int" where
  "round_even x =
     (let f = \<lfloor>x\<rfloor>; d = x - of_int f in
      if d < 1 / 2 then f else if 1 / 2 < d then f + 1 else if even f then f else f + 1)"

definition f64_round :: "rat \<Rightarrow> f64" where
  "f64_round x =
     (if x = 0 then Fin 0
      else let e = max (exponent x - 52) (- 1074); y = of_int (round_even (x / pow2 e)) * pow2 e in
        if pow2 1024 \<le> \<bar>y\<bar> then Infinity (y < 0) else Fin y)"

subsection \<open>Operations\<close>

definition f64_of_nat :: "nat \<Rightarrow> f64" where "f64_of_nat n = f64_round (of_nat n)"

fun f64_neg :: "f64 \<Rightarrow> f64" where
  "f64_neg NaN = NaN"
| "f64_neg (Infinity s) = Infinity (\<not> s)"
| "f64_neg (Fin x) = Fin (- x)"

fun f64_add :: "f64 \<Rightarrow> f64 \<Rightarrow> f64" where
  "f64_add (Fin x) (Fin y) = f64_round (x + y)"
| "f64_add (Infinity s) (Infinity t) = (if s = t then Infinity s else NaN)"
| "f64_add (Infinity s) (Fin y) = Infinity s"
| "f64_add (Fin x) (Infinity t) = Infinity t"
| "f64_add _ _ = NaN"

definition f64_sub :: "f64 \<Rightarrow> f64 \<Rightarrow> f64" where
  "f64_sub x y = f64_add x (f64_neg y)"

fun f64_mul :: "f64 \<Rightarrow> f64 \<Rightarrow> f64" where
  "f64_mul (Fin x) (Fin y) = f64_round (x * y)"
| "f64_mul (Infinity s) (Infinity t) = Infinity (s \<noteq> t)"
| "f64_mul (Infinity s) (Fin y) = (if y = 0 then NaN else Infinity (s \<noteq> (y < 0)))"
| "f64_mul (Fin x) (Infinity t) = (if x = 0 then NaN else Infinity ((x < 0) \<noteq> t))"
| "f64_mul _ _ = NaN"

fun f64_div :: "f64 \<Rightarrow> f64 \<Rightarrow> f64" where
  "f64_div (Fin x) (Fin y) = (if y = 0 then (if x = 0 then NaN else Infinity (x < 0)) else f64_round (x / y))"
| "f64_div (Infinity s) (Fin y) = Infinity (s \<noteq> (y < 0))"
| "f64_div (Fin x) (Infinity t) = Fin 0"
| "f64_div _ _ = NaN"

fun f64_lt :: "f64 \<Rightarrow> f64 \<Rightarrow> bool" where
  "f64_lt (Fin x) (Fin y) \<longleftrightarrow> x < y"
| "f64_lt (Infinity s) (Infinity t) \<longleftrightarrow> s \<and> \<not> t"
| "f64_lt (Infinity s) (Fin y) \<longleftrightarrow> s"
| "f64_lt (Fin x) (Infinity t) \<longleftrightarrow> \<not> t"
| "f64_lt _ _ \<longleftrightarrow> False"

definition f64_le :: "f64 \<Rightarrow> f64 \<Rightarrow> bool" where
  "f64_le x y \<longleftrightarrow> f64_lt x y \<or> (x = y \<and> x \<noteq> NaN)"

definition f64_clamp :: "f64 \<Rightarrow> f64 \<Rightarrow> f64 \<Rightarrow> f64" where
  "f64_clamp lo hi x = (if f64_lt x lo then lo else if f64_lt hi x then hi else x)"

text \<open>\<open>as usize\<close> and \<open>as u64\<close>: towards zero, and saturating.\<close>

fun f64_to_nat :: "f64 \<Rightarrow> nat" where
  "f64_to_nat NaN = 0"
| "f64_to_nat (Infinity s) = (if s then 0 else 2 ^ 64 - 1)"
| "f64_to_nat (Fin x) = nat (min \<lfloor>x\<rfloor> (2 ^ 64 - 1))"

lemma f64_nan [simp]: "\<not> f64_lt NaN x" "\<not> f64_lt x NaN" "\<not> f64_le NaN x" "\<not> f64_le x NaN"
  by (cases x; simp add: f64_le_def)+

lemma f64_clamp_between: "x \<noteq> NaN \<Longrightarrow> f64_le lo hi \<Longrightarrow> f64_le lo (f64_clamp lo hi x) \<and> f64_le (f64_clamp lo hi x) hi"
  by (cases x; cases lo; cases hi) (auto simp: f64_clamp_def f64_le_def split: if_splits)

lemma f64_to_nat_bound: "f64_to_nat x < 2 ^ 64"
  by (cases x) auto

lemma f64_round_zero [simp]: "f64_round 0 = Fin 0"
  by (simp add: f64_round_def)

lemma f64_round_not_nan [simp]: "f64_round x \<noteq> NaN"
  by (simp add: f64_round_def Let_def)

text \<open>\<open>Duration::as_secs_f64\<close> of a number of nanoseconds.\<close>

definition as_secs_f64 :: "nat \<Rightarrow> f64" where
  "as_secs_f64 d =
     f64_add (f64_of_nat (d div 1000000000)) (f64_div (f64_of_nat (d mod 1000000000)) (f64_of_nat 1000000000))"


lemma pow2_pos [simp]: "0 < pow2 e" "pow2 e \<noteq> 0"
  by (simp_all add: pow2_def)

end
