(* ===== verification/Config.thy ===== *)
theory Config
  imports Float64 Compaction Wal_Files
begin

text \<open>
  The configuration of the engine, \<open>crates/f4kvs-lsm/src/core/config.rs\<close>: its records with their defaults, the
  presets of durability, and \<open>validate\<close>.  A duration is a number of nanoseconds.
\<close>

abbreviation millis :: "nat \<Rightarrow> nat" where "millis n \<equiv> n * 1000000"
abbreviation secs :: "nat \<Rightarrow> nat" where "secs n \<equiv> n * 1000000000"

datatype compaction_priority = ReadOptimized | WriteOptimized | Balanced | SpaceOptimized
datatype wal_engine = SegmentWal | FrameWal | IndexedWal
datatype wal_durability = Strict | Amortized | Buffered

record memtable_config =
  mc_max_size :: nat
  mc_max_immutable :: nat
  mc_flush_threshold :: f64
  mc_skip_list :: bool
  mc_concurrent_reads :: bool

definition default_memtable_config :: memtable_config where
  "default_memtable_config = \<lparr>mc_max_size = 64 * 1024 * 1024, mc_max_immutable = 2, mc_flush_threshold = f64_round (4 / 5),
     mc_skip_list = True, mc_concurrent_reads = True\<rparr>"

record sstable_config =
  sc_target_size :: nat
  sc_max_size :: nat
  sc_block_size :: nat
  sc_max_open_files :: nat
  sc_file_retry_attempts :: nat
  sc_retry_delay_ms :: nat
  sc_resilient :: bool
  sc_read_mode :: read_mode
  sc_mincore_ttl_secs :: nat

definition default_sstable_config :: sstable_config where
  "default_sstable_config = \<lparr>sc_target_size = 64 * 1024 * 1024, sc_max_size = 128 * 1024 * 1024, sc_block_size = 4 * 1024,
     sc_max_open_files = 1000, sc_file_retry_attempts = 3, sc_retry_delay_ms = 100, sc_resilient = True,
     sc_read_mode = PositionedRead, sc_mincore_ttl_secs = 60\<rparr>"

record level_config =
  lc_count :: nat
  lc_size_multiplier :: f64
  lc_max_sstables :: nat
  lc_leveled :: bool

definition default_level_config :: level_config where
  "default_level_config = \<lparr>lc_count = 7, lc_size_multiplier = Fin 10, lc_max_sstables = 10, lc_leveled = True\<rparr>"

record compaction_config =
  pc_strategy :: compaction_strategy
  pc_max_concurrent :: nat
  pc_priority :: compaction_priority
  pc_background :: bool
  pc_interval :: nat
  pc_max_time_per_run :: nat

definition default_compaction_config :: compaction_config where
  "default_compaction_config = \<lparr>pc_strategy = Leveled, pc_max_concurrent = 2, pc_priority = Balanced, pc_background = True,
     pc_interval = secs 60, pc_max_time_per_run = secs 30\<rparr>"

record wal_config =
  wc_enabled :: bool
  wc_engine :: wal_engine
  wc_frame_page_size :: nat
  wc_indexed_frame_count :: u32
  wc_dir :: string
  wc_segment_size :: nat
  wc_buffer_size :: nat
  wc_flush_interval :: nat
  wc_sync_mode :: sync_mode
  wc_compression :: bool
  wc_retention_period :: nat
  wc_cleanup_interval :: nat
  wc_retention_after_flush :: nat
  wc_max_segments :: nat
  wc_allow_recovery_failure :: bool
  wc_recovery_timeout :: nat
  wc_group_commit :: bool
  wc_group_max_wait :: nat
  wc_group_max_batch :: nat
  wc_group_wait_durable :: bool
  wc_group_idle_flush :: "nat option"

definition default_wal_config :: wal_config where
  "default_wal_config = \<lparr>wc_enabled = True, wc_engine = SegmentWal, wc_frame_page_size = 4096, wc_indexed_frame_count = 4096,
     wc_dir = ''./f4kvs_lsm_wal'', wc_segment_size = 64 * 1024 * 1024, wc_buffer_size = 1024 * 1024, wc_flush_interval = millis 100,
     wc_sync_mode = SyncFsync, wc_compression = True, wc_retention_period = secs 3600, wc_cleanup_interval = secs 300,
     wc_retention_after_flush = secs 60, wc_max_segments = 10, wc_allow_recovery_failure = False, wc_recovery_timeout = secs 30,
     wc_group_commit = False, wc_group_max_wait = millis 10, wc_group_max_batch = 1000, wc_group_wait_durable = False,
     wc_group_idle_flush = None\<rparr>"

fun apply_durability :: "wal_durability \<Rightarrow> wal_config \<Rightarrow> wal_config" where
  "apply_durability Strict w = w\<lparr>wc_group_commit := False, wc_group_idle_flush := None\<rparr>"
| "apply_durability Amortized w = w\<lparr>wc_group_commit := True, wc_sync_mode := SyncFsyncAsync\<rparr>"
| "apply_durability Buffered w =
     w\<lparr>wc_group_commit := False, wc_group_idle_flush := None, wc_sync_mode := SyncFlush\<rparr>"

record bloom_config =
  bc_enabled :: bool
  bc_false_positive_rate :: f64
  bc_bits_per_key :: nat
  bc_cache :: bool

definition default_bloom_config :: bloom_config where
  "default_bloom_config = \<lparr>bc_enabled = True, bc_false_positive_rate = f64_round (1 / 100), bc_bits_per_key = 10, bc_cache = True\<rparr>"

record cf_config =
  fc_default_name :: string
  fc_isolation :: bool
  fc_max_count :: nat

definition default_cf_config :: cf_config where
  "default_cf_config = \<lparr>fc_default_name = ''default'', fc_isolation = True, fc_max_count = 100\<rparr>"

record performance_config =
  rc_read_ahead :: bool
  rc_read_ahead_size :: nat
  rc_write_buffering :: bool
  rc_write_buffer_size :: nat
  rc_parallel_reads :: bool
  rc_max_parallel_reads :: nat
  rc_max_batch_size :: nat
  rc_block_cache_size :: nat

definition default_performance_config :: performance_config where
  "default_performance_config = \<lparr>rc_read_ahead = True, rc_read_ahead_size = 64 * 1024, rc_write_buffering = True,
     rc_write_buffer_size = 1024 * 1024, rc_parallel_reads = True, rc_max_parallel_reads = 4, rc_max_batch_size = 10000,
     rc_block_cache_size = 256 * 1024 * 1024\<rparr>"

record adaptive_config =
  ac_scheduling :: bool
  ac_window :: nat
  ac_write_amp_threshold :: f64
  ac_read_threshold :: nat
  ac_resource_threshold :: f64
  ac_classification :: bool
  ac_resource_aware :: bool
  ac_sensitivity :: f64

record lsm_config =
  cf_data_dir :: string
  cf_memtable :: memtable_config
  cf_sstable :: sstable_config
  cf_levels :: level_config
  cf_compaction :: compaction_config
  cf_wal :: wal_config
  cf_bloom :: bloom_config
  cf_families :: cf_config
  cf_performance :: performance_config
  cf_adaptive :: "adaptive_config option"

definition default_lsm_config :: lsm_config where
  "default_lsm_config = \<lparr>cf_data_dir = ''./f4kvs_lsm_data'', cf_memtable = default_memtable_config,
     cf_sstable = default_sstable_config, cf_levels = default_level_config, cf_compaction = default_compaction_config,
     cf_wal = default_wal_config, cf_bloom = default_bloom_config, cf_families = default_cf_config,
     cf_performance = default_performance_config, cf_adaptive = None\<rparr>"

subsection \<open>Validation\<close>

definition check :: "bool \<Rightarrow> string \<Rightarrow> string list" where
  "check bad msg = (if bad then [msg] else [])"

definition memtable_errors :: "memtable_config \<Rightarrow> string list" where
  "memtable_errors c =
     check (mc_max_size c = 0) ''memtable.max_size must be greater than 0''
     @ check (mc_max_size c < 1024) ''memtable.max_size should be at least 1KB''
     @ check (mc_max_immutable c = 0) ''memtable.max_immutable_count must be greater than 0''
     @ check (100 < mc_max_immutable c) ''memtable.max_immutable_count should not exceed 100''
     @ check (f64_le (mc_flush_threshold c) (Fin 0) \<or> f64_lt (Fin 1) (mc_flush_threshold c))
         ''memtable.flush_threshold must be between 0.0 and 1.0''"

definition sstable_errors :: "sstable_config \<Rightarrow> string list" where
  "sstable_errors c =
     check (sc_target_size c = 0) ''sstable.target_size must be greater than 0''
     @ check (sc_target_size c < 1024) ''sstable.target_size should be at least 1KB''
     @ check (sc_max_size c < sc_target_size c) ''sstable.max_size must be >= sstable.target_size''
     @ check (sc_block_size c = 0) ''sstable.block_size must be greater than 0''
     @ check (sc_block_size c < 512) ''sstable.block_size should be at least 512 bytes''"

definition level_errors :: "level_config \<Rightarrow> string list" where
  "level_errors c =
     check (lc_count c = 0) ''levels.count must be greater than 0''
     @ check (20 < lc_count c) ''levels.count should not exceed 20''
     @ check (f64_le (lc_size_multiplier c) (Fin 1)) ''levels.size_multiplier must be greater than 1.0''"

definition compaction_errors :: "compaction_config \<Rightarrow> string list" where
  "compaction_errors c =
     check (pc_max_concurrent c = 0) ''compaction.max_concurrent must be greater than 0''
     @ check (10 < pc_max_concurrent c) ''compaction.max_concurrent should not exceed 10''"

definition wal_errors :: "wal_config \<Rightarrow> string list" where
  "wal_errors c =
     (if wc_enabled c then
        check (wc_segment_size c = 0) ''wal.segment_size must be greater than 0 when WAL is enabled''
        @ check (wc_segment_size c < 1024) ''wal.segment_size should be at least 1KB''
        @ check (wc_buffer_size c = 0) ''wal.buffer_size must be greater than 0 when WAL is enabled''
        @ check (wc_group_commit c \<and> wc_group_max_batch c = 0)
            ''wal.group_commit_max_batch_size must be greater than 0 when group commit is enabled''
        @ check (wc_group_commit c \<and> wc_group_max_wait c = 0)
            ''wal.group_commit_max_wait must be greater than 0 when group commit is enabled''
      else [])"

definition bloom_errors :: "bloom_config \<Rightarrow> string list" where
  "bloom_errors c =
     (if bc_enabled c then
        check (bc_bits_per_key c = 0) ''bloom_filter.bits_per_key must be greater than 0 when bloom filter is enabled''
        @ check (100 < bc_bits_per_key c) ''bloom_filter.bits_per_key should not exceed 100''
      else [])"

definition performance_errors :: "performance_config \<Rightarrow> string list" where
  "performance_errors c =
     (if rc_max_parallel_reads c = 0 then [''performance.max_parallel_reads must be greater than 0'']
      else check (rc_parallel_reads c \<and> 100 < rc_max_parallel_reads c) ''performance.max_parallel_reads should not exceed 100'')"

definition config_errors :: "lsm_config \<Rightarrow> string list" where
  "config_errors c =
     check (cf_data_dir c = '''') ''data_dir cannot be empty'' @ memtable_errors (cf_memtable c) @ sstable_errors (cf_sstable c)
     @ level_errors (cf_levels c) @ compaction_errors (cf_compaction c) @ wal_errors (cf_wal c) @ bloom_errors (cf_bloom c)
     @ performance_errors (cf_performance c)"

definition validate :: "lsm_config \<Rightarrow> string list + unit" where
  "validate c = (let es = config_errors c in if es = [] then Inr () else Inl es)"

fun joined :: "string \<Rightarrow> string list \<Rightarrow> string" where
  "joined sep [] = ''''"
| "joined sep [s] = s"
| "joined sep (s # ss) = s @ sep @ joined sep ss"

definition validate_simple :: "lsm_config \<Rightarrow> string + unit" where
  "validate_simple c = (case validate c of Inr _ \<Rightarrow> Inr ()
     | Inl es \<Rightarrow> Inl (''Configuration validation failed:'' @ [CHR 0x0A] @ joined [CHR 0x0A] es))"

subsection \<open>What a valid configuration is\<close>

lemma check_empty [simp]: "check b s = [] \<longleftrightarrow> \<not> b"
  by (simp add: check_def)

lemma validate_ok: "validate c = Inr () \<longleftrightarrow> config_errors c = []"
  by (simp add: validate_def Let_def)

lemma valid_parts:
  assumes "validate c = Inr ()"
  shows "1024 \<le> mc_max_size (cf_memtable c)" "1 \<le> mc_max_immutable (cf_memtable c)" "mc_max_immutable (cf_memtable c) \<le> 100"
    "1024 \<le> sc_target_size (cf_sstable c)" "sc_target_size (cf_sstable c) \<le> sc_max_size (cf_sstable c)"
    "512 \<le> sc_block_size (cf_sstable c)" "1 \<le> lc_count (cf_levels c)" "lc_count (cf_levels c) \<le> 20"
    "wc_enabled (cf_wal c) \<Longrightarrow> 1024 \<le> wc_segment_size (cf_wal c)"
    "wc_enabled (cf_wal c) \<Longrightarrow> wc_group_commit (cf_wal c) \<Longrightarrow> 0 < wc_group_max_batch (cf_wal c) \<and> 0 < wc_group_max_wait (cf_wal c)"
    "bc_enabled (cf_bloom c) \<Longrightarrow> 1 \<le> bc_bits_per_key (cf_bloom c) \<and> bc_bits_per_key (cf_bloom c) \<le> 100"
  using assms
  by (auto simp: validate_ok config_errors_def memtable_errors_def sstable_errors_def level_errors_def wal_errors_def bloom_errors_def)

text \<open>The defaults are valid.  Two of the presets keep a configuration valid; the third turns group commit on, and
  needs its limits to be set.\<close>

lemma default_valid: "validate default_lsm_config = Inr ()"
proof -
  have "f64_round (4 / 5) = Fin (3602879701896397 / 4503599627370496)" by code_simp
  then show ?thesis
    by (simp add: validate_ok config_errors_def default_lsm_config_def memtable_errors_def default_memtable_config_def f64_le_def
        sstable_errors_def default_sstable_config_def level_errors_def default_level_config_def compaction_errors_def
        default_compaction_config_def wal_errors_def default_wal_config_def bloom_errors_def default_bloom_config_def
        performance_errors_def default_performance_config_def)
qed

lemma durability_valid:
  assumes "validate c = Inr ()"
    and "p = Amortized \<Longrightarrow> wc_enabled (cf_wal c) \<Longrightarrow> 0 < wc_group_max_batch (cf_wal c) \<and> 0 < wc_group_max_wait (cf_wal c)"
  shows "validate (c\<lparr>cf_wal := apply_durability p (cf_wal c)\<rparr>) = Inr ()"
  using assms by (cases p) (auto simp: validate_ok config_errors_def wal_errors_def)

text \<open>Every comparison with a \<open>NaN\<close> is false, and the tests look for the bad values: a \<open>NaN\<close> passes.\<close>

lemma nan_passes:
  "validate (default_lsm_config\<lparr>cf_memtable := default_memtable_config\<lparr>mc_flush_threshold := NaN\<rparr>,
     cf_levels := default_level_config\<lparr>lc_size_multiplier := NaN\<rparr>\<rparr>) = Inr ()"
  using default_valid
  by (auto simp: validate_ok config_errors_def default_lsm_config_def memtable_errors_def level_errors_def
      default_memtable_config_def default_level_config_def)

end
