(* ===== verification/Wal_Frame_Correct.thy ===== *)
theory Wal_Frame_Correct
  imports Wal_Frame Wal_Durability
begin

text \<open>
  The frame log keeps what it is told when every write is synced: \<open>frame_holds F m L\<close> relates the directory to the
  entries of its segments, such that reading a segment gives its entries after any loss of what was not
  synced.  A new segment is not synced before its first entry, so a crash can leave a part of its header.  The
  locale \<open>wal_log\<close> is interpreted on the frame log under a loss of power.
\<close>

definition fenv_ok :: "'n fenv \<Rightarrow> bool" where
  "fenv_ok F \<longleftrightarrow> 0 < fe_hsize F \<and> fe_sync F = SyncFsync
     \<and> (\<forall>h. fh_magic h = frame_magic \<longrightarrow> length (fe_hser F h) = fe_hsize F \<and> fe_hde F (fe_hser F h) = Some h)"

abbreviation fkeeps :: "'n fenv \<Rightarrow> 'n wal_entry \<Rightarrow> bool" where
  "fkeeps F \<equiv> storable (fe_ser F) (fe_de F) (fe_max F)"

definition frame_header_ok :: "'n fenv \<Rightarrow> bytes \<Rightarrow> bool" where
  "frame_header_ok F h \<longleftrightarrow> length h = fe_hsize F \<and> (\<exists>hd. fe_hde F h = Some hd \<and> fh_magic hd = frame_magic)"

definition frame_bytes :: "'n fenv \<Rightarrow> bytes \<Rightarrow> 'n wal_entry list res" where
  "frame_bytes F d =
     (if length d < fe_hsize F then Inl (Io UnexpectedEof ''early eof'')
      else case fe_hde F (take (fe_hsize F) d) of
          None \<Rightarrow> Inl (Serialization ''Failed to deserialize header'')
        | Some h \<Rightarrow> if fh_magic h \<noteq> frame_magic then Inl (Corruption ''Invalid frame WAL magic'')
            else frame_read_loop F (drop (fe_hsize F) d))"

lemma frame_read_bytes: "map_of (f_dir fs) n = Some i \<Longrightarrow> fm_read_segment F fs n = frame_bytes F (f_data fs i)"
  by (auto simp: fm_read_segment_def fg_open_for_reading_def fg_read_entries_def frame_bytes_def f_len_def split: option.split)

lemma frame_loop_short: "length bs < 4 \<Longrightarrow> frame_read_loop F bs = Inr []"
  by (subst frame_read_loop.simps) simp

lemma frame_loop_body: "\<forall>e \<in> set es. fkeeps F e \<Longrightarrow> frame_read_loop F (body (fe_ser F) es) = Inr es"
  by (induction es) (simp_all add: frame_loop_short frame_loop_frame [of F "fe_max F"])

text \<open>A segment without entries may also be unreadable.\<close>

definition part_reads :: "'n fenv \<Rightarrow> bytes \<Rightarrow> 'n wal_entry list \<Rightarrow> bool" where
  "part_reads F d es \<longleftrightarrow> frame_bytes F d = Inr es \<or> es = [] \<and> (\<exists>err. frame_bytes F d = Inl err)"

definition part_safe :: "'n fenv \<Rightarrow> fsys \<Rightarrow> 'n part \<Rightarrow> bool" where
  "part_safe F fs p \<longleftrightarrow> pt_ino p < f_next fs
     \<and> (\<forall>j \<ge> f_synced fs (pt_ino p). part_reads F (take j (f_data fs (pt_ino p))) (pt_es p))"

definition frame_open :: "'n fenv \<Rightarrow> fsys \<Rightarrow> frame_segment \<Rightarrow> 'n part \<Rightarrow> bool" where
  "frame_open F fs g p \<longleftrightarrow> fg_ino g = pt_ino p \<and> fh_magic (fg_header g) = frame_magic \<and> (\<forall>e \<in> set (pt_es p). fkeeps F e)
     \<and> (\<exists>h. frame_header_ok F h \<and> f_data fs (pt_ino p) = h @ body (fe_ser F) (pt_es p))
     \<and> (pt_es p = [] \<or> f_synced fs (pt_ino p) = f_len fs (pt_ino p))"

lemma frame_open_safe: "frame_open F fs g p \<Longrightarrow> pt_ino p < f_next fs \<Longrightarrow> part_safe F fs p"
  by (fastforce simp: part_safe_def part_reads_def frame_open_def frame_bytes_def frame_header_ok_def f_len_def
      frame_loop_short frame_loop_body min_def)

definition frame_files_ok :: "'n fenv \<Rightarrow> fsys \<Rightarrow> nat \<Rightarrow> 'n part list \<Rightarrow> bool" where
  "frame_files_ok F fs K L \<longleftrightarrow> f_dir fs = map (\<lambda>p. (log_name frame_prefix (pt_id p), pt_ino p)) L
     \<and> sorted_wrt (<) (map pt_id L) \<and> distinct (map pt_ino L)
     \<and> (\<forall>p \<in> set L. pt_id p < K \<and> part_safe F fs p) \<and> K < 2 ^ 64"

definition frame_holds :: "'n fenv \<Rightarrow> 'n frame_mgr \<Rightarrow> 'n part list \<Rightarrow> bool" where
  "frame_holds F m L \<longleftrightarrow> frame_files_ok F (fm_fs m) (fm_counter m) L
     \<and> (case fm_cur m of None \<Rightarrow> True | Some g \<Rightarrow> L \<noteq> [] \<and> frame_open F (fm_fs m) g (last L))"

lemma frame_holds_frame [simp]: "frame_holds F (m\<lparr>fm_segs := x\<rparr>) L = frame_holds F m L"
  "frame_holds F (m\<lparr>fm_pending := y\<rparr>) L = frame_holds F m L"
  by (simp_all add: frame_holds_def split: option.split)

subsection \<open>The open segment\<close>

text \<open>Changing only the file of the open segment keeps the others.\<close>

lemma frame_holds_open:
  assumes m: "frame_holds F m L" "fm_cur m = Some g"
    and fs: "f_dir fs' = f_dir (fm_fs m)" "f_next fs' = f_next (fm_fs m)"
      "\<And>i. i \<noteq> fg_ino g \<Longrightarrow> f_data fs' i = f_data (fm_fs m) i \<and> f_synced fs' i = f_synced (fm_fs m) i"
    and g': "frame_open F fs' g' (last L\<lparr>pt_es := es\<rparr>)"
  shows "frame_holds F (m\<lparr>fm_fs := fs', fm_cur := Some g'\<rparr>) (butlast L @ [last L\<lparr>pt_es := es\<rparr>])"
proof -
  have L: "L \<noteq> []" and gi: "fg_ino g = pt_ino (last L)"
    using m by (auto simp: frame_holds_def frame_open_def)
  define L0 x where "L0 = butlast L" and "x = last L"
  have Lx: "L = L0 @ [x]" using L by (simp add: L0_def x_def)
  have "pt_ino x < f_next fs'" using m(1) fs(2) by (simp add: frame_holds_def frame_files_ok_def part_safe_def Lx)
  then have x': "part_safe F fs' (x\<lparr>pt_es := es\<rparr>)" using frame_open_safe [OF g'] by (simp add: x_def)
  have "part_safe F fs' p \<longleftrightarrow> part_safe F (fm_fs m) p" if "p \<in> set L0" for p
    using fs(2,3) that last_inode [of L p] m(1) Lx gi by (auto simp: part_safe_def frame_holds_def frame_files_ok_def)
  then show ?thesis
    using m x' g' fs(1) unfolding Lx by (auto simp: frame_holds_def frame_files_ok_def)
qed

lemma frame_header_good: "fenv_ok F \<Longrightarrow> fh_magic h = frame_magic \<Longrightarrow> frame_header_ok F (fe_hser F h)"
  by (simp add: fenv_ok_def frame_header_ok_def)

text \<open>Writing entries at the end, or none, and the header over the old one, and syncing.\<close>

lemma frame_synced:
  assumes "frame_open F fs g p" and "frame_header_ok F h'" and "\<forall>e \<in> set es. fkeeps F e"
    and "f_data fs' = (f_data fs)(fg_ino g := h' @ body (fe_ser F) (pt_es p @ es))"
    and "f_synced fs' = (f_synced fs)(fg_ino g := f_len fs' (fg_ino g))" and "fg_ino g' = fg_ino g"
    and "fh_magic (fg_header g') = frame_magic"
  shows "frame_open F fs' g' (p\<lparr>pt_es := pt_es p @ es\<rparr>)"
  using assms by (auto simp: frame_open_def)

lemma frame_header_over:
  assumes "fenv_ok F" and "fh_magic (fg_header g) = frame_magic" and "frame_header_ok F h" and "f_data fs (fg_ino g) = h @ b"
  shows "fg_write_header F g fs = (Inr (), fs\<lparr>f_data := (f_data fs)(fg_ino g := fe_hser F (fg_header g) @ b)\<rparr>)"
proof -
  have "length (fe_hser F (fg_header g)) = fe_hsize F" "length h = fe_hsize F"
    using assms by (simp_all add: fenv_ok_def frame_header_ok_def)
  with assms(4) show ?thesis unfolding fg_write_header_def by (subst f_write_over) (simp_all add: f_len_def)
qed

lemma frame_sync_after:
  "fenv_ok F \<Longrightarrow> fg_sync_after_flush F g fs = (g\<lparr>fg_synced := f_len fs (fg_ino g)\<rparr>, f_sync (fg_ino g) fs)"
  by (simp add: fg_sync_after_flush_def fenv_ok_def)

lemma frame_close_ok:
  assumes F: "fenv_ok F" and m: "frame_holds F m L" and g: "fm_cur m = Some g"
  shows "\<exists>fs. fg_close F g (fm_fs m) = (Inr (), fs) \<and> frame_holds F (m\<lparr>fm_cur := None, fm_fs := fs\<rparr>) L
    \<and> f_space fs = f_space (fm_fs m) \<and> f_dir fs = f_dir (fm_fs m)"
proof -
  have o: "frame_open F (fm_fs m) g (last L)" and L: "L \<noteq> []" using m g by (auto simp: frame_holds_def)
  then obtain h where h: "frame_header_ok F h" "f_data (fm_fs m) (fg_ino g) = h @ body (fe_ser F) (pt_es (last L))"
    and mg: "fh_magic (fg_header g) = frame_magic" by (auto simp: frame_open_def)
  define fs1 where "fs1 = (fm_fs m)\<lparr>f_data := (f_data (fm_fs m))(fg_ino g := fe_hser F (fg_header g) @ body (fe_ser F) (pt_es (last L)))\<rparr>"
  have c: "fg_close F g (fm_fs m) = (Inr (), f_sync (fg_ino g) fs1)"
    by (simp add: fg_close_def frame_header_over [OF F mg h] fs1_def)
  have f: "f_dir (f_sync (fg_ino g) fs1) = f_dir (fm_fs m)" "f_next (f_sync (fg_ino g) fs1) = f_next (fm_fs m)"
    "f_space (f_sync (fg_ino g) fs1) = f_space (fm_fs m)"
    by (simp_all add: f_sync_def fs1_def)
  have "frame_open F (f_sync (fg_ino g) fs1) g (last L\<lparr>pt_es := pt_es (last L) @ []\<rparr>)"
    by (rule frame_synced [OF o frame_header_good [OF F mg]]) (simp_all add: f_sync_def fs1_def f_len_def mg)
  from frame_holds_open [OF m g f(1,2) _ this]
  have "frame_holds F (m\<lparr>fm_fs := f_sync (fg_ino g) fs1, fm_cur := Some g\<rparr>) L"
    using L by (simp add: f_sync_def fs1_def)
  then have "frame_holds F (m\<lparr>fm_cur := None, fm_fs := f_sync (fg_ino g) fs1\<rparr>) L" by (simp add: frame_holds_def)
  with c f show ?thesis by blast
qed

lemma frame_fresh_name: "frame_holds F m L \<Longrightarrow> map_of (f_dir (fm_fs m)) (log_name frame_prefix (fm_counter m)) = None"
  by (auto simp: frame_holds_def frame_files_ok_def map_of_eq_None_iff log_name_inj)

lemma frame_new_ok:
  assumes F: "fenv_ok F" and m: "frame_holds F m L" and g: "fm_cur m = None"
    and sp: "fe_hsize F \<le> f_space (fm_fs m)" and c: "fm_counter m + 1 < 2 ^ 64"
  shows "\<exists>g fs. fg_new F now (log_name frame_prefix (fm_counter m)) (fm_fs m) = (Inr g, fs)
    \<and> frame_holds F (m\<lparr>fm_fs := fs, fm_cur := Some g, fm_counter := fm_counter m + 1\<rparr>)
        (L @ [\<lparr>pt_id = fm_counter m, pt_ino = f_next (fm_fs m), pt_es = []\<rparr>])
    \<and> f_space fs = f_space (fm_fs m) - fe_hsize F \<and> f_len fs (fg_ino g) = fe_hsize F"
proof -
  let ?fs = "fm_fs m" let ?n = "log_name frame_prefix (fm_counter m)" let ?i = "f_next (fm_fs m)"
  let ?p = "\<lparr>pt_id = fm_counter m, pt_ino = ?i, pt_es = []\<rparr>"
  define h where "h = fe_hser F (fg_new_header F now)"
  have h: "length h = fe_hsize F" "frame_header_ok F h"
    using F frame_header_good [OF F, of "fg_new_header F now"] by (simp_all add: fenv_ok_def h_def fg_new_header_def)
  define g' where "g' = \<lparr>fg_name = ?n, fg_ino = ?i, fg_header = fg_new_header F now, fg_count = 0, fg_synced = length h\<rparr>"
  define fs where "fs = ?fs\<lparr>f_dir := f_dir ?fs @ [(?n, ?i)], f_data := (f_data ?fs)(?i := h),
     f_synced := (f_synced ?fs)(?i := 0), f_created := (f_created ?fs)(?i := now), f_next := Suc ?i,
     f_space := f_space ?fs - length h\<rparr>"
  have new: "fg_new F now ?n ?fs = (Inr g', fs)"
    using frame_fresh_name [OF m] h sp
    by (simp add: fg_new_def f_create_def Let_def fg_write_header_def f_write_def g'_def h_def [symmetric] fs_def f_len_def)
  have open': "frame_open F fs g' ?p"
    using h by (auto simp: frame_open_def g'_def fs_def fg_new_header_def)
  then have p: "part_safe F fs ?p" by (rule frame_open_safe) (simp add: fs_def)
  have old: "part_safe F fs p" "pt_ino p \<noteq> ?i" if "p \<in> set L" for p
    using m that by (auto simp: frame_holds_def frame_files_ok_def part_safe_def fs_def)
  have "?i \<notin> pt_ino ` set L" using old(2) by (metis imageE)
  moreover have "f_dir fs = f_dir ?fs @ [(?n, ?i)]" by (simp add: fs_def)
  ultimately have "frame_holds F (m\<lparr>fm_fs := fs, fm_cur := Some g', fm_counter := fm_counter m + 1\<rparr>) (L @ [?p])"
    using m c p old open' by (auto simp: frame_holds_def frame_files_ok_def sorted_wrt_append less_Suc_eq)
  with new h(1) show ?thesis by (auto simp: fs_def f_len_def g'_def)
qed

lemma frame_rotate_ok:
  assumes F: "fenv_ok F" and m: "frame_holds F m L"
    and sp: "fe_hsize F \<le> f_space (fm_fs m)" and c: "fm_counter m + 1 < 2 ^ 64"
  shows "\<exists>m' g i. fm_rotate_segment F now m = (Inr (), m')
    \<and> frame_holds F m' (L @ [\<lparr>pt_id = fm_counter m, pt_ino = i, pt_es = []\<rparr>])
    \<and> fm_cur m' = Some g \<and> f_len (fm_fs m') (fg_ino g) = fe_hsize F
    \<and> f_space (fm_fs m') = f_space (fm_fs m) - fe_hsize F \<and> fm_counter m' = fm_counter m + 1
    \<and> fm_pending m' = fm_pending m"
proof (cases "fm_cur m")
  case None
  from frame_new_ok [OF F m None sp c, of now] None show ?thesis
    by (fastforce simp: fm_rotate_segment_def)
next
  case (Some g)
  from frame_close_ok [OF F m Some] obtain fs where fs: "fg_close F g (fm_fs m) = (Inr (), fs)"
    "frame_holds F (m\<lparr>fm_cur := None, fm_fs := fs\<rparr>) L" "f_space fs = f_space (fm_fs m)" by blast
  define m1 where "m1 = m\<lparr>fm_cur := None, fm_fs := fs, fm_segs :=
     filter (\<lambda>(i, _). i \<noteq> fm_counter m) (fm_segs m) @ [(fm_counter m, fg_name g)]\<rparr>"
  have m1: "frame_holds F m1 L" "fm_cur m1 = None" "fe_hsize F \<le> f_space (fm_fs m1)" "fm_counter m1 + 1 < 2 ^ 64"
    using fs(2) sp c by (simp_all add: m1_def fs(3))
  have "fm_rotate_segment F now m = and_then (lift_ffs m1 (fg_new F now (log_name frame_prefix (fm_counter m1)) (fm_fs m1)))
      (\<lambda>g m. (Inr (), m\<lparr>fm_cur := Some g, fm_counter := fm_counter m + 1\<rparr>))"
    by (simp add: fm_rotate_segment_def Some fs(1) m1_def)
  with frame_new_ok [OF F m1, of now] show ?thesis
    by (fastforce simp: m1_def fs(3))
qed

subsection \<open>Writing\<close>

definition fser_len :: "'n fenv \<Rightarrow> 'n wal_entry \<Rightarrow> nat" where
  "fser_len F e = length (the (fe_ser F e))"

definition frame_fits :: "'n fenv \<Rightarrow> 'n wal_entry \<Rightarrow> bool" where
  "frame_fits F e \<longleftrightarrow> fkeeps F e \<and> fe_hsize F + fser_len F e + 4 \<le> fe_max F"

lemma frame_append_ok:
  assumes F: "fenv_ok F" and m: "frame_holds F m L" and g: "fm_cur m = Some g" and e: "fkeeps F e"
    and room: "f_len (fm_fs m) (fg_ino g) + fser_len F e + 4 \<le> fe_max F" and sp: "fser_len F e + 4 \<le> f_space (fm_fs m)"
  shows "\<exists>g' fs. fg_write_entry F e g (fm_fs m) = (Inr (True, g'), fs)
    \<and> frame_holds F (m\<lparr>fm_fs := fs, fm_cur := Some g'\<rparr>) (butlast L @ [last L\<lparr>pt_es := pt_es (last L) @ [e]\<rparr>])
    \<and> f_space fs = f_space (fm_fs m) - (fser_len F e + 4)"
proof -
  let ?fs = "fm_fs m" and ?i = "fg_ino g"
  obtain b where b: "fe_ser F e = Some b" "fser_len F e = length b" using e by (auto simp: storable_def fser_len_def)
  have o: "frame_open F ?fs g (last L)" using m g by (auto simp: frame_holds_def)
  then obtain h where h: "frame_header_ok F h" "f_data ?fs ?i = h @ body (fe_ser F) (pt_es (last L))"
    and mg: "fh_magic (fg_header g) = frame_magic" by (auto simp: frame_open_def)
  define fs1 where "fs1 = ?fs\<lparr>f_data := (f_data ?fs)(?i := f_data ?fs ?i @ log_frame b), f_space := f_space ?fs - (length b + 4)\<rparr>"
  define g' where "g' = g\<lparr>fg_count := fg_count g + 1, fg_header := (fg_header g)\<lparr>fh_count := fg_count g + 1\<rparr>,
      fg_synced := f_len fs1 ?i\<rparr>"
  have room': "f_len ?fs ?i + (length b + 4) \<le> fe_max F" "length b + 4 \<le> f_space ?fs" using room sp b by simp_all
  have a1: "f_append ?i (le_bytes 4 (length b)) ?fs = (Inr (), ?fs\<lparr>f_data := (f_data ?fs)(?i := f_data ?fs ?i @ le_bytes 4 (length b)),
      f_space := f_space ?fs - 4\<rparr>)"
    using room'(2) by (subst f_append_ok) simp_all
  have a2: "f_append ?i b (?fs\<lparr>f_data := (f_data ?fs)(?i := f_data ?fs ?i @ le_bytes 4 (length b)), f_space := f_space ?fs - 4\<rparr>)
      = (Inr (), fs1)"
    using room'(2) by (subst f_append_ok) (simp_all add: fs1_def log_frame_def add.commute)
  have w: "fg_write_entry F e g ?fs = (Inr (True, g'), f_sync ?i fs1)"
    using room'(1) by (simp add: fg_write_entry_def b(1) a1 a2 frame_sync_after [OF F] g'_def Let_def del: le_bytes.simps)
  have "frame_open F (f_sync ?i fs1) g' (last L\<lparr>pt_es := pt_es (last L) @ [e]\<rparr>)"
    by (rule frame_synced [OF o h(1)]) (use e h(2) b mg in \<open>simp_all add: fs1_def f_sync_def f_len_def g'_def\<close>)
  from frame_holds_open [OF m g _ _ _ this] w show ?thesis
    by (auto simp: fs1_def f_sync_def b(2))
qed

lemma frame_write_ok:
  assumes F: "fenv_ok F" and m: "frame_holds F m L" and g: "fm_cur m \<noteq> None" and e: "frame_fits F e"
    and sp: "fe_hsize F + fser_len F e + 4 \<le> f_space (fm_fs m)" and c: "fm_counter m + 1 < 2 ^ 64"
  shows "\<exists>m' L'. fm_write_entry F now e m = (Inr (), m') \<and> frame_holds F m' L' \<and> fm_cur m' \<noteq> None
    \<and> logged L' = logged L @ [e] \<and> fm_counter m' \<le> fm_counter m + 1 \<and> fm_pending m' = fm_pending m
    \<and> f_space (fm_fs m) \<le> f_space (fm_fs m') + fe_hsize F + fser_len F e + 4"
proof -
  obtain g where g: "fm_cur m = Some g" using g by auto
  have L: "L \<noteq> []" using m g by (auto simp: frame_holds_def)
  have keeps: "fkeeps F e" using e by (simp add: frame_fits_def)
  show ?thesis
  proof (cases "f_len (fm_fs m) (fg_ino g) + fser_len F e + 4 \<le> fe_max F")
    case True
    have sp': "fser_len F e + 4 \<le> f_space (fm_fs m)" using sp by simp
    from frame_append_ok [OF F m g keeps True sp'] obtain g' fs where w:
      "fg_write_entry F e g (fm_fs m) = (Inr (True, g'), fs)"
      "frame_holds F (m\<lparr>fm_fs := fs, fm_cur := Some g'\<rparr>) (butlast L @ [last L\<lparr>pt_es := pt_es (last L) @ [e]\<rparr>])"
      "f_space fs = f_space (fm_fs m) - (fser_len F e + 4)" by blast
    have "fm_write_entry F now e m = (Inr (), m\<lparr>fm_fs := fs, fm_cur := Some g'\<rparr>)"
      by (simp add: fm_write_entry_def g w(1))
    with w(2,3) logged_append [OF L, of "[e]"] show ?thesis
      by (intro exI conjI) (assumption | simp)+
  next
    case False
    obtain b where b: "fe_ser F e = Some b" "fser_len F e = length b" using keeps by (auto simp: storable_def fser_len_def)
    have no: "fg_write_entry F e g (fm_fs m) = (Inr (False, g), fm_fs m)"
      using False b by (simp add: fg_write_entry_def)
    have "fe_hsize F \<le> f_space (fm_fs m)" using sp by simp
    from frame_rotate_ok [OF F m this c, of now] obtain m1 g1 i where r: "fm_rotate_segment F now m = (Inr (), m1)"
      "frame_holds F m1 (L @ [\<lparr>pt_id = fm_counter m, pt_ino = i, pt_es = []\<rparr>])" "fm_cur m1 = Some g1"
      "f_len (fm_fs m1) (fg_ino g1) = fe_hsize F" "f_space (fm_fs m1) = f_space (fm_fs m) - fe_hsize F"
      "fm_counter m1 = fm_counter m + 1" "fm_pending m1 = fm_pending m" by blast
    have "f_len (fm_fs m1) (fg_ino g1) + fser_len F e + 4 \<le> fe_max F" "fser_len F e + 4 \<le> f_space (fm_fs m1)"
      using e r sp by (auto simp: frame_fits_def)
    from frame_append_ok [OF F r(2,3) keeps this] obtain g' fs where w:
      "fg_write_entry F e g1 (fm_fs m1) = (Inr (True, g'), fs)"
      "frame_holds F (m1\<lparr>fm_fs := fs, fm_cur := Some g'\<rparr>) (L @ [\<lparr>pt_id = fm_counter m, pt_ino = i, pt_es = [e]\<rparr>])"
      "f_space fs = f_space (fm_fs m1) - (fser_len F e + 4)" by auto
    have "m\<lparr>fm_fs := fm_fs m\<rparr> = m" by simp
    then have "fm_write_entry F now e m = (Inr (), m1\<lparr>fm_fs := fs, fm_cur := Some g'\<rparr>)"
      by (simp add: fm_write_entry_def g no r(1,3) w(1))
    moreover have "logged (L @ [\<lparr>pt_id = fm_counter m, pt_ino = i, pt_es = [e]\<rparr>]) = logged L @ [e]"
      by (simp add: logged_def)
    ultimately show ?thesis using w(2,3) r(5-7) by (intro exI conjI) (assumption | simp)+
  qed
qed

lemma frame_header_flush_ok:
  assumes F: "fenv_ok F" and m: "frame_holds F m L" and g: "fm_cur m = Some g"
  shows "\<exists>g' fs. fg_sync_header_and_flush F g (fm_fs m) = (Inr g', fs)
    \<and> frame_holds F (m\<lparr>fm_fs := fs, fm_cur := Some g'\<rparr>) L \<and> f_space fs = f_space (fm_fs m)"
proof -
  let ?fs = "fm_fs m" and ?i = "fg_ino g"
  have o: "frame_open F ?fs g (last L)" and L: "L \<noteq> []" using m g by (auto simp: frame_holds_def)
  then obtain h where h: "frame_header_ok F h" "f_data ?fs ?i = h @ body (fe_ser F) (pt_es (last L))"
    and mg: "fh_magic (fg_header g) = frame_magic" by (auto simp: frame_open_def)
  define fs1 where "fs1 = ?fs\<lparr>f_data := (f_data ?fs)(?i := fe_hser F (fg_header g) @ body (fe_ser F) (pt_es (last L)))\<rparr>"
  define g' where "g' = g\<lparr>fg_synced := f_len fs1 ?i\<rparr>"
  have w: "fg_sync_header_and_flush F g ?fs = (Inr g', f_sync ?i fs1)"
    by (simp add: fg_sync_header_and_flush_def frame_header_over [OF F mg h] fs1_def frame_sync_after [OF F] g'_def)
  have "frame_open F (f_sync ?i fs1) g' (last L\<lparr>pt_es := pt_es (last L) @ []\<rparr>)"
    by (rule frame_synced [OF o frame_header_good [OF F mg]]) (simp_all add: fs1_def f_sync_def f_len_def g'_def mg)
  from frame_holds_open [OF m g _ _ _ this] w L show ?thesis
    by (auto simp: fs1_def f_sync_def)
qed

lemma frame_append_batch_ok:
  assumes F: "fenv_ok F" and m: "frame_holds F m L" and g: "fm_cur m = Some g" and es: "\<forall>e \<in> set es. fkeeps F e"
    and sp: "length (body (fe_ser F) es) \<le> f_space (fm_fs m)"
  shows "\<exists>g' fs. fm_append_batch F (body (fe_ser F) es) (length es) g m = (Inr (), m\<lparr>fm_fs := fs, fm_cur := Some g'\<rparr>)
    \<and> frame_holds F (m\<lparr>fm_fs := fs, fm_cur := Some g'\<rparr>) (butlast L @ [last L\<lparr>pt_es := pt_es (last L) @ es\<rparr>])
    \<and> f_space fs = f_space (fm_fs m) - length (body (fe_ser F) es)"
proof -
  let ?fs = "fm_fs m" and ?i = "fg_ino g" and ?b = "body (fe_ser F) es"
  have o: "frame_open F ?fs g (last L)" using m g by (auto simp: frame_holds_def)
  then obtain h where h: "frame_header_ok F h" "f_data ?fs ?i = h @ body (fe_ser F) (pt_es (last L))"
    and mg: "fh_magic (fg_header g) = frame_magic" by (auto simp: frame_open_def)
  define n where "n = fg_count g + word_of_nat (length es)"
  define g1 where "g1 = g\<lparr>fg_count := n, fg_header := (fg_header g)\<lparr>fh_count := n\<rparr>\<rparr>"
  have mg1: "fh_magic (fg_header g1) = frame_magic" "fg_ino g1 = ?i" by (simp_all add: g1_def mg)
  define fs1 where "fs1 = ?fs\<lparr>f_data := (f_data ?fs)(?i := f_data ?fs ?i @ ?b), f_space := f_space ?fs - length ?b\<rparr>"
  define fs2 where "fs2 = fs1\<lparr>f_data := (f_data fs1)(?i := fe_hser F (fg_header g1) @ body (fe_ser F) (pt_es (last L) @ es))\<rparr>"
  define g2 where "g2 = g1\<lparr>fg_synced := f_len fs2 ?i\<rparr>"
  have a: "f_append ?i ?b ?fs = (Inr (), fs1)" using sp by (simp add: f_append_ok fs1_def)
  have "f_data fs1 (fg_ino g1) = h @ body (fe_ser F) (pt_es (last L) @ es)" by (simp add: fs1_def h(2) mg1(2))
  from frame_header_over [OF F mg1(1) h(1) this] have "fg_write_header F g1 fs1 = (Inr (), fs2)"
    by (simp add: fs2_def mg1(2))
  then have "fg_sync_header_and_flush F g1 fs1 = (Inr g2, f_sync ?i fs2)"
    by (simp add: fg_sync_header_and_flush_def frame_sync_after [OF F] g2_def mg1(2))
  then have run: "fm_append_batch F ?b (length es) g m = (Inr (), m\<lparr>fm_fs := f_sync ?i fs2, fm_cur := Some g2\<rparr>)"
    by (simp add: fm_append_batch_def a n_def [symmetric] g1_def [symmetric] Let_def)
  have "frame_open F (f_sync ?i fs2) g2 (last L\<lparr>pt_es := pt_es (last L) @ es\<rparr>)"
    by (rule frame_synced [OF o frame_header_good [OF F mg1(1)]])
      (use es mg1 in \<open>simp_all add: fs2_def fs1_def f_sync_def f_len_def g2_def\<close>)
  then have "frame_holds F (m\<lparr>fm_fs := f_sync ?i fs2, fm_cur := Some g2\<rparr>) (butlast L @ [last L\<lparr>pt_es := pt_es (last L) @ es\<rparr>])"
    by (rule frame_holds_open [OF m g, rotated 3]) (simp_all add: fs2_def fs1_def f_sync_def)
  moreover have "f_space (f_sync ?i fs2) = f_space ?fs - length ?b" by (simp add: fs2_def fs1_def f_sync_def)
  ultimately show ?thesis using run by blast
qed

lemma frame_rotate_if_ok:
  assumes F: "fenv_ok F" and m: "frame_holds F m L" and g: "fm_cur m \<noteq> None"
    and sp: "fe_hsize F \<le> f_space (fm_fs m)" and c: "fm_counter m + 1 < 2 ^ 64"
  shows "\<exists>m' L'. (if b then fm_rotate_segment F now m else (Inr (), m)) = (Inr (), m') \<and> frame_holds F m' L'
    \<and> logged L' = logged L \<and> fm_cur m' \<noteq> None \<and> fm_pending m' = fm_pending m
    \<and> f_space (fm_fs m) \<le> f_space (fm_fs m') + fe_hsize F \<and> fm_counter m' \<le> fm_counter m + 1"
proof (cases b)
  case True
  with frame_rotate_ok [OF F m sp c, of now] show ?thesis by (fastforce simp: logged_def)
qed (use m g in auto)

lemma frame_batch_ok:
  assumes F: "fenv_ok F" and m: "frame_holds F m L" and g: "fm_cur m \<noteq> None" and es: "\<forall>e \<in> set es. fkeeps F e"
    and sp: "2 * fe_hsize F + length (body (fe_ser F) es) \<le> f_space (fm_fs m)" and c: "fm_counter m + 2 < 2 ^ 64"
  shows "\<exists>m' L'. fm_batch_write_entries F now es m = (Inr (), m') \<and> frame_holds F m' L' \<and> fm_cur m' \<noteq> None
    \<and> logged L' = logged L @ es \<and> fm_pending m' = fm_pending m \<and> fm_counter m' \<le> fm_counter m + 2
    \<and> f_space (fm_fs m) \<le> f_space (fm_fs m') + 2 * fe_hsize F + length (body (fe_ser F) es)"
proof (cases "es = []")
  case True
  with m g show ?thesis by (auto simp: fm_batch_write_entries_def)
next
  case False
  let ?b = "body (fe_ser F) es"
  obtain g where g: "fm_cur m = Some g" using g by auto
  have "fe_hsize F \<le> f_space (fm_fs m)" "fm_counter m + 1 < 2 ^ 64" using sp c by simp_all
  from frame_rotate_if_ok [OF F m _ this, of "fg_should_rotate F g (fm_fs m)" now] g obtain m1 L1 where r1:
    "(if fg_should_rotate F g (fm_fs m) then fm_rotate_segment F now m else (Inr (), m)) = (Inr (), m1)"
    "frame_holds F m1 L1" "logged L1 = logged L" "fm_cur m1 \<noteq> None" "fm_pending m1 = fm_pending m"
    "f_space (fm_fs m) \<le> f_space (fm_fs m1) + fe_hsize F" "fm_counter m1 \<le> fm_counter m + 1" by auto
  obtain g1 where g1: "fm_cur m1 = Some g1" using r1 by auto
  let ?over = "fe_max F < f_len (fm_fs m1) (fg_ino g1) + length ?b"
  have "fe_hsize F \<le> f_space (fm_fs m1)" "fm_counter m1 + 1 < 2 ^ 64" using r1 sp c by simp_all
  from frame_rotate_if_ok [OF F r1(2,4) this, of ?over now]
  obtain m2 L2 where r2: "(if ?over then fm_rotate_segment F now m1 else (Inr (), m1)) = (Inr (), m2)"
    "frame_holds F m2 L2" "logged L2 = logged L1" "fm_cur m2 \<noteq> None" "fm_pending m2 = fm_pending m1"
    "f_space (fm_fs m1) \<le> f_space (fm_fs m2) + fe_hsize F" "fm_counter m2 \<le> fm_counter m1 + 1" by blast
  obtain g2 where g2: "fm_cur m2 = Some g2" using r2 by auto
  have L2: "L2 \<noteq> []" using r2 g2 by (auto simp: frame_holds_def)
  have "length ?b \<le> f_space (fm_fs m2)" using r1 r2 sp by simp
  from frame_append_batch_ok [OF F r2(2) g2 es this] obtain g' fs where a:
    "fm_append_batch F ?b (length es) g2 m2 = (Inr (), m2\<lparr>fm_fs := fs, fm_cur := Some g'\<rparr>)"
    "frame_holds F (m2\<lparr>fm_fs := fs, fm_cur := Some g'\<rparr>) (butlast L2 @ [last L2\<lparr>pt_es := pt_es (last L2) @ es\<rparr>])"
    "f_space fs = f_space (fm_fs m2) - length ?b" by blast
  have fr: "frames (fe_ser F) es = Inr ?b" by (rule frames_body [OF es])
  have "fm_batch_write_entries F now es m = (Inr (), m2\<lparr>fm_fs := fs, fm_cur := Some g'\<rparr>)"
  proof (cases ?over)
    case True
    with False r2(1) g2 a(1) show ?thesis by (simp add: fm_batch_write_entries_def g r1(1) g1 fr)
  next
    case no: False
    then have "m2 = m1" "g2 = g1" using r2(1) g1 g2 by simp_all
    with False no a(1) show ?thesis by (simp add: fm_batch_write_entries_def g r1(1) g1 fr)
  qed
  with a(2,3) logged_append [OF L2, of es] r1 r2 show ?thesis
    by (intro exI conjI) (assumption | simp)+
qed

subsection \<open>Reading, truncating and opening\<close>

lemma frame_names:
  assumes "frame_files_ok F (fm_fs m) K L"
  shows "list_frame_files_on_disk m = map (\<lambda>p. log_name frame_prefix (pt_id p)) L"
    and "frame_files m = map (\<lambda>p. log_name frame_prefix (pt_id p)) L"
    and "List.map_filter (parse_log_id frame_prefix) (list_frame_files_on_disk m) = map pt_id L"
proof -
  have id: "parse_log_id frame_prefix (log_name frame_prefix (pt_id p)) = Some (pt_id p)" if "p \<in> set L" for p
    using assms that by (intro parse_log_id) (auto simp: frame_files_ok_def)
  have dir: "f_dir (fm_fs m) = map (\<lambda>p. (log_name frame_prefix (pt_id p), pt_ino p)) L"
    using assms by (simp add: frame_files_ok_def)
  show l: "list_frame_files_on_disk m = map (\<lambda>p. log_name frame_prefix (pt_id p)) L"
    unfolding list_frame_files_on_disk_def dir by (simp add: comp_def filter_id_conv)
  have ids: "map (\<lambda>f. case parse_log_id frame_prefix f of Some i \<Rightarrow> i | None \<Rightarrow> u64_max) (list_frame_files_on_disk m) = map pt_id L"
    unfolding l using id by (auto simp: comp_def)
  have "sorted (map pt_id L)" using assms by (simp add: frame_files_ok_def strict_sorted_iff)
  then show "frame_files m = map (\<lambda>p. log_name frame_prefix (pt_id p)) L"
    unfolding frame_files_def l [symmetric] by (intro sort_key_id_if_sorted) (simp only: ids)
  show "List.map_filter (parse_log_id frame_prefix) (list_frame_files_on_disk m) = map pt_id L"
    unfolding l using id by (induction L) (simp_all add: List.map_filter_def)
qed

lemma frame_lookup:
  assumes "frame_files_ok F fs K L" and "p \<in> set L"
  shows "map_of (f_dir fs) (log_name frame_prefix (pt_id p)) = Some (pt_ino p)"
proof -
  have ids: "distinct (map pt_id L)" and lt: "\<And>q. q \<in> set L \<Longrightarrow> pt_id q < 2 ^ 64"
    using assms(1) by (auto simp: frame_files_ok_def strict_sorted_iff)
  have "inj_on (log_name frame_prefix) (pt_id ` set L)"
    using lt by (intro inj_onI) (auto simp: log_name_inj)
  then have "distinct (map (\<lambda>p. log_name frame_prefix (pt_id p)) L)"
    using ids by (auto simp: distinct_map intro: inj_on_subset comp_inj_on [unfolded comp_def])
  then show ?thesis
    using assms by (intro map_of_is_SomeI) (auto simp: frame_files_ok_def comp_def)
qed

lemma ok_parts_reads:
  assumes "\<And>p. p \<in> set L \<Longrightarrow> f p = Inr (pt_es p) \<or> pt_es p = [] \<and> (\<exists>err. f p = Inl err)"
  shows "concat (ok_parts (map f L)) = logged L"
  using assms
proof (induction L)
  case (Cons p L)
  have "f p = Inr (pt_es p) \<or> pt_es p = [] \<and> (\<exists>err. f p = Inl err)" using Cons.prems by simp
  moreover have "concat (ok_parts (map f L)) = logged L" using Cons by simp
  ultimately show ?case by (auto simp: ok_parts_def logged_def List.map_filter_simps)
qed (simp add: ok_parts_def logged_def List.map_filter_simps)

text \<open>A power loss leaves the files as they were, up to segments without entries.\<close>

lemma frame_power_loss:
  assumes "frame_files_ok F fs K L"
  shows "frame_files_ok F (power_loss keep fs) K L"
proof -
  have "part_safe F (power_loss keep fs) p" if p: "part_safe F fs p" for p
  proof -
    let ?i = "pt_ino p" let ?n = "max (f_synced fs ?i) (keep ?i)"
    have d: "f_data (power_loss keep fs) ?i = take ?n (f_data fs ?i)"
      "f_synced (power_loss keep fs) ?i = length (take ?n (f_data fs ?i))" "f_next (power_loss keep fs) = f_next fs"
      by (simp_all add: power_loss_def Let_def)
    have "part_reads F (take j (take ?n (f_data fs ?i))) (pt_es p)" if "length (take ?n (f_data fs ?i)) \<le> j" for j
    proof -
      have "take j (take ?n (f_data fs ?i)) = take ?n (f_data fs ?i)" using that by (rule take_all)
      moreover have "part_reads F (take ?n (f_data fs ?i)) (pt_es p)" using p by (simp add: part_safe_def)
      ultimately show ?thesis by simp
    qed
    with p show ?thesis by (simp add: part_safe_def d)
  qed
  with assms show ?thesis by (auto simp: frame_files_ok_def power_loss_def Let_def)
qed

lemma frame_read_ok:
  assumes "frame_files_ok F (fm_fs m) K L" and "\<And>p. p \<in> set L \<Longrightarrow> f_synced (fm_fs m) (pt_ino p) = f_len (fm_fs m) (pt_ino p)"
  shows "fm_read_entries_from_disk F m = Inr (sort_key entry_timestamp (logged L))"
proof -
  have "concat (ok_parts (map (\<lambda>p. frame_bytes F (f_data (fm_fs m) (pt_ino p))) L)) = logged L"
  proof (rule ok_parts_reads)
    fix p assume p: "p \<in> set L"
    then have "part_reads F (take (f_len (fm_fs m) (pt_ino p)) (f_data (fm_fs m) (pt_ino p))) (pt_es p)"
      using assms by (auto simp: frame_files_ok_def part_safe_def)
    then show "frame_bytes F (f_data (fm_fs m) (pt_ino p)) = Inr (pt_es p)
        \<or> pt_es p = [] \<and> (\<exists>err. frame_bytes F (f_data (fm_fs m) (pt_ino p)) = Inl err)"
      by (simp add: part_reads_def f_len_def)
  qed
  moreover have "map (fm_read_segment F (fm_fs m)) (frame_files m) = map (\<lambda>p. frame_bytes F (f_data (fm_fs m) (pt_ino p))) L"
  proof -
    have "fm_read_segment F (fm_fs m) (log_name frame_prefix (pt_id p)) = frame_bytes F (f_data (fm_fs m) (pt_ino p))"
      if "p \<in> set L" for p
      by (rule frame_read_bytes [OF frame_lookup [OF assms(1) that]])
    then show ?thesis by (simp add: frame_names(2) [OF assms(1)])
  qed
  ultimately show ?thesis by (simp only: fm_read_entries_from_disk_def)
qed

lemma frame_truncate_ok:
  assumes F: "fenv_ok F" and m: "frame_holds F m L" and sp: "fe_hsize F \<le> f_space (fm_fs m)" and c: "fm_counter m + 1 < 2 ^ 64"
  shows "\<exists>m' p. fm_truncate_after_flush F now m = (Inr (), m') \<and> frame_holds F m' [p] \<and> pt_es p = []
    \<and> fm_cur m' \<noteq> None \<and> fm_pending m' = fm_pending m \<and> fm_verify_truncated m'
    \<and> f_space (fm_fs m) \<le> f_space (fm_fs m') + fe_hsize F \<and> fm_counter m' = fm_counter m + 1"
proof -
  define m1 where "m1 = (case fm_cur m of None \<Rightarrow> m
      | Some g \<Rightarrow> m\<lparr>fm_cur := None, fm_fs := snd (fg_close F g (fm_fs m))\<rparr>)\<lparr>fm_segs := []\<rparr>"
  have m1: "frame_holds F m1 L" "fm_cur m1 = None" "f_space (fm_fs m1) = f_space (fm_fs m)" "fm_counter m1 = fm_counter m"
    "fm_pending m1 = fm_pending m" "fm_segs m1 = []"
    using frame_close_ok [OF F m] m by (auto simp: m1_def split: option.split)
  have names: "list_frame_files_on_disk m1 = map (\<lambda>p. log_name frame_prefix (pt_id p)) L"
    using m1(1) frame_names(1) by (auto simp: frame_holds_def)
  define m2 where "m2 = m1\<lparr>fm_fs := remove_files (list_frame_files_on_disk m1) (fm_fs m1)\<rparr>"
  have "f_dir (fm_fs m2) = []"
    using names m1(1) by (auto simp: m2_def remove_files_def fold_remove_dir frame_holds_def frame_files_ok_def)
  then have m2: "frame_holds F m2 []" "list_frame_files_on_disk m2 = []" "fm_cur m2 = None" "fm_segs m2 = []"
    "f_space (fm_fs m2) = f_space (fm_fs m)" "fm_counter m2 = fm_counter m" "fm_pending m2 = fm_pending m"
    using m1 c by (simp_all add: frame_holds_def frame_files_ok_def m2_def remove_files_def list_frame_files_on_disk_def)
  have t: "fm_truncate_after_flush F now m = fm_rotate_segment F now m2"
    using m2(2) unfolding fm_truncate_after_flush_def Let_def m1_def [symmetric] m2_def by simp
  have sp2: "fe_hsize F \<le> f_space (fm_fs m2)" and c2: "fm_counter m2 + 1 < 2 ^ 64" using m2 sp c by simp_all
  from frame_new_ok [OF F m2(1,3) sp2 c2, of now] obtain g fs where n:
    "fg_new F now (log_name frame_prefix (fm_counter m2)) (fm_fs m2) = (Inr g, fs)"
    "frame_holds F (m2\<lparr>fm_fs := fs, fm_cur := Some g, fm_counter := fm_counter m2 + 1\<rparr>)
        ([] @ [\<lparr>pt_id = fm_counter m2, pt_ino = f_next (fm_fs m2), pt_es = []\<rparr>])"
    "f_space fs = f_space (fm_fs m2) - fe_hsize F" by blast
  let ?m = "m2\<lparr>fm_fs := fs, fm_cur := Some g, fm_counter := fm_counter m2 + 1\<rparr>"
  have r: "fm_rotate_segment F now m2 = (Inr (), ?m)"
    using n(1) m2(3) by (simp add: fm_rotate_segment_def)
  have "frame_files_ok F (fm_fs ?m) (fm_counter ?m) [\<lparr>pt_id = fm_counter m2, pt_ino = f_next (fm_fs m2), pt_es = []\<rparr>]"
    using n(2) by (simp add: frame_holds_def)
  from frame_names(1) [OF this] have "length (list_frame_files_on_disk ?m) = 1" by simp
  then have "fm_verify_truncated ?m" using m2(4) by (simp add: fm_verify_truncated_def)
  with t r n m2 show ?thesis by (intro exI conjI) (assumption | simp)+
qed

lemma frame_initialize_ok:
  assumes F: "fenv_ok F" and L: "frame_files_ok F fs K L" and sp: "fe_hsize F \<le> f_space fs" and c: "0 < K" "K + 1 < 2 ^ 64"
  shows "\<exists>m' L'. fm_initialize F now (fm_new fs) = (Inr (), m') \<and> frame_holds F m' L' \<and> fm_cur m' \<noteq> None
    \<and> logged L' = logged L \<and> fm_pending m' = [] \<and> f_space fs \<le> f_space (fm_fs m') + fe_hsize F
    \<and> fm_counter m' \<le> K + 1"
proof -
  define m where "m = fm_scan_existing_segments (fm_new fs :: 'a frame_mgr)"
  have fs: "fm_fs m = fs" "fm_cur m = None" "fm_pending m = []" "fm_segs m = []"
    by (simp_all add: m_def fm_scan_existing_segments_def fm_new_def)
  have srt: "sorted_wrt (<) (map pt_id L)" using L by (simp add: frame_files_ok_def)
  have "sorted (map pt_id L)" using srt by (simp add: strict_sorted_iff)
  moreover have "frame_files_ok F (fm_fs (fm_new fs :: 'a frame_mgr)) K L" using L by (simp add: fm_new_def)
  ultimately have cnt: "fm_counter m = (if L = [] then 1 else pt_id (last L) + 1)"
    using fold_max_sorted [of "map pt_id L" 0] frame_names(3) [of F "fm_new fs :: 'a frame_mgr" K L]
    by (simp add: m_def fm_scan_existing_segments_def last_map)
  have below: "pt_id p < fm_counter m" if "p \<in> set L" for p
  proof -
    have "L \<noteq> []" using that by auto
    then have "pt_id p \<le> pt_id (last L)"
      using srt that by (induction L) (auto simp: less_imp_le)
    with cnt \<open>L \<noteq> []\<close> show ?thesis by simp
  qed
  have le: "fm_counter m \<le> K" using c cnt L by (cases "L = []") (auto simp: Suc_le_eq frame_files_ok_def)
  then have big: "fm_counter m + 1 < 2 ^ 64" using c by simp
  then have "frame_holds F m L" using L below fs by (auto simp: frame_holds_def frame_files_ok_def)
  moreover have "fe_hsize F \<le> f_space (fm_fs m)" using sp by (simp add: fs)
  ultimately have "\<exists>m' L'. fm_rotate_segment F now m = (Inr (), m') \<and> frame_holds F m' L' \<and> fm_cur m' \<noteq> None
    \<and> logged L' = logged L \<and> fm_pending m' = [] \<and> f_space fs \<le> f_space (fm_fs m') + fe_hsize F \<and> fm_counter m' \<le> K + 1"
    using frame_rotate_ok [OF F _ _ big, of L now] fs le by (fastforce simp: logged_def)
  then show ?thesis by (simp add: fm_initialize_def m_def)
qed

subsection \<open>The promises\<close>

definition frame_ops :: "'n fenv \<Rightarrow> ('n, 'n frame_mgr) wal_ops" where
  "frame_ops F = \<lparr>w_init = fm_initialize F, w_put = fm_write_operation F, w_delete = fm_write_delete F,
     w_batch = fm_batch_write_operations F, w_flush = fm_flush F, w_truncate = fm_truncate_after_flush F,
     w_verify = fm_verify_truncated, w_shutdown = fm_mark_clean_shutdown F, w_read = fm_read_entries_from_disk F,
     w_clear = fm_clear_dir\<rparr>"

definition frame_inv :: "'n fenv \<Rightarrow> nat \<Rightarrow> 'n frame_mgr \<Rightarrow> 'n wal_entry list \<Rightarrow> bool" where
  "frame_inv F n m es \<longleftrightarrow> fenv_ok F \<and> (fe_group F \<longrightarrow> fe_wait F) \<and> fe_hsize F + 4 \<le> fe_max F
     \<and> (\<exists>L. frame_holds F m L \<and> logged L = es) \<and> fm_cur m \<noteq> None \<and> fm_pending m = []
     \<and> 2 * n * fe_max F \<le> f_space (fm_fs m) \<and> fm_counter m + 2 * n + 1 < 2 ^ 64 \<and> 0 < fm_counter m"

definition frame_crash :: "'n frame_mgr \<Rightarrow> 'n frame_mgr \<Rightarrow> bool" where
  "frame_crash m m' \<longleftrightarrow> (\<exists>keep. m' = fm_crash keep m)"

lemma frame_inv_mono: "frame_inv F (Suc n) m es \<Longrightarrow> frame_inv F n m es"
  by (auto simp: frame_inv_def)

lemma frame_holds_counter: "frame_holds F m L \<Longrightarrow> fm_cur m \<noteq> None \<Longrightarrow> 0 < fm_counter m"
  by (cases L) (auto simp: frame_holds_def frame_files_ok_def)

lemma frame_keeps:
  assumes m: "frame_inv F (Suc n) m es" and h: "frame_holds F m' L'" "logged L' = es'" "fm_cur m' \<noteq> None" "fm_pending m' = []"
    and b: "f_space (fm_fs m) \<le> f_space (fm_fs m') + 2 * fe_max F" "fm_counter m' \<le> fm_counter m + 2"
  shows "frame_inv F n m' es'"
  using assms frame_holds_counter [OF h(1,3)] by (auto simp: frame_inv_def)

lemma frame_logged:
  assumes m: "frame_inv F (Suc n) m es" and e: "frame_fits F e"
  shows "\<exists>m'. fm_write_entry F now e m = (Inr (), m') \<and> frame_inv F n m' (es @ [e])"
proof -
  from m obtain L where L: "frame_holds F m L" "logged L = es" by (auto simp: frame_inv_def)
  from m have F: "fenv_ok F" "fm_cur m \<noteq> None" "fm_pending m = []" by (auto simp: frame_inv_def)
  have k: "fe_hsize F + fser_len F e + 4 \<le> fe_max F" using e by (simp add: frame_fits_def)
  have "2 * fe_max F \<le> f_space (fm_fs m)" "fm_counter m + 1 < 2 ^ 64" using m by (simp_all add: frame_inv_def)
  then have "fe_hsize F + fser_len F e + 4 \<le> f_space (fm_fs m)" "fm_counter m + 1 < 2 ^ 64" using k by simp_all
  from frame_write_ok [OF F(1) L(1) F(2) e this, of now] obtain m' L' where w:
    "fm_write_entry F now e m = (Inr (), m')" "frame_holds F m' L'" "fm_cur m' \<noteq> None" "logged L' = es @ [e]"
    "fm_counter m' \<le> fm_counter m + 1" "f_space (fm_fs m) \<le> f_space (fm_fs m') + fe_hsize F + fser_len F e + 4"
    "fm_pending m' = fm_pending m"
    using L(2) by auto
  have "frame_inv F n m' (es @ [e])" by (rule frame_keeps [OF m w(2,4,3)]) (use w k F(3) in simp_all)
  with w(1) show ?thesis by blast
qed

lemma frame_batch_logged:
  assumes m: "frame_inv F (n + length es') m es" and es': "es' \<noteq> []" "\<forall>e \<in> set es'. frame_fits F e"
  shows "\<exists>m'. fm_batch_write_entries F now es' m = (Inr (), m') \<and> frame_inv F n m' (es @ es')"
proof -
  from m obtain L where L: "frame_holds F m L" "logged L = es" by (auto simp: frame_inv_def)
  from m have F: "fenv_ok F" "fm_cur m \<noteq> None" "fm_pending m = []" by (auto simp: frame_inv_def)
  have k: "\<forall>e \<in> set es'. fkeeps F e" using es' by (auto simp: frame_fits_def)
  have b: "length (body (fe_ser F) es') + length es' * fe_hsize F \<le> length es' * fe_max F"
    using es'(2) by (induction es') (auto simp: frame_fits_def fser_len_def)
  have k1: "fe_hsize F \<le> length es' * fe_hsize F" "fe_max F \<le> length es' * fe_max F" "1 \<le> length es'"
    using es'(1) by (cases es'; simp)+
  have "2 * (n + length es') * fe_max F = 2 * n * fe_max F + length es' * fe_max F + length es' * fe_max F"
    by (simp add: algebra_simps)
  then have sp: "2 * n * fe_max F + length es' * fe_max F + length es' * fe_max F \<le> f_space (fm_fs m)"
    and c: "fm_counter m + 2 * n + 2 * length es' + 1 < 2 ^ 64" and h: "fe_hsize F \<le> fe_max F"
    using m by (simp_all add: frame_inv_def)
  have sp': "2 * n * fe_max F + (2 * fe_hsize F + length (body (fe_ser F) es')) \<le> f_space (fm_fs m)"
    using b k1 sp h by linarith
  then have "2 * fe_hsize F + length (body (fe_ser F) es') \<le> f_space (fm_fs m)" "fm_counter m + 2 < 2 ^ 64"
    using c k1 by linarith+
  from frame_batch_ok [OF F(1) L(1) F(2) k this, of now] obtain m' L' where w:
    "fm_batch_write_entries F now es' m = (Inr (), m')" "frame_holds F m' L'" "fm_cur m' \<noteq> None"
    "logged L' = logged L @ es'" "fm_pending m' = fm_pending m" "fm_counter m' \<le> fm_counter m + 2"
    "f_space (fm_fs m) \<le> f_space (fm_fs m') + 2 * fe_hsize F + length (body (fe_ser F) es')" by blast
  have "2 * n * fe_max F \<le> f_space (fm_fs m')" using sp' w(7) by linarith
  moreover have "fm_counter m' + 2 * n + 1 < 2 ^ 64" using c k1 w(6) by linarith
  ultimately have "frame_inv F n m' (es @ es')"
    using m w L F(3) frame_holds_counter [OF w(2,3)] by (auto simp: frame_inv_def)
  with w(1) show ?thesis by blast
qed

lemma frame_operation:
  assumes m: "frame_inv F (Suc n) m es" and e: "frame_fits F e"
  shows "\<exists>m'. (if fe_group F then fm_write_entry_group_commit F now e m else fm_write_entry F now e m) = (Inr (), m')
    \<and> frame_inv F n m' (es @ [e])"
proof (cases "fe_group F")
  case False
  with frame_logged [OF assms] show ?thesis by simp
next
  case True
  have "frame_inv F (n + length [e]) m es" "[e] \<noteq> []" "\<forall>x \<in> set [e]. frame_fits F x" using assms by simp_all
  from frame_batch_logged [OF this, of now] obtain m' where b: "fm_batch_write_entries F now [e] m = (Inr (), m')"
    "frame_inv F n m' (es @ [e])" by blast
  have p: "fm_pending m = []" "fe_wait F" using m True by (simp_all add: frame_inv_def)
  then have same: "m\<lparr>fm_pending := []\<rparr> = m" by simp
  with b(1) p True have "fm_write_entry_group_commit F now e m = (Inr (), m')"
    by (simp add: fm_write_entry_group_commit_def fm_flush_pending_group_commit_def same)
  with b(2) True show ?thesis by simp
qed

lemma frame_put:
  assumes "frame_inv F (Suc n) m es"
  shows "frame_fits F (WPut k v now) \<Longrightarrow> \<exists>m'. fm_write_operation F now k v m = (Inr (), m') \<and> frame_inv F n m' (es @ [WPut k v now])"
    and "frame_fits F (WDelete k now) \<Longrightarrow> \<exists>m'. fm_write_delete F now k m = (Inr (), m') \<and> frame_inv F n m' (es @ [WDelete k now])"
  using frame_operation [OF assms] by (simp_all add: fm_write_operation_def fm_write_delete_def)

lemma frame_nothing_pending: "frame_inv F n m es \<Longrightarrow> fm_flush_pending_group_commit F now m = (Inr (), m)"
  by (simp add: frame_inv_def fm_flush_pending_group_commit_def)

lemma frame_inv_flush:
  assumes m: "frame_inv F (Suc n) m es"
  shows "\<exists>m'. fm_flush F now m = (Inr (), m') \<and> frame_inv F n m' es"
proof -
  from m obtain L g where L: "frame_holds F m L" "logged L = es" "fenv_ok F" "fm_cur m = Some g" "fm_pending m = []"
    by (auto simp: frame_inv_def)
  from frame_header_flush_ok [OF L(3,1,4)] obtain g' fs where f: "fg_sync_header_and_flush F g (fm_fs m) = (Inr g', fs)"
    "frame_holds F (m\<lparr>fm_fs := fs, fm_cur := Some g'\<rparr>) L" "f_space fs = f_space (fm_fs m)" by blast
  have "fm_flush F now m = (Inr (), m\<lparr>fm_fs := fs, fm_cur := Some g'\<rparr>)"
    using f(1) L(4) frame_nothing_pending [OF m] by (simp add: fm_flush_def)
  moreover have "frame_inv F n (m\<lparr>fm_fs := fs, fm_cur := Some g'\<rparr>) es"
    by (rule frame_keeps [OF m f(2) L(2)]) (simp_all add: f(3) L(5))
  ultimately show ?thesis by blast
qed

lemma frame_inv_truncate:
  assumes m: "frame_inv F (Suc n) m es"
  shows "\<exists>m'. fm_truncate_after_flush F now m = (Inr (), m') \<and> frame_inv F n m' [] \<and> fm_verify_truncated m'"
proof -
  from m obtain L where L: "frame_holds F m L" "fenv_ok F" "fm_pending m = []" by (auto simp: frame_inv_def)
  have "fe_hsize F \<le> f_space (fm_fs m)" "fm_counter m + 1 < 2 ^ 64" using m by (auto simp: frame_inv_def)
  from frame_truncate_ok [OF L(2,1) this, of now] obtain m' p where t: "fm_truncate_after_flush F now m = (Inr (), m')"
    "frame_holds F m' [p]" "pt_es p = []" "fm_cur m' \<noteq> None" "fm_pending m' = fm_pending m" "fm_verify_truncated m'"
    "f_space (fm_fs m) \<le> f_space (fm_fs m') + fe_hsize F" "fm_counter m' = fm_counter m + 1" by blast
  have "fe_hsize F \<le> fe_max F" using m by (simp add: frame_inv_def)
  then have "frame_inv F n m' []"
    using t L(3) by (intro frame_keeps [OF m t(2)]) (simp_all add: logged_def)
  with t show ?thesis by blast
qed

lemma frame_inv_shutdown:
  assumes m: "frame_inv F (n + 3) m es" and e: "frame_fits F (WCheckpoint now)"
  shows "\<exists>m'. fm_mark_clean_shutdown F now m = (Inr (), m') \<and> frame_inv F n m' []"
proof -
  have m0: "frame_inv F (Suc (Suc (Suc n))) m es" using m by (simp add: numeral_3_eq_3)
  from frame_logged [OF m0 e, of now] obtain m1 where m1: "fm_write_entry F now (WCheckpoint now) m = (Inr (), m1)"
    "frame_inv F (Suc (Suc n)) m1 (es @ [WCheckpoint now])" by blast
  from frame_inv_flush [OF m1(2), of now] obtain m2 where m2: "fm_flush F now m1 = (Inr (), m2)"
    "frame_inv F (Suc n) m2 (es @ [WCheckpoint now])" by blast
  from frame_inv_truncate [OF m2(2), of now] obtain m3 where m3: "fm_truncate_after_flush F now m2 = (Inr (), m3)" "frame_inv F n m3 []"
    by blast
  have "fm_cur m \<noteq> None" using m by (simp add: frame_inv_def)
  then have "fm_mark_clean_shutdown F now m = (Inr (), m3)"
    using m1(1) m2(1) m3(1) frame_nothing_pending [OF m] by (auto simp: fm_mark_clean_shutdown_def)
  with m3(2) show ?thesis by blast
qed

lemma frame_inv_read:
  assumes "frame_inv F n m es"
  shows "fm_read_entries_from_disk F (fm_crash keep m) = Inr (sort_key entry_timestamp es)"
proof -
  from assms obtain L where L: "frame_holds F m L" "logged L = es" by (auto simp: frame_inv_def)
  have "frame_files_ok F (fm_fs (fm_crash keep m)) (fm_counter m) L"
    using L(1) frame_power_loss by (auto simp: frame_holds_def fm_crash_def fm_new_def)
  from frame_read_ok [OF this] L(2) show ?thesis
    by (simp add: fm_crash_def fm_new_def power_loss_def f_len_def Let_def)
qed

lemma frame_inv_reopen:
  assumes m: "frame_inv F (Suc n) m es"
  shows "\<exists>m'. fm_initialize F now (fm_crash keep m) = (Inr (), m') \<and> frame_inv F n m' es"
proof -
  from m obtain L where L: "frame_holds F m L" "logged L = es" "fenv_ok F" by (auto simp: frame_inv_def)
  let ?fs = "power_loss keep (fm_fs m)"
  have f: "frame_files_ok F ?fs (fm_counter m) L" using L(1) frame_power_loss by (auto simp: frame_holds_def)
  have sp: "f_space ?fs = f_space (fm_fs m)" by (simp add: power_loss_def Let_def)
  have "fe_hsize F \<le> f_space ?fs" "0 < fm_counter m" "fm_counter m + 1 < 2 ^ 64" using m by (auto simp: frame_inv_def sp)
  from frame_initialize_ok [OF L(3) f this, of now] obtain m' L' where i: "fm_initialize F now (fm_new ?fs) = (Inr (), m')"
    "frame_holds F m' L'" "fm_cur m' \<noteq> None" "logged L' = es" "fm_pending m' = []"
    "f_space ?fs \<le> f_space (fm_fs m') + fe_hsize F" "fm_counter m' \<le> fm_counter m + 1"
    using L(2) by auto
  have "fe_hsize F \<le> fe_max F" using m by (simp add: frame_inv_def)
  then have "frame_inv F n m' es"
    using i sp by (intro frame_keeps [OF m i(2,4,3,5)]) simp_all
  with i(1) show ?thesis by (auto simp: fm_crash_def)
qed

interpretation frame: wal_log "frame_ops F" "frame_inv F" "frame_fits F" frame_crash for F :: "'n fenv"
proof unfold_locales
  fix n m now and kvs :: "(key \<times> 'n val) list" and es :: "'n wal_entry list"
  let ?new = "map (\<lambda>(k, v). WPut k v now) kvs"
  assume m: "frame_inv F (n + length kvs) m es" and e: "\<forall>(k, v) \<in> set kvs. frame_fits F (WPut k v now)"
  show "\<exists>m'. w_batch (frame_ops F) now kvs m = (Inr (), m') \<and> frame_inv F n m' (es @ ?new)"
  proof (cases "kvs = []")
    case True
    with m show ?thesis by (simp add: frame_ops_def fm_batch_write_operations_def)
  next
    case False
    have "frame_inv F (n + length ?new) m es" "?new \<noteq> []" "\<forall>x \<in> set ?new. frame_fits F x" using m e False by auto
    from frame_batch_logged [OF this, of now] False frame_nothing_pending [OF m] show ?thesis
      by (simp add: frame_ops_def fm_batch_write_operations_def)
  qed
qed (auto simp: frame_ops_def frame_crash_def frame_inv_read
    intro: frame_put frame_inv_mono frame_inv_flush frame_inv_truncate frame_inv_shutdown frame_inv_reopen)

lemma fresh_frame_log:
  assumes "fenv_ok F" and "fe_group F \<longrightarrow> fe_wait F" and "fe_hsize F + 4 \<le> fe_max F"
    and "2 * Suc n * fe_max F \<le> sp" and "2 * n + 4 < 2 ^ 64"
  shows "\<exists>m. fm_initialize F now (fm_new (empty_fs sp)) = (Inr (), m) \<and> frame_inv F n m []"
proof -
  have f: "frame_files_ok F (empty_fs sp) 1 []" by (simp add: frame_files_ok_def empty_fs_def)
  have "fe_hsize F \<le> f_space (empty_fs sp)" "0 < (1 :: nat)" "(1 :: nat) + 1 < 2 ^ 64" using assms(3,4) by (simp_all add: empty_fs_def)
  from frame_initialize_ok [OF assms(1) f this, of now] obtain m L where m:
    "fm_initialize F now (fm_new (empty_fs sp)) = (Inr (), m)" "frame_holds F m L" "fm_cur m \<noteq> None"
    "logged L = []" "fm_pending m = []" "sp \<le> f_space (fm_fs m) + fe_hsize F" "fm_counter m \<le> 2"
    by (auto simp: empty_fs_def logged_def)
  then have "frame_inv F n m []"
    using assms frame_holds_counter [OF m(2,3)] unfolding frame_inv_def by (intro conjI exI [of _ L]) auto
  with m(1) show ?thesis by blast
qed

end
