(* ===== verification/Wal_Index.thy ===== *)
theory Wal_Index
  imports Wal_Files
begin

text \<open>
  The index of the indexed log, \<open>crates/f4kvs-lsm/src/storage/wal_index.rs\<close>: a header with a checksum, kept
  in two slots of 4096 bytes that are written in turn, so that a write cut short leaves the previous
  header.  \<open>crc32\<close> is a library function and a parameter.
\<close>

record index_header =
  ih_generation :: u64
  ih_segment :: u32
  ih_frame_size :: u32
  ih_frame :: u32
  ih_offset :: u32
  ih_entries :: u64
  ih_checksum :: u32

definition index_magic :: bytes where "index_magic = [87, 73, 68, 88]"
definition index_version :: u8 where "index_version = 1"
definition slot_size :: nat where "slot_size = 4096"
definition index_file_size :: nat where "index_file_size = slot_size * 2"

definition ih_body :: "index_header \<Rightarrow> bytes" where
  "ih_body h = u64_to_le (ih_generation h) @ u32_to_le (ih_segment h) @ u32_to_le (ih_frame_size h)
     @ u32_to_le (ih_frame h) @ u32_to_le (ih_offset h) @ u64_to_le (ih_entries h)"

definition compute_checksum :: "(bytes \<Rightarrow> u32) \<Rightarrow> index_header \<Rightarrow> u32" where
  "compute_checksum crc h = crc (index_magic @ [index_version] @ ih_body h)"

definition header_new :: "(bytes \<Rightarrow> u32) \<Rightarrow> u32 \<Rightarrow> u32 \<Rightarrow> index_header" where
  "header_new crc seg fs =
     (let h = \<lparr>ih_generation = 0, ih_segment = seg, ih_frame_size = fs, ih_frame = 0, ih_offset = 0,
               ih_entries = 0, ih_checksum = 0\<rparr> in
      h\<lparr>ih_checksum := compute_checksum crc h\<rparr>)"

definition verify :: "(bytes \<Rightarrow> u32) \<Rightarrow> index_header \<Rightarrow> bool" where
  "verify crc h \<longleftrightarrow> ih_checksum h = compute_checksum crc h"

definition to_slot_bytes :: "index_header \<Rightarrow> bytes" where
  "to_slot_bytes h = index_magic @ [index_version] @ replicate 3 0 @ ih_body h @ u32_to_le (ih_checksum h)
     @ replicate (slot_size - 44) 0"

definition field :: "nat \<Rightarrow> nat \<Rightarrow> bytes \<Rightarrow> bytes" where
  "field a b s = take (b - a) (drop a s)"

definition from_slot_bytes :: "(bytes \<Rightarrow> u32) \<Rightarrow> bytes \<Rightarrow> index_header res" where
  "from_slot_bytes crc s =
     (if length s < 44 then Inl (Corruption ''wal.idx slot too small'')
      else if take 4 s \<noteq> index_magic then Inl (Corruption ''wal.idx bad magic'')
      else if s ! 4 \<noteq> index_version then Inl (Corruption ''wal.idx unsupported version'')
      else
        let h = \<lparr>ih_generation = u64_from_le (field 8 16 s), ih_segment = u32_from_le (field 16 20 s),
                 ih_frame_size = u32_from_le (field 20 24 s), ih_frame = u32_from_le (field 24 28 s),
                 ih_offset = u32_from_le (field 28 32 s), ih_entries = u64_from_le (field 32 40 s),
                 ih_checksum = u32_from_le (field 40 44 s)\<rparr> in
        if verify crc h then Inr h else Inl (Corruption ''wal.idx checksum mismatch''))"

text \<open>The content of the file, extended with zeros to its full size, and its slots.\<close>

definition extended :: "bytes \<Rightarrow> bytes" where
  "extended d = d @ replicate (index_file_size - length d) 0"

definition slot_candidate :: "(bytes \<Rightarrow> u32) \<Rightarrow> bytes \<Rightarrow> index_header list" where
  "slot_candidate crc s =
     (if take 4 s = index_magic then (case from_slot_bytes crc s of Inr h \<Rightarrow> [h] | Inl _ \<Rightarrow> []) else [])"

fun max_generation :: "index_header list \<Rightarrow> index_header option" where
  "max_generation [] = None"
| "max_generation (h # hs) =
     (case max_generation hs of None \<Rightarrow> Some h
      | Some b \<Rightarrow> if ih_generation h \<le> ih_generation b then Some b else Some h)"

definition read_latest :: "(bytes \<Rightarrow> u32) \<Rightarrow> bytes \<Rightarrow> index_header res" where
  "read_latest crc d =
     (if length d < index_file_size then Inl (Io UnexpectedEof ''early eof'')
      else case max_generation (slot_candidate crc (take slot_size d)
             @ slot_candidate crc (take slot_size (drop slot_size d))) of
          None \<Rightarrow> Inl (Corruption ''wal.idx has no valid slot'')
        | Some h \<Rightarrow> Inr h)"

text \<open>\<open>open\<close>: the header found in the file, or a fresh one that is only in memory.\<close>

definition index_open :: "(bytes \<Rightarrow> u32) \<Rightarrow> u32 \<Rightarrow> u32 \<Rightarrow> bytes option \<Rightarrow> index_header \<times> bytes" where
  "index_open crc seg fs file =
     (let d = extended (case file of None \<Rightarrow> [] | Some d \<Rightarrow> d) in
      (case read_latest crc d of Inr h \<Rightarrow> h | Inl _ \<Rightarrow> header_new crc seg fs, d))"

text \<open>\<open>write_slot\<close>: the next generation, in the slot of its parity; the result is the new latest header
  and the content of the file.\<close>

definition stamped :: "(bytes \<Rightarrow> u32) \<Rightarrow> index_header \<Rightarrow> index_header \<Rightarrow> index_header" where
  "stamped crc latest h =
     (let g = (if ih_generation latest = - 1 then - 1 else ih_generation latest + 1);
          h = h\<lparr>ih_generation := g\<rparr> in
      h\<lparr>ih_checksum := compute_checksum crc h\<rparr>)"

definition put_slot :: "nat \<Rightarrow> bytes \<Rightarrow> bytes \<Rightarrow> bytes" where
  "put_slot i b d = take (i * slot_size) d @ b @ drop (i * slot_size + length b) d"

definition write_slot :: "(bytes \<Rightarrow> u32) \<Rightarrow> index_header \<Rightarrow> index_header \<Rightarrow> bytes \<Rightarrow> index_header \<times> bytes" where
  "write_slot crc latest h d =
     (let h = stamped crc latest h in (h, put_slot (unat (ih_generation h) mod 2) (to_slot_bytes h) d))"


subsection \<open>One header through its slot\<close>

lemma length_ih_body [simp]: "length (ih_body h) = 32"
  by (simp add: ih_body_def)

lemma length_slot [simp]: "length (to_slot_bytes h) = slot_size"
  by (simp add: to_slot_bytes_def index_magic_def slot_size_def)

lemma slot_magic [simp]: "take 4 (to_slot_bytes h) = index_magic"
  by (simp add: to_slot_bytes_def index_magic_def)

lemma from_to_slot: "verify crc h \<Longrightarrow> from_slot_bytes crc (to_slot_bytes h) = Inr h"
proof -
  assume v: "verify crc h"
  let ?s = "to_slot_bytes h"
  have f: "field 8 16 ?s = u64_to_le (ih_generation h)" "field 16 20 ?s = u32_to_le (ih_segment h)"
    "field 20 24 ?s = u32_to_le (ih_frame_size h)" "field 24 28 ?s = u32_to_le (ih_frame h)"
    "field 28 32 ?s = u32_to_le (ih_offset h)" "field 32 40 ?s = u64_to_le (ih_entries h)"
    "field 40 44 ?s = u32_to_le (ih_checksum h)"
    by (simp_all add: field_def to_slot_bytes_def index_magic_def ih_body_def eval_nat_numeral)
  have eta: "\<lparr>ih_generation = ih_generation h, ih_segment = ih_segment h, ih_frame_size = ih_frame_size h,
      ih_frame = ih_frame h, ih_offset = ih_offset h, ih_entries = ih_entries h, ih_checksum = ih_checksum h\<rparr> = h" by simp
  show ?thesis
    unfolding from_slot_bytes_def f Let_def u64_le_roundtrip u32_le_roundtrip eta using v
    by (simp add: slot_size_def to_slot_bytes_def index_magic_def)
qed

lemma candidate_slot: "verify crc h \<Longrightarrow> slot_candidate crc (to_slot_bytes h) = [h]"
  by (simp add: slot_candidate_def from_to_slot)

lemma verify_stamped [simp]: "verify crc (stamped crc l h)"
  by (simp add: verify_def stamped_def Let_def compute_checksum_def ih_body_def)

lemma verify_new [simp]: "verify crc (header_new crc s f)"
  by (simp add: verify_def header_new_def Let_def compute_checksum_def ih_body_def)

lemma stamped_fields [simp]: "ih_segment (stamped crc l h) = ih_segment h" "ih_frame_size (stamped crc l h) = ih_frame_size h"
  "ih_frame (stamped crc l h) = ih_frame h" "ih_offset (stamped crc l h) = ih_offset h"
  "ih_entries (stamped crc l h) = ih_entries h"
  by (simp_all add: stamped_def Let_def)

lemma stamped_generation: "ih_generation l \<noteq> - 1 \<Longrightarrow> ih_generation (stamped crc l h) = ih_generation l + 1"
  by (simp add: stamped_def Let_def)

lemma next_generation: "(g :: u64) \<noteq> - 1 \<Longrightarrow> unat (g + 1) = Suc (unat g)"
  by (metis add.commute eq_neg_iff_add_eq_0 unatSuc)

subsection \<open>The two slots\<close>

definition slot :: "nat \<Rightarrow> bytes \<Rightarrow> bytes" where
  "slot i d = take slot_size (drop (i * slot_size) d)"

lemma slot_put: "length b = slot_size \<Longrightarrow> length d = index_file_size \<Longrightarrow> i < 2 \<Longrightarrow> j < 2 \<Longrightarrow>
  slot j (put_slot i b d) = (if j = i then b else slot j d)"
  by (auto simp: slot_def put_slot_def index_file_size_def slot_size_def less_2_cases_iff min_def)

lemma length_put: "length b = slot_size \<Longrightarrow> length d = index_file_size \<Longrightarrow> i < 2 \<Longrightarrow> length (put_slot i b d) = index_file_size"
  by (auto simp: put_slot_def index_file_size_def slot_size_def less_2_cases_iff)

abbreviation candidates :: "(bytes \<Rightarrow> u32) \<Rightarrow> bytes \<Rightarrow> index_header list" where
  "candidates crc d \<equiv> slot_candidate crc (slot 0 d) @ slot_candidate crc (slot 1 d)"

lemma read_latest_slots: "length d = index_file_size \<Longrightarrow> read_latest crc d =
    (case max_generation (candidates crc d) of None \<Rightarrow> Inl (Corruption ''wal.idx has no valid slot'') | Some h \<Rightarrow> Inr h)"
  by (simp add: read_latest_def slot_def)

lemma max_generation_None: "max_generation hs = None \<longleftrightarrow> hs = []"
  by (cases hs) (auto split: option.split)

lemma max_generation_in: "max_generation hs = Some h \<Longrightarrow> h \<in> set hs"
  by (induction hs arbitrary: h) (auto split: option.splits if_splits)

lemma max_generation_top:
  "h \<in> set hs \<Longrightarrow> \<forall>c \<in> set hs. c = h \<or> ih_generation c < ih_generation h \<Longrightarrow> max_generation hs = Some h"
proof (induction hs)
  case (Cons x hs)
  show ?case
  proof (cases "h \<in> set hs")
    case True
    with Cons show ?thesis by auto
  next
    case False
    then have "x = h" using Cons.prems(1) by simp
    moreover have "ih_generation b < ih_generation h" if "max_generation hs = Some b" for b
      using max_generation_in [OF that] Cons.prems(2) False by auto
    ultimately show ?thesis by (auto split: option.split)
  qed
qed simp

text \<open>\<open>index_below h d\<close>: no slot holds a generation beyond that of \<open>h\<close>.  \<open>index_ok h d\<close>: the file holds \<open>h\<close>
  as the only header of the highest generation.\<close>

definition index_below :: "(bytes \<Rightarrow> u32) \<Rightarrow> index_header \<Rightarrow> bytes \<Rightarrow> bool" where
  "index_below crc h d \<longleftrightarrow> length d = index_file_size
     \<and> (\<forall>i < 2. \<forall>c \<in> set (slot_candidate crc (slot i d)). ih_generation c \<le> ih_generation h)"

definition index_ok :: "(bytes \<Rightarrow> u32) \<Rightarrow> index_header \<Rightarrow> bytes \<Rightarrow> bool" where
  "index_ok crc h d \<longleftrightarrow> index_below crc h d \<and> verify crc h
     \<and> slot (unat (ih_generation h) mod 2) d = to_slot_bytes h
     \<and> (\<forall>c \<in> set (slot_candidate crc (slot (1 - unat (ih_generation h) mod 2) d)). ih_generation c < ih_generation h)"

lemma index_ok_below: "index_ok crc h d \<Longrightarrow> index_below crc h d"
  by (simp add: index_ok_def)

lemma candidates_parity: "set (candidates crc d) =
    set (slot_candidate crc (slot (n mod 2) d)) \<union> set (slot_candidate crc (slot (1 - n mod 2) d))"
  by (cases "n mod 2 = 0") auto

lemma read_index_ok:
  assumes "index_ok crc h d"
  shows "read_latest crc d = Inr h"
proof -
  note p = candidates_parity [of crc d "unat (ih_generation h)"]
  have "slot_candidate crc (slot (unat (ih_generation h) mod 2) d) = [h]"
    using assms by (simp add: index_ok_def candidate_slot)
  then have "max_generation (candidates crc d) = Some h"
    using assms by (intro max_generation_top; unfold p) (auto simp: index_ok_def)
  then show ?thesis using assms by (simp add: read_latest_slots index_ok_def index_below_def)
qed

lemma write_slot_ok:
  assumes d: "index_below crc l d" and g: "ih_generation l \<noteq> - 1"
  shows "index_ok crc (fst (write_slot crc l h d)) (snd (write_slot crc l h d))"
proof -
  let ?h = "stamped crc l h" and ?i = "unat (ih_generation l + 1) mod 2"
  let ?d = "put_slot ?i (to_slot_bytes ?h) d"
  have w: "write_slot crc l h d = (?h, ?d)" by (simp add: write_slot_def Let_def stamped_generation [OF g])
  have len: "length d = index_file_size" using d by (simp add: index_below_def)
  note s = slot_put [OF length_slot len]
  have lt: "ih_generation l < ih_generation l + 1" using next_generation [OF g] by (simp add: word_less_nat_alt)
  have other: "\<forall>c \<in> set (slot_candidate crc (slot (1 - ?i) ?d)). ih_generation c < ih_generation ?h"
  proof -
    have "1 - ?i < 2" "1 - ?i \<noteq> ?i" by presburger+
    then show ?thesis
      using d by (auto simp: s index_below_def stamped_generation [OF g] intro!: order_le_less_trans [OF _ lt])
  qed
  have "\<forall>j < 2. \<forall>c \<in> set (slot_candidate crc (slot j ?d)). ih_generation c \<le> ih_generation ?h"
  proof (intro allI impI ballI)
    fix j :: nat and c assume "j < 2" "c \<in> set (slot_candidate crc (slot j ?d))"
    then show "ih_generation c \<le> ih_generation ?h"
      using d lt by (cases "j = ?i") (fastforce simp: s index_below_def candidate_slot stamped_generation [OF g])+
  qed
  then show ?thesis
    using other by (simp add: w index_ok_def index_below_def length_put [OF length_slot len] s stamped_generation [OF g])
qed

lemma slot_zeros: "slot_candidate crc (slot i (replicate n 0)) = []"
proof -
  have "set (take 4 (slot i (replicate n 0))) \<subseteq> {0}" by (auto simp: slot_def dest!: in_set_takeD in_set_dropD)
  then have "take 4 (slot i (replicate n 0)) \<noteq> index_magic" by (auto simp: index_magic_def)
  then show ?thesis by (simp add: slot_candidate_def)
qed

lemma index_open_new:
  "index_open crc s f None = (header_new crc s f, replicate index_file_size 0)"
  "index_below crc (header_new crc s f) (replicate index_file_size 0)"
proof -
  have "read_latest crc (replicate index_file_size 0) = Inl (Corruption ''wal.idx has no valid slot'')"
    by (simp add: read_latest_slots slot_zeros)
  then show "index_open crc s f None = (header_new crc s f, replicate index_file_size 0)"
    by (simp add: index_open_def extended_def Let_def)
  show "index_below crc (header_new crc s f) (replicate index_file_size 0)"
    by (simp add: index_below_def slot_zeros)
qed

lemma index_open_ok: "index_ok crc h d \<Longrightarrow> index_open crc s f (Some d) = (h, d)"
proof -
  assume h: "index_ok crc h d"
  then have "extended d = d" by (simp add: extended_def index_ok_def index_below_def)
  with read_index_ok [OF h] show ?thesis by (simp add: index_open_def)
qed

subsection \<open>A write cut short\<close>

text \<open>The file when only the first \<open>n\<close> bytes of the slot reached the disk.\<close>

definition torn_write :: "(bytes \<Rightarrow> u32) \<Rightarrow> index_header \<Rightarrow> index_header \<Rightarrow> nat \<Rightarrow> bytes \<Rightarrow> bytes" where
  "torn_write crc l h n d =
     (let h = stamped crc l h; i = unat (ih_generation h) mod 2 in
      put_slot i (take n (to_slot_bytes h) @ drop n (slot i d)) d)"

fun commits :: "(bytes \<Rightarrow> u32) \<Rightarrow> index_header list \<Rightarrow> index_header \<times> bytes \<Rightarrow> index_header \<times> bytes" where
  "commits crc [] x = x"
| "commits crc (h # hs) (l, d) = commits crc hs (write_slot crc l h d)"

lemma commits_ok:
  "index_below crc l d \<Longrightarrow> unat (ih_generation l) + length hs < 2 ^ 64 \<Longrightarrow>
    (case commits crc hs (l, d) of (l', d') \<Rightarrow>
      (if hs = [] then index_below crc l' d' else index_ok crc l' d' \<and> ih_frame l' = ih_frame (last hs)
         \<and> ih_offset l' = ih_offset (last hs) \<and> ih_segment l' = ih_segment (last hs) \<and> ih_entries l' = ih_entries (last hs))
      \<and> unat (ih_generation l') = unat (ih_generation l) + length hs)"
proof (induction hs arbitrary: l d)
  case (Cons h hs)
  have g: "ih_generation l \<noteq> - 1"
  proof
    assume "ih_generation l = - 1"
    then have "unat (ih_generation l) = 2 ^ 64 - 1" by (simp add: unsigned_minus_1_eq_mask mask_eq_exp_minus_1)
    with Cons.prems(2) show False by simp
  qed
  obtain l1 d1 where w: "write_slot crc l h d = (l1, d1)" by (cases "write_slot crc l h d")
  have ok: "index_ok crc l1 d1" using write_slot_ok [OF Cons.prems(1) g, of h] w by simp
  have l1: "l1 = stamped crc l h" using w by (simp add: write_slot_def Let_def)
  have n: "unat (ih_generation l1) = Suc (unat (ih_generation l))" using next_generation [OF g] by (simp add: l1 stamped_generation [OF g])
  show ?case
    using Cons.IH [OF index_ok_below [OF ok]] Cons.prems(2) ok n by (cases hs) (auto simp: w l1)
qed simp

text \<open>
  C13: the index survives a write cut short.  After any number of commits the file holds the header
  committed last.  When the next write stops after any number of bytes, what is read back is that header or
  the new one, provided the checksum tells a mixed slot from a whole one.
\<close>

theorem index_survives_torn_write:
  assumes "hs \<noteq> []" and "Suc (length hs) < 2 ^ 64" and "commits crc hs (index_open crc s f None) = (l, d)"
    and "write_slot crc l h d = (l', d')"
    and "\<forall>n. torn_write crc l h n d \<in> {d, d'}
      \<or> (\<exists>e. from_slot_bytes crc (slot (unat (ih_generation l') mod 2) (torn_write crc l h n d)) = Inl e)"
  shows "read_latest crc d = Inr l \<and> unat (ih_generation l) = length hs
    \<and> (ih_segment l, ih_frame l, ih_offset l, ih_entries l)
      = (ih_segment (last hs), ih_frame (last hs), ih_offset (last hs), ih_entries (last hs))
    \<and> read_latest crc d' = Inr l' \<and> read_latest crc (torn_write crc l h n d) \<in> {Inr l, Inr l'}"
proof -
  have gen0: "ih_generation (header_new crc s f) = 0" by (simp add: header_new_def Let_def)
  from assms(1,2,3) commits_ok [OF index_open_new(2), of crc s f hs]
  have l: "index_ok crc l d" "unat (ih_generation l) = length hs"
    "(ih_segment l, ih_frame l, ih_offset l, ih_entries l)
      = (ih_segment (last hs), ih_frame (last hs), ih_offset (last hs), ih_entries (last hs))"
    by (auto simp: index_open_new(1) gen0)
  have g: "ih_generation l \<noteq> - 1"
  proof
    assume "ih_generation l = - 1"
    then have "unat (ih_generation l) = 2 ^ 64 - 1" by (simp add: unsigned_minus_1_eq_mask mask_eq_exp_minus_1)
    with l(2) assms(2) show False by simp
  qed
  have l': "l' = stamped crc l h" "d' = put_slot (unat (ih_generation l') mod 2) (to_slot_bytes l') d"
    using assms(4) by (auto simp: write_slot_def Let_def)
  have ok': "index_ok crc l' d'" using write_slot_ok [OF index_ok_below [OF l(1)] g, of h] assms(4) by simp
  let ?t = "torn_write crc l h n d" and ?i = "unat (ih_generation l') mod 2"
  have "read_latest crc ?t \<in> {Inr l, Inr l'}"
  proof (cases "?t \<in> {d, d'}")
    case True
    then show ?thesis using read_index_ok [OF l(1)] read_index_ok [OF ok'] by auto
  next
    case False
    then obtain e where e: "from_slot_bytes crc (slot ?i ?t) = Inl e" using assms(5) by blast
    have len: "length d = index_file_size" using l(1) by (simp add: index_ok_def index_below_def)
    have sl: "length (slot ?i d) = slot_size"
      using len by (cases "?i = 0") (simp_all add: slot_def index_file_size_def slot_size_def)
    have b: "length (take n (to_slot_bytes l') @ drop n (slot ?i d)) = slot_size" using sl by simp
    have t: "?t = put_slot ?i (take n (to_slot_bytes l') @ drop n (slot ?i d)) d"
      by (simp add: torn_write_def l'(1) Let_def)
    have par: "unat (ih_generation l) mod 2 = 1 - ?i"
      using next_generation [OF g] by (simp add: l'(1) stamped_generation [OF g]) presburger
    have "1 - ?i < 2" "?i < 2" "1 - ?i \<noteq> ?i" by presburger+
    then have "slot (1 - ?i) ?t = slot (1 - ?i) d" unfolding t by (simp only: slot_put [OF b len] if_False)
    then have "slot (1 - ?i) ?t = to_slot_bytes l" using l(1) by (simp add: index_ok_def par)
    then have "slot_candidate crc (slot (1 - ?i) ?t) = [l]" using l(1) by (simp only: index_ok_def candidate_slot)
    moreover have "slot_candidate crc (slot ?i ?t) = []" using e by (simp add: slot_candidate_def)
    ultimately have "set (candidates crc ?t) = {l}"
      unfolding candidates_parity [of crc ?t "unat (ih_generation l')"] by (simp only: list.set Un_empty_left)
    then have "max_generation (candidates crc ?t) = Some l" by (intro max_generation_top) auto
    then show ?thesis using length_put [OF b len] unfolding t by (simp add: read_latest_slots t)
  qed
  with l ok' show ?thesis by (simp add: read_index_ok)
qed

text \<open>A checksum that is constant and has no zero byte tells every mix of a slot with zeros.\<close>

lemma ones_checksum: "length s = slot_size \<Longrightarrow> s ! 43 = 0 \<Longrightarrow> \<exists>e. from_slot_bytes (\<lambda>_. - 1) s = Inl e"
proof -
  assume l: "length s = slot_size" and z: "s ! 43 = 0"
  have "field 40 44 s = [s ! 40, s ! 41, s ! 42, 0]"
    using l z by (intro nth_equalityI) (auto simp: field_def slot_size_def less_Suc_eq numeral_eq_Suc)
  then have "le_val (field 40 44 s) < 2 ^ 24"
    using unsigned_less [of "s ! 40", where 'a = nat] unsigned_less [of "s ! 41", where 'a = nat]
      unsigned_less [of "s ! 42", where 'a = nat] by simp
  then have "unat (u32_from_le (field 40 44 s)) < 2 ^ 24" by (simp add: u32_from_le_def unat_of_nat)
  moreover have "unat (- 1 :: u32) = 2 ^ 32 - 1" by (simp add: unsigned_minus_1_eq_mask mask_eq_exp_minus_1)
  ultimately have "u32_from_le (field 40 44 s) \<noteq> - 1" by auto
  then show ?thesis by (auto simp: from_slot_bytes_def Let_def verify_def compute_checksum_def)
qed

theorem index_survives_torn_write_witness:
  "\<exists>l d l' d'. commits (\<lambda>_. - 1) [header_new (\<lambda>_. - 1) 7 8192] (index_open (\<lambda>_. - 1) 1 8192 None) = (l, d)
     \<and> write_slot (\<lambda>_. - 1) l l d = (l', d') \<and> l \<noteq> l' \<and> read_latest (\<lambda>_. - 1) d = Inr l
     \<and> read_latest (\<lambda>_. - 1) (torn_write (\<lambda>_. - 1) l l 20 d) \<in> {Inr l, Inr l'}"
proof -
  let ?c = "\<lambda>_ :: bytes. - 1 :: u32" and ?h = "header_new (\<lambda>_. - 1) 7 8192"
  obtain l d where c: "commits ?c [?h] (index_open ?c 1 8192 None) = (l, d)"
    by (cases "commits ?c [?h] (index_open ?c 1 8192 None)")
  obtain l' d' where w: "write_slot ?c l l d = (l', d')" by (cases "write_slot ?c l l d")
  have l: "l = stamped ?c (header_new ?c 1 8192) ?h" "d = put_slot 1 (to_slot_bytes l) (replicate index_file_size 0)"
    using c by (auto simp: index_open_new(1) write_slot_def Let_def stamped_generation header_new_def)
  have g: "ih_generation l = 1" "ih_generation l' = 2"
    using w by (auto simp: l(1) stamped_generation header_new_def Let_def write_slot_def)
  have s0: "slot 0 d = replicate slot_size 0"
    unfolding l(2) by (subst slot_put) (simp_all add: slot_def index_file_size_def slot_size_def min_def)
  have b: "length (take n (to_slot_bytes l') @ drop n (slot 0 d)) = slot_size" for n by (simp add: s0)
  have len: "length d = index_file_size" unfolding l(2) by (rule length_put) (simp_all)
  have t: "torn_write ?c l l n d = put_slot 0 (take n (to_slot_bytes l') @ drop n (slot 0 d)) d" for n
    using w g by (auto simp: torn_write_def Let_def write_slot_def)
  have "torn_write ?c l l n d \<in> {d, d'} \<or> (\<exists>e. from_slot_bytes ?c (slot (unat (ih_generation l') mod 2) (torn_write ?c l l n d)) = Inl e)" for n
  proof (cases "n < 44")
    case True
    have "slot 0 (torn_write ?c l l n d) = take n (to_slot_bytes l') @ drop n (slot 0 d)"
      unfolding t by (simp only: slot_put [OF b len]) simp
    then show ?thesis
      using True b ones_checksum [of "take n (to_slot_bytes l') @ drop n (slot 0 d)"]
      by (simp add: g s0 nth_append slot_size_def)
  next
    case False
    obtain p where p: "to_slot_bytes l' = p @ replicate (slot_size - 44) 0" "length p = 44"
      by (simp add: to_slot_bytes_def index_magic_def)
    then have "take n (to_slot_bytes l') @ drop n (slot 0 d) = to_slot_bytes l'"
      using False by (simp add: s0 slot_size_def flip: replicate_add) 
    then show ?thesis using w g by (auto simp: t write_slot_def Let_def)
  qed
  then have "read_latest ?c d = Inr l" "read_latest ?c (torn_write ?c l l 20 d) \<in> {Inr l, Inr l'}"
    using index_survives_torn_write [OF _ _ c w, of 20] by simp_all
  moreover have "l \<noteq> l'" using g by auto
  ultimately show ?thesis using c w by blast
qed

end
