(* ===== verification/Wal_Indexed.thy ===== *)
theory Wal_Indexed
  imports Wal_Index Wal_Manager
begin

text \<open>
  The indexed log, \<open>crates/f4kvs-lsm/src/storage/wal_indexed.rs\<close>: a segment is a directory under
  \<open>frames/\<close>, a frame is a file of fixed size in it, and \<open>wal.idx\<close> names the segment in use and its last
  frame.  A file is what the process sees of it and what of it was synced, if anything.  Writing, creating
  and removing files does not fail, but a frame cannot be created in a directory that is gone.
\<close>

record xfile =
  xf_now :: bytes
  xf_safe :: "bytes option"

record xdir =
  xr_name :: string
  xr_created :: nat
  xr_files :: "(string \<times> xfile) list"

record xdisk =
  xd_dirs :: "xdir list"
  xd_index :: "xfile option"

record 'n xenv =
  xe_ser :: "'n wal_entry \<Rightarrow> bytes option"
  xe_de :: "bytes \<Rightarrow> 'n wal_entry option"
  xe_crc :: "bytes \<Rightarrow> u32"
  xe_page :: nat
  xe_count :: nat
  xe_sync :: sync_mode

record ix_segment =
  xs_id :: u32
  xs_frame :: nat
  xs_staging :: bytes
  xs_entries :: nat

record idx_mgr =
  xm_disk :: xdisk
  xm_cur :: "ix_segment option"
  xm_index :: "index_header option"
  xm_segs :: "(u32 \<times> string) list"
  xm_counter :: nat

definition frame_size :: "'n xenv \<Rightarrow> nat" where "frame_size X = max (xe_page X) 8192"
definition data_frame_count :: "'n xenv \<Rightarrow> nat" where "data_frame_count X = max (xe_count X) 64"

definition xm_new :: "xdisk \<Rightarrow> idx_mgr" where
  "xm_new d = \<lparr>xm_disk = d, xm_cur = None, xm_index = None, xm_segs = [], xm_counter = 0\<rparr>"

subsection \<open>Names\<close>

definition padded :: "nat \<Rightarrow> string \<Rightarrow> string" where
  "padded n s = replicate (n - length s) (CHR ''0'') @ s"

definition segment_dir :: "u32 \<Rightarrow> string" where "segment_dir i = hex16 (unat i)"
definition frame_file :: "nat \<Rightarrow> string" where "frame_file i = ''frame_'' @ padded 8 (decimal i) @ ''.wal''"

definition parse_u32 :: "nat \<Rightarrow> string \<Rightarrow> nat option" where
  "parse_u32 b s = (case from_str_radix b s of None \<Rightarrow> None | Some n \<Rightarrow> if n < 2 ^ 32 then Some n else None)"

definition frame_id :: "string \<Rightarrow> nat option" where
  "frame_id f = Option.bind (strip_prefix ''frame_'' f) (\<lambda>s. Option.bind (strip_suffix ''.wal'' s) (parse_u32 10))"

subsection \<open>Files\<close>

definition sync_file :: "'n xenv \<Rightarrow> xfile \<Rightarrow> xfile" where
  "sync_file X f = (case xe_sync X of SyncFsync \<Rightarrow> f\<lparr>xf_safe := Some (xf_now f)\<rparr> | _ \<Rightarrow> f)"

definition find_dir :: "string \<Rightarrow> xdisk \<Rightarrow> xdir option" where
  "find_dir n d = find (\<lambda>r. xr_name r = n) (xd_dirs d)"

definition create_dir :: "nat \<Rightarrow> string \<Rightarrow> xdisk \<Rightarrow> xdisk" where
  "create_dir now n d =
     (if find_dir n d = None then d\<lparr>xd_dirs := xd_dirs d @ [\<lparr>xr_name = n, xr_created = now, xr_files = []\<rparr>]\<rparr> else d)"

definition remove_frames_dir :: "string \<Rightarrow> xdisk \<Rightarrow> xdisk" where
  "remove_frames_dir n d = d\<lparr>xd_dirs := filter (\<lambda>r. xr_name r \<noteq> n) (xd_dirs d)\<rparr>"

definition store_file :: "string \<Rightarrow> (xfile option \<Rightarrow> xfile) \<Rightarrow> (string \<times> xfile) list \<Rightarrow> (string \<times> xfile) list" where
  "store_file n f fs =
     (if map_of fs n = None then fs @ [(n, f None)]
      else map (\<lambda>(m, x). (m, if m = n then f (Some x) else x)) fs)"

text \<open>\<open>write_frame_file\<close>: the file gets the size of the padded frame and is written from its start.\<close>

definition write_frame_file :: "'n xenv \<Rightarrow> u32 \<Rightarrow> nat \<Rightarrow> bytes \<Rightarrow> xdisk \<Rightarrow> unit res \<times> xdisk" where
  "write_frame_file X seg i bs d =
     (if find_dir (segment_dir seg) d = None then (Inl (Io NotFound ''No such file or directory''), d)
      else
        let frame = bs @ replicate (max (frame_size X) (length bs) - length bs) 0;
            put = (\<lambda>old. sync_file X \<lparr>xf_now = frame, xf_safe = (case old of None \<Rightarrow> None | Some x \<Rightarrow> xf_safe x)\<rparr>) in
        (Inr (), d\<lparr>xd_dirs := map (\<lambda>r. if xr_name r = segment_dir seg
             then r\<lparr>xr_files := store_file (frame_file i) put (xr_files r)\<rparr> else r) (xd_dirs d)\<rparr>))"

text \<open>Opening the index creates it; a write to it goes through the open handle, also when the file was
  removed behind its back, and only a durable one looks for the file again.\<close>

definition open_index :: "'n xenv \<Rightarrow> u32 \<Rightarrow> xdisk \<Rightarrow> index_header \<times> xdisk" where
  "open_index X seg d =
     (let (h, c) = index_open (xe_crc X) seg (word_of_nat (frame_size X)) (map_option xf_now (xd_index d)) in
      (h, d\<lparr>xd_index := Some \<lparr>xf_now = c, xf_safe = (case xd_index d of None \<Rightarrow> None | Some f \<Rightarrow> xf_safe f)\<rparr>\<rparr>))"

definition commit_index :: "'n xenv \<Rightarrow> bool \<Rightarrow> index_header \<Rightarrow> index_header \<Rightarrow> xdisk \<Rightarrow> index_header res \<times> xdisk" where
  "commit_index X durable latest h d =
     (case xd_index d of
        None \<Rightarrow> (if durable then Inl (Io NotFound ''No such file or directory'') else Inr (stamped (xe_crc X) latest h), d)
      | Some f \<Rightarrow>
          (let (h, c) = write_slot (xe_crc X) latest h (xf_now f) in
           (Inr h, d\<lparr>xd_index := Some \<lparr>xf_now = c, xf_safe = (if durable then Some c else xf_safe f)\<rparr>\<rparr>)))"

subsection \<open>The segment in use\<close>

definition frames_remaining :: "'n xenv \<Rightarrow> ix_segment \<Rightarrow> nat" where
  "frames_remaining X g =
     (if xs_frame g = 0 \<or> data_frame_count X < xs_frame g then 0 else data_frame_count X - xs_frame g + 1)"

definition has_frame_capacity :: "'n xenv \<Rightarrow> ix_segment \<Rightarrow> bool" where
  "has_frame_capacity X g \<longleftrightarrow> 0 < frames_remaining X g"

definition u32_saturating :: "nat \<Rightarrow> nat" where "u32_saturating n = min n (2 ^ 32 - 1)"
definition u64_plus :: "u64 \<Rightarrow> nat \<Rightarrow> u64" where "u64_plus w n = word_of_nat (min (unat w + n) (2 ^ 64 - 1))"

text \<open>The state of a write: the segment, the latest header of the index and the disk.\<close>

type_synonym xstate = "ix_segment \<times> index_header \<times> xdisk"

definition commit_frame :: "'n xenv \<Rightarrow> bytes \<Rightarrow> nat \<Rightarrow> xstate \<Rightarrow> unit res \<times> xstate" where
  "commit_frame X bs n s =
     (case s of (g, h, d) \<Rightarrow>
       (case write_frame_file X (xs_id g) (xs_frame g) bs d of (Inl e, d) \<Rightarrow> (Inl e, g, h, d)
        | (Inr _, d) \<Rightarrow>
          (case commit_index X False h (h\<lparr>ih_frame := word_of_nat (xs_frame g), ih_offset := word_of_nat (length bs),
                  ih_entries := u64_plus (ih_entries h) n\<rparr>) d of
             (Inl e, d) \<Rightarrow> (Inl e, g, h, d)
           | (Inr h, d) \<Rightarrow> (Inr (), g\<lparr>xs_frame := u32_saturating (xs_frame g + 1)\<rparr>, h, d))))"

definition flush_staging :: "'n xenv \<Rightarrow> xstate \<Rightarrow> bool res \<times> xstate" where
  "flush_staging X s =
     (case s of (g, h, d) \<Rightarrow>
       if xs_staging g = [] then (Inr True, s)
       else if \<not> has_frame_capacity X g then (Inr False, s)
       else and_then (commit_frame X (xs_staging g) (xs_entries g) s) (\<lambda>_ (g, h, d).
         (Inr True, g\<lparr>xs_staging := [], xs_entries := 0\<rparr>, h, d)))"

definition encode_entry :: "'n xenv \<Rightarrow> 'n wal_entry \<Rightarrow> bytes res" where
  "encode_entry X e = (case xe_ser X e of None \<Rightarrow> Inl (Serialization ''wal entry'') | Some b \<Rightarrow> Inr (log_frame b))"

definition stage :: "bytes \<Rightarrow> ix_segment \<Rightarrow> ix_segment" where
  "stage b g = g\<lparr>xs_staging := xs_staging g @ b, xs_entries := xs_entries g + 1\<rparr>"

text \<open>The common part of the two ways to append: \<open>None\<close> when the segment is full, otherwise whether the
  entry has a frame of its own already.\<close>

definition make_room :: "'n xenv \<Rightarrow> bytes \<Rightarrow> xstate \<Rightarrow> bool option res \<times> xstate" where
  "make_room X b s =
     (if frame_size X < length b then
        and_then (if xs_staging (fst s) \<noteq> [] then flush_staging X s else (Inr True, s)) (\<lambda>ok s.
          if \<not> ok then (Inr None, s)
          else if \<not> has_frame_capacity X (fst s) then (Inr None, s)
          else and_then (commit_frame X b 1 s) (\<lambda>_ s. (Inr (Some True), s)))
      else
        and_then (if xs_staging (fst s) \<noteq> [] \<and> frame_size X < length (xs_staging (fst s)) + length b
            then flush_staging X s else (Inr True, s)) (\<lambda>ok s.
          if \<not> ok then (Inr None, s)
          else if xs_staging (fst s) = [] \<and> \<not> has_frame_capacity X (fst s) then (Inr None, s)
          else (Inr (Some False), s)))"

definition append_entry :: "'n xenv \<Rightarrow> 'n wal_entry \<Rightarrow> xstate \<Rightarrow> bool res \<times> xstate" where
  "append_entry X e s =
     (case encode_entry X e of Inl err \<Rightarrow> (Inl err, s)
      | Inr b \<Rightarrow> and_then (make_room X b s) (\<lambda>r (g, h, d).
          case r of None \<Rightarrow> (Inr False, g, h, d)
          | Some True \<Rightarrow> (Inr True, g, h, d)
          | Some False \<Rightarrow>
              if xs_staging g = [] \<and> length b = frame_size X
              then flush_staging X (g\<lparr>xs_staging := b, xs_entries := 1\<rparr>, h, d)
              else if xe_sync X = SyncFsync \<or> xe_sync X = SyncFsyncAsync then flush_staging X (stage b g, h, d)
              else (Inr True, stage b g, h, d)))"

text \<open>How many entries of a batch the segment took.  Staged entries that find no free frame at the end are
  taken back.\<close>

fun append_loop :: "'n xenv \<Rightarrow> 'n wal_entry list \<Rightarrow> nat \<Rightarrow> xstate \<Rightarrow> (nat \<times> bool) res \<times> xstate" where
  "append_loop X [] n s = (Inr (n, True), s)"
| "append_loop X (e # es) n s =
     (case encode_entry X e of Inl err \<Rightarrow> (Inl err, s)
      | Inr b \<Rightarrow> and_then (make_room X b s) (\<lambda>r (g, h, d).
          case r of None \<Rightarrow> (Inr (n, False), g, h, d)
          | Some True \<Rightarrow> append_loop X es (n + 1) (g, h, d)
          | Some False \<Rightarrow> append_loop X es (n + 1) (stage b g, h, d)))"

definition append_entries_batch :: "'n xenv \<Rightarrow> 'n wal_entry list \<Rightarrow> xstate \<Rightarrow> nat res \<times> xstate" where
  "append_entries_batch X es s =
     and_then (append_loop X es 0 s) (\<lambda>(n, all) s.
       if \<not> all then (Inr n, s)
       else and_then (flush_staging X s) (\<lambda>ok (g, h, d).
         if ok then (Inr n, g, h, d)
         else (Inr (n - xs_entries g), g\<lparr>xs_staging := [], xs_entries := 0\<rparr>, h, d)))"

subsection \<open>Reading\<close>

function decode_frames :: "'n xenv \<Rightarrow> bytes \<Rightarrow> 'n wal_entry list res" where
  "decode_frames X bs =
     (if length bs < 4 then Inr []
      else let n = unat (u32_from_le (take 4 bs)); rest = drop 4 bs in
        if n = 0 \<or> length rest < n then Inr []
        else case xe_de X (take n rest) of
            None \<Rightarrow> Inl (Serialization ''decode wal entry'')
          | Some e \<Rightarrow> res_bind (decode_frames X (drop n rest)) (\<lambda>es. Inr (e # es)))"
  by pat_completeness auto
termination
  by (relation "measure (\<lambda>(X, bs). length bs)") auto

declare decode_frames.simps [simp del]

definition list_committed_frame_ids :: "xdir \<Rightarrow> nat list" where
  "list_committed_frame_ids r = sort (List.map_filter frame_id (map fst (xr_files r)))"

text \<open>One frame: the last one is cut at the offset of the index.  An offset beyond the file is a panic of
  the slice, an error value here.\<close>

definition read_frame :: "'n xenv \<Rightarrow> xdir \<Rightarrow> index_header \<Rightarrow> nat \<Rightarrow> nat \<Rightarrow> 'n wal_entry list res" where
  "read_frame X r h fin i =
     (case map_of (xr_files r) (frame_file i) of None \<Rightarrow> Inr []
      | Some f \<Rightarrow>
          let len = length (xf_now f);
              limit = (if i = fin \<and> unat (ih_frame h) = fin \<and> 0 < ih_offset h then unat (ih_offset h) else len) in
          if len < frame_size X then Inl (Io UnexpectedEof ''early eof'')
          else if len < limit then Inl (Internal ''range end index out of range'')
          else decode_frames X (take limit (xf_now f)))"

definition read_committed_entries :: "'n xenv \<Rightarrow> xdir \<Rightarrow> index_header \<Rightarrow> 'n wal_entry list res" where
  "read_committed_entries X r h =
     (let ids = list_committed_frame_ids r;
          fin = max (unat (ih_frame h)) (if ids = [] then 0 else last ids) in
      res_bind (res_all (read_frame X r h fin) [1..<Suc fin]) (\<lambda>ess. Inr (concat ess)))"

subsection \<open>The manager\<close>

definition index_state :: "'n xenv \<Rightarrow> xdisk \<Rightarrow> index_header option" where
  "index_state X d =
     (case xd_index d of None \<Rightarrow> None
      | Some f \<Rightarrow> (case read_latest (xe_crc X) (extended (xf_now f)) of Inl _ \<Rightarrow> None | Inr h \<Rightarrow> Some h))"

definition xm_scan_existing_segments :: "idx_mgr \<Rightarrow> idx_mgr" where
  "xm_scan_existing_segments m =
     m\<lparr>xm_counter := fold max (List.map_filter (from_str_radix 16) (map xr_name (xd_dirs (xm_disk m)))) 0 + 1\<rparr>"

definition xm_flush_current :: "'n xenv \<Rightarrow> string \<Rightarrow> idx_mgr \<Rightarrow> unit res \<times> idx_mgr" where
  "xm_flush_current X err m =
     (case (xm_cur m, xm_index m) of
        (Some g, Some h) \<Rightarrow>
          (case flush_staging X (g, h, xm_disk m) of (r, g, h, d) \<Rightarrow>
             (case r of Inl e \<Rightarrow> Inl e | Inr ok \<Rightarrow> if ok then Inr () else Inl (Internal err),
              m\<lparr>xm_cur := Some g, xm_index := Some h, xm_disk := d\<rparr>))
      | _ \<Rightarrow> (Inr (), m))"

text \<open>The counter of segments has 64 bits and is cut to 32 for the name.\<close>

definition xm_rotate_segment :: "'n xenv \<Rightarrow> nat \<Rightarrow> idx_mgr \<Rightarrow> unit res \<times> idx_mgr" where
  "xm_rotate_segment X now m =
     and_then (xm_flush_current X ''indexed wal segment full with unflushed staging; cannot rotate'' m) (\<lambda>_ m.
       let m = (case xm_cur m of None \<Rightarrow> m
                | Some g \<Rightarrow> m\<lparr>xm_cur := None, xm_segs := filter (\<lambda>(i, _). i \<noteq> xs_id g) (xm_segs m)
                    @ [(xs_id g, segment_dir (xs_id g))]\<rparr>);
           seg = word_of_nat (xm_counter m);
           m = m\<lparr>xm_counter := xm_counter m + 1, xm_disk := create_dir now (segment_dir seg) (xm_disk m)\<rparr>;
           (h, d) = open_index X seg (xm_disk m) in
       (case commit_index X True h (h\<lparr>ih_segment := seg, ih_frame_size := word_of_nat (frame_size X)\<rparr>) d of
          (Inl e, d) \<Rightarrow> (Inl e, m\<lparr>xm_disk := d\<rparr>)
        | (Inr h, d) \<Rightarrow> (Inr (), m\<lparr>xm_disk := d, xm_index := Some h,
              xm_cur := Some \<lparr>xs_id = seg, xs_frame = 1, xs_staging = [], xs_entries = 0\<rparr>\<rparr>)))"

definition xm_initialize :: "'n xenv \<Rightarrow> nat \<Rightarrow> idx_mgr \<Rightarrow> unit res \<times> idx_mgr" where
  "xm_initialize X now m =
     (let m = xm_scan_existing_segments m in
      case index_state X (xm_disk m) of
        None \<Rightarrow> xm_rotate_segment X now m
      | Some h \<Rightarrow>
          (case find_dir (segment_dir (ih_segment h)) (xm_disk m) of
             None \<Rightarrow> xm_rotate_segment X now m
           | Some r \<Rightarrow>
               if 0 < ih_entries h \<or> xr_files r \<noteq> [] then
                 (Inr (), m\<lparr>xm_index := Some h, xm_disk := snd (open_index X 0 (xm_disk m)),
                    xm_cur := Some \<lparr>xs_id = ih_segment h, xs_frame = max (u32_saturating (unat (ih_frame h) + 1)) 1,
                                    xs_staging = [], xs_entries = 0\<rparr>\<rparr>)
               else xm_rotate_segment X now m))"

definition xm_append :: "'n xenv \<Rightarrow> (xstate \<Rightarrow> 'a res \<times> xstate) \<Rightarrow> idx_mgr \<Rightarrow> 'a res \<times> idx_mgr" where
  "xm_append X f m =
     (case xm_cur m of None \<Rightarrow> (Inl (Internal ''indexed wal segment not initialized''), m)
      | Some g \<Rightarrow> (case xm_index m of None \<Rightarrow> (Inl (Internal ''wal.idx not initialized''), m)
        | Some h \<Rightarrow> (case f (g, h, xm_disk m) of (r, g, h, d) \<Rightarrow>
            (r, m\<lparr>xm_cur := Some g, xm_index := Some h, xm_disk := d\<rparr>))))"

definition xm_write_entry :: "'n xenv \<Rightarrow> nat \<Rightarrow> 'n wal_entry \<Rightarrow> idx_mgr \<Rightarrow> unit res \<times> idx_mgr" where
  "xm_write_entry X now e m =
     and_then (xm_append X (append_entry X e) m) (\<lambda>ok m.
       if ok then (Inr (), m)
       else and_then (xm_rotate_segment X now m) (\<lambda>_ m.
         and_then (xm_append X (append_entry X e) m) (\<lambda>ok m.
           if ok then (Inr (), m) else (Inl (Internal ''indexed wal write failed after segment rotation''), m))))"

definition xm_write_operation :: "'n xenv \<Rightarrow> nat \<Rightarrow> key \<Rightarrow> 'n val \<Rightarrow> idx_mgr \<Rightarrow> unit res \<times> idx_mgr" where
  "xm_write_operation X now k v m = xm_write_entry X now (WPut k v now) m"

definition xm_write_delete :: "'n xenv \<Rightarrow> nat \<Rightarrow> key \<Rightarrow> idx_mgr \<Rightarrow> unit res \<times> idx_mgr" where
  "xm_write_delete X now k m = xm_write_entry X now (WDelete k now) m"

text \<open>The loop over a batch; \<open>stalls\<close> counts the rotations since an entry was taken.\<close>

function batch_loop :: "'n xenv \<Rightarrow> nat \<Rightarrow> 'n wal_entry list \<Rightarrow> nat \<Rightarrow> idx_mgr \<Rightarrow> unit res \<times> idx_mgr" where
  "batch_loop X now es stalls m =
     (if es = [] then (Inr (), m)
      else and_then (xm_append X (append_entries_batch X es) m) (\<lambda>n m.
        if n = 0 then
          (if 2 < stalls + 1 then (Inl (Internal ''indexed wal batch made no progress after rotation''), m)
           else and_then (xm_rotate_segment X now m) (\<lambda>_ m. batch_loop X now es (stalls + 1) m))
        else if n < length es then and_then (xm_rotate_segment X now m) (\<lambda>_ m. batch_loop X now (drop n es) 0 m)
        else (Inr (), m)))"
  by pat_completeness auto
termination
  by (relation "measures [\<lambda>(X, now, es, stalls, m). length es, \<lambda>(X, now, es, stalls, m). 2 - stalls]") auto

declare batch_loop.simps [simp del]

definition xm_batch_write_operations :: "'n xenv \<Rightarrow> nat \<Rightarrow> (key \<times> 'n val) list \<Rightarrow> idx_mgr \<Rightarrow> unit res \<times> idx_mgr" where
  "xm_batch_write_operations X now items m =
     (if items = [] then (Inr (), m) else batch_loop X now (map (\<lambda>(k, v). WPut k v now) items) 0 m)"

definition xm_flush :: "'n xenv \<Rightarrow> idx_mgr \<Rightarrow> unit res \<times> idx_mgr" where
  "xm_flush X m = xm_flush_current X ''indexed wal flush failed: segment full with staged data'' m"

text \<open>Recovery: every directory with a number, in the order of the numbers; the one the index names is read
  with the header found there, any other with all its frames.\<close>

definition sealed_state :: "'n xenv \<Rightarrow> u32 \<Rightarrow> xdir \<Rightarrow> index_header" where
  "sealed_state X i r =
     (let ids = list_committed_frame_ids r in
      (header_new (xe_crc X) i (word_of_nat (frame_size X)))\<lparr>ih_frame := word_of_nat (if ids = [] then 0 else last ids),
         ih_offset := 0\<rparr>)"

definition segment_dirs :: "xdisk \<Rightarrow> (nat \<times> xdir) list" where
  "segment_dirs d = sort_key fst (List.map_filter (\<lambda>r. map_option (\<lambda>i. (i, r)) (parse_u32 16 (xr_name r))) (xd_dirs d))"

definition xm_read_entries_from_disk :: "'n xenv \<Rightarrow> idx_mgr \<Rightarrow> 'n wal_entry list res" where
  "xm_read_entries_from_disk X m =
     (let active = index_state X (xm_disk m) in
      res_bind (res_all (\<lambda>(i, r). read_committed_entries X r
           (case active of Some h \<Rightarrow> if unat (ih_segment h) = i then h else sealed_state X (word_of_nat i) r
            | None \<Rightarrow> sealed_state X (word_of_nat i) r)) (segment_dirs (xm_disk m))) (\<lambda>ess.
        Inr (sort_key entry_timestamp (concat ess))))"

definition xm_truncate_after_flush :: "'n xenv \<Rightarrow> nat \<Rightarrow> idx_mgr \<Rightarrow> unit res \<times> idx_mgr" where
  "xm_truncate_after_flush X now m =
     xm_rotate_segment X now (m\<lparr>xm_cur := None, xm_segs := [], xm_index := None,
       xm_disk := (xm_disk m)\<lparr>xd_dirs := [], xd_index := None\<rparr>\<rparr>)"

definition xm_verify_truncated :: "idx_mgr \<Rightarrow> bool" where
  "xm_verify_truncated m \<longleftrightarrow> xm_segs m = [] \<and> length (xd_dirs (xm_disk m)) \<le> 1"

definition xm_mark_clean_shutdown :: "'n xenv \<Rightarrow> nat \<Rightarrow> idx_mgr \<Rightarrow> unit res \<times> idx_mgr" where
  "xm_mark_clean_shutdown X now m =
     and_then (xm_write_entry X now (WCheckpoint now) m) (\<lambda>_ m.
     and_then (xm_flush X m) (\<lambda>_ m. xm_truncate_after_flush X now m))"

definition xm_cleanup_old_segments :: "nat \<Rightarrow> nat \<Rightarrow> idx_mgr \<Rightarrow> idx_mgr" where
  "xm_cleanup_old_segments now retention m =
     (let old = (\<lambda>(_, n). case find_dir n (xm_disk m) of None \<Rightarrow> False | Some r \<Rightarrow> xr_created r < now - retention) in
      m\<lparr>xm_segs := filter (\<lambda>s. \<not> old s) (xm_segs m),
        xm_disk := fold (\<lambda>(_, n). remove_frames_dir n) (filter old (xm_segs m)) (xm_disk m)\<rparr>)"

definition xm_cleanup_flushed_segments :: "nat \<Rightarrow> nat \<Rightarrow> idx_mgr \<Rightarrow> idx_mgr" where
  "xm_cleanup_flushed_segments now grace m = xm_cleanup_old_segments now grace m"

definition xm_force_cleanup :: "idx_mgr \<Rightarrow> idx_mgr" where
  "xm_force_cleanup m =
     m\<lparr>xm_disk := fold (\<lambda>(_, n). remove_frames_dir n) (xm_segs m) (xm_disk m), xm_segs := []\<rparr>"

definition xm_clear_dir :: "idx_mgr \<Rightarrow> idx_mgr" where
  "xm_clear_dir m = m\<lparr>xm_disk := \<lparr>xd_dirs = [], xd_index = None\<rparr>\<rparr>"

subsection \<open>Losing the process and losing power\<close>

definition xm_kill :: "idx_mgr \<Rightarrow> idx_mgr" where
  "xm_kill m = xm_new (xm_disk m)"

text \<open>After a power loss a file is as it was seen, or as it was synced last.\<close>

definition power_file :: "bool \<Rightarrow> xfile \<Rightarrow> xfile option" where
  "power_file keep f =
     (if keep then Some (f\<lparr>xf_safe := Some (xf_now f)\<rparr>)
      else map_option (\<lambda>b. \<lparr>xf_now = b, xf_safe = Some b\<rparr>) (xf_safe f))"

definition power_disk :: "(string \<Rightarrow> bool) \<Rightarrow> xdisk \<Rightarrow> xdisk" where
  "power_disk keep d =
     \<lparr>xd_dirs = map (\<lambda>r. r\<lparr>xr_files := List.map_filter (\<lambda>(n, f). map_option (Pair n) (power_file (keep n) f)) (xr_files r)\<rparr>) (xd_dirs d),
      xd_index = Option.bind (xd_index d) (power_file (keep ''wal.idx''))\<rparr>"

definition xm_power_loss :: "(string \<Rightarrow> bool) \<Rightarrow> idx_mgr \<Rightarrow> idx_mgr" where
  "xm_power_loss keep m = xm_new (power_disk keep (xm_disk m))"

end
