(* ===== verification/Wal_Indexed_Frames.thy ===== *)
theory Wal_Indexed_Frames
  imports Wal_Indexed Wal_Durability
begin

text \<open>
  The files of the indexed log: names and their numbers, the entries of a frame and of a segment directory as
  recovery reads them, and what writing one frame does to the directory and to the index.
\<close>

subsection \<open>Names\<close>

lemma digits_value_zeros: "digits_value b 0 (replicate n (CHR ''0'') @ s) = digits_value b 0 s" if "0 < b"
  using that by (induction n) (simp_all add: digit_val_def)

lemma parse_decimal: "n < 2 ^ 32 \<Longrightarrow> parse_u32 10 (padded 8 (decimal n)) = Some n"
proof -
  assume n: "n < 2 ^ 32"
  have c: "c \<noteq> CHR ''+''" if c: "c \<in> set (padded 8 (decimal n))" for c
  proof (cases "c \<in> set (decimal n)")
    case True
    from decimal_digits [OF this] show ?thesis by (auto simp: digit_char_plus)
  next
    case False
    then have "c = CHR ''0''" using c by (auto simp: padded_def)
    then show ?thesis by simp
  qed
  have "padded 8 (decimal n) \<noteq> []" by (simp add: padded_def)
  then obtain x xs where x: "padded 8 (decimal n) = x # xs" by (cases "padded 8 (decimal n)") auto
  then have "x \<noteq> CHR ''+''" using c [of x] by simp
  then have "from_str_radix 10 (padded 8 (decimal n)) = digits_value 10 0 (padded 8 (decimal n))"
    unfolding x by (simp add: from_str_radix_def)
  also have "\<dots> = Some n" using n by (simp add: padded_def digits_value_zeros decimal_value)
  finally show ?thesis using n by (simp add: parse_u32_def)
qed

lemma frame_id_file [simp]: "n < 2 ^ 32 \<Longrightarrow> frame_id (frame_file n) = Some n"
  unfolding frame_id_def frame_file_def strip_prefix_append by (simp add: parse_decimal)

lemma frame_file_inj: "i < 2 ^ 32 \<Longrightarrow> j < 2 ^ 32 \<Longrightarrow> frame_file i = frame_file j \<longleftrightarrow> i = j"
  using frame_id_file [of i] frame_id_file [of j] by (metis option.inject)

lemma parse_segment [simp]: "n < 2 ^ 32 \<Longrightarrow> parse_u32 16 (hex16 n) = Some n"
  by (simp add: parse_u32_def from_hex16)

lemma hex16_inj: "i < 2 ^ 32 \<Longrightarrow> j < 2 ^ 32 \<Longrightarrow> hex16 i = hex16 j \<longleftrightarrow> i = j"
  using parse_segment [of i] parse_segment [of j] by (metis option.inject)

subsection \<open>What a directory holds\<close>

abbreviation xkeeps :: "'n xenv \<Rightarrow> 'n wal_entry \<Rightarrow> bool" where
  "xkeeps X \<equiv> storable (xe_ser X) (xe_de X) 4294967291"

abbreviation xbody :: "'n xenv \<Rightarrow> 'n wal_entry list \<Rightarrow> bytes" where
  "xbody X \<equiv> body (xe_ser X)"

definition framed :: "'n xenv \<Rightarrow> bytes \<Rightarrow> bytes" where
  "framed X b = b @ replicate (max (frame_size X) (length b) - length b) 0"

lemma body_append: "body ser (es @ fs) = body ser es @ body ser fs"
  by (simp add: body_def)

lemma decode_zeros: "decode_frames X (replicate n 0) = Inr []"
proof (cases "n < 4")
  case False
  then have "take 4 (replicate n (0 :: u8)) = replicate 4 0" by (simp add: min_def)
  moreover have "le_val (replicate 4 0) = 0" by (simp add: eval_nat_numeral)
  ultimately have "unat (u32_from_le (take 4 (replicate n 0))) = 0" by (simp add: u32_from_le_def)
  with False show ?thesis by (subst decode_frames.simps) (simp add: Let_def)
qed (subst decode_frames.simps, simp)

lemma decode_body:
  "\<forall>e \<in> set es. xkeeps X e \<Longrightarrow> decode_frames X (xbody X es @ replicate n 0) = Inr es"
proof (induction es)
  case Nil
  then show ?case by (simp add: decode_zeros)
next
  case (Cons e es)
  then obtain b where b: "xe_ser X e = Some b" "xe_de X b = Some e" "b \<noteq> []" "length b < 4294967296"
    by (auto simp: storable_def)
  let ?r = "xbody X es @ replicate n 0"
  have "decode_frames X (log_frame b @ ?r) = res_bind (decode_frames X ?r) (\<lambda>es. Inr (e # es))"
    by (subst decode_frames.simps) (use b frame_size [of b ?r] frame_body [of b ?r] in \<open>simp add: Let_def\<close>)
  with Cons b show ?case by simp
qed

type_synonym 'n frames_of = "(nat \<times> 'n wal_entry list) list"

definition frames_ok :: "'n xenv \<Rightarrow> 'n frames_of \<Rightarrow> bool" where
  "frames_ok X F \<longleftrightarrow> sorted_wrt (<) (map fst F)
     \<and> (\<forall>(j, es) \<in> set F. 1 \<le> j \<and> j < 2 ^ 32 - 1 \<and> (\<forall>e \<in> set es. xkeeps X e))"

definition dir_holds :: "'n xenv \<Rightarrow> xdir \<Rightarrow> nat \<times> 'n frames_of \<Rightarrow> bool" where
  "dir_holds X r p \<longleftrightarrow> xr_name r = hex16 (fst p) \<and> fst p < 2 ^ 32 \<and> frames_ok X (snd p)
     \<and> map (\<lambda>(n, f). (n, xf_now f)) (xr_files r) = map (\<lambda>(j, es). (frame_file j, framed X (xbody X es))) (snd p)"

definition entries_in :: "'n frames_of \<Rightarrow> 'n wal_entry list" where
  "entries_in F = concat (map snd F)"

lemma files_names:
  assumes "dir_holds X r (i, F)"
  shows "map fst (xr_files r) = map (\<lambda>p. frame_file (fst p)) F"
proof -
  have "map fst (map (\<lambda>(n, f). (n, xf_now f)) (xr_files r)) = map fst (map (\<lambda>(j, es). (frame_file j, framed X (xbody X es))) F)"
    using assms by (simp only: dir_holds_def snd_conv)
  then show ?thesis by (simp add: comp_def split_def)
qed

lemma map_filter_Some: "(\<And>x. x \<in> set xs \<Longrightarrow> f (g x) = Some (h x)) \<Longrightarrow> List.map_filter f (map g xs) = map h xs"
  by (induction xs) (simp_all add: List.map_filter_simps)

lemma sorted_strict_nat: "sorted_wrt (<) (xs :: nat list) \<Longrightarrow> sorted xs"
  by (simp add: strict_sorted_iff)

lemma committed_ids:
  assumes "dir_holds X r (i, F)"
  shows "list_committed_frame_ids r = map fst F"
proof -
  have "List.map_filter frame_id (map (\<lambda>p. frame_file (fst p)) F) = map fst F"
    using assms by (intro map_filter_Some) (auto simp: dir_holds_def frames_ok_def split: prod.splits)
  moreover have "sorted (map fst F)"
    using assms by (intro sorted_strict_nat) (auto simp: dir_holds_def frames_ok_def)
  ultimately show ?thesis by (simp add: list_committed_frame_ids_def files_names [OF assms] sorted_sort_id)
qed

lemma map_of_now: "map_option xf_now (map_of fs n) = map_of (map (\<lambda>(n, f). (n, xf_now f)) fs) n"
  by (induction fs) auto

lemma map_of_frames:
  "(\<forall>p \<in> set F. fst p < 2 ^ 32) \<Longrightarrow> i < 2 ^ 32 \<Longrightarrow>
    map_of (map (\<lambda>(j, es). (frame_file j, g es)) F) (frame_file i) = map_option g (map_of F i)"
  by (induction F) (auto simp: frame_file_inj)

lemma file_of_frame:
  assumes "dir_holds X r (n, F)" and "i < 2 ^ 32"
  shows "map_option xf_now (map_of (xr_files r) (frame_file i)) = map_option (\<lambda>es. framed X (xbody X es)) (map_of F i)"
proof -
  have "\<forall>p \<in> set F. fst p < 2 ^ 32" using assms(1) by (auto simp: dir_holds_def frames_ok_def)
  from map_of_frames [OF this assms(2)] show ?thesis using assms(1) by (simp add: map_of_now dir_holds_def)
qed

text \<open>Visiting the numbers in order and skipping the missing ones gives the frames in order.\<close>

lemma visit_frames:
  "sorted_wrt (<) (map fst F) \<Longrightarrow> \<forall>p \<in> set F. a \<le> fst p \<and> fst p < b \<Longrightarrow>
    concat (map (\<lambda>i. case map_of F i of None \<Rightarrow> [] | Some es \<Rightarrow> es) [a..<b]) = entries_in F"
proof (induction F arbitrary: a)
  case Nil
  then show ?case by (simp add: entries_in_def)
next
  case (Cons p F)
  obtain j es where p: "p = (j, es)" by (cases p)
  have j: "a \<le> j" "j < b" using Cons.prems(2) by (simp_all add: p)
  have up: "[a..<b] = [a..<j] @ j # [Suc j..<b]"
    using j by (metis upt_add_eq_append upt_conv_Cons le_add_diff_inverse less_imp_le_nat)
  have later: "\<forall>q \<in> set F. Suc j \<le> fst q \<and> fst q < b"
    using Cons.prems by (auto simp: p Suc_le_eq)
  have none: "map_of (p # F) i = None" if "i \<in> set [a..<j]" for i
    using that later by (auto simp: p map_of_eq_None_iff)
  let ?g = "\<lambda>F i. case map_of F i of None \<Rightarrow> [] | Some es \<Rightarrow> es"
  have "concat (map (?g (p # F)) [a..<j]) = []" using none by (simp del: map_of.simps)
  moreover have "map (?g (p # F)) [Suc j..<b] = map (?g F) [Suc j..<b]" by (rule map_cong) (auto simp: p)
  moreover have "concat (map (?g F) [Suc j..<b]) = entries_in F"
    using Cons.IH [of "Suc j"] Cons.prems(1) later by (simp add: p)
  moreover have "?g (p # F) j = es" by (simp add: p)
  moreover have "concat (map (?g (p # F)) [a..<b])
      = concat (map (?g (p # F)) [a..<j]) @ ?g (p # F) j @ concat (map (?g (p # F)) [Suc j..<b])"
    unfolding up by (simp only: map_append concat_append list.map concat.simps)
  ultimately have "concat (map (?g (p # F)) [a..<b]) = es @ entries_in F" by (simp only: append_Nil)
  then show ?case by (simp add: entries_in_def p)
qed

lemma last_top: "sorted_wrt (<) (map fst F) \<Longrightarrow> p \<in> set F \<Longrightarrow> fst p \<le> (fst (last F) :: nat)"
  by (induction F) (auto dest: last_in_set intro: less_imp_le)

text \<open>The header says either nothing about the last frame or how long it is.\<close>

lemma read_committed:
  assumes r: "dir_holds X r (n, F)"
    and h: "F \<noteq> [] \<longrightarrow> unat (ih_frame h) \<le> fst (last F)
      \<and> (unat (ih_frame h) = fst (last F) \<and> 0 < ih_offset h \<longrightarrow> unat (ih_offset h) = length (xbody X (snd (last F))))"
  shows "read_committed_entries X r h = Inr (entries_in F)"
proof -
  let ?fin = "max (unat (ih_frame h)) (if map fst F = [] then 0 else last (map fst F))"
  have F: "sorted_wrt (<) (map fst F)" "\<forall>p \<in> set F. 1 \<le> fst p \<and> fst p < 2 ^ 32 \<and> (\<forall>e \<in> set (snd p). xkeeps X e)"
    using r by (auto simp: dir_holds_def frames_ok_def)
  have fin: "?fin < 2 ^ 32"
  proof -
    have "unat (ih_frame h) < 2 ^ 32" using unsigned_less [of "ih_frame h", where 'a = nat] by simp
    moreover have "F \<noteq> [] \<Longrightarrow> fst (last F) < 2 ^ 32" using F(2) by simp
    ultimately show ?thesis by (simp add: last_map)
  qed
  have one: "read_frame X r h ?fin i = Inr (case map_of F i of None \<Rightarrow> [] | Some es \<Rightarrow> es)" if "i \<in> set [1..<Suc ?fin]" for i
  proof (cases "map_of F i")
    case None
    have "i < 2 ^ 32" using that fin by auto
    from file_of_frame [OF r this] None have "map_of (xr_files r) (frame_file i) = None" by simp
    with None show ?thesis by (simp add: read_frame_def)
  next
    case (Some es)
    then have i: "(i, es) \<in> set F" by (rule map_of_SomeD)
    then have k: "\<forall>e \<in> set es. xkeeps X e" using F(2) by auto
    have "i < 2 ^ 32" using that fin by auto
    from Some file_of_frame [OF r this] obtain f where
      f: "map_of (xr_files r) (frame_file i) = Some f" "xf_now f = framed X (xbody X es)" by auto
    have size: "\<not> length (xf_now f) < frame_size X" "length (xbody X es) \<le> length (xf_now f)"
      by (simp_all add: f(2) framed_def)
    show ?thesis
    proof (cases "i = ?fin \<and> unat (ih_frame h) = ?fin \<and> 0 < ih_offset h")
      case True
      have ne: "F \<noteq> []" using i by auto
      have "i \<le> fst (last F)" using last_top [OF F(1) i] by simp
      with True h ne have "fst (last F) = i" by (auto simp: last_map)
      then have "es = snd (last F)"
        using Some F(1) ne by (metis distinct_map last_in_set map_of_eq_Some_iff option.inject prod.collapse strict_sorted_iff)
      then have "unat (ih_offset h) = length (xbody X es)" using True h ne \<open>fst (last F) = i\<close> by auto
      with True f size k decode_body [of es X 0] Some show ?thesis by (simp add: read_frame_def framed_def)
    next
      case False
      have "decode_frames X (xf_now f) = Inr es" using decode_body [OF k] by (simp add: f(2) framed_def)
      with False f(1) size Some show ?thesis by (auto simp: read_frame_def Let_def)
    qed
  qed
  have "\<forall>p \<in> set F. 1 \<le> fst p \<and> fst p < Suc ?fin"
  proof
    fix p assume p: "p \<in> set F"
    then have "fst p \<le> fst (last F)" by (rule last_top [OF F(1)])
    with p F(2) show "1 \<le> fst p \<and> fst p < Suc ?fin" by (auto simp: last_map)
  qed
  note all = visit_frames [OF F(1) this]
  have "res_all (read_frame X r h ?fin) [1..<Suc ?fin]
      = Inr (map (\<lambda>i. case map_of F i of None \<Rightarrow> [] | Some es \<Rightarrow> es) [1..<Suc ?fin])"
    by (rule res_all_Inr) (rule one)
  then show ?thesis unfolding read_committed_entries_def committed_ids [OF r] Let_def by (simp only: res_bind.simps all)
qed

subsection \<open>Writing a frame\<close>

text \<open>The abstract state: the segments with their frames, the one in use last.\<close>

type_synonym 'n segments_of = "(nat \<times> 'n frames_of) list"

definition add_frame :: "'n segments_of \<Rightarrow> nat \<times> 'n wal_entry list \<Rightarrow> 'n segments_of" where
  "add_frame P fr = butlast P @ [(fst (last P), snd (last P) @ [fr])]"

definition all_entries :: "'n segments_of \<Rightarrow> 'n wal_entry list" where
  "all_entries P = concat (map (\<lambda>p. entries_in (snd p)) P)"

definition disk_holds :: "'n xenv \<Rightarrow> 'n segments_of \<Rightarrow> xdisk \<Rightarrow> bool" where
  "disk_holds X P d \<longleftrightarrow> list_all2 (dir_holds X) (xd_dirs d) P \<and> sorted_wrt (<) (map fst P)"

definition xenv_ok :: "'n xenv \<Rightarrow> bool" where
  "xenv_ok X \<longleftrightarrow> frame_size X < 2 ^ 32 \<and> data_frame_count X < 2 ^ 32 - 1 \<and> xe_sync X \<in> {SyncFsync, SyncFsyncAsync}"

definition xcore :: "'n xenv \<Rightarrow> 'n segments_of \<Rightarrow> xstate \<Rightarrow> bool" where
  "xcore X P s = (case s of (g, h, d) \<Rightarrow> disk_holds X P d \<and> P \<noteq> [] \<and> unat (xs_id g) = fst (last P)
     \<and> 1 \<le> xs_frame g \<and> (\<forall>p \<in> set (snd (last P)). fst p < xs_frame g)
     \<and> (\<exists>f. xd_index d = Some f \<and> index_ok (xe_crc X) h (xf_now f)) \<and> unat (ih_segment h) = fst (last P)
     \<and> (snd (last P) \<noteq> [] \<longrightarrow> unat (ih_frame h) = fst (last (snd (last P)))
         \<and> unat (ih_offset h) = length (xbody X (snd (last (snd (last P)))))))"

lemma all_entries_add: "P \<noteq> [] \<Longrightarrow> all_entries (add_frame P (j, es)) = all_entries P @ es"
proof -
  assume "P \<noteq> []"
  then obtain B p where "P = B @ [p]" by (cases P rule: rev_cases) auto
  then show ?thesis by (simp add: add_frame_def all_entries_def entries_in_def)
qed

lemma last_dir:
  assumes "disk_holds X P d" and "P \<noteq> []"
  obtains R r B i F where "xd_dirs d = R @ [r]" "P = B @ [(i, F)]" "list_all2 (dir_holds X) R B" "dir_holds X r (i, F)"
    "\<forall>x \<in> set R. xr_name x \<noteq> hex16 i" "xr_name r = hex16 i"
proof -
  obtain B p where P: "P = B @ [p]" using assms(2) by (cases P rule: rev_cases) auto
  obtain i F where p: "p = (i, F)" by (cases p)
  from assms(1) P obtain R r where R: "xd_dirs d = R @ [r]" "list_all2 (dir_holds X) R B" "dir_holds X r (i, F)"
    by (auto simp: disk_holds_def list_all2_append2 list_all2_Cons2 p)
  have lt: "\<forall>q \<in> set B. fst q < i" using assms(1) by (simp add: disk_holds_def P p sorted_wrt_append)
  have "xr_name x \<noteq> hex16 i" if x: "x \<in> set R" for x
  proof -
    from x obtain k where k: "k < length R" "R ! k = x" by (auto simp: in_set_conv_nth)
    have q: "B ! k \<in> set B" "dir_holds X x (B ! k)"
      using list_all2_nthD [OF R(2) k(1)] k list_all2_lengthD [OF R(2)] by auto
    with lt R(3) have "fst (B ! k) < i" "fst (B ! k) < 2 ^ 32" "i < 2 ^ 32" by (auto simp: dir_holds_def)
    with q(2) show ?thesis by (auto simp: dir_holds_def hex16_inj)
  qed
  with P p R that [of R r B i F] show ?thesis by (auto simp: dir_holds_def)
qed

lemma find_append: "find Q (xs @ ys) = (case find Q xs of None \<Rightarrow> find Q ys | Some x \<Rightarrow> Some x)"
  by (induction xs) auto

lemma find_last:
  assumes "disk_holds X P d" and "P \<noteq> []" and "unat seg = fst (last P)"
  obtains r where "find_dir (segment_dir seg) d = Some r" "dir_holds X r (last P)"
proof -
  obtain R r B i F where d: "xd_dirs d = R @ [r]" "P = B @ [(i, F)]" "dir_holds X r (i, F)"
    "\<forall>x \<in> set R. xr_name x \<noteq> hex16 i" "xr_name r = hex16 i" by (rule last_dir [OF assms(1,2)])
  have "find (\<lambda>x. xr_name x = hex16 i) R = None" using d(4) by (auto simp: find_None_iff)
  then have "find_dir (segment_dir seg) d = Some r"
    using assms(3) d by (simp add: find_dir_def segment_dir_def find_append)
  with d that show ?thesis by simp
qed

lemma write_frame:
  assumes d: "disk_holds X P d" "P \<noteq> []" "unat seg = fst (last P)" and j: "1 \<le> j" "j < 2 ^ 32 - 1"
    and new: "\<forall>p \<in> set (snd (last P)). fst p < j" and es: "\<forall>e \<in> set es. xkeeps X e"
  shows "\<exists>d'. write_frame_file X seg j (xbody X es) d = (Inr (), d') \<and> disk_holds X (add_frame P (j, es)) d'
    \<and> xd_index d' = xd_index d"
proof -
  obtain R r B i F where r: "xd_dirs d = R @ [r]" "P = B @ [(i, F)]" "list_all2 (dir_holds X) R B" "dir_holds X r (i, F)"
    "\<forall>x \<in> set R. xr_name x \<noteq> hex16 i" "xr_name r = hex16 i" by (rule last_dir [OF d(1,2)])
  have seg: "segment_dir seg = hex16 i" using d(3) r(2) by (simp add: segment_dir_def)
  obtain r0 where f: "find_dir (segment_dir seg) d = Some r0" by (rule find_last [OF d])
  have none: "map_of (xr_files r) (frame_file j) = None"
  proof -
    have "map_of F j = None" using new by (auto simp: r(2) map_of_eq_None_iff)
    with file_of_frame [OF r(4), of j] j(2) show ?thesis by simp
  qed
  define put where "put = (\<lambda>old. sync_file X \<lparr>xf_now = framed X (xbody X es), xf_safe = (case old of None \<Rightarrow> None | Some x \<Rightarrow> xf_safe x)\<rparr>)"
  define r' where "r' = r\<lparr>xr_files := xr_files r @ [(frame_file j, put None)]\<rparr>"
  have now: "xf_now (put None) = framed X (xbody X es)" by (simp add: put_def sync_file_def split: sync_mode.split)
  have w: "write_frame_file X seg j (xbody X es) d = (Inr (), d\<lparr>xd_dirs := R @ [r']\<rparr>)"
    using r(5) none
    by (simp add: write_frame_file_def f [unfolded seg] seg r(1,6) framed_def [symmetric] store_file_def r'_def put_def
        Let_def cong: map_cong)
  have "dir_holds X r' (i, F @ [(j, es)])"
    using r(4) es j new now by (auto simp: dir_holds_def r'_def frames_ok_def sorted_wrt_append r(2))
  then have "disk_holds X (add_frame P (j, es)) (d\<lparr>xd_dirs := R @ [r']\<rparr>)"
    using d(1) r by (simp add: disk_holds_def add_frame_def list_all2_appendI)
  with w show ?thesis by auto
qed

lemma capacity: "has_frame_capacity X g \<longleftrightarrow> 1 \<le> xs_frame g \<and> xs_frame g \<le> data_frame_count X"
  by (auto simp: has_frame_capacity_def frames_remaining_def)

lemma commit_frame_ok:
  assumes s: "xcore X P (g, h, d)" and X: "xenv_ok X" and c: "has_frame_capacity X g"
    and gen: "unat (ih_generation h) + 1 < 2 ^ 64" and es: "\<forall>e \<in> set es. xkeeps X e" "length (xbody X es) < 2 ^ 32"
  shows "\<exists>h' d'. commit_frame X (xbody X es) n (g, h, d) = (Inr (), g\<lparr>xs_frame := Suc (xs_frame g)\<rparr>, h', d')
    \<and> xcore X (add_frame P (xs_frame g, es)) (g\<lparr>xs_frame := Suc (xs_frame g)\<rparr>, h', d')
    \<and> unat (ih_generation h') = Suc (unat (ih_generation h))"
proof -
  let ?j = "xs_frame g"
  have j: "1 \<le> ?j" "?j < 2 ^ 32 - 1" "?j \<le> data_frame_count X" using c X by (auto simp: capacity xenv_ok_def)
  from s obtain f where f: "xd_index d = Some f" "index_ok (xe_crc X) h (xf_now f)" by (auto simp: xcore_def)
  have j32: "?j < 2 ^ 32" using j by auto
  from write_frame [OF _ _ _ j(1,2) _ es(1), of P d "xs_id g"] s
  obtain d1 where d1: "write_frame_file X (xs_id g) ?j (xbody X es) d = (Inr (), d1)"
    "disk_holds X (add_frame P (?j, es)) d1" "xd_index d1 = Some f" by (auto simp: xcore_def f(1))
  have ng: "ih_generation h \<noteq> - 1"
  proof
    assume "ih_generation h = - 1"
    then have "unat (ih_generation h) = 2 ^ 64 - 1" by (simp add: unsigned_minus_1_eq_mask mask_eq_exp_minus_1)
    with gen show False by simp
  qed
  define h0 where "h0 = h\<lparr>ih_frame := word_of_nat ?j, ih_offset := word_of_nat (length (xbody X es)),
                  ih_entries := u64_plus (ih_entries h) n\<rparr>"
  obtain h' c' where w: "write_slot (xe_crc X) h h0 (xf_now f) = (h', c')" by (cases "write_slot (xe_crc X) h h0 (xf_now f)")
  have h': "h' = stamped (xe_crc X) h h0" using w by (simp add: write_slot_def Let_def)
  have ok: "index_ok (xe_crc X) h' c'" using write_slot_ok [OF index_ok_below [OF f(2)] ng, of h0] w by simp
  define d' where "d' = d1\<lparr>xd_index := Some \<lparr>xf_now = c', xf_safe = xf_safe f\<rparr>\<rparr>"
  have ci: "commit_index X False h h0 d1 = (Inr h', d')" by (simp add: commit_index_def d1(3) w d'_def)
  have sat: "u32_saturating (?j + 1) = Suc ?j" using j X by (auto simp: u32_saturating_def xenv_ok_def)
  have "commit_frame X (xbody X es) n (g, h, d) = (Inr (), g\<lparr>xs_frame := Suc ?j\<rparr>, h', d')"
    using d1(1) ci sat by (simp add: commit_frame_def h0_def)
  moreover have "xcore X (add_frame P (?j, es)) (g\<lparr>xs_frame := Suc ?j\<rparr>, h', d')"
  proof -
    have "disk_holds X (add_frame P (?j, es)) d'" using d1(2) by (simp add: disk_holds_def d'_def)
    moreover have "\<forall>p \<in> set (snd (last P)). fst p < Suc ?j" using s by (auto simp: xcore_def less_Suc_eq)
    ultimately show ?thesis
      using s ok j32 es(2) by (simp add: xcore_def add_frame_def d'_def h' h0_def unat_of_nat)
  qed
  moreover have "unat (ih_generation h') = Suc (unat (ih_generation h))"
    using next_generation [OF ng] by (simp add: h' stamped_generation [OF ng])
  ultimately show ?thesis by blast
qed

end
