(* ===== verification/Wal_Indexed_Correct.thy ===== *)
theory Wal_Indexed_Correct
  imports Wal_Indexed_Frames
begin

text \<open>
  The indexed log keeps the promises of the locale \<open>wal_log\<close> when the process is killed and every write is
  flushed to its frame (the sync modes \<open>Fsync\<close> and \<open>FsyncAsync\<close>): interpretation \<open>idx\<close>.
\<close>

subsection \<open>Appending to the segment\<close>

text \<open>\<open>S\<close> are the staged entries.  Every write of the index moves its generation, and takes a staged entry at
  least: \<open>generation + staged\<close> grows by one for an entry.\<close>

definition xgen :: "xstate \<Rightarrow> nat" where "xgen s = unat (ih_generation (fst (snd s)))"

definition xinv :: "'n xenv \<Rightarrow> 'n segments_of \<Rightarrow> 'n wal_entry list \<Rightarrow> xstate \<Rightarrow> bool" where
  "xinv X P S s \<longleftrightarrow> xcore X P s \<and> xs_staging (fst s) = xbody X S \<and> xs_entries (fst s) = length S
     \<and> (\<forall>e \<in> set S. xkeeps X e) \<and> length (xbody X S) \<le> frame_size X \<and> (S \<noteq> [] \<longrightarrow> has_frame_capacity X (fst s))"

definition grows :: "'n xenv \<Rightarrow> 'n segments_of \<Rightarrow> 'n wal_entry list \<Rightarrow> xstate \<Rightarrow> 'n wal_entry list
    \<Rightarrow> 'n segments_of \<Rightarrow> 'n wal_entry list \<Rightarrow> xstate \<Rightarrow> bool" where
  "grows X P S s new P' S' s' \<longleftrightarrow> xinv X P' S' s' \<and> map fst P' = map fst P
     \<and> all_entries P' @ S' = all_entries P @ S @ new \<and> xgen s' + length S' \<le> xgen s + length S + length new"

lemma grows_refl: "xinv X P S s \<Longrightarrow> grows X P S s [] P S s"
  by (simp add: grows_def)

lemma grows_trans: "grows X P S s es P1 S1 s1 \<Longrightarrow> grows X P1 S1 s1 fs P2 S2 s2 \<Longrightarrow> grows X P S s (es @ fs) P2 S2 s2"
  unfolding grows_def by (elim conjE, intro conjI) (simp_all add: append_assoc [symmetric] del: append_assoc)

lemma body_empty [simp]: "xbody X S = [] \<longleftrightarrow> S = []"
proof (cases S)
  case (Cons e es)
  have "length (xbody X S) \<ge> 4" by (simp add: Cons)
  then have "xbody X S \<noteq> []" by (metis list.size(3) not_numeral_le_zero)
  then show ?thesis by (simp add: Cons)
qed (simp add: body_def)

lemma empty_body [simp]: "[] = xbody X S \<longleftrightarrow> S = []"
  by (metis body_empty)

lemma commit_grows:
  assumes s: "xinv X P [] s" and X: "xenv_ok X" and c: "has_frame_capacity X (fst s)" and g: "xgen s + 1 < 2 ^ 64"
    and es: "\<forall>e \<in> set es. xkeeps X e" "length (xbody X es) < 2 ^ 32" "es \<noteq> []"
  shows "\<exists>P' s'. commit_frame X (xbody X es) n s = (Inr (), s') \<and> grows X P [] s es P' [] s'"
proof -
  obtain g0 h d where s': "s = (g0, h, d)" by (cases s)
  have "xcore X P (g0, h, d)" "has_frame_capacity X g0" "unat (ih_generation h) + 1 < 2 ^ 64"
    using s c g by (simp_all add: s' xinv_def xgen_def)
  from commit_frame_ok [OF this(1) X this(2,3) es(1,2), of n] obtain h' d' where w:
    "commit_frame X (xbody X es) n (g0, h, d) = (Inr (), g0\<lparr>xs_frame := Suc (xs_frame g0)\<rparr>, h', d')"
    "xcore X (add_frame P (xs_frame g0, es)) (g0\<lparr>xs_frame := Suc (xs_frame g0)\<rparr>, h', d')"
    "unat (ih_generation h') = Suc (unat (ih_generation h))" by blast
  have P: "P \<noteq> []" using s by (simp add: xinv_def xcore_def s')
  then have "map fst (add_frame P (xs_frame g0, es)) = map fst P"
    by (cases P rule: rev_cases) (simp_all add: add_frame_def)
  moreover have "Suc 0 \<le> length es" using es(3) by (cases es) simp_all
  ultimately have "grows X P [] s es (add_frame P (xs_frame g0, es)) [] (g0\<lparr>xs_frame := Suc (xs_frame g0)\<rparr>, h', d')"
    using w(2,3) s P by (simp add: grows_def xinv_def s' xgen_def all_entries_add)
  with w(1) show ?thesis by (auto simp: s')
qed

lemma flush_staging_ok:
  assumes s: "xinv X P S s" and X: "xenv_ok X" and g: "xgen s + length S < 2 ^ 64"
  shows "\<exists>P' s'. flush_staging X s = (Inr True, s') \<and> grows X P S s [] P' [] s'
    \<and> (S = [] \<longrightarrow> s' = s) \<and> xs_id (fst s') = xs_id (fst s)"
proof (cases "S = []")
  case True
  with s grows_refl [OF s] show ?thesis by (cases s) (auto simp: flush_staging_def xinv_def)
next
  case False
  obtain g0 h d where s': "s = (g0, h, d)" by (cases s)
  have c: "xcore X P (g0, h, d)" "has_frame_capacity X g0" "unat (ih_generation h) + 1 < 2 ^ 64"
    using s g False by (cases S; simp add: s' xinv_def xgen_def)+
  have S: "\<forall>e \<in> set S. xkeeps X e" "length (xbody X S) < 2 ^ 32" "xs_staging g0 = xbody X S" "xs_entries g0 = length S"
    using s X by (simp_all add: xinv_def xenv_ok_def s')
  from commit_frame_ok [OF c(1) X c(2,3) S(1,2), of "length S"] obtain h' d' where w:
    "commit_frame X (xbody X S) (length S) (g0, h, d) = (Inr (), g0\<lparr>xs_frame := Suc (xs_frame g0)\<rparr>, h', d')"
    "xcore X (add_frame P (xs_frame g0, S)) (g0\<lparr>xs_frame := Suc (xs_frame g0)\<rparr>, h', d')"
    "unat (ih_generation h') = Suc (unat (ih_generation h))" by blast
  let ?g = "g0\<lparr>xs_frame := Suc (xs_frame g0), xs_staging := [], xs_entries := 0\<rparr>"
  have P: "P \<noteq> []" using c by (simp add: xcore_def)
  then have m: "map fst (add_frame P (xs_frame g0, S)) = map fst P"
    by (cases P rule: rev_cases) (simp_all add: add_frame_def)
  have "xcore X (add_frame P (xs_frame g0, S)) (?g, h', d')" using w(2) by (simp add: xcore_def)
  moreover have "Suc 0 \<le> length S" using False by (cases S) simp_all
  ultimately have "grows X P S s [] (add_frame P (xs_frame g0, S)) [] (?g, h', d')"
    using w(3) P m by (simp add: grows_def xinv_def s' xgen_def all_entries_add body_def)
  moreover have "flush_staging X s = (Inr True, ?g, h', d')" using w(1) c(2) S False by (simp add: flush_staging_def s')
  ultimately show ?thesis using False by (auto simp: s')
qed


text \<open>A segment that cannot take an entry has nothing staged.\<close>

lemma make_room_ok:
  assumes s: "xinv X P S s" and X: "xenv_ok X" and g: "xgen s + length S + 1 < 2 ^ 64" and e: "xkeeps X e"
  shows "\<exists>r P' S' s'. make_room X (log_frame (the (xe_ser X e))) s = (Inr r, s')
    \<and> grows X P S s (if r = Some True then [e] else []) P' S' s'
    \<and> (r \<noteq> Some False \<longrightarrow> S' = []) \<and> (S = [] \<and> has_frame_capacity X (fst s) \<longrightarrow> r \<noteq> None)
    \<and> (r = Some False \<longrightarrow> has_frame_capacity X (fst s') \<and> length (xbody X (S' @ [e])) \<le> frame_size X)"
proof -
  let ?b = "log_frame (the (xe_ser X e))"
  have b: "?b = xbody X [e]" by (simp add: body_def)
  have lb: "length (xbody X [e]) < 2 ^ 32" using e by (auto simp: storable_def)
  have stg: "xs_staging (fst s) = xbody X S" and cap: "S \<noteq> [] \<longrightarrow> has_frame_capacity X (fst s)"
    and fit: "length (xbody X S) \<le> frame_size X" using s by (simp_all add: xinv_def)
  have "xgen s + length S < 2 ^ 64" using g by simp
  from flush_staging_ok [OF s X this] obtain P1 s1 where f: "flush_staging X s = (Inr True, s1)"
    "grows X P S s [] P1 [] s1" "S = [] \<longrightarrow> s1 = s" by blast
  have i1: "xinv X P1 [] s1" and st1: "xs_staging (fst s1) = []" and g1: "xgen s1 + 1 < 2 ^ 64"
    using f(2) g by (auto simp: grows_def xinv_def body_def)
  show ?thesis
  proof (cases "frame_size X < length ?b")
    case True
    have w: "(if xs_staging (fst s) \<noteq> [] then flush_staging X s else (Inr True, s)) = (Inr True, s1)"
      using f(1,3) by (simp add: stg)
    have m: "make_room X ?b s = (if \<not> has_frame_capacity X (fst s1) then (Inr None, s1)
        else and_then (commit_frame X ?b 1 s1) (\<lambda>_ s. (Inr (Some True), s)))"
      unfolding make_room_def if_P [OF True] w by simp
    show ?thesis
    proof (cases "has_frame_capacity X (fst s1)")
      case False
      then have "make_room X ?b s = (Inr None, s1)" by (simp add: m)
      moreover have "\<not> (S = [] \<and> has_frame_capacity X (fst s))" using False f(3) by auto
      ultimately show ?thesis using f(2)
        by (intro exI [of _ None] exI [of _ P1] exI [of _ "[]"] exI [of _ s1]) simp
    next
      case c: True
      from commit_grows [OF i1 X c g1, of "[e]" 1] e lb obtain P2 s2 where
        c2: "commit_frame X ?b 1 s1 = (Inr (), s2)" "grows X P1 [] s1 [e] P2 [] s2" unfolding b by auto
      then have "make_room X ?b s = (Inr (Some True), s2)" using c by (simp add: m)
      moreover have "grows X P S s [e] P2 [] s2" using grows_trans [OF f(2) c2(2)] by simp
      ultimately show ?thesis
        by (intro exI [of _ "Some True"] exI [of _ P2] exI [of _ "[]"] exI [of _ s2]) simp
    qed
  next
    case False
    show ?thesis
    proof (cases "S \<noteq> [] \<and> frame_size X < length (xbody X S) + length ?b")
      case True
      then have "xs_staging (fst s) \<noteq> [] \<and> frame_size X < length (xs_staging (fst s)) + length ?b" by (simp add: stg)
      then have m: "make_room X ?b s =
          (if \<not> has_frame_capacity X (fst s1) then (Inr None, s1) else (Inr (Some False), s1))"
        using st1 unfolding make_room_def if_not_P [OF False] by (simp add: f(1))
      show ?thesis
      proof (cases "has_frame_capacity X (fst s1)")
        case c: True
        then have "length (xbody X [e]) \<le> frame_size X" using False b by (simp only: not_less)
        with m c True f(2) show ?thesis
          by (intro exI [of _ "Some False"] exI [of _ P1] exI [of _ "[]"] exI [of _ s1]) simp
      next
        case False
        with m True f(2) show ?thesis
          by (intro exI [of _ None] exI [of _ P1] exI [of _ "[]"] exI [of _ s1]) simp
      qed
    next
      case small: False
      then have n: "\<not> (xs_staging (fst s) \<noteq> [] \<and> frame_size X < length (xs_staging (fst s)) + length ?b)"
        by (simp add: stg)
      have m: "make_room X ?b s = (if S = [] \<and> \<not> has_frame_capacity X (fst s) then (Inr None, s) else (Inr (Some False), s))"
        unfolding make_room_def if_not_P [OF False] if_not_P [OF n] by (simp add: stg)
      show ?thesis
      proof (cases "S = [] \<and> \<not> has_frame_capacity X (fst s)")
        case True
        with m grows_refl [OF s] show ?thesis
          by (intro exI [of _ None] exI [of _ P] exI [of _ S] exI [of _ s]) simp
      next
        case c: False
        have "length (xbody X (S @ [e])) \<le> frame_size X" using False small by (cases "S = []"; simp add: body_append)
        moreover have "has_frame_capacity X (fst s)" using c cap by blast
        moreover have "make_room X ?b s = (Inr (Some False), s)" using c by (simp only: m if_False)
        ultimately show ?thesis using grows_refl [OF s]
          by (intro exI [of _ "Some False"] exI [of _ P] exI [of _ S] exI [of _ s]) simp
      qed
    qed
  qed
qed


lemma stage_grows:
  assumes "xinv X P S (g, h, d)" and "has_frame_capacity X g" and "length (xbody X (S @ [e])) \<le> frame_size X" and "xkeeps X e"
  shows "grows X P S (g, h, d) [e] P (S @ [e]) (stage (log_frame (the (xe_ser X e))) g, h, d)"
  using assms by (simp add: grows_def xinv_def stage_def xcore_def xgen_def capacity body_append)

lemma encode_keeps: "xkeeps X e \<Longrightarrow> encode_entry X e = Inr (log_frame (the (xe_ser X e)))"
  by (auto simp: encode_entry_def storable_def)

lemma append_entry_ok:
  assumes s: "xinv X P [] s" and X: "xenv_ok X" and g: "xgen s + 1 < 2 ^ 64" and e: "xkeeps X e"
  shows "\<exists>ok P' s'. append_entry X e s = (Inr ok, s') \<and> grows X P [] s (if ok then [e] else []) P' [] s'
    \<and> (has_frame_capacity X (fst s) \<longrightarrow> ok)"
proof -
  let ?b = "log_frame (the (xe_ser X e))"
  have "xgen s + length [] + 1 < 2 ^ 64" using g by simp
  from make_room_ok [OF s X this e] obtain r P1 S1 s1 where m: "make_room X ?b s = (Inr r, s1)"
    "grows X P [] s (if r = Some True then [e] else []) P1 S1 s1"
    "r \<noteq> Some False \<longrightarrow> S1 = []" "has_frame_capacity X (fst s) \<longrightarrow> r \<noteq> None"
    "r = Some False \<longrightarrow> has_frame_capacity X (fst s1) \<and> length (xbody X (S1 @ [e])) \<le> frame_size X" by (simp only: simp_thms) blast
  obtain g1 h1 d1 where s1: "s1 = (g1, h1, d1)" by (cases s1)
  note a = append_entry_def encode_keeps [OF e] m(1) s1
  consider "r = None" | "r = Some True" | "r = Some False" by (cases r) auto
  then show ?thesis
  proof cases
    case 1
    with m show ?thesis by (intro exI [of _ False] exI [of _ P1] exI [of _ s1]) (simp add: a)
  next
    case 2
    with m show ?thesis by (intro exI [of _ True] exI [of _ P1] exI [of _ s1]) (simp add: a)
  next
    case 3
    let ?s2 = "(stage ?b g1, h1, d1)"
    have st: "grows X P1 S1 s1 [e] P1 (S1 @ [e]) ?s2"
      using stage_grows [of X P1 S1 g1 h1 d1 e] 3 m(2,5) e by (simp add: s1 grows_def)
    have gr: "grows X P [] s [e] P1 (S1 @ [e]) ?s2" using grows_trans [OF _ st, of P "[]" s "[]"] m(2) 3 by simp
    then have i2: "xinv X P1 (S1 @ [e]) ?s2" and g2: "xgen ?s2 + length (S1 @ [e]) < 2 ^ 64"
      using g by (auto simp: grows_def)
    from flush_staging_ok [OF i2 X g2] obtain P3 s3 where f: "flush_staging X ?s2 = (Inr True, s3)"
      "grows X P1 (S1 @ [e]) ?s2 [] P3 [] s3" by blast
    have ent: "xs_staging g1 = [] \<Longrightarrow> g1\<lparr>xs_staging := ?b, xs_entries := 1\<rparr> = stage ?b g1"
      using m(2) by (simp add: grows_def xinv_def s1 stage_def)
    have "xe_sync X = SyncFsync \<or> xe_sync X = SyncFsyncAsync" using X by (auto simp: xenv_ok_def)
    then have "append_entry X e s = (Inr True, s3)"
      using f(1) ent by (simp add: a 3 del: One_nat_def)
    with grows_trans [OF gr f(2)] show ?thesis by (intro exI [of _ True] exI [of _ P3] exI [of _ s3]) simp
  qed
qed

lemma append_loop_ok:
  "xinv X P S s \<Longrightarrow> xenv_ok X \<Longrightarrow> xgen s + length S + length es < 2 ^ 64 \<Longrightarrow> \<forall>e \<in> set es. xkeeps X e \<Longrightarrow>
    \<exists>k P' S' s'. append_loop X es n s = (Inr (n + k, k = length es), s') \<and> k \<le> length es
      \<and> grows X P S s (take k es) P' S' s' \<and> (k < length es \<longrightarrow> S' = [])
      \<and> (es \<noteq> [] \<and> S = [] \<and> has_frame_capacity X (fst s) \<longrightarrow> 0 < k)"
proof (induction es arbitrary: P S s n)
  case Nil
  with grows_refl [OF Nil(1)] show ?case by auto
next
  case (Cons e es)
  let ?b = "log_frame (the (xe_ser X e))"
  have e: "xkeeps X e" "\<forall>e \<in> set es. xkeeps X e" "xgen s + length S + 1 < 2 ^ 64" using Cons.prems(3,4) by simp_all
  from make_room_ok [OF Cons.prems(1,2) e(3,1)] obtain r P1 S1 s1 where m: "make_room X ?b s = (Inr r, s1)"
    "grows X P S s (if r = Some True then [e] else []) P1 S1 s1" "r \<noteq> Some False \<longrightarrow> S1 = []"
    "S = [] \<and> has_frame_capacity X (fst s) \<longrightarrow> r \<noteq> None"
    "r = Some False \<longrightarrow> has_frame_capacity X (fst s1) \<and> length (xbody X (S1 @ [e])) \<le> frame_size X" by blast
  obtain g1 h1 d1 where s1: "s1 = (g1, h1, d1)" by (cases s1)
  show ?case
  proof (cases "r = None")
    case True
    then have "append_loop X (e # es) n s = (Inr (n, False), s1)" using m(1) by (simp add: encode_keeps [OF e(1)] s1)
    with True m show ?thesis by (intro exI [of _ 0] exI [of _ P1] exI [of _ S1] exI [of _ s1]) simp
  next
    case False
    define S2 where "S2 = (if r = Some True then S1 else S1 @ [e])"
    define s2 where "s2 = (if r = Some True then s1 else (stage ?b g1, h1, d1))"
    have l: "append_loop X (e # es) n s = append_loop X es (n + 1) s2"
      using m(1) False by (auto simp: encode_keeps [OF e(1)] s1 s2_def split: option.splits bool.splits)
    have g2: "grows X P S s [e] P1 S2 s2"
    proof (cases "r = Some True")
      case True
      with m(2) show ?thesis by (simp add: S2_def s2_def)
    next
      case f: False
      with False have r: "r = Some False" by auto
      then have "grows X P1 S1 s1 [e] P1 S2 s2"
        using stage_grows [of X P1 S1 g1 h1 d1 e] m(2,5) e(1) by (simp add: s1 grows_def S2_def s2_def)
      from grows_trans [OF _ this, of P S s "[]"] m(2) r show ?thesis by simp
    qed
    then have "xinv X P1 S2 s2" "xgen s2 + length S2 + length es < 2 ^ 64" using Cons.prems(3) by (auto simp: grows_def)
    from Cons.IH [OF this(1) Cons.prems(2) this(2) e(2), of "n + 1"] obtain k P3 S3 s3 where k:
      "append_loop X es (n + 1) s2 = (Inr (n + 1 + k, k = length es), s3)" "k \<le> length es"
      "grows X P1 S2 s2 (take k es) P3 S3 s3" "k < length es \<longrightarrow> S3 = []" by blast
    from grows_trans [OF g2 k(3)] k l show ?thesis
      by (intro exI [of _ "Suc k"] exI [of _ P3] exI [of _ S3] exI [of _ s3]) simp
  qed
qed

lemma append_batch_grows:
  assumes s: "xinv X P [] s" and X: "xenv_ok X" and g: "xgen s + length es < 2 ^ 64" and e: "\<forall>e \<in> set es. xkeeps X e"
  shows "\<exists>k P' s'. append_entries_batch X es s = (Inr k, s') \<and> k \<le> length es \<and> grows X P [] s (take k es) P' [] s'
    \<and> (es \<noteq> [] \<and> has_frame_capacity X (fst s) \<longrightarrow> 0 < k)"
proof -
  have "xgen s + length [] + length es < 2 ^ 64" using g by simp
  from append_loop_ok [OF s X this e, of 0] obtain k P1 S1 s1 where l:
    "append_loop X es 0 s = (Inr (k, k = length es), s1)" "k \<le> length es" "grows X P [] s (take k es) P1 S1 s1"
    "k < length es \<longrightarrow> S1 = []" "es \<noteq> [] \<and> has_frame_capacity X (fst s) \<longrightarrow> 0 < k" by (simp only: simp_thms add_0) blast
  show ?thesis
  proof (cases "k = length es")
    case False
    with l show ?thesis by (intro exI [of _ k] exI [of _ P1] exI [of _ s1]) (simp add: append_entries_batch_def)
  next
    case True
    have "xinv X P1 S1 s1" "xgen s1 + length S1 < 2 ^ 64" using l(2,3) g by (auto simp: grows_def)
    from flush_staging_ok [OF this(1) X this(2)] obtain P2 s2 where f: "flush_staging X s1 = (Inr True, s2)"
      "grows X P1 S1 s1 [] P2 [] s2" by blast
    obtain g2 h2 d2 where "s2 = (g2, h2, d2)" by (cases s2)
    with f l True grows_trans [OF l(3) f(2)] show ?thesis
      by (intro exI [of _ k] exI [of _ P2] exI [of _ s2]) (simp add: append_entries_batch_def)
  qed
qed


subsection \<open>The manager\<close>

definition mgen :: "idx_mgr \<Rightarrow> nat" where "mgen m = (case xm_index m of None \<Rightarrow> 0 | Some h \<Rightarrow> unat (ih_generation h))"
definition mroom :: "'n xenv \<Rightarrow> idx_mgr \<Rightarrow> bool" where
  "mroom X m = (case xm_cur m of None \<Rightarrow> False | Some g \<Rightarrow> has_frame_capacity X g)"

definition minv :: "'n xenv \<Rightarrow> 'n segments_of \<Rightarrow> idx_mgr \<Rightarrow> bool" where
  "minv X P m \<longleftrightarrow> (\<exists>g h. xm_cur m = Some g \<and> xm_index m = Some h \<and> xinv X P [] (g, h, xm_disk m)) \<and> fst (last P) < xm_counter m"

text \<open>The index is absent, as after a truncation, or in order with generation \<open>k\<close>.\<close>

definition index_at :: "'n xenv \<Rightarrow> nat \<Rightarrow> xdisk \<Rightarrow> bool" where
  "index_at X k d = (case xd_index d of None \<Rightarrow> k = 0
     | Some f \<Rightarrow> \<exists>h. index_ok (xe_crc X) h (xf_now f) \<and> unat (ih_generation h) = k)"

lemma create_dir_ok:
  assumes d: "disk_holds X P d" and c: "\<forall>p \<in> set P. fst p < c" "c < 2 ^ 32"
  shows "disk_holds X (P @ [(c, [])]) (create_dir now (hex16 c) d)" "xd_index (create_dir now (hex16 c) d) = xd_index d"
proof -
  have "xr_name r \<noteq> hex16 c" if r: "r \<in> set (xd_dirs d)" for r
  proof -
    from r obtain k where k: "k < length (xd_dirs d)" "xd_dirs d ! k = r" by (auto simp: in_set_conv_nth)
    have l: "list_all2 (dir_holds X) (xd_dirs d) P" using d by (simp add: disk_holds_def)
    have "dir_holds X r (P ! k)" "P ! k \<in> set P" using list_all2_nthD [OF l k(1)] k list_all2_lengthD [OF l] by auto
    with c show ?thesis by (auto simp: dir_holds_def hex16_inj)
  qed
  then have n: "find_dir (hex16 c) d = None" by (auto simp: find_dir_def find_None_iff)
  have "dir_holds X \<lparr>xr_name = hex16 c, xr_created = now, xr_files = []\<rparr> (c, [])"
    using c(2) by (simp add: dir_holds_def frames_ok_def)
  with d c(1) show "disk_holds X (P @ [(c, [])]) (create_dir now (hex16 c) d)"
    by (auto simp: disk_holds_def create_dir_def n sorted_wrt_append list_all2_appendI)
  show "xd_index (create_dir now (hex16 c) d) = xd_index d" by (simp add: create_dir_def n)
qed

lemma open_index_ok:
  assumes i: "index_at X k d" and k: "k + 1 < 2 ^ 64"
  shows "\<exists>h d1. open_index X seg d = (h, d1) \<and> xd_dirs d1 = xd_dirs d \<and> unat (ih_generation h) \<le> k \<and> ih_generation h \<noteq> - 1
    \<and> (\<exists>f. xd_index d1 = Some f \<and> index_below (xe_crc X) h (xf_now f))"
proof -
  have "ih_generation h \<noteq> - 1" if "unat (ih_generation h) \<le> k" for h :: index_header
  proof
    assume "ih_generation h = - 1"
    then have "unat (ih_generation h) = 2 ^ 64 - 1" by (simp add: unsigned_minus_1_eq_mask mask_eq_exp_minus_1)
    with that k show False by simp
  qed
  note top = this
  show ?thesis
  proof (cases "xd_index d")
    case None
    have g: "ih_generation (header_new (xe_crc X) seg (word_of_nat (frame_size X))) = 0" by (simp add: header_new_def Let_def)
    with None index_open_new [of "xe_crc X" seg "word_of_nat (frame_size X)"] top show ?thesis by (simp add: open_index_def)
  next
    case (Some f)
    with i obtain h where h: "index_ok (xe_crc X) h (xf_now f)" "unat (ih_generation h) = k" by (auto simp: index_at_def)
    with Some index_open_ok [OF h(1)] index_ok_below [OF h(1)] top [of h] show ?thesis by (simp add: open_index_def)
  qed
qed

lemma rotate_none:
  assumes X: "xenv_ok X" and m: "xm_cur m = None" "disk_holds X P (xm_disk m)" "\<forall>p \<in> set P. fst p < xm_counter m"
    and c: "xm_counter m < 2 ^ 32" and i: "index_at X k (xm_disk m)" "k + 1 < 2 ^ 64"
  shows "\<exists>m'. xm_rotate_segment X now m = (Inr (), m') \<and> minv X (P @ [(xm_counter m, [])]) m' \<and> mroom X m'
    \<and> xm_counter m' = xm_counter m + 1 \<and> mgen m' \<le> k + 1 \<and> xm_segs m' = xm_segs m
    \<and> length (xd_dirs (xm_disk m')) = Suc (length P)"
proof -
  define seg :: u32 where "seg = word_of_nat (xm_counter m)"
  have seg: "unat seg = xm_counter m" using c by (simp add: seg_def unat_of_nat)
  define d where "d = create_dir now (segment_dir seg) (xm_disk m)"
  have "segment_dir seg = hex16 (xm_counter m)" by (simp add: segment_dir_def seg)
  then have d: "disk_holds X (P @ [(xm_counter m, [])]) d" "xd_index d = xd_index (xm_disk m)"
    unfolding d_def using create_dir_ok [OF m(2,3) c] by simp_all
  have "index_at X k d" using i(1) by (simp add: index_at_def d(2))
  from open_index_ok [OF this i(2), of seg] obtain h d1 f where o: "open_index X seg d = (h, d1)" "xd_dirs d1 = xd_dirs d"
    "unat (ih_generation h) \<le> k" "ih_generation h \<noteq> - 1" "xd_index d1 = Some f" "index_below (xe_crc X) h (xf_now f)" by blast
  define h0 where "h0 = h\<lparr>ih_segment := seg, ih_frame_size := word_of_nat (frame_size X)\<rparr>"
  obtain h' c' where w: "write_slot (xe_crc X) h h0 (xf_now f) = (h', c')" by (cases "write_slot (xe_crc X) h h0 (xf_now f)")
  have h': "h' = stamped (xe_crc X) h h0" using w by (simp add: write_slot_def Let_def)
  have ok: "index_ok (xe_crc X) h' c'" using write_slot_ok [OF o(6,4), of h0] w by simp
  define d' where "d' = d1\<lparr>xd_index := Some \<lparr>xf_now = c', xf_safe = Some c'\<rparr>\<rparr>"
  have ci: "commit_index X True h h0 d1 = (Inr h', d')" by (simp add: commit_index_def o(5) w d'_def)
  define m' where "m' = m\<lparr>xm_counter := xm_counter m + 1, xm_disk := d', xm_index := Some h',
      xm_cur := Some \<lparr>xs_id = seg, xs_frame = 1, xs_staging = [], xs_entries = 0\<rparr>\<rparr>"
  have r: "xm_rotate_segment X now m = (Inr (), m')"
    using o(1) ci
    by (simp add: xm_rotate_segment_def xm_flush_current_def m(1) Let_def seg_def [symmetric] d_def [symmetric] h0_def [symmetric] m'_def)
  have dh: "disk_holds X (P @ [(xm_counter m, [])]) d'" using d(1) o(2) by (simp add: disk_holds_def d'_def)
  have "minv X (P @ [(xm_counter m, [])]) m'"
    using dh ok by (simp add: minv_def m'_def xinv_def xcore_def seg h' h0_def d'_def body_def)
  moreover have "mgen m' \<le> k + 1"
    using next_generation [OF o(4)] o(3) by (simp add: mgen_def m'_def h' stamped_generation [OF o(4)])
  moreover have "mroom X m'" by (simp add: mroom_def m'_def capacity data_frame_count_def)
  moreover have "length (xd_dirs (xm_disk m')) = Suc (length P)"
    using dh list_all2_lengthD [of "dir_holds X" "xd_dirs d'" "P @ [(xm_counter m, [])]"] by (simp add: disk_holds_def m'_def)
  ultimately show ?thesis using r by (simp add: m'_def)
qed

lemma minv_parts:
  assumes "minv X P m"
  shows "disk_holds X P (xm_disk m)" "\<forall>p \<in> set P. fst p < xm_counter m" "index_at X (mgen m) (xm_disk m)" "P \<noteq> []"
proof -
  from assms obtain g h where gh: "xm_cur m = Some g" "xm_index m = Some h" "xcore X P (g, h, xm_disk m)"
    by (auto simp: minv_def xinv_def)
  then show d: "disk_holds X P (xm_disk m)" "P \<noteq> []" by (simp_all add: xcore_def)
  show "index_at X (mgen m) (xm_disk m)" using gh by (auto simp: xcore_def index_at_def mgen_def)
  obtain B p where P: "P = B @ [p]" using d(2) by (cases P rule: rev_cases) auto
  have "\<forall>q \<in> set B. fst q < fst p" using d(1) by (simp add: disk_holds_def P sorted_wrt_append)
  with assms show "\<forall>p \<in> set P. fst p < xm_counter m" by (auto simp: minv_def P)
qed

lemma flush_current_ok: "minv X P m \<Longrightarrow> xm_flush_current X err m = (Inr (), m)"
  by (auto simp: minv_def xinv_def body_def xm_flush_current_def flush_staging_def)

lemma rotate_segment_ok:
  assumes X: "xenv_ok X" and m: "minv X P m" and c: "xm_counter m < 2 ^ 32" and i: "mgen m + 1 < 2 ^ 64"
  shows "\<exists>m'. xm_rotate_segment X now m = (Inr (), m') \<and> minv X (P @ [(xm_counter m, [])]) m' \<and> mroom X m'
    \<and> xm_counter m' = xm_counter m + 1 \<and> mgen m' \<le> mgen m + 1"
proof -
  obtain g where g: "xm_cur m = Some g" using m by (auto simp: minv_def)
  define m1 where "m1 = m\<lparr>xm_cur := None, xm_segs := filter (\<lambda>(i, _). i \<noteq> xs_id g) (xm_segs m) @ [(xs_id g, segment_dir (xs_id g))]\<rparr>"
  have r: "xm_rotate_segment X now m = xm_rotate_segment X now m1"
    using flush_current_ok [OF m]
    by (simp add: xm_rotate_segment_def g m1_def xm_flush_current_def [of _ _ "m\<lparr>xm_cur := _, xm_segs := _\<rparr>"])
  note p = minv_parts [OF m]
  have m1: "xm_cur m1 = None" "xm_disk m1 = xm_disk m" "xm_counter m1 = xm_counter m" by (simp_all add: m1_def)
  from rotate_none [OF X m1(1), of P "mgen m" now] p c i show ?thesis unfolding r m1(2,3) by blast
qed


lemma append_step:
  assumes m: "minv X P m" and f: "\<And>s. xinv X P [] s \<Longrightarrow> xgen s = mgen m \<Longrightarrow>
      \<exists>r P' s'. f s = (Inr r, s') \<and> grows X P [] s (new r) P' [] s' \<and> Q (has_frame_capacity X (fst s)) r"
  shows "\<exists>r P' m'. xm_append X f m = (Inr r, m') \<and> minv X P' m' \<and> all_entries P' = all_entries P @ new r
    \<and> xm_counter m' = xm_counter m \<and> mgen m' \<le> mgen m + length (new r) \<and> Q (mroom X m) r"
proof -
  from m obtain g h where gh: "xm_cur m = Some g" "xm_index m = Some h" "xinv X P [] (g, h, xm_disk m)"
    by (auto simp: minv_def)
  from f [OF gh(3)] gh(2) obtain r P' s' where r: "f (g, h, xm_disk m) = (Inr r, s')"
    "grows X P [] (g, h, xm_disk m) (new r) P' [] s'" "Q (has_frame_capacity X g) r" by (auto simp: xgen_def mgen_def)
  obtain g' h' d' where s': "s' = (g', h', d')" by (cases s')
  have "P \<noteq> []" using minv_parts [OF m] by simp
  moreover have "map fst P' = map fst P" using r(2) by (simp add: grows_def)
  ultimately have "fst (last P') = fst (last P)" by (metis last_map list.map_disc_iff)
  with m r gh show ?thesis
    by (intro exI [of _ r] exI [of _ P'] exI [of _ "m\<lparr>xm_cur := Some g', xm_index := Some h', xm_disk := d'\<rparr>"])
      (simp add: xm_append_def s' grows_def minv_def xgen_def mgen_def mroom_def)
qed

lemma all_entries_new [simp]: "all_entries (P @ [(c, [])]) = all_entries P"
  by (simp add: all_entries_def entries_in_def)

lemma xm_write_ok:
  assumes X: "xenv_ok X" and m: "minv X P m" and c: "xm_counter m < 2 ^ 32" and i: "mgen m + 2 < 2 ^ 64" and e: "xkeeps X e"
  shows "\<exists>P' m'. xm_write_entry X now e m = (Inr (), m') \<and> minv X P' m' \<and> all_entries P' = all_entries P @ [e]
    \<and> xm_counter m' \<le> xm_counter m + 1 \<and> mgen m' \<le> mgen m + 2"
proof -
  have step: "\<exists>ok P' m'. xm_append X (append_entry X e) m = (Inr ok, m') \<and> minv X P' m'
      \<and> all_entries P' = all_entries P @ (if ok then [e] else []) \<and> xm_counter m' = xm_counter m
      \<and> mgen m' \<le> mgen m + length (if ok then [e] else []) \<and> (mroom X m \<longrightarrow> ok)"
    if "minv X P m" "mgen m + 1 < 2 ^ 64" for P m
    by (rule append_step [OF that(1), where Q = "\<lambda>c ok. c \<longrightarrow> ok"]) (rule append_entry_ok, use X e that(2) in auto)
  have "mgen m + 1 < 2 ^ 64" using i by simp
  from step [OF m this] obtain ok P1 m1 where a: "xm_append X (append_entry X e) m = (Inr ok, m1)" "minv X P1 m1"
    "all_entries P1 = all_entries P @ (if ok then [e] else [])" "xm_counter m1 = xm_counter m"
    "mgen m1 \<le> mgen m + length (if ok then [e] else [])" by blast
  show ?thesis
  proof (cases ok)
    case True
    with a show ?thesis by (intro exI [of _ P1] exI [of _ m1]) (simp add: xm_write_entry_def)
  next
    case False
    then have "xm_counter m1 < 2 ^ 32" "mgen m1 + 1 < 2 ^ 64" using a c i by simp_all
    from rotate_segment_ok [OF X a(2) this, of now] obtain m2 where r: "xm_rotate_segment X now m1 = (Inr (), m2)"
      "minv X (P1 @ [(xm_counter m1, [])]) m2" "mroom X m2" "xm_counter m2 = xm_counter m1 + 1" "mgen m2 \<le> mgen m1 + 1" by blast
    have "mgen m2 + 1 < 2 ^ 64" using r a False i by simp
    from step [OF r(2) this] r(3) obtain P3 m3 where b: "xm_append X (append_entry X e) m2 = (Inr True, m3)" "minv X P3 m3"
      "all_entries P3 = all_entries P1 @ [e]" "xm_counter m3 = xm_counter m2" "mgen m3 \<le> mgen m2 + 1"
      by fastforce
    with a r False show ?thesis by (intro exI [of _ P3] exI [of _ m3]) (simp add: xm_write_entry_def)
  qed
qed

text \<open>A segment with room takes an entry, so that a rotation is followed by progress.\<close>

lemma batch_step:
  assumes X: "xenv_ok X" and m: "minv X P m" and i: "mgen m + length es < 2 ^ 64" and e: "\<forall>e \<in> set es. xkeeps X e"
  shows "\<exists>k P' m'. xm_append X (append_entries_batch X es) m = (Inr k, m') \<and> minv X P' m'
      \<and> all_entries P' = all_entries P @ take k es \<and> xm_counter m' = xm_counter m
      \<and> mgen m' \<le> mgen m + length (take k es) \<and> (k \<le> length es \<and> (es \<noteq> [] \<and> mroom X m \<longrightarrow> 0 < k))"
  by (rule append_step [OF m, where Q = "\<lambda>c k. k \<le> length es \<and> (es \<noteq> [] \<and> c \<longrightarrow> 0 < k)"],
      insert append_batch_grows [OF _ X _ e] i) metis


lemma batch_loop_room:
  "minv X P m \<Longrightarrow> mroom X m \<Longrightarrow> xenv_ok X \<Longrightarrow> es \<noteq> [] \<Longrightarrow> \<forall>e \<in> set es. xkeeps X e \<Longrightarrow>
    xm_counter m + length es \<le> 2 ^ 32 \<Longrightarrow> mgen m + 2 * length es < 2 ^ 64 \<Longrightarrow>
    \<exists>P' m'. batch_loop X now es stalls m = (Inr (), m') \<and> minv X P' m' \<and> all_entries P' = all_entries P @ es
      \<and> xm_counter m' < xm_counter m + length es \<and> mgen m' < mgen m + 2 * length es"
proof (induction "length es" arbitrary: es P m stalls rule: less_induct)
  case less
  note X = less.prems(3) and e = less.prems(5)
  have "mgen m + length es < 2 ^ 64" using less.prems(7) by simp
  from batch_step [OF X less.prems(1) this e] less.prems(2,4) obtain k P1 m1 where a:
    "xm_append X (append_entries_batch X es) m = (Inr k, m1)" "minv X P1 m1" "all_entries P1 = all_entries P @ take k es"
    "xm_counter m1 = xm_counter m" "mgen m1 \<le> mgen m + length (take k es)" "k \<le> length es" "0 < k" by blast
  show ?case
  proof (cases "k < length es")
    case False
    then have "batch_loop X now es stalls m = (Inr (), m1)"
      using a less.prems(4) by (subst batch_loop.simps) simp
    moreover have "mgen m1 < mgen m + 2 * length es"
    proof -
      have "0 < length es" using less.prems(4) by simp
      moreover have "length (take k es) = length es" using a(6) False by simp
      ultimately show ?thesis using a(5) by linarith
    qed
    ultimately show ?thesis using a False by (intro exI [of _ P1] exI [of _ m1]) simp
  next
    case True
    then have c1: "xm_counter m1 < 2 ^ 32" "mgen m1 + 1 < 2 ^ 64" using a less.prems(6,7) by simp_all
    from rotate_segment_ok [OF X a(2) this, of now] obtain m2 where r: "xm_rotate_segment X now m1 = (Inr (), m2)"
      "minv X (P1 @ [(xm_counter m1, [])]) m2" "mroom X m2" "xm_counter m2 = xm_counter m1 + 1" "mgen m2 \<le> mgen m1 + 1" by blast
    have d: "\<forall>e \<in> set (drop k es). xkeeps X e" "drop k es \<noteq> []" using e True by (auto dest: in_set_dropD)
    have len: "length (take k es) = k" "length (drop k es) = length es - k" using True by simp_all
    then have small: "length (drop k es) < length es" using True a(7) by linarith
    have cc: "xm_counter m2 + length (drop k es) \<le> 2 ^ 32" using a(4,7) r(4) less.prems(6) True len by linarith
    have gg: "mgen m2 + 2 * length (drop k es) < 2 ^ 64" using a(5,7) r(5) less.prems(7) True len by linarith
    from less.hyps [OF small r(2,3) X d(2,1) cc gg, of 0] obtain P3 m3 where b:
      "batch_loop X now (drop k es) 0 m2 = (Inr (), m3)" "minv X P3 m3" "all_entries P3 = all_entries P1 @ drop k es"
      "xm_counter m3 < xm_counter m2 + length (drop k es)" "mgen m3 < mgen m2 + 2 * length (drop k es)" by (auto simp del: length_drop)
    have "batch_loop X now es stalls m = (Inr (), m3)"
      using a True r(1) b(1) less.prems(4) by (subst batch_loop.simps) simp
    moreover have "xm_counter m3 < xm_counter m + length es" using a(4,7) b(4) r(4) True len by linarith
    moreover have "mgen m3 < mgen m + 2 * length es" using a(5,7) b(5) r(5) True len by linarith
    ultimately show ?thesis using a(3) b(2,3) by (intro exI [of _ P3] exI [of _ m3]) simp
  qed
qed

lemma batch_loop_ok:
  assumes X: "xenv_ok X" and m: "minv X P m" and e: "\<forall>e \<in> set es. xkeeps X e"
    and c: "xm_counter m + length es < 2 ^ 32" and i: "mgen m + 2 * length es + 1 < 2 ^ 64"
  shows "\<exists>P' m'. batch_loop X now es 0 m = (Inr (), m') \<and> minv X P' m' \<and> all_entries P' = all_entries P @ es
      \<and> xm_counter m' \<le> xm_counter m + length es \<and> mgen m' \<le> mgen m + 2 * length es"
proof (cases "es = []")
  case True
  with m show ?thesis by (subst batch_loop.simps) auto
next
  case ne: False
  have "mgen m + length es < 2 ^ 64" using i by simp
  from batch_step [OF X m this e] obtain k P1 m1 where a:
    "xm_append X (append_entries_batch X es) m = (Inr k, m1)" "minv X P1 m1" "all_entries P1 = all_entries P @ take k es"
    "xm_counter m1 = xm_counter m" "mgen m1 \<le> mgen m + length (take k es)" "k \<le> length es" by blast
  show ?thesis
  proof (cases "k = length es")
    case True
    then have "batch_loop X now es 0 m = (Inr (), m1)" using a ne by (subst batch_loop.simps) simp
    with a True show ?thesis by (intro exI [of _ P1] exI [of _ m1]) simp
  next
    case False
    then have k: "k < length es" using a(6) by simp
    then have "xm_counter m1 < 2 ^ 32" "mgen m1 + 1 < 2 ^ 64" using a c i by simp_all
    from rotate_segment_ok [OF X a(2) this, of now] obtain m2 where r: "xm_rotate_segment X now m1 = (Inr (), m2)"
      "minv X (P1 @ [(xm_counter m1, [])]) m2" "mroom X m2" "xm_counter m2 = xm_counter m1 + 1" "mgen m2 \<le> mgen m1 + 1" by blast
    have d: "drop k es \<noteq> []" "\<forall>e \<in> set (drop k es). xkeeps X e" using k e by (auto dest: in_set_dropD)
    have "xm_counter m2 + length (drop k es) \<le> 2 ^ 32" "mgen m2 + 2 * length (drop k es) < 2 ^ 64" using r a k c i by simp_all
    from batch_loop_room [OF r(2,3) X d this, of now "if k = 0 then 1 else 0"] obtain P3 m3 where b:
      "batch_loop X now (drop k es) (if k = 0 then 1 else 0) m2 = (Inr (), m3)" "minv X P3 m3"
      "all_entries P3 = all_entries P1 @ drop k es"
      "xm_counter m3 < xm_counter m2 + length (drop k es)" "mgen m3 < mgen m2 + 2 * length (drop k es)" by auto
    have "batch_loop X now es 0 m = (Inr (), m3)"
      using a k r(1) b(1) ne by (subst batch_loop.simps) (simp split: if_splits)
    moreover have "xm_counter m3 \<le> xm_counter m + length es" using a(4) b(4) r(4) k by simp
    moreover have "mgen m3 \<le> mgen m + 2 * length es"
    proof -
      have "length (take k es) = k" "length (drop k es) = length es - k" using k by simp_all
      then show ?thesis using a(5) b(5) r(5) k by linarith
    qed
    ultimately show ?thesis using a(3) b(2,3) by (intro exI [of _ P3] exI [of _ m3]) simp
  qed
qed

lemma xm_truncate_ok:
  assumes X: "xenv_ok X" and c: "xm_counter m < 2 ^ 32"
  shows "\<exists>m'. xm_truncate_after_flush X now m = (Inr (), m') \<and> minv X [(xm_counter m, [])] m'
    \<and> xm_verify_truncated m' \<and> xm_counter m' = xm_counter m + 1 \<and> mgen m' \<le> 1"
proof -
  define m1 where "m1 = m\<lparr>xm_cur := None, xm_segs := [], xm_index := None,
       xm_disk := (xm_disk m)\<lparr>xd_dirs := [], xd_index := None\<rparr>\<rparr>"
  have m1: "xm_cur m1 = None" "disk_holds X [] (xm_disk m1)" "\<forall>p \<in> set []. fst p < xm_counter m1"
    "index_at X 0 (xm_disk m1)" "xm_counter m1 = xm_counter m" "xm_segs m1 = []"
    by (simp_all add: m1_def disk_holds_def index_at_def)
  have "xm_counter m1 < 2 ^ 32" "0 + (1 :: nat) < 2 ^ 64" using m1 c by simp_all
  from rotate_none [OF X m1(1-3) this(1) m1(4) this(2), of now] show ?thesis
    unfolding xm_truncate_after_flush_def m1_def [symmetric] xm_verify_truncated_def using m1(5,6) by auto
qed


subsection \<open>Reading after the process is gone\<close>

lemma index_state_ok: "minv X P m \<Longrightarrow> \<exists>h. index_state X (xm_disk m) = Some h \<and> xm_index m = Some h"
proof -
  assume "minv X P m"
  then obtain h f where h: "xm_index m = Some h" "xd_index (xm_disk m) = Some f" "index_ok (xe_crc X) h (xf_now f)"
    by (auto simp: minv_def xinv_def xcore_def)
  then have "extended (xf_now f) = xf_now f" by (simp add: extended_def index_ok_def index_below_def)
  with read_index_ok [OF h(3)] h show ?thesis by (simp add: index_state_def)
qed

lemma segment_dirs_ok:
  assumes "disk_holds X P d"
  shows "segment_dirs d = zip (map fst P) (xd_dirs d)"
proof -
  have l: "list_all2 (dir_holds X) (xd_dirs d) P" and s: "sorted_wrt (<) (map fst P)" using assms by (simp_all add: disk_holds_def)
  let ?z = "zip (map fst P) (xd_dirs d)"
  from l have "List.map_filter (\<lambda>r. map_option (\<lambda>i. (i, r)) (parse_u32 16 (xr_name r))) (xd_dirs d) = ?z"
    by (induction rule: list_all2_induct) (simp_all add: dir_holds_def List.map_filter_simps)
  moreover have "map fst ?z = map fst P" using list_all2_lengthD [OF l] by simp
  then have "sorted (map fst ?z)" using sorted_strict_nat [OF s] by simp
  ultimately show ?thesis by (simp add: segment_dirs_def sort_key_id_if_sorted)
qed

lemma sealed_ok:
  assumes "dir_holds X r (n, F)"
  shows "read_committed_entries X r (sealed_state X i r) = Inr (entries_in F)"
proof (rule read_committed [OF assms], intro impI)
  assume "F \<noteq> []"
  moreover have "fst (last F) < 2 ^ 32" if "F \<noteq> []" using last_in_set [OF that] assms by (auto simp: dir_holds_def frames_ok_def)
  ultimately show "unat (ih_frame (sealed_state X i r)) \<le> fst (last F)
      \<and> (unat (ih_frame (sealed_state X i r)) = fst (last F) \<and> 0 < ih_offset (sealed_state X i r)
         \<longrightarrow> unat (ih_offset (sealed_state X i r)) = length (xbody X (snd (last F))))"
    by (simp add: sealed_state_def committed_ids [OF assms] Let_def last_map unat_of_nat)
qed

lemma xm_read_ok:
  assumes m: "minv X P m"
  shows "xm_read_entries_from_disk X (xm_kill m) = Inr (sort_key entry_timestamp (all_entries P))"
proof -
  note p = minv_parts [OF m]
  from index_state_ok [OF m] obtain h where h: "index_state X (xm_disk m) = Some h" "xm_index m = Some h" by blast
  have l: "list_all2 (dir_holds X) (xd_dirs (xm_disk m)) P" and s: "sorted_wrt (<) (map fst P)"
    using p(1) by (simp_all add: disk_holds_def)
  have h_last: "unat (ih_segment h) = fst (last P)" "snd (last P) \<noteq> [] \<longrightarrow> unat (ih_frame h) = fst (last (snd (last P)))
         \<and> unat (ih_offset h) = length (xbody X (snd (last (snd (last P)))))"
    using m h(2) by (auto simp: minv_def xinv_def xcore_def)
  let ?st = "\<lambda>i r. if unat (ih_segment h) = i then h else sealed_state X (word_of_nat i) r"
  have one: "read_committed_entries X r (?st i r) = Inr (entries_in F)" if "(i, F) \<in> set P" "dir_holds X r (i, F)" for i F r
  proof (cases "i = fst (last P)")
    case True
    have "F = snd (last P)"
      using that(1) True s p(4) by (metis distinct_map last_in_set map_of_eq_Some_iff option.inject prod.collapse strict_sorted_iff)
    with read_committed [OF that(2), of h] h_last True show ?thesis by simp
  next
    case False
    with sealed_ok [OF that(2)] h_last show ?thesis by simp
  qed
  from l have "\<forall>p \<in> set Q. p \<in> set P \<Longrightarrow> list_all2 (dir_holds X) R Q \<Longrightarrow>
      res_all (\<lambda>(i, r). read_committed_entries X r (?st i r)) (zip (map fst Q) R) = Inr (map (\<lambda>p. entries_in (snd p)) Q)" for Q R
    by (induction Q arbitrary: R) (auto simp: list_all2_Cons2 one)
  from this [of P] l have "res_all (\<lambda>(i, r). read_committed_entries X r (?st i r)) (zip (map fst P) (xd_dirs (xm_disk m)))
      = Inr (map (\<lambda>p. entries_in (snd p)) P)" by blast
  then show ?thesis
    by (simp add: xm_read_entries_from_disk_def xm_kill_def xm_new_def h(1) segment_dirs_ok [OF p(1)] all_entries_def)
qed


lemma xm_scan_ok:
  assumes m: "minv X P m"
  shows "xm_scan_existing_segments (xm_kill m) = (xm_kill m)\<lparr>xm_counter := fst (last P) + 1\<rparr>"
proof -
  note p = minv_parts [OF m]
  have l: "list_all2 (dir_holds X) (xd_dirs (xm_disk m)) P" and s: "sorted (map fst P)"
    using p(1) by (simp_all add: disk_holds_def sorted_strict_nat)
  from l have "List.map_filter (from_str_radix 16) (map xr_name (xd_dirs (xm_disk m))) = map fst P"
    by (induction rule: list_all2_induct) (simp_all add: dir_holds_def List.map_filter_simps from_hex16)
  with fold_max_sorted [OF s, of 0] p(4) show ?thesis
    by (simp add: xm_scan_existing_segments_def xm_kill_def xm_new_def last_map)
qed

lemma resume_ok:
  assumes s: "xcore X P (g, h, d)"
  shows "xcore X P (\<lparr>xs_id = ih_segment h, xs_frame = max (u32_saturating (unat (ih_frame h) + 1)) 1, xs_staging = [], xs_entries = 0\<rparr>, h, d)"
proof -
  have d: "disk_holds X P d" "P \<noteq> []" using s by (simp_all add: xcore_def)
  obtain R r B i F where P: "P = B @ [(i, F)]" "dir_holds X r (i, F)" by (rule last_dir [OF d]) blast
  have "fst p < max (u32_saturating (unat (ih_frame h) + 1)) 1" if p: "p \<in> set F" for p
  proof -
    have ne: "F \<noteq> []" using p by auto
    have "fst p \<le> fst (last F)" "fst (last F) < 2 ^ 32 - 1"
      using P(2) last_in_set [OF ne] last_top [OF _ p] by (auto simp: dir_holds_def frames_ok_def)
    moreover have "unat (ih_frame h) = fst (last F)" using s ne by (simp add: xcore_def P(1))
    ultimately show ?thesis by (simp add: u32_saturating_def)
  qed
  with s show ?thesis by (auto simp: xcore_def P(1))
qed

lemma xm_initialize_ok:
  assumes X: "xenv_ok X" and m: "minv X P m" and c: "xm_counter m < 2 ^ 32" and i: "mgen m + 1 < 2 ^ 64"
  shows "\<exists>P' m'. xm_initialize X now (xm_kill m) = (Inr (), m') \<and> minv X P' m' \<and> all_entries P' = all_entries P
    \<and> xm_counter m' \<le> xm_counter m + 1 \<and> mgen m' \<le> mgen m + 1"
proof -
  note p = minv_parts [OF m]
  define m1 where "m1 = (xm_kill m)\<lparr>xm_counter := fst (last P) + 1\<rparr>"
  have m1: "xm_cur m1 = None" "xm_disk m1 = xm_disk m" "xm_counter m1 = fst (last P) + 1" by (simp_all add: m1_def xm_kill_def xm_new_def)
  have le: "xm_counter m1 \<le> xm_counter m" using m by (simp add: m1(3) minv_def)
  obtain B q where P: "P = B @ [q]" using p(4) by (cases P rule: rev_cases) auto
  have "\<forall>x \<in> set P. fst x < xm_counter m1" using p(1) by (auto simp: m1(3) P disk_holds_def sorted_wrt_append)
  from rotate_none [OF X m1(1) _ this, of "mgen m" now] p(1,3) m1(2) le c i obtain m2 where r:
    "xm_rotate_segment X now m1 = (Inr (), m2)" "minv X (P @ [(xm_counter m1, [])]) m2"
    "xm_counter m2 = xm_counter m1 + 1" "mgen m2 \<le> mgen m + 1" by auto
  from m obtain g h where gh: "xm_cur m = Some g" "xm_index m = Some h" "xcore X P (g, h, xm_disk m)"
    by (auto simp: minv_def xinv_def)
  then have h: "index_state X (xm_disk m) = Some h" using index_state_ok [OF m] by auto
  from gh(3) obtain f where f: "xd_index (xm_disk m) = Some f" "index_ok (xe_crc X) h (xf_now f)" "unat (ih_segment h) = fst (last P)"
    by (auto simp: xcore_def)
  from find_last [OF p(1,4) f(3)] obtain d where d: "find_dir (segment_dir (ih_segment h)) (xm_disk m) = Some d" by blast
  have o: "snd (open_index X 0 (xm_disk m)) = xm_disk m"
    using index_open_ok [OF f(2)] by (simp add: open_index_def f(1))
  let ?g = "\<lparr>xs_id = ih_segment h, xs_frame = max (u32_saturating (unat (ih_frame h) + 1)) 1, xs_staging = [], xs_entries = 0\<rparr>"
  define m3 where "m3 = m1\<lparr>xm_index := Some h, xm_disk := xm_disk m, xm_cur := Some ?g\<rparr>"
  have eq: "xm_initialize X now (xm_kill m) = (if 0 < ih_entries h \<or> xr_files d \<noteq> [] then (Inr (), m3) else (Inr (), m2))"
    unfolding xm_initialize_def xm_scan_ok [OF m] m1_def [symmetric] Let_def m1(2) h option.case d o m3_def [symmetric] r(1) by simp
  have "minv X P m3"
    using resume_ok [OF gh(3)] by (simp add: minv_def m3_def m1(3) xinv_def body_def)
  moreover have "mgen m3 = mgen m" "xm_counter m3 = xm_counter m1" by (simp_all add: mgen_def m3_def gh(2))
  ultimately show ?thesis
    using r le unfolding eq by (cases "0 < ih_entries h \<or> xr_files d \<noteq> []") (auto intro: exI [of _ P] exI [of _ "P @ [(xm_counter m1, [])]"])
qed

subsection \<open>The promises\<close>

definition idx_ops :: "'n xenv \<Rightarrow> ('n, idx_mgr) wal_ops" where
  "idx_ops X = \<lparr>w_init = xm_initialize X, w_put = xm_write_operation X, w_delete = xm_write_delete X,
     w_batch = xm_batch_write_operations X, w_flush = (\<lambda>_. xm_flush X), w_truncate = xm_truncate_after_flush X,
     w_verify = xm_verify_truncated, w_shutdown = xm_mark_clean_shutdown X, w_read = xm_read_entries_from_disk X,
     w_clear = xm_clear_dir\<rparr>"

definition idx_inv :: "'n xenv \<Rightarrow> nat \<Rightarrow> idx_mgr \<Rightarrow> 'n wal_entry list \<Rightarrow> bool" where
  "idx_inv X n m es \<longleftrightarrow> xenv_ok X \<and> (\<exists>P. minv X P m \<and> all_entries P = es)
     \<and> xm_counter m + n < 2 ^ 32 \<and> mgen m + 2 * n + 1 < 2 ^ 64"

lemma idx_mono: "idx_inv X (Suc n) m es \<Longrightarrow> idx_inv X n m es"
  by (auto simp: idx_inv_def)

lemma idx_write:
  assumes m: "idx_inv X (Suc n) m es" and e: "xkeeps X e"
  shows "\<exists>m'. xm_write_entry X now e m = (Inr (), m') \<and> idx_inv X n m' (es @ [e])"
proof -
  from m obtain P where P: "minv X P m" "all_entries P = es" "xenv_ok X" by (auto simp: idx_inv_def)
  have "xm_counter m < 2 ^ 32" "mgen m + 2 < 2 ^ 64" using m by (simp_all add: idx_inv_def)
  from xm_write_ok [OF P(3,1) this e, of now] P m show ?thesis by (fastforce simp: idx_inv_def)
qed

lemma idx_batch:
  assumes m: "idx_inv X (n + length kvs) m es" and e: "\<forall>(k, v) \<in> set kvs. xkeeps X (WPut k v now)"
  shows "\<exists>m'. xm_batch_write_operations X now kvs m = (Inr (), m') \<and> idx_inv X n m' (es @ map (\<lambda>(k, v). WPut k v now) kvs)"
proof -
  let ?es = "map (\<lambda>(k, v). WPut k v now) kvs"
  from m obtain P where P: "minv X P m" "all_entries P = es" "xenv_ok X" by (auto simp: idx_inv_def)
  have k: "\<forall>e \<in> set ?es. xkeeps X e" using e by auto
  have "xm_counter m + length ?es < 2 ^ 32" "mgen m + 2 * length ?es + 1 < 2 ^ 64" using m by (simp_all add: idx_inv_def)
  from batch_loop_ok [OF P(3,1) k this, of now] obtain P' m' where b: "batch_loop X now ?es 0 m = (Inr (), m')" "minv X P' m'"
    "all_entries P' = all_entries P @ ?es" "xm_counter m' \<le> xm_counter m + length kvs" "mgen m' \<le> mgen m + 2 * length kvs" by auto
  have "xm_batch_write_operations X now kvs m = (Inr (), m')"
    using b(1) by (auto simp: xm_batch_write_operations_def batch_loop.simps)
  moreover have "xm_counter m' + n < 2 ^ 32 \<and> mgen m' + 2 * n + 1 < 2 ^ 64" using m b(4,5) by (simp add: idx_inv_def)
  ultimately show ?thesis using b(2,3) P(2,3) by (auto simp: idx_inv_def)
qed

lemma idx_truncate:
  assumes m: "idx_inv X (Suc n) m es"
  shows "\<exists>m'. xm_truncate_after_flush X now m = (Inr (), m') \<and> idx_inv X n m' [] \<and> xm_verify_truncated m'"
proof -
  have X: "xenv_ok X" and c: "xm_counter m < 2 ^ 32" using m by (auto simp: idx_inv_def)
  have "all_entries [(xm_counter m, [])] = []" by (simp add: all_entries_def entries_in_def)
  with xm_truncate_ok [OF X c, of now] m show ?thesis by (fastforce simp: idx_inv_def)
qed

lemma idx_reopen:
  assumes m: "idx_inv X (Suc n) m es"
  shows "\<exists>m'. xm_initialize X now (xm_kill m) = (Inr (), m') \<and> idx_inv X n m' es"
proof -
  from m obtain P where P: "minv X P m" "all_entries P = es" "xenv_ok X" by (auto simp: idx_inv_def)
  have "xm_counter m < 2 ^ 32" "mgen m + 1 < 2 ^ 64" using m by (simp_all add: idx_inv_def)
  from xm_initialize_ok [OF P(3,1) this, of now] P m show ?thesis by (fastforce simp: idx_inv_def)
qed

lemma idx_shutdown:
  assumes m: "idx_inv X (n + 3) m es" and e: "xkeeps X (WCheckpoint now)"
  shows "\<exists>m'. xm_mark_clean_shutdown X now m = (Inr (), m') \<and> idx_inv X n m' []"
proof -
  have "idx_inv X (Suc (Suc (Suc n))) m es" using m by (simp add: numeral_3_eq_3)
  from idx_write [OF this e, of now] obtain m1 where m1: "xm_write_entry X now (WCheckpoint now) m = (Inr (), m1)"
    "idx_inv X (Suc (Suc n)) m1 (es @ [WCheckpoint now])" by blast
  from idx_truncate [OF idx_mono [OF m1(2)], of now] obtain m2 where m2: "xm_truncate_after_flush X now m1 = (Inr (), m2)"
    "idx_inv X n m2 []" by blast
  have "xm_flush X m1 = (Inr (), m1)" using m1(2) flush_current_ok by (auto simp: idx_inv_def xm_flush_def)
  then have "xm_mark_clean_shutdown X now m = (Inr (), m2)" using m1(1) m2(1) by (simp add: xm_mark_clean_shutdown_def)
  with m2(2) show ?thesis by blast
qed

text \<open>The process is killed; the files stay as they were seen.\<close>

definition idx_crash :: "idx_mgr \<Rightarrow> idx_mgr \<Rightarrow> bool" where
  "idx_crash m m' \<longleftrightarrow> m' = xm_kill m"

interpretation idx: wal_log "idx_ops X" "idx_inv X" "xkeeps X" idx_crash for X :: "'n xenv"
proof unfold_locales
  fix n m and es :: "'n wal_entry list"
  show "idx_inv X (Suc n) m es \<Longrightarrow> idx_inv X n m es" by (rule idx_mono)
  show "\<exists>w'. w_flush (idx_ops X) now m = (Inr (), w') \<and> idx_inv X n w' es" if "idx_inv X (Suc n) m es" for now
    using idx_mono [OF that] flush_current_ok that by (fastforce simp: idx_ops_def xm_flush_def idx_inv_def)
  show "w_read (idx_ops X) c = Inr (sort_key entry_timestamp es)" if "idx_inv X n m es" "idx_crash m c" for c
    using that xm_read_ok by (fastforce simp: idx_ops_def idx_inv_def idx_crash_def)
qed (auto simp: idx_ops_def idx_crash_def xm_write_operation_def xm_write_delete_def intro: idx_write idx_batch idx_truncate idx_shutdown idx_reopen)

end
