(* ===== verification/Wal_Handle.thy ===== *)
theory Wal_Handle
  imports Config Wal_Frame_Correct Wal_Indexed_Correct
begin

text \<open>
  The log the engine holds, \<open>WalHandle\<close> of \<open>crates/f4kvs-lsm/src/storage/wal_handle.rs\<close>: one of the three logs, chosen by
  the configuration.  What the managers take from the libraries (\<open>bincode\<close>, \<open>crc32fast\<close>) is in a record.
\<close>

record 'n codec =
  cd_ser :: "'n wal_entry \<Rightarrow> bytes option"
  cd_de :: "bytes \<Rightarrow> 'n wal_entry option"
  cd_hser :: "wal_header \<Rightarrow> bytes"
  cd_hde :: "bytes \<Rightarrow> wal_header option"
  cd_hsize :: nat
  cd_fhser :: "frame_header \<Rightarrow> bytes"
  cd_fhde :: "bytes \<Rightarrow> frame_header option"
  cd_fhsize :: nat
  cd_crc :: "bytes \<Rightarrow> u32"

definition wenv_of :: "'n codec \<Rightarrow> wal_config \<Rightarrow> 'n wenv" where
  "wenv_of K c = \<lparr>we_ser = cd_ser K, we_de = cd_de K, we_hser = cd_hser K, we_hde = cd_hde K, we_hsize = cd_hsize K,
     we_max = wc_segment_size c, we_sync = wc_sync_mode c, we_group = wc_group_commit c, we_batch = wc_group_max_batch c,
     we_wait = wc_group_wait_durable c\<rparr>"

definition fenv_of :: "'n codec \<Rightarrow> wal_config \<Rightarrow> 'n fenv" where
  "fenv_of K c = \<lparr>fe_ser = cd_ser K, fe_de = cd_de K, fe_hser = cd_fhser K, fe_hde = cd_fhde K, fe_hsize = cd_fhsize K,
     fe_max = wc_segment_size c, fe_sync = wc_sync_mode c, fe_group = wc_group_commit c,
     fe_wait = wc_group_wait_durable c, fe_page_size = wc_frame_page_size c\<rparr>"

definition xenv_of :: "'n codec \<Rightarrow> wal_config \<Rightarrow> 'n xenv" where
  "xenv_of K c = \<lparr>xe_ser = cd_ser K, xe_de = cd_de K, xe_crc = cd_crc K, xe_page = wc_frame_page_size c,
     xe_count = unat (wc_indexed_frame_count c), xe_sync = wc_sync_mode c\<rparr>"

text \<open>A manager carries its configuration.\<close>

datatype 'n wal_handle =
    HSegment "'n wenv" "'n wal_mgr"
  | HFrame "'n fenv" "'n frame_mgr"
  | HIndexed "'n xenv" idx_mgr

text \<open>What the log directory holds when the handle is made.\<close>

record log_disk =
  ld_files :: fsys
  ld_indexed :: xdisk

definition handle_new :: "'n codec \<Rightarrow> wal_config \<Rightarrow> log_disk \<Rightarrow> 'n wal_handle" where
  "handle_new K c d = (case wc_engine c of
       SegmentWal \<Rightarrow> HSegment (wenv_of K c) (wm_new (ld_files d))
     | FrameWal \<Rightarrow> HFrame (fenv_of K c) (fm_new (ld_files d))
     | IndexedWal \<Rightarrow> HIndexed (xenv_of K c) (xm_new (ld_indexed d)))"

fun h_initialize :: "nat \<Rightarrow> 'n wal_handle \<Rightarrow> unit res \<times> 'n wal_handle" where
  "h_initialize now (HSegment W m) = apsnd (HSegment W) (wal_initialize W now m)"
| "h_initialize now (HFrame F m) = apsnd (HFrame F) (fm_initialize F now m)"
| "h_initialize now (HIndexed X m) = apsnd (HIndexed X) (xm_initialize X now m)"

fun h_write_operation :: "nat \<Rightarrow> key \<Rightarrow> 'n val \<Rightarrow> 'n wal_handle \<Rightarrow> unit res \<times> 'n wal_handle" where
  "h_write_operation now k v (HSegment W m) = apsnd (HSegment W) (write_operation W now k v m)"
| "h_write_operation now k v (HFrame F m) = apsnd (HFrame F) (fm_write_operation F now k v m)"
| "h_write_operation now k v (HIndexed X m) = apsnd (HIndexed X) (xm_write_operation X now k v m)"

fun h_write_delete :: "nat \<Rightarrow> key \<Rightarrow> 'n wal_handle \<Rightarrow> unit res \<times> 'n wal_handle" where
  "h_write_delete now k (HSegment W m) = apsnd (HSegment W) (write_delete W now k m)"
| "h_write_delete now k (HFrame F m) = apsnd (HFrame F) (fm_write_delete F now k m)"
| "h_write_delete now k (HIndexed X m) = apsnd (HIndexed X) (xm_write_delete X now k m)"

fun h_batch_write_operations :: "nat \<Rightarrow> (key \<times> 'n val) list \<Rightarrow> 'n wal_handle \<Rightarrow> unit res \<times> 'n wal_handle" where
  "h_batch_write_operations now kvs (HSegment W m) = apsnd (HSegment W) (batch_write_operations W now kvs m)"
| "h_batch_write_operations now kvs (HFrame F m) = apsnd (HFrame F) (fm_batch_write_operations F now kvs m)"
| "h_batch_write_operations now kvs (HIndexed X m) = apsnd (HIndexed X) (xm_batch_write_operations X now kvs m)"

fun h_flush :: "nat \<Rightarrow> 'n wal_handle \<Rightarrow> unit res \<times> 'n wal_handle" where
  "h_flush now (HSegment W m) = apsnd (HSegment W) (wal_flush W now m)"
| "h_flush now (HFrame F m) = apsnd (HFrame F) (fm_flush F now m)"
| "h_flush now (HIndexed X m) = apsnd (HIndexed X) (xm_flush X m)"

fun h_truncate_after_flush :: "nat \<Rightarrow> 'n wal_handle \<Rightarrow> unit res \<times> 'n wal_handle" where
  "h_truncate_after_flush now (HSegment W m) = apsnd (HSegment W) (truncate_after_flush W now m)"
| "h_truncate_after_flush now (HFrame F m) = apsnd (HFrame F) (fm_truncate_after_flush F now m)"
| "h_truncate_after_flush now (HIndexed X m) = apsnd (HIndexed X) (xm_truncate_after_flush X now m)"

fun h_verify_truncated :: "'n wal_handle \<Rightarrow> bool" where
  "h_verify_truncated (HSegment W m) = verify_truncated m"
| "h_verify_truncated (HFrame F m) = fm_verify_truncated m"
| "h_verify_truncated (HIndexed X m) = xm_verify_truncated m"

fun h_mark_clean_shutdown :: "nat \<Rightarrow> 'n wal_handle \<Rightarrow> unit res \<times> 'n wal_handle" where
  "h_mark_clean_shutdown now (HSegment W m) = apsnd (HSegment W) (mark_clean_shutdown W now m)"
| "h_mark_clean_shutdown now (HFrame F m) = apsnd (HFrame F) (fm_mark_clean_shutdown F now m)"
| "h_mark_clean_shutdown now (HIndexed X m) = apsnd (HIndexed X) (xm_mark_clean_shutdown X now m)"

fun h_cleanup_old_segments :: "nat \<Rightarrow> nat \<Rightarrow> 'n wal_handle \<Rightarrow> 'n wal_handle" where
  "h_cleanup_old_segments now r (HSegment W m) = HSegment W (cleanup_old_segments now r m)"
| "h_cleanup_old_segments now r (HFrame F m) = HFrame F (fm_cleanup_old_segments now r m)"
| "h_cleanup_old_segments now r (HIndexed X m) = HIndexed X (xm_cleanup_old_segments now r m)"

fun h_cleanup_flushed_segments :: "nat \<Rightarrow> nat \<Rightarrow> 'n wal_handle \<Rightarrow> 'n wal_handle" where
  "h_cleanup_flushed_segments now g (HSegment W m) = HSegment W (cleanup_flushed_segments now g m)"
| "h_cleanup_flushed_segments now g (HFrame F m) = HFrame F (fm_cleanup_flushed_segments now g m)"
| "h_cleanup_flushed_segments now g (HIndexed X m) = HIndexed X (xm_cleanup_flushed_segments now g m)"

fun h_force_cleanup :: "nat \<Rightarrow> 'n wal_handle \<Rightarrow> unit res \<times> 'n wal_handle" where
  "h_force_cleanup now (HSegment W m) = apsnd (HSegment W) (force_cleanup W now m)"
| "h_force_cleanup now (HFrame F m) = (Inr (), HFrame F (fm_force_cleanup m))"
| "h_force_cleanup now (HIndexed X m) = (Inr (), HIndexed X (xm_force_cleanup m))"

fun h_read_entries :: "'n wal_handle \<Rightarrow> 'n wal_entry list res" where
  "h_read_entries (HSegment W m) = read_entries_from_disk W m"
| "h_read_entries (HFrame F m) = fm_read_entries_from_disk F m"
| "h_read_entries (HIndexed X m) = xm_read_entries_from_disk X m"

fun h_clear_dir :: "'n wal_handle \<Rightarrow> 'n wal_handle" where
  "h_clear_dir (HSegment W m) = HSegment W (wal_clear_dir m)"
| "h_clear_dir (HFrame F m) = HFrame F (fm_clear_dir m)"
| "h_clear_dir (HIndexed X m) = HIndexed X (xm_clear_dir m)"

subsection \<open>The promises of the handle\<close>

definition handle_ops :: "('n, 'n wal_handle) wal_ops" where
  "handle_ops = \<lparr>w_init = h_initialize, w_put = h_write_operation, w_delete = h_write_delete, w_batch = h_batch_write_operations,
     w_flush = h_flush, w_truncate = h_truncate_after_flush, w_verify = h_verify_truncated, w_shutdown = h_mark_clean_shutdown,
     w_read = h_read_entries, w_clear = h_clear_dir\<rparr>"

text \<open>Which log runs, with which settings.\<close>

datatype 'n log_kind =
    KSegment "'n wenv"
  | KFrame "'n fenv"
  | KIndexed "'n xenv"

fun handle_inv :: "'n log_kind \<Rightarrow> nat \<Rightarrow> 'n wal_handle \<Rightarrow> 'n wal_entry list \<Rightarrow> bool" where
  "handle_inv K n (HSegment W m) es \<longleftrightarrow> K = KSegment W \<and> seg_synced W n m es"
| "handle_inv K n (HFrame F m) es \<longleftrightarrow> K = KFrame F \<and> frame_inv F n m es"
| "handle_inv K n (HIndexed X m) es \<longleftrightarrow> K = KIndexed X \<and> idx_inv X n m es"

fun handle_keeps :: "'n log_kind \<Rightarrow> 'n wal_entry \<Rightarrow> bool" where
  "handle_keeps (KSegment W) e = fits W e"
| "handle_keeps (KFrame F) e = frame_fits F e"
| "handle_keeps (KIndexed X) e = xkeeps X e"

text \<open>A power loss for the segment log and the frame log, the end of the process for the indexed log.\<close>

fun handle_crash :: "'n wal_handle \<Rightarrow> 'n wal_handle \<Rightarrow> bool" where
  "handle_crash (HSegment W m) h \<longleftrightarrow> (\<exists>m'. h = HSegment W m' \<and> seg_crash m m')"
| "handle_crash (HFrame F m) h \<longleftrightarrow> (\<exists>m'. h = HFrame F m' \<and> frame_crash m m')"
| "handle_crash (HIndexed X m) h \<longleftrightarrow> (\<exists>m'. h = HIndexed X m' \<and> idx_crash m m')"

lemma seg_inv_less: "seg_synced W (Suc n) m es \<Longrightarrow> seg_synced W n m es"
  by (auto simp: seg_synced_def seg_inv_mono)

lemma handle_cases:
  assumes "handle_inv K n h es"
  obtains W m where "h = HSegment W m" "K = KSegment W" "seg_synced W n m es"
  | F m where "h = HFrame F m" "K = KFrame F" "frame_inv F n m es"
  | X m where "h = HIndexed X m" "K = KIndexed X" "idx_inv X n m es"
  using assms by (cases h) auto

interpretation handle: wal_log handle_ops "handle_inv K" "handle_keeps K" handle_crash for K :: "'n log_kind"
proof unfold_locales
  fix n and h :: "'n wal_handle" and es
  show "handle_inv K (Suc n) h es \<Longrightarrow> handle_inv K n h es"
    by (erule handle_cases) (simp_all add: seg_inv_less frame_inv_mono idx_mono)
  show "\<exists>h'. w_put handle_ops now k v h = (Inr (), h') \<and> handle_inv K n h' (es @ [WPut k v now])"
    if "handle_inv K (Suc n) h es" "handle_keeps K (WPut k v now)" for k v now
    using that(1)
  proof (cases rule: handle_cases)
    case (1 W m)
    with seg.put [OF 1(3), of k v now] that(2) show ?thesis by (auto simp: handle_ops_def seg_ops_def)
  next
    case (2 F m)
    with frame.put [OF 2(3), of k v now] that(2) show ?thesis by (auto simp: handle_ops_def frame_ops_def)
  next
    case (3 X m)
    with idx.put [OF 3(3), of k v now] that(2) show ?thesis by (auto simp: handle_ops_def idx_ops_def)
  qed
  show "\<exists>h'. w_delete handle_ops now k h = (Inr (), h') \<and> handle_inv K n h' (es @ [WDelete k now])"
    if "handle_inv K (Suc n) h es" "handle_keeps K (WDelete k now)" for k now
    using that(1)
  proof (cases rule: handle_cases)
    case (1 W m)
    with seg.delete [OF 1(3), of k now] that(2) show ?thesis by (auto simp: handle_ops_def seg_ops_def)
  next
    case (2 F m)
    with frame.delete [OF 2(3), of k now] that(2) show ?thesis by (auto simp: handle_ops_def frame_ops_def)
  next
    case (3 X m)
    with idx.delete [OF 3(3), of k now] that(2) show ?thesis by (auto simp: handle_ops_def idx_ops_def)
  qed
  show "\<exists>h'. w_batch handle_ops now kvs h = (Inr (), h') \<and> handle_inv K n h' (es @ map (\<lambda>(k, v). WPut k v now) kvs)"
    if "handle_inv K (n + length kvs) h es" "\<forall>(k, v) \<in> set kvs. handle_keeps K (WPut k v now)" for kvs now
    using that(1)
  proof (cases rule: handle_cases)
    case (1 W m)
    with seg.batch [OF 1(3), of now] that(2) show ?thesis by (auto simp: handle_ops_def seg_ops_def)
  next
    case (2 F m)
    with frame.batch [OF 2(3), of now] that(2) show ?thesis by (auto simp: handle_ops_def frame_ops_def)
  next
    case (3 X m)
    with idx.batch [OF 3(3), of now] that(2) show ?thesis by (auto simp: handle_ops_def idx_ops_def)
  qed
  show "\<exists>h'. w_flush handle_ops now h = (Inr (), h') \<and> handle_inv K n h' es" if "handle_inv K (Suc n) h es" for now
    using that
  proof (cases rule: handle_cases)
    case (1 W m)
    with seg.flush [OF 1(3), of now] show ?thesis by (auto simp: handle_ops_def seg_ops_def)
  next
    case (2 F m)
    with frame.flush [OF 2(3), of now] show ?thesis by (auto simp: handle_ops_def frame_ops_def)
  next
    case (3 X m)
    with idx.flush [OF 3(3), of now] show ?thesis by (auto simp: handle_ops_def idx_ops_def)
  qed
  show "\<exists>h'. w_truncate handle_ops now h = (Inr (), h') \<and> handle_inv K n h' [] \<and> w_verify handle_ops h'"
    if "handle_inv K (Suc n) h es" for now
    using that
  proof (cases rule: handle_cases)
    case (1 W m)
    with seg.truncate [OF 1(3), of now] show ?thesis by (auto simp: handle_ops_def seg_ops_def)
  next
    case (2 F m)
    with frame.truncate [OF 2(3), of now] show ?thesis by (auto simp: handle_ops_def frame_ops_def)
  next
    case (3 X m)
    with idx.truncate [OF 3(3), of now] show ?thesis by (auto simp: handle_ops_def idx_ops_def)
  qed
  show "\<exists>h'. w_shutdown handle_ops now h = (Inr (), h') \<and> handle_inv K n h' []"
    if "handle_inv K (n + 3) h es" "handle_keeps K (WCheckpoint now)" for now
    using that(1)
  proof (cases rule: handle_cases)
    case (1 W m)
    with seg.shutdown [OF 1(3), of now] that(2) show ?thesis by (auto simp: handle_ops_def seg_ops_def)
  next
    case (2 F m)
    with frame.shutdown [OF 2(3), of now] that(2) show ?thesis by (auto simp: handle_ops_def frame_ops_def)
  next
    case (3 X m)
    with idx.shutdown [OF 3(3), of now] that(2) show ?thesis by (auto simp: handle_ops_def idx_ops_def)
  qed
  show "\<exists>c. handle_crash h c"
    by (cases h) (auto simp: seg_crash_def frame_crash_def idx_crash_def)
  show "w_read handle_ops c = Inr (sort_key entry_timestamp es)" if "handle_inv K n h es" "handle_crash h c" for c
    using that(1)
  proof (cases rule: handle_cases)
    case (1 W m)
    with seg.read [OF 1(3)] that(2) show ?thesis by (auto simp: handle_ops_def seg_ops_def)
  next
    case (2 F m)
    with frame.read [OF 2(3)] that(2) show ?thesis by (auto simp: handle_ops_def frame_ops_def)
  next
    case (3 X m)
    with idx.read [OF 3(3)] that(2) show ?thesis by (auto simp: handle_ops_def idx_ops_def)
  qed
  show "\<exists>h'. w_init handle_ops now c = (Inr (), h') \<and> handle_inv K n h' es"
    if "handle_inv K (Suc n) h es" "handle_crash h c" for c now
    using that(1)
  proof (cases rule: handle_cases)
    case (1 W m)
    with that(2) obtain m' where "c = HSegment W m'" "seg_crash m m'" by auto
    with 1 seg.reopen [OF 1(3), of m' now] show ?thesis by (auto simp: handle_ops_def seg_ops_def)
  next
    case (2 F m)
    with that(2) obtain m' where "c = HFrame F m'" "frame_crash m m'" by auto
    with 2 frame.reopen [OF 2(3), of m' now] show ?thesis by (auto simp: handle_ops_def frame_ops_def)
  next
    case (3 X m)
    with that(2) obtain m' where "c = HIndexed X m'" "idx_crash m m'" by auto
    with 3 idx.reopen [OF 3(3), of m' now] show ?thesis by (auto simp: handle_ops_def idx_ops_def)
  qed
qed

end
