(* ===== verification/Engine_Steps.thy ===== *)
theory Engine_Steps
  imports Engine_Durable Wal_Handle
begin

text \<open>
  The engine as a state machine over a log: a run is a sequence of commands, crashes
  included, with a clock that does not run backwards.  Every reachable state satisfies the invariant,
  every command can be executed, and what is read is what a map would hold.
\<close>

subsection \<open>Commands and runs\<close>

datatype 'n cmd =
    CPut key "'n val"
  | CDelete key
  | CBatch "(key \<times> 'n val) list"
  | CFlush
  | CForce
  | CDeletes "key list"
  | CShutdown
  | CCrash

text \<open>The entries a command logs and what it does to the map.\<close>

fun cmd_entries :: "nat \<Rightarrow> 'n cmd \<Rightarrow> 'n wal_entry list" where
  "cmd_entries now (CPut k v) = [WPut k v now]"
| "cmd_entries now (CDelete k) = [WDelete k now]"
| "cmd_entries now (CBatch kvs) = map (\<lambda>(k, v). WPut k v now) kvs"
| "cmd_entries now (CDeletes ks) = map (\<lambda>k. WDelete k now) ks"
| "cmd_entries now _ = []"

fun cmd_spec :: "'n cmd \<Rightarrow> (key \<Rightarrow> 'n val option) \<Rightarrow> key \<Rightarrow> 'n val option" where
  "cmd_spec (CPut k v) f = f(k := store_val v)"
| "cmd_spec (CDelete k) f = f(k := None)"
| "cmd_spec (CBatch kvs) f = fold (\<lambda>(k, v) f. f(k := store_val v)) kvs f"
| "cmd_spec (CDeletes ks) f = fold (\<lambda>k f. f(k := None)) ks f"
| "cmd_spec _ f = f"

definition cmd_cost :: "'n cmd \<Rightarrow> nat" where
  "cmd_cost c = (case c of CDeletes ks \<Rightarrow> 2 * length ks | CShutdown \<Rightarrow> 5 | _ \<Rightarrow> length (cmd_entries 0 c) + 2)"

text \<open>\<open>ok\<close> are the entries the log can hold.\<close>

definition allowed :: "'n ecfg \<Rightarrow> ('n wal_entry \<Rightarrow> bool) \<Rightarrow> nat \<Rightarrow> 'n cmd \<Rightarrow> bool" where
  "allowed E ok now c \<longleftrightarrow> (\<forall>x \<in> set (cmd_entries now c). ok x \<and> fits_entry E x)
     \<and> (case c of CBatch kvs \<Rightarrow> length kvs \<le> ec_max_batch E | CShutdown \<Rightarrow> ok (WCheckpoint now) | _ \<Rightarrow> True)"

inductive eng_step :: "'n ecfg \<Rightarrow> ('n, 'w) wal_ops \<Rightarrow> ('w \<Rightarrow> 'w \<Rightarrow> bool) \<Rightarrow> nat \<Rightarrow> 'n cmd \<Rightarrow> ('n, 'w) engine \<Rightarrow> unit kv
    \<Rightarrow> ('n, 'w) engine \<Rightarrow> bool" for E ops crash now where
  step_put: "eng_put E ops now k v e = (r, e') \<Longrightarrow> eng_step E ops crash now (CPut k v) e r e'"
| step_delete: "eng_delete E ops now k e = (r, e') \<Longrightarrow> eng_step E ops crash now (CDelete k) e r e'"
| step_batch: "eng_batch_put E ops now kvs e = (r, e') \<Longrightarrow> eng_step E ops crash now (CBatch kvs) e r e'"
| step_flush: "eng_flush E ops now e = (r, e') \<Longrightarrow> eng_step E ops crash now CFlush e r e'"
| step_force: "eng_force_flush E e = (r, e') \<Longrightarrow> eng_step E ops crash now CForce e (to_kv r) e'"
| step_deletes: "eng_batch_delete E ops now ks e = (r, e') \<Longrightarrow> eng_step E ops crash now (CDeletes ks) e r e'"
| step_shutdown: "eng_shutdown E ops now e = (r, e') \<Longrightarrow> eng_step E ops crash now CShutdown e (to_kv r) e'"
| step_crash: "lists E files (eg_levels e 0) \<Longrightarrow> cs_disk disk = cs_disk (eg_disk e) \<Longrightarrow> crash (eg_wal e) w \<Longrightarrow>
    eng_open E ops now allow False files order disk (eg_seq_file e) w = (r, e') \<Longrightarrow>
    eng_step E ops crash now CCrash e (to_kv r) e'"

inductive_cases eng_step_putE: "eng_step E ops crash now (CPut k v) e r e'"
inductive_cases eng_step_deleteE: "eng_step E ops crash now (CDelete k) e r e'"
inductive_cases eng_step_batchE: "eng_step E ops crash now (CBatch kvs) e r e'"
inductive_cases eng_step_flushE: "eng_step E ops crash now CFlush e r e'"
inductive_cases eng_step_forceE: "eng_step E ops crash now CForce e r e'"
inductive_cases eng_step_deletesE: "eng_step E ops crash now (CDeletes ks) e r e'"
inductive_cases eng_step_shutdownE: "eng_step E ops crash now CShutdown e r e'"
inductive_cases eng_step_crashE: "eng_step E ops crash now CCrash e r e'"

lemmas eng_step_elims = eng_step_putE eng_step_deleteE eng_step_batchE eng_step_flushE eng_step_forceE
  eng_step_deletesE eng_step_shutdownE eng_step_crashE

inductive eng_run :: "'n ecfg \<Rightarrow> ('n, 'w) wal_ops \<Rightarrow> ('w \<Rightarrow> 'w \<Rightarrow> bool) \<Rightarrow> nat \<Rightarrow> (nat \<times> 'n cmd) list \<Rightarrow> ('n, 'w) engine
    \<Rightarrow> unit kv list \<Rightarrow> ('n, 'w) engine \<Rightarrow> bool" for E ops crash where
  run_none: "eng_run E ops crash t [] e [] e"
| run_step: "t \<le> now \<Longrightarrow> eng_step E ops crash now c e r e1 \<Longrightarrow> eng_run E ops crash now cs e1 rs e' \<Longrightarrow>
    eng_run E ops crash t ((now, c) # cs) e (r # rs) e'"

fun run_cost :: "(nat \<times> 'n cmd) list \<Rightarrow> nat" where
  "run_cost [] = 0"
| "run_cost ((_, c) # cs) = cmd_cost c + run_cost cs"

fun run_spec :: "(nat \<times> 'n cmd) list \<Rightarrow> (key \<Rightarrow> 'n val option) \<Rightarrow> key \<Rightarrow> 'n val option" where
  "run_spec [] f = f"
| "run_spec ((_, c) # cs) f = run_spec cs (cmd_spec c f)"

text \<open>A new engine on an empty disk, with the log \<open>w\<close>.\<close>

definition empty_disk :: cstate where
  "empty_disk = \<lparr>cs_disk = (\<lambda>_. None), cs_next = 0, cs_stats = no_stats\<rparr>"

definition eng_start :: "'n ecfg \<Rightarrow> ('n, 'w) wal_ops \<Rightarrow> bool \<Rightarrow> nat \<Rightarrow> 'w \<Rightarrow> unit res \<times> ('n, 'w) engine" where
  "eng_start E ops allow now w = eng_open E ops now allow False [] [] empty_disk 0 w"

subsection \<open>One step\<close>

lemma lists_exists:
  assumes "tables_ok E e"
  shows "\<exists>files. lists E files (eg_levels e 0)"
proof -
  let ?L = "eg_levels e 0"
  define name where "name t = drop (length (ec_dir E)) (tb_path t)" for t :: "'a table"
  have n: "tb_path t = ec_dir E @ name t" "parse_sstable_level_from_filename (name t) \<noteq> None" if "t \<in> set ?L" for t
    using assms that by (auto simp: tables_ok_def name_ok_def name_def)
  have "inj_on name (set ?L)"
  proof (rule inj_onI)
    fix s t assume "s \<in> set ?L" "t \<in> set ?L" "name s = name t"
    then have "tb_path s = tb_path t" using n by metis
    moreover have "inj_on tb_path (set ?L)" using assms by (simp add: tables_ok_def distinct_map)
    ultimately show "s = t" using \<open>s \<in> set ?L\<close> \<open>t \<in> set ?L\<close> by (auto dest: inj_onD)
  qed
  moreover have "distinct ?L" using assms by (simp add: tables_ok_def distinct_map)
  ultimately have "distinct (map fst (map (\<lambda>t. (name t, Inr t :: 'a table res)) ?L))"
    by (simp add: comp_def distinct_map)
  moreover have "tb_path t = ec_dir E @ b \<longleftrightarrow> b = name t" if "t \<in> set ?L" for t b
    using n(1) [OF that] by auto
  ultimately have "lists E (map (\<lambda>t. (name t, Inr t)) ?L) ?L"
    using n(2) unfolding lists_def by (fastforce simp: image_iff)
  then show ?thesis by blast
qed

context wal_log
begin

lemma durable_mono: "durable E inv N m t e \<Longrightarrow> n \<le> m \<Longrightarrow> durable E inv N n t e"
proof -
  assume d: "durable E inv N m t e" and "n \<le> m"
  from this(2,1) show ?thesis
    by (rule inc_induct) (rule durable_less, assumption, rule inv_less)
qed

lemma durable_step:
  assumes s: "env_fine E" "ec_wal E" and d: "durable E inv N (n + cmd_cost c) t e" and now: "t \<le> now"
    and a: "allowed E ok now c"
  shows "\<exists>e'. eng_step E ops crash now c e (Inr ()) e'"
    and "eng_step E ops crash now c e r e' \<Longrightarrow> r = Inr () \<and> durable E inv N n now e' \<and> eng_view E e' = cmd_spec c (eng_view E e)"
proof -
  note le = durable_mono [OF d]
  have "\<exists>e'. eng_step E ops crash now c e (Inr ()) e'"
    and "\<forall>r e'. eng_step E ops crash now c e r e' \<longrightarrow>
      r = Inr () \<and> durable E inv N n now e' \<and> eng_view E e' = cmd_spec c (eng_view E e)"
  proof (atomize (full), cases c)
    case (CPut k v)
    have "durable E inv N (n + 2) t e" by (rule le) (simp add: CPut cmd_cost_def)
    moreover have "ok (WPut k v now)" "fits_table E k v" using a by (simp_all add: allowed_def CPut)
    ultimately obtain e' where "eng_put E ops now k v e = (Inr (), e')" "durable E inv N n now e'"
      "eng_view E e' = (eng_view E e)(k := store_val v)"
      using durable_put [OF s] now by blast
    then show "(\<exists>e'. eng_step E ops crash now c e (Inr ()) e') \<and> (\<forall>r e'. eng_step E ops crash now c e r e' \<longrightarrow>
      r = Inr () \<and> durable E inv N n now e' \<and> eng_view E e' = cmd_spec c (eng_view E e))"
      unfolding CPut by (auto intro: step_put elim!: eng_step_putE)
  next
    case (CDelete k)
    have "durable E inv N (n + 2) t e" by (rule le) (simp add: CDelete cmd_cost_def)
    moreover have "ok (WDelete k now)" "fits_table E k VNull" using a by (simp_all add: allowed_def CDelete)
    ultimately obtain e' where "eng_delete E ops now k e = (Inr (), e')" "durable E inv N n now e'"
      "eng_view E e' = (eng_view E e)(k := None)"
      using durable_delete [OF s] now by blast
    then show "(\<exists>e'. eng_step E ops crash now c e (Inr ()) e') \<and> (\<forall>r e'. eng_step E ops crash now c e r e' \<longrightarrow>
      r = Inr () \<and> durable E inv N n now e' \<and> eng_view E e' = cmd_spec c (eng_view E e))"
      unfolding CDelete by (auto intro: step_delete elim!: eng_step_deleteE)
  next
    case (CBatch kvs)
    have "durable E inv N (n + length kvs + 1) t e" by (rule le) (simp add: CBatch cmd_cost_def)
    moreover have "length kvs \<le> ec_max_batch E" "\<forall>(k, v) \<in> set kvs. ok (WPut k v now) \<and> fits_table E k v"
      using a by (auto simp: allowed_def CBatch)
    ultimately obtain e' where "eng_batch_put E ops now kvs e = (Inr (), e')" "durable E inv N n now e'"
      "eng_view E e' = fold (\<lambda>(k, v) f. f(k := store_val v)) kvs (eng_view E e)"
      using durable_batch [OF s] now by blast
    then show "(\<exists>e'. eng_step E ops crash now c e (Inr ()) e') \<and> (\<forall>r e'. eng_step E ops crash now c e r e' \<longrightarrow>
      r = Inr () \<and> durable E inv N n now e' \<and> eng_view E e' = cmd_spec c (eng_view E e))"
      unfolding CBatch by (auto intro: step_batch elim!: eng_step_batchE)
  next
    case CFlush
    have "durable E inv N (n + 2) t e" by (rule le) (simp add: CFlush cmd_cost_def)
    then obtain e' where "eng_flush E ops now e = (Inr (), e')" "durable E inv N n now e'"
      "eng_view E e' = eng_view E e"
      using durable_flush [OF s] now by blast
    then show "(\<exists>e'. eng_step E ops crash now c e (Inr ()) e') \<and> (\<forall>r e'. eng_step E ops crash now c e r e' \<longrightarrow>
      r = Inr () \<and> durable E inv N n now e' \<and> eng_view E e' = cmd_spec c (eng_view E e))"
      unfolding CFlush by (auto intro: step_flush elim!: eng_step_flushE)
  next
    case CForce
    have "durable E inv N (n + 1) t e" by (rule le) (simp add: CForce cmd_cost_def)
    then obtain e' where e': "eng_force_flush E e = (Inr (), e')" "durable E inv N n now e'"
      "eng_view E e' = eng_view E e"
      using durable_force [OF s(1)] now by blast
    from step_force [OF e'(1)] have "\<exists>e'. eng_step E ops crash now CForce e (Inr ()) e'" by auto
    with e' show "(\<exists>e'. eng_step E ops crash now c e (Inr ()) e') \<and> (\<forall>r e'. eng_step E ops crash now c e r e' \<longrightarrow>
      r = Inr () \<and> durable E inv N n now e' \<and> eng_view E e' = cmd_spec c (eng_view E e))"
      unfolding CForce by (auto elim!: eng_step_forceE)
  next
    case (CDeletes ks)
    have "durable E inv N (n + 2 * length ks) t e" by (rule le) (simp add: CDeletes cmd_cost_def)
    moreover have "\<forall>k \<in> set ks. ok (WDelete k now) \<and> fits_table E k VNull" using a by (auto simp: allowed_def CDeletes)
    ultimately obtain e' where "eng_batch_delete E ops now ks e = (Inr (), e')" "durable E inv N n now e'"
      "eng_view E e' = fold (\<lambda>k f. f(k := None)) ks (eng_view E e)"
      using durable_deletes [OF s] now by blast
    then show "(\<exists>e'. eng_step E ops crash now c e (Inr ()) e') \<and> (\<forall>r e'. eng_step E ops crash now c e r e' \<longrightarrow>
      r = Inr () \<and> durable E inv N n now e' \<and> eng_view E e' = cmd_spec c (eng_view E e))"
      unfolding CDeletes by (auto intro: step_deletes elim!: eng_step_deletesE)
  next
    case CShutdown
    have "durable E inv N (n + 5) t e" by (rule le) (simp add: CShutdown cmd_cost_def)
    moreover have "ok (WCheckpoint now)" using a by (simp add: allowed_def CShutdown)
    ultimately obtain e' where e': "eng_shutdown E ops now e = (Inr (), e')" "durable E inv N n now e'"
      "eng_view E e' = eng_view E e"
      using durable_shutdown [OF s] now by blast
    from step_shutdown [OF e'(1)] have "\<exists>e'. eng_step E ops crash now CShutdown e (Inr ()) e'" by auto
    with e' show "(\<exists>e'. eng_step E ops crash now c e (Inr ()) e') \<and> (\<forall>r e'. eng_step E ops crash now c e r e' \<longrightarrow>
      r = Inr () \<and> durable E inv N n now e' \<and> eng_view E e' = cmd_spec c (eng_view E e))"
      unfolding CShutdown by (auto elim!: eng_step_shutdownE)
  next
    case CCrash
    have d1: "durable E inv N (n + 1) t e" by (rule le) (simp add: CCrash cmd_cost_def)
    then have "tables_ok E e" by (auto simp: durable_def eng_ok_def)
    from lists_exists [OF this] obtain files where f: "lists E files (eg_levels e 0)" by blast
    have op: "\<exists>e'. eng_open E ops now allow False files order disk (eg_seq_file e) w = (Inr (), e')
        \<and> durable E inv N n now e' \<and> eng_view E e' = eng_view E e"
      if "lists E files (eg_levels e 0)" "cs_disk disk = cs_disk (eg_disk e)" "crash (eg_wal e) w" for files order disk w allow
      by (rule durable_open [OF s d1 now that])
    obtain w where w: "crash (eg_wal e) w" using crashes by blast
    from op [OF f refl w, of False "[]"] obtain e' where
      "eng_open E ops now False False files [] (eg_disk e) (eg_seq_file e) w = (Inr (), e')"
      by blast
    from step_crash [where crash = crash and w = w, OF f refl w this] have "\<exists>e'. eng_step E ops crash now c e (Inr ()) e'" unfolding CCrash by auto
    moreover have "r = Inr () \<and> durable E inv N n now e' \<and> eng_view E e' = eng_view E e"
      if st: "eng_step E ops crash now CCrash e r e'" for r e'
    proof -
      from st obtain files disk w allow order r0 where h: "lists E files (eg_levels e 0)" "cs_disk disk = cs_disk (eg_disk e)"
        "crash (eg_wal e) w"
        "eng_open E ops now allow False files order disk (eg_seq_file e) w = (r0, e')"
        "r = to_kv r0" by (rule eng_step_crashE)
      with op [OF h(1-3), of allow order] h(4,5) show ?thesis by auto
    qed
    ultimately show "(\<exists>e'. eng_step E ops crash now c e (Inr ()) e') \<and> (\<forall>r e'. eng_step E ops crash now c e r e' \<longrightarrow>
      r = Inr () \<and> durable E inv N n now e' \<and> eng_view E e' = cmd_spec c (eng_view E e))"
      unfolding CCrash by simp
  qed
  then show "\<exists>e'. eng_step E ops crash now c e (Inr ()) e'"
    and "eng_step E ops crash now c e r e' \<Longrightarrow> r = Inr () \<and> durable E inv N n now e' \<and> eng_view E e' = cmd_spec c (eng_view E e)"
    by blast+
qed

subsection \<open>Runs\<close>

lemma durable_run:
  assumes s: "env_fine E" "ec_wal E" and r: "eng_run E ops crash t cs e rs e'"
  shows "durable E inv N (n + run_cost cs) t e \<Longrightarrow> \<forall>(now, c) \<in> set cs. allowed E ok now c \<Longrightarrow>
    (\<forall>r \<in> set rs. r = Inr ()) \<and> (\<exists>t'. durable E inv N n t' e' \<and> t' = last (t # map fst cs))
    \<and> eng_view E e' = run_spec cs (eng_view E e)"
  using r
proof (induction rule: eng_run.induct)
  case (run_step t now c e r e1 cs rs e')
  let ?n = "n + run_cost cs"
  have d: "durable E inv N (?n + cmd_cost c) t e" using run_step.prems(1) by (simp add: ac_simps)
  have a: "allowed E ok now c" using run_step.prems(2) by simp
  from durable_step(2) [OF s d run_step.hyps(1) a run_step.hyps(2)] run_step.IH run_step.prems(2)
  show ?case by auto
qed auto

lemma run_exists:
  assumes s: "env_fine E" "ec_wal E"
  shows "durable E inv N (n + run_cost cs) t e \<Longrightarrow> \<forall>(now, c) \<in> set cs. allowed E ok now c \<Longrightarrow>
    sorted (t # map fst cs) \<Longrightarrow> \<exists>rs e'. eng_run E ops crash t cs e rs e'"
proof (induction cs arbitrary: t e)
  case Nil
  then show ?case by (blast intro: run_none)
next
  case (Cons x cs)
  obtain now c where x: "x = (now, c)" by (cases x)
  let ?n = "n + run_cost cs"
  have d: "durable E inv N (?n + cmd_cost c) t e" using Cons.prems(1) by (simp add: x ac_simps)
  have a: "allowed E ok now c" and t: "t \<le> now" using Cons.prems(2,3) by (simp_all add: x)
  from durable_step(1) [OF s d t a] obtain e1 where e1: "eng_step E ops crash now c e (Inr ()) e1" by blast
  from durable_step(2) [OF s d t a e1] have "durable E inv N ?n now e1" by blast
  from Cons.IH [OF this] Cons.prems(2,3) obtain rs e' where "eng_run E ops crash now cs e1 rs e'" by (auto simp: x)
  from run_step [OF t e1 this] show ?case unfolding x by blast
qed

lemma start_ok:
  assumes E: "env_fine E" and on: "ec_wal E" and N: "2 * (N * Suc N) + 8 < 2 ^ 64"
    and w: "w_init ops now w0 = (Inr (), w)" "inv N w []" and r: "w_read ops w0 = Inr []"
  shows "\<exists>e. eng_start E ops allow now w0 = (Inr (), e) \<and> durable E inv N N now e \<and> eng_view E e = (\<lambda>_. None)"
proof -
  have p: "ec_persist E" using E by (simp add: env_fine_def)
  define e0 where "e0 = create_engine_structure E empty_disk 0 w0"
  define e1 where "e1 = e0\<lparr>eg_wal := w\<rparr>"
  have i: "initialize_wal E ops now allow False e0 = (Inr (), e1)"
    using on w(1) r
    by (simp add: initialize_wal_def recover_from_wal_def e0_def create_engine_structure_def on_wal_def e1_def
        entries_to_recover_def last_checkpoint_def)
  define e2 where "e2 = load_existing_sstables E [] e1"
  define e where "e = refresh_live_key_count E [] e2"
  have run: "eng_start E ops allow now w0 = (Inr (), e)"
    using i by (simp add: eng_start_def eng_open_def e0_def e2_def e_def)
  have e2: "eg_active e2 = mt_new (ec_mem_max E)" "eg_imm e2 = []" "eg_levels e2 = (\<lambda>_. [])" "eg_seq e2 = 1" "eg_seq_file e2 = 1"
    "eg_disk e2 = empty_disk" "eg_wal e2 = w"
    using p
    by (simp_all add: e2_def load_existing_sstables_def e1_def e0_def create_engine_structure_def Let_def opened_def
        List.map_filter_simps max_flush_sequence_def max_entry_ts_def saturating_add_def u64_max_def loaded_level_def
        sort_leveled_sstables_def fun_eq_iff)
  have f: "data_of e = data_of e2" "eg_wal e = w"
    using e2(7) by (simp_all add: e_def refresh_live_key_count_def data_of_def Let_def)
  have t: "tables_ok E e2"
    by (simp add: tables_ok_def e2 levels_ok_def disjoint_level_def on_disk_def empty_disk_def paths_def no_ties_def)
  have v: "eng_view E e2 k = None" "get_from_tables E e2 k = None" for k
    using tables_read [OF t E, of k] e2(1-3) by (simp_all add: view_one newest_in_def live_def)
  have "eng_ok E (N * Suc N) e2"
    using t e2 mem_ok_new N by (simp add: eng_ok_def new_facts)
  then have "durable E inv N N now e"
    using w(2) f(2) by (auto simp: durable_def ok_frame [OF f(1)] view_frame [OF f(1)] v intro!: exI [of _ "[]"])
  moreover have "eng_view E e = (\<lambda>_. None)" by (simp add: view_frame [OF f(1)] v fun_eq_iff)
  ultimately show ?thesis using run by blast
qed

text \<open>The engine over any log that keeps its promises.\<close>

lemma refines_map:
  assumes E: "env_fine E" "ec_wal E" and d: "durable E inv N N t e0" "eng_view E e0 = (\<lambda>_. None)"
    and run: "eng_run E ops crash t cs e0 rs e" and a: "\<forall>(now, c) \<in> set cs. allowed E ok now c" and N: "run_cost cs \<le> N"
  shows "(\<forall>r \<in> set rs. r = Inr ()) \<and> fst (eng_get E k e) = Inr (run_spec cs (\<lambda>_. None) k)" and "eng_ok E 0 e"
proof -
  from durable_mono [OF d(1), of "0 + run_cost cs"] N have "durable E inv N (0 + run_cost cs) t e0" by simp
  from durable_run [OF E run this a] d(2)
  show "(\<forall>r \<in> set rs. r = Inr ()) \<and> fst (eng_get E k e) = Inr (run_spec cs (\<lambda>_. None) k)" "eng_ok E 0 e"
    by (auto simp: eng_get_view durable_def)
qed

lemma never_stuck:
  assumes E: "env_fine E" "ec_wal E" and d: "durable E inv N N t0 e0" and run: "eng_run E ops crash t0 cs e0 rs e"
    and a: "\<forall>(now, c) \<in> set (cs @ [(t, c)]). allowed E ok now c" and N: "run_cost cs + cmd_cost c \<le> N"
    and t: "last (t0 # map fst cs) \<le> t"
  shows "\<exists>e'. eng_step E ops crash t c e (Inr ()) e'"
proof -
  from durable_mono [OF d, of "0 + cmd_cost c + run_cost cs"] N
  have "durable E inv N (0 + cmd_cost c + run_cost cs) t0 e0" by simp
  from durable_run [OF E run this] a have "durable E inv N (0 + cmd_cost c) (last (t0 # map fst cs)) e" by auto
  from durable_step(1) [OF E this t] a show ?thesis by auto
qed

end

end
