(* ===== verification/Engine_Safety.thy ===== *)
theory Engine_Safety
  imports Engine_Steps Compaction_Safety
begin

text \<open>
  The properties of the engine over whole runs: refinement of a map across flushes, compactions and
  crashes, the invariant, and progress; first over the segment log, then over the indexed log; with a small
  configuration to run it on.
\<close>

subsection \<open>The engine over the segment log\<close>

definition config_fine :: "'n ecfg \<Rightarrow> 'n wenv \<Rightarrow> nat \<Rightarrow> nat \<Rightarrow> bool" where
  "config_fine E W N sp \<longleftrightarrow> env_fine E \<and> ec_wal E \<and> wenv_ok W \<and> we_sync W = SyncFsync \<and> (we_group W \<longrightarrow> we_wait W)
     \<and> we_hsize W + 4 \<le> we_max W \<and> 2 * Suc N * we_max W \<le> sp \<and> 2 * (N * Suc N) + 8 < 2 ^ 64"

text \<open>A new engine with \<open>sp\<close> bytes of space for the log, and its runs.\<close>

abbreviation seg_start :: "'n ecfg \<Rightarrow> 'n wenv \<Rightarrow> nat \<Rightarrow> nat \<Rightarrow> unit res \<times> ('n, 'n wal_mgr) engine" where
  "seg_start E W now sp \<equiv> eng_start E (seg_ops W) False now (wm_new (empty_fs sp))"

abbreviation seg_step :: "'n ecfg \<Rightarrow> 'n wenv \<Rightarrow> nat \<Rightarrow> 'n cmd \<Rightarrow> ('n, 'n wal_mgr) engine \<Rightarrow> unit kv
    \<Rightarrow> ('n, 'n wal_mgr) engine \<Rightarrow> bool" where
  "seg_step E W \<equiv> eng_step E (seg_ops W) seg_crash"

abbreviation seg_run :: "'n ecfg \<Rightarrow> 'n wenv \<Rightarrow> nat \<Rightarrow> (nat \<times> 'n cmd) list \<Rightarrow> ('n, 'n wal_mgr) engine \<Rightarrow> unit kv list
    \<Rightarrow> ('n, 'n wal_mgr) engine \<Rightarrow> bool" where
  "seg_run E W \<equiv> eng_run E (seg_ops W) seg_crash"

lemma seg_start_ok:
  assumes s: "config_fine E W N sp"
  shows "\<exists>e. seg_start E W now sp = (Inr (), e) \<and> durable E (seg_synced W) N N now e \<and> eng_view E e = (\<lambda>_. None)"
proof -
  have E: "env_fine E" "ec_wal E" "2 * (N * Suc N) + 8 < 2 ^ 64" using s by (simp_all add: config_fine_def)
  have "N \<le> N * Suc N" by simp
  then have N: "2 * N + 4 < 2 ^ 64" using E(3) by linarith
  have W: "wenv_ok W" "we_group W \<longrightarrow> we_wait W" "we_hsize W + 4 \<le> we_max W" "2 * Suc N * we_max W \<le> sp"
    using s by (auto simp: config_fine_def)
  from fresh_log [OF W N, of now] obtain w where w: "wal_initialize W now (wm_new (empty_fs sp)) = (Inr (), w)" "seg_inv W N w []"
    by blast
  have i: "w_init (seg_ops W) now (wm_new (empty_fs sp)) = (Inr (), w)" using w(1) by (simp add: seg_ops_def)
  have sync: "seg_synced W N w []" using w(2) s by (simp add: seg_synced_def config_fine_def)
  have r: "w_read (seg_ops W) (wm_new (empty_fs sp)) = Inr []"
    by (simp add: seg_ops_def read_entries_from_disk_def segment_files_def list_segment_files_on_disk_def wm_new_def empty_fs_def
        ok_parts_def List.map_filter_simps)
  show ?thesis by (rule seg.start_ok [OF E i sync r])
qed

subsection \<open>A small engine\<close>

definition eng_name :: "nat \<Rightarrow> nat \<Rightarrow> path" where
  "eng_name level i = ''/d/sstable_l'' @ (if level = 0 then ''0'' else ''1'') @ ''_t'' @ replicate i CHR ''0'' @ ''.sst''"

definition toy_ecfg :: "nat ecfg" where
  "toy_ecfg = \<lparr>ec_S = toy_senv, ec_C = (toy_cfg 150)\<lparr>cc_name := eng_name\<rparr>, ec_mem_max = 30, ec_wal = True,
     ec_max_batch = 2, ec_dir = ''/d/'', ec_open = (\<lambda>_. Inr ()), ec_persist = True,
     ec_default_cf = [100, 101, 102, 97, 117, 108, 116]\<rparr>"

lemma toy_ecfg_simps [simp]: "ec_S toy_ecfg = toy_senv" "ec_C toy_ecfg = (toy_cfg 150)\<lparr>cc_name := eng_name\<rparr>"
  "ec_wal toy_ecfg" "ec_max_batch toy_ecfg = 2" "ec_dir toy_ecfg = ''/d/''" "ec_open toy_ecfg p = Inr ()" "ec_persist toy_ecfg"
  by (simp_all add: toy_ecfg_def)

lemma eng_name_inj: "inj (eng_name level)"
proof (rule injI)
  fix i j assume "eng_name level i = eng_name level j"
  from arg_cong [OF this, of length] show "i = j" by (simp add: eng_name_def split: if_splits)
qed

lemma eng_name_parts: "eng_name 0 i = ''/d/'' @ (''sstable_l'' @ ''0_t'' @ replicate i CHR ''0'' @ ''.sst'')"
  by (simp add: eng_name_def)

lemma eng_name_parsed:
  "parse_sstable_level_from_filename (''sstable_l'' @ ''0_t'' @ replicate i CHR ''0'' @ ''.sst'') = Some 0"
  "parse_sstable_flush_sequence_from_filename (''sstable_l'' @ ''0_t'' @ replicate i CHR ''0'' @ ''.sst'') = None"
proof -
  let ?n = "''sstable_l'' @ ''0_t'' @ replicate i CHR ''0'' @ ''.sst''"
  have e: "ends_with ?n ''.sst''" unfolding ends_with_iff by (metis append_assoc)
  have "strip_prefix ''sstable_l'' ?n = Some (''0_t'' @ replicate i CHR ''0'' @ ''.sst'')" by (rule strip_prefix_append)
  moreover have "first_part (CHR ''_'') (''0_t'' @ replicate i CHR ''0'' @ ''.sst'') = ''0''"
    by (simp add: first_part_def)
  moreover have "from_str_radix 10 ''0'' = Some 0" by (simp add: from_str_radix_def digit_val_def)
  ultimately show "parse_sstable_level_from_filename ?n = Some 0"
    unfolding parse_sstable_level_from_filename_def using e by simp
  show "parse_sstable_flush_sequence_from_filename ?n = None"
    by (simp add: parse_sstable_flush_sequence_from_filename_def starts_with_def)
qed

lemma toy_env_fine: "env_fine toy_ecfg"
proof -
  have "\<exists>b. eng_name 0 i = ''/d/'' @ b \<and> parse_sstable_level_from_filename b = Some 0
      \<and> parse_sstable_flush_sequence_from_filename b = None" for i
    using eng_name_parts eng_name_parsed by blast
  then show ?thesis
    using toy_cfg_ok [of 150] eng_name_inj by (simp add: env_fine_def cc_ok_def) (simp add: toy_cfg_def)
qed

lemma toy_config: "17 + 4 \<le> mx \<Longrightarrow> 2 * Suc N * mx \<le> sp \<Longrightarrow> 2 * (N * Suc N) + 8 < 2 ^ 64 \<Longrightarrow>
  config_fine toy_ecfg (toy_wenv mx SyncFsync) N sp"
  by (simp add: config_fine_def toy_env_fine toy_wenv_ok)

lemma toy_fits_table: "fits_table toy_ecfg k v"
  by (simp add: fits_table_def toy_senv_def)

text \<open>Writes, a flush, crashes before and after it, and a shutdown.\<close>

definition toy_cmds :: "(nat \<times> nat cmd) list" where
  "toy_cmds = [(1, CPut [97] (VBytes [1])), (2, CBatch [([98], VBytes [2]), ([99], VBytes [3])]), (3, CCrash),
     (3, CFlush), (4, CDelete [97]), (4, CForce), (4, CDeletes [[99]]), (5, CShutdown), (5, CCrash)]"

lemma toy_cmds_allowed: "\<forall>(now, c) \<in> set toy_cmds. allowed toy_ecfg (fits (toy_wenv 40 SyncFsync)) now c"
  by (simp add: toy_cmds_def allowed_def toy_fits_table toy_put_fits toy_delete_fits toy_checkpoint_fits)

lemma toy_cmds_cost: "run_cost toy_cmds = 25"
  by (simp add: toy_cmds_def cmd_cost_def)

lemma toy_run_exists: "\<exists>e0 rs e. seg_start toy_ecfg (toy_wenv 40 SyncFsync) 0 2240 = (Inr (), e0)
  \<and> seg_run toy_ecfg (toy_wenv 40 SyncFsync) 0 toy_cmds e0 rs e"
proof -
  have c: "config_fine toy_ecfg (toy_wenv 40 SyncFsync) 27 2240" by (rule toy_config) simp_all
  from seg_start_ok [OF this, of 0] obtain e0 where e0: "seg_start toy_ecfg (toy_wenv 40 SyncFsync) 0 2240 = (Inr (), e0)"
    "durable toy_ecfg (seg_synced (toy_wenv 40 SyncFsync)) 27 27 0 e0" by blast
  then have "durable toy_ecfg (seg_synced (toy_wenv 40 SyncFsync)) 27 (2 + run_cost toy_cmds) 0 e0" by (simp add: toy_cmds_cost)
  from seg.run_exists [OF toy_env_fine _ this toy_cmds_allowed] e0(1) show ?thesis by (auto simp: toy_cmds_def)
qed

subsection \<open>Properties\<close>







subsection \<open>The engine over the indexed log\<close>

definition idx_config_fine :: "'n ecfg \<Rightarrow> 'n xenv \<Rightarrow> nat \<Rightarrow> bool" where
  "idx_config_fine E X N \<longleftrightarrow> env_fine E \<and> ec_wal E \<and> xenv_ok X \<and> 2 * (N * Suc N) + 8 < 2 ^ 64 \<and> N + 2 < 2 ^ 32"

definition empty_xdisk :: xdisk where "empty_xdisk = \<lparr>xd_dirs = [], xd_index = None\<rparr>"

lemma fresh_index:
  assumes X: "xenv_ok X" and n: "n + 2 < 2 ^ 32"
  shows "\<exists>m. xm_initialize X now (xm_new empty_xdisk) = (Inr (), m) \<and> idx_inv X n m []"
proof -
  let ?m = "(xm_new empty_xdisk)\<lparr>xm_counter := 1\<rparr>"
  have "xm_scan_existing_segments (xm_new empty_xdisk) = ?m"
    by (simp add: xm_scan_existing_segments_def xm_new_def empty_xdisk_def List.map_filter_simps)
  then have i: "xm_initialize X now (xm_new empty_xdisk) = xm_rotate_segment X now ?m"
    by (simp add: xm_initialize_def index_state_def xm_new_def empty_xdisk_def)
  have m: "xm_cur ?m = None" "disk_holds X [] (xm_disk ?m)" "\<forall>p \<in> set []. fst p < xm_counter ?m" "xm_counter ?m < 2 ^ 32"
    "index_at X 0 (xm_disk ?m)" "0 + (1 :: nat) < 2 ^ 64"
    by (simp_all add: xm_new_def empty_xdisk_def disk_holds_def index_at_def)
  from rotate_none [OF X m, of now] obtain m' where r: "xm_rotate_segment X now ?m = (Inr (), m')"
    "minv X [(1, [])] m'" "xm_counter m' = 2" "mgen m' \<le> 1" by auto
  have "all_entries [(1, [])] = []" by (simp add: all_entries_def entries_in_def)
  with r X n have "idx_inv X n m' []" by (auto simp: idx_inv_def)
  with i r(1) show ?thesis by auto
qed

lemma idx_start_ok:
  assumes s: "idx_config_fine E X N"
  shows "\<exists>e. eng_start E (idx_ops X) False now (xm_new empty_xdisk) = (Inr (), e) \<and> durable E (idx_inv X) N N now e
    \<and> eng_view E e = (\<lambda>_. None)"
proof -
  have E: "env_fine E" "ec_wal E" "2 * (N * Suc N) + 8 < 2 ^ 64" "xenv_ok X" "N + 2 < 2 ^ 32"
    using s by (simp_all add: idx_config_fine_def)
  from fresh_index [OF E(4,5), of now] obtain m where m: "xm_initialize X now (xm_new empty_xdisk) = (Inr (), m)"
    "idx_inv X N m []" by blast
  have i: "w_init (idx_ops X) now (xm_new empty_xdisk) = (Inr (), m)" using m(1) by (simp add: idx_ops_def)
  have r: "w_read (idx_ops X) (xm_new empty_xdisk) = Inr []"
    by (simp add: idx_ops_def xm_read_entries_from_disk_def segment_dirs_def xm_new_def empty_xdisk_def List.map_filter_simps)
  show ?thesis by (rule idx.start_ok [OF E(1-3) i m(2) r])
qed


definition toy_xenv :: "sync_mode \<Rightarrow> nat xenv" where
  "toy_xenv sm = \<lparr>xe_ser = toy_ser, xe_de = toy_de, xe_crc = (\<lambda>b. word_of_nat (sum_list (map unat b))), xe_page = 4096,
     xe_count = 64, xe_sync = sm\<rparr>"


end
