(* ===== verification/Engine_Scan_Correct.thy ===== *)
theory Engine_Scan_Correct
  imports Engine_Safety
begin

text \<open>
  The prefix scan that visits one key after the other against the point read: on a well-formed store it
  returns the live keys with the prefix in order, each with the value \<open>get\<close> returns.
\<close>

subsection \<open>Positions\<close>

text \<open>What a scan is done with, and what it still wants.\<close>

definition past :: "'n prefix_scan \<Rightarrow> key \<Rightarrow> bool" where
  "past st k \<longleftrightarrow> (case ps_last st of None \<Rightarrow> k < ps_prefix st | Some a \<Rightarrow> k \<le> a)"

definition wanted :: "'n prefix_scan \<Rightarrow> key \<Rightarrow> bool" where
  "wanted st k \<longleftrightarrow> starts_with k (ps_prefix st) \<and> \<not> past st k"

definition head_ok :: "'n senv \<Rightarrow> 'n prefix_scan \<Rightarrow> 'n scan_head \<Rightarrow> bool" where
  "head_ok S st h \<longleftrightarrow> table_ok S (hd_sst h) \<and> hd_pos h \<le> length (tb_keys (hd_sst h))
     \<and> (\<forall>i < hd_pos h. past st (tb_keys (hd_sst h) ! i))
     \<and> (\<forall>i < length (tb_keys (hd_sst h)). hd_pos h \<le> i \<longrightarrow> \<not> past st (tb_keys (hd_sst h) ! i))"

definition scan_ok :: "'n ecfg \<Rightarrow> ('n, 'w) engine \<Rightarrow> 'n prefix_scan \<Rightarrow> bool" where
  "scan_ok E e st \<longleftrightarrow> (\<forall>h \<in> set (ps_heads st). head_ok (ec_S E) st h)
     \<and> map (\<lambda>h. (hd_level h, hd_sst h)) (ps_heads st) = concat (map (\<lambda>l. map (Pair l) (eg_levels e l)) [0..<cc_levels (ec_C E)])
     \<and> (\<forall>m \<in> set (memtables e). bt_ok (mt_data m)) \<and> (\<forall>a. ps_last st = Some a \<longrightarrow> ps_prefix st \<le> a)"

lemma past_mono: "past st k \<Longrightarrow> j \<le> k \<Longrightarrow> past st j"
  by (auto simp: past_def split: option.splits)

lemma keys_sorted: "table_ok S t \<Longrightarrow> sorted_wrt (<) (tb_keys t)"
  by (simp add: table_ok_def sorted_entries_def tb_keys_def)

lemma past_prefix: "scan_ok E e st \<Longrightarrow> \<not> past st k \<Longrightarrow> ps_prefix st \<le> k"
  by (auto simp: past_def scan_ok_def split: option.splits)

text \<open>A source's next key decides whether it holds anything wanted.\<close>

lemma head_sources: "h \<in> set (ps_heads st) \<Longrightarrow> k \<in> set (tb_keys (hd_sst h)) \<Longrightarrow> k \<in> source_keys e st"
  by (auto simp: source_keys_def)

lemma head_first:
  assumes s: "scan_ok E e st" and h: "h \<in> set (ps_heads st)" and j: "j \<in> set (tb_keys (hd_sst h))" "wanted st j"
  shows "\<exists>c. tb_key_at (hd_sst h) (hd_pos h) = Some c \<and> wanted st c \<and> c \<le> j"
proof -
  let ?ks = "tb_keys (hd_sst h)" and ?p = "hd_pos h"
  have ok: "head_ok (ec_S E) st h" using s h by (simp add: scan_ok_def)
  obtain i where i: "i < length ?ks" "j = ?ks ! i" using j(1) by (metis in_set_conv_nth)
  then have le: "?p \<le> i" using ok j(2) by (auto simp: head_ok_def wanted_def not_less [symmetric])
  have srt: "sorted_wrt (<) ?ks" using ok by (auto simp: head_ok_def intro: keys_sorted)
  have "?ks ! ?p \<le> j" using le i sorted_wrt_nth_less [OF srt, of ?p i] by (cases "?p = i") auto
  moreover have np: "\<not> past st (?ks ! ?p)" using ok le i(1) by (simp add: head_ok_def)
  moreover have "starts_with (?ks ! ?p) (ps_prefix st)"
    by (rule prefix_convex [OF past_prefix [OF s np] \<open>?ks ! ?p \<le> j\<close>]) (use j(2) in \<open>simp add: wanted_def\<close>)
  moreover have "tb_fault (hd_sst h) = None" using ok by (simp add: head_ok_def table_ok_def)
  ultimately show ?thesis using le i(1) by (auto simp: tb_key_at_def wanted_def)
qed

lemma mem_first:
  assumes s: "scan_ok E e st" and m: "m \<in> set (memtables e)" and j: "j \<in> fst ` set (mt_data m)" "wanted st j"
  shows "\<exists>c. mt_first_key_after m (ps_prefix st) (ps_last st) = Some c \<and> wanted st c \<and> c \<le> j"
proof -
  define rest where "rest = filter (\<lambda>(k, _). \<not> past st k) (mt_data m)"
  have f: "mt_first_key_after m (ps_prefix st) (ps_last st) = first_if_prefix (ps_prefix st) rest"
    by (auto simp: mt_first_key_after_def first_key_after_map_def bt_after_def bt_from_def rest_def past_def not_le not_less
        split: option.split intro!: arg_cong [of _ _ "first_if_prefix _"] filter_cong)
  have ok: "bt_ok rest" using s m by (auto simp: scan_ok_def rest_def intro: bt_ok_filter)
  have jr: "j \<in> fst ` set rest" using j by (auto simp: rest_def wanted_def image_iff)
  obtain c v rest' where r: "rest = (c, v) # rest'" using jr by (cases rest) auto
  then have "c \<le> j" using ok jr by (auto simp: bt_ok_Cons intro: less_imp_le)
  have "(c, v) \<in> set rest" by (simp add: r)
  then have np: "\<not> past st c" by (simp add: rest_def)
  then have "starts_with c (ps_prefix st)"
    using prefix_convex [OF past_prefix [OF s np] \<open>c \<le> j\<close>] j(2) by (simp add: wanted_def)
  then show ?thesis using f r np \<open>c \<le> j\<close> by (simp add: first_if_prefix_def wanted_def)
qed

lemma consider_wanted: "scan_ok E e st \<Longrightarrow> consider_key st cand best =
   (case cand of None \<Rightarrow> best | Some c \<Rightarrow> if \<not> wanted st c then best
      else (case best of None \<Rightarrow> Some c | Some b \<Rightarrow> if c < b then Some c else Some b))"
  using starts_with_ge
  by (fastforce simp: consider_key_def wanted_def past_def split: option.split)

lemma fold_consider:
  assumes s: "scan_ok E e st"
  shows "\<forall>b. best = Some b \<longrightarrow> wanted st b \<Longrightarrow> (case fold (consider_key st) cs best of
      None \<Rightarrow> best = None \<and> (\<forall>c. Some c \<in> set cs \<longrightarrow> \<not> wanted st c)
    | Some k \<Rightarrow> wanted st k \<and> (best = Some k \<or> Some k \<in> set cs) \<and> (\<forall>b. best = Some b \<longrightarrow> k \<le> b)
        \<and> (\<forall>c. Some c \<in> set cs \<and> wanted st c \<longrightarrow> k \<le> c))"
proof (induction cs arbitrary: best)
  case (Cons c cs)
  define b' where "b' = consider_key st c best"
  have "\<forall>b. b' = Some b \<longrightarrow> wanted st b"
    using Cons.prems by (auto simp: b'_def consider_wanted [OF s] split: option.splits if_splits)
  note IH = Cons.IH [OF this]
  have b': "b' = None \<longleftrightarrow> best = None \<and> (\<forall>x. c = Some x \<longrightarrow> \<not> wanted st x)"
    "\<forall>y. b' = Some y \<longrightarrow> (best = Some y \<or> c = Some y) \<and> (\<forall>b. best = Some b \<longrightarrow> y \<le> b) \<and> (\<forall>x. c = Some x \<and> wanted st x \<longrightarrow> y \<le> x)"
    by (auto simp: b'_def consider_wanted [OF s] not_less split: option.splits if_splits)
  have f: "fold (consider_key st) (c # cs) best = fold (consider_key st) cs b'" by (simp add: b'_def)
  show ?case
  proof (cases "fold (consider_key st) cs b'")
    case None
    with IH b'(1) show ?thesis unfolding f by auto
  next
    case (Some k)
    with IH have k: "wanted st k" "b' = Some k \<or> Some k \<in> set cs" "\<forall>b. b' = Some b \<longrightarrow> k \<le> b"
      "\<forall>c. Some c \<in> set cs \<and> wanted st c \<longrightarrow> k \<le> c" by simp_all
    have "k \<le> x" if "best = Some x \<or> c = Some x \<and> wanted st x" for x
    proof (cases b')
      case None
      with b'(1) that show ?thesis by auto
    next
      case y: (Some y)
      then have "y \<le> x" using b'(2) that by auto
      with k(3) y show ?thesis by (auto intro: order_trans)
    qed
    with k b' Some show ?thesis unfolding f by auto
  qed
qed (simp split: option.split)

lemma min_key_spec:
  assumes s: "scan_ok E e st"
  shows "case prefix_scan_min_key e st of None \<Rightarrow> (\<forall>j \<in> source_keys e st. \<not> wanted st j)
    | Some k \<Rightarrow> k \<in> source_keys e st \<and> wanted st k \<and> (\<forall>j \<in> source_keys e st. wanted st j \<longrightarrow> k \<le> j)"
proof -
  have src: "\<exists>c. Some c \<in> set (scan_candidates e st) \<and> wanted st c \<and> c \<le> j" if "j \<in> source_keys e st" "wanted st j" for j
  proof -
    from that(1) consider h where "h \<in> set (ps_heads st)" "j \<in> set (tb_keys (hd_sst h))"
      | m where "m \<in> set (memtables e)" "j \<in> fst ` set (mt_data m)" by (auto simp: source_keys_def)
    then show ?thesis
    proof cases
      case 1
      from head_first [OF s this that(2)] obtain c where c: "tb_key_at (hd_sst h) (hd_pos h) = Some c" "wanted st c" "c \<le> j" by blast
      have "Some c \<in> (\<lambda>h. tb_key_at (hd_sst h) (hd_pos h)) ` set (ps_heads st)"
        by (rule image_eqI, rule c(1) [symmetric], rule 1(1))
      then have "Some c \<in> set (scan_candidates e st)" by (simp add: scan_candidates_def)
      with c show ?thesis by blast
    next
      case 2
      from mem_first [OF s this that(2)] obtain c where
        c: "mt_first_key_after m (ps_prefix st) (ps_last st) = Some c" "wanted st c" "c \<le> j" by blast
      have "Some c \<in> (\<lambda>m. mt_first_key_after m (ps_prefix st) (ps_last st)) ` set (memtables e)"
        by (rule image_eqI, rule c(1) [symmetric], rule 2(1))
      then have "Some c \<in> set (scan_candidates e st)" by (simp add: scan_candidates_def)
      with c show ?thesis by blast
    qed
  qed
  have found: "c \<in> source_keys e st" if "Some c \<in> set (scan_candidates e st)" for c
    using that by (fastforce simp: scan_candidates_def source_keys_def image_iff dest!: sym [of "Some _"]
        dest: tb_key_at_in mt_first_key_in)
  note f = fold_consider [OF s, of None "scan_candidates e st", folded prefix_scan_min_key_def]
  show ?thesis
  proof (cases "prefix_scan_min_key e st")
    case None
    with f src show ?thesis by fastforce
  next
    case (Some k)
    with f have "wanted st k" and "Some k \<in> set (scan_candidates e st)"
      and least: "\<And>c. Some c \<in> set (scan_candidates e st) \<Longrightarrow> wanted st c \<Longrightarrow> k \<le> c" by auto
    moreover have "k \<le> j" if "j \<in> source_keys e st" "wanted st j" for j
      using src [OF that] least by (meson order_trans)
    ultimately show ?thesis using Some found by simp
  qed
qed

lemma at_min:
  assumes s: "scan_ok E e st" and k: "prefix_scan_min_key e st = Some k" and h: "h \<in> set (ps_heads st)"
  shows "tb_key_eq (hd_sst h) (hd_pos h) k \<longleftrightarrow> k \<in> set (tb_keys (hd_sst h))"
proof
  assume "k \<in> set (tb_keys (hd_sst h))"
  moreover from min_key_spec [OF s] k have w: "wanted st k" and least: "\<forall>j \<in> source_keys e st. wanted st j \<longrightarrow> k \<le> j" by simp_all
  ultimately obtain c where c: "tb_key_at (hd_sst h) (hd_pos h) = Some c" "wanted st c" "c \<le> k"
    using head_first [OF s h] by blast
  have "c \<in> source_keys e st" using h tb_key_at_in [OF c(1)] by (auto simp: source_keys_def)
  with least c have "c = k" by (auto intro: antisym)
  with c show "tb_key_eq (hd_sst h) (hd_pos h) k" by (simp add: tb_key_eq_def)
qed (use tb_key_at_in in \<open>auto simp: tb_key_eq_def\<close>)

lemma advance_ok:
  assumes s: "scan_ok E e st" and k: "prefix_scan_min_key e st = Some k"
  shows "scan_ok E e (prefix_scan_advance k st)"
proof -
  let ?st = "prefix_scan_advance k st"
  from min_key_spec [OF s] k have w: "wanted st k" and least: "\<forall>j \<in> source_keys e st. wanted st j \<longrightarrow> k \<le> j" by simp_all
  have np: "\<not> past st k" and pk: "ps_prefix st \<le> k" using w past_prefix [OF s] by (auto simp: wanted_def)
  have past': "past ?st j \<longleftrightarrow> j \<le> k" for j by (simp add: past_def prefix_scan_advance_def)
  have grow: "past ?st j" if "past st j" for j
    using that np past_mono [of st j k] by (cases "k \<le> j") (auto simp: past')
  have heads: "head_ok (ec_S E) ?st (if tb_key_eq (hd_sst h) (hd_pos h) k then h\<lparr>hd_pos := hd_pos h + 1\<rparr> else h)"
    if h: "h \<in> set (ps_heads st)" for h
  proof -
    let ?ks = "tb_keys (hd_sst h)"
    have ok: "head_ok (ec_S E) st h" using s h by (simp add: scan_ok_def)
    then have srt: "sorted_wrt (<) ?ks" by (auto simp: head_ok_def intro: keys_sorted)
    show ?thesis
    proof (cases "tb_key_eq (hd_sst h) (hd_pos h) k")
      case True
      then have p: "hd_pos h < length ?ks" "?ks ! hd_pos h = k" by (auto simp: tb_key_eq_def tb_key_at_def split: if_splits)
      have "k < ?ks ! i" if "hd_pos h < i" "i < length ?ks" for i
        using sorted_wrt_nth_less [OF srt that] p by simp
      with True ok p grow show ?thesis
        by (auto simp: head_ok_def past' less_Suc_eq not_le Suc_le_eq)
    next
      case False
      have "k < ?ks ! i" if i: "hd_pos h \<le> i" "i < length ?ks" for i
      proof (rule ccontr)
        assume "\<not> k < ?ks ! i"
        then have le: "?ks ! i \<le> k" by simp
        have n: "\<not> past st (?ks ! i)" using ok i by (simp add: head_ok_def)
        have "starts_with (?ks ! i) (ps_prefix st)"
          using prefix_convex [OF past_prefix [OF s n] le] w by (simp add: wanted_def)
        with n have "wanted st (?ks ! i)" by (simp add: wanted_def)
        moreover have "?ks ! i \<in> source_keys e st" by (rule head_sources [OF h nth_mem [OF i(2)]])
        ultimately have "?ks ! i = k" using least le by (auto intro: antisym)
        then have "k \<in> set ?ks" using i(2) by (metis nth_mem)
        with at_min [OF s k h] False show False by simp
      qed
      with False ok grow show ?thesis by (auto simp: head_ok_def past' not_le)
    qed
  qed
  have "map (\<lambda>h. (hd_level h, hd_sst h)) (ps_heads ?st) = map (\<lambda>h. (hd_level h, hd_sst h)) (ps_heads st)"
    by (simp add: prefix_scan_advance_def)
  moreover have "\<forall>h \<in> set (ps_heads ?st). head_ok (ec_S E) ?st h"
  proof
    let ?adv = "\<lambda>h. if tb_key_eq (hd_sst h) (hd_pos h) k then h\<lparr>hd_pos := hd_pos h + 1\<rparr> else h"
    fix h' assume "h' \<in> set (ps_heads ?st)"
    then have "h' \<in> ?adv ` set (ps_heads st)" by (simp add: prefix_scan_advance_def)
    then obtain h where "h \<in> set (ps_heads st)" "h' = ?adv h" by (rule imageE) blast
    with heads show "head_ok (ec_S E) ?st h'" by simp
  qed
  ultimately show ?thesis
    using s pk by (simp add: scan_ok_def) (simp add: prefix_scan_advance_def)
qed

subsection \<open>Resolving a key\<close>

definition scan_pick :: "key \<Rightarrow> 'n scan_head \<Rightarrow> nat \<times> 'n sst_result option \<Rightarrow> nat \<times> 'n sst_result option" where
  "scan_pick k h best = (case ent_map (tb_entries (hd_sst h)) k of None \<Rightarrow> best
     | Some x \<Rightarrow> if hd_level h = 0 then pick (entry_result x) best
         else if snd best = None then (fst best, Some (entry_result x)) else best)"

lemma resolve_fold:
  "\<forall>h \<in> set hs. table_ok S (hd_sst h) \<and> (tb_key_eq (hd_sst h) (hd_pos h) k \<longleftrightarrow> k \<in> set (tb_keys (hd_sst h))) \<Longrightarrow>
    resolve_heads S k hs best = Inr (snd (fold (scan_pick k) hs best))"
proof (induction hs arbitrary: best)
  case (Cons h hs)
  have t: "table_ok S (hd_sst h)" and eq: "tb_key_eq (hd_sst h) (hd_pos h) k \<longleftrightarrow> ent_map (tb_entries (hd_sst h)) k \<noteq> None"
    using Cons.prems by (auto simp: tb_keys_def ent_map_None)
  show ?case
  proof (cases "ent_map (tb_entries (hd_sst h)) k")
    case None
    with eq Cons.IH Cons.prems show ?thesis by (simp add: scan_pick_def)
  next
    case (Some x)
    then have lk: "tb_lookup S (hd_sst h) k = Inr (entry_result x)" by (simp add: tb_lookup_ok [OF t])
    have ne: "entry_result x \<noteq> SMissing" by simp
    have step: "resolve_heads S k (h # hs) best = resolve_heads S k hs (scan_pick k h best)"
      using Some eq ne by (cases "entry_result x") (simp_all add: lk scan_pick_def)
    show ?thesis using Cons.IH Cons.prems by (simp only: step) simp
  qed
qed simp

lemma pick_level0:
  "\<forall>h \<in> set hs. hd_level h = 0 \<Longrightarrow>
    fold (scan_pick k) hs (best_of b) = best_of (fold (\<lambda>t. newer (ent_map (tb_entries t) k)) (map hd_sst hs) b)"
proof (induction hs arbitrary: b)
  case (Cons h hs)
  show ?case
  proof (cases "ent_map (tb_entries (hd_sst h)) k")
    case None
    with Cons show ?thesis by (simp add: scan_pick_def)
  next
    case (Some x)
    then have "scan_pick k h (best_of b) = best_of (newer (Some x) b)" using Cons.prems by (simp add: scan_pick_def pick_best)
    with Some Cons show ?thesis by simp
  qed
qed simp

lemma pick_kept: "snd best \<noteq> None \<Longrightarrow> \<forall>h \<in> set hs. hd_level h \<noteq> 0 \<Longrightarrow> fold (scan_pick k) hs best = best"
  by (induction hs) (auto simp: scan_pick_def split: option.split)

lemma pick_deeper:
  "\<forall>h \<in> set hs. hd_level h \<noteq> 0 \<Longrightarrow>
    snd (fold (scan_pick k) hs (0, None)) = map_option entry_result (ent_map (concat (map (tb_entries \<circ> hd_sst) hs)) k)"
proof (induction hs)
  case (Cons h hs)
  show ?case
  proof (cases "ent_map (tb_entries (hd_sst h)) k")
    case None
    then have "scan_pick k h (0, None) = (0, None)" by (simp add: scan_pick_def)
    moreover have "ent_map (tb_entries (hd_sst h) @ es) k = ent_map es k" for es
      using None by (simp add: ent_map_def map_add_def)
    ultimately show ?thesis using Cons by simp
  next
    case (Some x)
    then have "scan_pick k h (0, None) = (0, Some (entry_result x))" using Cons.prems by (simp add: scan_pick_def)
    moreover have "ent_map (tb_entries (hd_sst h) @ es) k = Some x" for es
      using Some by (simp add: ent_map_def map_add_def)
    ultimately show ?thesis using pick_kept [of "(0, Some (entry_result x))" hs k] Cons.prems by simp
  qed
qed (simp add: ent_map_def)

lemma first_entry_concat:
  "\<forall>l \<in> set ls. l \<noteq> 0 \<Longrightarrow> first_entry L k ls = ent_map (concat (map (\<lambda>l. concat (map tb_entries (L l))) ls)) k"
proof (induction ls)
  case (Cons l ls)
  then show ?case by (auto simp: level_entry_def ent_map_def map_add_def split: option.split)
qed (simp add: ent_map_def)

lemma concat_concat_map: "concat (concat (map f xs)) = concat (map (\<lambda>x. concat (f x)) xs)"
  by (induction xs) simp_all

lemma resolve_ok:
  assumes s: "scan_ok E e st" and k: "prefix_scan_min_key e st = Some k" and n: "0 < cc_levels (ec_C E)"
    and lv: "levels_ok (ec_S E) (eg_levels e)"
  shows "prefix_scan_resolve E e st k = Inr (eng_view E e k)"
proof -
  let ?L = "eg_levels e" and ?n = "cc_levels (ec_C E)" and ?hs = "ps_heads st"
  define h0 h1 where "h0 = take (length (?L 0)) ?hs" and "h1 = drop (length (?L 0)) ?hs"
  have hs: "?hs = h0 @ h1" by (simp add: h0_def h1_def)
  have up: "[0..<?n] = 0 # [1..<?n]" using n by (simp add: upt_conv_Cons)
  have m: "map (\<lambda>h. (hd_level h, hd_sst h)) ?hs = map (Pair 0) (?L 0) @ concat (map (\<lambda>l. map (Pair l) (?L l)) [1..<?n])"
    using s by (simp add: scan_ok_def up del: One_nat_def upt_0)
  have m0: "map (\<lambda>h. (hd_level h, hd_sst h)) h0 = map (Pair 0) (?L 0)"
    unfolding h0_def take_map [symmetric] m by simp
  have m1: "map (\<lambda>h. (hd_level h, hd_sst h)) h1 = concat (map (\<lambda>l. map (Pair l) (?L l)) [1..<?n])"
    unfolding h1_def drop_map [symmetric] m by simp
  have lv0: "\<forall>h \<in> set h0. hd_level h = 0" and t0: "map hd_sst h0 = ?L 0"
    using arg_cong [OF m0, of "map fst"] arg_cong [OF m0, of "map snd"] by (simp_all add: comp_def list_eq_iff_nth_eq all_set_conv_all_nth)
  have lv1: "\<forall>h \<in> set h1. hd_level h \<noteq> 0"
  proof
    fix h assume "h \<in> set h1"
    then have "(hd_level h, hd_sst h) \<in> set (concat (map (\<lambda>l. map (Pair l) (?L l)) [1..<?n]))"
      unfolding m1 [symmetric] by force
    then show "hd_level h \<noteq> 0" by auto
  qed
  have t1: "concat (map (tb_entries \<circ> hd_sst) h1) = concat (map (\<lambda>l. concat (map tb_entries (?L l))) [1..<?n])"
  proof -
    have "map (tb_entries \<circ> hd_sst) h1 = map (tb_entries \<circ> snd) (map (\<lambda>h. (hd_level h, hd_sst h)) h1)" by simp
    also have "\<dots> = concat (map (\<lambda>l. map tb_entries (?L l)) [1..<?n])"
      unfolding m1 by (simp add: map_concat comp_def)
    finally show ?thesis by (simp add: concat_concat_map)
  qed
  have ok: "\<forall>h \<in> set ?hs. table_ok (ec_S E) (hd_sst h) \<and> (tb_key_eq (hd_sst h) (hd_pos h) k \<longleftrightarrow> k \<in> set (tb_keys (hd_sst h)))"
    using at_min [OF s k] s by (auto simp: scan_ok_def head_ok_def)
  have "snd (fold (scan_pick k) ?hs (0, None)) = map_option entry_result (stored_entry ?n ?L k)"
  proof -
    have z: "fold (scan_pick k) h0 (0, None) = best_of (newest_in (?L 0) k)"
      using pick_level0 [OF lv0, of k None] by (simp add: best_of_def newest_in_def t0)
    show ?thesis
    proof (cases "newest_in (?L 0) k")
      case None
      with z have "fold (scan_pick k) h0 (0, None) = (0, None)" by (simp add: best_of_def)
      with pick_deeper [OF lv1, of k] None n t1 show ?thesis
        by (simp add: hs stored_one first_entry_concat del: One_nat_def)
    next
      case (Some x)
      with z have "fold (scan_pick k) h0 (0, None) = (en_ts x, Some (entry_result x))" by (simp add: best_of_def)
      with pick_kept [OF _ lv1, of "(en_ts x, Some (entry_result x))" k] Some n show ?thesis
        by (simp add: hs stored_one del: One_nat_def)
    qed
  qed
  with resolve_fold [OF ok, of "(0, None)"]
  have r: "resolve_heads (ec_S E) k ?hs (0, None) = Inr (map_option entry_result (stored_entry ?n ?L k))" by simp
  have "get_from_tables E e k = live (stored_entry ?n ?L k)" by (simp add: get_from_tables_def sget_correct [OF lv])
  then show ?thesis
    by (cases "get_from_memtables e k")
       (auto simp: prefix_scan_resolve_def eng_view_def r live_def split: option.split)
qed

subsection \<open>The scan\<close>

lemma lookup_none: "\<forall>m \<in> set ms. mt_lookup m k = Missing \<Longrightarrow> lookup_first ms k = Missing"
  by (induction ms) simp_all

lemma only_sources:
  assumes s: "scan_ok E e st" and lv: "levels_ok (ec_S E) (eg_levels e)" and v: "eng_view E e k \<noteq> None"
  shows "k \<in> source_keys e st"
proof (rule ccontr)
  assume n: "k \<notin> source_keys e st"
  have look: "mt_lookup m k = Missing" if "m \<in> set (memtables e)" for m
    using n that by (auto simp: source_keys_def mt_lookup_alt bt_get_None split: option.split)
  then have "mt_lookup (eg_active e) k = Missing" "\<And>m. m \<in> set (eg_imm e) \<Longrightarrow> mt_lookup m k = Missing"
    by (auto simp: memtables_def)
  moreover from this(2) have "lookup_first (eg_imm e) k = Missing" by (intro lookup_none) blast
  ultimately have m: "get_from_memtables e k = Missing" by (simp add: get_from_memtables_def)
  have tabs: "\<forall>x \<in> set (entries_of (eg_levels e l)). en_key x \<noteq> k" if l: "l < cc_levels (ec_C E)" for l
  proof
    fix x assume "x \<in> set (entries_of (eg_levels e l))"
    then obtain t where t: "t \<in> set (eg_levels e l)" "x \<in> set (tb_entries t)" by (auto simp: in_entries_of)
    have "(l, t) \<in> set (map (\<lambda>h. (hd_level h, hd_sst h)) (ps_heads st))"
      using s l t(1) by (auto simp: scan_ok_def)
    then have "t \<in> hd_sst ` set (ps_heads st)" by force
    with t(2) have "en_key x \<in> source_keys e st" by (auto simp: source_keys_def tb_keys_def)
    with n show "en_key x \<noteq> k" by auto
  qed
  have "first_entry (eg_levels e) k [0..<cc_levels (ec_C E)] = None"
    by (rule first_entry_None [OF lv]) (use tabs in auto)
  then have "get_from_tables E e k = None" by (simp add: get_from_tables_def sget_correct [OF lv] stored_entry_def live_def)
  with m v show False by (simp add: eng_view_def)
qed

text \<open>\<open>next_live\<close>: the first live key a scan still wants, with its value.\<close>

definition next_live :: "'n ecfg \<Rightarrow> ('n, 'w) engine \<Rightarrow> 'n prefix_scan \<Rightarrow> (key \<times> 'n val) option \<Rightarrow> bool" where
  "next_live E e st r \<longleftrightarrow> (case r of None \<Rightarrow> \<forall>j. wanted st j \<longrightarrow> eng_view E e j = None
     | Some (k, v) \<Rightarrow> wanted st k \<and> eng_view E e k = Some v \<and> (\<forall>j. wanted st j \<and> j < k \<longrightarrow> eng_view E e j = None))"

lemma wanted_advance: "wanted (prefix_scan_advance k st) j \<longleftrightarrow> starts_with j (ps_prefix st) \<and> k < j"
  by (auto simp: wanted_def past_def prefix_scan_advance_def)

lemma scan_next_ok:
  "0 < cc_levels (ec_C E) \<Longrightarrow> levels_ok (ec_S E) (eg_levels e) \<Longrightarrow> scan_ok E e st \<Longrightarrow>
    \<exists>r. fst (prefix_scan_next E e st) = Inr r \<and> next_live E e st r"
proof (induction E e st rule: prefix_scan_next.induct)
  case (1 E e st)
  note n = 1(2) and lv = 1(3) and s = 1(4)
  have quiet: "eng_view E e j = None" if "\<forall>i \<in> source_keys e st. wanted st i \<longrightarrow> j < i" "wanted st j" for j
    using that only_sources [OF s lv, of j] by blast
  show ?case
  proof (cases "prefix_scan_min_key e st")
    case None
    with min_key_spec [OF s] have "\<forall>i \<in> source_keys e st. \<not> wanted st i" by simp
    then have "next_live E e st None" using quiet by (simp add: next_live_def)
    with None show ?thesis by (subst prefix_scan_next.simps) simp
  next
    case (Some k)
    with min_key_spec [OF s] have w: "wanted st k" and least: "\<forall>i \<in> source_keys e st. wanted st i \<longrightarrow> k \<le> i" by simp_all
    have before: "eng_view E e j = None" if "wanted st j" "j < k" for j
      by (rule quiet [OF _ that(1)]) (use least that(2) in \<open>auto intro: less_le_trans\<close>)
    note res = resolve_ok [OF s Some n lv]
    show ?thesis
    proof (cases "eng_view E e k")
      case v: (Some v)
      then have "next_live E e st (Some (k, v))" using w before by (simp add: next_live_def)
      with Some res v show ?thesis by (subst prefix_scan_next.simps) simp
    next
      case none: None
      let ?st = "prefix_scan_advance k st"
      have step: "prefix_scan_next E e st = prefix_scan_next E e ?st"
        using Some res none by (subst prefix_scan_next.simps) simp
      have "prefix_scan_resolve E e st k = Inr None" using res none by simp
      from 1(1) [OF Some this refl n lv advance_ok [OF s Some]] obtain r where
        r: "fst (prefix_scan_next E e ?st) = Inr r" "next_live E e ?st r" by blast
      have fwd: "wanted ?st j \<or> eng_view E e j = None" if "wanted st j" for j
      proof (cases j k rule: linorder_cases)
        case greater
        with that show ?thesis unfolding wanted_advance by (simp add: wanted_def)
      qed (use that before none in auto)
      have bwd: "wanted st j" if "wanted ?st j" for j
        using that w past_mono [of st j k] unfolding wanted_advance by (auto simp: wanted_def dest: less_imp_le)
      have "next_live E e st r"
        using r(2) fwd bwd by (fastforce simp: next_live_def split: option.splits)
      with r(1) step show ?thesis by auto
    qed
  qed
qed

lemma start_heads:
  assumes lv: "levels_ok (ec_S E) (eg_levels e)"
  shows "map (\<lambda>h. (hd_level h, hd_sst h)) (ps_heads (prefix_scan_start ls p e)) = concat (map (\<lambda>l. map (Pair l) (eg_levels e l)) ls)"
    and "\<forall>h \<in> set (ps_heads (prefix_scan_start ls p e)). table_ok (ec_S E) (hd_sst h) \<and> hd_pos h = tb_index_start (hd_sst h) p"
proof -
  have f: "filter (\<lambda>t. tb_ready t \<and> \<not> tb_marked t) (eg_levels e l) = eg_levels e l" for l
    using lv by (auto simp: levels_ok_def table_ok_def intro!: filter_True)
  show "map (\<lambda>h. (hd_level h, hd_sst h)) (ps_heads (prefix_scan_start ls p e)) = concat (map (\<lambda>l. map (Pair l) (eg_levels e l)) ls)"
    by (simp add: prefix_scan_start_def f map_concat comp_def)
  show "\<forall>h \<in> set (ps_heads (prefix_scan_start ls p e)). table_ok (ec_S E) (hd_sst h) \<and> hd_pos h = tb_index_start (hd_sst h) p"
    using lv by (auto simp: prefix_scan_start_def f levels_ok_def)
qed

lemma index_start_spec:
  assumes "table_ok S t"
  shows "tb_index_start t p \<le> length (tb_keys t)" and "i < tb_index_start t p \<Longrightarrow> tb_keys t ! i < p"
    and "tb_index_start t p \<le> i \<Longrightarrow> i < length (tb_keys t) \<Longrightarrow> p \<le> tb_keys t ! i"
proof -
  have i: "tb_index_start t p = partition_point (\<lambda>k. k < p) (tb_keys t)"
    using assms by (simp add: tb_index_start_def table_ok_def)
  have pp: "partitioned (\<lambda>k. k < p) (tb_keys t)"
    using sorted_wrt_partitioned [of id "tb_keys t" p] keys_sorted [OF assms] by simp
  show "tb_index_start t p \<le> length (tb_keys t)" by (simp add: i partition_point_le)
  show "i < tb_index_start t p \<Longrightarrow> tb_keys t ! i < p"
    using partition_point_before [OF pp, of i] by (simp add: i)
  show "tb_index_start t p \<le> i \<Longrightarrow> i < length (tb_keys t) \<Longrightarrow> p \<le> tb_keys t ! i"
    using partition_point_from [OF pp, of i] by (simp add: i)
qed

definition scan_from :: "nat list \<Rightarrow> key \<Rightarrow> key option \<Rightarrow> ('n, 'w) engine \<Rightarrow> 'n prefix_scan" where
  "scan_from order p after e =
     (let st = (prefix_scan_start order p e)\<lparr>ps_last := after\<rparr> in
      case after of None \<Rightarrow> st | Some a \<Rightarrow> prefix_scan_seek_after a st)"

lemma scan_next_from: "scan_next E order p after e = to_kv (fst (prefix_scan_next E e (scan_from order p after e)))"
  by (simp add: scan_next_def scan_from_def Let_def)

lemma scan_from_ok:
  assumes lv: "levels_ok (ec_S E) (eg_levels e)" and m: "\<forall>m \<in> set (memtables e). bt_ok (mt_data m)"
    and a: "\<forall>a. after = Some a \<longrightarrow> p \<le> a"
  shows "scan_ok E e (scan_from [0..<cc_levels (ec_C E)] p after e)"
    and "ps_prefix (scan_from [0..<cc_levels (ec_C E)] p after e) = p"
    and "ps_last (scan_from [0..<cc_levels (ec_C E)] p after e) = after"
proof -
  let ?ls = "[0..<cc_levels (ec_C E)]"
  let ?st = "prefix_scan_start ?ls p e"
  note sh = start_heads [OF lv, of ?ls p]
  have f: "ps_prefix ?st = p" "ps_last ?st = None" by (simp_all add: prefix_scan_start_def)
  show p: "ps_prefix (scan_from ?ls p after e) = p" and l: "ps_last (scan_from ?ls p after e) = after"
    by (simp_all add: scan_from_def prefix_scan_seek_after_def f Let_def split: option.split)
  show "scan_ok E e (scan_from ?ls p after e)"
  proof (cases after)
    case None
    then have st: "scan_from ?ls p after e = ?st" using f(2) by (simp add: scan_from_def)
    have "head_ok (ec_S E) ?st h" if "h \<in> set (ps_heads ?st)" for h
    proof -
      have t: "table_ok (ec_S E) (hd_sst h)" "hd_pos h = tb_index_start (hd_sst h) p" using sh(2) that by blast+
      with index_start_spec [OF t(1)] show ?thesis by (auto simp: head_ok_def past_def f not_less)
    qed
    then show ?thesis using sh(1) m f unfolding st by (simp add: scan_ok_def)
  next
    case (Some b)
    let ?seek = "\<lambda>h. let i = tb_index_start (hd_sst h) b in h\<lparr>hd_pos := if tb_key_eq (hd_sst h) i b then i + 1 else i\<rparr>"
    have st: "scan_from ?ls p after e = ?st\<lparr>ps_last := Some b, ps_heads := map ?seek (ps_heads ?st)\<rparr>"
      using Some by (simp add: scan_from_def prefix_scan_seek_after_def)
    have past: "past (scan_from ?ls p after e) k \<longleftrightarrow> k \<le> b" for k by (simp add: past_def Some l [unfolded Some])
    have "head_ok (ec_S E) (scan_from ?ls p after e) (?seek h)" if h: "h \<in> set (ps_heads ?st)" for h
    proof -
      let ?ks = "tb_keys (hd_sst h)" and ?i = "tb_index_start (hd_sst h) b"
      have t: "table_ok (ec_S E) (hd_sst h)" using sh(2) h by blast
      note ix = index_start_spec(1) [OF t, of b] index_start_spec(2) [OF t, where p = b] index_start_spec(3) [OF t, where p = b]
      have srt: "sorted_wrt (<) ?ks" by (rule keys_sorted [OF t])
      have nf: "tb_fault (hd_sst h) = None" using t by (simp add: table_ok_def)
      show ?thesis
      proof (cases "tb_key_eq (hd_sst h) ?i b")
        case True
        then have i: "?i < length ?ks" "?ks ! ?i = b" by (auto simp: tb_key_eq_def tb_key_at_def split: if_splits)
        have "b < ?ks ! j" if "?i < j" "j < length ?ks" for j using sorted_wrt_nth_less [OF srt that] i(2) by simp
        with True i ix t show ?thesis
          by (auto simp: head_ok_def past Let_def less_Suc_eq not_le Suc_le_eq intro: less_imp_le)
      next
        case False
        have "b < ?ks ! j" if j: "?i \<le> j" "j < length ?ks" for j
        proof (rule ccontr)
          assume "\<not> b < ?ks ! j"
          with ix(3) [OF j] have b: "?ks ! j = b" by simp
          have "?i = j"
          proof (rule ccontr)
            assume "?i \<noteq> j"
            with j have "?ks ! ?i < b" using sorted_wrt_nth_less [OF srt, of ?i j] b by simp
            with ix(3) [of ?i] j show False by simp
          qed
          with False b j nf show False by (simp add: tb_key_eq_def tb_key_at_def)
        qed
        with False ix t show ?thesis by (auto simp: head_ok_def past Let_def not_le intro: less_imp_le)
      qed
    qed
    then have "\<forall>h \<in> set (ps_heads (scan_from ?ls p after e)). head_ok (ec_S E) (scan_from ?ls p after e) h"
      by (simp add: st [THEN arg_cong [where f = ps_heads]])
    moreover have "map (\<lambda>h. (hd_level h, hd_sst h)) (ps_heads (scan_from ?ls p after e))
        = map (\<lambda>h. (hd_level h, hd_sst h)) (ps_heads ?st)"
      by (simp add: st comp_def Let_def)
    ultimately show ?thesis using sh(1) m a p l unfolding scan_ok_def by (metis (no_types))
  qed
qed

subsection \<open>Properties\<close>

definition small_engine :: "nat memtable \<Rightarrow> nat table list list \<Rightarrow> (nat, unit) engine" where
  "small_engine m ls = (create_engine_structure toy_ecfg empty_disk 0 ())\<lparr>eg_active := m, eg_levels := toy_levels ls\<rparr>"

text \<open>
  C12: the prefix scan agrees with the point read.  On well-formed levels a step of the scan after \<open>after\<close>
  returns the least live key with the prefix beyond it, with the value \<open>get\<close> returns for it, and nothing exactly
  if no key with the prefix beyond it is live; deleted keys are skipped.  The levels are visited from the top,
  and \<open>after\<close> is not below the prefix.
\<close>

theorem prefix_scan_reads:
  assumes "levels_ok (ec_S E) (eg_levels e)" and "\<forall>m \<in> set (memtables e). mt_inv js m" and "0 < cc_levels (ec_C E)"
    and "\<forall>a. after = Some a \<longrightarrow> p \<le> a"
  shows "\<exists>r. scan_next E [0..<cc_levels (ec_C E)] p after e = Inr r \<and>
    (let beyond = (\<lambda>j. starts_with j p \<and> (\<forall>a. after = Some a \<longrightarrow> a < j)) in
     case r of None \<Rightarrow> (\<forall>j. beyond j \<longrightarrow> fst (eng_get E j e) = Inr None)
     | Some (k, v) \<Rightarrow> beyond k \<and> fst (eng_get E k e) = Inr (Some v)
         \<and> (\<forall>j. beyond j \<and> j < k \<longrightarrow> fst (eng_get E j e) = Inr None))"
proof -
  let ?st = "scan_from [0..<cc_levels (ec_C E)] p after e"
  have m: "\<forall>m \<in> set (memtables e). bt_ok (mt_data m)" using assms(2) by (simp add: mt_inv_def)
  note st = scan_from_ok [OF assms(1) m assms(4)]
  from scan_next_ok [OF assms(3,1) st(1)] obtain r where r: "fst (prefix_scan_next E e ?st) = Inr r" "next_live E e ?st r" by blast
  have w: "wanted ?st j \<longleftrightarrow> starts_with j p \<and> (\<forall>a. after = Some a \<longrightarrow> a < j)" for j
  proof (cases after)
    case None
    with st(2,3) starts_with_ge [of j p] show ?thesis by (auto simp: wanted_def past_def)
  next
    case (Some a)
    with st(2,3) show ?thesis by (auto simp: wanted_def past_def)
  qed
  show ?thesis
    using r by (auto simp: scan_next_from next_live_def w eng_get_view Let_def split: option.splits)
qed

theorem prefix_scan_reads_witness:
  "\<exists>r. scan_next toy_ecfg [0..<4] [1] None (small_engine (fst (mt_put (\<lambda>_. []) [1] (VBool True) (mt_new 9))) [toy_l0, toy_l1]) = Inr r"
proof -
  let ?e = "small_engine (fst (mt_put (\<lambda>_. []) [1] (VBool True) (mt_new 9))) [toy_l0, toy_l1]"
  have "levels_ok toy_senv (toy_levels [toy_l0, toy_l1])" using toy_flushed by (simp add: flushed_between_def)
  moreover have "mt_inv (\<lambda>_. []) (fst (mt_put (\<lambda>_. []) [1] (VBool True) (mt_new 9 :: nat memtable)))"
    by (intro mt_inv_put mt_inv_new)
  moreover have "memtables ?e = [fst (mt_put (\<lambda>_. []) [1] (VBool True) (mt_new 9))]"
    by (simp add: small_engine_def memtables_def create_engine_structure_def)
  moreover have "cc_levels (ec_C toy_ecfg) = 4" by (simp add: toy_cfg_def)
  ultimately show ?thesis
    using prefix_scan_reads [of toy_ecfg ?e "\<lambda>_. []" None "[1]"] by (auto simp: small_engine_def Let_def)
qed

end
