(* ===== verification/Engine_Faults.thy ===== *)
theory Engine_Faults
  imports Engine_Scan_Correct
begin

text \<open>
  Where the engine does not keep what it promises: the scan that does not wait for locks, a flush that
  failed, the count of live keys, and what separates column families.
\<close>

subsection \<open>The scan that gives up\<close>

lemma next_is_left:
  "prefix_scan_next E e st = (Inr (Some (k, v)), st') \<Longrightarrow> k \<in> keys_left e st"
proof (induction E e st rule: prefix_scan_next.induct)
  case (1 E e st)
  show ?case
  proof (cases "prefix_scan_min_key e st")
    case None
    with 1(2) show ?thesis by (subst (asm) prefix_scan_next.simps) simp
  next
    case (Some j)
    note j = min_key_left [OF Some]
    show ?thesis
    proof (cases "prefix_scan_resolve E e st j")
      case (Inr x)
      show ?thesis
      proof (cases x)
        case None
        then have "prefix_scan_next E e st = prefix_scan_next E e (prefix_scan_advance j st)"
          using Some Inr by (subst prefix_scan_next.simps) simp
        with 1(1) [OF Some Inr None] 1(2) advance_left [OF j] show ?thesis by auto
      next
        case (Some y)
        with 1(2) \<open>prefix_scan_min_key e st = Some j\<close> Inr j show ?thesis
          by (subst (asm) prefix_scan_next.simps) simp
      qed
    qed (use 1(2) Some in \<open>subst (asm) prefix_scan_next.simps, simp\<close>)
  qed
qed

text \<open>
  the scan that does not wait loses pairs.  When it meets a lock after its first pair it returns nothing
  and asks the caller to go on with the waiting scan, but its state has moved past the pair it had: no
  later step of the waiting scan returns it.
\<close>

theorem sync_scan_drops_pairs:
  assumes "prefix_scan_min_key e st = Some k" and "prefix_scan_resolve E e st k = Inr (Some v)"
    and "\<forall>r < 2. \<forall>l. \<not> held r l" and "held 2 LActive" and "2 \<le> n"
  shows "\<exists>st'. try_prefix_scan_next_n_sync E held n e st = (None, st') \<and> ps_last st' = Some k
    \<and> (\<forall>j w st''. prefix_scan_next E e st' = (Inr (Some (j, w)), st'') \<longrightarrow> k < j)"
proof -
  have free: "\<not> held 0 l" "\<not> held (Suc 0) l" for l using assms(3) by simp_all
  have m: "get_from_memtables_sync h e k = Some (get_from_memtables e k)" if "\<And>l. \<not> h l" for h
    using that by (simp add: get_from_memtables_sync_def get_from_memtables_def split: lookup_result.split)
  have mk: "prefix_scan_min_key_sync (held 0) e st = Some (Some k)"
    using assms(1) free by (simp add: prefix_scan_min_key_sync_def)
  have rs: "prefix_scan_resolve_sync E (held (Suc 0)) e st k = Some (Inr (Some v))"
    using assms(2) m [of "held (Suc 0)"] free
    by (auto simp: prefix_scan_resolve_sync_def prefix_scan_resolve_def split: lookup_result.split)
  let ?st = "prefix_scan_advance k st"
  have "scan_n_loop E held 2 n e ?st [(k, v)] = (None, ?st)"
    using assms(4,5) by (subst scan_n_loop.simps) (simp add: prefix_scan_min_key_sync_def)
  then have "scan_n_loop E held 0 n e st [] = (None, ?st)"
    using assms(5) mk rs by (subst scan_n_loop.simps) (simp add: numeral_2_eq_2)
  then have "try_prefix_scan_next_n_sync E held n e st = (None, ?st)"
    using free by (simp add: try_prefix_scan_next_n_sync_def)
  moreover have l: "ps_last ?st = Some k" by (simp add: prefix_scan_advance_def)
  moreover have "k < j" if "prefix_scan_next E e ?st = (Inr (Some (j, w)), st'')" for j w st''
    using next_is_left [OF that] l by (simp add: keys_left_def)
  ultimately show ?thesis by blast
qed

definition one_key :: "(nat, unit) engine" where
  "one_key = small_engine (fst (mt_put (\<lambda>_. []) [1] (VBool True) (mt_new 9))) []"

theorem sync_scan_drops_pairs_witness:
  "\<exists>st'. try_prefix_scan_next_n_sync toy_ecfg (\<lambda>r l. r = 2 \<and> l = LActive) 5 one_key (prefix_scan_start [0..<4] [] one_key) = (None, st')
     \<and> ps_last st' = Some [1]"
proof -
  have m: "mt_data (eg_active one_key) = [([1], VBool True)]" "eg_imm one_key = []"
    by (simp_all add: one_key_def small_engine_def create_engine_structure_def mt_put_def mt_new_def)
  have h: "ps_heads (prefix_scan_start [0..<4] [] one_key) = []"
    by (auto simp: prefix_scan_start_def one_key_def small_engine_def toy_levels_def)
  have p: "ps_prefix (prefix_scan_start [0..<4] [] one_key) = []" "ps_last (prefix_scan_start [0..<4] [] one_key) = None"
    by (simp_all add: prefix_scan_start_def)
  have "prefix_scan_min_key one_key (prefix_scan_start [0..<4] [] one_key) = Some [1]"
    by (simp add: prefix_scan_min_key_def scan_candidates_def h p memtables_def m mt_first_key_after_def first_key_after_map_def
        bt_from_def first_if_prefix_def consider_key_def)
  moreover have "prefix_scan_resolve toy_ecfg one_key (prefix_scan_start [0..<4] [] one_key) [1] = Inr (Some (VBool True))"
    by (simp add: prefix_scan_resolve_def get_from_memtables_def mt_lookup_def m)
  ultimately show ?thesis
    using sync_scan_drops_pairs [of one_key "prefix_scan_start [0..<4] [] one_key" "[1]" toy_ecfg "VBool True"
        "\<lambda>r l. r = 2 \<and> l = LActive" 5] by auto
qed

subsection \<open>A failed flush\<close>

lemma flush_entries_frame:
  "eg_imm (snd (flush_memtable_entries_to_sstable E es e)) = eg_imm e"
  "eg_active (snd (flush_memtable_entries_to_sstable E es e)) = eg_active e"
  by (simp_all add: flush_memtable_entries_to_sstable_def persist_sequence_high_water_def Let_def case_prod_unfold
      split: sum.split prod.split)

text \<open>
  C38: a failed flush makes later reads stale.  The memtable of a flush that fails stays among the
  immutable ones and nothing retries it.  A value written afterwards is read at first, but once it
  was flushed, successfully, the read returns the value of the forgotten memtable again.
\<close>

theorem failed_flush_shadows:
  assumes "eg_imm e = []" and "mt_lookup (eg_active e) k = Found v" and "mt_inv (cc_js (ec_C E)) (eg_active e)"
    and "flush_memtable_internal E e = (Inl err, e1)" and "put_memtable E' k v' e1 = (eff, e2)" and "v' \<noteq> VNull"
    and "flush_memtable_internal E' e2 = (Inr (), e3)"
  shows "fst (eng_get E' k e2) = Inr (Some v') \<and> fst (eng_get E' k e3) = Inr (Some v)"
proof -
  let ?old = "eg_active e" and ?new = "mt_new (ec_mem_max E) :: 'a memtable"
  have c: "0 < mt_count ?old"
    using assms(2,3) by (cases "mt_data ?old") (auto simp: mt_inv_def mt_lookup_def)
  have e1: "eg_imm e1 = [?old]" "eg_active e1 = ?new"
  proof -
    let ?e = "e\<lparr>eg_active := ?new, eg_imm := [?old]\<rparr>"
    have "flush_write E 0 ?e = (Inl err, e1)"
      using assms(1,4) c
      by (cases "flush_write E 0 ?e"; cases "fst (flush_write E 0 ?e)") (auto simp: flush_memtable_internal_def flush_begin_def Let_def)
    then have "e1 = snd (flush_memtable_entries_to_sstable E (mt_get_all_entries ?old) ?e)" by (simp add: flush_write_def)
    then show "eg_imm e1 = [?old]" "eg_active e1 = ?new" by (simp_all add: flush_entries_frame)
  qed
  let ?m = "fst (mt_put (cc_js (ec_C E')) k v' ?new)"
  have e2: "e2 = e1\<lparr>eg_active := ?m\<rparr>" using assms(5) e1 by (auto simp: put_memtable_def split: prod.splits)
  have m: "mt_lookup ?m k = Found v'" "0 < mt_count ?m"
    using assms(6) by (simp_all add: mt_lookup_put [OF mt_inv_new]) (simp add: mt_put_def mt_new_def)
  have e3: "eg_imm e3 = [?old] \<and> eg_active e3 = mt_new (ec_mem_max E')"
  proof -
    let ?e = "e2\<lparr>eg_active := mt_new (ec_mem_max E'), eg_imm := [?old, ?m]\<rparr>"
    have b: "flush_begin E' e2 = (Some 1, ?e)" using m(2) e1 by (simp add: flush_begin_def e2 Let_def)
    obtain x where "flush_write E' 1 ?e = (Inr (), x)" "e3 = flush_end 1 x"
      using assms(7) b
      by (cases "flush_write E' 1 ?e"; cases "fst (flush_write E' 1 ?e)") (auto simp: flush_memtable_internal_def)
    moreover from this(1) have "eg_imm x = [?old, ?m]" "eg_active x = mt_new (ec_mem_max E')"
      using flush_entries_frame [of E' "mt_get_all_entries (eg_imm ?e ! 1)" ?e] by (simp_all add: flush_write_def)
    ultimately show ?thesis by (simp add: flush_end_def Let_def)
  qed
  have "get_from_memtables e2 k = Found v'" using m(1) by (simp add: get_from_memtables_def e2)
  moreover have "get_from_memtables e3 k = Found v" using e3 assms(2) by (simp add: get_from_memtables_def)
  ultimately show ?thesis by (simp add: eng_get_view eng_view_def)
qed

definition full_disk :: "nat ecfg" where
  "full_disk = toy_ecfg\<lparr>ec_C := (ec_C toy_ecfg)\<lparr>cc_write := (\<lambda>_ _ _. Inl no_space)\<rparr>\<rparr>"

theorem failed_flush_shadows_witness:
  "\<exists>err e1 eff e2 e3. flush_memtable_internal full_disk one_key = (Inl err, e1)
     \<and> put_memtable toy_ecfg [1] (VBool False) e1 = (eff, e2) \<and> flush_memtable_internal toy_ecfg e2 = (Inr (), e3)
     \<and> fst (eng_get toy_ecfg [1] e2) = Inr (Some (VBool False)) \<and> fst (eng_get toy_ecfg [1] e3) = Inr (Some (VBool True))"
proof -
  let ?old = "fst (mt_put (\<lambda>_. []) [1] (VBool True) (mt_new 9)) :: nat memtable"
  let ?new = "mt_new 30 :: nat memtable"
  have o: "eg_active one_key = ?old" "eg_imm one_key = []" "eg_disk one_key = empty_disk" "eg_seq one_key = 0"
    by (simp_all add: one_key_def small_engine_def create_engine_structure_def)
  have old: "mt_get_all_entries ?old = [([1], VBool True, False)]" "0 < mt_count ?old"
    by (simp_all add: mt_get_all_entries_def with_deleted_def mt_put_def mt_new_def)
  have free: "free_seq E (cs_disk empty_disk) 0 s = s" for E :: "nat ecfg" and s
    by (subst free_seq.simps) (simp add: empty_disk_def)
  have mx: "ec_mem_max full_disk = 30" "ec_mem_max toy_ecfg = 30" by (simp_all add: full_disk_def toy_ecfg_def)
  define e1 where "e1 = one_key\<lparr>eg_active := ?new, eg_imm := [?old], eg_seq := 2\<rparr>"
  have f1: "flush_memtable_internal full_disk one_key = (Inl no_space, e1)"
    using old o free
    by (simp add: flush_memtable_internal_def flush_begin_def flush_write_def flush_memtable_entries_to_sstable_def Let_def
        seq_next_def full_disk_def e1_def mx)
  let ?m = "fst (mt_put (\<lambda>_. []) [1] (VBool False) ?new) :: nat memtable"
  define e2 where "e2 = e1\<lparr>eg_active := ?m\<rparr>"
  have js: "cc_js (ec_C toy_ecfg) = (\<lambda>_. [])" by (simp add: toy_cfg_def)
  have p: "put_memtable toy_ecfg [1] (VBool False) e1 = (Inserted, e2)"
    by (simp add: put_memtable_def js e1_def e2_def mt_put_def mt_new_def)
  have m: "mt_get_all_entries ?m = [([1], VBool False, False)]" "0 < mt_count ?m"
    by (simp_all add: mt_get_all_entries_def with_deleted_def mt_put_def mt_new_def)
  have e2: "eg_active e2 = ?m" "eg_imm e2 = [?old]" "eg_disk e2 = empty_disk" "eg_seq e2 = 2"
    by (simp_all add: e2_def e1_def o)
  have "fst (flush_memtable_internal toy_ecfg e2) = Inr ()"
    using m e2 free
    by (simp add: flush_memtable_internal_def flush_begin_def flush_write_def flush_memtable_entries_to_sstable_def Let_def
        seq_next_def mx persist_sequence_high_water_def)
      (simp add: toy_cfg_def table_new_def tb_index_size_def Let_def persist_sequence_high_water_def)
  then obtain e3 where f3: "flush_memtable_internal toy_ecfg e2 = (Inr (), e3)"
    by (cases "flush_memtable_internal toy_ecfg e2") auto
  have "mt_lookup (eg_active one_key) [1] = Found (VBool True)"
    unfolding o by (simp add: mt_lookup_put [OF mt_inv_new])
  moreover have "mt_inv (cc_js (ec_C full_disk)) (eg_active one_key)"
    unfolding o by (simp add: full_disk_def toy_cfg_def mt_inv_put mt_inv_new)
  ultimately show ?thesis
    using failed_flush_shadows [OF o(2) _ _ f1 p _ f3] f1 p f3 by blast
qed

subsection \<open>The count of live keys\<close>

definition null_round :: "'n ecfg \<Rightarrow> ('n, 'w) wal_ops \<Rightarrow> nat \<Rightarrow> key \<Rightarrow> 'n val \<Rightarrow> ('n, 'w) engine \<Rightarrow> ('n, 'w) engine" where
  "null_round E lg now k v e = snd (eng_put E lg now k VNull (snd (eng_put E lg now k v e)))"

definition null_state :: "'n ecfg \<Rightarrow> key \<Rightarrow> u64 \<Rightarrow> ('n, 'w) engine \<Rightarrow> bool" where
  "null_state E k c e \<longleftrightarrow> eg_imm e = [] \<and> eg_levels e = (\<lambda>_. []) \<and> eg_live e = c \<and> \<not> eg_bulk e
     \<and> (mt_data (eg_active e) = [] \<and> mt_size (eg_active e) = 0
        \<or> mt_data (eg_active e) = [(k, VNull)] \<and> mt_size (eg_active e) = length k + serialized_size (cc_js (ec_C E)) VNull)"

lemma no_tables: "eg_levels e = (\<lambda>_. []) \<Longrightarrow> get_from_tables E e k = None"
proof -
  assume l: "eg_levels e = (\<lambda>_. [])"
  have "levels_ok (ec_S E) (eg_levels e)" by (simp add: l levels_ok_def disjoint_level_def)
  moreover from this have "first_entry (eg_levels e) k ls = None" for ls by (rule first_entry_None) (simp add: l)
  ultimately show ?thesis by (simp add: get_from_tables_def sget_correct stored_entry_def live_def)
qed

lemma null_step:
  assumes "\<not> ec_wal E" and "v \<noteq> VNull" and "length k + serialized_size (cc_js (ec_C E)) v < ec_mem_max E"
    and "length k + serialized_size (cc_js (ec_C E)) VNull < ec_mem_max E" and s: "null_state E k c e"
  shows "null_state E k (c + 1) (null_round E lg now k v e)"
proof -
  let ?js = "cc_js (ec_C E)"
  obtain m1 eff where p1: "mt_put ?js k v (eg_active e) = (m1, eff)" by (cases "mt_put ?js k v (eg_active e)")
  have m1: "mt_data m1 = [(k, v)]" "mt_size m1 = length k + serialized_size ?js v" "eff \<noteq> UpdatedLive"
    using p1 s by (auto simp: mt_put_def Let_def null_state_def)
  define e1 where "e1 = count_writes 1 (length k + serialized_size ?js v) (apply_put_key_count E k eff (e\<lparr>eg_active := m1\<rparr>))"
  have nt: "get_from_tables E (e\<lparr>eg_active := m1\<rparr>) k = None" using s by (intro no_tables) (simp add: null_state_def)
  have e1: "eg_active e1 = m1" "eg_imm e1 = []" "eg_levels e1 = (\<lambda>_. [])" "eg_live e1 = c + 1" "\<not> eg_bulk e1"
    using s m1(3) nt
    by (cases eff; auto simp: e1_def apply_put_key_count_def count_writes_def set_total_keys_def adjust_live_key_count_def null_state_def Let_def)+
  have r1: "eng_put E lg now k v e = (Inr (), e1)"
    using assms(1,3) p1 m1 e1(1)
    by (simp add: eng_put_def put_core_def if_wal_def put_memtable_def check_memtable_flush_def converted_def to_kv_def e1_def [symmetric] del: One_nat_def)
  obtain m2 eff2 where p2: "mt_put ?js k VNull m1 = (m2, eff2)" by (cases "mt_put ?js k VNull m1")
  have m2: "mt_data m2 = [(k, VNull)]" "mt_size m2 = length k + serialized_size ?js VNull" "eff2 = UpdatedLive"
    using p2 m1 assms(2) by (auto simp: mt_put_def Let_def split: val.splits)
  define e2 where "e2 = count_writes 1 (length k + serialized_size ?js VNull) (apply_put_key_count E k eff2 (e1\<lparr>eg_active := m2\<rparr>))"
  have e2d: "count_writes 1 (length k) (apply_put_key_count E k UpdatedLive (e1\<lparr>eg_active := m2\<rparr>)) = e2"
    by (simp add: e2_def m2(3) del: One_nat_def)
  have e2: "eg_active e2 = m2" "eg_imm e2 = []" "eg_levels e2 = (\<lambda>_. [])" "eg_live e2 = c + 1" "\<not> eg_bulk e2"
    using e1 by (simp_all add: e2_def m2(3) apply_put_key_count_def count_writes_def)
  have "eng_put E lg now k VNull e1 = (Inr (), e2)"
    using assms(1,4) p2 m2(1,2) e1(1) e2(1) e2d
    by (simp add: eng_put_def put_core_def if_wal_def put_memtable_def check_memtable_flush_def converted_def to_kv_def m2(3) del: One_nat_def)
  then show ?thesis using r1 e2 m2 by (simp add: null_round_def null_state_def)
qed

text \<open>
  the count of live keys drifts.  Putting a value and then \<open>Null\<close>, which reads as absent, adds one to the count each
  time: after \<open>n\<close> rounds on an empty engine the count is \<open>n\<close>, modulo \<open>2^64\<close>, and the key is not there.
\<close>

theorem live_count_drifts:
  assumes "\<not> ec_wal E" and "v \<noteq> VNull" and "length k + serialized_size (cc_js (ec_C E)) v < ec_mem_max E"
    and "length k + serialized_size (cc_js (ec_C E)) VNull < ec_mem_max E"
  shows "eng_count ((null_round E lg now k v ^^ n) (create_engine_structure E disk s w)) = word_of_nat n
    \<and> fst (eng_get E k ((null_round E lg now k v ^^ n) (create_engine_structure E disk s w))) = Inr None"
proof -
  let ?e = "(null_round E lg now k v ^^ n) (create_engine_structure E disk s w)"
  have "null_state E k (word_of_nat n) ?e"
  proof (induction n)
    case (Suc n)
    from null_step [OF assms Suc, of lg now] show ?case by (simp add: add.commute)
  qed (simp add: null_state_def create_engine_structure_def mt_new_def)
  then have st: "eg_live ?e = word_of_nat n" "eg_imm ?e = []" "get_from_tables E ?e k = None"
    "mt_lookup (eg_active ?e) k \<in> {Missing, Tombstone}"
    by (auto simp: null_state_def no_tables mt_lookup_def)
  then have "eng_view E ?e k = None" by (auto simp: view_one)
  with st(1) show ?thesis by (simp add: eng_count_def eng_get_view)
qed

theorem live_count_drifts_witness:
  "eng_count ((null_round (toy_ecfg\<lparr>ec_wal := False\<rparr>) (seg_ops (toy_wenv 40 SyncFsync)) 0 [1] (VBool True) ^^ 3)
     (create_engine_structure (toy_ecfg\<lparr>ec_wal := False\<rparr>) empty_disk 0 (wm_new (empty_fs 0)))) = 3"
proof -
  let ?E = "toy_ecfg\<lparr>ec_wal := False\<rparr>"
  have sz: "\<not> ec_wal ?E" "length [1 :: 8 word] + serialized_size (cc_js (ec_C ?E)) (VBool True :: nat val) < ec_mem_max ?E"
    "length [1 :: 8 word] + serialized_size (cc_js (ec_C ?E)) (VNull :: nat val) < ec_mem_max ?E"
    by (simp_all add: toy_ecfg_def)
  show ?thesis
    using live_count_drifts [OF sz(1) _ sz(2,3), where n = 3 and lg = "seg_ops (toy_wenv 40 SyncFsync)" and now = 0
        and disk = empty_disk and s = 0 and w = "wm_new (empty_fs 0)"]
    by simp
qed

end
