(* ===== verification/Adaptive.thy ===== *)
theory Adaptive
  imports Config Compaction_Safety
begin

text \<open>
  The adaptive manager, \<open>crates/f4kvs-lsm/src/compaction/adaptive.rs\<close>: it classifies the workload from the rates it is
  told and answers with the strategy, the limits of a level and whether to compact at all.  \<open>adaptive_of\<close> are
  these answers as the compaction manager asks for them; \<open>pow\<close> is \<open>f64::powf\<close>, whose precision Rust leaves open.
\<close>

definition default_adaptive_config :: adaptive_config where
  "default_adaptive_config = \<lparr>ac_scheduling = True, ac_window = secs 300, ac_write_amp_threshold = Fin 2,
     ac_read_threshold = millis 10, ac_resource_threshold = f64_round (4 / 5), ac_classification = True,
     ac_resource_aware = True, ac_sensitivity = Fin (1 / 2)\<rparr>"

datatype workload_type = WriteHeavy | ReadHeavy | Mixed | Unknown

record workload =
  wl_type :: workload_type
  wl_write_rate :: f64
  wl_read_rate :: f64
  wl_write_amp :: f64
  wl_avg_read_ms :: f64
  wl_p99_read_ms :: f64
  wl_resource :: f64
  wl_updated :: nat

definition default_workload :: "nat \<Rightarrow> workload" where
  "default_workload now = \<lparr>wl_type = Unknown, wl_write_rate = Fin 0, wl_read_rate = Fin 0, wl_write_amp = Fin 1,
     wl_avg_read_ms = Fin 0, wl_p99_read_ms = Fin 0, wl_resource = Fin 0, wl_updated = now\<rparr>"

record perf_metrics =
  pm_write_amp :: f64
  pm_read_p50 :: nat
  pm_read_p95 :: nat
  pm_read_p99 :: nat
  pm_efficiency :: f64
  pm_cpu :: f64
  pm_io :: f64
  pm_memory :: f64
  pm_timestamp :: nat

definition default_metrics :: "nat \<Rightarrow> perf_metrics" where
  "default_metrics now = \<lparr>pm_write_amp = Fin 1, pm_read_p50 = millis 1, pm_read_p95 = millis 5, pm_read_p99 = millis 10,
     pm_efficiency = Fin 1, pm_cpu = Fin 0, pm_io = Fin 0, pm_memory = Fin 0, pm_timestamp = now\<rparr>"

record adaptive_mgr =
  am_config :: adaptive_config
  am_base :: compaction_config
  am_level :: level_config
  am_workload :: workload
  am_metrics :: perf_metrics
  am_workloads :: "workload list"
  am_metrics_history :: "perf_metrics list"

definition am_new :: "nat \<Rightarrow> adaptive_config \<Rightarrow> compaction_config \<Rightarrow> level_config \<Rightarrow> adaptive_mgr" where
  "am_new now a base level = \<lparr>am_config = a, am_base = base, am_level = level, am_workload = default_workload now,
     am_metrics = default_metrics now, am_workloads = [], am_metrics_history = []\<rparr>"

subsection \<open>Telling it\<close>

definition classify_workload_type :: "f64 \<Rightarrow> f64 \<Rightarrow> workload_type" where
  "classify_workload_type w r =
     (let total = f64_add w r in
      if total = Fin 0 then Unknown
      else let wr = f64_div w total; rr = f64_div r total in
        if f64_lt (f64_round (7 / 10)) wr then WriteHeavy
        else if f64_lt (f64_round (7 / 10)) rr then ReadHeavy
        else if f64_lt (f64_round (3 / 10)) wr \<and> f64_lt (f64_round (3 / 10)) rr then Mixed
        else Unknown)"

definition keep_recent :: "nat \<Rightarrow> 'a list \<Rightarrow> 'a list" where
  "keep_recent n xs = (if n < length xs then drop 1 xs else xs)"

definition update_workload ::
  "nat \<Rightarrow> nat \<Rightarrow> nat \<Rightarrow> f64 \<Rightarrow> f64 \<Rightarrow> f64 \<Rightarrow> adaptive_mgr \<Rightarrow> adaptive_mgr" where
  "update_workload now write_ops read_ops write_amp read_ms resource m =
     (let dt = as_secs_f64 (now - wl_updated (am_workload m)) in
      if \<not> f64_lt (Fin 0) dt then m
      else let w = f64_div (f64_of_nat write_ops) dt; r = f64_div (f64_of_nat read_ops) dt;
               c = \<lparr>wl_type = classify_workload_type w r, wl_write_rate = w, wl_read_rate = r, wl_write_amp = write_amp,
                  wl_avg_read_ms = read_ms, wl_p99_read_ms = f64_mul read_ms (Fin 2), wl_resource = resource, wl_updated = now\<rparr> in
        m\<lparr>am_workload := c, am_workloads := keep_recent 10 (am_workloads m @ [c])\<rparr>)"

definition update_performance ::
  "nat \<Rightarrow> f64 \<Rightarrow> nat \<Rightarrow> nat \<Rightarrow> nat \<Rightarrow> f64 \<Rightarrow> f64 \<Rightarrow> f64 \<Rightarrow> f64 \<Rightarrow> adaptive_mgr \<Rightarrow> adaptive_mgr" where
  "update_performance now wa p50 p95 p99 eff cpu io mem m =
     (let p = \<lparr>pm_write_amp = wa, pm_read_p50 = p50, pm_read_p95 = p95, pm_read_p99 = p99, pm_efficiency = eff, pm_cpu = cpu,
            pm_io = io, pm_memory = mem, pm_timestamp = now\<rparr> in
      m\<lparr>am_metrics := p, am_metrics_history := keep_recent 20 (am_metrics_history m @ [p])\<rparr>)"

definition am_reset :: "nat \<Rightarrow> adaptive_mgr \<Rightarrow> adaptive_mgr" where
  "am_reset now m = m\<lparr>am_workload := default_workload now, am_metrics := default_metrics now, am_workloads := [],
     am_metrics_history := []\<rparr>"

subsection \<open>Asking it\<close>

text \<open>Whether reads are slower, and writes amplified more, than the configuration allows.\<close>

definition reads_slow :: "adaptive_mgr \<Rightarrow> bool" where
  "reads_slow m \<longleftrightarrow> f64_lt (f64_of_nat (ac_read_threshold (am_config m) div millis 1)) (wl_p99_read_ms (am_workload m))"

definition writes_amplified :: "adaptive_mgr \<Rightarrow> bool" where
  "writes_amplified m \<longleftrightarrow> f64_lt (ac_write_amp_threshold (am_config m)) (wl_write_amp (am_workload m))"

definition get_optimal_strategy :: "adaptive_mgr \<Rightarrow> compaction_strategy" where
  "get_optimal_strategy m =
     (if \<not> ac_scheduling (am_config m) then pc_strategy (am_base m)
      else case wl_type (am_workload m) of
        WriteHeavy \<Rightarrow> if writes_amplified m then SizeTiered else Leveled
      | ReadHeavy \<Rightarrow> if reads_slow m then Leveled else Hybrid
      | Mixed \<Rightarrow> Hybrid
      | Unknown \<Rightarrow> pc_strategy (am_base m))"

definition get_optimal_priority :: "adaptive_mgr \<Rightarrow> compaction_priority" where
  "get_optimal_priority m =
     (if \<not> ac_scheduling (am_config m) then pc_priority (am_base m)
      else if wl_type (am_workload m) = WriteHeavy then (if writes_amplified m then WriteOptimized else Balanced)
      else if wl_type (am_workload m) = ReadHeavy then (if reads_slow m then ReadOptimized else Balanced)
      else if f64_lt (ac_write_amp_threshold (am_config m)) (pm_write_amp (am_metrics m)) then SpaceOptimized
      else Balanced)"

definition should_schedule_compaction :: "adaptive_mgr \<Rightarrow> bool" where
  "should_schedule_compaction m =
     (let top = ac_resource_threshold (am_config m) in
      if \<not> ac_resource_aware (am_config m) then True
      else if f64_lt top (wl_resource (am_workload m)) then False
      else if f64_lt top (pm_cpu (am_metrics m)) \<or> f64_lt top (pm_io (am_metrics m)) then False
      else True)"

definition calculate_adaptive_multiplier :: "adaptive_mgr \<Rightarrow> f64" where
  "calculate_adaptive_multiplier m =
     (let x = (case wl_type (am_workload m) of
            WriteHeavy \<Rightarrow> f64_mul (Fin 1) (f64_round (6 / 5))
          | ReadHeavy \<Rightarrow> f64_mul (Fin 1) (f64_round (4 / 5))
          | Mixed \<Rightarrow> f64_mul (Fin 1) (f64_round (21 / 20))
          | Unknown \<Rightarrow> Fin 1);
        x = (if f64_lt (ac_write_amp_threshold (am_config m)) (pm_write_amp (am_metrics m))
             then f64_mul x (f64_round (11 / 10)) else x);
        x = (if ac_read_threshold (am_config m) < pm_read_p99 (am_metrics m) then f64_mul x (f64_round (9 / 10)) else x);
        x = f64_add (Fin 1) (f64_mul (f64_sub x (Fin 1)) (ac_sensitivity (am_config m))) in
      f64_clamp (Fin (1 / 2)) (Fin 2) x)"

definition calculate_adaptive_max_sstables :: "adaptive_mgr \<Rightarrow> nat" where
  "calculate_adaptive_max_sstables m =
     (let base = lc_max_sstables (am_level m); scaled = (\<lambda>q. f64_to_nat (f64_mul (f64_of_nat base) (f64_round q))) in
      case wl_type (am_workload m) of
        WriteHeavy \<Rightarrow> scaled (3 / 2) | ReadHeavy \<Rightarrow> scaled (7 / 10) | Mixed \<Rightarrow> scaled (11 / 10) | Unknown \<Rightarrow> base)"

definition calculate_compaction_ratio :: "adaptive_mgr \<Rightarrow> f64" where
  "calculate_compaction_ratio m =
     (let base = f64_round (1 / 10) in
      case wl_type (am_workload m) of
        WriteHeavy \<Rightarrow> f64_mul base (f64_round (3 / 2)) | ReadHeavy \<Rightarrow> f64_mul base (f64_round (7 / 10))
      | Mixed \<Rightarrow> f64_mul base (f64_round (11 / 10)) | Unknown \<Rightarrow> base)"

definition should_enable_level_compaction :: "nat \<Rightarrow> adaptive_mgr \<Rightarrow> bool" where
  "should_enable_level_compaction level m =
     (if level = 0 then True
      else case wl_type (am_workload m) of WriteHeavy \<Rightarrow> True | ReadHeavy \<Rightarrow> level \<le> 3 | Mixed \<Rightarrow> level \<le> 5 | Unknown \<Rightarrow> True)"

record adaptive_level =
  al_level :: nat
  al_size_multiplier :: f64
  al_max_sstables :: nat
  al_ratio :: f64
  al_enabled :: bool

definition default_adaptive_level :: adaptive_level where
  "default_adaptive_level = \<lparr>al_level = 0, al_size_multiplier = Fin 1, al_max_sstables = 10, al_ratio = f64_round (1 / 10),
     al_enabled = True\<rparr>"

definition get_adaptive_level_config :: "nat \<Rightarrow> adaptive_mgr \<Rightarrow> adaptive_level" where
  "get_adaptive_level_config level m =
     \<lparr>al_level = level, al_size_multiplier = f64_mul (lc_size_multiplier (am_level m)) (calculate_adaptive_multiplier m),
      al_max_sstables = calculate_adaptive_max_sstables m, al_ratio = calculate_compaction_ratio m,
      al_enabled = should_enable_level_compaction level m\<rparr>"

subsection \<open>What the compaction manager sees\<close>

definition level_threshold :: "(f64 \<Rightarrow> f64 \<Rightarrow> f64) \<Rightarrow> nat \<Rightarrow> f64 \<Rightarrow> nat \<Rightarrow> nat" where
  "level_threshold pow target mult level = f64_to_nat (f64_mul (f64_of_nat target) (pow mult (f64_of_nat level)))"

definition adaptive_of :: "(f64 \<Rightarrow> f64 \<Rightarrow> f64) \<Rightarrow> nat \<Rightarrow> adaptive_mgr \<Rightarrow> adaptive" where
  "adaptive_of pow target m =
     \<lparr>ad_schedule = should_schedule_compaction m, ad_strategy = get_optimal_strategy m,
      ad_enabled = (\<lambda>level. al_enabled (get_adaptive_level_config level m)),
      ad_max_sstables = (\<lambda>level. al_max_sstables (get_adaptive_level_config level m)),
      ad_threshold = (\<lambda>level. level_threshold pow target (al_size_multiplier (get_adaptive_level_config level m)) level)\<rparr>"

text \<open>The compaction manager passes on what it is told and asked, if it has an adaptive manager.\<close>

definition mgr_update_workload ::
  "nat \<Rightarrow> nat \<Rightarrow> nat \<Rightarrow> f64 \<Rightarrow> f64 \<Rightarrow> f64 \<Rightarrow> adaptive_mgr option \<Rightarrow> adaptive_mgr option" where
  "mgr_update_workload now w r wa ms res am = map_option (update_workload now w r wa ms res) am"

definition mgr_update_performance ::
  "nat \<Rightarrow> f64 \<Rightarrow> nat \<Rightarrow> nat \<Rightarrow> nat \<Rightarrow> f64 \<Rightarrow> f64 \<Rightarrow> f64 \<Rightarrow> f64 \<Rightarrow> adaptive_mgr option \<Rightarrow> adaptive_mgr option" where
  "mgr_update_performance now wa p50 p95 p99 eff cpu io mem am = map_option (update_performance now wa p50 p95 p99 eff cpu io mem) am"

definition get_workload_characteristics :: "adaptive_mgr option \<Rightarrow> workload option" where
  "get_workload_characteristics am = map_option am_workload am"

definition get_performance_metrics :: "adaptive_mgr option \<Rightarrow> perf_metrics option" where
  "get_performance_metrics am = map_option am_metrics am"

definition is_adaptive_enabled :: "adaptive_mgr option \<Rightarrow> bool" where
  "is_adaptive_enabled am = (am \<noteq> None)"

definition get_current_strategy :: "compaction_config \<Rightarrow> adaptive_mgr option \<Rightarrow> compaction_strategy" where
  "get_current_strategy base am = (case am of Some m \<Rightarrow> get_optimal_strategy m | None \<Rightarrow> pc_strategy base)"

definition get_current_priority :: "compaction_config \<Rightarrow> adaptive_mgr option \<Rightarrow> compaction_priority" where
  "get_current_priority base am = (case am of Some m \<Rightarrow> get_optimal_priority m | None \<Rightarrow> pc_priority base)"

definition create_compaction_manager ::
  "(f64 \<Rightarrow> f64 \<Rightarrow> f64) \<Rightarrow> nat \<Rightarrow> lsm_config \<Rightarrow> 'n ccfg \<Rightarrow> 'n ccfg" where
  "create_compaction_manager pow now c env =
     env\<lparr>cc_strategy := pc_strategy (cf_compaction c), cc_levels := lc_count (cf_levels c),
       cc_max_sstables := lc_max_sstables (cf_levels c), cc_target := sc_target_size (cf_sstable c),
       cc_threshold := level_threshold pow (sc_target_size (cf_sstable c)) (lc_size_multiplier (cf_levels c)),
       cc_adaptive := map_option (\<lambda>a. adaptive_of pow (sc_target_size (cf_sstable c))
         (am_new now a (cf_compaction c) (cf_levels c))) (cf_adaptive c)\<rparr>"

subsection \<open>Bounds\<close>

text \<open>The multiplier is between a half and two, unless the sensitivity makes it a \<open>NaN\<close>.\<close>

lemma multiplier_bounds:
  "calculate_adaptive_multiplier m = NaN
    \<or> f64_le (Fin (1 / 2)) (calculate_adaptive_multiplier m) \<and> f64_le (calculate_adaptive_multiplier m) (Fin 2)"
proof -
  have "f64_clamp (Fin (1 / 2)) (Fin 2) x = NaN
      \<or> f64_le (Fin (1 / 2)) (f64_clamp (Fin (1 / 2)) (Fin 2) x) \<and> f64_le (f64_clamp (Fin (1 / 2)) (Fin 2) x) (Fin 2)" for x
    using f64_clamp_between [of x "Fin (1 / 2)" "Fin 2"] by (cases "x = NaN") (auto simp: f64_clamp_def f64_le_def)
  then show ?thesis by (simp add: calculate_adaptive_multiplier_def Let_def)
qed

lemma keep_recent_length: "length xs \<le> n \<Longrightarrow> length (keep_recent n (xs @ [x])) \<le> n"
  by (auto simp: keep_recent_def simp del: drop_append)

subsection \<open>A manager that was told nothing\<close>

lemma round_one [simp]: "f64_round 1 = Fin 1"
  by code_simp

text \<open>The configuration tolerates what the manager assumes at its start, and the multiplier of the levels is a
  number that \<open>f64\<close> has.\<close>

definition tolerant :: "adaptive_config \<Rightarrow> level_config \<Rightarrow> bool" where
  "tolerant a l \<longleftrightarrow> \<not> f64_lt (ac_write_amp_threshold a) (Fin 1) \<and> millis 10 \<le> ac_read_threshold a
     \<and> \<not> f64_lt (ac_resource_threshold a) (Fin 0) \<and> (\<exists>s. ac_sensitivity a = Fin s)
     \<and> (\<exists>q. lc_size_multiplier l = Fin q \<and> f64_round q = Fin q)"

lemma fresh_answers:
  assumes "tolerant a l"
  shows "adaptive_of pow target (am_new now a base l) =
    \<lparr>ad_schedule = True, ad_strategy = pc_strategy base, ad_enabled = (\<lambda>_. True), ad_max_sstables = (\<lambda>_. lc_max_sstables l),
     ad_threshold = level_threshold pow target (lc_size_multiplier l)\<rparr>"
proof -
  from assms obtain s q where p: "ac_sensitivity a = Fin s" "lc_size_multiplier l = Fin q" "f64_round q = Fin q"
    "\<not> f64_lt (ac_write_amp_threshold a) (Fin 1)" "\<not> ac_read_threshold a < millis 10"
    "\<not> f64_lt (ac_resource_threshold a) (Fin 0)"
    by (auto simp: tolerant_def not_less)
  have "calculate_adaptive_multiplier (am_new now a base l) = Fin 1"
    using p by (simp add: calculate_adaptive_multiplier_def am_new_def default_workload_def default_metrics_def f64_sub_def
        f64_clamp_def Let_def)
  then show ?thesis
    using p by (simp add: adaptive_of_def get_adaptive_level_config_def should_schedule_compaction_def get_optimal_strategy_def
        calculate_adaptive_max_sstables_def should_enable_level_compaction_def am_new_def default_workload_def
        default_metrics_def fun_eq_iff Let_def)
qed



end
