(* ===== verification/Engine_Config.thy ===== *)
theory Engine_Config
  imports Engine_Safety Adaptive
begin

text \<open>
  From a configuration to a running engine: \<open>create_engine_structure\<close> and \<open>create_compaction_manager\<close> of
  \<open>crates/f4kvs-lsm/src/core/engine.rs\<close>, and what a configuration that passes \<open>validate\<close> guarantees of the runs.
\<close>

definition name_bytes :: "string \<Rightarrow> bytes" where
  "name_bytes s = map (\<lambda>ch. word_of_nat (of_char ch)) s"

text \<open>\<open>E\<close> is the rest of the environment: codings of tables, clock and file names, outcomes of input and output.\<close>

definition ecfg_of :: "(f64 \<Rightarrow> f64 \<Rightarrow> f64) \<Rightarrow> nat \<Rightarrow> lsm_config \<Rightarrow> 'n ecfg \<Rightarrow> 'n ecfg" where
  "ecfg_of pow now c E =
     E\<lparr>ec_C := create_compaction_manager pow now c (ec_C E), ec_mem_max := mc_max_size (cf_memtable c),
       ec_wal := wc_enabled (cf_wal c), ec_max_batch := rc_max_batch_size (cf_performance c), ec_dir := cf_data_dir c @ ''/'',
       ec_default_cf := name_bytes (fc_default_name (cf_families c))\<rparr>"

definition fresh_disk :: "nat \<Rightarrow> log_disk" where
  "fresh_disk sp = \<lparr>ld_files = empty_fs sp, ld_indexed = empty_xdisk\<rparr>"

definition config_start :: "'n codec \<Rightarrow> 'n ecfg \<Rightarrow> lsm_config \<Rightarrow> nat \<Rightarrow> nat \<Rightarrow> unit res \<times> ('n, 'n wal_handle) engine" where
  "config_start K E c now sp =
     eng_start E handle_ops (wc_allow_recovery_failure (cf_wal c)) now (handle_new K (cf_wal c) (fresh_disk sp))"

subsection \<open>What is asked\<close>

text \<open>Settings with which every acknowledged write is on disk: the segment log or the frame log that syncs every write, with
  group commit only if writers wait for it, or the indexed log; leveled compaction without the adaptive part.\<close>

definition durable_settings :: "lsm_config \<Rightarrow> bool" where
  "durable_settings c \<longleftrightarrow> wc_enabled (cf_wal c) \<and> cf_adaptive c = None \<and> pc_strategy (cf_compaction c) \<in> {Leveled, Hybrid}
     \<and> (case wc_engine (cf_wal c) of
          SegmentWal \<Rightarrow> wc_sync_mode (cf_wal c) = SyncFsync \<and> (wc_group_commit (cf_wal c) \<longrightarrow> wc_group_wait_durable (cf_wal c))
        | FrameWal \<Rightarrow> wc_sync_mode (cf_wal c) = SyncFsync \<and> (wc_group_commit (cf_wal c) \<longrightarrow> wc_group_wait_durable (cf_wal c))
        | IndexedWal \<Rightarrow> wc_sync_mode (cf_wal c) \<in> {SyncFsync, SyncFsyncAsync} \<and> wc_frame_page_size (cf_wal c) < 2 ^ 32
            \<and> wc_indexed_frame_count (cf_wal c) \<noteq> - 1)"

text \<open>\<open>bincode\<close> writes the header of a segment in a few bytes and reads it back, for both kinds of segment.\<close>

definition codec_ok :: "'n codec \<Rightarrow> bool" where
  "codec_ok K \<longleftrightarrow> 0 < cd_hsize K \<and> cd_hsize K \<le> 1020
     \<and> (\<forall>h. wh_magic h = wal_magic \<longrightarrow> length (cd_hser K h) = cd_hsize K \<and> cd_hde K (cd_hser K h) = Some h)
     \<and> 0 < cd_fhsize K \<and> cd_fhsize K \<le> 1020
     \<and> (\<forall>h. fh_magic h = frame_magic \<longrightarrow> length (cd_fhser K h) = cd_fhsize K \<and> cd_fhde K (cd_fhser K h) = Some h)"

text \<open>Tables are written and opened without an error, under fresh names that say their level.\<close>

definition io_ok :: "'n ecfg \<Rightarrow> string \<Rightarrow> bool" where
  "io_ok E dir \<longleftrightarrow> cc_ok (ec_C E) \<and> cc_hash (ec_C E) = hash_of (ec_S E) \<and> ec_persist E
     \<and> (\<forall>p. ec_open E p = Inr () \<and> \<not> cc_slow (ec_C E) p)
     \<and> (\<forall>i. \<exists>b. cc_name (ec_C E) 0 i = dir @ ''/'' @ b \<and> parse_sstable_level_from_filename b = Some 0
          \<and> parse_sstable_flush_sequence_from_filename b = None)"

definition kind_of :: "'n codec \<Rightarrow> wal_config \<Rightarrow> 'n log_kind" where
  "kind_of K c = (case wc_engine c of
       SegmentWal \<Rightarrow> KSegment (wenv_of K c)
     | FrameWal \<Rightarrow> KFrame (fenv_of K c)
     | IndexedWal \<Rightarrow> KIndexed (xenv_of K c))"

lemma config_env_fine:
  assumes v: "validate c = Inr ()" and d: "durable_settings c" and io: "io_ok E (cf_data_dir c)"
  shows "env_fine (ecfg_of pow now c E)" "ec_wal (ecfg_of pow now c E)"
proof -
  have C: "cc_name (ec_C (ecfg_of pow now c E)) = cc_name (ec_C E)" "cc_mkdir (ec_C (ecfg_of pow now c E)) = cc_mkdir (ec_C E)"
    "cc_write (ec_C (ecfg_of pow now c E)) = cc_write (ec_C E)" "cc_hash (ec_C (ecfg_of pow now c E)) = cc_hash (ec_C E)"
    "cc_slow (ec_C (ecfg_of pow now c E)) = cc_slow (ec_C E)"
    by (simp_all add: ecfg_of_def create_compaction_manager_def)
  have "cc_ok (ec_C (ecfg_of pow now c E))" using io by (simp add: io_ok_def cc_ok_def C)
  moreover have "1 \<le> cc_levels (ec_C (ecfg_of pow now c E))"
    using valid_parts(7) [OF v] by (simp add: ecfg_of_def create_compaction_manager_def)
  moreover have "cc_strategy (ec_C (ecfg_of pow now c E)) \<in> {Leveled, Hybrid}" "cc_adaptive (ec_C (ecfg_of pow now c E)) = None"
    using d by (simp_all add: ecfg_of_def create_compaction_manager_def durable_settings_def)
  moreover have "ec_S (ecfg_of pow now c E) = ec_S E" "ec_persist (ecfg_of pow now c E) = ec_persist E"
    "ec_open (ecfg_of pow now c E) = ec_open E" "ec_dir (ecfg_of pow now c E) = cf_data_dir c @ ''/''"
    by (simp_all add: ecfg_of_def)
  ultimately show "env_fine (ecfg_of pow now c E)" using io by (simp add: env_fine_def io_ok_def C)
  show "ec_wal (ecfg_of pow now c E)" using d by (simp add: ecfg_of_def durable_settings_def)
qed

lemma config_log_starts:
  assumes v: "validate c = Inr ()" and d: "durable_settings c" and K: "codec_ok K"
    and sp: "2 * Suc N * wc_segment_size (cf_wal c) \<le> sp" and N: "2 * N + 4 < 2 ^ 64" "N + 2 < 2 ^ 32"
  shows "\<exists>w. w_init handle_ops now (handle_new K (cf_wal c) (fresh_disk sp)) = (Inr (), w)
      \<and> handle_inv (kind_of K (cf_wal c)) N w []"
    and "w_read handle_ops (handle_new K (cf_wal c) (fresh_disk sp)) = Inr []"
proof -
  let ?W = "wenv_of K (cf_wal c)" and ?F = "fenv_of K (cf_wal c)" and ?X = "xenv_of K (cf_wal c)"
  have en: "wc_enabled (cf_wal c)" using d by (simp add: durable_settings_def)
  consider (seg) "wc_engine (cf_wal c) = SegmentWal" | (frame) "wc_engine (cf_wal c) = FrameWal"
    | (idx) "wc_engine (cf_wal c) = IndexedWal" by (cases "wc_engine (cf_wal c)") blast+
  then have "(\<exists>w. w_init handle_ops now (handle_new K (cf_wal c) (fresh_disk sp)) = (Inr (), w)
      \<and> handle_inv (kind_of K (cf_wal c)) N w []) \<and> w_read handle_ops (handle_new K (cf_wal c) (fresh_disk sp)) = Inr []"
  proof cases
    case seg
    have W: "wenv_ok ?W" "we_sync ?W = SyncFsync" "we_group ?W \<longrightarrow> we_wait ?W"
      using K d seg by (simp_all add: wenv_ok_def codec_ok_def wenv_of_def durable_settings_def)
    moreover have "we_hsize ?W + 4 \<le> we_max ?W"
      using valid_parts(9) [OF v en] K by (simp add: wenv_of_def codec_ok_def)
    ultimately obtain w where "wal_initialize ?W now (wm_new (empty_fs sp)) = (Inr (), w)" "seg_inv ?W N w []"
      using fresh_log [OF W(1,3) _ _ N(1), of sp now] sp by (auto simp: wenv_of_def)
    with W(2) seg show ?thesis
      by (simp add: handle_ops_def handle_new_def fresh_disk_def kind_of_def seg_synced_def read_entries_from_disk_def
          segment_files_def list_segment_files_on_disk_def wm_new_def empty_fs_def ok_parts_def List.map_filter_simps)
  next
    case frame
    have F: "fenv_ok ?F" "fe_group ?F \<longrightarrow> fe_wait ?F"
      using K d frame by (simp_all add: fenv_ok_def codec_ok_def fenv_of_def durable_settings_def)
    moreover have "fe_hsize ?F + 4 \<le> fe_max ?F"
      using valid_parts(9) [OF v en] K by (simp add: fenv_of_def codec_ok_def)
    ultimately obtain m where "fm_initialize ?F now (fm_new (empty_fs sp)) = (Inr (), m)" "frame_inv ?F N m []"
      using fresh_frame_log [OF F(1,2) _ _ N(1), of sp now] sp by (auto simp: fenv_of_def)
    with frame show ?thesis
      by (simp add: handle_ops_def handle_new_def fresh_disk_def kind_of_def fm_read_entries_from_disk_def
          frame_files_def list_frame_files_on_disk_def fm_new_def empty_fs_def ok_parts_def List.map_filter_simps)
  next
    case idx
    have "unat (wc_indexed_frame_count (cf_wal c)) < 2 ^ 32 - 1"
    proof -
      have "wc_indexed_frame_count (cf_wal c) \<noteq> - 1" using d idx by (simp add: durable_settings_def)
      then have "unat (wc_indexed_frame_count (cf_wal c)) \<noteq> unat (- 1 :: u32)" by (metis unsigned_word_eqI)
      moreover have "unat (- 1 :: u32) = 2 ^ 32 - 1" by (simp add: unsigned_minus_1_eq_mask mask_eq_exp_minus_1)
      ultimately show ?thesis using unsigned_less [of "wc_indexed_frame_count (cf_wal c)", where 'a = nat] by simp
    qed
    then have "xenv_ok ?X"
      using d idx by (simp add: xenv_ok_def xenv_of_def frame_size_def data_frame_count_def durable_settings_def)
    from fresh_index [OF this N(2), of now] idx show ?thesis
      by (auto simp: handle_ops_def handle_new_def fresh_disk_def kind_of_def xm_read_entries_from_disk_def segment_dirs_def
          xm_new_def empty_xdisk_def List.map_filter_simps)
  qed
  then show "\<exists>w. w_init handle_ops now (handle_new K (cf_wal c) (fresh_disk sp)) = (Inr (), w)
      \<and> handle_inv (kind_of K (cf_wal c)) N w []"
    and "w_read handle_ops (handle_new K (cf_wal c) (fresh_disk sp)) = Inr []" by blast+
qed

text \<open>The engine starts on an empty disk, with its whole budget left.\<close>

lemma config_starts:
  assumes "validate c = Inr ()" and "durable_settings c" and "codec_ok K" and "io_ok E0 (cf_data_dir c)"
    and "2 * Suc N * wc_segment_size (cf_wal c) \<le> sp" and "2 * (N * Suc N) + 8 < 2 ^ 64" and "N + 2 < 2 ^ 32"
    and "E = ecfg_of pow now c E0"
  shows "env_fine E \<and> ec_wal E \<and> (\<exists>e0. config_start K E c t0 sp = (Inr (), e0)
    \<and> durable E (handle_inv (kind_of K (cf_wal c))) N N t0 e0 \<and> eng_view E e0 = (\<lambda>_. None))"
proof -
  let ?L = "kind_of K (cf_wal c)"
  have E: "env_fine E" "ec_wal E" unfolding assms(8) by (rule config_env_fine [OF assms(1,2,4)])+
  have "N \<le> N * Suc N" by simp
  then have "2 * N + 4 < 2 ^ 64" using assms(6) by linarith
  note log = config_log_starts(1) [OF assms(1,2,3,5) this assms(7), of t0] config_log_starts(2) [OF assms(1,2,3,5) this assms(7)]
  from log(1) obtain w where w: "w_init handle_ops t0 (handle_new K (cf_wal c) (fresh_disk sp)) = (Inr (), w)"
    "handle_inv ?L N w []" by blast
  from handle.start_ok [OF E assms(6) w log(2)] E show ?thesis by (auto simp: config_start_def)
qed


definition small_config :: lsm_config where
  "small_config = default_lsm_config\<lparr>cf_data_dir := ''/d'', cf_memtable := default_memtable_config\<lparr>mc_max_size := 1024\<rparr>,
     cf_wal := default_wal_config\<lparr>wc_segment_size := 1024\<rparr>\<rparr>"

definition toy_codec :: "nat codec" where
  "toy_codec = \<lparr>cd_ser = toy_ser, cd_de = toy_de, cd_hser = we_hser (toy_wenv 40 SyncFsync), cd_hde = we_hde (toy_wenv 40 SyncFsync),
     cd_hsize = 17, cd_fhser = (\<lambda>h. fh_magic h @ [fh_version h] @ u64_to_le (fh_created h) @ u32_to_le (fh_count h) @ u32_to_le (fh_page h)),
     cd_fhde = (\<lambda>b. Some \<lparr>fh_magic = take 4 b, fh_version = b ! 4, fh_created = u64_from_le (take 8 (drop 5 b)),
        fh_count = u32_from_le (take 4 (drop 13 b)), fh_page = u32_from_le (take 4 (drop 17 b))\<rparr>),
     cd_fhsize = 21, cd_crc = (\<lambda>_. 0)\<rparr>"

lemma toy_codec_ok: "codec_ok toy_codec"
proof -
  have "length (cd_fhser toy_codec h) = 21 \<and> cd_fhde toy_codec (cd_fhser toy_codec h) = Some h"
    if "fh_magic h = frame_magic" for h
  proof -
    have "length (fh_magic h) = 4" using that by (simp add: frame_magic_def)
    then show ?thesis by (cases h) (simp add: toy_codec_def nth_append)
  qed
  moreover have "cd_fhsize toy_codec = 21" by (simp add: toy_codec_def)
  ultimately show ?thesis
    using toy_wenv_ok [of 40 SyncFsync] by (simp add: codec_ok_def) (simp add: toy_codec_def wenv_ok_def)
qed

lemma small_config_valid: "validate small_config = Inr ()"
  using default_valid
  by (simp add: validate_ok config_errors_def small_config_def default_lsm_config_def memtable_errors_def default_memtable_config_def
      wal_errors_def default_wal_config_def)


end
