(* ===== verification/Wal_Group_Commit.thy ===== *)
theory Wal_Group_Commit
  imports Prelude
begin

text \<open>
  The timing of the group commit, \<open>crates/f4kvs-lsm/src/storage/wal_group_commit.rs\<close> and the loop of the background
  task in \<open>wal.rs\<close> and \<open>wal_frame.rs\<close>: when the queue is flushed.  Instants and durations are natural numbers.
\<close>

record timing =
  gt_first :: "nat option"
  gt_last :: "nat option"

definition timing_new :: timing where "timing_new = \<lparr>gt_first = None, gt_last = None\<rparr>"

definition record_enqueue :: "nat \<Rightarrow> bool \<Rightarrow> timing \<Rightarrow> timing" where
  "record_enqueue now was_empty t =
     (let t = (if was_empty then t\<lparr>gt_first := Some now\<rparr> else t) in t\<lparr>gt_last := Some now\<rparr>)"

definition timing_clear :: "timing \<Rightarrow> timing" where
  "timing_clear t = t\<lparr>gt_first := None, gt_last := None\<rparr>"

definition next_flush_deadline :: "nat \<Rightarrow> timing \<Rightarrow> nat \<Rightarrow> nat \<Rightarrow> nat option \<Rightarrow> nat option" where
  "next_flush_deadline now t pending max_wait idle =
     (if pending = 0 then None
      else case gt_first t of None \<Rightarrow> None
      | Some first \<Rightarrow>
          let deadline = first + max_wait;
              deadline = (case (idle, gt_last t) of (Some i, Some l) \<Rightarrow> min deadline (l + i) | _ \<Rightarrow> deadline) in
          Some (max deadline now))"

subsection \<open>The background task\<close>

text \<open>The queue and its timing; the task sleeps until the deadline and is woken by every entry.\<close>

record queue =
  gq_pending :: "nat list"
  gq_timing :: timing

definition queue_new :: queue where "queue_new = \<lparr>gq_pending = [], gq_timing = timing_new\<rparr>"

definition enqueue :: "nat \<Rightarrow> queue \<Rightarrow> queue" where
  "enqueue now q = q\<lparr>gq_timing := record_enqueue now (gq_pending q = []) (gq_timing q), gq_pending := gq_pending q @ [now]\<rparr>"

definition take_pending :: "queue \<Rightarrow> queue" where
  "take_pending q = (if gq_pending q = [] then q else q\<lparr>gq_pending := [], gq_timing := timing_clear (gq_timing q)\<rparr>)"

text \<open>One round of the loop: on a notification the queue is flushed when it is full, at the deadline anyway.\<close>

definition flush_on_notify :: "nat \<Rightarrow> queue \<Rightarrow> bool" where
  "flush_on_notify max_batch q \<longleftrightarrow> max_batch \<le> length (gq_pending q)"

text \<open>
  A run: entries arrive at their times, in order; before each the task flushes if a deadline has passed, and after
  it if the queue is full.  The result is the flushes with the entries they wrote.
\<close>

definition task_due :: "nat \<Rightarrow> nat option \<Rightarrow> nat \<Rightarrow> nat \<Rightarrow> queue \<Rightarrow> (nat \<times> nat list) list" where
  "task_due max_wait idle now t q =
     (case next_flush_deadline now (gq_timing q) (length (gq_pending q)) max_wait idle of None \<Rightarrow> []
      | Some d \<Rightarrow> if d \<le> t then [(d, gq_pending q)] else [])"

fun task_run :: "nat \<Rightarrow> nat option \<Rightarrow> nat \<Rightarrow> nat \<Rightarrow> nat list \<Rightarrow> queue \<Rightarrow> (nat \<times> nat list) list" where
  "task_run max_wait idle max_batch now [] q =
     (case next_flush_deadline now (gq_timing q) (length (gq_pending q)) max_wait idle of
        None \<Rightarrow> [] | Some d \<Rightarrow> [(d, gq_pending q)])"
| "task_run max_wait idle max_batch now (t # ts) q =
     (let fl = task_due max_wait idle now t q; q = enqueue t (if fl = [] then q else take_pending q) in
      if flush_on_notify max_batch q
      then fl @ (t, gq_pending q) # task_run max_wait idle max_batch t ts (take_pending q)
      else fl @ task_run max_wait idle max_batch t ts q)"

text \<open>The first entry of the queue has set the first instant, the last entry the last one.\<close>

definition queue_ok :: "nat \<Rightarrow> queue \<Rightarrow> bool" where
  "queue_ok now q \<longleftrightarrow> (if gq_pending q = [] then gt_first (gq_timing q) = None
     else gt_first (gq_timing q) = Some (hd (gq_pending q)) \<and> gt_last (gq_timing q) = Some (last (gq_pending q)))
     \<and> sorted (gq_pending q) \<and> (\<forall>t \<in> set (gq_pending q). t \<le> now)"

lemma queue_new_ok: "queue_ok now queue_new"
  by (simp add: queue_ok_def queue_new_def timing_new_def)

lemma enqueue_ok: "queue_ok now q \<Longrightarrow> now \<le> t \<Longrightarrow> queue_ok t (enqueue t q)"
  by (auto simp: queue_ok_def enqueue_def record_enqueue_def Let_def sorted_append)

lemma take_pending_ok: "queue_ok now q \<Longrightarrow> queue_ok now (take_pending q)"
  by (simp add: queue_ok_def take_pending_def timing_clear_def)

lemma take_pending_empty [simp]: "gq_pending (take_pending q) = []"
  by (simp add: take_pending_def)

lemma deadline_bounds:
  assumes "queue_ok now q" and "gq_pending q \<noteq> []"
  shows "\<exists>d. next_flush_deadline now (gq_timing q) (length (gq_pending q)) max_wait idle = Some d \<and> now \<le> d
    \<and> d \<le> max now (hd (gq_pending q) + max_wait)"
  using assms by (auto simp: next_flush_deadline_def queue_ok_def Let_def split: option.split)

text \<open>Everything that arrives is flushed once and in order, and waits no longer than \<open>max_wait\<close>.\<close>

definition flushed_well :: "nat \<Rightarrow> nat list \<Rightarrow> (nat \<times> nat list) list \<Rightarrow> bool" where
  "flushed_well max_wait ts fl \<longleftrightarrow> concat (map snd fl) = ts \<and> (\<forall>(d, es) \<in> set fl. \<forall>t \<in> set es. t \<le> d \<and> d \<le> t + max_wait)"

lemma flushed_Cons: "\<forall>t \<in> set es. t \<le> d \<and> d \<le> t + max_wait \<Longrightarrow> flushed_well max_wait ts fl \<Longrightarrow> flushed_well max_wait (es @ ts) ((d, es) # fl)"
  by (auto simp: flushed_well_def)

definition waiting_ok :: "nat \<Rightarrow> nat \<Rightarrow> queue \<Rightarrow> bool" where
  "waiting_ok max_wait now q \<longleftrightarrow> queue_ok now q \<and> (gq_pending q \<noteq> [] \<longrightarrow> now \<le> hd (gq_pending q) + max_wait)"

lemma waiting_times:
  assumes "waiting_ok max_wait now q" and "gq_pending q \<noteq> []" and "now \<le> d" and "d \<le> hd (gq_pending q) + max_wait"
  shows "\<forall>t \<in> set (gq_pending q). t \<le> d \<and> d \<le> t + max_wait"
proof
  fix t assume t: "t \<in> set (gq_pending q)"
  have "sorted (gq_pending q)" "t \<le> now" using assms(1) t by (auto simp: waiting_ok_def queue_ok_def)
  moreover have "hd (gq_pending q) \<le> t" using \<open>sorted (gq_pending q)\<close> t by (cases "gq_pending q") auto
  ultimately show "t \<le> d \<and> d \<le> t + max_wait" using assms(3,4) by simp
qed

lemma waiting_deadline:
  assumes "waiting_ok max_wait now q" and "gq_pending q \<noteq> []"
  shows "\<exists>d. next_flush_deadline now (gq_timing q) (length (gq_pending q)) max_wait idle = Some d \<and> now \<le> d
    \<and> d \<le> hd (gq_pending q) + max_wait"
  using deadline_bounds [of now q max_wait idle] assms by (fastforce simp: waiting_ok_def)

lemma waiting_enqueue:
  assumes "waiting_ok max_wait now q" and "now \<le> t" and "gq_pending q = [] \<or> t \<le> hd (gq_pending q) + max_wait"
  shows "waiting_ok max_wait t (enqueue t q)"
  using enqueue_ok [of now q t] assms by (auto simp: waiting_ok_def enqueue_def hd_append)

lemma task_run_flushes:
  "waiting_ok max_wait now q \<Longrightarrow> sorted (now # ts) \<Longrightarrow>
    flushed_well max_wait (gq_pending q @ ts) (task_run max_wait idle max_batch now ts q)"
proof (induction ts arbitrary: now q)
  case Nil
  show ?case
  proof (cases "gq_pending q = []")
    case True
    then show ?thesis by (simp add: next_flush_deadline_def flushed_well_def)
  next
    case False
    from waiting_deadline [OF Nil(1) False, of idle] obtain d where d:
      "next_flush_deadline now (gq_timing q) (length (gq_pending q)) max_wait idle = Some d" "now \<le> d"
      "d \<le> hd (gq_pending q) + max_wait" by blast
    from waiting_times [OF Nil(1) False d(2,3)] d(1) show ?thesis by (simp add: flushed_well_def)
  qed
next
  case (Cons t ts)
  have le: "now \<le> t" "sorted (t # ts)" using Cons.prems(2) by simp_all
  define fl where "fl = task_due max_wait idle now t q"
  define q0 where "q0 = (if fl = [] then q else take_pending q)"
  define q1 where "q1 = enqueue t q0"
  have fl: "fl \<noteq> [] \<Longrightarrow> \<exists>d. fl = [(d, gq_pending q)] \<and> (\<forall>t \<in> set (gq_pending q). t \<le> d \<and> d \<le> t + max_wait)"
    and q0: "waiting_ok max_wait now q0" "gq_pending q0 = [] \<or> t \<le> hd (gq_pending q0) + max_wait"
  proof -
    show "\<exists>d. fl = [(d, gq_pending q)] \<and> (\<forall>t \<in> set (gq_pending q). t \<le> d \<and> d \<le> t + max_wait)" if "fl \<noteq> []"
    proof -
      have ne: "gq_pending q \<noteq> []" using that by (auto simp: fl_def task_due_def next_flush_deadline_def)
      from waiting_deadline [OF Cons.prems(1) ne, of idle] obtain d where d:
        "next_flush_deadline now (gq_timing q) (length (gq_pending q)) max_wait idle = Some d" "now \<le> d"
        "d \<le> hd (gq_pending q) + max_wait" by blast
      with that waiting_times [OF Cons.prems(1) ne d(2,3)] show ?thesis
        by (auto simp: fl_def task_due_def split: if_splits)
    qed
    show "waiting_ok max_wait now q0"
      using Cons.prems(1) take_pending_ok [of now q] by (auto simp: q0_def waiting_ok_def)
    show "gq_pending q0 = [] \<or> t \<le> hd (gq_pending q0) + max_wait"
    proof (cases "fl = [] \<and> gq_pending q \<noteq> []")
      case True
      then have ne: "gq_pending q \<noteq> []" by simp
      from waiting_deadline [OF Cons.prems(1) ne, of idle] True show ?thesis
        by (auto simp: fl_def task_due_def q0_def split: if_splits)
    qed (auto simp: q0_def)
  qed
  have q1: "waiting_ok max_wait t q1" unfolding q1_def by (rule waiting_enqueue [OF q0(1) le(1) q0(2)])
  have p1: "gq_pending q1 = gq_pending q0 @ [t]" by (simp add: q1_def enqueue_def)
  have rest: "flushed_well max_wait (gq_pending q0 @ t # ts)
      (if flush_on_notify max_batch q1 then (t, gq_pending q1) # task_run max_wait idle max_batch t ts (take_pending q1)
       else task_run max_wait idle max_batch t ts q1)"
  proof (cases "flush_on_notify max_batch q1")
    case True
    have "waiting_ok max_wait t (take_pending q1)"
      using q1 take_pending_ok [of t q1] by (auto simp: waiting_ok_def)
    from Cons.IH [OF this le(2)] have "flushed_well max_wait ts (task_run max_wait idle max_batch t ts (take_pending q1))" by simp
    moreover have "\<forall>x \<in> set (gq_pending q1). x \<le> t \<and> t \<le> x + max_wait"
      by (rule waiting_times [OF q1]) (use q1 p1 in \<open>auto simp: waiting_ok_def\<close>)
    ultimately have "flushed_well max_wait (gq_pending q1 @ ts)
        ((t, gq_pending q1) # task_run max_wait idle max_batch t ts (take_pending q1))" by (rule flushed_Cons [rotated])
    with True p1 show ?thesis by simp
  next
    case False
    with Cons.IH [OF q1 le(2)] p1 show ?thesis by simp
  qed
  have run: "task_run max_wait idle max_batch now (t # ts) q = fl @
      (if flush_on_notify max_batch q1 then (t, gq_pending q1) # task_run max_wait idle max_batch t ts (take_pending q1)
       else task_run max_wait idle max_batch t ts q1)"
    by (simp add: fl_def [symmetric] q0_def [symmetric] q1_def [symmetric] Let_def)
  show ?case
  proof (cases "fl = []")
    case True
    with rest run show ?thesis by (simp add: q0_def)
  next
    case False
    from fl [OF False] obtain d where d: "fl = [(d, gq_pending q)]" "\<forall>t \<in> set (gq_pending q). t \<le> d \<and> d \<le> t + max_wait" by blast
    have "gq_pending q0 = []" using False by (simp add: q0_def)
    with flushed_Cons [OF d(2) rest] run d(1) show ?thesis by simp
  qed
qed



end
