(* ===== verification/Validation.thy ===== *)
theory Validation
  imports Errors Value_Model "HOL-Library.Sublist" "HOL-Library.Multiset"
begin

text \<open>
  Validation of keys, values and blocks of data, \<open>crates/f4kvs-storage-core/src/common/validation.rs\<close>.  A pattern may
  begin and end with a star; a slice out of range is a panic, \<open>None\<close>.
\<close>

record key_rules =
  kr_max_length :: nat
  kr_min_length :: nat
  kr_allow_empty :: bool
  kr_ascii_only :: bool
  kr_control_chars :: bool
  kr_patterns :: "bytes list"

definition default_key_rules :: key_rules where
  "default_key_rules = \<lparr>kr_max_length = 1024, kr_min_length = 1, kr_allow_empty = False, kr_ascii_only = False,
     kr_control_chars = False, kr_patterns = []\<rparr>"

record value_rules =
  vr_max_size :: nat
  vr_allow_null :: bool
  vr_empty_strings :: bool
  vr_max_string :: nat
  vr_max_depth :: nat

definition default_value_rules :: value_rules where
  "default_value_rules = \<lparr>vr_max_size = 1024 * 1024, vr_allow_null = True, vr_empty_strings = True,
     vr_max_string = 1024 * 1024, vr_max_depth = 32\<rparr>"

record validation_config =
  vc_enabled :: bool
  vc_key :: key_rules
  vc_value :: value_rules

definition default_validation_config :: validation_config where
  "default_validation_config = \<lparr>vc_enabled = True, vc_key = default_key_rules, vc_value = default_value_rules\<rparr>"

text \<open>The manager is its configuration.\<close>

definition vm_new :: "key_rules \<Rightarrow> value_rules \<Rightarrow> validation_config" where
  "vm_new k v = \<lparr>vc_enabled = True, vc_key = k, vc_value = v\<rparr>"

subsection \<open>Keys\<close>

definition text_of :: "bytes \<Rightarrow> string" where
  "text_of b = map (\<lambda>w. char_of (unat w)) b"

text \<open>\<open>char::is_control\<close> holds of \<open>U+0000\<close> to \<open>U+001F\<close> and \<open>U+007F\<close> to \<open>U+009F\<close>; the last 32 are two bytes, of which the
  first is always the lead byte \<open>0xC2\<close>.\<close>

fun has_control :: "bytes \<Rightarrow> bool" where
  "has_control [] = False"
| "has_control (a # r) = (a < 0x20 \<or> a = 0x7F \<or> (a = 0xC2 \<and> (case r of [] \<Rightarrow> False | b # _ \<Rightarrow> 0x80 \<le> b \<and> b < 0xA0)) \<or> has_control r)"

definition is_ascii :: "bytes \<Rightarrow> bool" where
  "is_ascii s = list_all (\<lambda>b. b < 0x80) s"

definition star :: u8 where "star = 0x2A"

definition strip_prefix_star :: "bytes \<Rightarrow> bytes option" where
  "strip_prefix_star p = (case p of [] \<Rightarrow> None | a # r \<Rightarrow> if a = star then Some r else None)"

definition strip_suffix_star :: "bytes \<Rightarrow> bytes option" where
  "strip_suffix_star p = (if p \<noteq> [] \<and> last p = star then Some (butlast p) else None)"

definition matches_pattern :: "bytes \<Rightarrow> bytes \<Rightarrow> bool option" where
  "matches_pattern k p =
     (if p \<noteq> [] \<and> hd p = star \<and> last p = star
      then if length p - 1 < 1 then None else Some (sublist (drop 1 (take (length p - 1) p)) k)
      else case strip_prefix_star p of Some s \<Rightarrow> Some (suffix s k)
      | None \<Rightarrow> case strip_suffix_star p of Some s \<Rightarrow> Some (prefix s k) | None \<Rightarrow> Some (k = p))"

fun check_patterns :: "bytes \<Rightarrow> bytes list \<Rightarrow> unit kv option" where
  "check_patterns k [] = Some (Inr ())"
| "check_patterns k (p # ps) = (case matches_pattern k p of None \<Rightarrow> None
     | Some True \<Rightarrow> check_patterns k ps
     | Some False \<Rightarrow> Some (Inl (InvalidKey (''key does not match required pattern: '' @ text_of p))))"

definition validate_key :: "validation_config \<Rightarrow> bytes \<Rightarrow> unit kv option" where
  "validate_key c k =
     (if \<not> vc_enabled c then Some (Inr ())
      else if k = [] \<and> \<not> kr_allow_empty (vc_key c) then Some (Inl (InvalidKey ''key cannot be empty''))
      else if length k < kr_min_length (vc_key c)
      then Some (Inl (InvalidKey (''key length '' @ decimal (length k) @ '' is less than minimum '' @ decimal (kr_min_length (vc_key c)))))
      else if kr_max_length (vc_key c) < length k
      then Some (Inl (InvalidKey (''key length '' @ decimal (length k) @ '' exceeds maximum '' @ decimal (kr_max_length (vc_key c)))))
      else if kr_ascii_only (vc_key c) \<and> \<not> is_ascii k then Some (Inl (InvalidKey ''key must be ASCII''))
      else if \<not> kr_control_chars (vc_key c) \<and> has_control k then Some (Inl (InvalidKey ''key contains control characters''))
      else check_patterns k (kr_patterns (vc_key c)))"

subsection \<open>Values\<close>

fun json_depth :: "'n json \<Rightarrow> nat" where
  "json_depth (JObject m) = (if m = [] then 1 else 1 + fold max (map (\<lambda>x. json_depth (snd x)) m) 0)"
| "json_depth (JArray a) = (if a = [] then 1 else 1 + fold max (map json_depth a) 0)"
| "json_depth _ = 1"

definition validate_json_depth :: "validation_config \<Rightarrow> 'n json \<Rightarrow> unit kv" where
  "validate_json_depth c j =
     (if vr_max_depth (vc_value c) < json_depth j
      then Inl (InvalidValue (''JSON depth '' @ decimal (json_depth j) @ '' exceeds maximum '' @ decimal (vr_max_depth (vc_value c))))
      else Inr ())"

definition string_errors :: "value_rules \<Rightarrow> bytes \<Rightarrow> unit kv" where
  "string_errors r s =
     (if s = [] \<and> \<not> vr_empty_strings r then Inl (InvalidValue ''empty strings are not allowed'')
      else if vr_max_string r < length s
      then Inl (InvalidValue (''string length '' @ decimal (length s) @ '' exceeds maximum '' @ decimal (vr_max_string r)))
      else Inr ())"

definition validate_value :: "('n json \<Rightarrow> bytes) \<Rightarrow> validation_config \<Rightarrow> 'n val \<Rightarrow> unit kv" where
  "validate_value js c v =
     (if \<not> vc_enabled c then Inr ()
      else if is_null v \<and> \<not> vr_allow_null (vc_value c) then Inl (InvalidValue ''null values are not allowed'')
      else if vr_max_size (vc_value c) < serialized_size js v
      then Inl (InvalidValue (''value size '' @ decimal (serialized_size js v) @ '' exceeds maximum '' @ decimal (vr_max_size (vc_value c))))
      else case v of VString s \<Rightarrow> string_errors (vc_value c) s
      | VJson j \<Rightarrow> (case validate_json_depth c j of Inr _ \<Rightarrow> Inr ()
          | Inl e \<Rightarrow> Inl (InvalidValue (''JSON depth validation failed: '' @ kv_display e)))
      | _ \<Rightarrow> Inr ())"

definition validate_key_value :: "('n json \<Rightarrow> bytes) \<Rightarrow> validation_config \<Rightarrow> bytes \<Rightarrow> 'n val \<Rightarrow> unit kv option" where
  "validate_key_value js c k v = (case validate_key c k of Some (Inr _) \<Rightarrow> Some (validate_value js c v) | r \<Rightarrow> r)"

subsection \<open>Blocks of data\<close>

definition calculate_checksum :: "bytes \<Rightarrow> u32" where
  "calculate_checksum d = fold (\<lambda>b c. c + ucast b) d 0"

definition validate_checksum :: "bytes \<Rightarrow> u32 \<Rightarrow> unit kv" where
  "validate_checksum d expected =
     (if calculate_checksum d \<noteq> expected
      then Inl (StorageError (''Checksum mismatch: expected '' @ decimal (unat expected) @ '', got '' @ decimal (unat (calculate_checksum d))))
      else Inr ())"

definition validate_size :: "bytes \<Rightarrow> nat \<Rightarrow> unit kv" where
  "validate_size d n =
     (if length d \<noteq> n
      then Inl (StorageError (''Size mismatch: expected '' @ decimal n @ '', got '' @ decimal (length d))) else Inr ())"

definition validate_not_empty :: "bytes \<Rightarrow> unit kv" where
  "validate_not_empty d = (if d = [] then Inl (StorageError ''Data cannot be empty'') else Inr ())"

subsection \<open>What passes\<close>

text \<open>The strings a pattern stands for: a star at an end is any text.  The lone star would be any text at both ends.\<close>

definition denotes :: "bytes \<Rightarrow> bytes set" where
  "denotes p =
     (if p \<noteq> [] \<and> hd p = star \<and> last p = star then {a @ butlast (tl p) @ b |a b. True}
      else if p \<noteq> [] \<and> hd p = star then {a @ tl p |a. True}
      else if p \<noteq> [] \<and> last p = star then {butlast p @ b |b. True}
      else {p})"

lemma matches_pattern_denotes:
  assumes "p \<noteq> [star]"
  shows "matches_pattern k p = Some (k \<in> denotes p)"
proof -
  have "drop 1 (take (length p - 1) p) = butlast (tl p)"
    by (cases p) (simp_all add: butlast_conv_take drop_take)
  moreover have "\<not> length p - 1 < 1" if "p \<noteq> []" "hd p = star"
    using that assms by (cases p; cases "tl p") auto
  ultimately show ?thesis
    by (auto simp: matches_pattern_def denotes_def strip_prefix_star_def strip_suffix_star_def sublist_def suffix_def prefix_def
        split: list.splits)
qed

lemma check_patterns_ok:
  assumes "[star] \<notin> set ps"
  shows "\<exists>r. check_patterns k ps = Some r \<and> (r = Inr () \<longleftrightarrow> (\<forall>p \<in> set ps. k \<in> denotes p))"
  using assms by (induction ps) (auto simp: matches_pattern_denotes split: bool.splits)

definition key_fits :: "key_rules \<Rightarrow> bytes \<Rightarrow> bool" where
  "key_fits r k \<longleftrightarrow> (k = [] \<longrightarrow> kr_allow_empty r) \<and> kr_min_length r \<le> length k \<and> length k \<le> kr_max_length r
     \<and> (kr_ascii_only r \<longrightarrow> is_ascii k) \<and> (\<not> kr_control_chars r \<longrightarrow> \<not> has_control k) \<and> (\<forall>p \<in> set (kr_patterns r). k \<in> denotes p)"

definition value_fits :: "('n json \<Rightarrow> bytes) \<Rightarrow> value_rules \<Rightarrow> 'n val \<Rightarrow> bool" where
  "value_fits js r v \<longleftrightarrow> (v = VNull \<longrightarrow> vr_allow_null r) \<and> serialized_size js v \<le> vr_max_size r
     \<and> (\<forall>s. v = VString s \<longrightarrow> (s = [] \<longrightarrow> vr_empty_strings r) \<and> length s \<le> vr_max_string r)
     \<and> (\<forall>j. v = VJson j \<longrightarrow> json_depth j \<le> vr_max_depth r)"

lemma validate_key_fits:
  assumes "[star] \<notin> set (kr_patterns (vc_key c))"
  shows "\<exists>r. validate_key c k = Some r \<and> (r = Inr () \<longleftrightarrow> (vc_enabled c \<longrightarrow> key_fits (vc_key c) k))"
  using check_patterns_ok [OF assms, of k] by (auto simp: validate_key_def key_fits_def)

lemma validate_value_fits: "validate_value js c v = Inr () \<longleftrightarrow> (vc_enabled c \<longrightarrow> value_fits js (vc_value c) v)"
  by (cases v) (auto simp: validate_value_def value_fits_def string_errors_def validate_json_depth_def)

text \<open>
  C25: the validation accepts exactly the keys and values within the limits of its configuration and never panics,
  provided no pattern is a lone star.
\<close>

theorem validation_decides:
  assumes "[star] \<notin> set (kr_patterns (vc_key c))"
  shows "\<exists>r. validate_key_value js c k v = Some r
    \<and> (r = Inr () \<longleftrightarrow> (vc_enabled c \<longrightarrow> key_fits (vc_key c) k \<and> value_fits js (vc_value c) v))"
proof -
  obtain r where r: "validate_key c k = Some r" "r = Inr () \<longleftrightarrow> (vc_enabled c \<longrightarrow> key_fits (vc_key c) k)"
    using validate_key_fits [OF assms, of k] by blast
  show ?thesis
  proof (cases r)
    case (Inl e)
    with r show ?thesis by (auto simp: validate_key_value_def)
  next
    case (Inr u)
    with r validate_value_fits [of js c v] show ?thesis by (simp add: validate_key_value_def)
  qed
qed

theorem validation_decides_witness:
  "let c = default_validation_config\<lparr>vc_key := default_key_rules\<lparr>kr_patterns := [[0x75, 0x2F, star], [star, 0x2F, star]]\<rparr>\<rparr> in
     (\<exists>r. validate_key_value (\<lambda>_. []) c [0x75, 0x2F, 0x31] (VBool True :: nat val) = Some r
        \<and> (r = Inr () \<longleftrightarrow> (vc_enabled c \<longrightarrow> key_fits (vc_key c) [0x75, 0x2F, 0x31] \<and> value_fits (\<lambda>_. []) (vc_value c) (VBool True :: nat val))))
     \<and> key_fits (vc_key c) [0x75, 0x2F, 0x31] \<and> \<not> key_fits (vc_key c) [0x75, 0x31]"
proof -
  let ?c = "default_validation_config\<lparr>vc_key := default_key_rules\<lparr>kr_patterns := [[0x75, 0x2F, star], [star, 0x2F, star]]\<rparr>\<rparr>"
  have "key_fits (vc_key ?c) [0x75, 0x2F, 0x31]" "\<not> key_fits (vc_key ?c) [0x75, 0x31]"
    by (auto simp: key_fits_def default_key_rules_def denotes_def star_def Cons_eq_append_conv)
  moreover have "[star] \<notin> set (kr_patterns (vc_key ?c))" by (simp add: default_key_rules_def)
  ultimately show ?thesis using validation_decides [of ?c "\<lambda>_. []" "[0x75, 0x2F, 0x31]" "VBool True :: nat val"] by (simp only: Let_def simp_thms)
qed

text \<open>The lone star panics; the other checks come first.\<close>

lemma lone_star_panics: "matches_pattern k [star] = None"
  by (simp add: matches_pattern_def)

text \<open>A sum of bytes does not see a change of order.\<close>

lemma checksum_sum: "calculate_checksum d = sum_list (map ucast d)"
proof -
  have "fold (\<lambda>b c. c + ucast b) d c = c + sum_list (map ucast d)" for c :: u32
    by (induction d arbitrary: c) (simp_all add: algebra_simps)
  then show ?thesis by (simp add: calculate_checksum_def)
qed

lemma checksum_reorder: "mset a = mset b \<Longrightarrow> validate_checksum b (calculate_checksum a) = Inr ()"
proof -
  assume "mset a = mset b"
  then have "sum_mset (mset (map ucast a :: u32 list)) = sum_mset (mset (map ucast b))" by (simp only: mset_map)
  then show ?thesis by (simp only: sum_mset_sum_list validate_checksum_def checksum_sum simp_thms if_False)
qed

end
