(* ===== verification/Storage_Config.thy ===== *)
theory Storage_Config
  imports Config Validation
begin

text \<open>
  The generic configuration of a storage backend, \<open>crates/f4kvs-storage-core/src/config.rs\<close>, and how the engine's own is
  made from it (\<open>from_storage_config\<close> in \<open>crates/f4kvs-lsm/src/core/config.rs\<close>).  A sum of sizes that overflows is \<open>None\<close>.
\<close>

subsection \<open>Names of choices\<close>

datatype storage_backend = Memory | LsmTree | Partitioned | FileSystem | Analytics
datatype compaction_style = LevelStyle | UniversalStyle | FifoStyle
datatype eviction_policy = Lru | Lfu | Ttl | RandomEviction | NoEviction
datatype tree_strategy = TreeSizeTiered | TreeLevelTiered | TreeTimeWindowed

fun backend_text :: "storage_backend \<Rightarrow> string" where
  "backend_text Memory = ''memory''"
| "backend_text LsmTree = ''lsm-tree''"
| "backend_text Partitioned = ''partitioned''"
| "backend_text FileSystem = ''filesystem''"
| "backend_text Analytics = ''analytics''"

text \<open>Only the letters of ASCII matter to the names, so \<open>to_lowercase\<close> is that of ASCII.\<close>

definition ascii_lower :: "char \<Rightarrow> char" where
  "ascii_lower c = (let n = of_char c :: nat in if 65 \<le> n \<and> n \<le> 90 then char_of (n + 32) else c)"

definition backend_of :: "string \<Rightarrow> storage_backend kv" where
  "backend_of s =
     (let l = map ascii_lower s in
      if l = ''memory'' then Inr Memory
      else if l \<in> {''lsm-tree'', ''lsm_tree'', ''lsmtree''} then Inr LsmTree
      else if l = ''partitioned'' then Inr Partitioned
      else if l \<in> {''filesystem'', ''fs''} then Inr FileSystem
      else if l = ''analytics'' then Inr Analytics
      else Inl (StorageError (''Unknown storage backend: '' @ s)))"

fun style_text :: "compaction_style \<Rightarrow> string" where
  "style_text LevelStyle = ''level''"
| "style_text UniversalStyle = ''universal''"
| "style_text FifoStyle = ''fifo''"

fun eviction_text :: "eviction_policy \<Rightarrow> string" where
  "eviction_text Lru = ''lru''"
| "eviction_text Lfu = ''lfu''"
| "eviction_text Ttl = ''ttl''"
| "eviction_text RandomEviction = ''random''"
| "eviction_text NoEviction = ''no-eviction''"

fun tree_strategy_text :: "tree_strategy \<Rightarrow> string" where
  "tree_strategy_text TreeSizeTiered = ''size-tiered''"
| "tree_strategy_text TreeLevelTiered = ''level-tiered''"
| "tree_strategy_text TreeTimeWindowed = ''time-windowed''"

subsection \<open>Records and defaults\<close>

record lsm_tree_config =
  lt_memtable_size :: nat
  lt_immutable_limit :: nat
  lt_sstable_size :: nat
  lt_levels :: nat
  lt_multiplier :: f64
  lt_merge_operator :: "string option"
  lt_strategy :: tree_strategy

definition default_lsm_tree_config :: lsm_tree_config where
  "default_lsm_tree_config = \<lparr>lt_memtable_size = 64 * 1024 * 1024, lt_immutable_limit = 2, lt_sstable_size = 64 * 1024 * 1024,
     lt_levels = 7, lt_multiplier = Fin 10, lt_merge_operator = None, lt_strategy = TreeLevelTiered\<rparr>"

record memory_config =
  mo_max_usage :: "nat option"
  mo_eviction :: eviction_policy
  mo_ttl :: bool
  mo_persistence :: bool

definition default_memory_config :: memory_config where
  "default_memory_config = \<lparr>mo_max_usage = Some (1024 * 1024 * 1024), mo_eviction = Lru, mo_ttl = True, mo_persistence = True\<rparr>"

record buffer_pool_config =
  bp_cache_size :: nat
  bp_max_entries :: nat
  bp_write_batch :: nat
  bp_write_interval :: nat
  bp_write_back :: bool
  bp_force_durable :: bool
  bp_hot_keys :: bool
  bp_hot_threshold :: nat
  bp_hot_window :: nat
  bp_partition_aware :: bool
  bp_prefetch :: bool
  bp_prefetch_window :: nat
  bp_prefetch_threshold :: f64
  bp_admission_filter :: bool
  bp_warming :: bool
  bp_warming_keys :: nat
  bp_autotuning :: bool
  bp_autotuning_secs :: nat

definition default_buffer_pool_config :: buffer_pool_config where
  "default_buffer_pool_config = \<lparr>bp_cache_size = 256 * 1024 * 1024, bp_max_entries = 10000, bp_write_batch = 100,
     bp_write_interval = millis 100, bp_write_back = True, bp_force_durable = False, bp_hot_keys = True, bp_hot_threshold = 10,
     bp_hot_window = 1000, bp_partition_aware = False, bp_prefetch = False, bp_prefetch_window = 3,
     bp_prefetch_threshold = f64_round (7 / 10), bp_admission_filter = False, bp_warming = True, bp_warming_keys = 1000,
     bp_autotuning = False, bp_autotuning_secs = 60\<rparr>"

record tiering_policy =
  tp_hot :: nat
  tp_warm :: nat
  tp_cold :: nat
  tp_interval :: nat
  tp_background :: bool

definition default_tiering_policy :: tiering_policy where
  "default_tiering_policy = \<lparr>tp_hot = 100, tp_warm = 10, tp_cold = 1, tp_interval = secs 300, tp_background = True\<rparr>"

record partitioned_config =
  pt_max_size :: nat
  pt_max_partitions :: nat
  pt_key_hash :: bool
  pt_split_threshold :: f64
  pt_replication :: nat

definition default_partitioned_config :: partitioned_config where
  "default_partitioned_config = \<lparr>pt_max_size = 100 * 1024 * 1024, pt_max_partitions = 256, pt_key_hash = True,
     pt_split_threshold = f64_round (4 / 5), pt_replication = 1\<rparr>"

record storage_wal_config =
  sw_enabled :: bool
  sw_dir :: "string option"
  sw_segment_size :: nat
  sw_buffer_size :: nat
  sw_flush_interval :: nat
  sw_sync_interval :: nat
  sw_max_segments :: nat
  sw_checksums :: bool

definition default_storage_wal_config :: storage_wal_config where
  "default_storage_wal_config = \<lparr>sw_enabled = True, sw_dir = None, sw_segment_size = 100 * 1024 * 1024, sw_buffer_size = 1000,
     sw_flush_interval = secs 1, sw_sync_interval = secs 5, sw_max_segments = 100, sw_checksums = True\<rparr>"

record cache_config =
  ca_block :: nat
  ca_row :: nat
  ca_index :: nat
  ca_filter :: nat
  ca_bloom :: bool
  ca_bits_per_key :: nat

definition default_cache_config :: cache_config where
  "default_cache_config = \<lparr>ca_block = 256 * 1024 * 1024, ca_row = 128 * 1024 * 1024, ca_index = 64 * 1024 * 1024,
     ca_filter = 32 * 1024 * 1024, ca_bloom = True, ca_bits_per_key = 10\<rparr>"

record storage_compaction_config =
  sp_max_compactions :: nat
  sp_max_flushes :: nat
  sp_l0_trigger :: nat
  sp_l0_slowdown :: nat
  sp_l0_stop :: nat
  sp_level_base :: nat
  sp_level_multiplier :: f64
  sp_file_base :: nat
  sp_file_multiplier :: int
  sp_style :: compaction_style

definition default_storage_compaction_config :: storage_compaction_config where
  "default_storage_compaction_config = \<lparr>sp_max_compactions = 1, sp_max_flushes = 1, sp_l0_trigger = 4, sp_l0_slowdown = 20,
     sp_l0_stop = 36, sp_level_base = 256 * 1024 * 1024, sp_level_multiplier = Fin 10, sp_file_base = 64 * 1024 * 1024,
     sp_file_multiplier = 1, sp_style = LevelStyle\<rparr>"

record storage_config =
  so_backend :: storage_backend
  so_data_dir :: string
  so_wal :: storage_wal_config
  so_cache :: cache_config
  so_compaction :: storage_compaction_config
  so_families :: "string list"
  so_max_memory :: "nat option"
  so_threads :: nat
  so_metrics_interval :: nat
  so_lsm_tree :: "lsm_tree_config option"
  so_partitioned :: "partitioned_config option"
  so_buffer_pool :: "buffer_pool_config option"
  so_validation :: "validation_config option"

definition default_storage_config :: storage_config where
  "default_storage_config = \<lparr>so_backend = LsmTree, so_data_dir = ''./f4kvs_data'', so_wal = default_storage_wal_config,
     so_cache = default_cache_config, so_compaction = default_storage_compaction_config, so_families = [''default''],
     so_max_memory = None, so_threads = 4, so_metrics_interval = secs 30, so_lsm_tree = Some default_lsm_tree_config,
     so_partitioned = Some default_partitioned_config, so_buffer_pool = Some default_buffer_pool_config,
     so_validation = Some default_validation_config\<rparr>"

text \<open>The configuration for tests, in a fresh directory.\<close>

definition for_testing :: "string \<Rightarrow> storage_config" where
  "for_testing dir = default_storage_config\<lparr>so_data_dir := dir,
     so_cache := default_cache_config\<lparr>ca_block := 1024 * 1024, ca_row := 1024 * 1024, ca_index := 1024 * 1024, ca_filter := 1024 * 1024\<rparr>,
     so_wal := default_storage_wal_config\<lparr>sw_segment_size := 1024 * 1024\<rparr>\<rparr>"

subsection \<open>Validation\<close>

definition u64_sum :: "nat list \<Rightarrow> nat option" where
  "u64_sum ns = (if sum_list ns < 2 ^ 64 then Some (sum_list ns) else None)"

definition validate_storage :: "storage_config \<Rightarrow> unit kv option" where
  "validate_storage c =
     (if so_data_dir c = '''' then Some (Inl (StorageError ''data_dir cannot be empty''))
      else if so_threads c = 0 then Some (Inl (StorageError ''background_threads must be at least 1''))
      else case so_max_memory c of None \<Rightarrow> Some (Inr ())
      | Some limit \<Rightarrow> (case u64_sum [ca_block (so_cache c), ca_row (so_cache c), ca_index (so_cache c), ca_filter (so_cache c)] of
            None \<Rightarrow> None
          | Some cached \<Rightarrow> Some (if limit < cached then Inl (StorageError ''Total cache size exceeds max_memory_usage'') else Inr ())))"

subsection \<open>The configuration of the engine\<close>

text \<open>\<open>PathBuf::join\<close> with a relative path.\<close>

definition path_join :: "string \<Rightarrow> string \<Rightarrow> string" where
  "path_join d p = (if d = '''' \<or> last d = CHR 0x2F then d @ p else d @ ''/'' @ p)"

definition from_storage_config :: "storage_config \<Rightarrow> lsm_config" where
  "from_storage_config c =
     (let l = default_lsm_config\<lparr>cf_data_dir := so_data_dir c\<rparr>;
          l = l\<lparr>cf_wal := (cf_wal l)\<lparr>wc_enabled := sw_enabled (so_wal c),
            wc_dir := (case sw_dir (so_wal c) of Some d \<Rightarrow> d | None \<Rightarrow> path_join (so_data_dir c) ''wal''),
            wc_segment_size := sw_segment_size (so_wal c), wc_buffer_size := sw_buffer_size (so_wal c)\<rparr>\<rparr>;
          l = (case so_lsm_tree c of None \<Rightarrow> l
            | Some t \<Rightarrow> l\<lparr>cf_memtable := (cf_memtable l)\<lparr>mc_max_size := lt_memtable_size t, mc_max_immutable := lt_immutable_limit t\<rparr>,
                cf_sstable := (cf_sstable l)\<lparr>sc_target_size := lt_sstable_size t\<rparr>,
                cf_levels := (cf_levels l)\<lparr>lc_count := lt_levels t, lc_size_multiplier := lt_multiplier t\<rparr>\<rparr>) in
      l\<lparr>cf_bloom := (cf_bloom l)\<lparr>bc_enabled := ca_bloom (so_cache c), bc_bits_per_key := ca_bits_per_key (so_cache c)\<rparr>,
        cf_performance := (cf_performance l)\<lparr>rc_block_cache_size := ca_block (so_cache c)\<rparr>\<rparr>)"

subsection \<open>What holds\<close>

text \<open>Every backend is read back from its name.\<close>

lemma backend_roundtrip: "backend_of (backend_text b) = Inr b"
  by (cases b) (simp_all add: backend_of_def ascii_lower_def)

lemma validate_storage_iff:
  "validate_storage c = Some (Inr ()) \<longleftrightarrow> so_data_dir c \<noteq> '''' \<and> 0 < so_threads c
     \<and> (\<forall>limit. so_max_memory c = Some limit \<longrightarrow>
          (let cached = ca_block (so_cache c) + ca_row (so_cache c) + ca_index (so_cache c) + ca_filter (so_cache c) in
           cached < 2 ^ 64 \<and> cached \<le> limit))"
  by (auto simp: validate_storage_def u64_sum_def Let_def add.assoc split: option.splits)

definition convertible :: "lsm_tree_config \<Rightarrow> bool" where
  "convertible t \<longleftrightarrow> 1024 \<le> lt_memtable_size t \<and> 1 \<le> lt_immutable_limit t \<and> lt_immutable_limit t \<le> 100
     \<and> 1024 \<le> lt_sstable_size t \<and> lt_sstable_size t \<le> 128 * 1024 * 1024
     \<and> 1 \<le> lt_levels t \<and> lt_levels t \<le> 20 \<and> \<not> f64_le (lt_multiplier t) (Fin 1)"

lemma validate_converted:
  "validate (from_storage_config c) = Inr () \<longleftrightarrow> so_data_dir c \<noteq> ''''
     \<and> (sw_enabled (so_wal c) \<longrightarrow> 1024 \<le> sw_segment_size (so_wal c) \<and> 0 < sw_buffer_size (so_wal c))
     \<and> (ca_bloom (so_cache c) \<longrightarrow> 1 \<le> ca_bits_per_key (so_cache c) \<and> ca_bits_per_key (so_cache c) \<le> 100)
     \<and> (\<forall>t. so_lsm_tree c = Some t \<longrightarrow> convertible t)"
proof -
  have d: "config_errors default_lsm_config = []" using default_valid by (simp add: validate_ok)
  show ?thesis
  proof (cases "so_lsm_tree c")
    case None
    with d show ?thesis
      by (auto simp: validate_ok config_errors_def from_storage_config_def Let_def default_lsm_config_def wal_errors_def
          default_wal_config_def bloom_errors_def default_bloom_config_def performance_errors_def default_performance_config_def)
  next
    case (Some t)
    with d show ?thesis
      by (auto simp: validate_ok config_errors_def from_storage_config_def Let_def default_lsm_config_def wal_errors_def
          default_wal_config_def bloom_errors_def default_bloom_config_def performance_errors_def default_performance_config_def
          memtable_errors_def default_memtable_config_def sstable_errors_def default_sstable_config_def level_errors_def convertible_def)
  qed
qed


text \<open>
  C24: which generic configurations give the engine a valid one.  A target size of the tables over 128 MB does not,
  because the maximal size keeps its default.
\<close>

theorem storage_config_valid_iff:
  "validate (from_storage_config c) = Inr () \<longleftrightarrow> so_data_dir c \<noteq> ''''
     \<and> (sw_enabled (so_wal c) \<longrightarrow> 1024 \<le> sw_segment_size (so_wal c) \<and> 0 < sw_buffer_size (so_wal c))
     \<and> (ca_bloom (so_cache c) \<longrightarrow> 1 \<le> ca_bits_per_key (so_cache c) \<and> ca_bits_per_key (so_cache c) \<le> 100)
     \<and> (\<forall>t. so_lsm_tree c = Some t \<longrightarrow> convertible t)"
  by (rule validate_converted)

text \<open>The default is accepted by both validations; with tables of 256 MB the generic one still accepts it.\<close>

theorem storage_config_valid_iff_witness:
  "let big = default_storage_config\<lparr>so_lsm_tree := Some (default_lsm_tree_config\<lparr>lt_sstable_size := 256 * 1024 * 1024\<rparr>)\<rparr> in
     validate (from_storage_config default_storage_config) = Inr () \<and> validate_storage default_storage_config = Some (Inr ())
     \<and> validate (from_storage_config big) \<noteq> Inr () \<and> validate_storage big = Some (Inr ())"
  by (simp add: storage_config_valid_iff validate_storage_iff convertible_def default_storage_config_def default_lsm_tree_config_def
      default_storage_wal_config_def default_cache_config_def f64_le_def)

end
