(* ===== verification/Error_Handling.thy ===== *)
theory Error_Handling
  imports Errors Float64
begin

text \<open>
  The error handling of the interface crate, \<open>crates/f4kvs-storage-core/src/common/error_handling.rs\<close>: contexts, the
  classification of errors, retries with growing delays, and the counters.  An operation is a function from the number of
  its run to the outcome; an overflow of the delay is \<open>None\<close>.
\<close>

subsection \<open>Contexts\<close>

fun with_context :: "string \<Rightarrow> 'a kv \<Rightarrow> 'a kv" where
  "with_context c (Inr x) = Inr x"
| "with_context c (Inl (IoError m)) = Inl (IoError (c @ '': '' @ m))"
| "with_context c (Inl (StorageError m)) = Inl (StorageError (c @ '': '' @ m))"
| "with_context c (Inl (SerializationError m)) = Inl (SerializationError (c @ '': '' @ m))"
| "with_context c (Inl (ConfigError m)) = Inl (ConfigError (c @ '': '' @ m))"
| "with_context c (Inl (InternalError m)) = Inl (InternalError (c @ '': '' @ m))"
| "with_context c (Inl (EncryptionError m)) = Inl (EncryptionError (c @ '': '' @ m))"
| "with_context c (Inl (InvalidConfiguration m)) = Inl (InvalidConfiguration (c @ '': '' @ m))"
| "with_context c (Inl e) = Inl (InternalError (c @ '': '' @ kv_display e))"

text \<open>The lazy form makes the context only when there is an error.\<close>

definition with_context_lazy :: "(unit \<Rightarrow> string) \<Rightarrow> 'a kv \<Rightarrow> 'a kv" where
  "with_context_lazy cf r = (case r of Inr x \<Rightarrow> Inr x | Inl e \<Rightarrow> with_context (cf ()) (Inl e))"

subsection \<open>Classification\<close>

datatype recovery_strategy = Retry | Skip | Fail | Fallback

record classification =
  cl_severity :: error_severity
  cl_recoverable :: bool
  cl_strategy :: recovery_strategy
  cl_log :: bool
  cl_report :: bool

fun classify :: "kv_error \<Rightarrow> classification" where
  "classify (InvalidKey _) = \<lparr>cl_severity = Medium, cl_recoverable = False, cl_strategy = Fail, cl_log = True, cl_report = False\<rparr>"
| "classify (InvalidValue _) = \<lparr>cl_severity = Medium, cl_recoverable = False, cl_strategy = Fail, cl_log = True, cl_report = False\<rparr>"
| "classify (StorageError _) = \<lparr>cl_severity = High, cl_recoverable = True, cl_strategy = Retry, cl_log = True, cl_report = True\<rparr>"
| "classify (IoError _) = \<lparr>cl_severity = High, cl_recoverable = True, cl_strategy = Retry, cl_log = True, cl_report = True\<rparr>"
| "classify (SerializationError _) = \<lparr>cl_severity = Critical, cl_recoverable = False, cl_strategy = Fail, cl_log = True, cl_report = True\<rparr>"
| "classify (TimeoutError _ _) = \<lparr>cl_severity = High, cl_recoverable = True, cl_strategy = Retry, cl_log = True, cl_report = True\<rparr>"
| "classify (KeyMissing _) = \<lparr>cl_severity = Low, cl_recoverable = False, cl_strategy = Skip, cl_log = False, cl_report = False\<rparr>"
| "classify (ConfigError _) = \<lparr>cl_severity = Critical, cl_recoverable = False, cl_strategy = Fail, cl_log = True, cl_report = True\<rparr>"
| "classify (InternalError _) = \<lparr>cl_severity = Critical, cl_recoverable = False, cl_strategy = Fail, cl_log = True, cl_report = True\<rparr>"
| "classify (EncryptionError _) = \<lparr>cl_severity = Critical, cl_recoverable = False, cl_strategy = Fail, cl_log = True, cl_report = True\<rparr>"
| "classify (InvalidConfiguration _) = \<lparr>cl_severity = Critical, cl_recoverable = False, cl_strategy = Fail, cl_log = True, cl_report = True\<rparr>"

text \<open>The two crates agree on what can be retried, but not on how severe an error is.\<close>

lemma classify_recoverable: "cl_recoverable (classify e) \<longleftrightarrow> kv_is_recoverable e"
  by (cases e) (simp_all add: kv_is_recoverable_def)

lemma severities_agree:
  "cl_severity (classify e) = severity e \<longleftrightarrow> kv_is_recoverable e \<or> (\<exists>m. e = KeyMissing m \<or> e = InternalError m)"
  by (cases e) (simp_all add: kv_is_recoverable_def)

subsection \<open>The handler\<close>

record error_handler =
  eh_max_retries :: nat
  eh_delay_ms :: nat
  eh_logging :: bool
  eh_reporting :: bool

definition default_error_handler :: error_handler where
  "default_error_handler = \<lparr>eh_max_retries = 3, eh_delay_ms = 100, eh_logging = True, eh_reporting = True\<rparr>"

definition eh_new :: "nat \<Rightarrow> nat \<Rightarrow> error_handler" where
  "eh_new n d = \<lparr>eh_max_retries = n, eh_delay_ms = d, eh_logging = True, eh_reporting = True\<rparr>"

definition delay_after :: "error_handler \<Rightarrow> nat \<Rightarrow> nat option" where
  "delay_after h attempt =
     (if 2 ^ (attempt - 1) < (2 :: nat) ^ 64 \<and> eh_delay_ms h * 2 ^ (attempt - 1) < 2 ^ 64
      then Some (eh_delay_ms h * 2 ^ (attempt - 1)) else None)"

function retry_attempts :: "error_handler \<Rightarrow> (nat \<Rightarrow> 'a kv) \<Rightarrow> nat \<Rightarrow> kv_error option \<Rightarrow> ('a kv \<times> nat list) option" where
  "retry_attempts h f attempt failed =
     (if eh_max_retries h < attempt
      then Some (Inl (case failed of Some e \<Rightarrow> e | None \<Rightarrow> InternalError ''Max retries exceeded''), [])
      else case f attempt of Inr x \<Rightarrow> Some (Inr x, [])
      | Inl e \<Rightarrow>
        if attempt < eh_max_retries h
        then (case delay_after h attempt of None \<Rightarrow> None
              | Some d \<Rightarrow> map_option (apsnd (Cons d)) (retry_attempts h f (attempt + 1) (Some e)))
        else retry_attempts h f (attempt + 1) (Some e))"
  by pat_completeness auto
termination
  by (relation "measure (\<lambda>(h, f, attempt, failed). Suc (eh_max_retries h) - attempt)") auto

declare retry_attempts.simps [simp del]

definition retry_operation :: "error_handler \<Rightarrow> (nat \<Rightarrow> 'a kv) \<Rightarrow> ('a kv \<times> nat list) option" where
  "retry_operation h f = retry_attempts h f 1 None"

text \<open>The result with the delays slept; writing the log is left out.\<close>

definition handle_error :: "error_handler \<Rightarrow> kv_error \<Rightarrow> (nat \<Rightarrow> 'a kv) \<Rightarrow> ('a kv \<times> nat list) option" where
  "handle_error h e f =
     (let c = classify e in
      case cl_strategy c of
        Retry \<Rightarrow> if cl_recoverable c then retry_operation h f else Some (Inl e, [])
      | Skip \<Rightarrow> Some (Inl (InternalError ''Operation skipped due to error''), [])
      | Fallback \<Rightarrow> Some (Inl (InternalError ''Fallback not implemented''), [])
      | Fail \<Rightarrow> Some (Inl e, []))"

lemma retry_attempts_result:
  assumes "\<And>i. k \<le> i \<Longrightarrow> i < n \<Longrightarrow> \<exists>e. f i = Inl e" and "n \<le> eh_max_retries h" and "k \<le> n"
    and "(\<exists>x. f n = Inr x) \<or> n = eh_max_retries h"
    and "eh_max_retries h \<le> 64" and "eh_delay_ms h * 2 ^ (eh_max_retries h - 1) < 2 ^ 64" and "1 \<le> k"
  shows "retry_attempts h f k failed = Some (f n, map (\<lambda>i. eh_delay_ms h * 2 ^ (i - 1)) [k ..< n])"
  using assms
proof (induction "n - k" arbitrary: k failed)
  case 0
  then have "k = n" by simp
  with 0 show ?case
    by (subst retry_attempts.simps) (auto split: sum.split simp: retry_attempts.simps)
next
  case (Suc j)
  then have k: "k < n" by simp
  then obtain e where e: "f k = Inl e" using Suc.prems(1) [of k] by auto
  have p: "(2 :: nat) ^ (k - 1) < 2 ^ 64" using k Suc.prems(2,5) by (intro power_strict_increasing) auto
  have "(2 :: nat) ^ (k - 1) \<le> 2 ^ (eh_max_retries h - 1)" using k Suc.prems(2) by (intro power_increasing) auto
  then have "eh_delay_ms h * 2 ^ (k - 1) \<le> eh_delay_ms h * 2 ^ (eh_max_retries h - 1)" by (rule mult_le_mono2)
  then have "eh_delay_ms h * 2 ^ (k - 1) < 2 ^ 64" using Suc.prems(6) by (rule le_less_trans)
  with p have d: "delay_after h k = Some (eh_delay_ms h * 2 ^ (k - 1))" unfolding delay_after_def by (simp only: simp_thms if_True)
  have "retry_attempts h f (k + 1) (Some e) = Some (f n, map (\<lambda>i. eh_delay_ms h * 2 ^ (i - 1)) [k + 1 ..< n])"
    using Suc.prems Suc.hyps(2) k by (intro Suc.hyps(1)) auto
  with e d k Suc.prems(2) show ?case
    by (subst retry_attempts.simps) (simp add: upt_conv_Cons)
qed

text \<open>
  an error that can be retried makes the handler run the operation until it succeeds or the limit is
  reached, sleeping twice as long each time, and the outcome of the last run is the answer.  For other errors
  the operation is not run.
\<close>

theorem handler_retries:
  assumes "\<And>i. 1 \<le> i \<Longrightarrow> i < n \<Longrightarrow> \<exists>e. f i = Inl e" and "1 \<le> n" and "n \<le> eh_max_retries h"
    and "(\<exists>x. f n = Inr x) \<or> n = eh_max_retries h"
    and "eh_max_retries h \<le> 64" and "eh_delay_ms h * 2 ^ (eh_max_retries h - 1) < 2 ^ 64"
  shows "handle_error h e f =
    (if kv_is_recoverable e then Some (f n, map (\<lambda>i. eh_delay_ms h * 2 ^ (i - 1)) [1 ..< n])
     else Some (Inl (if \<exists>k. e = KeyMissing k then InternalError ''Operation skipped due to error'' else e), []))"
proof -
  have "retry_operation h f = Some (f n, map (\<lambda>i. eh_delay_ms h * 2 ^ (i - 1)) [1 ..< n])"
    unfolding retry_operation_def by (rule retry_attempts_result) (use assms in auto)
  then show ?thesis by (cases e) (simp_all add: handle_error_def kv_is_recoverable_def)
qed

theorem handler_retries_witness:
  "handle_error default_error_handler (IoError ''busy'') (\<lambda>i. if i < 3 then Inl (IoError ''down'') else Inr i)
     = Some (Inr (3 :: nat), [100, 200])"
proof -
  have "i < 3 \<Longrightarrow> 1 \<le> i \<Longrightarrow> i = 1 \<or> i = 2" for i :: nat by linarith
  then show ?thesis
    using handler_retries [of 3 "\<lambda>i. if i < 3 then Inl (IoError ''down'') else Inr i" default_error_handler "IoError ''busy''"]
    by (simp add: default_error_handler_def kv_is_recoverable_def upt_rec)
qed

subsection \<open>Counters\<close>

text \<open>\<open>dbg\<close> is the derived debug form of an error, which is the key of the second map.\<close>

record error_metrics =
  em_total :: nat
  em_by_severity :: "error_severity \<Rightarrow> nat option"
  em_by_type :: "string \<Rightarrow> nat option"
  em_rate :: f64
  em_attempts :: nat
  em_successes :: nat

definition em_default :: error_metrics where
  "em_default = \<lparr>em_total = 0, em_by_severity = (\<lambda>_. None), em_by_type = (\<lambda>_. None), em_rate = Fin 0, em_attempts = 0, em_successes = 0\<rparr>"

definition bump :: "'k \<Rightarrow> ('k \<Rightarrow> nat option) \<Rightarrow> ('k \<Rightarrow> nat option)" where
  "bump k m = m(k \<mapsto> (case m k of None \<Rightarrow> 0 | Some n \<Rightarrow> n) + 1)"

definition record_error :: "(kv_error \<Rightarrow> string) \<Rightarrow> kv_error \<Rightarrow> error_metrics \<Rightarrow> error_metrics" where
  "record_error dbg e m = m\<lparr>em_total := em_total m + 1, em_by_severity := bump (cl_severity (classify e)) (em_by_severity m),
     em_by_type := bump (dbg e) (em_by_type m)\<rparr>"

definition record_recovery_attempt :: "error_metrics \<Rightarrow> error_metrics" where
  "record_recovery_attempt m = m\<lparr>em_attempts := em_attempts m + 1\<rparr>"

definition record_successful_recovery :: "error_metrics \<Rightarrow> error_metrics" where
  "record_successful_recovery m = (let m = m\<lparr>em_successes := em_successes m + 1\<rparr> in
     m\<lparr>em_rate := f64_div (f64_of_nat (em_successes m)) (f64_of_nat (em_attempts m))\<rparr>)"

definition em_reset :: "error_metrics \<Rightarrow> error_metrics" where
  "em_reset m = m\<lparr>em_total := 0, em_by_severity := (\<lambda>_. None), em_by_type := (\<lambda>_. None), em_rate := Fin 0, em_attempts := 0,
     em_successes := 0\<rparr>"

datatype metrics_event = Failed kv_error | Attempted | Recovered | WasReset

fun metrics_step :: "(kv_error \<Rightarrow> string) \<Rightarrow> metrics_event \<Rightarrow> error_metrics \<Rightarrow> error_metrics" where
  "metrics_step dbg (Failed e) m = record_error dbg e m"
| "metrics_step dbg Attempted m = record_recovery_attempt m"
| "metrics_step dbg Recovered m = record_successful_recovery m"
| "metrics_step dbg WasReset m = em_reset m"

definition counted :: "'k list \<Rightarrow> ('k \<Rightarrow> nat option) \<Rightarrow> nat" where
  "counted ks m = (\<Sum>k\<leftarrow>ks. case m k of None \<Rightarrow> 0 | Some n \<Rightarrow> n)"

lemma counted_bump: "distinct ks \<Longrightarrow> counted ks (bump k m) = counted ks m + (if k \<in> set ks then 1 else 0)"
  by (induction ks) (auto simp: counted_def bump_def)

text \<open>The counts by severity always add up to the total.\<close>

lemma severities_add_up:
  "counted [Low, Medium, High, Critical] (em_by_severity (fold (metrics_step dbg) evs em_default))
     = em_total (fold (metrics_step dbg) evs em_default)"
proof -
  have step: "counted [Low, Medium, High, Critical] (em_by_severity (metrics_step dbg ev m)) = em_total (metrics_step dbg ev m)"
    if "counted [Low, Medium, High, Critical] (em_by_severity m) = em_total m" for ev m
  proof (cases ev)
    case (Failed e)
    have "counted [Low, Medium, High, Critical] (bump s (em_by_severity m)) = em_total m + 1" for s
      using that counted_bump [of "[Low, Medium, High, Critical]" s "em_by_severity m"] by (cases s) simp_all
    with Failed show ?thesis by (simp add: record_error_def)
  qed (use that in \<open>simp_all add: record_recovery_attempt_def record_successful_recovery_def em_reset_def Let_def counted_def\<close>)
  have "counted [Low, Medium, High, Critical] (em_by_severity (fold (metrics_step dbg) evs m)) = em_total (fold (metrics_step dbg) evs m)"
    if "counted [Low, Medium, High, Critical] (em_by_severity m) = em_total m" for m
    using that by (induction evs arbitrary: m) (auto intro: step)
  then show ?thesis by (simp add: em_default_def counted_def)
qed

end
