(* ===== verification/Formatting.thy ===== *)
theory Formatting
  imports Float64 Errors
begin

text \<open>
  Numbers as text, \<open>crates/f4kvs-storage-core/src/common/formatting.rs\<close>.  \<open>show_fixed d\<close> is Rust's format \<open>{:.d}\<close> of a
  float: its exact value with \<open>d\<close> digits after the point, rounded to even on a tie.  A duration is in nanoseconds.
\<close>

definition fixed :: "nat \<Rightarrow> rat \<Rightarrow> string" where
  "fixed d r =
     (let n = nat (round_even (\<bar>r\<bar> * 10 ^ d)) in
      (if r < 0 then ''-'' else '''') @ decimal (n div 10 ^ d)
      @ (if d = 0 then '''' else ''.'' @ radix_digits 10 d (n mod 10 ^ d)))"

fun show_fixed :: "nat \<Rightarrow> f64 \<Rightarrow> string" where
  "show_fixed d NaN = ''NaN''"
| "show_fixed d (Infinity s) = (if s then ''-inf'' else ''inf'')"
| "show_fixed d (Fin r) = fixed d r"

subsection \<open>Bytes\<close>

definition units :: "string list" where
  "units = [''B'', ''KB'', ''MB'', ''GB'', ''TB'', ''PB'']"

function scale_bytes :: "f64 \<Rightarrow> nat \<Rightarrow> f64 \<times> nat" where
  "scale_bytes sz i = (if f64_le (Fin 1024) sz \<and> i < length units - 1 then scale_bytes (f64_div sz (Fin 1024)) (i + 1) else (sz, i))"
  by pat_completeness auto
termination
  by (relation "measure (\<lambda>(sz, i). length units - i)") auto

declare scale_bytes.simps [simp del]

definition format_bytes :: "nat \<Rightarrow> string" where
  "format_bytes n =
     (let (sz, i) = scale_bytes (f64_of_nat n) 0 in
      if i = 0 then decimal n @ '' '' @ units ! i else show_fixed 2 sz @ '' '' @ units ! i)"

text \<open>The unit is in the table, and the number shown is below 1024 unless the unit is the last.\<close>

lemma scale_bytes_bounds:
  "i < length units \<Longrightarrow> scale_bytes sz i = (sz', j) \<Longrightarrow> j < length units \<and> (\<not> f64_le (Fin 1024) sz' \<or> j = length units - 1)"
proof (induction sz i rule: scale_bytes.induct)
  case (1 sz i)
  show ?case
  proof (cases "f64_le (Fin 1024) sz \<and> i < length units - 1")
    case True
    with 1 show ?thesis by (subst (asm) (2) scale_bytes.simps) auto
  next
    case False
    with 1(2,3) show ?thesis by (subst (asm) scale_bytes.simps) auto
  qed
qed

subsection \<open>Durations, percentages and rates\<close>

definition format_duration :: "nat \<Rightarrow> string" where
  "format_duration d =
     (let all_secs = d div 1000000000; hours = all_secs div 3600; minutes = all_secs mod 3600 div 60; seconds = all_secs mod 60;
          ms = d mod 1000000000 div 1000000 in
      if 0 < hours then decimal hours @ ''h '' @ decimal minutes @ ''m '' @ decimal seconds @ ''s''
      else if 0 < minutes then decimal minutes @ ''m '' @ decimal seconds @ ''s''
      else if 0 < seconds then decimal seconds @ ''.'' @ radix_digits 10 3 ms @ ''s''
      else decimal ms @ ''ms'')"

definition format_percentage :: "f64 \<Rightarrow> f64 \<Rightarrow> string" where
  "format_percentage v t =
     (if t = Fin 0 then ''0.00%''
      else let p = f64_mul (f64_div v t) (Fin 100) in
        if p = Fin 0 then ''0.00%''
        else if f64_lt p (f64_round (1 / 100)) then ''<0.01%''
        else if f64_le (Fin 100) p then ''100.00%''
        else show_fixed 2 p @ ''%'')"

definition format_rate :: "nat \<Rightarrow> nat \<Rightarrow> string" where
  "format_rate n d =
     (if d = 0 then [CHR 0xE2, CHR 0x88, CHR 0x9E]
      else let rate = f64_div (f64_of_nat n) (as_secs_f64 d) in
        if f64_le (Fin 1000000) rate then show_fixed 2 (f64_div rate (Fin 1000000)) @ ''M ops/s''
        else if f64_le (Fin 1000) rate then show_fixed 2 (f64_div rate (Fin 1000)) @ ''K ops/s''
        else show_fixed 2 rate @ '' ops/s'')"

subsection \<open>Thousands\<close>

text \<open>The list holds what is left of the digits; its length is the number of the code's \<open>chars.len() - i\<close>.\<close>

fun put_commas :: "bool \<Rightarrow> string \<Rightarrow> string" where
  "put_commas first [] = []"
| "put_commas first (c # cs) =
     (if \<not> first \<and> length (c # cs) mod 3 = 0 then [CHR '','', c] else [c]) @ put_commas False cs"

definition format_number_with_commas :: "nat \<Rightarrow> string" where
  "format_number_with_commas n = put_commas True (decimal n)"

lemma put_commas_filter: "CHR '','' \<notin> set s \<Longrightarrow> filter (\<lambda>c. c \<noteq> CHR '','') (put_commas b s) = s"
  by (induction b s rule: put_commas.induct) auto

lemma put_commas_length: "length (put_commas False s) = length s + length s div 3"
  "length (put_commas True s) = length s + (length s - 1) div 3"
proof -
  show *: "length (put_commas False s) = length s + length s div 3" for s
    by (induction s) (simp_all add: div_Suc)
  show "length (put_commas True s) = length s + (length s - 1) div 3"
    by (cases s) (simp_all add: *)
qed

text \<open>Without the commas it is the number again, and the capacity the code reserves is the length.\<close>

lemma commas_roundtrip:
  assumes "n < 2 ^ 64"
  shows "digits_value 10 0 (filter (\<lambda>c. c \<noteq> CHR '','') (format_number_with_commas n)) = Some n
    \<and> length (format_number_with_commas n) = length (decimal n) + (length (decimal n) - 1) div 3"
proof -
  have "CHR '','' \<notin> set (decimal n)"
  proof
    assume "CHR '','' \<in> set (decimal n)"
    then obtain d where "d < 10" "CHR '','' = digit_char d" using decimal_digits by blast
    then have "of_char (CHR '','') = (48 + d :: nat)" by (simp add: digit_char_def of_char_nat del: of_char_of)
    then show False by simp
  qed
  then show ?thesis
    using assms by (simp add: format_number_with_commas_def put_commas_filter decimal_value put_commas_length)
qed

text \<open>A fixed format shows a number within half a unit of the last digit.\<close>

lemma round_even_near: "\<bar>of_int (round_even x) - x\<bar> \<le> 1 / 2"
proof -
  define f :: rat where "f = of_int \<lfloor>x\<rfloor>"
  have "f \<le> x" "x < f + 1" unfolding f_def by linarith+
  moreover have "round_even x = (if x - f < 1 / 2 \<or> \<not> 1 / 2 < x - f \<and> even \<lfloor>x\<rfloor> then \<lfloor>x\<rfloor> else \<lfloor>x\<rfloor> + 1)"
    by (simp add: round_even_def Let_def f_def)
  ultimately show ?thesis by (auto simp: f_def [symmetric] abs_if)
qed

end
