(* ===== verification/Stats.thy ===== *)
theory Stats
  imports Formatting
begin

text \<open>
  The statistics of a storage backend, \<open>crates/f4kvs-storage-core/src/stats.rs\<close>: its records with their defaults, the
  derived rates, the health it concludes and its texts.  Times are in nanoseconds; a map is its list of entries.
\<close>

record cache_metrics =
  km_capacity :: nat
  km_usage :: nat
  km_hits :: nat
  km_misses :: nat
  km_hit_rate :: f64
  km_evictions :: nat

definition default_cache_metrics :: cache_metrics where
  "default_cache_metrics = \<lparr>km_capacity = 0, km_usage = 0, km_hits = 0, km_misses = 0, km_hit_rate = Fin 0, km_evictions = 0\<rparr>"

record cache_stats =
  kc_block :: cache_metrics
  kc_bloom :: cache_metrics
  kc_write :: cache_metrics

definition default_cache_stats :: cache_stats where
  "default_cache_stats = \<lparr>kc_block = default_cache_metrics, kc_bloom = default_cache_metrics, kc_write = default_cache_metrics\<rparr>"

definition calculate_hit_rate :: "cache_metrics \<Rightarrow> cache_metrics" where
  "calculate_hit_rate m =
     (let n = km_hits m + km_misses m in
      m\<lparr>km_hit_rate := (if 0 < n then f64_div (f64_of_nat (km_hits m)) (f64_of_nat n) else Fin 0)\<rparr>)"

definition utilization :: "cache_metrics \<Rightarrow> f64" where
  "utilization m =
     (if 0 < km_capacity m then f64_mul (f64_div (f64_of_nat (km_usage m)) (f64_of_nat (km_capacity m))) (Fin 100) else Fin 0)"

record bloom_stats =
  kb_enabled :: bool
  kb_bits_per_key :: nat
  kb_false_positives :: f64
  kb_filters :: nat
  kb_bits :: nat

definition default_bloom_stats :: bloom_stats where
  "default_bloom_stats = \<lparr>kb_enabled = False, kb_bits_per_key = 0, kb_false_positives = Fin 0, kb_filters = 0, kb_bits = 0\<rparr>"

record io_metrics =
  ki_ops :: nat
  ki_bytes :: nat
  ki_time_ms :: nat
  ki_avg_ms :: f64
  ki_max_ms :: nat
  ki_min_ms :: nat
  ki_ops_per_sec :: f64
  ki_bytes_per_sec :: f64

definition default_io_metrics :: io_metrics where
  "default_io_metrics = \<lparr>ki_ops = 0, ki_bytes = 0, ki_time_ms = 0, ki_avg_ms = Fin 0, ki_max_ms = 0, ki_min_ms = 2 ^ 64 - 1,
     ki_ops_per_sec = Fin 0, ki_bytes_per_sec = Fin 0\<rparr>"

record io_stats =
  ks_read :: io_metrics
  ks_write :: io_metrics
  ks_compaction :: io_metrics

definition default_io_stats :: io_stats where
  "default_io_stats = \<lparr>ks_read = default_io_metrics, ks_write = default_io_metrics, ks_compaction = default_io_metrics\<rparr>"

definition record_operation :: "nat \<Rightarrow> nat \<Rightarrow> io_metrics \<Rightarrow> io_metrics" where
  "record_operation n ms m =
     (let m = m\<lparr>ki_ops := ki_ops m + 1, ki_bytes := ki_bytes m + n, ki_time_ms := ki_time_ms m + ms, ki_max_ms := max (ki_max_ms m) ms\<rparr>;
          m = m\<lparr>ki_min_ms := (if ki_min_ms m = 2 ^ 64 - 1 then ms else min (ki_min_ms m) ms)\<rparr> in
      m\<lparr>ki_avg_ms := (if 0 < ki_ops m then f64_div (f64_of_nat (ki_time_ms m)) (f64_of_nat (ki_ops m)) else Fin 0)\<rparr>)"

definition calculate_throughput :: "nat \<Rightarrow> io_metrics \<Rightarrow> io_metrics" where
  "calculate_throughput d m =
     (let seconds = as_secs_f64 d in
      if f64_lt (Fin 0) seconds
      then m\<lparr>ki_ops_per_sec := f64_div (f64_of_nat (ki_ops m)) seconds, ki_bytes_per_sec := f64_div (f64_of_nat (ki_bytes m)) seconds\<rparr>
      else m)"

record level_stats =
  kl_level :: nat
  kl_files :: nat
  kl_bytes :: nat
  kl_score :: f64
  kl_read_ms :: f64
  kl_write_amp :: f64

record compaction_counts =
  kp_levels :: "level_stats list"
  kp_pending :: nat
  kp_running :: nat
  kp_done :: nat
  kp_bytes :: nat
  kp_time_ms :: nat
  kp_avg_ms :: f64
  kp_last :: "nat option"

definition default_compaction_counts :: compaction_counts where
  "default_compaction_counts = \<lparr>kp_levels = [], kp_pending = 0, kp_running = 0, kp_done = 0, kp_bytes = 0, kp_time_ms = 0,
     kp_avg_ms = Fin 0, kp_last = None\<rparr>"

record family_stats =
  kf_name :: string
  kf_keys :: nat
  kf_bytes :: nat
  kf_reads :: nat
  kf_writes :: nat
  kf_deletes :: nat
  kf_avg_key :: f64
  kf_avg_value :: f64
  kf_updated :: nat

definition default_family_stats :: "nat \<Rightarrow> family_stats" where
  "default_family_stats now = \<lparr>kf_name = '''', kf_keys = 0, kf_bytes = 0, kf_reads = 0, kf_writes = 0, kf_deletes = 0,
     kf_avg_key = Fin 0, kf_avg_value = Fin 0, kf_updated = now\<rparr>"

record memory_stats =
  ku_total :: nat
  ku_memtable :: nat
  ku_immutable :: nat
  ku_block_cache :: nat
  ku_index_cache :: nat
  ku_filter_cache :: nat
  ku_other :: nat
  ku_limit :: "nat option"
  ku_percent :: f64

definition default_memory_stats :: memory_stats where
  "default_memory_stats = \<lparr>ku_total = 0, ku_memtable = 0, ku_immutable = 0, ku_block_cache = 0, ku_index_cache = 0,
     ku_filter_cache = 0, ku_other = 0, ku_limit = None, ku_percent = Fin 0\<rparr>"

definition calculate_total :: "memory_stats \<Rightarrow> memory_stats" where
  "calculate_total m =
     (let m = m\<lparr>ku_total := ku_memtable m + ku_immutable m + ku_block_cache m + ku_index_cache m + ku_filter_cache m + ku_other m\<rparr> in
      case ku_limit m of None \<Rightarrow> m
      | Some limit \<Rightarrow> m\<lparr>ku_percent := (if 0 < limit then f64_mul (f64_div (f64_of_nat (ku_total m)) (f64_of_nat limit)) (Fin 100) else Fin 0)\<rparr>)"

record write_back_stats =
  kw_enabled :: bool
  kw_capacity :: nat
  kw_depth :: nat
  kw_inflight :: nat
  kw_acked :: nat
  kw_durable :: nat
  kw_batches :: nat
  kw_syncs :: nat
  kw_gap :: nat

definition default_write_back_stats :: write_back_stats where
  "default_write_back_stats = \<lparr>kw_enabled = False, kw_capacity = 0, kw_depth = 0, kw_inflight = 0, kw_acked = 0, kw_durable = 0,
     kw_batches = 0, kw_syncs = 0, kw_gap = 0\<rparr>"

text \<open>A metric of the exposition format: its help, its type and its value.\<close>

definition metric_lines :: "string \<Rightarrow> string \<Rightarrow> string \<Rightarrow> nat \<Rightarrow> string" where
  "metric_lines name help kind n =
     ''# HELP '' @ name @ '' '' @ help @ [CHR 0x0A] @ ''# TYPE '' @ name @ '' '' @ kind @ [CHR 0x0A]
     @ name @ '' '' @ decimal n @ [CHR 0x0A]"

definition to_prometheus :: "write_back_stats \<Rightarrow> string" where
  "to_prometheus w =
     metric_lines ''f4kvs_write_back_enabled'' ''Whether buffer-pool write-back is enabled'' ''gauge'' (if kw_enabled w then 1 else 0)
     @ metric_lines ''f4kvs_write_back_queue_capacity'' ''Bounded write-back queue capacity in ops'' ''gauge'' (kw_capacity w)
     @ metric_lines ''f4kvs_write_back_queue_depth'' ''Current write-back queue depth in ops'' ''gauge'' (kw_depth w)
     @ metric_lines ''f4kvs_write_back_batch_inflight'' ''Ops in the worker in-flight batch'' ''gauge'' (kw_inflight w)
     @ metric_lines ''f4kvs_write_back_ops_acked_total'' ''Client-acked write ops through the buffer pool'' ''counter'' (kw_acked w)
     @ metric_lines ''f4kvs_write_back_ops_durable_total'' ''Ops persisted (WAL-synced) by the write-back worker'' ''counter'' (kw_durable w)
     @ metric_lines ''f4kvs_write_back_batches_persisted_total'' ''Successful write-back batch flushes'' ''counter'' (kw_batches w)
     @ metric_lines ''f4kvs_write_back_wal_syncs_total'' ''WAL syncs performed by the write-back path'' ''counter'' (kw_syncs w)
     @ metric_lines ''f4kvs_write_back_acked_durable_gap'' ''Instantaneous acked-minus-durable loss window in ops'' ''gauge'' (kw_gap w)"

record wal_stats =
  kv_enabled :: bool
  kv_segment :: nat
  kv_segments :: nat
  kv_bytes :: nat
  kv_written :: nat
  kv_flushed :: nat
  kv_flushes :: nat
  kv_syncs :: nat
  kv_last_flush :: "nat option"
  kv_last_sync :: "nat option"
  kv_avg_flush_ms :: f64
  kv_avg_sync_ms :: f64

definition default_wal_stats :: wal_stats where
  "default_wal_stats = \<lparr>kv_enabled = False, kv_segment = 0, kv_segments = 0, kv_bytes = 0, kv_written = 0, kv_flushed = 0,
     kv_flushes = 0, kv_syncs = 0, kv_last_flush = None, kv_last_sync = None, kv_avg_flush_ms = Fin 0, kv_avg_sync_ms = Fin 0\<rparr>"

datatype health = Healthy | Degraded | Unhealthy

fun health_text :: "health \<Rightarrow> string" where
  "health_text Healthy = ''healthy''"
| "health_text Degraded = ''degraded''"
| "health_text Unhealthy = ''unhealthy''"

record health_stats =
  kh_overall :: health
  kh_errors :: nat
  kh_warnings :: nat
  kh_last_error :: "string option"
  kh_uptime :: nat
  kh_background :: nat
  kh_corruptions :: nat

definition default_health_stats :: health_stats where
  "default_health_stats = \<lparr>kh_overall = Healthy, kh_errors = 0, kh_warnings = 0, kh_last_error = None, kh_uptime = 0,
     kh_background = 0, kh_corruptions = 0\<rparr>"

record storage_stats =
  st_keys :: nat
  st_bytes :: nat
  st_cache :: cache_stats
  st_io :: io_stats
  st_compaction :: compaction_counts
  st_families :: "(string \<times> family_stats) list"
  st_memory :: memory_stats
  st_wal :: "wal_stats option"
  st_write_back :: "write_back_stats option"
  st_health :: health_stats
  st_time :: nat

definition default_storage_stats :: "nat \<Rightarrow> storage_stats" where
  "default_storage_stats now = \<lparr>st_keys = 0, st_bytes = 0, st_cache = default_cache_stats, st_io = default_io_stats,
     st_compaction = default_compaction_counts, st_families = [], st_memory = default_memory_stats, st_wal = None,
     st_write_back = None, st_health = default_health_stats, st_time = now\<rparr>"

definition health_issues :: "storage_stats \<Rightarrow> string list" where
  "health_issues s =
     (if f64_lt (km_hit_rate (kc_block (st_cache s))) (Fin (1 / 2)) then [''Low block cache hit rate''] else [])
     @ (if f64_lt (Fin 90) (ku_percent (st_memory s)) then [''High memory usage''] else [])
     @ (if 0 < kh_background (st_health s) then [''Background errors detected''] else [])
     @ (if 0 < kh_corruptions (st_health s) then [''Data corruption detected''] else [])"

definition update_health :: "storage_stats \<Rightarrow> storage_stats" where
  "update_health s =
     s\<lparr>st_health := (st_health s)\<lparr>kh_overall :=
        (if 0 < kh_corruptions (st_health s) \<or> 10 < kh_background (st_health s) then Unhealthy
         else if health_issues s \<noteq> [] then Degraded else Healthy)\<rparr>\<rparr>"

definition summary :: "storage_stats \<Rightarrow> string" where
  "summary s =
     ''Keys: '' @ decimal (st_keys s) @ '', Size: '' @ show_fixed 2 (f64_div (f64_of_nat (st_bytes s)) (Fin (1024 * 1024)))
     @ '' MB, Cache Hit Rate: '' @ show_fixed 1 (f64_mul (km_hit_rate (kc_block (st_cache s))) (Fin 100))
     @ ''%, Memory: '' @ show_fixed 1 (ku_percent (st_memory s)) @ ''%, Health: '' @ health_text (kh_overall (st_health s))"

subsection \<open>What the counters mean\<close>

text \<open>After a run of operations the counts, sums and extrema are those of the run, as long as no latency is the largest
  number, which stands for \<open>no minimum yet\<close>.\<close>

definition recorded :: "(nat \<times> nat) list \<Rightarrow> io_metrics" where
  "recorded ops = fold (\<lambda>(n, ms). record_operation n ms) ops default_io_metrics"

lemma recorded_snoc: "recorded (ops @ [(n, ms)]) = record_operation n ms (recorded ops)"
  by (simp add: recorded_def)

lemma recorded_counts:
  "ki_ops (recorded ops) = length ops \<and> ki_bytes (recorded ops) = sum_list (map fst ops)
   \<and> ki_time_ms (recorded ops) = sum_list (map snd ops) \<and> ki_max_ms (recorded ops) = fold max (map snd ops) 0"
proof (induction ops rule: rev_induct)
  case Nil
  then show ?case by (simp add: recorded_def default_io_metrics_def)
next
  case (snoc p ops)
  then show ?case by (cases p) (simp add: recorded_snoc record_operation_def Let_def max.commute)
qed

lemma recorded_min:
  assumes "\<forall>p \<in> set ops. snd p < 2 ^ 64 - 1"
  shows "ki_min_ms (recorded ops) = (if ops = [] then 2 ^ 64 - 1 else Min (set (map snd ops)))"
  using assms
proof (induction ops rule: rev_induct)
  case Nil
  then show ?case by (simp add: recorded_def default_io_metrics_def)
next
  case (snoc p ops)
  have "Min (snd ` set ops) < 2 ^ 64 - 1" if "ops \<noteq> []"
  proof -
    have "Min (snd ` set ops) \<in> snd ` set ops" using that by (intro Min_in) auto
    then obtain q where "q \<in> set ops" "Min (snd ` set ops) = snd q" by auto
    with snoc.prems show ?thesis by simp
  qed
  then have "ki_min_ms (record_operation (fst p) (snd p) (recorded ops)) = (if ops = [] then snd p else min (Min (snd ` set ops)) (snd p))"
    using snoc by (auto simp: record_operation_def Let_def)
  moreover have "Min (insert (snd p) (snd ` set ops)) = min (snd p) (Min (snd ` set ops))" if "ops \<noteq> []"
    using that by (simp add: Min_insert)
  ultimately show ?case
    using recorded_snoc [of ops "fst p" "snd p"] by (auto simp: min.commute)
qed

text \<open>A cache that was never asked has the rate 0, which counts as low: fresh statistics are degraded.\<close>

lemma fresh_stats_degraded: "kh_overall (st_health (update_health (default_storage_stats now))) = Degraded"
  by (simp add: update_health_def health_issues_def default_storage_stats_def default_health_stats_def default_cache_stats_def
      default_cache_metrics_def)

lemma health_meaning:
  "kh_overall (st_health (update_health s)) = Healthy \<longleftrightarrow>
     \<not> f64_lt (km_hit_rate (kc_block (st_cache s))) (Fin (1 / 2)) \<and> \<not> f64_lt (Fin 90) (ku_percent (st_memory s))
     \<and> kh_background (st_health s) = 0 \<and> kh_corruptions (st_health s) = 0"
  by (simp add: update_health_def health_issues_def)

end
