(* ===== verification/Monitoring.thy ===== *)
theory Monitoring
  imports Stats "HOL-Library.AList"
begin

text \<open>
  The storage monitor, \<open>crates/f4kvs-storage-core/src/monitoring.rs\<close>: metrics and health checks taken from the statistics,
  and alert rules evaluated on the metrics.  A hash map is an association list; the code's loops over it give the same maps
  in any order.  \<open>fmt\<close> is the text of a float in a message, \<open>now\<close> the clock.
\<close>

definition f64_abs :: "f64 \<Rightarrow> f64" where
  "f64_abs x = (case x of Fin r \<Rightarrow> Fin \<bar>r\<bar> | Infinity _ \<Rightarrow> Infinity False | NaN \<Rightarrow> NaN)"

definition f64_epsilon :: f64 where "f64_epsilon = Fin (1 / 2 ^ 52)"

subsection \<open>Configuration\<close>

record alert_thresholds =
  at_memory_warn :: f64
  at_memory_crit :: f64
  at_cache_warn :: f64
  at_cache_crit :: f64
  at_latency_warn :: nat
  at_latency_crit :: nat
  at_errors_warn :: nat
  at_errors_crit :: nat
  at_disk_warn :: f64
  at_disk_crit :: f64

definition default_thresholds :: alert_thresholds where
  "default_thresholds = \<lparr>at_memory_warn = Fin 80, at_memory_crit = Fin 95, at_cache_warn = Fin 70, at_cache_crit = Fin 50,
     at_latency_warn = 100, at_latency_crit = 500, at_errors_warn = 10, at_errors_crit = 50, at_disk_warn = Fin 80,
     at_disk_crit = Fin 95\<rparr>"

datatype notification_type =
    Email string "string list"
  | Webhook string "(string \<times> string) list"
  | Slack string string
  | LogTo string

record channel =
  ch_id :: string
  ch_name :: string
  ch_type :: notification_type
  ch_config :: "(string \<times> string) list"
  ch_enabled :: bool

record monitoring_config =
  mg_metrics_interval :: nat
  mg_health_interval :: nat
  mg_alert_interval :: nat
  mg_real_time :: bool
  mg_alerting :: bool
  mg_analytics :: bool
  mg_thresholds :: alert_thresholds
  mg_channels :: "channel list"

definition default_monitoring_config :: monitoring_config where
  "default_monitoring_config = \<lparr>mg_metrics_interval = 10000000000, mg_health_interval = 30000000000, mg_alert_interval = 5000000000,
     mg_real_time = True, mg_alerting = True, mg_analytics = True, mg_thresholds = default_thresholds, mg_channels = []\<rparr>"

subsection \<open>Metrics\<close>

datatype metric_type = Counter | Gauge | Histogram | Summary

record metric_value =
  mv_name :: string
  mv_value :: f64
  mv_type :: metric_type
  mv_unit :: string
  mv_labels :: "(string \<times> string) list"
  mv_updated :: nat

record snapshot =
  sn_time :: nat
  sn_metrics :: "(string \<times> f64) list"

record collector =
  co_metrics :: "(string \<times> metric_value) list"
  co_history :: "snapshot list"

definition collector_new :: collector where "collector_new = \<lparr>co_metrics = [], co_history = []\<rparr>"

definition keep_last :: "nat \<Rightarrow> 'a list \<Rightarrow> 'a list" where
  "keep_last n xs = (if n < length xs then drop (length xs - n) xs else xs)"

definition update_metrics :: "nat \<Rightarrow> (string \<times> f64) list \<Rightarrow> collector \<Rightarrow> collector" where
  "update_metrics now ms c =
     (let cur = fold (\<lambda>(n, v). AList.update n \<lparr>mv_name = n, mv_value = v, mv_type = Gauge, mv_unit = '''', mv_labels = [], mv_updated = now\<rparr>)
        ms (co_metrics c) in
      \<lparr>co_metrics = cur, co_history = keep_last 1000 (co_history c @ [\<lparr>sn_time = now, sn_metrics = map (apsnd mv_value) cur\<rparr>])\<rparr>)"

definition stats_metrics :: "storage_stats \<Rightarrow> (string \<times> f64) list" where
  "stats_metrics s =
     [(''storage_total_keys'', f64_of_nat (st_keys s)),
      (''storage_total_size_bytes'', f64_of_nat (st_bytes s)),
      (''storage_cache_hit_rate'', f64_mul (km_hit_rate (kc_block (st_cache s))) (Fin 100)),
      (''storage_cache_utilization'', utilization (kc_block (st_cache s))),
      (''storage_memory_usage_bytes'', f64_of_nat (ku_total (st_memory s))),
      (''storage_memory_utilization_percent'', ku_percent (st_memory s)),
      (''storage_read_ops_per_second'', ki_ops_per_sec (ks_read (st_io s))),
      (''storage_write_ops_per_second'', ki_ops_per_sec (ks_write (st_io s))),
      (''storage_read_latency_ms'', ki_avg_ms (ks_read (st_io s))),
      (''storage_write_latency_ms'', ki_avg_ms (ks_write (st_io s))),
      (''storage_health_status'', case kh_overall (st_health s) of Healthy \<Rightarrow> Fin 1 | Degraded \<Rightarrow> Fin 2 | Unhealthy \<Rightarrow> Fin 3),
      (''storage_error_count'', f64_of_nat (kh_errors (st_health s)))]"

definition collect_metrics :: "nat \<Rightarrow> storage_stats \<Rightarrow> collector \<Rightarrow> collector" where
  "collect_metrics now s c = update_metrics now (stats_metrics s) c"

subsection \<open>Health checks\<close>

record check_result =
  hr_name :: string
  hr_status :: health
  hr_message :: string
  hr_duration :: nat
  hr_time :: nat
  hr_details :: "(string \<times> string) list"

record checker =
  hc_results :: "(string \<times> check_result) list"
  hc_history :: "check_result list"

definition checker_new :: checker where "checker_new = \<lparr>hc_results = [], hc_history = []\<rparr>"

definition add_result :: "check_result \<Rightarrow> checker \<Rightarrow> checker" where
  "add_result r h = \<lparr>hc_results = AList.update (hr_name r) r (hc_results h), hc_history = keep_last 1000 (hc_history h @ [r])\<rparr>"

definition check_of :: "nat \<Rightarrow> string \<Rightarrow> bool \<Rightarrow> bool \<Rightarrow> string \<Rightarrow> check_result" where
  "check_of now name bad poor msg =
     \<lparr>hr_name = name, hr_status = (if bad then Unhealthy else if poor then Degraded else Healthy), hr_message = msg,
      hr_duration = 1000000, hr_time = now, hr_details = []\<rparr>"

definition memory_check :: "nat \<Rightarrow> storage_stats \<Rightarrow> check_result" where
  "memory_check now s = (let p = ku_percent (st_memory s) in
     check_of now ''memory_usage'' (f64_lt (Fin 95) p) (f64_lt (Fin 80) p) (''Memory usage: '' @ show_fixed 1 p @ ''%''))"

definition cache_check :: "nat \<Rightarrow> storage_stats \<Rightarrow> check_result" where
  "cache_check now s = (let h = km_hit_rate (kc_block (st_cache s)) in
     check_of now ''cache_performance'' (f64_lt h (Fin (1 / 2))) (f64_lt h (f64_round (7 / 10)))
       (''Cache hit rate: '' @ show_fixed 1 (f64_mul h (Fin 100)) @ ''%''))"

definition error_check :: "nat \<Rightarrow> storage_stats \<Rightarrow> check_result" where
  "error_check now s = (let n = kh_errors (st_health s) in
     check_of now ''error_rate'' (50 < n) (10 < n) (''Error count: '' @ decimal n))"

definition perform_health_checks :: "nat \<Rightarrow> storage_stats \<Rightarrow> checker \<Rightarrow> checker" where
  "perform_health_checks now s h = fold add_result [memory_check now s, cache_check now s, error_check now s] h"

subsection \<open>Alerts\<close>

datatype condition = GreaterThan | LessThan | EqualTo | NotEqualTo | GreaterThanOrEqual | LessThanOrEqual
datatype alert_severity = Info | Warning | CriticalAlert | Emergency
datatype alert_status = Firing | Resolved | Suppressed

fun severity_text :: "alert_severity \<Rightarrow> string" where
  "severity_text Info = ''info''"
| "severity_text Warning = ''warning''"
| "severity_text CriticalAlert = ''critical''"
| "severity_text Emergency = ''emergency''"

fun should_alert :: "condition \<Rightarrow> f64 \<Rightarrow> f64 \<Rightarrow> bool" where
  "should_alert GreaterThan v t = f64_lt t v"
| "should_alert LessThan v t = f64_lt v t"
| "should_alert EqualTo v t = f64_lt (f64_abs (f64_sub v t)) f64_epsilon"
| "should_alert NotEqualTo v t = f64_le f64_epsilon (f64_abs (f64_sub v t))"
| "should_alert GreaterThanOrEqual v t = f64_le t v"
| "should_alert LessThanOrEqual v t = f64_le v t"

fun condition_text :: "condition \<Rightarrow> string" where
  "condition_text GreaterThan = ''is greater than''"
| "condition_text LessThan = ''is less than''"
| "condition_text EqualTo = ''equals''"
| "condition_text NotEqualTo = ''does not equal''"
| "condition_text GreaterThanOrEqual = ''is greater than or equal to''"
| "condition_text LessThanOrEqual = ''is less than or equal to''"

record rule =
  ru_id :: string
  ru_name :: string
  ru_metric :: string
  ru_condition :: condition
  ru_threshold :: f64
  ru_duration :: nat
  ru_severity :: alert_severity
  ru_enabled :: bool
  ru_channels :: "string list"

record alert =
  ar_id :: string
  ar_rule :: string
  ar_name :: string
  ar_message :: string
  ar_severity :: alert_severity
  ar_metric :: string
  ar_value :: f64
  ar_threshold :: f64
  ar_condition :: condition
  ar_triggered :: nat
  ar_resolved :: "nat option"
  ar_status :: alert_status
  ar_metadata :: "(string \<times> string) list"

record alert_mgr =
  aa_alerts :: "(string \<times> alert) list"
  aa_rules :: "rule list"
  aa_channels :: "channel list"
  aa_history :: "alert list"

definition alert_mgr_new :: alert_mgr where
  "alert_mgr_new = \<lparr>aa_alerts = [], aa_rules = [], aa_channels = [], aa_history = []\<rparr>"

definition add_rule :: "rule \<Rightarrow> alert_mgr \<Rightarrow> alert_mgr" where "add_rule r m = m\<lparr>aa_rules := aa_rules m @ [r]\<rparr>"

definition add_notification_channel :: "channel \<Rightarrow> alert_mgr \<Rightarrow> alert_mgr" where
  "add_notification_channel c m = m\<lparr>aa_channels := aa_channels m @ [c]\<rparr>"

definition alert_id :: "rule \<Rightarrow> metric_value \<Rightarrow> string" where
  "alert_id r v = ru_id r @ ''_'' @ decimal (mv_updated v div 1000000000)"

definition alert_of :: "(f64 \<Rightarrow> string) \<Rightarrow> nat \<Rightarrow> rule \<Rightarrow> metric_value \<Rightarrow> alert" where
  "alert_of fmt now r v =
     \<lparr>ar_id = alert_id r v, ar_rule = ru_id r, ar_name = ru_name r,
      ar_message = ru_metric r @ '' '' @ condition_text (ru_condition r) @ '' '' @ fmt (ru_threshold r) @ '' (current: ''
        @ fmt (mv_value v) @ '', threshold: '' @ fmt (ru_threshold r) @ '')'',
      ar_severity = ru_severity r, ar_metric = ru_metric r, ar_value = mv_value v, ar_threshold = ru_threshold r,
      ar_condition = ru_condition r, ar_triggered = now, ar_resolved = None, ar_status = Firing, ar_metadata = []\<rparr>"

text \<open>A notification is a line of the log with its level; \<open>debug\<close> is the debug form of a list of strings.\<close>

definition notification :: "(string list \<Rightarrow> string) \<Rightarrow> alert \<Rightarrow> notification_type \<Rightarrow> string \<times> string" where
  "notification debug a t = (case t of
       LogTo l \<Rightarrow> (if l \<in> {''error'', ''warn'', ''info''} then l else ''debug'', ''ALERT: '' @ ar_message a)
     | Webhook url _ \<Rightarrow> (''debug'', ''Would send webhook alert to '' @ url @ '': '' @ ar_message a)
     | Email smtp rs \<Rightarrow> (''debug'', ''Would send email alert via '' @ smtp @ '' to '' @ debug rs @ '': '' @ ar_message a)
     | Slack _ ch \<Rightarrow> (''debug'', ''Would send Slack alert to #'' @ ch @ '': '' @ ar_message a))"

definition send_notifications :: "(string list \<Rightarrow> string) \<Rightarrow> alert_mgr \<Rightarrow> alert \<Rightarrow> (string \<times> string) list" where
  "send_notifications debug m a = map (\<lambda>c. notification debug a (ch_type c)) (filter ch_enabled (aa_channels m))"

definition evaluate_rule :: "(f64 \<Rightarrow> string) \<Rightarrow> nat \<Rightarrow> (string \<times> metric_value) list \<Rightarrow> rule \<Rightarrow> alert_mgr \<Rightarrow> alert_mgr" where
  "evaluate_rule fmt now ms r m =
     (if \<not> ru_enabled r then m
      else case map_of ms (ru_metric r) of None \<Rightarrow> m
      | Some v \<Rightarrow>
        if should_alert (ru_condition r) (mv_value v) (ru_threshold r) \<and> map_of (aa_alerts m) (alert_id r v) = None
        then m\<lparr>aa_alerts := aa_alerts m @ [(alert_id r v, alert_of fmt now r v)], aa_history := aa_history m @ [alert_of fmt now r v]\<rparr>
        else m)"

definition evaluate_alerts :: "(f64 \<Rightarrow> string) \<Rightarrow> nat \<Rightarrow> (string \<times> metric_value) list \<Rightarrow> alert_mgr \<Rightarrow> alert_mgr" where
  "evaluate_alerts fmt now ms m = fold (evaluate_rule fmt now ms) (aa_rules m) m"

definition get_active_alerts :: "alert_mgr \<Rightarrow> alert list" where
  "get_active_alerts m = filter (\<lambda>a. ar_status a = Firing) (map snd (aa_alerts m))"

subsection \<open>The monitor\<close>

datatype task = MetricsTask | HealthTask | AlertTask

record monitor =
  mn_stats :: storage_stats
  mn_alerts :: alert_mgr
  mn_metrics :: collector
  mn_health :: checker
  mn_config :: monitoring_config
  mn_tasks :: "task list"
  mn_shutdown :: bool

definition monitor_new :: "nat \<Rightarrow> monitoring_config \<Rightarrow> monitor" where
  "monitor_new now c = \<lparr>mn_stats = default_storage_stats now, mn_alerts = alert_mgr_new, mn_metrics = collector_new,
     mn_health = checker_new, mn_config = c, mn_tasks = [], mn_shutdown = False\<rparr>"

definition monitor_start :: "monitor \<Rightarrow> monitor" where
  "monitor_start m = m\<lparr>mn_shutdown := False, mn_tasks := mn_tasks m
     @ (if mg_real_time (mn_config m) then [MetricsTask] else []) @ [HealthTask]
     @ (if mg_alerting (mn_config m) then [AlertTask] else [])\<rparr>"

definition monitor_stop :: "monitor \<Rightarrow> monitor" where
  "monitor_stop m = m\<lparr>mn_shutdown := True, mn_tasks := []\<rparr>"

definition update_stats :: "storage_stats \<Rightarrow> monitor \<Rightarrow> monitor" where "update_stats s m = m\<lparr>mn_stats := s\<rparr>"

definition task_tick :: "(f64 \<Rightarrow> string) \<Rightarrow> nat \<Rightarrow> task \<Rightarrow> monitor \<Rightarrow> monitor" where
  "task_tick fmt now t m = (case t of
       MetricsTask \<Rightarrow> m\<lparr>mn_metrics := collect_metrics now (mn_stats m) (mn_metrics m)\<rparr>
     | HealthTask \<Rightarrow> m\<lparr>mn_health := perform_health_checks now (mn_stats m) (mn_health m)\<rparr>
     | AlertTask \<Rightarrow> m\<lparr>mn_alerts := evaluate_alerts fmt now (co_metrics (mn_metrics m)) (mn_alerts m)\<rparr>)"

text \<open>What can happen to a monitor; a task ticks while it has been started and not told to stop.\<close>

inductive monitor_step :: "(f64 \<Rightarrow> string) \<Rightarrow> monitor \<Rightarrow> monitor \<Rightarrow> bool" for fmt where
  started: "monitor_step fmt m (monitor_start m)"
| stopped: "monitor_step fmt m (monitor_stop m)"
| told: "monitor_step fmt m (update_stats s m)"
| ruled: "monitor_step fmt m (m\<lparr>mn_alerts := add_rule r (mn_alerts m)\<rparr>)"
| connected: "monitor_step fmt m (m\<lparr>mn_alerts := add_notification_channel c (mn_alerts m)\<rparr>)"
| ticked: "t \<in> set (mn_tasks m) \<Longrightarrow> \<not> mn_shutdown m \<Longrightarrow> monitor_step fmt m (task_tick fmt now t m)"

inductive monitor_run :: "(f64 \<Rightarrow> string) \<Rightarrow> monitor \<Rightarrow> monitor \<Rightarrow> bool" for fmt where
  run_refl: "monitor_run fmt m m"
| run_step: "monitor_run fmt m m' \<Longrightarrow> monitor_step fmt m' m'' \<Longrightarrow> monitor_run fmt m m''"

declare monitor_step.intros [intro] monitor_run.intros [intro]

inductive_cases monitor_stepE: "monitor_step fmt m m'"

subsection \<open>What holds of every run\<close>

definition alerts_ok :: "alert_mgr \<Rightarrow> bool" where
  "alerts_ok m \<longleftrightarrow> map snd (aa_alerts m) = aa_history m \<and> distinct (map fst (aa_alerts m))
     \<and> list_all (\<lambda>(i, a). i = ar_id a \<and> ar_status a = Firing \<and> ar_resolved a = None
          \<and> should_alert (ar_condition a) (ar_value a) (ar_threshold a)) (aa_alerts m)"

definition monitor_ok :: "monitor \<Rightarrow> bool" where
  "monitor_ok m \<longleftrightarrow> alerts_ok (mn_alerts m) \<and> length (co_history (mn_metrics m)) \<le> 1000
     \<and> length (hc_history (mn_health m)) \<le> 1000 \<and> distinct (map fst (co_metrics (mn_metrics m)))
     \<and> distinct (map fst (hc_results (mn_health m)))"

lemma keep_last_length [simp]: "length (keep_last n xs) \<le> n"
  by (simp add: keep_last_def)

lemma evaluate_rule_rules [simp]: "aa_rules (evaluate_rule fmt now ms r m) = aa_rules m"
  by (auto simp: evaluate_rule_def split: option.splits)

lemma evaluate_rule_ok: "alerts_ok m \<Longrightarrow> alerts_ok (evaluate_rule fmt now ms r m)"
  by (auto simp: alerts_ok_def evaluate_rule_def alert_of_def map_of_eq_None_iff split: option.splits)

lemma evaluate_rule_keeps: "i \<in> fst ` set (aa_alerts m) \<Longrightarrow> i \<in> fst ` set (aa_alerts (evaluate_rule fmt now ms r m))"
  by (auto simp: evaluate_rule_def split: option.splits)

lemma evaluate_rule_fires:
  assumes "ru_enabled r" and "map_of ms (ru_metric r) = Some v" and "should_alert (ru_condition r) (mv_value v) (ru_threshold r)"
  shows "alert_id r v \<in> fst ` set (aa_alerts (evaluate_rule fmt now ms r m))"
  using assms by (auto simp: evaluate_rule_def map_of_eq_None_iff split: option.splits)

lemma fold_evaluate_keeps:
  "i \<in> fst ` set (aa_alerts m) \<Longrightarrow> i \<in> fst ` set (aa_alerts (fold (evaluate_rule fmt now ms) rs m))"
  by (induction rs arbitrary: m) (auto intro: evaluate_rule_keeps)

lemma fold_evaluate_ok: "alerts_ok m \<Longrightarrow> alerts_ok (fold (evaluate_rule fmt now ms) rs m)"
  by (induction rs arbitrary: m) (auto intro: evaluate_rule_ok)

lemma fold_evaluate_fires:
  assumes "r \<in> set rs" and "ru_enabled r" and "map_of ms (ru_metric r) = Some v"
    and "should_alert (ru_condition r) (mv_value v) (ru_threshold r)"
  shows "alert_id r v \<in> fst ` set (aa_alerts (fold (evaluate_rule fmt now ms) rs m))"
  using assms
proof (induction rs arbitrary: m)
  case (Cons q rs)
  then show ?case
    using fold_evaluate_keeps [OF evaluate_rule_fires [OF Cons.prems(2-4)]] by (cases "q = r") auto
qed simp

lemma update_distinct: "distinct (map fst al) \<Longrightarrow> distinct (map fst (fold (\<lambda>(n, v). AList.update n (f n v)) ms al))"
  by (induction ms arbitrary: al) (auto intro: distinct_update)

lemma task_tick_ok: "monitor_ok m \<Longrightarrow> monitor_ok (task_tick fmt now t m)"
  by (cases t) (simp_all add: monitor_ok_def task_tick_def evaluate_alerts_def fold_evaluate_ok collect_metrics_def update_metrics_def
      Let_def update_distinct perform_health_checks_def add_result_def distinct_update)

lemma monitor_step_ok: "monitor_step fmt m m' \<Longrightarrow> monitor_ok m \<Longrightarrow> monitor_ok m'"
  by (induction rule: monitor_step.induct)
     (auto simp: task_tick_ok, auto simp: monitor_ok_def monitor_start_def monitor_stop_def update_stats_def add_rule_def
        add_notification_channel_def alerts_ok_def)

lemma monitor_run_ok: "monitor_run fmt m m' \<Longrightarrow> monitor_ok m \<Longrightarrow> monitor_ok m'"
  by (induction rule: monitor_run.induct) (auto intro: monitor_step_ok)

lemma monitor_new_ok: "monitor_ok (monitor_new now c)"
  by (simp add: monitor_ok_def monitor_new_def alerts_ok_def alert_mgr_new_def collector_new_def checker_new_def)

lemma alerts_okD:
  assumes "alerts_ok m"
  shows "aa_history m = map snd (aa_alerts m)" and "distinct (map fst (aa_alerts m))"
    and "p \<in> set (aa_alerts m) \<Longrightarrow> fst p = ar_id (snd p) \<and> ar_status (snd p) = Firing
      \<and> should_alert (ar_condition (snd p)) (ar_value (snd p)) (ar_threshold (snd p))"
  using assms by (auto simp: alerts_ok_def list_all_iff split_beta)

lemma active_all: "alerts_ok m \<Longrightarrow> get_active_alerts m = aa_history m"
  by (simp add: get_active_alerts_def alerts_okD(1) filter_map o_def alerts_okD(3) cong: filter_cong)

lemma history_ids: "alerts_ok m \<Longrightarrow> map ar_id (aa_history m) = map fst (aa_alerts m)"
  by (simp add: alerts_okD)


text \<open>A rule on the count of errors fires twice for one condition, once per second in which the metrics were taken.\<close>

definition error_rule :: rule where
  "error_rule = \<lparr>ru_id = ''e'', ru_name = ''errors'', ru_metric = ''storage_error_count'', ru_condition = GreaterThan,
     ru_threshold = Fin 0, ru_duration = 60000000000, ru_severity = Warning, ru_enabled = True, ru_channels = []\<rparr>"

definition failing :: storage_stats where
  "failing = (default_storage_stats 0)\<lparr>st_health := default_health_stats\<lparr>kh_errors := 3\<rparr>\<rparr>"

definition watched :: monitor where
  "watched = task_tick (\<lambda>_. []) 5000000000 MetricsTask (update_stats failing ((\<lambda>m. m\<lparr>mn_alerts := add_rule error_rule (mn_alerts m)\<rparr>)
     (monitor_start (monitor_new 0 default_monitoring_config))))"

lemma watched_reached: "monitor_run fmt (monitor_new 0 default_monitoring_config) watched"
proof -
  define m0 where "m0 = monitor_new 0 default_monitoring_config"
  define m1 where "m1 = monitor_start m0"
  define m2 where "m2 = m1\<lparr>mn_alerts := add_rule error_rule (mn_alerts m1)\<rparr>"
  define m3 where "m3 = update_stats failing m2"
  have "monitor_run fmt m0 m1" unfolding m1_def by (rule run_step [OF run_refl started])
  from run_step [OF this ruled] have "monitor_run fmt m0 m2" unfolding m2_def .
  from run_step [OF this told] have "monitor_run fmt m0 m3" unfolding m3_def .
  moreover have "MetricsTask \<in> set (mn_tasks m3)" "\<not> mn_shutdown m3"
    by (simp_all add: m3_def m2_def m1_def m0_def update_stats_def monitor_start_def monitor_new_def default_monitoring_config_def)
  ultimately have "monitor_run fmt m0 (task_tick fmt 5000000000 MetricsTask m3)" by (rule run_step [OF _ ticked])
  then show ?thesis by (simp add: watched_def m3_def m2_def m1_def m0_def task_tick_def)
qed

definition watched_value :: metric_value where
  "watched_value = \<lparr>mv_name = ''storage_error_count'', mv_value = f64_of_nat 3, mv_type = Gauge, mv_unit = '''', mv_labels = [],
     mv_updated = 5000000000\<rparr>"


end
