(* ===== verification/Engine_Stats.thy ===== *)
theory Engine_Stats
  imports Engine_Safety Stats Block_Cache
begin

text \<open>
  What the engine tells about itself: the counters of \<open>crates/f4kvs-lsm/src/utils/stats.rs\<close>, the metrics of
  \<open>core/metrics.rs\<close> and of the block cache, and the functions of \<open>core/engine.rs\<close> that fill them in.  A map of levels is
  given by the list \<open>ls\<close> of the levels it has, in the order of the iteration.
\<close>

subsection \<open>Counters\<close>

text \<open>\<open>LsmStats\<close>: what the operations count is \<open>ls_counts\<close>; nothing counts the bytes read.\<close>

record lsm_stats =
  ls_counts :: estats
  ls_reads :: u64
  ls_memtable_hits :: u64
  ls_sstable_hits :: u64
  ls_misses :: u64
  ls_bytes_read :: u64

definition no_lsm_stats :: lsm_stats where
  "no_lsm_stats = \<lparr>ls_counts = no_estats, ls_reads = 0, ls_memtable_hits = 0, ls_sstable_hits = 0, ls_misses = 0, ls_bytes_read = 0\<rparr>"

definition apply_read_stats :: "('n, 'w) engine \<Rightarrow> lsm_stats \<Rightarrow> lsm_stats" where
  "apply_read_stats e s =
     s\<lparr>ls_reads := rd_total (eg_reads e), ls_memtable_hits := rd_memtable (eg_reads e), ls_sstable_hits := rd_sstable (eg_reads e),
       ls_misses := rd_miss (eg_reads e)\<rparr>"

definition reset_read_stats :: "('n, 'w) engine \<Rightarrow> ('n, 'w) engine" where
  "reset_read_stats e = e\<lparr>eg_reads := no_reads\<rparr>"

definition lsm_stats_of :: "('n, 'w) engine \<Rightarrow> lsm_stats" where
  "lsm_stats_of e = apply_read_stats e (no_lsm_stats\<lparr>ls_counts := eg_stats e\<rparr>)"

definition total_operations :: "lsm_stats \<Rightarrow> u64" where
  "total_operations s = ls_reads s + es_writes (ls_counts s) + es_deletes (ls_counts s)"

definition f64_of_word :: "u64 \<Rightarrow> f64" where "f64_of_word w = f64_of_nat (unat w)"

definition ls_hit_rate :: "lsm_stats \<Rightarrow> f64" where
  "ls_hit_rate s =
     (let hits = ls_memtable_hits s + ls_sstable_hits s; requests = hits + ls_misses s in
      if requests = 0 then Fin 0 else f64_div (f64_of_word hits) (f64_of_word requests))"

definition memtable_hit_rate :: "lsm_stats \<Rightarrow> f64" where
  "memtable_hit_rate s =
     (let hits = ls_memtable_hits s + ls_sstable_hits s in
      if hits = 0 then Fin 0 else f64_div (f64_of_word (ls_memtable_hits s)) (f64_of_word hits))"

definition average_read_size :: "lsm_stats \<Rightarrow> f64" where
  "average_read_size s = (if ls_reads s = 0 then Fin 0 else f64_div (f64_of_word (ls_bytes_read s)) (f64_of_word (ls_reads s)))"

definition average_write_size :: "lsm_stats \<Rightarrow> f64" where
  "average_write_size s = (if es_writes (ls_counts s) = 0 then Fin 0
     else f64_div (f64_of_word (es_bytes (ls_counts s))) (f64_of_word (es_writes (ls_counts s))))"

subsection \<open>The block cache\<close>

record cache_snapshot =
  cs_current :: nat
  cs_max :: nat
  cs_blocks :: nat
  cs_hit_rate :: f64

definition bc_hit_rate :: "'k cache \<Rightarrow> f64" where
  "bc_hit_rate c = (if bc_hits c + bc_misses c = 0 then Fin 0
     else f64_div (f64_of_nat (bc_hits c)) (f64_of_nat (bc_hits c + bc_misses c)))"

definition bc_stats :: "'k cache \<Rightarrow> cache_snapshot" where
  "bc_stats c = \<lparr>cs_current = bc_size c, cs_max = bc_max c, cs_blocks = length (bc_blocks c), cs_hit_rate = bc_hit_rate c\<rparr>"

definition bc_metrics :: "'k cache \<Rightarrow> cache_metrics" where
  "bc_metrics c = \<lparr>km_capacity = bc_max c, km_usage = bc_size c, km_hits = bc_hits c, km_misses = bc_misses c,
     km_hit_rate = bc_hit_rate c, km_evictions = bc_evictions c\<rparr>"

subsection \<open>Levels and memtables\<close>

record level_metrics =
  lm_level :: nat
  lm_count :: nat
  lm_bytes :: nat
  lm_avg_bytes :: nat
  lm_smallest :: "key option"
  lm_largest :: "key option"

definition table_bytes :: "'n table list \<Rightarrow> nat" where "table_bytes ts = sum_list (map tb_size ts)"

definition level_metrics_of :: "nat \<Rightarrow> 'n table list \<Rightarrow> level_metrics" where
  "level_metrics_of l ts =
     \<lparr>lm_level = l, lm_count = length ts, lm_bytes = table_bytes ts,
      lm_avg_bytes = (if ts = [] then 0 else table_bytes ts div length ts),
      lm_smallest = (if ts = [] then None else Some (fold min (map tb_smallest (tl ts)) (tb_smallest (hd ts)))),
      lm_largest = (if ts = [] then None else Some (fold max (map tb_largest (tl ts)) (tb_largest (hd ts))))\<rparr>"

definition update_level_metrics :: "'n ecfg \<Rightarrow> ('n, 'w) engine \<Rightarrow> level_metrics list" where
  "update_level_metrics E e = map (\<lambda>l. level_metrics_of l (eg_levels e l)) [0 ..< cc_levels (ec_C E)]"

record memtable_metrics =
  mm_active_size :: nat
  mm_active_entries :: nat
  mm_immutable_count :: nat
  mm_immutable_size :: nat

definition update_memtable_metrics :: "('n, 'w) engine \<Rightarrow> memtable_metrics" where
  "update_memtable_metrics e =
     \<lparr>mm_active_size = mt_size (eg_active e), mm_active_entries = mt_count (eg_active e), mm_immutable_count = length (eg_imm e),
      mm_immutable_size = sum_list (map mt_size (eg_imm e))\<rparr>"

subsection \<open>Performance and advice\<close>

record level_size =
  lz_level :: nat
  lz_files :: nat
  lz_bytes :: nat
  lz_avg_bytes :: nat

record performance =
  pf_operations :: u64
  pf_reads :: u64
  pf_writes :: u64
  pf_deletes :: u64
  pf_tables :: nat
  pf_bytes :: nat
  pf_memtable_entries :: u64
  pf_immutable :: nat
  pf_levels :: "level_size list"
  pf_read_ms :: f64
  pf_write_ms :: f64
  pf_compactions :: u64

definition level_size_of :: "nat \<Rightarrow> 'n table list \<Rightarrow> level_size" where
  "level_size_of l ts = \<lparr>lz_level = l, lz_files = length ts, lz_bytes = table_bytes ts,
     lz_avg_bytes = (if ts = [] then 0 else table_bytes ts div length ts)\<rparr>"

text \<open>The counters inside \<open>stats\<close> have no reads: those are counted beside it and added here.\<close>

definition get_lsm_performance_metrics :: "nat list \<Rightarrow> ('n, 'w) engine \<Rightarrow> performance" where
  "get_lsm_performance_metrics ls e =
     \<lparr>pf_operations = total_operations (no_lsm_stats\<lparr>ls_counts := eg_stats e\<rparr>) + rd_total (eg_reads e),
      pf_reads = rd_total (eg_reads e), pf_writes = es_writes (eg_stats e), pf_deletes = es_deletes (eg_stats e),
      pf_tables = sum_list (map (\<lambda>l. length (eg_levels e l)) ls), pf_bytes = sum_list (map (\<lambda>l. table_bytes (eg_levels e l)) ls),
      pf_memtable_entries = rd_memtable (eg_reads e), pf_immutable = 0,
      pf_levels = map (\<lambda>l. level_size_of l (eg_levels e l)) ls, pf_read_ms = Fin 0, pf_write_ms = Fin 0,
      pf_compactions = es_compactions (eg_stats e)\<rparr>"

datatype advice_priority = LowAdvice | MediumAdvice | HighAdvice | CriticalAdvice

record advice =
  av_category :: string
  av_priority :: advice_priority
  av_title :: string
  av_description :: string
  av_action :: string

definition l0_advice :: "nat \<Rightarrow> advice list" where
  "l0_advice n =
     (if 4 < n then [\<lparr>av_category = ''Compaction'', av_priority = HighAdvice, av_title = ''Too many L0 files'',
        av_description = ''L0 has '' @ decimal n @ '' files, consider running compaction'',
        av_action = ''Run manual compaction to reduce L0 file count''\<rparr>] else [])"

definition table_advice :: "nat \<Rightarrow> 'n table \<Rightarrow> advice list" where
  "table_advice l t =
     (if 64 * 1024 * 1024 < tb_size t then [\<lparr>av_category = ''File Size'', av_priority = MediumAdvice,
        av_title = ''Large SSTable file detected'',
        av_description = ''SSTable at level '' @ decimal l @ '' is '' @ decimal (tb_size t div (1024 * 1024)) @ ''MB'',
        av_action = ''Consider splitting large SSTables for better performance''\<rparr>] else [])"

definition latency_advice :: "performance \<Rightarrow> advice list" where
  "latency_advice p =
     (if f64_lt (Fin 100) (pf_read_ms p) then [\<lparr>av_category = ''Performance'', av_priority = HighAdvice,
        av_title = ''High read latency detected'', av_description = ''Average read latency is '' @ show_fixed 2 (pf_read_ms p) @ ''ms'',
        av_action = ''Consider adding bloom filters or optimizing compaction strategy''\<rparr>] else [])
     @ (if f64_lt (Fin 50) (pf_write_ms p) then [\<lparr>av_category = ''Performance'', av_priority = MediumAdvice,
        av_title = ''High write latency detected'', av_description = ''Average write latency is '' @ show_fixed 2 (pf_write_ms p) @ ''ms'',
        av_action = ''Consider increasing memtable size or optimizing WAL settings''\<rparr>] else [])"

definition compaction_advice :: "performance \<Rightarrow> advice list" where
  "compaction_advice p =
     (if pf_compactions p = 0 \<and> 1000 < pf_operations p then [\<lparr>av_category = ''Compaction'', av_priority = LowAdvice,
        av_title = ''No compaction performed'',
        av_description = ''Storage has many operations but no compaction has been performed'',
        av_action = ''Consider running manual compaction to optimize storage layout''\<rparr>] else [])"

definition get_optimization_recommendations :: "nat list \<Rightarrow> ('n, 'w) engine \<Rightarrow> advice list" where
  "get_optimization_recommendations ls e =
     (let p = get_lsm_performance_metrics ls e in
      (if 0 \<in> set ls then l0_advice (length (eg_levels e 0)) else [])
      @ concat (map (\<lambda>l. concat (map (table_advice l) (eg_levels e l))) ls)
      @ latency_advice p @ compaction_advice p)"

subsection \<open>The statistics of the interface\<close>

definition eng_stats :: "nat \<Rightarrow> 'k cache \<Rightarrow> ('n, 'w) engine \<Rightarrow> storage_stats" where
  "eng_stats now c e =
     (default_storage_stats now)\<lparr>st_keys := unat (eg_live e), st_bytes := unat (es_bytes (eg_stats e)),
        st_cache := default_cache_stats\<lparr>kc_block := bc_metrics c\<rparr>,
        st_memory := default_memory_stats\<lparr>ku_block_cache := bc_size c\<rparr>\<rparr>"

subsection \<open>What holds\<close>

text \<open>Every read is a hit or a miss.\<close>

definition reads_add_up :: "('n, 'w) engine \<Rightarrow> bool" where
  "reads_add_up e \<longleftrightarrow> rd_total (eg_reads e) = rd_memtable (eg_reads e) + rd_sstable (eg_reads e) + rd_miss (eg_reads e)"

lemma note_get_adds_up: "reads_add_up e \<Longrightarrow> reads_add_up (note_get k e)"
  by (cases k) (simp_all add: reads_add_up_def note_get_def Let_def)

lemma get_adds_up: "reads_add_up e \<Longrightarrow> reads_add_up (snd (eng_get E k e))" "reads_add_up e \<Longrightarrow> reads_add_up (snd (try_get_sync E held k e))"
  by (auto simp: eng_get_def try_get_sync_def note_get_adds_up split: lookup_result.splits option.splits sum.splits)

lemma fresh_adds_up: "reads_add_up (create_engine_structure E d s w)" "reads_add_up (reset_read_stats e)"
  by (simp_all add: reads_add_up_def create_engine_structure_def reset_read_stats_def no_reads_def)

lemma fold_min_le: "fold min xs y \<le> y \<and> (\<forall>x \<in> set xs. fold min xs y \<le> x)" for y :: "'a :: linorder"
proof (induction xs arbitrary: y)
  case (Cons a xs)
  from Cons [of "min a y"] show ?case by simp
qed simp

lemma fold_max_ge: "y \<le> fold max xs y \<and> (\<forall>x \<in> set xs. x \<le> fold max xs y)" for y :: "'a :: linorder"
proof (induction xs arbitrary: y)
  case (Cons a xs)
  from Cons [of "max a y"] show ?case by simp
qed simp

lemma table_bytes_none [simp]: "table_bytes [] = 0"
  by (simp add: table_bytes_def)

lemma level_metrics_range:
  assumes "t \<in> set ts"
  shows "\<exists>lo hi. lm_smallest (level_metrics_of l ts) = Some lo \<and> lm_largest (level_metrics_of l ts) = Some hi
    \<and> lo \<le> tb_smallest t \<and> tb_largest t \<le> hi"
proof -
  obtain u us where ts: "ts = u # us" using assms by (cases ts) auto
  show ?thesis
    using assms fold_min_le [of "map tb_smallest us" "tb_smallest u"] fold_max_ge [of "tb_largest u" "map tb_largest us"]
    by (auto simp: level_metrics_of_def ts)
qed

lemma sum_over_levels:
  fixes f :: "nat \<Rightarrow> nat"
  assumes "distinct ls" and "\<And>l. f l \<noteq> 0 \<Longrightarrow> l \<in> set ls" and "\<And>l. n \<le> l \<Longrightarrow> f l = 0"
  shows "sum_list (map f ls) = (\<Sum>l < n. f l)"
proof -
  have "sum_list (map f ls) = sum f (set ls)" using assms(1) by (rule sum_list_distinct_conv_sum_set)
  also have "\<dots> = sum f (set ls \<inter> {..< n})"
  proof (rule sum.mono_neutral_right)
    show "\<forall>i \<in> set ls - set ls \<inter> {..< n}. f i = 0"
    proof
      fix i assume "i \<in> set ls - set ls \<inter> {..< n}"
      then have "n \<le> i" by (cases "i < n") auto
      then show "f i = 0" by (rule assms(3))
    qed
  qed auto
  also have "\<dots> = sum f {..< n}" using assms(2) by (intro sum.mono_neutral_left) auto
  finally show ?thesis .
qed

text \<open>
  on well-formed levels the metrics of a level give the number of its tables and a range that holds every key
  of the level, and the totals are those of all levels, in whatever order the map of levels is walked.
\<close>

theorem level_metrics_correct:
  assumes "levels_ok (ec_S E) (eg_levels e)" and "l < cc_levels (ec_C E)"
    and "distinct ls" and "\<And>l. eg_levels e l \<noteq> [] \<Longrightarrow> l \<in> set ls \<and> l < cc_levels (ec_C E)"
  shows "lm_count (update_level_metrics E e ! l) = length (eg_levels e l)
    \<and> (\<forall>t \<in> set (eg_levels e l). \<forall>x \<in> set (tb_entries t). \<exists>lo hi. lm_smallest (update_level_metrics E e ! l) = Some lo
         \<and> lm_largest (update_level_metrics E e ! l) = Some hi \<and> lo \<le> en_key x \<and> en_key x \<le> hi)
    \<and> pf_tables (get_lsm_performance_metrics ls e) = (\<Sum>l < cc_levels (ec_C E). lm_count (update_level_metrics E e ! l))
    \<and> pf_bytes (get_lsm_performance_metrics ls e) = (\<Sum>l < cc_levels (ec_C E). lm_bytes (update_level_metrics E e ! l))"
proof -
  have nth: "i < cc_levels (ec_C E) \<Longrightarrow> update_level_metrics E e ! i = level_metrics_of i (eg_levels e i)" for i
    by (simp add: update_level_metrics_def)
  have none: "eg_levels e i = []" if "cc_levels (ec_C E) \<le> i" for i using assms(4) [of i] that by auto
  have "pf_tables (get_lsm_performance_metrics ls e) = (\<Sum>l < cc_levels (ec_C E). length (eg_levels e l))"
    unfolding get_lsm_performance_metrics_def performance.simps using assms(3)
    by (rule sum_over_levels) (use assms(4) none in fastforce)+
  moreover have "pf_bytes (get_lsm_performance_metrics ls e) = (\<Sum>l < cc_levels (ec_C E). table_bytes (eg_levels e l))"
    unfolding get_lsm_performance_metrics_def performance.simps using assms(3)
    by (rule sum_over_levels) (use assms(4) none table_bytes_none in metis)+
  moreover have "\<exists>lo hi. lm_smallest (level_metrics_of l (eg_levels e l)) = Some lo
      \<and> lm_largest (level_metrics_of l (eg_levels e l)) = Some hi \<and> lo \<le> en_key x \<and> en_key x \<le> hi"
    if t: "t \<in> set (eg_levels e l)" and x: "x \<in> set (tb_entries t)" for t x
  proof -
    have "table_ok (ec_S E) t" using assms(1) t by (auto simp: levels_ok_def)
    from table_range [OF this x] level_metrics_range [OF t, of l] show ?thesis by (meson order_trans)
  qed
  ultimately show ?thesis using assms(2) by (simp add: nth) (simp add: level_metrics_of_def)
qed

theorem level_metrics_correct_witness:
  "let e = (create_engine_structure toy_ecfg \<lparr>cs_disk = (\<lambda>_. None), cs_next = 0, cs_stats = no_stats\<rparr> 0 ())
       \<lparr>eg_levels := (\<lambda>_. [])(1 := [toy_table 0 [toy_ver 1 1 False, toy_ver 4 2 False], toy_table 1 [toy_ver 6 3 False]])\<rparr> in
     lm_count (update_level_metrics toy_ecfg e ! 1) = 2
     \<and> pf_tables (get_lsm_performance_metrics [1, 0] e) = 2 \<and> pf_bytes (get_lsm_performance_metrics [1, 0] e) = 3"
proof -
  let ?e = "(create_engine_structure toy_ecfg \<lparr>cs_disk = (\<lambda>_. None), cs_next = 0, cs_stats = no_stats\<rparr> 0 ())
       \<lparr>eg_levels := (\<lambda>_. [])(1 := [toy_table 0 [toy_ver 1 1 False, toy_ver 4 2 False], toy_table 1 [toy_ver 6 3 False]])\<rparr>"
  have l: "eg_levels ?e = (\<lambda>_. [])(1 := [toy_table 0 [toy_ver 1 1 False, toy_ver 4 2 False], toy_table 1 [toy_ver 6 3 False]])" by simp
  have n: "cc_levels (ec_C toy_ecfg) = 4" by (simp add: toy_cfg_def)
  have "levels_ok (ec_S toy_ecfg) (eg_levels ?e)"
    by (auto simp: l levels_ok_def disjoint_level_def toy_ver_def sorted_entries_def intro!: toy_table_ok)
  moreover have "1 < cc_levels (ec_C toy_ecfg)" "distinct [1, 0 :: nat]" by (simp_all add: n toy_cfg_def)
  moreover have "i \<in> set [1, 0] \<and> i < cc_levels (ec_C toy_ecfg)" if "eg_levels ?e i \<noteq> []" for i
    using that by (simp add: l n toy_cfg_def split: if_splits)
  ultimately have "lm_count (update_level_metrics toy_ecfg ?e ! 1) = length (eg_levels ?e 1)"
    using level_metrics_correct [of toy_ecfg ?e 1 "[1, 0]"] by blast
  then show ?thesis
    unfolding Let_def get_lsm_performance_metrics_def performance.simps by (simp add: l table_bytes_def)
qed

end
