(* ===== verification/Engine_Families.thy ===== *)
theory Engine_Families
  imports Engine_Safety
begin

text \<open>
  Column families (\<open>core/engine.rs\<close>, the operations \<open>*_cf\<close>): the engine keeps the names of the families in
  memory and stores a key of a family as the name, the byte \<open>#\<close> and the key.  Runs of commands on families
  refine one map per family, next to the map of the plain keys, as long as no name holds that byte.
\<close>

subsection \<open>Keys of families\<close>

definition plain_name :: "bytes \<Rightarrow> bool" where
  "plain_name b \<longleftrightarrow> 35 \<notin> set b"

lemma cf_key_inj: "plain_name a \<Longrightarrow> plain_name b \<Longrightarrow> cf_key a k = cf_key b l \<longleftrightarrow> a = b \<and> k = l"
  by (auto simp: cf_key_def plain_name_def append_eq_append_conv2 Cons_eq_append_conv append_eq_Cons_conv)

lemma cf_key_not_plain [simp]: "\<not> plain_name (cf_key cf k)"
  by (simp add: cf_key_def plain_name_def)

lemma cf_key_neq: "plain_name l \<Longrightarrow> cf_key cf k \<noteq> l"
  by (metis cf_key_not_plain)

text \<open>A name with the byte in it reaches into another family.\<close>

lemma family_names_collide: "cf_key a (b @ 35 # k) = cf_key (a @ 35 # b) k"
  by (simp add: cf_key_def)

lemma family_reads_another:
  assumes "cf_known a e" and "cf_known (a @ 35 # b) e"
  shows "get_cf E (a @ 35 # b) k e = get_cf E a (b @ 35 # k) e"
  using assms by (simp add: get_cf_def with_cf_def family_names_collide)

subsection \<open>The names of the families in the operations\<close>

lemma and_then_keeps: "P (snd r) \<Longrightarrow> (\<And>x s. P s \<Longrightarrow> P (snd (f x s))) \<Longrightarrow> P (snd (and_then r f))"
  by (cases r; cases "fst r") auto

lemma cfs_counters [simp]:
  "eg_cfs (adjust_live_key_count d e) = eg_cfs e" "eg_cfs (set_total_keys e) = eg_cfs e"
  "eg_cfs (count_writes n b e) = eg_cfs e" "eg_cfs (count_delete e) = eg_cfs e"
  "eg_cfs (refresh_live_key_count E order e) = eg_cfs e"
  by (simp_all add: adjust_live_key_count_def set_total_keys_def count_writes_def count_delete_def
      refresh_live_key_count_def Let_def)

lemma cfs_key_count [simp]: "eg_cfs (apply_put_key_count E k eff e) = eg_cfs e"
  by (simp add: apply_put_key_count_def Let_def)

lemma cfs_key_counts [simp]: "eg_cfs (batch_apply_put_key_counts E effs e) = eg_cfs e"
proof -
  have "eg_cfs (fold (\<lambda>(k, eff) e. apply_put_key_count E k eff e) effs e) = eg_cfs e"
    by (induction effs arbitrary: e) auto
  then show ?thesis by (simp add: batch_apply_put_key_counts_def Let_def)
qed

lemma cfs_wal [simp]: "eg_cfs (snd (on_wal e f)) = eg_cfs e" "eg_cfs (snd (if_wal E e f)) = eg_cfs e"
  by (simp_all add: on_wal_def if_wal_def split: prod.split)

lemma cfs_compact [simp]: "eg_cfs (snd (eng_compact_if_needed E e)) = eg_cfs e"
  by (auto simp: eng_compact_if_needed_def split: prod.split sum.split)

lemma cfs_write [simp]: "eg_cfs (snd (flush_memtable_entries_to_sstable E es e)) = eg_cfs e"
  by (auto simp: flush_memtable_entries_to_sstable_def persist_sequence_high_water_def Let_def split: prod.split sum.split)

lemma cfs_flush_internal [simp]: "eg_cfs (snd (flush_memtable_internal E e)) = eg_cfs e"
proof -
  have "eg_cfs (snd (flush_begin E e)) = eg_cfs e" by (simp add: flush_begin_def Let_def)
  moreover have "eg_cfs (flush_end i e') = eg_cfs e'" for i and e' :: "('a, 'b) engine" by (simp add: flush_end_def Let_def)
  moreover have "eg_cfs (snd (flush_write E i e')) = eg_cfs e'" for i and e' :: "('a, 'b) engine" by (simp add: flush_write_def)
  ultimately show ?thesis
    by (auto simp: flush_memtable_internal_def split: prod.split option.split intro!: and_then_keeps [of "\<lambda>x. eg_cfs x = eg_cfs e"])
qed

lemma cfs_flush [simp]: "eg_cfs (snd (flush_memtable E e)) = eg_cfs e" "eg_cfs (snd (check_memtable_flush E e)) = eg_cfs e"
proof -
  show f: "eg_cfs (snd (flush_memtable E e)) = eg_cfs e" for e :: "('a, 'b) engine"
    unfolding flush_memtable_def by (rule and_then_keeps [of "\<lambda>x. eg_cfs x = eg_cfs e"]) simp_all
  show "eg_cfs (snd (check_memtable_flush E e)) = eg_cfs e" by (simp add: check_memtable_flush_def f)
qed

lemma cfs_put_memtable [simp]: "eg_cfs (snd (put_memtable E k v e)) = eg_cfs e"
  by (simp add: put_memtable_def Let_def split: prod.split)

lemma cfs_put_all [simp]: "eg_cfs (snd (put_all E kvs e)) = eg_cfs e"
proof (induction kvs arbitrary: e)
  case (Cons x kvs)
  obtain k v where x: "x = (k, v)" by (cases x)
  obtain eff e1 where p: "put_memtable E k v e = (eff, e1)" by (cases "put_memtable E k v e")
  have "eg_cfs e1 = eg_cfs e" using cfs_put_memtable [of E k v e] by (simp add: p)
  then show ?case using Cons.IH [of e1] by (cases "put_all E kvs e1") (simp add: x p)
qed simp

lemma snd_converted [simp]: "snd (converted r) = snd r"
  by (simp add: converted_def)

lemma cfs_put [simp]: "eg_cfs (snd (eng_put E lg now k v e)) = eg_cfs e"
  unfolding eng_put_def put_core_def
  by (auto simp: Let_def split: prod.splits intro!: and_then_keeps [of "\<lambda>x. eg_cfs x = eg_cfs e"])
    (metis cfs_put_memtable snd_conv)

lemma cfs_delete [simp]: "eg_cfs (snd (eng_delete E lg now k e)) = eg_cfs e"
  unfolding eng_delete_def
  by (auto simp: Let_def intro!: and_then_keeps [of "\<lambda>x. eg_cfs x = eg_cfs e"])

lemma cfs_batch [simp]: "eg_cfs (snd (eng_batch_put E lg now kvs e)) = eg_cfs e"
  unfolding eng_batch_put_def
  by (auto simp: Let_def split: prod.splits intro!: and_then_keeps [of "\<lambda>x. eg_cfs x = eg_cfs e"])
    (metis cfs_put_all snd_conv)

lemma cfs_deletes [simp]: "eg_cfs (snd (eng_batch_delete E lg now ks e)) = eg_cfs e"
proof (induction E lg now ks e rule: eng_batch_delete.induct)
  case (2 E lg now k ks e)
  obtain r e1 where d: "eng_delete E lg now k e = (r, e1)" by (cases "eng_delete E lg now k e")
  have "eg_cfs e1 = eg_cfs e" using cfs_delete [of E lg now k e] by (simp add: d)
  with 2 d show ?case by (cases r) simp_all
qed simp

lemma cfs_engine_flush [simp]: "eg_cfs (snd (eng_flush E lg now e)) = eg_cfs e"
proof -
  let ?r = "and_then (if_wal E e (w_flush lg now)) (\<lambda>_ e.
          and_then (flush_memtable_internal E e) (\<lambda>_ e. if_wal E e (w_truncate lg now)))"
  have "eg_cfs (snd ?r) = eg_cfs e"
    by (intro and_then_keeps [of "\<lambda>x. eg_cfs x = eg_cfs e"]) simp_all
  then show ?thesis by (auto simp: eng_flush_def converted_def Let_def split: prod.split sum.split)
qed

lemma cfs_shutdown [simp]: "eg_cfs (snd (eng_shutdown E lg now e)) = eg_cfs e"
  unfolding eng_shutdown_def shutdown_background_tasks_def
proof (intro and_then_keeps [of "\<lambda>x. eg_cfs x = eg_cfs e"])
  fix x and s :: "('a, 'b) engine" assume "eg_cfs s = eg_cfs e"
  then show "eg_cfs (snd (case if_wal E s (w_shutdown lg now) of
      (Inl err, e) \<Rightarrow> (Inl (kv_to_lsm (convert_error err)), e) | (Inr _, e) \<Rightarrow> (Inr (), e))) = eg_cfs e"
    using cfs_wal(2) [of E s "w_shutdown lg now"] by (cases "if_wal E s (w_shutdown lg now)"; cases "fst (if_wal E s (w_shutdown lg now))") auto
qed simp_all

text \<open>Only opening changes the names: they are not stored.\<close>

lemma cfs_open: "eg_cfs (snd (eng_open E lg now allow timed_out files order disk seq_file w)) = [(ec_default_cf E, 0)]"
proof -
  let ?P = "\<lambda>x :: ('a, 'b) engine. eg_cfs x = [(ec_default_cf E, 0)]"
  have r: "?P (snd (recover_from_wal E lg allow timed_out e))" if "?P e" for e
    using that by (auto simp: recover_from_wal_def clear_wal_directory_def split: sum.split)
  have i: "?P (snd (initialize_wal E lg now allow timed_out e))" if "?P e" for e
  proof -
    have "?P (snd (case recover_from_wal E lg allow timed_out e of (Inr _, e) \<Rightarrow> (Inr (), e)
           | (Inl err, e) \<Rightarrow> if allow then (Inr (), e) else (Inl (WalErr (recovery_refused err)), e)))"
      using r [OF that] by (cases "recover_from_wal E lg allow timed_out e"; cases "fst (recover_from_wal E lg allow timed_out e)") auto
    moreover have "?P (snd (case on_wal e (w_init lg now) of
             (Inl err, e) \<Rightarrow> (Inl (WalErr (''Failed to initialize WAL: '' @ lsm_display err)), e)
           | (Inr _, e) \<Rightarrow> (Inr (), e)))" if "?P e" for e
      using that cfs_wal(1) [of e "w_init lg now"] by (cases "on_wal e (w_init lg now)"; cases "fst (on_wal e (w_init lg now))") auto
    ultimately show ?thesis
      using that unfolding initialize_wal_def by (auto intro!: and_then_keeps [of ?P])
  qed
  show ?thesis
    unfolding eng_open_def
    by (rule and_then_keeps [of ?P]) (simp_all add: i create_engine_structure_def load_existing_sstables_def Let_def)
qed

lemma cfs_step:
  assumes "eng_step E ops crash now c e r e'"
  shows "eg_cfs e' = (if c = CCrash then [(ec_default_cf E, 0)] else eg_cfs e)"
  using assms
proof (cases rule: eng_step.cases)
  case (step_crash files disk w allow order r0)
  with cfs_open [of E ops now allow False files order disk "eg_seq_file e" w] show ?thesis by simp
qed (simp_all, (metis snd_conv cfs_put cfs_delete cfs_batch cfs_engine_flush cfs_flush(1) cfs_deletes cfs_shutdown eng_force_flush_def)+)

subsection \<open>Commands on families\<close>

datatype 'n fcmd =
    FPut bytes key "'n val"
  | FDelete bytes key
  | FBatch bytes "(key \<times> 'n val) list"
  | FDeletes bytes "key list"
  | FCreate bytes
  | FDrop bytes
  | FPlain "'n cmd"

inductive fam_step :: "'n ecfg \<Rightarrow> ('n, 'w) wal_ops \<Rightarrow> ('w \<Rightarrow> 'w \<Rightarrow> bool) \<Rightarrow> nat \<Rightarrow> 'n fcmd \<Rightarrow> ('n, 'w) engine \<Rightarrow> unit kv
    \<Rightarrow> ('n, 'w) engine \<Rightarrow> bool" for E ops crash now where
  fam_put: "put_cf E ops now cf k v e = (r, e') \<Longrightarrow> fam_step E ops crash now (FPut cf k v) e r e'"
| fam_delete: "delete_cf E ops now cf k e = (r, e') \<Longrightarrow> fam_step E ops crash now (FDelete cf k) e r e'"
| fam_batch: "batch_put_cf E ops now cf kvs e = (r, e') \<Longrightarrow> fam_step E ops crash now (FBatch cf kvs) e r e'"
| fam_deletes: "batch_delete_cf E ops now cf ks e = (r, e') \<Longrightarrow> fam_step E ops crash now (FDeletes cf ks) e r e'"
| fam_create: "fam_step E ops crash now (FCreate cf) e (Inr ()) (create_column_family cf e)"
| fam_drop: "fam_step E ops crash now (FDrop cf) e (Inr ()) (drop_column_family cf e)"
| fam_plain: "eng_step E ops crash now c e r e' \<Longrightarrow> fam_step E ops crash now (FPlain c) e r e'"

inductive_cases fam_putE: "fam_step E ops crash now (FPut cf k v) e r e'"
inductive_cases fam_deleteE: "fam_step E ops crash now (FDelete cf k) e r e'"
inductive_cases fam_batchE: "fam_step E ops crash now (FBatch cf kvs) e r e'"
inductive_cases fam_deletesE: "fam_step E ops crash now (FDeletes cf ks) e r e'"
inductive_cases fam_createE: "fam_step E ops crash now (FCreate cf) e r e'"
inductive_cases fam_dropE: "fam_step E ops crash now (FDrop cf) e r e'"
inductive_cases fam_plainE: "fam_step E ops crash now (FPlain c) e r e'"

lemmas fam_step_elims = fam_putE fam_deleteE fam_batchE fam_deletesE fam_createE fam_dropE fam_plainE

text \<open>The family a command writes to, and the command on the engine it stands for.\<close>

fun fam_of :: "'n fcmd \<Rightarrow> bytes option" where
  "fam_of (FPut cf k v) = Some cf"
| "fam_of (FDelete cf k) = Some cf"
| "fam_of (FBatch cf kvs) = Some cf"
| "fam_of (FDeletes cf ks) = Some cf"
| "fam_of _ = None"

fun plain_cmd :: "'n fcmd \<Rightarrow> 'n cmd option" where
  "plain_cmd (FPut cf k v) = Some (CPut (cf_key cf k) v)"
| "plain_cmd (FDelete cf k) = Some (CDelete (cf_key cf k))"
| "plain_cmd (FBatch cf kvs) = Some (CBatch (map (\<lambda>(k, v). (cf_key cf k, v)) kvs))"
| "plain_cmd (FDeletes cf ks) = Some (CDeletes (map (cf_key cf) ks))"
| "plain_cmd (FPlain c) = Some c"
| "plain_cmd _ = None"

lemma fam_step_plain:
  assumes "fam_of c = Some cf" and "plain_cmd c = Some x"
  shows "fam_step E ops crash now c e r e' \<longleftrightarrow>
    (if cf_known cf e then eng_step E ops crash now x e r e' else r = Inl (cf_missing cf) \<and> e' = e)"
  using assms
  by (cases c)
    (auto simp: put_cf_def delete_cf_def batch_put_cf_def batch_delete_cf_def with_cf_def
      intro: fam_step.intros eng_step.intros elim!: fam_step_elims eng_step_elims split: if_splits)

subsection \<open>One map per family\<close>

record 'n families =
  fa_known :: "bytes set"
  fa_data :: "bytes \<Rightarrow> key \<Rightarrow> 'n val option"
  fa_plain :: "key \<Rightarrow> 'n val option"

text \<open>The command on the map of one family.\<close>

fun fam_inner :: "'n fcmd \<Rightarrow> (key \<Rightarrow> 'n val option) \<Rightarrow> key \<Rightarrow> 'n val option" where
  "fam_inner (FPut cf k v) f = f(k := store_val v)"
| "fam_inner (FDelete cf k) f = f(k := None)"
| "fam_inner (FBatch cf kvs) f = fold (\<lambda>(k, v) f. f(k := store_val v)) kvs f"
| "fam_inner (FDeletes cf ks) f = fold (\<lambda>k f. f(k := None)) ks f"
| "fam_inner _ f = f"

text \<open>Dropping a family hides its keys and does not delete them; a crash forgets every name but that of the default family.\<close>

fun fam_spec :: "'n ecfg \<Rightarrow> 'n fcmd \<Rightarrow> 'n families \<Rightarrow> unit kv \<times> 'n families" where
  "fam_spec E (FCreate cf) s = (Inr (), s\<lparr>fa_known := insert cf (fa_known s)\<rparr>)"
| "fam_spec E (FDrop cf) s = (Inr (), s\<lparr>fa_known := fa_known s - {cf}\<rparr>)"
| "fam_spec E (FPlain c) s = (Inr (), s\<lparr>fa_plain := cmd_spec c (fa_plain s),
     fa_known := (if c = CCrash then {ec_default_cf E} else fa_known s)\<rparr>)"
| "fam_spec E c s = (let cf = the (fam_of c) in
     if cf \<in> fa_known s then (Inr (), s\<lparr>fa_data := (fa_data s)(cf := fam_inner c (fa_data s cf))\<rparr>)
     else (Inl (cf_missing cf), s))"

definition fam_new :: "'n ecfg \<Rightarrow> 'n families" where
  "fam_new E = \<lparr>fa_known = {ec_default_cf E}, fa_data = (\<lambda>_ _. None), fa_plain = (\<lambda>_. None)\<rparr>"

fun fam_run_spec :: "'n ecfg \<Rightarrow> (nat \<times> 'n fcmd) list \<Rightarrow> 'n families \<Rightarrow> unit kv list \<times> 'n families" where
  "fam_run_spec E [] s = ([], s)"
| "fam_run_spec E ((_, c) # cs) s =
     (let (r, s) = fam_spec E c s; (rs, s) = fam_run_spec E cs s in (r # rs, s))"

inductive fam_run :: "'n ecfg \<Rightarrow> ('n, 'w) wal_ops \<Rightarrow> ('w \<Rightarrow> 'w \<Rightarrow> bool) \<Rightarrow> nat \<Rightarrow> (nat \<times> 'n fcmd) list \<Rightarrow> ('n, 'w) engine
    \<Rightarrow> unit kv list \<Rightarrow> ('n, 'w) engine \<Rightarrow> bool" for E ops crash where
  fam_none: "fam_run E ops crash t [] e [] e"
| fam_next: "t \<le> now \<Longrightarrow> fam_step E ops crash now c e r e1 \<Longrightarrow> fam_run E ops crash now cs e1 rs e' \<Longrightarrow>
    fam_run E ops crash t ((now, c) # cs) e (r # rs) e'"

fun fam_cost :: "(nat \<times> 'n fcmd) list \<Rightarrow> nat" where
  "fam_cost [] = 0"
| "fam_cost ((_, c) # cs) = (case plain_cmd c of None \<Rightarrow> 0 | Some x \<Rightarrow> cmd_cost x) + fam_cost cs"

fun cmd_keys :: "'n cmd \<Rightarrow> key set" where
  "cmd_keys (CPut k v) = {k}"
| "cmd_keys (CDelete k) = {k}"
| "cmd_keys (CBatch kvs) = fst ` set kvs"
| "cmd_keys (CDeletes ks) = set ks"
| "cmd_keys _ = {}"

text \<open>Names without the separator, plain keys without it, and entries the log and the tables can hold.\<close>

definition fam_allowed :: "'n ecfg \<Rightarrow> ('n wal_entry \<Rightarrow> bool) \<Rightarrow> nat \<Rightarrow> 'n fcmd \<Rightarrow> bool" where
  "fam_allowed E ok now c \<longleftrightarrow> (\<forall>cf. fam_of c = Some cf \<longrightarrow> plain_name cf)
     \<and> (\<forall>x. plain_cmd c = Some x \<longrightarrow> allowed E ok now x)
     \<and> (\<forall>x. c = FPlain x \<longrightarrow> (\<forall>k \<in> cmd_keys x. plain_name k))"

subsection \<open>Commands on the keys and on the maps\<close>

lemma fold_batch_other: "k \<notin> fst ` set kvs \<Longrightarrow> fold (\<lambda>(k, v) f. f(k := g v)) kvs f k = f k"
  by (induction kvs arbitrary: f) auto

lemma fold_deletes_other: "k \<notin> set ks \<Longrightarrow> fold (\<lambda>k f. f(k := None)) ks f k = f k"
  by (induction ks arbitrary: f) auto

lemma cmd_spec_other: "k \<notin> cmd_keys c \<Longrightarrow> cmd_spec c f k = f k"
  by (cases c) (auto simp: fold_batch_other fold_deletes_other)

lemma fold_batch_local: "f k = h k \<Longrightarrow> fold (\<lambda>(k, v) f. f(k := g v)) kvs f k = fold (\<lambda>(k, v) f. f(k := g v)) kvs h k"
proof (induction kvs arbitrary: f h)
  case (Cons x kvs)
  from Cons.IH [of "f(fst x := g (snd x))" "h(fst x := g (snd x))"] Cons.prems show ?case by (simp add: case_prod_unfold)
qed simp

lemma fold_deletes_local: "f k = h k \<Longrightarrow> fold (\<lambda>k f. f(k := None)) ks f k = fold (\<lambda>k f. f(k := None)) ks h k"
proof (induction ks arbitrary: f h)
  case (Cons x ks)
  from Cons.IH [of "f(x := None)" "h(x := None)"] Cons.prems show ?case by simp
qed simp

lemma cmd_spec_local:
  assumes "f k = h k"
  shows "cmd_spec c f k = cmd_spec c h k"
  using assms fold_batch_local [of f k h store_val] fold_deletes_local [of f k h] by (cases c) simp_all

lemma fold_batch_family:
  "plain_name cf \<Longrightarrow> fold (\<lambda>(k, v) f. f(k := g v)) (map (\<lambda>(k, v). (cf_key cf k, v)) kvs) f (cf_key cf k)
    = fold (\<lambda>(k, v) f. f(k := g v)) kvs (\<lambda>k. f (cf_key cf k)) k"
proof (induction kvs arbitrary: f)
  case (Cons x kvs)
  have "(\<lambda>l. (f(cf_key cf (fst x) := g (snd x))) (cf_key cf l)) = (\<lambda>l. f (cf_key cf l))(fst x := g (snd x))"
    using Cons.prems by (auto simp: cf_key_inj fun_eq_iff)
  with Cons show ?case by (simp add: case_prod_unfold del: fun_upd_apply)
qed simp

lemma fold_deletes_family:
  "plain_name cf \<Longrightarrow> fold (\<lambda>k f. f(k := None)) (map (cf_key cf) ks) f (cf_key cf k)
    = fold (\<lambda>k f. f(k := None)) ks (\<lambda>k. f (cf_key cf k)) k"
proof (induction ks arbitrary: f)
  case (Cons x ks)
  have "(\<lambda>l. (f(cf_key cf x := None)) (cf_key cf l)) = (\<lambda>l. f (cf_key cf l))(x := None)"
    using Cons.prems by (auto simp: cf_key_inj fun_eq_iff)
  with Cons show ?case by (simp del: fun_upd_apply)
qed simp

lemma family_cmd:
  assumes "fam_of c = Some cf" and "plain_cmd c = Some x" and "plain_name cf"
  shows "plain_name a \<Longrightarrow> cmd_spec x f (cf_key a k) = (if a = cf then fam_inner c (\<lambda>k. f (cf_key cf k)) k else f (cf_key a k))"
    and "plain_name l \<Longrightarrow> cmd_spec x f l = f l"
proof -
  have keys: "cmd_keys x \<subseteq> range (cf_key cf)" using assms by (cases c) auto
  show "cmd_spec x f l = f l" if "plain_name l"
    using keys that cf_key_neq by (intro cmd_spec_other) blast
  assume a: "plain_name a"
  show "cmd_spec x f (cf_key a k) = (if a = cf then fam_inner c (\<lambda>k. f (cf_key cf k)) k else f (cf_key a k))"
  proof (cases "a = cf")
    case False
    then have "cf_key a k \<notin> cmd_keys x" using keys a assms(3) by (auto simp: cf_key_inj)
    with False show ?thesis by (simp add: cmd_spec_other)
  next
    case True
    with assms show ?thesis
      by (cases c) (auto simp: cf_key_inj fold_batch_family fold_deletes_family)
  qed
qed

subsection \<open>One step\<close>

definition fam_rel :: "'n ecfg \<Rightarrow> 'n families \<Rightarrow> ('n, 'w) engine \<Rightarrow> bool" where
  "fam_rel E s e \<longleftrightarrow> fa_known s = set (list_column_families e)
     \<and> (\<forall>cf k. plain_name cf \<longrightarrow> eng_view E e (cf_key cf k) = fa_data s cf k)
     \<and> (\<forall>k. plain_name k \<longrightarrow> eng_view E e k = fa_plain s k)"

lemma known_listed: "cf_known cf e \<longleftrightarrow> cf \<in> set (list_column_families e)"
  by (force simp: cf_known_def list_column_families_def map_of_eq_None_iff)

lemma cfs_frame: "data_of (e\<lparr>eg_cfs := x\<rparr>) = data_of e"
  by (simp add: data_of_def)

context wal_log
begin

lemma family_step:
  assumes E: "env_fine E" "ec_wal E" and d: "durable E inv N (fam_cost [(now, c)] + n) t e" and t: "t \<le> now"
    and a: "fam_allowed E ok now c" and s: "fam_rel E s e"
  shows "\<exists>r e'. fam_step E ops crash now c e r e'"
    and "fam_step E ops crash now c e r e' \<Longrightarrow>
      r = fst (fam_spec E c s) \<and> durable E inv N n now e' \<and> fam_rel E (snd (fam_spec E c s)) e'"
proof -
  have now: "durable E inv N n now e" by (rule durable_later [OF durable_mono [OF d] t]) simp
  consider (create) cf where "c = FCreate cf" | (drop) cf where "c = FDrop cf" | (plain) x where "c = FPlain x"
    | (family) cf x where "fam_of c = Some cf" "plain_cmd c = Some x"
    by (cases c) auto
  then have "(\<exists>r e'. fam_step E ops crash now c e r e') \<and> (\<forall>r e'. fam_step E ops crash now c e r e' \<longrightarrow>
      r = fst (fam_spec E c s) \<and> durable E inv N n now e' \<and> fam_rel E (snd (fam_spec E c s)) e')"
  proof cases
    case (create cf)
    define e' where "e' = create_column_family cf e"
    have f: "data_of e' = data_of e" "eg_wal e' = eg_wal e" by (simp_all add: e'_def create_column_family_def cfs_frame)
    have "set (list_column_families e') = insert cf (set (list_column_families e))"
      by (force simp: e'_def create_column_family_def list_column_families_def)
    with s now have "durable E inv N n now e' \<and> fam_rel E (snd (fam_spec E c s)) e'"
      by (simp add: durable_frame [OF f] fam_rel_def view_frame [OF f(1)] create)
    then show ?thesis by (auto simp: create e'_def intro: fam_create elim!: fam_createE)
  next
    case (drop cf)
    define e' where "e' = drop_column_family cf e"
    have f: "data_of e' = data_of e" "eg_wal e' = eg_wal e" by (simp_all add: e'_def drop_column_family_def cfs_frame)
    have "set (list_column_families e') = set (list_column_families e) - {cf}"
      by (force simp: e'_def drop_column_family_def list_column_families_def)
    with s now have "durable E inv N n now e' \<and> fam_rel E (snd (fam_spec E c s)) e'"
      by (simp add: durable_frame [OF f] fam_rel_def view_frame [OF f(1)] drop)
    then show ?thesis by (auto simp: drop e'_def intro: fam_drop elim!: fam_dropE)
  next
    case (plain x)
    have d1: "durable E inv N (n + cmd_cost x) t e" using d by (simp add: plain ac_simps)
    have a1: "allowed E ok now x" "\<forall>k \<in> cmd_keys x. plain_name k" using a by (simp_all add: fam_allowed_def plain)
    have "r = fst (fam_spec E c s) \<and> durable E inv N n now e' \<and> fam_rel E (snd (fam_spec E c s)) e'"
      if st: "eng_step E ops crash now x e r e'" for r e'
    proof -
      from durable_step(2) [OF E d1 t a1(1) st] have e': "r = Inr ()" "durable E inv N n now e'"
        "eng_view E e' = cmd_spec x (eng_view E e)" by blast+
      have "set (list_column_families e') = (if x = CCrash then {ec_default_cf E} else set (list_column_families e))"
        using cfs_step [OF st] by (simp add: list_column_families_def)
      moreover have "cf_key cf k \<notin> cmd_keys x" for cf k using a1(2) by (auto dest: bspec)
      then have "eng_view E e' (cf_key cf k) = eng_view E e (cf_key cf k)" for cf k by (simp add: e'(3) cmd_spec_other)
      moreover have "eng_view E e' k = cmd_spec x (fa_plain s) k" if "plain_name k" for k
        unfolding e'(3) using s that by (intro cmd_spec_local) (simp add: fam_rel_def)
      ultimately show ?thesis using s e'(1,2) by (simp add: fam_rel_def plain)
    qed
    then show ?thesis
      using durable_step(1) [OF E d1 t a1(1)] by (auto simp: plain intro: fam_plain elim!: fam_plainE)
  next
    case (family cf x)
    have pn: "plain_name cf" "allowed E ok now x" using a family by (simp_all add: fam_allowed_def)
    have sp: "fam_spec E c s = (if cf \<in> fa_known s then (Inr (), s\<lparr>fa_data := (fa_data s)(cf := fam_inner c (fa_data s cf))\<rparr>)
        else (Inl (cf_missing cf), s))"
      using family(1) by (cases c) (simp_all add: Let_def)
    have k: "cf_known cf e \<longleftrightarrow> cf \<in> fa_known s" using s by (simp add: known_listed fam_rel_def)
    show ?thesis
    proof (cases "cf \<in> fa_known s")
      case False
      then show ?thesis using now s by (auto simp: fam_step_plain [OF family] k sp)
    next
      case True
      have "durable E inv N (n + cmd_cost x) t e" using d family(2) by (simp add: ac_simps)
      note step = durable_step [OF E this t pn(2)]
      have "r = Inr () \<and> durable E inv N n now e' \<and> fam_rel E (snd (fam_spec E c s)) e'"
        if st: "eng_step E ops crash now x e r e'" for r e'
      proof -
        from step(2) [OF st] have e': "r = Inr ()" "durable E inv N n now e'" "eng_view E e' = cmd_spec x (eng_view E e)" by blast+
        have "x \<noteq> CCrash" using family by (cases c) auto
        then have "list_column_families e' = list_column_families e" using cfs_step [OF st] by (simp add: list_column_families_def)
        moreover have "(\<lambda>k. eng_view E e (cf_key cf k)) = fa_data s cf" using s pn(1) by (simp add: fam_rel_def)
        ultimately show ?thesis
          using s e'(1,2) True by (auto simp: fam_rel_def e'(3) family_cmd [OF family pn(1)] sp)
      qed
      then show ?thesis using step(1) True by (auto simp: fam_step_plain [OF family] k sp)
    qed
  qed
  then show "\<exists>r e'. fam_step E ops crash now c e r e'"
    and "fam_step E ops crash now c e r e' \<Longrightarrow>
      r = fst (fam_spec E c s) \<and> durable E inv N n now e' \<and> fam_rel E (snd (fam_spec E c s)) e'" by blast+
qed

lemma family_run:
  assumes E: "env_fine E" "ec_wal E" and r: "fam_run E ops crash t cs e rs e'"
  shows "durable E inv N (fam_cost cs + n) t e \<Longrightarrow> \<forall>(now, c) \<in> set cs. fam_allowed E ok now c \<Longrightarrow> fam_rel E s e \<Longrightarrow>
    rs = fst (fam_run_spec E cs s) \<and> fam_rel E (snd (fam_run_spec E cs s)) e'"
  using r
proof (induction arbitrary: s rule: fam_run.induct)
  case (fam_next t now c e r e1 cs rs e')
  have d: "durable E inv N (fam_cost [(now, c)] + (fam_cost cs + n)) t e" using fam_next.prems(1) by (simp add: ac_simps)
  have a: "fam_allowed E ok now c" using fam_next.prems(2) by simp
  from family_step(2) [OF E d fam_next.hyps(1) a fam_next.prems(3) fam_next.hyps(2)] fam_next.IH fam_next.prems(2)
  show ?case by (auto split: prod.split) (metis fst_conv snd_conv)+
qed simp

lemma family_run_exists:
  assumes E: "env_fine E" "ec_wal E"
  shows "durable E inv N (fam_cost cs + n) t e \<Longrightarrow> \<forall>(now, c) \<in> set cs. fam_allowed E ok now c \<Longrightarrow> fam_rel E s e \<Longrightarrow>
    sorted (t # map fst cs) \<Longrightarrow> \<exists>rs e'. fam_run E ops crash t cs e rs e'"
proof (induction cs arbitrary: t e s)
  case Nil
  then show ?case by (blast intro: fam_none)
next
  case (Cons x cs)
  obtain now c where x: "x = (now, c)" by (cases x)
  have d: "durable E inv N (fam_cost [(now, c)] + (fam_cost cs + n)) t e" using Cons.prems(1) by (simp add: x ac_simps)
  have a: "fam_allowed E ok now c" and t: "t \<le> now" using Cons.prems(2,4) by (simp_all add: x)
  from family_step(1) [OF E d t a Cons.prems(3)] obtain r e1 where e1: "fam_step E ops crash now c e r e1" by blast
  from family_step(2) [OF E d t a Cons.prems(3) e1] have
    "durable E inv N (fam_cost cs + n) now e1" "fam_rel E (snd (fam_spec E c s)) e1" by blast+
  from Cons.IH [OF this(1) _ this(2)] Cons.prems(2,4) obtain rs e' where "fam_run E ops crash now cs e1 rs e'" by (auto simp: x)
  from fam_next [OF t e1 this] show ?case unfolding x by blast
qed

end

subsection \<open>Properties\<close>

lemma families_start:
  assumes "config_fine E W N sp"
  shows "\<exists>e0. seg_start E W t0 sp = (Inr (), e0) \<and> durable E (seg_synced W) N N t0 e0 \<and> fam_rel E (fam_new E) e0"
proof -
  from seg_start_ok [OF assms, of t0] obtain e0 where e0: "seg_start E W t0 sp = (Inr (), e0)"
    "durable E (seg_synced W) N N t0 e0" "eng_view E e0 = (\<lambda>_. None)" by blast
  have "eg_cfs e0 = [(ec_default_cf E, 0)]"
    using cfs_open [of E "seg_ops W" t0 False False "[]" "[]" empty_disk 0 "wm_new (empty_fs sp)"] e0(1)
    by (simp add: eng_start_def)
  then have "fam_rel E (fam_new E) e0" by (simp add: fam_rel_def fam_new_def e0(3) list_column_families_def)
  with e0 show ?thesis by blast
qed


definition toy_fam_cmds :: "(nat \<times> nat fcmd) list" where
  "toy_fam_cmds = [(1, FCreate [97]), (1, FPut [97] [107] (VBytes [1])), (2, FPut [98] [107] (VBytes [2])),
     (2, FPlain (CPut [107] (VBytes [3]))), (3, FCreate [98]), (3, FBatch [98] [([107], VBytes [4])]), (4, FPlain CShutdown),
     (4, FPlain CCrash), (5, FPut [97] [108] (VBytes [5])), (5, FCreate [97])]"


end
