(* ===== verification/Mmap_Reader.thy ===== *)
theory Mmap_Reader
  imports File_Reader
begin

text \<open>
  The memory-mapped reader, \<open>crates/f4kvs-lsm/src/storage/mmap_reader/linux.rs\<close>: a read is copied from the mapping when
  every page it touches is known to be in the page cache, and goes through \<open>pread\<close> otherwise.  What is known is a
  bitmap, one bit per page, cleared from time to time.  The operating system is a record: the clock and the answers of
  \<open>mincore\<close> at the first and the second attempt of a read, what one \<open>pread\<close> delivers, and whether \<open>mmap\<close> succeeds.
  A table does not change once written, so the mapping shows \<open>hy_file\<close>.
\<close>

record hyenv =
  hx_now :: "nat \<Rightarrow> nat"
  hx_resident :: "nat \<Rightarrow> nat \<Rightarrow> bool"
  hx_pread :: "nat \<Rightarrow> nat \<Rightarrow> nat"
  hx_mmap :: "nat \<Rightarrow> unit res"

record hybrid =
  hy_page :: nat
  hy_size :: nat
  hy_file :: bytes
  hy_map :: "nat option"
  hy_bits :: "u64 list"
  hy_next :: nat
  hy_ttl :: nat

subsection \<open>Opening\<close>

definition page_size_bytes :: "int \<Rightarrow> nat" where
  "page_size_bytes sc = (if sc > 0 then nat sc else 4096)"

definition div_ceil :: "nat \<Rightarrow> nat \<Rightarrow> nat" where
  "div_ceil a b = (a + b - 1) div b"

definition page_word_count :: "nat \<Rightarrow> nat \<Rightarrow> nat" where
  "page_word_count fsize page = div_ceil (div_ceil fsize page) 64"

definition hy_open :: "fs \<Rightarrow> int \<Rightarrow> path \<Rightarrow> nat \<Rightarrow> hybrid res" where
  "hy_open fs sc p ttl = (case fs p of None \<Rightarrow> Inl no_such_file
     | Some content \<Rightarrow> let page = page_size_bytes sc in
         Inr \<lparr>hy_page = page, hy_size = length content, hy_file = content, hy_map = None,
              hy_bits = replicate (page_word_count (length content) page) 0, hy_next = 0, hy_ttl = ttl\<rparr>)"

definition hy_is_open :: "hybrid \<Rightarrow> bool" where
  "hy_is_open s \<longleftrightarrow> hy_size s > 0"

definition hy_close :: "hybrid \<Rightarrow> hybrid" where
  "hy_close s = s\<lparr>hy_map := None\<rparr>"

text \<open>\<open>MmapMapping\<close> is known by its length; \<open>slice\<close> shows that much of the file.\<close>

definition hy_ensure_mapped :: "hyenv \<Rightarrow> hybrid \<Rightarrow> unit res \<times> hybrid" where
  "hy_ensure_mapped X s =
     (if hy_map s \<noteq> None then (Inr (), s)
      else if hy_size s = 0 then (Inr (), s\<lparr>hy_map := Some 0\<rparr>)
      else case hx_mmap X (hy_size s) of Inl e \<Rightarrow> (Inl e, s) | Inr _ \<Rightarrow> (Inr (), s\<lparr>hy_map := Some (hy_size s)\<rparr>))"

subsection \<open>The bitmap\<close>

definition maybe_cleanup_mincore_cache :: "nat \<Rightarrow> hybrid \<Rightarrow> hybrid" where
  "maybe_cleanup_mincore_cache now s =
     (if now \<le> hy_next s then s else s\<lparr>hy_next := (now + hy_ttl s) mod 2 ^ 64, hy_bits := map (\<lambda>_. 0) (hy_bits s)\<rparr>)"

definition page_bit :: "nat \<Rightarrow> u64" where
  "page_bit idx = push_bit (idx mod 64) 1"

text \<open>The loop of \<open>can_fast_read_via_mmap\<close>.  A page size is positive; \<open>page = 0\<close> only makes the function total.\<close>

function fast_loop :: "(nat \<Rightarrow> bool) \<Rightarrow> nat \<Rightarrow> nat \<Rightarrow> nat \<Rightarrow> nat \<Rightarrow> nat \<Rightarrow> u64 list \<Rightarrow> bool \<times> u64 list" where
  "fast_loop resident page mlen end_off off idx bits =
     (if end_off \<le> off \<or> page = 0 then (True, bits)
      else if length bits \<le> idx div 64 then (False, bits)
      else if and (bits ! (idx div 64)) (page_bit idx) = 0 then
        if mlen \<le> off then (False, bits)
        else if \<not> resident off then (False, bits)
        else fast_loop resident page mlen end_off (off + page) (Suc idx)
               (bits[idx div 64 := or (bits ! (idx div 64)) (page_bit idx)])
      else fast_loop resident page mlen end_off (off + page) (Suc idx) bits)"
  by pat_completeness auto
termination
  by (relation "measure (\<lambda>(resident, page, mlen, end_off, off, idx, bits). end_off - off)") auto

declare fast_loop.simps [simp del]

definition can_fast_read_via_mmap :: "nat \<Rightarrow> (nat \<Rightarrow> bool) \<Rightarrow> nat \<Rightarrow> nat \<Rightarrow> nat \<Rightarrow> hybrid \<Rightarrow> bool \<times> hybrid" where
  "can_fast_read_via_mmap now resident mlen off len s =
     (let s = maybe_cleanup_mincore_cache now s;
          start = off - off mod hy_page s;
          (ok, bits) = fast_loop resident (hy_page s) mlen (off + len) start (start div hy_page s) (hy_bits s)
      in (ok, s\<lparr>hy_bits := bits\<rparr>))"

function mark_loop :: "nat \<Rightarrow> nat \<Rightarrow> nat \<Rightarrow> nat \<Rightarrow> u64 list \<Rightarrow> u64 list" where
  "mark_loop page end_off off idx bits =
     (if end_off \<le> off \<or> page = 0 then bits
      else mark_loop page end_off (off + page) (Suc idx)
        (if idx div 64 < length bits then bits[idx div 64 := or (bits ! (idx div 64)) (page_bit idx)] else bits))"
  by pat_completeness auto
termination
  by (relation "measure (\<lambda>(page, end_off, off, idx, bits). end_off - off)") auto

declare mark_loop.simps [simp del]

definition mark_pages_resident :: "nat \<Rightarrow> nat \<Rightarrow> hybrid \<Rightarrow> hybrid" where
  "mark_pages_resident off len s =
     (let start = off - off mod hy_page s
      in s\<lparr>hy_bits := mark_loop (hy_page s) (off + len) start (start div hy_page s) (hy_bits s)\<rparr>)"

subsection \<open>Reading\<close>

definition try_mmap_read :: "hyenv \<Rightarrow> nat \<Rightarrow> nat \<Rightarrow> nat \<Rightarrow> hybrid \<Rightarrow> bytes option \<times> hybrid" where
  "try_mmap_read X i off len s = (case hy_map s of
       None \<Rightarrow> (None, s)
     | Some mlen \<Rightarrow> (case can_fast_read_via_mmap (hx_now X i) (hx_resident X i) mlen off len s of
           (False, s) \<Rightarrow> (None, s)
         | (True, s) \<Rightarrow> if mlen < off + len then (None, s) else (Some (take len (drop off (take mlen (hy_file s)))), s)))"

text \<open>Here the message of an early end names the offset at which nothing came.\<close>

definition read_exact_at_sync :: "(nat \<Rightarrow> nat \<Rightarrow> nat) \<Rightarrow> bytes \<Rightarrow> nat \<Rightarrow> nat \<Rightarrow> bytes res" where
  "read_exact_at_sync sys file off len = read_loop sys file (unexpected_eof len) off len []"

definition read_via_syscall :: "hyenv \<Rightarrow> nat \<Rightarrow> nat \<Rightarrow> hybrid \<Rightarrow> bytes res \<times> hybrid" where
  "read_via_syscall X off len s = (case hy_ensure_mapped X s of
       (Inl e, s) \<Rightarrow> (Inl e, s)
     | (Inr _, s) \<Rightarrow> (case try_mmap_read X 1 off len s of
           (Some d, s) \<Rightarrow> (Inr d, s)
         | (None, s) \<Rightarrow> (case read_exact_at_sync (hx_pread X) (hy_file s) off len of
               Inl e \<Rightarrow> (Inl e, s)
             | Inr d \<Rightarrow> (Inr d, mark_pages_resident off len s))))"

definition hy_read_at :: "hyenv \<Rightarrow> nat \<Rightarrow> nat \<Rightarrow> hybrid \<Rightarrow> bytes res \<times> hybrid" where
  "hy_read_at X off len s =
     (if len = 0 then (Inr [], s)
      else if hy_size s \<le> off then (Inr [], s)
      else let to_read = min len (hy_size s - off) in
        (case try_mmap_read X 0 off to_read s of
           (Some d, s) \<Rightarrow> (Inr d, s)
         | (None, s) \<Rightarrow> read_via_syscall X off to_read s))"

text \<open>\<open>read_exact_at\<close> of \<open>file_reader.rs\<close> in the mode \<open>MmapHybrid\<close>; \<open>Xs\<close> is the system at the successive calls.\<close>

function hybrid_read_loop :: "(nat \<Rightarrow> hyenv) \<Rightarrow> lsm_error \<Rightarrow> nat \<Rightarrow> nat \<Rightarrow> nat \<Rightarrow> bytes \<Rightarrow> hybrid \<Rightarrow> bytes res \<times> hybrid" where
  "hybrid_read_loop Xs err i off want acc s =
     (if want = 0 then (Inr acc, s)
      else case hy_read_at (Xs i) off want s of
          (Inl e, s) \<Rightarrow> (Inl e, s)
        | (Inr d, s) \<Rightarrow>
            if d = [] then (Inl err, s)
            else hybrid_read_loop Xs err (i + 1) (off + length d) (want - length d) (acc @ d) s)"
  by pat_completeness auto
termination
  by (relation "measure (\<lambda>(Xs, err, i, off, want, acc, s). want)") auto

declare hybrid_read_loop.simps [simp del]

definition hybrid_read_exact_at :: "(nat \<Rightarrow> hyenv) \<Rightarrow> nat \<Rightarrow> nat \<Rightarrow> hybrid \<Rightarrow> bytes res \<times> hybrid" where
  "hybrid_read_exact_at Xs off len s = hybrid_read_loop Xs (unexpected_eof len off) 0 off len [] s"

text \<open>Elsewhere than on Linux: \<open>mmap_reader/stub.rs\<close>.\<close>

definition stub_open :: "path \<Rightarrow> nat \<Rightarrow> hybrid res" where
  "stub_open p ttl = Inl (Io OtherIo ''MmapHybridReader is only supported on Linux'')"

subsection \<open>What the bitmap knows\<close>

definition marked :: "u64 list \<Rightarrow> nat \<Rightarrow> bool" where
  "marked bits i \<longleftrightarrow> i div 64 < length bits \<and> bit (bits ! (i div 64)) (i mod 64)"

lemma page_bit_zero: "and w (page_bit i) = 0 \<longleftrightarrow> \<not> bit w (i mod 64)" for w :: u64
  by (simp add: page_bit_def push_bit_eq_mult and_exp_eq_0_iff_not_bit)

lemma marked_after: "i div 64 < length bits \<Longrightarrow>
  marked (bits[i div 64 := or (bits ! (i div 64)) (page_bit i)]) j \<longleftrightarrow> marked bits j \<or> j = i"
proof -
  assume i: "i div 64 < length bits"
  have "j mod 64 = i mod 64 \<longleftrightarrow> j = i" if "j div 64 = i div 64"
    using that by (metis mult_div_mod_eq)
  with i show ?thesis
    by (auto simp: marked_def nth_list_update bit_or_iff page_bit_def push_bit_eq_mult bit_exp_iff)
qed

lemma set_again: "and (bits ! (i div 64)) (page_bit i) \<noteq> 0 \<Longrightarrow> i div 64 < length bits \<Longrightarrow>
  bits[i div 64 := or (bits ! (i div 64)) (page_bit i)] = bits"
proof -
  assume a: "and (bits ! (i div 64)) (page_bit i) \<noteq> 0" "i div 64 < length bits"
  then have "bit (bits ! (i div 64)) (i mod 64)" by (simp add: page_bit_zero)
  then have "or (bits ! (i div 64)) (page_bit i) = bits ! (i div 64)"
    by (intro bit_eqI) (auto simp: bit_or_iff page_bit_def push_bit_eq_mult bit_exp_iff)
  then show ?thesis by simp
qed

lemma fast_loop_step:
  assumes "fast_loop rs page mlen end_off off idx bits = (ok, bits')" and "off < end_off" and "0 < page"
  shows "\<not> ok \<and> bits' = bits \<or> idx div 64 < length bits
     \<and> fast_loop rs page mlen end_off (off + page) (Suc idx) (bits[idx div 64 := or (bits ! (idx div 64)) (page_bit idx)]) = (ok, bits')"
  using assms by (subst (asm) fast_loop.simps) (auto simp: set_again not_le split: if_splits)

lemma fast_loop_mono:
  "fast_loop rs page mlen end_off off idx bits = (ok, bits') \<Longrightarrow> length bits' = length bits \<and> (\<forall>j. marked bits j \<longrightarrow> marked bits' j)"
proof (induction "end_off - off" arbitrary: off idx bits rule: less_induct)
  case less
  show ?case
  proof (cases "off < end_off \<and> 0 < page")
    case True
    then have "end_off - (off + page) < end_off - off" by auto
    with less.hyps [OF this] fast_loop_step [OF less.prems] True show ?thesis by (auto simp: marked_after)
  next
    case False
    with less.prems show ?thesis by (subst (asm) fast_loop.simps) (auto simp: not_less)
  qed
qed

lemma mark_loop_mono: "length (mark_loop page end_off off idx bits) = length bits
  \<and> (\<forall>j. marked bits j \<longrightarrow> marked (mark_loop page end_off off idx bits) j)"
proof (induction page end_off off idx bits rule: mark_loop.induct)
  case (1 page end_off off idx bits)
  then show ?case by (subst (1 2) mark_loop.simps) (auto simp: marked_after)
qed

text \<open>The loops visit the pages from that of the offset to that of the last byte.\<close>

lemma fast_loop_marks:
  "fast_loop rs page mlen end_off off idx bits = (True, bits') \<Longrightarrow> off = idx * page \<Longrightarrow> 0 < page \<Longrightarrow>
   idx \<le> j \<Longrightarrow> j * page < end_off \<Longrightarrow> marked bits' j"
proof (induction "end_off - off" arbitrary: off idx bits rule: less_induct)
  case less
  let ?b = "bits[idx div 64 := or (bits ! (idx div 64)) (page_bit idx)]"
  have in_range: "off < end_off" using less.prems by (metis le_less_trans mult_le_mono1)
  with fast_loop_step [OF less.prems(1)] less.prems(3) have w: "idx div 64 < length bits"
    and rest: "fast_loop rs page mlen end_off (off + page) (Suc idx) ?b = (True, bits')" by auto
  show ?case
  proof (cases "j = idx")
    case True
    with w fast_loop_mono [OF rest] show ?thesis by (simp add: marked_after)
  next
    case False
    have "end_off - (off + page) < end_off - off" using in_range less.prems(3) by simp
    from less.hyps [OF this rest] less.prems False show ?thesis by simp
  qed
qed

lemma fast_loop_known:
  "\<forall>j \<ge> idx. j * page < end_off \<longrightarrow> marked bits j \<Longrightarrow> off = idx * page \<Longrightarrow>
   fast_loop rs page mlen end_off off idx bits = (True, bits)"
proof (induction rs page mlen end_off off idx bits rule: fast_loop.induct)
  case (1 rs page mlen end_off off idx bits)
  show ?case
  proof (cases "end_off \<le> off \<or> page = 0")
    case False
    then have "marked bits idx" using "1.prems" by auto
    then have "idx div 64 < length bits" "and (bits ! (idx div 64)) (page_bit idx) \<noteq> 0"
      by (simp_all add: marked_def page_bit_zero)
    with "1.IH"(2) "1.prems" False show ?thesis by (subst fast_loop.simps) (auto simp: algebra_simps)
  qed (simp add: fast_loop.simps)
qed

lemma mark_loop_marks:
  "off = idx * page \<Longrightarrow> 0 < page \<Longrightarrow> idx \<le> j \<Longrightarrow> j * page < end_off \<Longrightarrow> j div 64 < length bits \<Longrightarrow>
   marked (mark_loop page end_off off idx bits) j"
proof (induction page end_off off idx bits rule: mark_loop.induct)
  case (1 page end_off off idx bits)
  have in_range: "off < end_off" using "1.prems" by (metis le_less_trans mult_le_mono1)
  define b where "b = (if idx div 64 < length bits then bits[idx div 64 := or (bits ! (idx div 64)) (page_bit idx)] else bits)"
  have "mark_loop page end_off off idx bits = mark_loop page end_off (off + page) (Suc idx) b"
    using in_range "1.prems"(2) by (subst mark_loop.simps) (simp add: b_def)
  moreover have "marked (mark_loop page end_off (off + page) (Suc idx) b) j"
  proof (cases "j = idx")
    case True
    then have "marked b j" using "1.prems"(5) by (simp add: b_def marked_after)
    with mark_loop_mono show ?thesis by blast
  next
    case False
    then have "Suc idx \<le> j" "length b = length bits" using "1.prems"(3) by (simp_all add: b_def)
    with "1.IH" "1.prems" in_range show ?thesis by (simp add: b_def algebra_simps)
  qed
  ultimately show ?case by simp
qed

lemma page_word_count_covers:
  assumes "0 < page" and "j * page < fsize"
  shows "j div 64 < page_word_count fsize page"
proof -
  have "j < div_ceil fsize page"
  proof -
    have "(j + 1) * page \<le> fsize + page - 1" using assms by (simp add: algebra_simps)
    then have "j + 1 \<le> div_ceil fsize page" using assms(1) by (simp add: div_ceil_def less_eq_div_iff_mult_less_eq)
    then show ?thesis by simp
  qed
  then have "j div 64 < div_ceil (div_ceil fsize page) 64" unfolding div_ceil_def [of _ 64] by linarith
  then show ?thesis by (simp add: page_word_count_def)
qed

subsection \<open>The reader\<close>

definition hybrid_ok :: "hybrid \<Rightarrow> bool" where
  "hybrid_ok s \<longleftrightarrow> 0 < hy_page s \<and> hy_size s = length (hy_file s) \<and> hy_map s \<in> {None, Some (hy_size s)}
     \<and> length (hy_bits s) = page_word_count (hy_size s) (hy_page s)"

definition knows :: "hybrid \<Rightarrow> nat \<Rightarrow> nat \<Rightarrow> bool" where
  "knows s off len \<longleftrightarrow> hy_map s = Some (hy_size s)
     \<and> (\<forall>j \<ge> off div hy_page s. j * hy_page s < off + len \<longrightarrow> marked (hy_bits s) j)"

lemma open_ok: "hy_open fs sc p ttl = Inr s \<Longrightarrow> hybrid_ok s \<and> fs p = Some (hy_file s)"
  by (auto simp: hy_open_def hybrid_ok_def page_size_bytes_def Let_def split: option.splits)

lemma page_start: "off - off mod page = off div page * page" for off :: nat
  by (metis minus_mod_eq_div_mult)

lemma fast_read:
  assumes "hybrid_ok s" and "can_fast_read_via_mmap now rs mlen off len s = (ok, s')"
  shows "hybrid_ok s'" "hy_file s' = hy_file s" "hy_map s' = hy_map s"
    "ok \<Longrightarrow> hy_map s = Some (hy_size s) \<Longrightarrow> knows s' off len"
proof -
  define c where "c = maybe_cleanup_mincore_cache now s"
  have c: "hy_page c = hy_page s" "hy_size c = hy_size s" "hy_file c = hy_file s" "hy_map c = hy_map s"
    "length (hy_bits c) = length (hy_bits s)"
    by (simp_all add: c_def maybe_cleanup_mincore_cache_def)
  obtain bits where l: "fast_loop rs (hy_page s) mlen (off + len) (off div hy_page s * hy_page s) (off div hy_page s) (hy_bits c) = (ok, bits)"
    and s': "s' = c\<lparr>hy_bits := bits\<rparr>"
    using assms c by (auto simp: can_fast_read_via_mmap_def Let_def c_def [symmetric] page_start hybrid_ok_def split: prod.splits)
  show "hybrid_ok s'" "hy_file s' = hy_file s" "hy_map s' = hy_map s"
    using assms(1) fast_loop_mono [OF l] c by (auto simp: s' hybrid_ok_def)
  show "knows s' off len" if "ok" "hy_map s = Some (hy_size s)"
    using that l c assms(1) by (auto simp: knows_def s' hybrid_ok_def intro!: fast_loop_marks)
qed

lemma try_read:
  assumes "hybrid_ok s" and "off + len \<le> hy_size s" and "try_mmap_read X i off len s = (r, s')"
  shows "hybrid_ok s'" "hy_file s' = hy_file s" "hy_map s' = hy_map s"
    "r = Some d \<Longrightarrow> d = take len (drop off (hy_file s)) \<and> knows s' off len"
proof -
  obtain ok s1 where f: "can_fast_read_via_mmap (hx_now X i) (hx_resident X i) (hy_size s) off len s = (ok, s1)"
    by fastforce
  note k = fast_read [OF assms(1) f]
  have "hybrid_ok s' \<and> hy_file s' = hy_file s \<and> hy_map s' = hy_map s
      \<and> (r = Some d \<longrightarrow> d = take len (drop off (hy_file s)) \<and> knows s' off len)"
  proof (cases "hy_map s")
    case None
    with assms show ?thesis by (simp add: try_mmap_read_def)
  next
    case (Some n)
    with assms(1) have "n = hy_size s" "hy_size s = length (hy_file s)" by (auto simp: hybrid_ok_def)
    with assms(2,3) f k Some show ?thesis by (auto simp: try_mmap_read_def split: bool.splits)
  qed
  then show "hybrid_ok s'" "hy_file s' = hy_file s" "hy_map s' = hy_map s"
    "r = Some d \<Longrightarrow> d = take len (drop off (hy_file s)) \<and> knows s' off len" by blast+
qed

definition system_ok :: "hyenv \<Rightarrow> bool" where
  "system_ok X \<longleftrightarrow> sys_ok (hx_pread X) \<and> (\<forall>n. hx_mmap X n = Inr ())"

lemma mapped_ok:
  assumes "hybrid_ok s" and "system_ok X" and "0 < hy_size s"
  shows "\<exists>s'. hy_ensure_mapped X s = (Inr (), s') \<and> hybrid_ok s' \<and> hy_file s' = hy_file s \<and> hy_size s' = hy_size s
    \<and> hy_map s' = Some (hy_size s)"
  using assms by (auto simp: hy_ensure_mapped_def hybrid_ok_def system_ok_def)

lemma mark_ok:
  assumes "hybrid_ok s" and "hy_map s = Some (hy_size s)" and "off + len \<le> hy_size s"
  shows "hybrid_ok (mark_pages_resident off len s)" "knows (mark_pages_resident off len s) off len"
    "hy_file (mark_pages_resident off len s) = hy_file s"
proof -
  have "j div 64 < length (hy_bits s)" if "j * hy_page s < off + len" for j
    using page_word_count_covers [of "hy_page s" j "hy_size s"] assms that by (simp add: hybrid_ok_def)
  then show "knows (mark_pages_resident off len s) off len"
    using assms by (auto simp: knows_def mark_pages_resident_def Let_def page_start hybrid_ok_def intro!: mark_loop_marks)
  show "hybrid_ok (mark_pages_resident off len s)" "hy_file (mark_pages_resident off len s) = hy_file s"
    using assms(1) mark_loop_mono by (auto simp: hybrid_ok_def mark_pages_resident_def Let_def)
qed

lemma syscall_read:
  assumes "hybrid_ok s" and "system_ok X" and "off + len \<le> hy_size s" and "0 < len"
  shows "\<exists>s'. read_via_syscall X off len s = (Inr (take len (drop off (hy_file s))), s') \<and> hybrid_ok s'
    \<and> hy_file s' = hy_file s \<and> knows s' off len"
proof -
  obtain s1 where 1: "hy_ensure_mapped X s = (Inr (), s1)" "hybrid_ok s1" "hy_file s1 = hy_file s" "hy_size s1 = hy_size s"
    "hy_map s1 = Some (hy_size s1)" using mapped_ok [OF assms(1,2)] assms(3,4) by auto
  obtain r s2 where 2: "try_mmap_read X 1 off len s1 = (r, s2)" by fastforce
  note t = try_read [OF 1(2) _ 2]
  have pread: "read_exact_at_sync (hx_pread X) (hy_file s) off len = Inr (take len (drop off (hy_file s)))"
    using assms by (simp add: read_exact_at_sync_def read_loop_spec system_ok_def hybrid_ok_def)
  show ?thesis
  proof (cases r)
    case (Some d)
    with t(1,2,3) t(4) [OF _ Some] 1 2 assms(3) show ?thesis by (auto simp: read_via_syscall_def)
  next
    case None
    have "hy_size s2 = hy_size s1" using t(1,2) 1 assms(3) by (simp add: hybrid_ok_def)
    with t 1 assms(3) have "hybrid_ok s2" "hy_map s2 = Some (hy_size s2)" "off + len \<le> hy_size s2" "hy_file s2 = hy_file s" by simp_all
    with mark_ok [of s2 off len] 1 2 None pread show ?thesis by (auto simp: read_via_syscall_def)
  qed
qed

lemma hy_read:
  assumes "hybrid_ok s" and "system_ok X"
  shows "\<exists>s'. hy_read_at X off len s = (Inr (take len (drop off (hy_file s))), s') \<and> hybrid_ok s' \<and> hy_file s' = hy_file s
    \<and> (0 < len \<and> off < hy_size s \<longrightarrow> knows s' off (min len (hy_size s - off)))"
proof (cases "len = 0 \<or> hy_size s \<le> off")
  case True
  with assms(1) show ?thesis by (auto simp: hy_read_at_def hybrid_ok_def)
next
  case False
  define n where "n = min len (hy_size s - off)"
  have n: "off + n \<le> hy_size s" "0 < n" "take n (drop off (hy_file s)) = take len (drop off (hy_file s))"
    using False assms(1) by (auto simp: n_def hybrid_ok_def min_def)
  obtain r s1 where t: "try_mmap_read X 0 off n s = (r, s1)" by fastforce
  note k = try_read [OF assms(1) n(1) t]
  have "hy_read_at X off len s = (case r of Some d \<Rightarrow> (Inr d, s1) | None \<Rightarrow> read_via_syscall X off n s1)"
    using False t by (simp add: hy_read_at_def Let_def n_def [symmetric] split: option.splits)
  moreover have "hy_size s1 = hy_size s" using k(1,2) assms(1) by (simp add: hybrid_ok_def)
  ultimately show ?thesis
    using k syscall_read [OF k(1) assms(2), of off n] n by (cases r) (auto simp: n_def [symmetric])
qed

text \<open>Once the pages of a range are known the mapping answers, and nothing changes.\<close>

lemma warm_read:
  assumes "hybrid_ok s" and "knows s off len" and "0 < len" and "off + len \<le> hy_size s" and "hx_now X 0 \<le> hy_next s"
  shows "hy_read_at X off len s = (Inr (take len (drop off (hy_file s))), s)"
proof -
  have "fast_loop (hx_resident X 0) (hy_page s) (hy_size s) (off + len) (off div hy_page s * hy_page s) (off div hy_page s) (hy_bits s)
      = (True, hy_bits s)"
    by (rule fast_loop_known) (use assms(2) in \<open>auto simp: knows_def\<close>)
  then have "can_fast_read_via_mmap (hx_now X 0) (hx_resident X 0) (hy_size s) off len s = (True, s)"
    using assms(1,5) by (simp add: can_fast_read_via_mmap_def maybe_cleanup_mincore_cache_def Let_def page_start hybrid_ok_def)
  moreover have "take (hy_size s) (hy_file s) = hy_file s" using assms(1) unfolding hybrid_ok_def by simp
  moreover have "hy_map s = Some (hy_size s)" using assms(2) unfolding knows_def by blast
  ultimately have "try_mmap_read X 0 off len s = (Some (take len (drop off (hy_file s))), s)"
    using assms(4) by (simp add: try_mmap_read_def)
  with assms show ?thesis by (simp add: hy_read_at_def)
qed

lemma hybrid_loop:
  "hybrid_ok s \<Longrightarrow> \<forall>i. system_ok (Xs i) \<Longrightarrow> \<exists>s'. hybrid_read_loop Xs err i off want acc s =
     (if want = 0 \<or> off + want \<le> hy_size s then Inr (acc @ take want (drop off (hy_file s)))
      else Inl err, s') \<and> hybrid_ok s' \<and> hy_file s' = hy_file s"
proof (induction want arbitrary: i off acc s rule: less_induct)
  case (less want)
  show ?case
  proof (cases "want = 0")
    case True
    with less.prems show ?thesis by (simp add: hybrid_read_loop.simps [of _ _ _ _ 0])
  next
    case False
    let ?d = "take want (drop off (hy_file s))"
    from hy_read [OF less.prems(1), of "Xs i" off want] less.prems(2) obtain s1 where
      s1: "hy_read_at (Xs i) off want s = (Inr ?d, s1)" "hybrid_ok s1" "hy_file s1 = hy_file s" by blast
    have size: "hy_size s1 = hy_size s" "hy_size s = length (hy_file s)" using s1 less.prems(1) by (simp_all add: hybrid_ok_def)
    show ?thesis
    proof (cases "?d = []")
      case True
      with False size s1 show ?thesis by (subst hybrid_read_loop.simps) auto
    next
      case ne: False
      let ?n = "length ?d"
      have "want - ?n < want" using ne False by simp
      from less.IH [OF this s1(2) less.prems(2), of "i + 1" "off + ?n" "acc @ ?d"] obtain s2 where
        s2: "hybrid_read_loop Xs err (i + 1) (off + ?n) (want - ?n) (acc @ ?d) s1 =
          (if want - ?n = 0 \<or> off + ?n + (want - ?n) \<le> hy_size s1 then Inr ((acc @ ?d) @ take (want - ?n) (drop (off + ?n) (hy_file s1)))
           else Inl err, s2)" "hybrid_ok s2" "hy_file s2 = hy_file s1" by blast
      have "hybrid_read_loop Xs err i off want acc s = hybrid_read_loop Xs err (i + 1) (off + ?n) (want - ?n) (acc @ ?d) s1"
        using False ne s1(1) by (subst hybrid_read_loop.simps) simp
      with s2 s1(3) size ne show ?thesis by (auto simp: min_def)
    qed
  qed
qed

subsection \<open>Properties\<close>

text \<open>
  C14: reading through the mapping is reading the file.  Whatever the page cache holds, whenever the bitmap is cleared and
  however little a \<open>pread\<close> delivers, an exact read through the mapped reader returns what an exact read
  with \<open>pread\<close> returns, for every range; and a range that was read once is read again from the mapping alone, without any
  call of the system but the clock, until the bitmap is cleared.
\<close>

theorem mmap_reader_matches_pread:
  assumes "hybrid_ok s" and "\<forall>i. system_ok (Xs i)" and "sys_ok sys"
  shows "(\<exists>s'. hybrid_read_exact_at Xs off len s = (read_exact_at sys (hy_file s) off len, s') \<and> hybrid_ok s' \<and> hy_file s' = hy_file s)
    \<and> (0 < len \<longrightarrow> off + len \<le> hy_size s \<longrightarrow> (\<forall>r s1. hy_read_at (Xs 0) off len s = (r, s1) \<longrightarrow> hx_now Y 0 \<le> hy_next s1 \<longrightarrow>
      hy_read_at Y off len s1 = (r, s1) \<and> r = Inr (take len (drop off (hy_file s)))))"
proof -
  have "hy_size s = length (hy_file s)" using assms(1) by (simp add: hybrid_ok_def)
  moreover obtain s' where "hybrid_read_loop Xs (unexpected_eof len off) 0 off len [] s =
      (if len = 0 \<or> off + len \<le> hy_size s then Inr ([] @ take len (drop off (hy_file s)))
       else Inl (unexpected_eof len off), s') \<and> hybrid_ok s' \<and> hy_file s' = hy_file s"
    using hybrid_loop [OF assms(1,2), of "unexpected_eof len off" 0 off len "[]"] by blast
  ultimately have 1: "\<exists>s'. hybrid_read_exact_at Xs off len s = (read_exact_at sys (hy_file s) off len, s') \<and> hybrid_ok s' \<and> hy_file s' = hy_file s"
    using assms(3) by (intro exI [of _ s']) (simp add: hybrid_read_exact_at_def read_exact_at_spec)
  have 2: "hy_read_at Y off len s1 = (r, s1) \<and> r = Inr (take len (drop off (hy_file s)))"
    if a: "0 < len" "off + len \<le> hy_size s" "hy_read_at (Xs 0) off len s = (r, s1)" "hx_now Y 0 \<le> hy_next s1" for r s1
  proof -
    have "min len (hy_size s - off) = len" using a(2) by simp
    with hy_read [OF assms(1), of "Xs 0" off len] a assms(2)
    have s1: "r = Inr (take len (drop off (hy_file s)))" "hybrid_ok s1" "hy_file s1 = hy_file s" "knows s1 off len" by auto
    moreover have "hy_size s1 = hy_size s" using s1 assms(1) by (simp add: hybrid_ok_def)
    ultimately show ?thesis using warm_read [OF s1(2,4) a(1) _ a(4)] a(2) by simp
  qed
  from 1 2 show ?thesis by blast
qed

text \<open>A file of ten bytes in pages of four; nothing is in the page cache, and a \<open>pread\<close> delivers one byte.\<close>

definition cold_system :: hyenv where
  "cold_system = \<lparr>hx_now = (\<lambda>_. 5), hx_resident = (\<lambda>_ _. False), hx_pread = (\<lambda>_ _. 1), hx_mmap = (\<lambda>_. Inr ())\<rparr>"

theorem mmap_reader_matches_pread_witness:
  "\<exists>s s1 s2. hy_open (\<lambda>_. Some [0, 1, 2, 3, 4, 5, 6, 7, 8, 9]) 4 ''t'' 60 = Inr s
     \<and> hybrid_read_exact_at (\<lambda>_. cold_system) 3 4 s = (Inr [3, 4, 5, 6], s1)
     \<and> hy_read_at (cold_system\<lparr>hx_pread := \<lambda>_ _. 0\<rparr>) 3 4 s2 = (Inr [3, 4, 5, 6], s2)"
proof -
  let ?f = "[0, 1, 2, 3, 4, 5, 6, 7, 8, 9] :: bytes"
  define s where "s = \<lparr>hy_page = 4, hy_size = 10, hy_file = ?f, hy_map = None, hy_bits = [0], hy_next = 0, hy_ttl = 60\<rparr>"
  have s: "hy_open (\<lambda>_. Some ?f) 4 ''t'' 60 = Inr s"
    by (simp add: hy_open_def s_def page_size_bytes_def page_word_count_def div_ceil_def Let_def)
  have ok: "hybrid_ok s" using open_ok [OF s] by simp
  have X: "\<forall>i. system_ok cold_system" "sys_ok (\<lambda>_ _. 1)" by (simp_all add: system_ok_def cold_system_def sys_ok_def)
  from mmap_reader_matches_pread [OF ok X, of 3 4] obtain s1 where
    "hybrid_read_exact_at (\<lambda>_. cold_system) 3 4 s = (read_exact_at (\<lambda>_ _. 1) (hy_file s) 3 4, s1)" by blast
  moreover have "read_exact_at (\<lambda>_ _. 1) (hy_file s) 3 4 = Inr [3, 4, 5, 6]" using X by (simp add: read_exact_at_spec s_def)
  moreover obtain r s2 where r: "hy_read_at cold_system 3 4 s = (r, s2)" by fastforce
  have "hy_next s2 = 65"
    using r by (simp add: s_def hy_read_at_def try_mmap_read_def read_via_syscall_def hy_ensure_mapped_def cold_system_def Let_def
        can_fast_read_via_mmap_def maybe_cleanup_mincore_cache_def fast_loop.simps page_bit_def mark_pages_resident_def
        read_exact_at_sync_def read_loop_spec sys_ok_def) auto
  with mmap_reader_matches_pread [OF ok X, of 3 4 "cold_system\<lparr>hx_pread := \<lambda>_ _. 0\<rparr>"] r
  have "hy_read_at (cold_system\<lparr>hx_pread := \<lambda>_ _. 0\<rparr>) 3 4 s2 = (Inr [3, 4, 5, 6], s2)"
    by (simp add: cold_system_def s_def)
  ultimately show ?thesis using s by (metis (no_types))
qed

end
