(* ===== verification/Storage_Adapter.thy ===== *)
theory Storage_Adapter
  imports Engine_Config Engine_Stats Storage_Config
begin

text \<open>
  The interface of a storage engine and the adapter over it: the trait of \<open>crates/f4kvs-storage-core/src/traits.rs\<close> with
  its default methods, the implementation by the engine (\<open>f4kvs-lsm/src/core/engine.rs\<close>), the trait of
  \<open>storage_traits.rs\<close> and the adapter of \<open>adapter.rs\<close> from the first to the second.  The two contracts are locales over
  requests and answers; the engine of a configuration is an interpretation of the first.
\<close>

subsection \<open>The trait of the engines\<close>

datatype write_durability = Acknowledged | Durable

record ('n, 's) storage_engine =
  se_get :: "key \<Rightarrow> 's \<Rightarrow> 'n val option kv \<times> 's"
  se_put :: "nat \<Rightarrow> key \<Rightarrow> 'n val \<Rightarrow> 's \<Rightarrow> unit kv \<times> 's"
  se_delete :: "nat \<Rightarrow> key \<Rightarrow> 's \<Rightarrow> unit kv \<times> 's"
  se_exists :: "key \<Rightarrow> 's \<Rightarrow> bool kv"
  se_get_cf :: "bytes \<Rightarrow> key \<Rightarrow> 's \<Rightarrow> 'n val option kv \<times> 's"
  se_put_cf :: "nat \<Rightarrow> bytes \<Rightarrow> key \<Rightarrow> 'n val \<Rightarrow> 's \<Rightarrow> unit kv \<times> 's"
  se_delete_cf :: "nat \<Rightarrow> bytes \<Rightarrow> key \<Rightarrow> 's \<Rightarrow> unit kv \<times> 's"
  se_exists_cf :: "bytes \<Rightarrow> key \<Rightarrow> 's \<Rightarrow> bool kv \<times> 's"
  se_put_with_ttl :: "nat \<Rightarrow> key \<Rightarrow> 'n val \<Rightarrow> nat \<Rightarrow> 's \<Rightarrow> unit kv \<times> 's"
  se_put_cf_with_ttl :: "nat \<Rightarrow> bytes \<Rightarrow> key \<Rightarrow> 'n val \<Rightarrow> nat \<Rightarrow> 's \<Rightarrow> unit kv \<times> 's"
  se_get_ttl :: "key \<Rightarrow> 's \<Rightarrow> nat option kv"
  se_get_ttl_cf :: "bytes \<Rightarrow> key \<Rightarrow> 's \<Rightarrow> nat option kv"
  se_batch_put :: "nat \<Rightarrow> (key \<times> 'n val) list \<Rightarrow> 's \<Rightarrow> unit kv \<times> 's"
  se_batch_get :: "key list \<Rightarrow> 's \<Rightarrow> 'n val option list kv \<times> 's"
  se_batch_delete :: "nat \<Rightarrow> key list \<Rightarrow> 's \<Rightarrow> unit kv \<times> 's"
  se_batch_put_cf :: "nat \<Rightarrow> bytes \<Rightarrow> (key \<times> 'n val) list \<Rightarrow> 's \<Rightarrow> unit kv \<times> 's"
  se_batch_get_cf :: "bytes \<Rightarrow> key list \<Rightarrow> 's \<Rightarrow> 'n val option list kv \<times> 's"
  se_batch_delete_cf :: "nat \<Rightarrow> bytes \<Rightarrow> key list \<Rightarrow> 's \<Rightarrow> unit kv \<times> 's"
  se_scan_prefix :: "key \<Rightarrow> 's \<Rightarrow> key list kv"
  se_scan_range :: "key \<Rightarrow> key \<Rightarrow> 's \<Rightarrow> key list kv option"
  se_scan_range_limit :: "key \<Rightarrow> key \<Rightarrow> nat \<Rightarrow> 's \<Rightarrow> key list kv option"
  se_scan_prefix_cf :: "key \<Rightarrow> bytes \<Rightarrow> 's \<Rightarrow> key list kv"
  se_scan_range_cf :: "key \<Rightarrow> key \<Rightarrow> bytes \<Rightarrow> 's \<Rightarrow> key list kv option"
  se_scan_range_limit_cf :: "key \<Rightarrow> key \<Rightarrow> nat \<Rightarrow> bytes \<Rightarrow> 's \<Rightarrow> key list kv option"
  se_scan_prefix_with_values :: "key \<Rightarrow> 's \<Rightarrow> (key \<times> 'n val) list kv"
  se_scan_range_with_values :: "key \<Rightarrow> key \<Rightarrow> 's \<Rightarrow> (key \<times> 'n val) list kv option"
  se_scan_range_limit_with_values :: "key \<Rightarrow> key \<Rightarrow> nat \<Rightarrow> 's \<Rightarrow> (key \<times> 'n val) list kv option"
  se_scan_prefix_with_values_cf :: "key \<Rightarrow> bytes \<Rightarrow> 's \<Rightarrow> (key \<times> 'n val) list kv"
  se_scan_range_with_values_cf :: "key \<Rightarrow> key \<Rightarrow> bytes \<Rightarrow> 's \<Rightarrow> (key \<times> 'n val) list kv option"
  se_scan_all :: "'s \<Rightarrow> (key \<times> 'n val) list kv"
  se_scan_all_cf :: "bytes \<Rightarrow> 's \<Rightarrow> (key \<times> 'n val) list kv"
  se_iter_range :: "key \<Rightarrow> key \<Rightarrow> 's \<Rightarrow> 'n kv_iter kv option"
  se_iter_range_cf :: "key \<Rightarrow> key \<Rightarrow> bytes \<Rightarrow> 's \<Rightarrow> 'n kv_iter kv option"
  se_flush :: "nat \<Rightarrow> 's \<Rightarrow> unit kv \<times> 's"
  se_compact :: "'s \<Rightarrow> unit kv \<times> 's"
  se_stats :: "nat \<Rightarrow> 's \<Rightarrow> storage_stats kv"
  se_keys :: "'s \<Rightarrow> key list kv"
  se_count :: "'s \<Rightarrow> u64 kv"
  se_clear :: "'s \<Rightarrow> unit kv \<times> 's"
  se_create_cf :: "bytes \<Rightarrow> 's \<Rightarrow> unit kv \<times> 's"
  se_drop_cf :: "bytes \<Rightarrow> 's \<Rightarrow> unit kv \<times> 's"
  se_list_cfs :: "'s \<Rightarrow> bytes list"
  se_shutdown :: "'s \<Rightarrow> unit kv \<times> 's"

text \<open>The default methods.\<close>

definition put_durable :: "('n, 's) storage_engine \<Rightarrow> nat \<Rightarrow> key \<Rightarrow> 'n val \<Rightarrow> 's \<Rightarrow> unit kv \<times> 's" where
  "put_durable A now k v s = (case se_put A now k v s of (Inl e, s) \<Rightarrow> (Inl e, s) | (Inr _, s) \<Rightarrow> se_flush A now s)"

definition default_keys :: "('n, 's) storage_engine \<Rightarrow> 's \<Rightarrow> key list kv" where
  "default_keys A s = se_scan_prefix A [] s"

definition default_count :: "('n, 's) storage_engine \<Rightarrow> 's \<Rightarrow> u64 kv" where
  "default_count A s = map_sum id (\<lambda>ks. word_of_nat (length ks)) (se_keys A s)"

definition default_clear :: "'s \<Rightarrow> unit kv \<times> 's" where
  "default_clear s = (Inl (StorageError ''Clear operation not supported by this storage backend''), s)"

definition begin_transaction :: "'t kv" where
  "begin_transaction = Inl (StorageError ''Transactions not supported by this storage backend'')"

definition default_shutdown :: "'s \<Rightarrow> unit kv \<times> 's" where
  "default_shutdown s = (Inr (), s)"

definition get_detailed_metrics_summary :: "string option kv" where
  "get_detailed_metrics_summary = Inr None"

definition export_detailed_metrics_prometheus :: "string option kv" where
  "export_detailed_metrics_prometheus = Inr None"

datatype trait_health = HealthyNow | DegradedBy string | UnhealthyBy string

fun trait_health_text :: "trait_health \<Rightarrow> string" where
  "trait_health_text HealthyNow = ''healthy''"
| "trait_health_text (DegradedBy reason) = ''degraded: '' @ reason"
| "trait_health_text (UnhealthyBy reason) = ''unhealthy: '' @ reason"

record trait_compaction_config =
  tc_max_background :: u32
  tc_level_base :: u64
  tc_l0_trigger :: u32
  tc_l0_slowdown :: u32
  tc_l0_stop :: u32

definition default_trait_compaction_config :: trait_compaction_config where
  "default_trait_compaction_config = \<lparr>tc_max_background = 1, tc_level_base = 256 * 1024 * 1024, tc_l0_trigger = 4,
     tc_l0_slowdown = 20, tc_l0_stop = 36\<rparr>"

text \<open>The engine as an implementation; it overrides \<open>keys\<close>, \<open>count\<close> and \<open>clear\<close>, and not \<open>shutdown\<close>.\<close>

definition lsm_storage :: "'n ecfg \<Rightarrow> ('n, 'w) wal_ops \<Rightarrow> 'k cache \<Rightarrow> ('n, ('n, 'w) engine) storage_engine" where
  "lsm_storage E lg c = \<lparr>se_get = eng_get E, se_put = eng_put E lg, se_delete = eng_delete E lg,
     se_exists = (\<lambda>k e. Inr (eng_exists E k e)), se_get_cf = get_cf E, se_put_cf = put_cf E lg,
     se_delete_cf = delete_cf E lg, se_exists_cf = exists_cf E, se_put_with_ttl = eng_put_with_ttl E lg,
     se_put_cf_with_ttl = put_cf_with_ttl E lg, se_get_ttl = (\<lambda>k _. get_ttl k), se_get_ttl_cf = get_ttl_cf, se_batch_put = eng_batch_put E lg, se_batch_get = eng_batch_get E,
     se_batch_delete = eng_batch_delete E lg, se_batch_put_cf = batch_put_cf E lg, se_batch_get_cf = batch_get_cf E,
     se_batch_delete_cf = batch_delete_cf E lg, se_scan_prefix = eng_scan_prefix E, se_scan_range = eng_scan_range E,
     se_scan_range_limit = eng_scan_range_limit E, se_scan_prefix_cf = scan_prefix_cf E, se_scan_range_cf = scan_range_cf E,
     se_scan_range_limit_cf = scan_range_limit_cf E,
     se_scan_prefix_with_values = eng_scan_prefix_with_values E, se_scan_range_with_values = eng_scan_range_with_values E,
     se_scan_range_limit_with_values = eng_scan_range_limit_with_values E,
     se_scan_prefix_with_values_cf = scan_prefix_with_values_cf E, se_scan_range_with_values_cf = scan_range_with_values_cf E,
     se_scan_all = eng_scan_all E, se_scan_all_cf = scan_all_cf E, se_iter_range = eng_iter_range E,
     se_iter_range_cf = iter_range_cf E, se_flush = eng_flush E lg, se_compact = eng_compact E, se_stats = (\<lambda>now e. Inr (eng_stats now c e)),
     se_keys = eng_keys E, se_count = (\<lambda>e. Inr (eng_count e)), se_clear = eng_clear E lg,
     se_create_cf = (\<lambda>cf e. (Inr (), create_column_family cf e)), se_drop_cf = (\<lambda>cf e. (Inr (), drop_column_family cf e)),
     se_list_cfs = list_column_families, se_shutdown = default_shutdown\<rparr>"

subsection \<open>The adapter\<close>

definition storage_failed :: "kv_error \<Rightarrow> kv_error" where
  "storage_failed e = StorageError (''Storage error: '' @ kv_display e)"

definition adapt :: "'a kv \<Rightarrow> 'a kv" where
  "adapt r = map_sum storage_failed id r"

definition ad_get :: "('n, 's) storage_engine \<Rightarrow> key \<Rightarrow> 's \<Rightarrow> 'n val option kv \<times> 's" where
  "ad_get A k s = apfst adapt (se_get A k s)"

definition ad_put :: "('n, 's) storage_engine \<Rightarrow> nat \<Rightarrow> key \<Rightarrow> 'n val \<Rightarrow> 's \<Rightarrow> unit kv \<times> 's" where
  "ad_put A now k v s = apfst adapt (se_put A now k v s)"

definition ad_delete :: "('n, 's) storage_engine \<Rightarrow> nat \<Rightarrow> key \<Rightarrow> 's \<Rightarrow> unit kv \<times> 's" where
  "ad_delete A now k s = apfst adapt (se_delete A now k s)"

definition ad_exists :: "('n, 's) storage_engine \<Rightarrow> key \<Rightarrow> 's \<Rightarrow> bool kv" where
  "ad_exists A k s = adapt (se_exists A k s)"

definition ad_keys :: "('n, 's) storage_engine \<Rightarrow> 's \<Rightarrow> key list kv" where
  "ad_keys A s = adapt (se_keys A s)"

definition ad_count :: "('n, 's) storage_engine \<Rightarrow> 's \<Rightarrow> u64 kv" where
  "ad_count A s = adapt (se_count A s)"

record core_stats =
  ct_keys :: nat
  ct_memory :: nat
  ct_total :: nat
  ct_gets :: nat
  ct_puts :: nat
  ct_deletes :: nat
  ct_scans :: nat
  ct_avg_key :: f64
  ct_avg_value :: f64
  ct_peak_memory :: nat
  ct_hits :: nat
  ct_misses :: nat

definition core_stats_of :: "storage_stats \<Rightarrow> core_stats" where
  "core_stats_of st = \<lparr>ct_keys = st_keys st, ct_memory = ku_total (st_memory st),
     ct_total = ki_ops (ks_read (st_io st)) + ki_ops (ks_write (st_io st)), ct_gets = ki_ops (ks_read (st_io st)),
     ct_puts = ki_ops (ks_write (st_io st)), ct_deletes = 0, ct_scans = 0, ct_avg_key = Fin 0,
     ct_avg_value = (if 0 < st_keys st then f64_div (f64_of_nat (st_bytes st)) (f64_of_nat (st_keys st)) else Fin 0),
     ct_peak_memory = ku_total (st_memory st), ct_hits = km_hits (kc_block (st_cache st)),
     ct_misses = km_misses (kc_block (st_cache st))\<rparr>"

definition ad_stats :: "('n, 's) storage_engine \<Rightarrow> nat \<Rightarrow> 's \<Rightarrow> core_stats kv" where
  "ad_stats A now s = map_sum id core_stats_of (adapt (se_stats A now s))"

definition ad_flush :: "('n, 's) storage_engine \<Rightarrow> nat \<Rightarrow> 's \<Rightarrow> unit kv \<times> 's" where
  "ad_flush A now s = apfst adapt (se_flush A now s)"

definition ad_clear :: "('n, 's) storage_engine \<Rightarrow> 's \<Rightarrow> unit kv \<times> 's" where
  "ad_clear A s = apfst adapt (se_clear A s)"

definition ad_batch_put :: "('n, 's) storage_engine \<Rightarrow> nat \<Rightarrow> (key \<times> 'n val) list \<Rightarrow> 's \<Rightarrow> unit kv \<times> 's" where
  "ad_batch_put A now items s = apfst adapt (se_batch_put A now items s)"

definition ad_batch_get :: "('n, 's) storage_engine \<Rightarrow> key list \<Rightarrow> 's \<Rightarrow> 'n val option list kv \<times> 's" where
  "ad_batch_get A ks s = apfst adapt (se_batch_get A ks s)"

definition ad_batch_delete :: "('n, 's) storage_engine \<Rightarrow> nat \<Rightarrow> key list \<Rightarrow> 's \<Rightarrow> unit kv \<times> 's" where
  "ad_batch_delete A now ks s = apfst adapt (se_batch_delete A now ks s)"

definition ad_scan_prefix :: "('n, 's) storage_engine \<Rightarrow> key \<Rightarrow> 's \<Rightarrow> key list kv" where
  "ad_scan_prefix A p s = adapt (se_scan_prefix A p s)"

definition ad_scan_range :: "('n, 's) storage_engine \<Rightarrow> key \<Rightarrow> key \<Rightarrow> 's \<Rightarrow> key list kv option" where
  "ad_scan_range A a b s = map_option adapt (se_scan_range A a b s)"

definition ad_scan_prefix_pairs :: "('n, 's) storage_engine \<Rightarrow> key \<Rightarrow> 's \<Rightarrow> (key \<times> 'n val) list kv" where
  "ad_scan_prefix_pairs A p s = adapt (se_scan_prefix_with_values A p s)"

definition ad_scan_range_pairs :: "('n, 's) storage_engine \<Rightarrow> key \<Rightarrow> key \<Rightarrow> 's \<Rightarrow> (key \<times> 'n val) list kv option" where
  "ad_scan_range_pairs A a b s = map_option adapt (se_scan_range_with_values A a b s)"

definition ad_count_prefix :: "('n, 's) storage_engine \<Rightarrow> key \<Rightarrow> 's \<Rightarrow> u64 kv" where
  "ad_count_prefix A p s = map_sum id (\<lambda>ks. word_of_nat (length ks)) (adapt (se_scan_prefix A p s))"

definition ad_count_range :: "('n, 's) storage_engine \<Rightarrow> key \<Rightarrow> key \<Rightarrow> 's \<Rightarrow> u64 kv option" where
  "ad_count_range A a b s =
     map_option (\<lambda>r. map_sum id (\<lambda>ks. word_of_nat (length ks)) (adapt r)) (se_scan_range A a b s)"

subsection \<open>Requests and answers\<close>

datatype 'n request =
    RGet key
  | RExists key
  | RBatchGet "key list"
  | RPut key "'n val"
  | RDelete key
  | RBatchPut "(key \<times> 'n val) list"
  | RBatchDelete "key list"
  | RFlush

datatype 'n answered = Done | Known bool | One "'n val option" | Many "'n val option list"

abbreviation done_of :: "unit kv \<times> 's \<Rightarrow> 'n answered kv \<times> 's" where
  "done_of r \<equiv> apfst (map_sum id (\<lambda>_. Done)) r"

fun serve_engine :: "('n, 's) storage_engine \<Rightarrow> nat \<Rightarrow> 'n request \<Rightarrow> 's \<Rightarrow> 'n answered kv \<times> 's" where
  "serve_engine A now (RGet k) s = apfst (map_sum id One) (se_get A k s)"
| "serve_engine A now (RExists k) s = (map_sum id Known (se_exists A k s), s)"
| "serve_engine A now (RBatchGet ks) s = apfst (map_sum id Many) (se_batch_get A ks s)"
| "serve_engine A now (RPut k v) s = done_of (se_put A now k v s)"
| "serve_engine A now (RDelete k) s = done_of (se_delete A now k s)"
| "serve_engine A now (RBatchPut kvs) s = done_of (se_batch_put A now kvs s)"
| "serve_engine A now (RBatchDelete ks) s = done_of (se_batch_delete A now ks s)"
| "serve_engine A now RFlush s = done_of (se_flush A now s)"

fun serve_adapter :: "('n, 's) storage_engine \<Rightarrow> nat \<Rightarrow> 'n request \<Rightarrow> 's \<Rightarrow> 'n answered kv \<times> 's" where
  "serve_adapter A now (RGet k) s = apfst (map_sum id One) (ad_get A k s)"
| "serve_adapter A now (RExists k) s = (map_sum id Known (ad_exists A k s), s)"
| "serve_adapter A now (RBatchGet ks) s = apfst (map_sum id Many) (ad_batch_get A ks s)"
| "serve_adapter A now (RPut k v) s = done_of (ad_put A now k v s)"
| "serve_adapter A now (RDelete k) s = done_of (ad_delete A now k s)"
| "serve_adapter A now (RBatchPut kvs) s = done_of (ad_batch_put A now kvs s)"
| "serve_adapter A now (RBatchDelete ks) s = done_of (ad_batch_delete A now ks s)"
| "serve_adapter A now RFlush s = done_of (ad_flush A now s)"

text \<open>What a map answers.\<close>

fun request_cmd :: "'n request \<Rightarrow> 'n cmd option" where
  "request_cmd (RPut k v) = Some (CPut k v)"
| "request_cmd (RDelete k) = Some (CDelete k)"
| "request_cmd (RBatchPut kvs) = Some (CBatch kvs)"
| "request_cmd (RBatchDelete ks) = Some (CDeletes ks)"
| "request_cmd RFlush = Some CFlush"
| "request_cmd _ = None"

fun request_spec :: "'n request \<Rightarrow> (key \<Rightarrow> 'n val option) \<Rightarrow> 'n answered \<times> (key \<Rightarrow> 'n val option)" where
  "request_spec (RGet k) V = (One (V k), V)"
| "request_spec (RExists k) V = (Known (V k \<noteq> None), V)"
| "request_spec (RBatchGet ks) V = (Many (map V ks), V)"
| "request_spec r V = (Done, cmd_spec (the (request_cmd r)) V)"

definition request_cost :: "'n request \<Rightarrow> nat" where
  "request_cost r = (case request_cmd r of None \<Rightarrow> 0 | Some c \<Rightarrow> cmd_cost c)"

definition request_ok :: "'n ecfg \<Rightarrow> ('n wal_entry \<Rightarrow> bool) \<Rightarrow> nat \<Rightarrow> 'n request \<Rightarrow> bool" where
  "request_ok E ok now r = (case request_cmd r of None \<Rightarrow> True | Some c \<Rightarrow> allowed E ok now c)"

fun session :: "(nat \<Rightarrow> 'n request \<Rightarrow> 's \<Rightarrow> 'a \<times> 's) \<Rightarrow> (nat \<times> 'n request) list \<Rightarrow> 's \<Rightarrow> 'a list \<times> 's" where
  "session f [] s = ([], s)"
| "session f ((now, r) # rs) s = (let (a, s) = f now r s; (as, s) = session f rs s in (a # as, s))"

fun session_spec :: "(nat \<times> 'n request) list \<Rightarrow> (key \<Rightarrow> 'n val option) \<Rightarrow> 'n answered list" where
  "session_spec [] V = []"
| "session_spec ((now, r) # rs) V = fst (request_spec r V) # session_spec rs (snd (request_spec r V))"

definition session_cost :: "(nat \<times> 'n request) list \<Rightarrow> nat" where
  "session_cost rs = sum_list (map (\<lambda>(_, r). request_cost r) rs)"

subsection \<open>The contracts\<close>

text \<open>What a client of \<open>storage_traits.rs\<close> is promised; \<open>n\<close> is the budget of writes, \<open>t\<close> the time of the last one.\<close>

locale core_store =
  fixes serve :: "nat \<Rightarrow> 'n request \<Rightarrow> 's \<Rightarrow> 'n answered kv \<times> 's"
    and holds :: "nat \<Rightarrow> nat \<Rightarrow> 's \<Rightarrow> (key \<Rightarrow> 'n val option) \<Rightarrow> bool"
    and ok :: "nat \<Rightarrow> 'n request \<Rightarrow> bool"
  assumes serves: "holds (n + request_cost r) t s V \<Longrightarrow> t \<le> now \<Longrightarrow> ok now r \<Longrightarrow>
    \<exists>s'. serve now r s = (Inr (fst (request_spec r V)), s') \<and> holds n now s' (snd (request_spec r V))"
begin

lemma session_answers:
  "holds (n + session_cost rs) t s V \<Longrightarrow> \<forall>(now, r) \<in> set rs. ok now r \<Longrightarrow> sorted (t # map fst rs) \<Longrightarrow>
    fst (session serve rs s) = map Inr (session_spec rs V)"
proof (induction rs arbitrary: t s V)
  case (Cons x rs)
  obtain now r where x: "x = (now, r)" by (cases x)
  have "holds (n + session_cost rs + request_cost r) t s V" "t \<le> now" "ok now r"
    using Cons.prems by (simp_all add: x session_cost_def ac_simps)
  from serves [OF this] obtain s' where
    s': "serve now r s = (Inr (fst (request_spec r V)), s')" "holds (n + session_cost rs) now s' (snd (request_spec r V))" by blast
  have "fst (session serve rs s') = map Inr (session_spec rs (snd (request_spec r V)))"
    by (rule Cons.IH [OF s'(2)]) (use Cons.prems in \<open>simp_all add: x\<close>)
  with s'(1) show ?case by (simp add: x Let_def split: prod.splits) (metis fst_conv)
qed simp

end

text \<open>What an engine promises; the default methods and the adapter keep it.\<close>

locale storage_backend =
  fixes A :: "('n, 's) storage_engine"
    and holds :: "nat \<Rightarrow> nat \<Rightarrow> 's \<Rightarrow> (key \<Rightarrow> 'n val option) \<Rightarrow> bool"
    and ok :: "nat \<Rightarrow> 'n request \<Rightarrow> bool"
  assumes engine_serves: "holds (n + request_cost r) t s V \<Longrightarrow> t \<le> now \<Longrightarrow> ok now r \<Longrightarrow>
    \<exists>s'. serve_engine A now r s = (Inr (fst (request_spec r V)), s') \<and> holds n now s' (snd (request_spec r V))"
begin

lemma done_success: "done_of p = (Inr Done, s') \<longleftrightarrow> p = (Inr (), s')" for p :: "unit kv \<times> 's"
  by (cases p; cases "fst p") auto

lemma put_durable_keeps:
  assumes "holds (n + 5) t s V" and "t \<le> now" and "ok now (RPut k v)" and "ok now RFlush"
  shows "\<exists>s'. put_durable A now k v s = (Inr (), s') \<and> holds n now s' (V(k := store_val v))"
proof -
  have "holds (n + 2 + request_cost (RPut k v)) t s V" using assms(1) by (simp add: request_cost_def cmd_cost_def numeral_eq_Suc)
  from engine_serves [OF this assms(2,3)] obtain s1 where
    1: "se_put A now k v s = (Inr (), s1)" "holds (n + 2) now s1 (V(k := store_val v))" by (auto simp: done_success)
  then have "holds (n + request_cost RFlush) now s1 (V(k := store_val v))" by (simp add: request_cost_def cmd_cost_def)
  from engine_serves [OF this order_refl assms(4)] obtain s2 where
    "se_flush A now s1 = (Inr (), s2)" "holds n now s2 (V(k := store_val v))" by (auto simp: done_success)
  with 1 show ?thesis by (simp add: put_durable_def)
qed

end

lemma serve_adapter_engine: "serve_adapter A now r s = apfst adapt (serve_engine A now r s)"
  by (cases r) (simp_all add: ad_get_def ad_exists_def ad_batch_get_def ad_put_def ad_delete_def ad_batch_put_def ad_batch_delete_def
      ad_flush_def adapt_def apfst_def map_prod_def sum.map_comp split: prod.split)

sublocale storage_backend \<subseteq> direct: core_store "serve_engine A" holds ok
  by unfold_locales (rule engine_serves)

sublocale storage_backend \<subseteq> adapted: core_store "serve_adapter A" holds ok
proof unfold_locales
  fix n r t s V now
  assume "holds (n + request_cost r) t s V" "t \<le> now" "ok now r"
  from engine_serves [OF this]
  show "\<exists>s'. serve_adapter A now r s = (Inr (fst (request_spec r V)), s') \<and> holds n now s' (snd (request_spec r V))"
    by (auto simp: serve_adapter_engine adapt_def)
qed

subsection \<open>The engine behind the interface\<close>

definition lsm_holds :: "'n ecfg \<Rightarrow> 'n log_kind \<Rightarrow> nat \<Rightarrow> nat \<Rightarrow> nat \<Rightarrow> ('n, 'n wal_handle) engine \<Rightarrow> (key \<Rightarrow> 'n val option) \<Rightarrow> bool" where
  "lsm_holds E K N n t e V \<longleftrightarrow> env_fine E \<and> ec_wal E \<and> durable E (handle_inv K) N n t e \<and> eng_view E e = V"

lemma get_frame: "data_of (snd (eng_get E k e)) = data_of e" "eg_wal (snd (eng_get E k e)) = eg_wal e"
  by (auto simp: eng_get_def note_get_def data_of_def Let_def split: lookup_result.split option.split)

lemma holds_after_get:
  assumes "lsm_holds E K N n t e V" and "t \<le> now"
  shows "\<exists>e'. eng_get E k e = (Inr (V k), e') \<and> lsm_holds E K N n now e' V"
proof -
  have "fst (eng_get E k e) = Inr (V k)" using assms(1) by (simp add: eng_get_view lsm_holds_def)
  moreover have "lsm_holds E K N n now (snd (eng_get E k e)) V"
    using assms durable_later by (fastforce simp: lsm_holds_def durable_frame [OF get_frame] view_frame [OF get_frame(1)])
  ultimately show ?thesis by (cases "eng_get E k e") simp
qed

lemma holds_after_gets:
  "lsm_holds E K N n t e V \<Longrightarrow> t \<le> now \<Longrightarrow>
    \<exists>e'. eng_batch_get E ks e = (Inr (map V ks), e') \<and> lsm_holds E K N n now e' V"
proof (induction ks arbitrary: t e)
  case Nil
  then show ?case using durable_later by (auto simp: lsm_holds_def)
next
  case (Cons k ks)
  from holds_after_get [OF Cons.prems] obtain e1 where e1: "eng_get E k e = (Inr (V k), e1)" "lsm_holds E K N n now e1 V" by blast
  from Cons.IH [OF e1(2)] e1(1) show ?case by auto
qed

lemma holds_after_cmd:
  assumes "lsm_holds E K N (n + cmd_cost c) t e V" and "t \<le> now" and "allowed E (handle_keeps K) now c"
    and "eng_step E handle_ops handle_crash now c e r e'"
  shows "r = Inr () \<and> lsm_holds E K N n now e' (cmd_spec c V)"
  using handle.durable_step(2) [OF _ _ _ assms(2,3,4)] assms(1) by (auto simp: lsm_holds_def)

lemma serve_step:
  assumes "request_cmd r = Some x"
  shows "\<exists>p. serve_engine (lsm_storage E lg c) now r e = done_of p \<and> eng_step E lg crash now x e (fst p) (snd p)"
proof (cases r)
  case (RPut k v)
  with assms show ?thesis by (intro exI [of _ "eng_put E lg now k v e"] conjI) (auto simp: lsm_storage_def intro!: step_put)
next
  case (RDelete k)
  with assms show ?thesis by (intro exI [of _ "eng_delete E lg now k e"] conjI) (auto simp: lsm_storage_def intro!: step_delete)
next
  case (RBatchPut kvs)
  with assms show ?thesis by (intro exI [of _ "eng_batch_put E lg now kvs e"] conjI) (auto simp: lsm_storage_def intro!: step_batch)
next
  case (RBatchDelete ks)
  with assms show ?thesis by (intro exI [of _ "eng_batch_delete E lg now ks e"] conjI) (auto simp: lsm_storage_def intro!: step_deletes)
next
  case RFlush
  with assms show ?thesis by (intro exI [of _ "eng_flush E lg now e"] conjI) (auto simp: lsm_storage_def intro!: step_flush)
qed (use assms in auto)

interpretation lsm: storage_backend "lsm_storage E handle_ops c" "lsm_holds E K N" "request_ok E (handle_keeps K)"
  for E c K N
proof unfold_locales
  fix n r t e V now
  assume h: "lsm_holds E K N (n + request_cost r) t e V" and t: "t \<le> now" and a: "request_ok E (handle_keeps K) now r"
  show "\<exists>e'. serve_engine (lsm_storage E handle_ops c) now r e = (Inr (fst (request_spec r V)), e')
      \<and> lsm_holds E K N n now e' (snd (request_spec r V))"
  proof (cases "request_cmd r")
    case None
    have h': "lsm_holds E K N n t e V" using h None by (simp add: request_cost_def)
    then have now: "lsm_holds E K N n now e V" "\<And>k. eng_exists E k e \<longleftrightarrow> V k \<noteq> None"
      using durable_later [OF _ t] by (auto simp: lsm_holds_def eng_exists_view)
    show ?thesis
    proof (cases r)
      case (RGet k)
      from holds_after_get [OF h' t, of k] show ?thesis by (auto simp: RGet lsm_storage_def)
    next
      case (RBatchGet ks)
      from holds_after_gets [OF h' t, of ks] show ?thesis by (auto simp: RBatchGet lsm_storage_def)
    qed (use None now in \<open>auto simp: lsm_storage_def\<close>)
  next
    case (Some x)
    have h': "lsm_holds E K N (n + cmd_cost x) t e V" and a': "allowed E (handle_keeps K) now x"
      using h a Some by (simp_all add: request_cost_def request_ok_def)
    from serve_step [OF Some] obtain p where s: "serve_engine (lsm_storage E handle_ops c) now r e = done_of p"
      "eng_step E handle_ops handle_crash now x e (fst p) (snd p)" by blast
    have "request_spec r V = (Done, cmd_spec x V)" using Some by (cases r) auto
    with holds_after_cmd [OF h' t a' s(2)] show ?thesis by (cases p) (auto simp: s(1))
  qed
qed

subsection \<open>From a generic configuration to a client\<close>

text \<open>\<open>create_lsm_engine\<close> of \<open>f4kvs-lsm/src/lib.rs\<close>, on an empty disk.\<close>

definition create_lsm_engine ::
  "'n codec \<Rightarrow> 'n ecfg \<Rightarrow> storage_config \<Rightarrow> nat \<Rightarrow> nat \<Rightarrow> unit kv \<times> ('n, 'n wal_handle) engine" where
  "create_lsm_engine K E sc now sp =
     apfst (map_sum (\<lambda>e. StorageError (''Failed to create LSM engine: '' @ lsm_display e)) id)
       (config_start K E (from_storage_config sc) now sp)"

lemma generic_durable: "durable_settings (from_storage_config sc) \<longleftrightarrow> sw_enabled (so_wal sc)"
  by (auto simp: durable_settings_def from_storage_config_def Let_def default_lsm_config_def default_wal_config_def
      default_compaction_config_def split: option.splits)

lemma generic_parts: "cf_data_dir (from_storage_config sc) = so_data_dir sc"
  "wc_segment_size (cf_wal (from_storage_config sc)) = sw_segment_size (so_wal sc)"
  "wc_engine (cf_wal (from_storage_config sc)) = SegmentWal"
  by (auto simp: from_storage_config_def Let_def default_lsm_config_def default_wal_config_def split: option.splits)

text \<open>An error of the engine loses its kind at the interface, and every error looks as if a retry could help.\<close>

lemma adapted_error: "adapt r = Inl e \<Longrightarrow> kv_is_recoverable e \<and> severity e = High"
  by (cases r) (auto simp: adapt_def storage_failed_def kv_is_recoverable_def)

text \<open>The engine leaves the counters unset from which the adapter takes operations and memory.\<close>

lemma engine_stats_at_interface:
  "\<exists>c. ad_stats (lsm_storage E lg b) now e = Inr c \<and> ct_keys c = unat (eg_live e) \<and> ct_total c = 0 \<and> ct_memory c = 0"
  by (simp add: ad_stats_def adapt_def lsm_storage_def core_stats_of_def eng_stats_def default_storage_stats_def
      default_io_stats_def default_io_metrics_def default_memory_stats_def)

text \<open>A shutdown through the interface is the default method: it reports success and changes nothing.\<close>

lemma interface_shutdown: "se_shutdown (lsm_storage E lg b) e = (Inr (), e)"
  by (simp add: lsm_storage_def default_shutdown_def)

text \<open>
  C2: the interface is a map.  Create an engine from a generic configuration that is accepted and has its log enabled, put
  the adapter over it, and send any requests within the budget: puts, deletes, batches and flushes mixed with
  reads, existence tests and batch reads.  The engine is created, and the adapter answers each request without an error and with
  what a map would answer at that point.
\<close>

theorem adapter_serves_map:
  assumes "validate (from_storage_config sc) = Inr ()" and "sw_enabled (so_wal sc)" and "codec_ok K"
    and "io_ok E0 (so_data_dir sc)" and "2 * Suc N * sw_segment_size (so_wal sc) \<le> sp" and "2 * (N * Suc N) + 8 < 2 ^ 64"
    and "N + 2 < 2 ^ 32" and "E = ecfg_of pow now (from_storage_config sc) E0"
  shows "\<exists>e0. create_lsm_engine K E sc t0 sp = (Inr (), e0) \<and>
    (\<forall>rs. (\<forall>(t, r) \<in> set rs. request_ok E (handle_keeps (KSegment (wenv_of K (cf_wal (from_storage_config sc))))) t r)
        \<and> session_cost rs \<le> N \<and> sorted (t0 # map fst rs) \<longrightarrow>
      fst (session (serve_adapter (lsm_storage E handle_ops c)) rs e0) = map Inr (session_spec rs (\<lambda>_. None)))"
proof -
  let ?c = "from_storage_config sc"
  let ?L = "KSegment (wenv_of K (cf_wal ?c))"
  have L: "kind_of K (cf_wal ?c) = ?L" by (simp add: kind_of_def generic_parts)
  have d: "durable_settings ?c" using assms(2) by (simp add: generic_durable)
  from config_starts [OF assms(1) d assms(3) _ _ assms(6,7,8), of sp t0] assms(4,5) generic_parts [of sc] obtain e0 where
    e0: "env_fine E" "ec_wal E" "config_start K E ?c t0 sp = (Inr (), e0)" "durable E (handle_inv ?L) N N t0 e0"
    "eng_view E e0 = (\<lambda>_. None)" unfolding L by auto
  have "fst (session (serve_adapter (lsm_storage E handle_ops c)) rs e0) = map Inr (session_spec rs (\<lambda>_. None))"
    if a: "\<forall>(t, r) \<in> set rs. request_ok E (handle_keeps ?L) t r" "session_cost rs \<le> N" "sorted (t0 # map fst rs)" for rs
  proof -
    from handle.durable_mono [OF e0(4), of "0 + session_cost rs"] a(2) e0
    have "lsm_holds E ?L N (0 + session_cost rs) t0 e0 (\<lambda>_. None)" by (simp add: lsm_holds_def)
    from lsm.adapted.session_answers [OF this a(1,3)] show ?thesis .
  qed
  with e0(3) show ?thesis by (auto simp: create_lsm_engine_def)
qed

definition small_storage_config :: storage_config where
  "small_storage_config = default_storage_config\<lparr>so_data_dir := ''/d'', so_wal := default_storage_wal_config\<lparr>sw_segment_size := 1024\<rparr>\<rparr>"

definition toy_requests :: "(nat \<times> nat request) list" where
  "toy_requests = [(1, RPut [97] (VBytes [1])), (1, RGet [97]), (2, RBatchPut [([98], VBytes [2])]), (2, RDelete [97]), (3, RFlush),
     (3, RExists [97]), (4, RBatchGet [[97], [98]])]"

theorem adapter_serves_map_witness:
  "\<exists>e0. create_lsm_engine toy_codec (ecfg_of (\<lambda>x _. x) 0 (from_storage_config small_storage_config) toy_ecfg) small_storage_config 0 57344
       = (Inr (), e0)
     \<and> fst (session (serve_adapter (lsm_storage (ecfg_of (\<lambda>x _. x) 0 (from_storage_config small_storage_config) toy_ecfg) handle_ops
           (bc_new 0 :: nat cache)))
           toy_requests e0)
       = [Inr Done, Inr (One (Some (VBytes [1]))), Inr Done, Inr Done, Inr Done, Inr (Known False), Inr (Many [None, Some (VBytes [2])])]"
proof -
  let ?c = "from_storage_config small_storage_config" and ?E = "ecfg_of (\<lambda>x _. x) 0 (from_storage_config small_storage_config) toy_ecfg"
  let ?W = "wenv_of toy_codec (cf_wal ?c)"
  have v: "validate ?c = Inr ()" "sw_enabled (so_wal small_storage_config)" "so_data_dir small_storage_config = ''/d''"
    by (simp_all add: validate_converted small_storage_config_def convertible_def default_storage_config_def
        default_lsm_tree_config_def default_storage_wal_config_def default_cache_config_def f64_le_def)
  have io: "io_ok toy_ecfg (so_data_dir small_storage_config)"
    using toy_env_fine by (auto simp: io_ok_def env_fine_def v)
  have sp: "2 * Suc 27 * sw_segment_size (so_wal small_storage_config) \<le> 57344" by (simp add: small_storage_config_def)
  have "we_ser ?W = toy_ser" "we_de ?W = toy_de" "we_max ?W = 1024" "we_hsize ?W = 17"
    using generic_parts(2) [of small_storage_config] by (simp_all add: wenv_of_def toy_codec_def small_storage_config_def)
  then have fits: "fits ?W x = fits (toy_wenv 1024 SyncFsync) x" for x
    by (simp add: fits_def ser_len_def toy_wenv_def)
  have "fits_table ?E k v" for k v using toy_fits_table [of k v] by (simp add: fits_table_def ecfg_of_def)
  moreover have "ec_max_batch ?E = 10000"
    by (auto simp: ecfg_of_def from_storage_config_def Let_def default_lsm_config_def default_performance_config_def split: option.splits)
  ultimately have a: "\<forall>(t, r) \<in> set toy_requests. request_ok ?E (handle_keeps (KSegment ?W)) t r"
    by (simp add: toy_requests_def request_ok_def allowed_def fits toy_put_fits toy_delete_fits)
  have r: "session_cost toy_requests \<le> 27" "sorted (0 # map fst toy_requests)"
    by (simp_all add: toy_requests_def session_cost_def request_cost_def cmd_cost_def)
  have n: "2 * (27 * Suc 27) + 8 < (2 :: nat) ^ 64" "27 + 2 < (2 :: nat) ^ 32" by simp_all
  have "session_spec toy_requests (\<lambda>_. None) = [Done, One (Some (VBytes [1])), Done, Done, Done, Known False, Many [None, Some (VBytes [2])]]"
    by (simp add: toy_requests_def store_val_def)
  with adapter_serves_map [OF v(1,2) toy_codec_ok io sp n, of ?E "\<lambda>x _. x" 0 0 "bc_new 0"] a r show ?thesis by auto
qed

end
