(* ===== verification/File_Util.thy ===== *)
theory File_Util
  imports Wal_Files Errors
begin

text \<open>
  The helpers for files of \<open>crates/f4kvs-storage-core/src/common/io.rs\<close>, on one directory: the files of theory
  \<open>Wal_Files\<close> and the names of the directories in it.  Each asynchronous helper makes the same calls as its synchronous
  counterpart.
\<close>

record dir_state =
  ds_fs :: fsys
  ds_dirs :: "string list"

definition content :: "fsys \<Rightarrow> string \<Rightarrow> bytes option" where
  "content fs n = map_option (f_data fs) (map_of (f_dir fs) n)"

text \<open>A file with how much of it is synced.\<close>

definition file_state :: "fsys \<Rightarrow> string \<Rightarrow> (bytes \<times> nat) option" where
  "file_state fs n = map_option (\<lambda>i. (f_data fs i, f_synced fs i)) (map_of (f_dir fs) n)"

lemma content_state: "content fs n = map_option fst (file_state fs n)"
  by (cases "map_of (f_dir fs) n") (simp_all add: content_def file_state_def)

subsection \<open>Calls of the standard library\<close>

definition is_a_directory :: lsm_error where
  "is_a_directory = Io OtherIo ''Is a directory''"

definition not_found :: lsm_error where
  "not_found = Io NotFound ''No such file or directory''"

text \<open>Opening for writing truncates; \<open>f_truncate\<close> gives the space back.\<close>

definition f_truncate :: "nat \<Rightarrow> fsys \<Rightarrow> fsys" where
  "f_truncate i fs = fs\<lparr>f_data := (f_data fs)(i := []), f_synced := (f_synced fs)(i := 0), f_space := f_space fs + f_len fs i\<rparr>"

definition fs_create :: "nat \<Rightarrow> string \<Rightarrow> dir_state \<Rightarrow> nat res \<times> dir_state" where
  "fs_create now n d =
     (if n \<in> set (ds_dirs d) then (Inl is_a_directory, d)
      else case f_create now n (ds_fs d) of (i, fs) \<Rightarrow> (Inr i, d\<lparr>ds_fs := f_truncate i fs\<rparr>))"

definition fs_write :: "nat \<Rightarrow> string \<Rightarrow> bytes \<Rightarrow> dir_state \<Rightarrow> unit res \<times> dir_state" where
  "fs_write now n bs d = and_then (fs_create now n d) (\<lambda>i d.
     case f_write i 0 bs (ds_fs d) of (r, fs) \<Rightarrow> (r, d\<lparr>ds_fs := fs\<rparr>))"

definition fs_rename :: "string \<Rightarrow> string \<Rightarrow> dir_state \<Rightarrow> unit res \<times> dir_state" where
  "fs_rename a b d = (case map_of (f_dir (ds_fs d)) a of
       None \<Rightarrow> (Inl not_found, d)
     | Some i \<Rightarrow>
         if b \<in> set (ds_dirs d) then (Inl is_a_directory, d)
         else if a = b then (Inr (), d)
         else (Inr (), d\<lparr>ds_fs := (ds_fs d)\<lparr>f_dir :=
                map (\<lambda>(n, j). (if n = a then b else n, j)) (filter (\<lambda>(n, _). n \<noteq> b) (f_dir (ds_fs d)))\<rparr>\<rparr>))"

text \<open>\<open>Path::with_extension\<close> on the last component; a leading dot starts no extension.\<close>

definition file_stem :: "string \<Rightarrow> string" where
  "file_stem n = (case dropWhile (\<lambda>c. c \<noteq> CHR 0x2E) (rev n) of [] \<Rightarrow> n | _ # st \<Rightarrow> if st = [] then n else rev st)"

definition with_extension :: "string \<Rightarrow> string \<Rightarrow> string" where
  "with_extension n e = file_stem n @ ''.'' @ e"

fun io_text :: "lsm_error \<Rightarrow> string" where
  "io_text (Io _ m) = m"
| "io_text e = []"

definition io_failed :: "string \<Rightarrow> string \<Rightarrow> lsm_error \<Rightarrow> kv_error" where
  "io_failed what n e = IoError (what @ n @ '': '' @ io_text e)"

subsection \<open>The helpers\<close>

definition path_exists :: "string \<Rightarrow> dir_state \<Rightarrow> bool" where
  "path_exists n d \<longleftrightarrow> n \<in> set (ds_dirs d) \<or> map_of (f_dir (ds_fs d)) n \<noteq> None"

text \<open>\<open>mk\<close> says whether \<open>create_dir_all\<close> succeeds.\<close>

definition ensure_directory_exists :: "(string \<Rightarrow> unit res) \<Rightarrow> string \<Rightarrow> dir_state \<Rightarrow> unit kv \<times> dir_state" where
  "ensure_directory_exists mk n d =
     (if path_exists n d then (Inr (), d)
      else case mk n of
          Inl e \<Rightarrow> (Inl (io_failed ''Failed to create directory '' n e), d)
        | Inr _ \<Rightarrow> (Inr (), d\<lparr>ds_dirs := ds_dirs d @ [n]\<rparr>))"

definition fs_remove :: "string \<Rightarrow> dir_state \<Rightarrow> unit res \<times> dir_state" where
  "fs_remove n d =
     (if n \<in> set (ds_dirs d) then (Inl is_a_directory, d)
      else if map_of (f_dir (ds_fs d)) n = None then (Inl not_found, d)
      else (Inr (), d\<lparr>ds_fs := f_remove n (ds_fs d)\<rparr>))"

definition atomic_write :: "nat \<Rightarrow> string \<Rightarrow> bytes \<Rightarrow> dir_state \<Rightarrow> unit kv \<times> dir_state" where
  "atomic_write now n bs d = (let temp = with_extension n ''tmp'' in
     case fs_write now temp bs d of
       (Inl e, d) \<Rightarrow> (Inl (io_failed ''Failed to write to temporary file '' temp e), d)
     | (Inr _, d) \<Rightarrow> (case fs_rename temp n d of
           (Inl e, d) \<Rightarrow> (Inl (io_failed ''Failed to move temporary file to '' n e), snd (fs_remove temp d))
         | (Inr _, d) \<Rightarrow> (Inr (), d)))"

text \<open>The asynchronous one spawns the removal and does not wait for it: the flag says that it is still to come.\<close>

definition atomic_write_async :: "nat \<Rightarrow> string \<Rightarrow> bytes \<Rightarrow> dir_state \<Rightarrow> unit kv \<times> dir_state \<times> bool" where
  "atomic_write_async now n bs d = (let temp = with_extension n ''tmp'' in
     case fs_write now temp bs d of
       (Inl e, d) \<Rightarrow> (Inl (io_failed ''Failed to write to temporary file '' temp e), d, False)
     | (Inr _, d) \<Rightarrow> (case fs_rename temp n d of
           (Inl e, d) \<Rightarrow> (Inl (io_failed ''Failed to move temporary file to '' n e), d, True)
         | (Inr _, d) \<Rightarrow> (Inr (), d, False)))"

definition read_whole_file :: "string \<Rightarrow> dir_state \<Rightarrow> bytes kv" where
  "read_whole_file n d =
     (if n \<in> set (ds_dirs d) then Inl (io_failed ''Failed to read file '' n is_a_directory)
      else case content (ds_fs d) n of None \<Rightarrow> Inl (io_failed ''Failed to read file '' n not_found) | Some b \<Rightarrow> Inr b)"

definition is_regular_file :: "string \<Rightarrow> dir_state \<Rightarrow> bool" where
  "is_regular_file n d \<longleftrightarrow> n \<notin> set (ds_dirs d) \<and> content (ds_fs d) n \<noteq> None"

definition is_directory :: "string \<Rightarrow> dir_state \<Rightarrow> bool" where
  "is_directory n d \<longleftrightarrow> n \<in> set (ds_dirs d)"

definition util_file_size :: "(string \<Rightarrow> nat) \<Rightarrow> string \<Rightarrow> dir_state \<Rightarrow> nat kv" where
  "util_file_size dir_size n d =
     (if n \<in> set (ds_dirs d) then Inr (dir_size n)
      else case content (ds_fs d) n of
          None \<Rightarrow> Inl (io_failed ''Failed to get metadata for '' n not_found) | Some b \<Rightarrow> Inr (length b))"

definition remove_file :: "string \<Rightarrow> dir_state \<Rightarrow> unit kv \<times> dir_state" where
  "remove_file n d = (case fs_remove n d of
       (Inl e, d) \<Rightarrow> (Inl (io_failed ''Failed to remove file '' n e), d) | (Inr _, d) \<Rightarrow> (Inr (), d))"

text \<open>\<open>entries\<close> is what \<open>read_dir\<close> yields: an error, or a name with the outcome of \<open>file_type\<close>, whether it is a file.\<close>

fun list_loop :: "string \<Rightarrow> (lsm_error + string \<times> bool res) list \<Rightarrow> string list kv" where
  "list_loop dir [] = Inr []"
| "list_loop dir (Inl e # xs) = Inl (io_failed ''Failed to read directory entry in '' dir e)"
| "list_loop dir (Inr (n, Inl e) # xs) = Inl (io_failed ''Failed to get file type for '' (dir @ ''/'' @ n) e)"
| "list_loop dir (Inr (n, Inr f) # xs) = map_sum id (\<lambda>ns. if f then (dir @ ''/'' @ n) # ns else ns) (list_loop dir xs)"

definition list_files :: "string \<Rightarrow> (lsm_error + string \<times> bool res) list res \<Rightarrow> string list kv" where
  "list_files dir entries = (case entries of
       Inl e \<Rightarrow> Inl (io_failed ''Failed to read directory '' dir e) | Inr xs \<Rightarrow> list_loop dir xs)"

subsection \<open>What holds\<close>

definition dir_ok :: "dir_state \<Rightarrow> bool" where
  "dir_ok d \<longleftrightarrow> distinct (map fst (f_dir (ds_fs d))) \<and> distinct (map snd (f_dir (ds_fs d)))
     \<and> (\<forall>(n, i) \<in> set (f_dir (ds_fs d)). i < f_next (ds_fs d))"

lemma list_files_names:
  "list_files dir (Inr (map (\<lambda>(n, f). Inr (n, Inr f)) xs)) = Inr (map (\<lambda>(n, _). dir @ ''/'' @ n) (filter snd xs))"
  by (simp add: list_files_def) (induction xs; auto)

lemma ensured: "ensure_directory_exists mk n d = (Inr (), d') \<Longrightarrow> path_exists n d' \<and> ds_fs d' = ds_fs d"
  by (auto simp: ensure_directory_exists_def path_exists_def split: if_splits sum.splits)

text \<open>Creating the temporary file touches no other file.\<close>

lemma inode_of: "dir_ok d \<Longrightarrow> map_of (f_dir (ds_fs d)) n = Some i \<Longrightarrow> map_of (f_dir (ds_fs d)) m = Some i \<Longrightarrow> n = m"
  using inj_onD [of snd "set (f_dir (ds_fs d))" "(n, i)" "(m, i)"]
  by (auto simp: dir_ok_def distinct_map dest!: map_of_SomeD)

lemma created:
  assumes "dir_ok d" and "fs_create now n d = (Inr i, d')"
  shows "dir_ok d'" "map_of (f_dir (ds_fs d')) n = Some i" "f_data (ds_fs d') i = []" "f_synced (ds_fs d') i = 0"
    "m \<noteq> n \<Longrightarrow> file_state (ds_fs d') m = file_state (ds_fs d) m" "ds_dirs d' = ds_dirs d"
    "m \<noteq> n \<Longrightarrow> map_of (f_dir (ds_fs d')) m = map_of (f_dir (ds_fs d)) m"
proof -
  have "dir_ok d' \<and> map_of (f_dir (ds_fs d')) n = Some i \<and> f_data (ds_fs d') i = [] \<and> f_synced (ds_fs d') i = 0
    \<and> (m \<noteq> n \<longrightarrow> file_state (ds_fs d') m = file_state (ds_fs d) m) \<and> ds_dirs d' = ds_dirs d
    \<and> (m \<noteq> n \<longrightarrow> map_of (f_dir (ds_fs d')) m = map_of (f_dir (ds_fs d)) m)"
  proof (cases "map_of (f_dir (ds_fs d)) n")
    case None
    then have new: "d' = d\<lparr>ds_fs := f_truncate i (snd (f_create now n (ds_fs d)))\<rparr>" "i = f_next (ds_fs d)"
      using assms(2) by (auto simp: fs_create_def f_create_def Let_def split: if_splits)
    have lt: "j < i" if "map_of (f_dir (ds_fs d)) m = Some j" for m j
      using assms(1) that by (auto simp: dir_ok_def new(2) dest!: map_of_SomeD)
    have "n \<notin> fst ` set (f_dir (ds_fs d))" "i \<notin> snd ` set (f_dir (ds_fs d))"
      using None assms(1) by (auto simp: map_of_eq_None_iff dir_ok_def new(2))
    with None assms(1) lt show ?thesis
      by (fastforce simp: new f_create_def Let_def f_truncate_def dir_ok_def content_def file_state_def map_add_Some_iff map_add_def
          split: option.splits)
  next
    case (Some j)
    then have old: "j = i" "d' = d\<lparr>ds_fs := f_truncate i (ds_fs d)\<rparr>"
      using assms(2) by (auto simp: fs_create_def f_create_def split: if_splits)
    have "k \<noteq> i" if "m \<noteq> n" "map_of (f_dir (ds_fs d)) m = Some k" for m k
      using inode_of [OF assms(1) that(2), of n] that(1) Some old(1) by auto
    with Some assms(1) show ?thesis
      by (auto simp: old f_truncate_def dir_ok_def content_def file_state_def split: option.splits)
         (auto simp: map_option_case split: option.split)
  qed
  then show "dir_ok d'" "map_of (f_dir (ds_fs d')) n = Some i" "f_data (ds_fs d') i = []" "f_synced (ds_fs d') i = 0"
    "m \<noteq> n \<Longrightarrow> file_state (ds_fs d') m = file_state (ds_fs d) m" "ds_dirs d' = ds_dirs d"
    "m \<noteq> n \<Longrightarrow> map_of (f_dir (ds_fs d')) m = map_of (f_dir (ds_fs d)) m" by blast+
qed

lemma written:
  assumes "dir_ok d" and "fs_write now n bs d = (r, d')"
  shows "dir_ok d'" "r = Inr () \<Longrightarrow> content (ds_fs d') n = Some bs"
    "m \<noteq> n \<Longrightarrow> file_state (ds_fs d') m = file_state (ds_fs d) m" "ds_dirs d' = ds_dirs d"
    "r = Inr () \<Longrightarrow> map_of (f_dir (ds_fs d')) n = Some i \<Longrightarrow> f_synced (ds_fs d') i = 0"
proof -
  obtain c d1 where c: "fs_create now n d = (c, d1)" by fastforce
  have "dir_ok d' \<and> (r = Inr () \<longrightarrow> content (ds_fs d') n = Some bs) \<and> (m \<noteq> n \<longrightarrow> file_state (ds_fs d') m = file_state (ds_fs d) m)
    \<and> ds_dirs d' = ds_dirs d \<and> (r = Inr () \<longrightarrow> map_of (f_dir (ds_fs d')) n = Some i \<longrightarrow> f_synced (ds_fs d') i = 0)"
  proof (cases c)
    case (Inl e)
    with assms c show ?thesis by (auto simp: fs_write_def fs_create_def split: if_splits prod.splits)
  next
    case (Inr j)
    with c have c: "fs_create now n d = (Inr j, d1)" by simp
    note k = created [OF assms(1) c]
    let ?n = "min (length bs) (length (f_data (ds_fs d1) j) + f_space (ds_fs d1))"
    have w: "r = (if ?n = length bs then Inr () else Inl no_space)" "ds_dirs d' = ds_dirs d1"
      "f_dir (ds_fs d') = f_dir (ds_fs d1)" "f_data (ds_fs d') = (f_data (ds_fs d1))(j := take ?n bs)"
      "f_synced (ds_fs d') = f_synced (ds_fs d1)" "f_next (ds_fs d') = f_next (ds_fs d1)"
      using assms(2) c k(3) by (auto simp: fs_write_def f_write_def Let_def)
    have "l \<noteq> j" if "m \<noteq> n" "map_of (f_dir (ds_fs d1)) m = Some l" for l
      using inode_of [OF k(1) that(2), of n] k(2) that(1) by auto
    then have "file_state (ds_fs d') m = file_state (ds_fs d1) m" if "m \<noteq> n"
      using that by (cases "map_of (f_dir (ds_fs d1)) m") (auto simp: content_def file_state_def w)
    then have other: "m \<noteq> n \<longrightarrow> file_state (ds_fs d') m = file_state (ds_fs d) m" using k(5) by simp
    have "dir_ok d'" using k(1) by (simp add: dir_ok_def w)
    moreover have "r = Inr () \<longrightarrow> content (ds_fs d') n = Some bs" using k(2) by (auto simp: content_def file_state_def w min_def split: if_splits)
    moreover have "r = Inr () \<longrightarrow> map_of (f_dir (ds_fs d')) n = Some i \<longrightarrow> f_synced (ds_fs d') i = 0" using k(2,4) by (auto simp: w)
    ultimately show ?thesis using other k(6) by (simp add: w)
  qed
  then show "dir_ok d'" "r = Inr () \<Longrightarrow> content (ds_fs d') n = Some bs"
    "m \<noteq> n \<Longrightarrow> file_state (ds_fs d') m = file_state (ds_fs d) m" "ds_dirs d' = ds_dirs d"
    "r = Inr () \<Longrightarrow> map_of (f_dir (ds_fs d')) n = Some i \<Longrightarrow> f_synced (ds_fs d') i = 0" by blast+
qed

lemma renamed:
  assumes "dir_ok d" and "fs_rename a b d = (r, d')" and "a \<noteq> b"
  shows "r = Inl e \<Longrightarrow> d' = d" "r = Inr () \<Longrightarrow> file_state (ds_fs d') b = file_state (ds_fs d) a"
    "r = Inr () \<Longrightarrow> map_of (f_dir (ds_fs d')) b = map_of (f_dir (ds_fs d)) a"
    "m \<noteq> a \<Longrightarrow> m \<noteq> b \<Longrightarrow> file_state (ds_fs d') m = file_state (ds_fs d) m" "f_synced (ds_fs d') = f_synced (ds_fs d)"
    "r = Inr () \<Longrightarrow> file_state (ds_fs d') a = None"
proof -
  have move: "map_of (map (\<lambda>(n, j). (if n = a then b else n, j)) (filter (\<lambda>(n, _). n \<noteq> b) L)) m =
      (if m = b then map_of L a else if m = a then None else map_of L m)" for L :: "(string \<times> nat) list" and m
  proof (induction L)
    case (Cons x L)
    then show ?case using assms(3) by (cases x; cases "fst x = b"; cases "fst x = a"; cases "m = b"; cases "m = a") simp_all
  qed simp
  have "(r = Inl e \<longrightarrow> d' = d) \<and> (r = Inr () \<longrightarrow> file_state (ds_fs d') b = file_state (ds_fs d) a)
    \<and> (r = Inr () \<longrightarrow> map_of (f_dir (ds_fs d')) b = map_of (f_dir (ds_fs d)) a)
    \<and> (m \<noteq> a \<and> m \<noteq> b \<longrightarrow> file_state (ds_fs d') m = file_state (ds_fs d) m) \<and> f_synced (ds_fs d') = f_synced (ds_fs d)
    \<and> (r = Inr () \<longrightarrow> file_state (ds_fs d') a = None)"
    using assms(2,3) by (auto simp: fs_rename_def file_state_def move split: option.splits if_splits)
  then show "r = Inl e \<Longrightarrow> d' = d" "r = Inr () \<Longrightarrow> file_state (ds_fs d') b = file_state (ds_fs d) a"
    "r = Inr () \<Longrightarrow> map_of (f_dir (ds_fs d')) b = map_of (f_dir (ds_fs d)) a"
    "m \<noteq> a \<Longrightarrow> m \<noteq> b \<Longrightarrow> file_state (ds_fs d') m = file_state (ds_fs d) m" "f_synced (ds_fs d') = f_synced (ds_fs d)"
    "r = Inr () \<Longrightarrow> file_state (ds_fs d') a = None" by blast+
qed

lemma removed: "m \<noteq> n \<Longrightarrow> file_state (ds_fs (snd (fs_remove n d))) m = file_state (ds_fs d) m"
proof -
  assume "m \<noteq> n"
  then have "map_of (filter (\<lambda>(k, _). k \<noteq> n) L) m = map_of L m" for L :: "(string \<times> nat) list" by (induction L) auto
  then show ?thesis by (auto simp: fs_remove_def f_remove_def content_def file_state_def)
qed

text \<open>The states of the directory after each call of \<open>atomic_write\<close>: what a process that dies can leave.\<close>

definition write_trace :: "nat \<Rightarrow> string \<Rightarrow> bytes \<Rightarrow> dir_state \<Rightarrow> dir_state list" where
  "write_trace now n bs d = (let temp = with_extension n ''tmp'' in
     [d, snd (fs_create now temp d), snd (fs_write now temp bs d), snd (atomic_write now n bs d)])"

text \<open>
  C30: a file is replaced as a whole.  Unless its own name ends in the extension of the temporary file, after
  \<open>atomic_write\<close> the file has the new content if the call succeeded and its old content if it failed, no other file but the
  temporary one has changed, and a process that dies between the calls leaves the old or the new content.  But nothing is
  synced: after a success a loss of power can leave the file empty, with the old content gone.
\<close>

theorem atomic_write_replaces:
  assumes "dir_ok d" and "with_extension n ''tmp'' \<noteq> n" and "atomic_write now n bs d = (r, d')"
  shows "content (ds_fs d') n = (case r of Inr _ \<Rightarrow> Some bs | Inl _ \<Rightarrow> content (ds_fs d) n)
    \<and> (\<forall>m. m \<noteq> n \<longrightarrow> m \<noteq> with_extension n ''tmp'' \<longrightarrow> content (ds_fs d') m = content (ds_fs d) m)
    \<and> (\<forall>x \<in> set (write_trace now n bs d). content (ds_fs x) n \<in> {content (ds_fs d) n, Some bs})
    \<and> (r = Inr () \<longrightarrow> (\<exists>keep. content (power_loss keep (ds_fs d')) n = Some []))"
proof -
  let ?t = "with_extension n ''tmp''"
  obtain w d1 where w: "fs_write now ?t bs d = (w, d1)" by fastforce
  obtain v d2 where v: "fs_rename ?t n d1 = (v, d2)" by fastforce
  note W = written [OF assms(1) w]
  note R = renamed [OF W(1) v assms(2)]
  have all: "content (ds_fs d') n = (case r of Inr _ \<Rightarrow> Some bs | Inl _ \<Rightarrow> content (ds_fs d) n)
    \<and> (m \<noteq> n \<longrightarrow> m \<noteq> ?t \<longrightarrow> content (ds_fs d') m = content (ds_fs d) m)
    \<and> (r = Inr () \<longrightarrow> (\<exists>i. map_of (f_dir (ds_fs d')) n = Some i \<and> f_synced (ds_fs d') i = 0))" for m
  proof (cases w)
    case (Inl e)
    then show ?thesis using assms(3) w W(3) assms(2) by (auto simp: atomic_write_def Let_def content_state)
  next
    case w': (Inr u)
    show ?thesis
    proof (cases v)
      case (Inl e)
      then show ?thesis using assms(2,3) w v w' R(1) W(3) removed by (auto simp: atomic_write_def Let_def content_state)
    next
      case (Inr u')
      then have r: "r = Inr ()" "d' = d2" using assms(3) w v w' by (auto simp: atomic_write_def Let_def)
      moreover obtain i where "map_of (f_dir (ds_fs d1)) ?t = Some i" "f_synced (ds_fs d1) i = 0"
        using W(2,5) w' by (auto simp: content_def)
      ultimately show ?thesis using Inr w' R(2,3,4,5) W(2,3) by (auto simp: content_state)
    qed
  qed
  then have c: "content (ds_fs d') n = (case r of Inr _ \<Rightarrow> Some bs | Inl _ \<Rightarrow> content (ds_fs d) n)"
    "\<forall>m. m \<noteq> n \<longrightarrow> m \<noteq> ?t \<longrightarrow> content (ds_fs d') m = content (ds_fs d) m" by blast+
  have "content (ds_fs (snd (fs_create now ?t d))) n = content (ds_fs d) n"
    using created(5) [OF assms(1), of now ?t] assms(2) by (cases "fs_create now ?t d"; cases "fst (fs_create now ?t d)")
      (auto simp: fs_create_def content_state split: if_splits prod.splits)
  moreover have "content (ds_fs d1) n = content (ds_fs d) n" using W(3) assms(2) by (simp add: content_state)
  ultimately have "\<forall>x \<in> set (write_trace now n bs d). content (ds_fs x) n \<in> {content (ds_fs d) n, Some bs}"
    using c(1) by (auto simp: write_trace_def Let_def w assms(3) split: sum.splits)
  moreover have "\<exists>keep. content (power_loss keep (ds_fs d')) n = Some []" if "r = Inr ()"
    using all that by (intro exI [of _ "\<lambda>_. 0"]) (auto simp: content_def power_loss_def Let_def)
  ultimately show ?thesis using c by blast
qed

theorem atomic_write_replaces_witness:
  "\<exists>d'. atomic_write 0 ''a.x'' [1, 2] \<lparr>ds_fs = (empty_fs 9)\<lparr>f_dir := [(''a.x'', 0)], f_data := (\<lambda>_. [7]), f_next := 1\<rparr>, ds_dirs = []\<rparr> = (Inr (), d')
     \<and> content (ds_fs d') ''a.x'' = Some [1, 2]"
proof -
  let ?d = "\<lparr>ds_fs = (empty_fs 9)\<lparr>f_dir := [(''a.x'', 0)], f_data := (\<lambda>_. [7]), f_next := 1\<rparr>, ds_dirs = []\<rparr>"
  have ok: "dir_ok ?d" by (simp add: dir_ok_def empty_fs_def)
  have t: "with_extension ''a.x'' ''tmp'' = ''a.tmp''" by (simp add: with_extension_def file_stem_def)
  then have ne: "with_extension ''a.x'' ''tmp'' \<noteq> ''a.x''" by simp
  obtain r d' where a: "atomic_write 0 ''a.x'' [1, 2] ?d = (r, d')" by fastforce
  moreover have "r = Inr ()"
    using a by (auto simp: atomic_write_def t fs_write_def fs_create_def f_create_def f_truncate_def f_write_def fs_rename_def
        empty_fs_def Let_def)
  ultimately show ?thesis using atomic_write_replaces [OF ok ne a] by simp
qed

text \<open>Two names that differ in their extension share the temporary file, and a name that ends in \<open>.tmp\<close> is its own.\<close>

lemma temporary_names: "with_extension ''a.x'' ''tmp'' = with_extension ''a.y'' ''tmp''" "with_extension ''a.tmp'' ''tmp'' = ''a.tmp''"
  by (simp_all add: with_extension_def file_stem_def)

end
