(* ===== verification/Value_Forms.thy ===== *)
theory Value_Forms
  imports Value_Model Errors
begin

text \<open>
  The outer forms of a value (\<open>crates/f4kvs-value/src/value.rs\<close>): the tagged form that \<open>bincode\<close> writes, the choice
  between it and JSON when reading, the JSON text, and the text for people.  Payloads of the tagged form and
  the text of JSON and of floats are the libraries'.
\<close>

subsection \<open>The tagged form\<close>

text \<open>\<open>ValueWrapper\<close> has the variants in the order of their numbers.\<close>

fun variant_index :: "'n val \<Rightarrow> nat" where
  "variant_index (VString _) = 0"
| "variant_index (VInt64 _) = 1"
| "variant_index (VUInt64 _) = 2"
| "variant_index (VFloat64 _) = 3"
| "variant_index (VBool _) = 4"
| "variant_index (VBytes _) = 5"
| "variant_index (VJson _) = 6"
| "variant_index VNull = 7"

record 'n payloads =
  wr_string :: "bytes \<Rightarrow> bytes"
  rd_string :: "bytes \<Rightarrow> bytes option"
  wr_i64 :: "u64 \<Rightarrow> bytes"
  rd_i64 :: "bytes \<Rightarrow> u64 option"
  wr_u64 :: "u64 \<Rightarrow> bytes"
  rd_u64 :: "bytes \<Rightarrow> u64 option"
  wr_f64 :: "u64 \<Rightarrow> bytes"
  rd_f64 :: "bytes \<Rightarrow> u64 option"
  wr_bool :: "bool \<Rightarrow> bytes"
  rd_bool :: "bytes \<Rightarrow> bool option"
  wr_bytes :: "bytes \<Rightarrow> bytes"
  rd_bytes :: "bytes \<Rightarrow> bytes option"
  wr_json :: "'n json \<Rightarrow> bytes"
  rd_json :: "bytes \<Rightarrow> 'n json option"

fun wrapper_payload :: "'n payloads \<Rightarrow> 'n val \<Rightarrow> bytes" where
  "wrapper_payload P (VString v) = wr_string P v"
| "wrapper_payload P (VInt64 v) = wr_i64 P v"
| "wrapper_payload P (VUInt64 v) = wr_u64 P v"
| "wrapper_payload P (VFloat64 v) = wr_f64 P v"
| "wrapper_payload P (VBool v) = wr_bool P v"
| "wrapper_payload P (VBytes v) = wr_bytes P v"
| "wrapper_payload P (VJson v) = wr_json P v"
| "wrapper_payload P VNull = []"

definition serialize_value :: "'n payloads \<Rightarrow> 'n val \<Rightarrow> nat \<times> bytes" where
  "serialize_value P v = (variant_index v, wrapper_payload P v)"

definition newtype :: "('a \<Rightarrow> 'n val) \<Rightarrow> 'a option \<Rightarrow> 'n val res" where
  "newtype mk x = (case x of None \<Rightarrow> Inl (Serialization ''invalid payload'') | Some y \<Rightarrow> Inr (mk y))"

definition visit_enum :: "'n payloads \<Rightarrow> nat \<Rightarrow> bytes \<Rightarrow> 'n val res" where
  "visit_enum P variant b =
     (if variant = 0 then newtype VString (rd_string P b)
      else if variant = 1 then newtype VInt64 (rd_i64 P b)
      else if variant = 2 then newtype VUInt64 (rd_u64 P b)
      else if variant = 3 then newtype VFloat64 (rd_f64 P b)
      else if variant = 4 then newtype VBool (rd_bool P b)
      else if variant = 5 then newtype VBytes (rd_bytes P b)
      else if variant = 6 then newtype VJson (rd_json P b)
      else if variant = 7 then Inr VNull
      else Inl (Serialization (''unknown variant `'' @ decimal variant @ ''`'')))"

text \<open>What the format hands over: a JSON document when it is human readable, a variant with its payload otherwise.\<close>

datatype 'n incoming = HumanReadable "'n json" | Tagged nat bytes

fun deserialize_value :: "'n numbers \<Rightarrow> 'n payloads \<Rightarrow> 'n incoming \<Rightarrow> 'n val res" where
  "deserialize_value N P (HumanReadable j) = from_serde_json_value N j"
| "deserialize_value N P (Tagged variant b) = visit_enum P variant b"

definition payloads_ok :: "'n payloads \<Rightarrow> bool" where
  "payloads_ok P \<longleftrightarrow> (\<forall>v. rd_string P (wr_string P v) = Some v) \<and> (\<forall>v. rd_i64 P (wr_i64 P v) = Some v)
     \<and> (\<forall>v. rd_u64 P (wr_u64 P v) = Some v) \<and> (\<forall>v. rd_f64 P (wr_f64 P v) = Some v)
     \<and> (\<forall>v. rd_bool P (wr_bool P v) = Some v) \<and> (\<forall>v. rd_bytes P (wr_bytes P v) = Some v)"

text \<open>Every value but a JSON document comes back; \<open>bincode\<close> cannot read a JSON document, whose type asks for a format
  that describes itself.\<close>

lemma tagged_roundtrip:
  assumes "payloads_ok P"
  shows "deserialize_value N P (case serialize_value P v of (i, b) \<Rightarrow> Tagged i b) =
    (case v of VJson j \<Rightarrow> newtype VJson (rd_json P (wr_json P j)) | _ \<Rightarrow> Inr v)"
  using assms by (cases v) (simp_all add: serialize_value_def visit_enum_def newtype_def payloads_ok_def)

lemma variant_known: "variant_index v < 8" "8 \<le> i \<Longrightarrow> \<exists>m. visit_enum P i b = Inl (Serialization m)"
  by (cases v; simp) (simp add: visit_enum_def)

subsection \<open>JSON text\<close>

text \<open>\<open>js\<close> is \<open>serde_json::to_string\<close>, \<open>parse\<close> its \<open>from_str\<close> and \<open>from_slice\<close>.\<close>

definition to_json_string :: "'n numbers \<Rightarrow> ('n json \<Rightarrow> bytes) \<Rightarrow> 'n val \<Rightarrow> bytes" where
  "to_json_string N js v = js (to_json_value N v)"

definition json_error :: "string + 'a \<Rightarrow> 'a kv" where
  "json_error r = map_sum SerializationError id r"

text \<open>A refused document; through \<open>from_str\<close> the error is the text of the error.\<close>

fun value_error :: "lsm_error \<Rightarrow> kv_error" where
  "value_error (Serialization m) = SerializationError m"
| "value_error e = convert_error e"

definition from_json_string :: "'n numbers \<Rightarrow> (bytes \<Rightarrow> string + 'n json) \<Rightarrow> bytes \<Rightarrow> 'n val kv" where
  "from_json_string N parse text = (case json_error (parse text) of Inl e \<Rightarrow> Inl e
     | Inr j \<Rightarrow> map_sum (\<lambda>e. SerializationError (kv_display (value_error e))) id (from_serde_json_value N j))"

definition from_json_bytes :: "'n numbers \<Rightarrow> (bytes \<Rightarrow> string + 'n json) \<Rightarrow> bytes \<Rightarrow> 'n val kv" where
  "from_json_bytes N parse text = (case json_error (parse text) of Inl e \<Rightarrow> Inl e
     | Inr j \<Rightarrow> map_sum value_error id (from_serde_json_value N j))"

text \<open>The two readers accept the same texts and give the same values, and what was written is read back.\<close>

lemma json_readers_agree:
  "from_json_string N parse t = Inr v \<longleftrightarrow> from_json_bytes N parse t = Inr v"
  by (auto simp: from_json_string_def from_json_bytes_def map_sum_def split: sum.splits)

lemma json_text_roundtrip:
  assumes "numbers_ok N" and "\<And>j. parse (js j) = Inr j" and "\<And>f. v = VFloat64 f \<Longrightarrow> as_f64 N (of_f64 N f) = Some f"
  shows "from_json_string N parse (to_json_string N js v) = Inr v"
proof -
  have "from_serde_json_value N (to_json_value N v) = Inr v"
  proof (cases v)
    case (VBytes bs)
    with assms(1) show ?thesis by (simp add: from_tagged_def collect_bytes_map)
  qed (use assms in \<open>simp_all add: from_tagged_def num_or_def numbers_ok_def null_text_def\<close>)
  with assms(2) show ?thesis by (simp add: from_json_string_def to_json_string_def json_error_def)
qed

subsection \<open>Bytes and text\<close>

fun into_bytes :: "('n json \<Rightarrow> bytes) \<Rightarrow> 'n val \<Rightarrow> bytes" where
  "into_bytes js (VString s) = s"
| "into_bytes js (VInt64 i) = u64_to_le i"
| "into_bytes js (VUInt64 u) = u64_to_le u"
| "into_bytes js (VFloat64 f) = u64_to_le f"
| "into_bytes js (VBool b) = [if b then 1 else 0]"
| "into_bytes js (VBytes b) = b"
| "into_bytes js (VJson v) = js v"
| "into_bytes js VNull = []"

lemma into_bytes_to_bytes: "into_bytes js v = to_bytes js v" "length (into_bytes js v) = serialized_size js v"
  by (cases v; simp)+

definition ascii :: "string \<Rightarrow> bytes" where
  "ascii s = map (\<lambda>c. word_of_nat (of_char c)) s"

definition signed_text :: "u64 \<Rightarrow> string" where
  "signed_text w = (if sint w < 0 then CHR 0x2D # decimal (nat (- sint w)) else decimal (nat (sint w)))"

definition hex_byte :: "u8 \<Rightarrow> string" where
  "hex_byte b = [digit_char (unat b div 16), digit_char (unat b mod 16)]"

fun value_text :: "('n json \<Rightarrow> bytes) \<Rightarrow> (u64 \<Rightarrow> string) \<Rightarrow> 'n val \<Rightarrow> bytes" where
  "value_text js fl (VString s) = s"
| "value_text js fl (VInt64 i) = ascii (signed_text i)"
| "value_text js fl (VUInt64 u) = ascii (decimal (unat u))"
| "value_text js fl (VFloat64 f) = ascii (fl f)"
| "value_text js fl (VBool b) = ascii (if b then ''true'' else ''false'')"
| "value_text js fl (VBytes bs) = ascii (concat (map hex_byte bs))"
| "value_text js fl (VJson j) = js j"
| "value_text js fl VNull = ascii ''null''"

text \<open>The text of bytes has two digits for each.\<close>

lemma bytes_text_length: "length (value_text js fl (VBytes bs)) = 2 * length bs"
  by (induction bs) (simp_all add: ascii_def hex_byte_def)

lemma signed_text_value: "0 \<le> sint w \<Longrightarrow> digits_value 10 0 (signed_text w) = Some (unat w)"
proof -
  assume w: "0 \<le> sint w"
  have "unat w < 2 ^ 64" using unsigned_less [of w, where 'a = nat] by simp
  moreover have "sint w < 2 ^ 63" using signed_take_bit_int_less_exp [of 63 "uint w"] by (simp add: sint_uint)
  with w have "uint w = sint w" by (simp add: uint_sint [of w] take_bit_int_eq_self)
  then have "nat (sint w) = unat w" by (metis nat_uint_eq)
  ultimately show ?thesis using w decimal_value [of "unat w"] by (simp add: signed_text_def)
qed

end
