(* ===== verification/Engine_Clients.thy ===== *)
theory Engine_Clients
  imports Engine_Safety
begin

text \<open>
  Concurrent clients of the engine (\<open>core/engine.rs\<close>).  A put or a delete logs its entry under the lock of the log,
  releases it, and then writes the memtable under the lock of the memtable; in between, other operations run, and so do flushes of the memtable and
  compactions, which share the operation guard.  A flush of the engine, which truncates the log, takes the guard exclusively and
  runs when no operation is between its two sections.  The state is the engine and the operations in flight.
\<close>

subsection \<open>The sections of an operation\<close>

definition put_log :: "'n ecfg \<Rightarrow> ('n, 'w) wal_ops \<Rightarrow> nat \<Rightarrow> key \<Rightarrow> 'n val \<Rightarrow> ('n, 'w) engine \<Rightarrow> unit res \<times> ('n, 'w) engine" where
  "put_log E lg now k v e = if_wal E e (w_put lg now k v)"

definition put_apply :: "'n ecfg \<Rightarrow> key \<Rightarrow> 'n val \<Rightarrow> ('n, 'w) engine \<Rightarrow> ('n, 'w) engine" where
  "put_apply E k v e = (let (eff, e) = put_memtable E k v e in
     count_writes 1 (length k + serialized_size (cc_js (ec_C E)) v) (apply_put_key_count E k eff e))"

definition delete_log :: "'n ecfg \<Rightarrow> ('n, 'w) wal_ops \<Rightarrow> nat \<Rightarrow> key \<Rightarrow> ('n, 'w) engine \<Rightarrow> unit res \<times> ('n, 'w) engine" where
  "delete_log E lg now k e = if_wal E e (w_delete lg now k)"

definition delete_apply :: "'n ecfg \<Rightarrow> key \<Rightarrow> bool \<Rightarrow> ('n, 'w) engine \<Rightarrow> ('n, 'w) engine" where
  "delete_apply E k was_live e = (let e = e\<lparr>eg_active := mt_delete (cc_js (ec_C E)) k (eg_active e)\<rparr> in
     count_delete (if was_live then set_total_keys (adjust_live_key_count (- 1) e) else e))"

text \<open>One after the other the sections are the operations of theory \<open>Engine_Ops\<close>.\<close>

lemma put_sections: "eng_put E lg now k v e =
    converted (and_then (put_log E lg now k v e) (\<lambda>_ e. check_memtable_flush E (put_apply E k v e)))"
  by (cases "if_wal E e (w_put lg now k v)"; cases "fst (if_wal E e (w_put lg now k v))")
     (auto simp: eng_put_def put_core_def put_log_def put_apply_def Let_def split: prod.split)

lemma delete_sections: "eng_delete E lg now k e =
    converted (and_then (delete_log E lg now k e) (\<lambda>_ e'. check_memtable_flush E (delete_apply E k (eng_exists E k e) e')))"
  by (cases "if_wal E e (w_delete lg now k)"; cases "fst (if_wal E e (w_delete lg now k))")
     (auto simp: eng_delete_def delete_log_def delete_apply_def Let_def)

text \<open>An operation in flight has passed the log; a delete carries what its first read of the key said.\<close>

datatype 'n flight = FlPut key "'n val" | FlDelete key bool

fun fl_key :: "'n flight \<Rightarrow> key" where
  "fl_key (FlPut k _) = k"
| "fl_key (FlDelete k _) = k"

fun fl_entry :: "nat \<Rightarrow> 'n flight \<Rightarrow> 'n wal_entry" where
  "fl_entry now (FlPut k v) = WPut k v now"
| "fl_entry now (FlDelete k _) = WDelete k now"

fun fl_effect :: "'n flight \<Rightarrow> (key \<Rightarrow> 'n val option) \<Rightarrow> key \<Rightarrow> 'n val option" where
  "fl_effect (FlPut k v) f = f(k := store_val v)"
| "fl_effect (FlDelete k _) f = f(k := None)"

fun log_section :: "'n ecfg \<Rightarrow> ('n, 'w) wal_ops \<Rightarrow> nat \<Rightarrow> 'n flight \<Rightarrow> ('n, 'w) engine \<Rightarrow> unit res \<times> ('n, 'w) engine" where
  "log_section E lg now (FlPut k v) e = put_log E lg now k v e"
| "log_section E lg now (FlDelete k _) e = delete_log E lg now k e"

fun apply_section :: "'n ecfg \<Rightarrow> 'n flight \<Rightarrow> ('n, 'w) engine \<Rightarrow> ('n, 'w) engine" where
  "apply_section E (FlPut k v) e = put_apply E k v e"
| "apply_section E (FlDelete k b) e = delete_apply E k b e"

subsection \<open>Runs of many clients\<close>

datatype 'n event = ELog "'n flight" | EApply nat | ECheck | EFlush | ECrash

definition landed :: "nat \<Rightarrow> 'a list \<Rightarrow> 'a list" where
  "landed i F = take i F @ drop (Suc i) F"

inductive client_step :: "'n ecfg \<Rightarrow> ('n, 'w) wal_ops \<Rightarrow> ('w \<Rightarrow> 'w \<Rightarrow> bool) \<Rightarrow> nat \<Rightarrow> 'n event \<Rightarrow> ('n, 'w) engine \<times> 'n flight list
    \<Rightarrow> unit kv \<Rightarrow> ('n, 'w) engine \<times> 'n flight list \<Rightarrow> bool" for E ops crash now where
  client_log: "log_section E ops now f e = (r, e') \<Longrightarrow>
    client_step E ops crash now (ELog f) (e, F) (to_kv r) (e', case r of Inr _ \<Rightarrow> F @ [f] | Inl _ \<Rightarrow> F)"
| client_apply: "i < length F \<Longrightarrow>
    client_step E ops crash now (EApply i) (e, F) (Inr ()) (apply_section E (F ! i) e, landed i F)"
| client_check: "check_memtable_flush E e = (r, e') \<Longrightarrow> client_step E ops crash now ECheck (e, F) (to_kv r) (e', F)"
| client_flush: "eng_flush E ops now e = (r, e') \<Longrightarrow> client_step E ops crash now EFlush (e, []) r (e', [])"
| client_crash: "lists E files (eg_levels e 0) \<Longrightarrow> cs_disk disk = cs_disk (eg_disk e) \<Longrightarrow> crash (eg_wal e) w \<Longrightarrow>
    eng_open E ops now allow False files order disk (eg_seq_file e) w = (r, e') \<Longrightarrow>
    client_step E ops crash now ECrash (e, F) (to_kv r) (e', [])"

inductive_cases client_logE: "client_step E ops crash now (ELog f) s r s'"
inductive_cases client_applyE: "client_step E ops crash now (EApply i) s r s'"
inductive_cases client_checkE: "client_step E ops crash now ECheck s r s'"
inductive_cases client_flushE: "client_step E ops crash now EFlush s r s'"
inductive_cases client_crashE: "client_step E ops crash now ECrash s r s'"

inductive client_run :: "'n ecfg \<Rightarrow> ('n, 'w) wal_ops \<Rightarrow> ('w \<Rightarrow> 'w \<Rightarrow> bool) \<Rightarrow> nat \<Rightarrow> (nat \<times> 'n event) list
    \<Rightarrow> ('n, 'w) engine \<times> 'n flight list \<Rightarrow> unit kv list \<Rightarrow> ('n, 'w) engine \<times> 'n flight list \<Rightarrow> bool" for E ops crash where
  clients_none: "client_run E ops crash t [] s [] s"
| clients_step: "t \<le> now \<Longrightarrow> client_step E ops crash now c s r s1 \<Longrightarrow> client_run E ops crash now cs s1 rs s' \<Longrightarrow>
    client_run E ops crash t ((now, c) # cs) s (r # rs) s'"

text \<open>
  The abstract state: the map a reader sees, the map a crash would leave, and the operations in flight.
\<close>

fun client_spec :: "'n event \<Rightarrow> (key \<Rightarrow> 'n val option) \<times> (key \<Rightarrow> 'n val option) \<times> 'n flight list
    \<Rightarrow> (key \<Rightarrow> 'n val option) \<times> (key \<Rightarrow> 'n val option) \<times> 'n flight list" where
  "client_spec (ELog f) (V, R, F) = (V, fl_effect f R, F @ [f])"
| "client_spec (EApply i) (V, R, F) = (fl_effect (F ! i) V, R, landed i F)"
| "client_spec ECheck s = s"
| "client_spec EFlush (V, R, F) = (V, V, F)"
| "client_spec ECrash (V, R, F) = (R, R, [])"

fun clients_spec where
  "clients_spec [] s = s"
| "clients_spec ((_, c) # cs) s = clients_spec cs (client_spec c s)"

definition event_cost :: "'n event \<Rightarrow> nat" where
  "event_cost c = (case c of EFlush \<Rightarrow> 2 | ECrash \<Rightarrow> 2 | _ \<Rightarrow> 1)"

definition clients_cost :: "(nat \<times> 'n event) list \<Rightarrow> nat" where
  "clients_cost cs = sum_list (map (\<lambda>(_, c). event_cost c) cs)"

definition event_ok :: "'n ecfg \<Rightarrow> ('n wal_entry \<Rightarrow> bool) \<Rightarrow> nat \<Rightarrow> 'n event \<Rightarrow> bool" where
  "event_ok E ok now c = (case c of ELog f \<Rightarrow> ok (fl_entry now f) \<and> fits_entry E (fl_entry now f) | _ \<Rightarrow> True)"

text \<open>Whether an event can happen: an operation lands that is in flight, and a flush of the engine waits for all.\<close>

fun enabled :: "'n event \<Rightarrow> 'n flight list \<Rightarrow> bool" where
  "enabled (EApply i) F = (i < length F)"
| "enabled EFlush F = (F = [])"
| "enabled _ F = True"

fun flights_after :: "'n event \<Rightarrow> 'n flight list \<Rightarrow> 'n flight list" where
  "flights_after (ELog f) F = F @ [f]"
| "flights_after (EApply i) F = landed i F"
| "flights_after ECrash F = []"
| "flights_after _ F = F"

fun feasible :: "(nat \<times> 'n event) list \<Rightarrow> 'n flight list \<Rightarrow> bool" where
  "feasible [] F = True"
| "feasible ((_, c) # cs) F = (enabled c F \<and> feasible cs (flights_after c F))"

text \<open>No two operations on one key are in flight together.\<close>

fun no_races :: "(nat \<times> 'n event) list \<Rightarrow> 'n flight list \<Rightarrow> bool" where
  "no_races [] F = True"
| "no_races ((_, c) # cs) F =
     ((case c of ELog f \<Rightarrow> fl_key f \<notin> fl_key ` set F | _ \<Rightarrow> True) \<and> no_races cs (flights_after c F))"

subsection \<open>The invariant\<close>

definition clients_ok :: "'n ecfg \<Rightarrow> (nat \<Rightarrow> 'w \<Rightarrow> 'n wal_entry list \<Rightarrow> bool) \<Rightarrow> nat \<Rightarrow> nat \<Rightarrow> nat \<Rightarrow> ('n, 'w) engine \<Rightarrow> 'n flight list
    \<Rightarrow> (key \<Rightarrow> 'n val option) \<Rightarrow> bool" where
  "clients_ok E J N n t e F R \<longleftrightarrow> (\<exists>es. J n (eg_wal e) es \<and> eng_ok E (n * Suc N) e \<and> length es + n \<le> N
     \<and> (\<forall>x \<in> set es. fits_entry E x \<and> entry_timestamp x \<le> t) \<and> sorted (map entry_timestamp es)
     \<and> (\<forall>k. answer (last_write es k) (get_from_tables E e k) = R k)
     \<and> (\<forall>k. last_write es k = Missing \<longrightarrow> R k = eng_view E e k \<and> k \<notin> fl_key ` set F)
     \<and> (\<forall>f \<in> set F. fits_entry E (fl_entry 0 f)))"

lemma answer_fixed: "answer r x = y \<Longrightarrow> r \<noteq> Missing \<Longrightarrow> answer r z = y"
  by (cases r) simp_all

lemma clients_durable: "durable E J N n t e \<longleftrightarrow> clients_ok E J N n t e [] (eng_view E e)"
  by (auto simp: durable_def clients_ok_def)

lemma fits_any_time: "fits_entry E (fl_entry now f) = fits_entry E (fl_entry 0 f)"
  by (cases f) simp_all

lemma last_write_flight: "last_write (es @ [fl_entry now f]) k = (case f of FlPut j v \<Rightarrow> if k = j then stored v else last_write es k
    | FlDelete j _ \<Rightarrow> if k = j then Tombstone else last_write es k)"
  by (cases f) simp_all

lemma effect_other: "k \<noteq> fl_key f \<Longrightarrow> fl_effect f V k = V k"
  by (cases f) simp_all

lemma effect_key: "fl_effect f V (fl_key f) = fl_effect f W (fl_key f)"
  by (cases f) simp_all

lemma stored_known: "stored v \<noteq> Missing"
  by (cases v) (simp_all add: stored_def)

lemma landed_set: "set (landed i F) \<subseteq> set F"
  unfolding landed_def by (auto dest: in_set_takeD in_set_dropD)

lemma spec_flights: "client_spec c (V, R, F) = (V', R', F') \<Longrightarrow> F' = flights_after c F"
  by (cases c) auto

lemma step_enabled: "client_step E ops crash now c (e, F) r s \<Longrightarrow> enabled c F"
  by (erule client_step.cases) auto

text \<open>Without races the map a crash leaves is the map of a reader after the operations in flight.\<close>

lemma effects_commute: "\<forall>g \<in> set G. fl_key g \<noteq> fl_key f \<Longrightarrow> fold fl_effect G (fl_effect f V) = fl_effect f (fold fl_effect G V)"
proof (induction G arbitrary: V)
  case (Cons g G)
  have "fl_effect g (fl_effect f V) = fl_effect f (fl_effect g V)"
    using Cons.prems by (cases f; cases g) (auto simp: fun_upd_twist)
  with Cons show ?case by simp
qed simp

lemma distinct_middle: "distinct (map f (a @ x # b)) \<Longrightarrow> (\<forall>y \<in> set a. f y \<noteq> f x) \<and> distinct (map f (a @ b))"
  by (auto simp: image_iff)

lemma no_race_step:
  assumes "distinct (map fl_key F)" and "R = fold fl_effect F V" and "enabled c F"
    and "case c of ELog f \<Rightarrow> fl_key f \<notin> fl_key ` set F | _ \<Rightarrow> True" and s: "client_spec c (V, R, F) = (V', R', F')"
  shows "R' = fold fl_effect F' V' \<and> distinct (map fl_key F')"
proof (cases c)
  case (EApply i)
  then have i: "i < length F" using assms(3) by simp
  let ?a = "take i F" and ?b = "drop (Suc i) F"
  have F: "F = ?a @ F ! i # ?b" using i by (simp add: id_take_nth_drop [symmetric])
  have dk: "distinct (map fl_key (?a @ F ! i # ?b))" unfolding F [symmetric] by (rule assms(1))
  from distinct_middle [OF this] have c: "\<forall>g \<in> set ?a. fl_key g \<noteq> fl_key (F ! i)" and ab: "distinct (map fl_key (?a @ ?b))" by blast+
  have "fold fl_effect F V = fold fl_effect (?a @ F ! i # ?b) V" unfolding F [symmetric] ..
  also have "\<dots> = fold fl_effect ?b (fold fl_effect ?a (fl_effect (F ! i) V))" by (simp add: effects_commute [OF c])
  finally show ?thesis using s assms(2) ab by (auto simp: EApply landed_def)
qed (use assms in auto)

lemma no_races_spec:
  "feasible cs F \<Longrightarrow> no_races cs F \<Longrightarrow> distinct (map fl_key F) \<Longrightarrow> R = fold fl_effect F V \<Longrightarrow>
    clients_spec cs (V, R, F) = (V', R', F') \<Longrightarrow> R' = fold fl_effect F' V'"
proof (induction cs arbitrary: V R F)
  case (Cons x cs)
  obtain now c where x: "x = (now, c)" by (cases x)
  obtain V1 R1 F1 where 1: "client_spec c (V, R, F) = (V1, R1, F1)" by (cases "client_spec c (V, R, F)")
  from no_race_step [OF Cons.prems(3,4) _ _ 1] Cons.prems(1,2) have "R1 = fold fl_effect F1 V1" "distinct (map fl_key F1)"
    by (simp_all add: x)
  with Cons.IH [of F1 R1 V1] Cons.prems(1,2,5) spec_flights [OF 1] 1 show ?case by (simp add: x)
qed simp

lemma apply_data:
  assumes "eng_ok E (Suc m) e" and "fits_entry E (fl_entry 0 f)"
  shows "eng_ok E m (apply_section E f e) \<and> eng_view E (apply_section E f e) = fl_effect f (eng_view E e)
    \<and> get_from_tables E (apply_section E f e) = get_from_tables E e \<and> eg_wal (apply_section E f e) = eg_wal e"
proof (cases f)
  case (FlPut k v)
  obtain eff e2 where p: "put_memtable E k v e = (eff, e2)" by fastforce
  have a: "apply_section E f e = count_writes 1 (length k + serialized_size (cc_js (ec_C E)) v) (apply_put_key_count E k eff e2)"
    by (simp add: FlPut put_apply_def p)
  have "fits_table E k v" using assms(2) by (simp add: FlPut)
  moreover have "data_of (apply_section E f e) = data_of e2" by (simp add: a)
  ultimately have "eng_ok E m (apply_section E f e) \<and> eng_view E (apply_section E f e) = (eng_view E e)(k := store_val v)
      \<and> get_from_tables E (apply_section E f e) = get_from_tables E e" by (intro after_put [OF assms(1) _ refl p])
  moreover have "eg_wal (apply_section E f e) = eg_wal e" using p unfolding a by (auto simp: put_memtable_def split: prod.splits)
  ultimately show ?thesis by (simp add: FlPut)
next
  case (FlDelete k b)
  let ?e = "e\<lparr>eg_active := mt_delete (cc_js (ec_C E)) k (eg_active e)\<rparr>"
  have "fits_table E k VNull" using assms(2) by (simp add: FlDelete)
  moreover have "data_of (apply_section E f e) = data_of ?e" by (simp add: FlDelete delete_apply_def Let_def)
  ultimately have "eng_ok E m (apply_section E f e) \<and> eng_view E (apply_section E f e) = (eng_view E e)(k := None)
      \<and> get_from_tables E (apply_section E f e) = get_from_tables E e" by (intro after_delete [OF assms(1) _ refl])
  moreover have "eg_wal (apply_section E f e) = eg_wal e" by (simp add: FlDelete delete_apply_def Let_def)
  ultimately show ?thesis by (simp add: FlDelete)
qed

lemma clients_frame:
  assumes "data_of e' = data_of e" and "eg_wal e' = eg_wal e"
  shows "clients_ok E J N n t e' F R = clients_ok E J N n t e F R"
  by (simp add: clients_ok_def ok_frame [OF assms(1)] view_frame [OF assms(1)] assms(2))

lemma clients_okI:
  assumes "J n (eg_wal e) es" and "eng_ok E (n * Suc N) e" and "length es + n \<le> N"
    and "\<forall>x \<in> set es. fits_entry E x \<and> entry_timestamp x \<le> t" and "sorted (map entry_timestamp es)"
    and "\<And>k. answer (last_write es k) (get_from_tables E e k) = R k"
    and "\<And>k. last_write es k = Missing \<Longrightarrow> R k = eng_view E e k \<and> k \<notin> fl_key ` set F" and "\<forall>f \<in> set F. fits_entry E (fl_entry 0 f)"
  shows "clients_ok E J N n t e F R"
  using assms unfolding clients_ok_def by blast

lemma clients_later: "clients_ok E J N n t e F R \<Longrightarrow> t \<le> now \<Longrightarrow> clients_ok E J N n now e F R"
proof -
  assume "clients_ok E J N n t e F R" and now: "t \<le> now"
  then obtain es where es: "J n (eg_wal e) es" "eng_ok E (n * Suc N) e" "length es + n \<le> N"
    "\<forall>x \<in> set es. fits_entry E x \<and> entry_timestamp x \<le> t" "sorted (map entry_timestamp es)"
    "\<And>k. answer (last_write es k) (get_from_tables E e k) = R k"
    "\<And>k. last_write es k = Missing \<Longrightarrow> R k = eng_view E e k \<and> k \<notin> fl_key ` set F" "\<forall>f \<in> set F. fits_entry E (fl_entry 0 f)"
    unfolding clients_ok_def by blast
  have "\<forall>x \<in> set es. fits_entry E x \<and> entry_timestamp x \<le> now" using es(4) now by force
  from clients_okI [where J = J, OF es(1-3) this es(5-8)] show ?thesis .
qed

context wal_log
begin

lemma clients_less: "clients_ok E inv N (Suc n) t e F R \<Longrightarrow> clients_ok E inv N n t e F R"
proof -
  assume "clients_ok E inv N (Suc n) t e F R"
  then obtain es where es: "inv (Suc n) (eg_wal e) es" "eng_ok E (Suc n * Suc N) e" "length es + Suc n \<le> N"
    "\<forall>x \<in> set es. fits_entry E x \<and> entry_timestamp x \<le> t" "sorted (map entry_timestamp es)"
    "\<And>k. answer (last_write es k) (get_from_tables E e k) = R k"
    "\<And>k. last_write es k = Missing \<Longrightarrow> R k = eng_view E e k \<and> k \<notin> fl_key ` set F" "\<forall>f \<in> set F. fits_entry E (fl_entry 0 f)"
    unfolding clients_ok_def by blast
  have "eng_ok E (n * Suc N) e" by (rule eng_ok_mono [OF es(2)]) simp
  from clients_okI [where J = inv, OF inv_less [OF es(1)] this _ es(4-8)] es(3) show ?thesis by simp
qed

lemma clients_mono: "clients_ok E inv N m t e F R \<Longrightarrow> n \<le> m \<Longrightarrow> clients_ok E inv N n t e F R"
proof -
  assume c: "clients_ok E inv N m t e F R" and "n \<le> m"
  from this(2,1) show ?thesis by (rule inc_induct) (rule clients_less)
qed

lemma clients_log:
  assumes on: "ec_wal E" and c: "clients_ok E inv N (Suc n) t e F R" and now: "t \<le> now"
    and f: "ok (fl_entry now f)" "fits_entry E (fl_entry now f)"
  shows "\<exists>e'. log_section E ops now f e = (Inr (), e') \<and> clients_ok E inv N n now e' (F @ [f]) (fl_effect f R)
    \<and> eng_view E e' = eng_view E e"
proof -
  from c obtain es where es: "inv (Suc n) (eg_wal e) es" "eng_ok E (Suc n * Suc N) e" "length es + Suc n \<le> N"
    "\<forall>x \<in> set es. fits_entry E x \<and> entry_timestamp x \<le> t" "sorted (map entry_timestamp es)"
    "\<And>k. answer (last_write es k) (get_from_tables E e k) = R k"
    "\<And>k. last_write es k = Missing \<Longrightarrow> R k = eng_view E e k \<and> k \<notin> fl_key ` set F" "\<forall>f \<in> set F. fits_entry E (fl_entry 0 f)"
    unfolding clients_ok_def by blast
  have "\<exists>w. log_section E ops now f e = (Inr (), e\<lparr>eg_wal := w\<rparr>) \<and> inv n w (es @ [fl_entry now f])"
  proof (cases f)
    case (FlPut k v)
    with put [OF es(1), of k v now] f(1) on show ?thesis by (auto simp: put_log_def if_wal_def on_wal_def)
  next
    case (FlDelete k b)
    with delete [OF es(1), of k now] f(1) on show ?thesis by (auto simp: delete_log_def if_wal_def on_wal_def)
  qed
  then obtain w where w: "log_section E ops now f e = (Inr (), e\<lparr>eg_wal := w\<rparr>)" "inv n w (es @ [fl_entry now f])" by blast
  let ?e = "e\<lparr>eg_wal := w\<rparr>" and ?es = "es @ [fl_entry now f]"
  have d: "data_of ?e = data_of e" by simp
  have "eng_ok E (n * Suc N) ?e" unfolding ok_frame [OF d] by (rule eng_ok_mono [OF es(2)]) simp
  moreover have "entry_timestamp (fl_entry now f) = now" by (cases f) simp_all
  then have "\<forall>x \<in> set ?es. fits_entry E x \<and> entry_timestamp x \<le> now" "sorted (map entry_timestamp ?es)"
    using es(4,5) f(2) now by (auto simp: sorted_append intro: order_trans)
  moreover have "answer (last_write ?es k) (get_from_tables E ?e k) = fl_effect f R k" for k
    using es(6) by (cases f) (auto simp: view_frame [OF d])
  moreover have "fl_effect f R k = eng_view E ?e k \<and> k \<notin> fl_key ` set (F @ [f])" if "last_write ?es k = Missing" for k
    using that es(7) by (cases f) (auto simp: view_frame [OF d] stored_known split: if_splits)
  moreover have "\<forall>g \<in> set (F @ [f]). fits_entry E (fl_entry 0 g)" using es(8) f(2) by (simp add: fits_any_time [of E now])
  ultimately have "clients_ok E inv N n now ?e (F @ [f]) (fl_effect f R)"
    using w(2) es(3) by (intro clients_okI [where es = ?es]) simp_all
  with w(1) show ?thesis by (auto simp: view_frame [OF d])
qed

lemma clients_apply:
  assumes c: "clients_ok E inv N (Suc n) t e F R" and i: "i < length F"
  shows "clients_ok E inv N n t (apply_section E (F ! i) e) (landed i F) R
    \<and> eng_view E (apply_section E (F ! i) e) = fl_effect (F ! i) (eng_view E e)"
proof -
  let ?f = "F ! i"
  from c obtain es where es: "inv (Suc n) (eg_wal e) es" "eng_ok E (Suc n * Suc N) e" "length es + Suc n \<le> N"
    "\<forall>x \<in> set es. fits_entry E x \<and> entry_timestamp x \<le> t" "sorted (map entry_timestamp es)"
    "\<And>k. answer (last_write es k) (get_from_tables E e k) = R k"
    "\<And>k. last_write es k = Missing \<Longrightarrow> R k = eng_view E e k \<and> k \<notin> fl_key ` set F" "\<forall>f \<in> set F. fits_entry E (fl_entry 0 f)"
    unfolding clients_ok_def by blast
  have f: "?f \<in> set F" using i by simp
  have "eng_ok E (Suc (n * Suc N)) e" by (rule eng_ok_mono [OF es(2)]) simp
  from apply_data [OF this] es(8) f have a: "eng_ok E (n * Suc N) (apply_section E ?f e)"
    "eng_view E (apply_section E ?f e) = fl_effect ?f (eng_view E e)"
    "get_from_tables E (apply_section E ?f e) = get_from_tables E e" "eg_wal (apply_section E ?f e) = eg_wal e" by blast+
  have "R k = eng_view E (apply_section E ?f e) k \<and> k \<notin> fl_key ` set (landed i F)" if m: "last_write es k = Missing" for k
  proof -
    have "k \<noteq> fl_key ?f" using es(7) [OF m] f by blast
    then show ?thesis using es(7) [OF m] landed_set [of i F] by (auto simp: a(2) effect_other)
  qed
  then have "clients_ok E inv N n t (apply_section E ?f e) (landed i F) R"
    using inv_less [OF es(1)] a es(3,8) landed_set [of i F]
    by (intro clients_okI [OF _ a(1) _ es(4,5)]) (auto simp: es(6))
  with a(2) show ?thesis by blast
qed

lemma clients_check:
  assumes E: "env_fine E" and c: "clients_ok E inv N (Suc n) t e F R"
  shows "\<exists>e'. check_memtable_flush E e = (Inr (), e') \<and> clients_ok E inv N n t e' F R \<and> eng_view E e' = eng_view E e"
proof -
  from c obtain es where es: "inv (Suc n) (eg_wal e) es" "eng_ok E (Suc n * Suc N) e" "length es + Suc n \<le> N"
    "\<forall>x \<in> set es. fits_entry E x \<and> entry_timestamp x \<le> t" "sorted (map entry_timestamp es)"
    "\<And>k. answer (last_write es k) (get_from_tables E e k) = R k"
    "\<And>k. last_write es k = Missing \<Longrightarrow> R k = eng_view E e k \<and> k \<notin> fl_key ` set F" "\<forall>f \<in> set F. fits_entry E (fl_entry 0 f)"
    unfolding clients_ok_def by blast
  have "eng_ok E (Suc (n * Suc N)) e" by (rule eng_ok_mono [OF es(2)]) simp
  from check_flush_tables [OF E this] obtain e' where e': "check_memtable_flush E e = (Inr (), e')" "eng_ok E (n * Suc N) e'"
    "eng_view E e' = eng_view E e" "eg_wal e' = eg_wal e"
    "get_from_tables E e' = get_from_tables E e \<or> get_from_tables E e' = eng_view E e" by blast
  have "answer (last_write es k) (get_from_tables E e' k) = R k" for k
    using e'(5) es(6) [of k] es(7) [of k] answer_fixed [OF es(6), of k] by (cases "last_write es k = Missing") auto
  then have "clients_ok E inv N n t e' F R"
    using inv_less [OF es(1)] es(3,7) by (intro clients_okI [OF _ e'(2) _ es(4,5) _ _ es(8)]) (simp_all add: e')
  with e' show ?thesis by blast
qed

lemma clients_flush:
  assumes E: "env_fine E" "ec_wal E" and c: "clients_ok E inv N (n + 2) t e F R" and now: "t \<le> now"
  shows "\<exists>e'. eng_flush E ops now e = (Inr (), e') \<and> clients_ok E inv N n now e' [] (eng_view E e') \<and> eng_view E e' = eng_view E e"
proof -
  from c obtain es where "inv (n + 2) (eg_wal e) es" "eng_ok E ((n + 2) * Suc N) e" "length es + (n + 2) \<le> N"
    unfolding clients_ok_def by blast
  from flush_restores [OF E this] show ?thesis unfolding clients_durable [symmetric] by blast
qed

text \<open>A crash leaves what an engine leaves whose memtable is the log.\<close>

lemma clients_crash:
  assumes E: "env_fine E" "ec_wal E" and c: "clients_ok E inv N (n + 2) t e F R" and now: "t \<le> now"
    and f: "lists E files (eg_levels e 0)" and disk: "cs_disk disk = cs_disk (eg_disk e)" and w: "crash (eg_wal e) w"
  shows "\<exists>e'. eng_open E ops now allow False files order disk (eg_seq_file e) w = (Inr (), e')
    \<and> clients_ok E inv N n now e' [] (eng_view E e') \<and> eng_view E e' = R"
proof -
  from c obtain es where es: "inv (n + 2) (eg_wal e) es" "eng_ok E ((n + 2) * Suc N) e" "length es + (n + 2) \<le> N"
    "\<forall>x \<in> set es. fits_entry E x \<and> entry_timestamp x \<le> t" "sorted (map entry_timestamp es)"
    "\<And>k. answer (last_write es k) (get_from_tables E e k) = R k"
    unfolding clients_ok_def by blast
  have fit: "\<forall>x \<in> set es. fits_entry E x" using es(4) by blast
  define m where "m = fold (replay_entry (cc_js (ec_C E))) es (mt_new (ec_mem_max E))"
  from replay_spec [OF mem_ok_new fit, of "ec_mem_max E"] have m: "mem_ok E m" "mt_lookup m = last_write es"
    "mt_count m \<le> length es"
    by (simp_all add: m_def last_write_def new_facts)
  let ?e = "e\<lparr>eg_active := m\<rparr>"
  have "eng_ok E ((n + 1) * Suc N) ?e"
    using es(2,3) m by (simp add: eng_ok_def tables_ok_def)
  moreover have t: "get_from_tables E ?e = get_from_tables E e" by (simp add: get_from_tables_def fun_eq_iff)
  moreover have "eg_imm e = []" using es(2) by (simp add: eng_ok_def)
  then have v: "eng_view E ?e = R" by (simp add: fun_eq_iff view_one t m(2) es(6))
  moreover have "inv (n + 1) (eg_wal ?e) es" using inv_le [OF es(1), of "n + 1"] by simp
  ultimately have "durable E inv N (n + 1) t ?e"
    using es(3-6) unfolding durable_def by (intro exI [of _ es]) simp
  from durable_open [OF E this now, of files disk w allow order] f disk w v show ?thesis
    unfolding clients_durable [symmetric] by simp
qed

lemma clients_event:
  assumes E: "env_fine E" "ec_wal E" and c: "clients_ok E inv N (n + event_cost c) t e F R" and now: "t \<le> now"
    and a: "event_ok E ok now c"
  shows "enabled c F \<Longrightarrow> \<exists>s. client_step E ops crash now c (e, F) (Inr ()) s"
    and "client_step E ops crash now c (e, F) r (e', F') \<Longrightarrow> r = Inr () \<and> (\<exists>R'. client_spec c (eng_view E e, R, F) = (eng_view E e', R', F')
      \<and> clients_ok E inv N n now e' F' R')"
proof -
  have later: "clients_ok E inv N n t x G S \<Longrightarrow> clients_ok E inv N n now x G S" for x G S
    by (rule clients_later [OF _ now])
  have "(enabled c F \<longrightarrow> (\<exists>s. client_step E ops crash now c (e, F) (Inr ()) s)) \<and>
    (client_step E ops crash now c (e, F) r (e', F') \<longrightarrow> r = Inr () \<and> (\<exists>R'. client_spec c (eng_view E e, R, F) = (eng_view E e', R', F')
      \<and> clients_ok E inv N n now e' F' R'))"
  proof (cases c)
    case (ELog f)
    have "clients_ok E inv N (Suc n) t e F R" "ok (fl_entry now f)" "fits_entry E (fl_entry now f)"
      using c a by (simp_all add: ELog event_cost_def event_ok_def)
    from clients_log [OF E(2) this(1) now this(2,3)] obtain x where
      x: "log_section E ops now f e = (Inr (), x)" "clients_ok E inv N n now x (F @ [f]) (fl_effect f R)" "eng_view E x = eng_view E e"
      by blast
    from client_log [OF x(1), of crash F] have "client_step E ops crash now c (e, F) (Inr ()) (x, F @ [f])" by (simp add: ELog)
    moreover have "r = Inr () \<and> (\<exists>R'. client_spec c (eng_view E e, R, F) = (eng_view E e', R', F') \<and> clients_ok E inv N n now e' F' R')"
      if "client_step E ops crash now c (e, F) r (e', F')" using that x unfolding ELog by (auto elim!: client_logE)
    ultimately show ?thesis by blast
  next
    case (EApply i)
    have d: "clients_ok E inv N (Suc n) t e F R" using c by (simp add: EApply event_cost_def)
    have "r = Inr () \<and> (\<exists>R'. client_spec c (eng_view E e, R, F) = (eng_view E e', R', F') \<and> clients_ok E inv N n now e' F' R')"
      if "client_step E ops crash now c (e, F) r (e', F')"
      using that clients_apply [OF d, of i] unfolding EApply by (auto elim!: client_applyE intro: later)
    with client_apply [of i F E ops crash now e] show ?thesis unfolding EApply enabled.simps by blast
  next
    case ECheck
    have "clients_ok E inv N (Suc n) t e F R" using c by (simp add: ECheck event_cost_def)
    from clients_check [OF E(1) this] obtain x where
      x: "check_memtable_flush E e = (Inr (), x)" "clients_ok E inv N n t x F R" "eng_view E x = eng_view E e" by blast
    from client_check [OF x(1), of ops crash now F] have "client_step E ops crash now c (e, F) (Inr ()) (x, F)" by (simp add: ECheck)
    moreover have "r = Inr () \<and> (\<exists>R'. client_spec c (eng_view E e, R, F) = (eng_view E e', R', F') \<and> clients_ok E inv N n now e' F' R')"
      if "client_step E ops crash now c (e, F) r (e', F')" using that x later unfolding ECheck by (auto elim!: client_checkE)
    ultimately show ?thesis by blast
  next
    case EFlush
    have "clients_ok E inv N (n + 2) t e F R" using c by (simp add: EFlush event_cost_def)
    from clients_flush [OF E this now] obtain x where
      x: "eng_flush E ops now e = (Inr (), x)" "clients_ok E inv N n now x [] (eng_view E x)" "eng_view E x = eng_view E e" by blast
    have "r = Inr () \<and> (\<exists>R'. client_spec c (eng_view E e, R, F) = (eng_view E e', R', F') \<and> clients_ok E inv N n now e' F' R')"
      if "client_step E ops crash now c (e, F) r (e', F')" using that x unfolding EFlush by (auto elim!: client_flushE)
    with client_flush [OF x(1), of crash] show ?thesis unfolding EFlush enabled.simps by blast
  next
    case ECrash
    have d: "clients_ok E inv N (n + 2) t e F R" using c by (simp add: ECrash event_cost_def)
    note op = clients_crash [OF E d now]
    have "tables_ok E e" using d by (auto simp: clients_ok_def eng_ok_def)
    from lists_exists [OF this] obtain files where fs: "lists E files (eg_levels e 0)" by blast
    obtain w where w: "crash (eg_wal e) w" using crashes by blast
    from op [OF fs refl w, of False "[]"] obtain x where
      "eng_open E ops now False False files [] (eg_disk e) (eg_seq_file e) w = (Inr (), x)" by blast
    from client_crash [where crash = crash and w = w, OF fs refl w this, of F]
    have "client_step E ops crash now c (e, F) (Inr ()) (x, [])" by (simp add: ECrash)
    moreover have "r = Inr () \<and> F' = [] \<and> clients_ok E inv N n now e' [] (eng_view E e') \<and> eng_view E e' = R"
      if "client_step E ops crash now ECrash (e, F) r (e', F')"
      using that
    proof (rule client_crashE)
      fix files y disk w allow order q z G
      assume h: "(e, F) = (y, G)" "(e', F') = (z, [])" "r = to_kv q" "lists E files (eg_levels y 0)" "cs_disk disk = cs_disk (eg_disk y)"
        "crash (eg_wal y) w" "eng_open E ops now allow False files order disk (eg_seq_file y) w = (q, z)"
      with op [of files disk w allow order] show ?thesis by auto
    qed
    ultimately show ?thesis by (auto simp: ECrash)
  qed
  then show "enabled c F \<Longrightarrow> \<exists>s. client_step E ops crash now c (e, F) (Inr ()) s"
    and "client_step E ops crash now c (e, F) r (e', F') \<Longrightarrow> r = Inr () \<and> (\<exists>R'. client_spec c (eng_view E e, R, F) = (eng_view E e', R', F')
      \<and> clients_ok E inv N n now e' F' R')" by blast+
qed

lemma clients_run:
  assumes E: "env_fine E" "ec_wal E" and r: "client_run E ops crash t cs s rs s'"
  shows "clients_ok E inv N (n + clients_cost cs) t (fst s) (snd s) R \<Longrightarrow> \<forall>(now, c) \<in> set cs. event_ok E ok now c \<Longrightarrow>
    (\<forall>r \<in> set rs. r = Inr ()) \<and> feasible cs (snd s) \<and> (\<exists>R'. clients_spec cs (eng_view E (fst s), R, snd s) = (eng_view E (fst s'), R', snd s')
      \<and> clients_ok E inv N n (last (t # map fst cs)) (fst s') (snd s') R')"
  using r
proof (induction arbitrary: R rule: client_run.induct)
  case (clients_step t now c s r s1 cs rs s')
  have d: "clients_ok E inv N ((n + clients_cost cs) + event_cost c) t (fst s) (snd s) R"
    using clients_step.prems(1) by (simp add: clients_cost_def ac_simps)
  have a: "event_ok E ok now c" using clients_step.prems(2) by simp
  have "client_step E ops crash now c (fst s, snd s) r (fst s1, snd s1)" using clients_step.hyps(2) by simp
  from clients_event(2) [OF E d clients_step.hyps(1) a this] obtain R1 where
    R1: "r = Inr ()" "client_spec c (eng_view E (fst s), R, snd s) = (eng_view E (fst s1), R1, snd s1)"
      "clients_ok E inv N (n + clients_cost cs) now (fst s1) (snd s1) R1" by blast
  have "enabled c (snd s)" using clients_step.hyps(2) step_enabled by (metis prod.collapse)
  with clients_step.IH [OF R1(3)] clients_step.prems(2) R1(1,2) spec_flights [OF R1(2)] show ?case by auto
qed (auto simp: clients_cost_def)

lemma clients_exist:
  assumes E: "env_fine E" "ec_wal E"
  shows "clients_ok E inv N (n + clients_cost cs) t e F R \<Longrightarrow> \<forall>(now, c) \<in> set cs. event_ok E ok now c \<Longrightarrow> sorted (t # map fst cs) \<Longrightarrow>
    feasible cs F \<Longrightarrow> \<exists>rs s. client_run E ops crash t cs (e, F) rs s"
proof (induction cs arbitrary: t e F R)
  case Nil
  then show ?case by (blast intro: clients_none)
next
  case (Cons x cs)
  obtain now c where x: "x = (now, c)" by (cases x)
  have d: "clients_ok E inv N ((n + clients_cost cs) + event_cost c) t e F R"
    using Cons.prems(1) by (simp add: x clients_cost_def ac_simps)
  have a: "event_ok E ok now c" "t \<le> now" "enabled c F" using Cons.prems by (simp_all add: x)
  from clients_event(1) [OF E d a(2,1,3)] obtain e1 F1 where 1: "client_step E ops crash now c (e, F) (Inr ()) (e1, F1)" by auto
  from clients_event(2) [OF E d a(2,1) 1] obtain R1 where R1: "client_spec c (eng_view E e, R, F) = (eng_view E e1, R1, F1)"
    "clients_ok E inv N (n + clients_cost cs) now e1 F1 R1" by blast
  from Cons.IH [OF R1(2)] Cons.prems(2-4) spec_flights [OF R1(1)] obtain rs s where
    "client_run E ops crash now cs (e1, F1) rs s" by (auto simp: x)
  from clients_step [OF a(2) 1 this] show ?case unfolding x by blast
qed

end

subsection \<open>Properties\<close>

lemma clients_start:
  assumes "config_fine E W N sp" and "seg_start E W t0 sp = (Inr (), e0)"
  shows "clients_ok E (seg_synced W) N N t0 e0 [] (\<lambda>_. None) \<and> eng_view E e0 = (\<lambda>_. None)"
proof -
  from seg_start_ok [OF assms(1), of t0] assms(2) have "durable E (seg_synced W) N N t0 e0" "eng_view E e0 = (\<lambda>_. None)" by auto
  then show ?thesis using clients_durable [of E "seg_synced W" N N t0 e0] by simp
qed

lemma clients_facts:
  assumes "config_fine E W N sp" and "seg_start E W t0 sp = (Inr (), e0)"
    and "client_run E (seg_ops W) seg_crash t0 cs (e0, []) rs (e, F)"
    and "\<forall>(now, c) \<in> set cs. event_ok E (fits W) now c" and "clients_cost cs + 2 \<le> N"
    and "clients_spec cs (\<lambda>_. None, \<lambda>_. None, []) = (V, R, G)"
  shows "\<forall>r \<in> set rs. r = Inr ()" and "feasible cs []" and "G = F" and "eng_view E e = V"
    and "client_step E (seg_ops W) seg_crash (last (t0 # map fst cs)) ECrash (e, F) r (e', H) \<Longrightarrow>
      r = Inr () \<and> H = [] \<and> eng_view E e' = R"
    and "\<exists>e'. client_step E (seg_ops W) seg_crash (last (t0 # map fst cs)) ECrash (e, F) (Inr ()) (e', [])"
proof -
  have E: "env_fine E" "ec_wal E" using assms(1) by (simp_all add: config_fine_def)
  note s = clients_start [OF assms(1,2)]
  have "clients_ok E (seg_synced W) N (2 + clients_cost cs) t0 (fst (e0, [])) (snd (e0, [])) (\<lambda>_. None)"
    using seg.clients_mono [of E W N N t0 e0 "[]" "\<lambda>_. None" "2 + clients_cost cs"] s assms(5) by simp
  from seg.clients_run [OF E assms(3) this assms(4)] obtain R' where run: "\<forall>r \<in> set rs. r = Inr ()" "feasible cs []"
    "clients_spec cs (eng_view E e0, \<lambda>_. None, []) = (eng_view E e, R', F)"
    "clients_ok E (seg_synced W) N 2 (last (t0 # map fst cs)) e F R'" unfolding fst_conv snd_conv by blast
  have V: "V = eng_view E e" "R' = R" "G = F" using run(3) assms(6) s by simp_all
  have "clients_ok E (seg_synced W) N (0 + event_cost ECrash) (last (t0 # map fst cs)) e F R"
    using run(4) unfolding V(2) event_cost_def event.case add_0 .
  with run(1,2) V have run: "\<forall>r \<in> set rs. r = Inr ()" "feasible cs []" "eng_view E e = V" "G = F"
    "clients_ok E (seg_synced W) N (0 + event_cost ECrash) (last (t0 # map fst cs)) e F R" by blast+
  then show "\<forall>r \<in> set rs. r = Inr ()" "feasible cs []" "G = F" "eng_view E e = V" by simp_all
  have ok: "event_ok E (fits W) t ECrash" for t by (simp add: event_ok_def)
  note crash = seg.clients_event [OF E run(5) order_refl ok]
  have c: "r = Inr () \<and> H = [] \<and> eng_view E e' = R"
    if "client_step E (seg_ops W) seg_crash (last (t0 # map fst cs)) ECrash (e, F) r (e', H)" for r e' H
    using crash(2) [OF that] by auto
  then show "client_step E (seg_ops W) seg_crash (last (t0 # map fst cs)) ECrash (e, F) r (e', H) \<Longrightarrow>
      r = Inr () \<and> H = [] \<and> eng_view E e' = R" .
  from crash(1) obtain s where "client_step E (seg_ops W) seg_crash (last (t0 # map fst cs)) ECrash (e, F) (Inr ()) s" by auto
  with c [of "Inr ()" "fst s" "snd s"] have "client_step E (seg_ops W) seg_crash (last (t0 # map fst cs)) ECrash (e, F) (Inr ()) (fst s, [])"
    by (metis prod.collapse)
  then show "\<exists>e'. client_step E (seg_ops W) seg_crash (last (t0 # map fst cs)) ECrash (e, F) (Inr ()) (e', [])" by blast
qed

lemma clients_can:
  assumes "config_fine E W N sp" and "seg_start E W t0 sp = (Inr (), e0)"
    and "\<forall>(now, c) \<in> set cs. event_ok E (fits W) now c" and "clients_cost cs + 2 \<le> N"
    and "sorted (t0 # map fst cs)" and "feasible cs []"
  shows "\<exists>rs e F. client_run E (seg_ops W) seg_crash t0 cs (e0, []) rs (e, F)"
proof -
  have E: "env_fine E" "ec_wal E" using assms(1) by (simp_all add: config_fine_def)
  have "clients_ok E (seg_synced W) N (2 + clients_cost cs) t0 e0 [] (\<lambda>_. None)"
    using seg.clients_mono [of E W N N t0 e0 "[]" "\<lambda>_. None" "2 + clients_cost cs"] clients_start [OF assms(1,2)] assms(4) by simp
  from seg.clients_exist [OF E this assms(3,5,6)] show ?thesis by auto
qed


text \<open>Two clients on two keys; one lands after a flush of the memtable, and the other has not landed when the process dies.\<close>

definition toy_events :: "(nat \<times> nat event) list" where
  "toy_events = [(1, ELog (FlPut [97] (VBytes [1]))), (1, ELog (FlPut [98] (VBytes [2]))), (2, EApply 1), (2, ECheck),
     (3, ELog (FlDelete [98] True)), (3, EApply 0), (4, EApply 0), (4, EFlush), (5, ELog (FlPut [97] (VBytes [3])))]"


text \<open>
  C35: racing puts.  Two clients put different values under one key and are both told that it worked.  If the one that
  logged first lands last, readers see its value, until a crash: the recovered engine has the other value.
\<close>

theorem racing_puts_change_value:
  assumes "config_fine E W N sp" and "seg_start E W t0 sp = (Inr (), e0)" and "6 \<le> N"
    and "\<forall>v \<in> {v1, v2}. v \<noteq> VNull \<and> fits W (WPut k v t0) \<and> fits_table E k v"
    and cs: "cs = map (Pair t0) [ELog (FlPut k v1), ELog (FlPut k v2), EApply 1, EApply 0]"
  shows "\<exists>rs e e'. client_run E (seg_ops W) seg_crash t0 cs (e0, []) rs (e, []) \<and> (\<forall>r \<in> set rs. r = Inr ())
    \<and> fst (eng_get E k e) = Inr (Some v1)
    \<and> client_step E (seg_ops W) seg_crash t0 ECrash (e, []) (Inr ()) (e', []) \<and> fst (eng_get E k e') = Inr (Some v2)"
proof -
  have a: "\<forall>(now, c) \<in> set cs. event_ok E (fits W) now c" using assms(4) by (simp add: cs event_ok_def)
  have cost: "clients_cost cs + 2 \<le> N" using assms(3) by (simp add: cs clients_cost_def event_cost_def)
  have feas: "sorted (t0 # map fst cs)" "feasible cs []" "last (t0 # map fst cs) = t0" by (simp_all add: cs landed_def)
  from clients_can [OF assms(1,2) a cost feas(1,2)] obtain rs e F where
    r: "client_run E (seg_ops W) seg_crash t0 cs (e0, []) rs (e, F)" by blast
  obtain V R G where s: "clients_spec cs (\<lambda>_. None, \<lambda>_. None, []) = (V, R, G)" by (cases "clients_spec cs (\<lambda>_. None, \<lambda>_. None, [])")
  note f = clients_facts [OF assms(1,2) r a cost s]
  have v: "V k = Some v1" "R k = Some v2" "G = []"
    using s assms(4) by (auto simp: cs landed_def store_val_def)
  from f(6) obtain e' where x: "client_step E (seg_ops W) seg_crash t0 ECrash (e, F) (Inr ()) (e', [])" unfolding feas(3) by blast
  from f(5) [unfolded feas(3), OF x] have "eng_view E e' k = Some v2" using v by simp
  with r x f(1,3,4) v show ?thesis by (auto simp: eng_get_view)
qed

theorem racing_puts_change_value_witness:
  "\<exists>e0 rs e e'. seg_start toy_ecfg (toy_wenv 40 SyncFsync) 0 2240 = (Inr (), e0)
     \<and> client_run toy_ecfg (seg_ops (toy_wenv 40 SyncFsync)) seg_crash 0
         (map (Pair 0) [ELog (FlPut [97] (VBytes [1])), ELog (FlPut [97] (VBytes [2])), EApply 1, EApply 0]) (e0, []) rs (e, [])
     \<and> fst (eng_get toy_ecfg [97] e) = Inr (Some (VBytes [1]))
     \<and> client_step toy_ecfg (seg_ops (toy_wenv 40 SyncFsync)) seg_crash 0 ECrash (e, []) (Inr ()) (e', [])
     \<and> fst (eng_get toy_ecfg [97] e') = Inr (Some (VBytes [2]))"
proof -
  have c: "config_fine toy_ecfg (toy_wenv 40 SyncFsync) 27 2240" by (rule toy_config) simp_all
  from seg_start_ok [OF this, of 0] obtain e0 where e0: "seg_start toy_ecfg (toy_wenv 40 SyncFsync) 0 2240 = (Inr (), e0)" by blast
  have f: "\<forall>v \<in> {VBytes [1], VBytes [2]}. v \<noteq> VNull \<and> fits (toy_wenv 40 SyncFsync) (WPut [97] v 0) \<and> fits_table toy_ecfg [97] v"
    by (simp add: toy_fits_table toy_put_fits)
  from racing_puts_change_value [OF c e0 _ f refl] e0 show ?thesis by auto
qed

end
