(* ===== verification/Wal_Waiters.thy ===== *)
theory Wal_Waiters
  imports Wal_Durability Wal_Frame_Correct "HOL-Library.Multiset"
begin

text \<open>
  Many writers and the group commit (\<open>storage/wal.rs\<close>, and the same in \<open>storage/wal_frame.rs\<close>).  A writer
  puts its entry into the queue with a channel and waits for an answer; \<open>flush_pending\<close>, called by the background task and by
  flushes, takes the whole queue and later writes it as one batch and answers each of its writers.  Between taking and
  writing, others can queue, take and write; the write itself is one step here (in the code a rotation and the write hold the lock of the segment one after
  the other).  \<open>wr\<close> is the batch write of a log; a channel is known by its number.
\<close>

record ('n, 'w) waiting =
  wq_log :: 'w
  wq_pending :: "(nat \<times> 'n wal_entry) list"
  wq_taken :: "(nat \<times> 'n wal_entry) list list"
  wq_acks :: "(nat \<times> unit res) list"
  wq_next :: nat

definition wq_start :: "'w \<Rightarrow> ('n, 'w) waiting" where
  "wq_start w = \<lparr>wq_log = w, wq_pending = [], wq_taken = [], wq_acks = [], wq_next = 0\<rparr>"

definition wq_enqueue :: "'n wal_entry \<Rightarrow> ('n, 'w) waiting \<Rightarrow> ('n, 'w) waiting" where
  "wq_enqueue e s = s\<lparr>wq_pending := wq_pending s @ [(wq_next s, e)], wq_next := Suc (wq_next s)\<rparr>"

definition wq_take :: "('n, 'w) waiting \<Rightarrow> ('n, 'w) waiting" where
  "wq_take s = (if wq_pending s = [] then s else s\<lparr>wq_pending := [], wq_taken := wq_taken s @ [wq_pending s]\<rparr>)"

definition ack_result :: "unit res \<Rightarrow> unit res" where
  "ack_result r = map_sum (\<lambda>e. Internal (lsm_display e)) id r"

definition wq_write :: "('n wal_entry list \<Rightarrow> 'w \<Rightarrow> unit res \<times> 'w) \<Rightarrow> nat \<Rightarrow> ('n, 'w) waiting \<Rightarrow> unit res \<times> ('n, 'w) waiting" where
  "wq_write wr i s = (let b = wq_taken s ! i; (r, w) = wr (map snd b) (wq_log s) in
     (r, s\<lparr>wq_log := w, wq_taken := take i (wq_taken s) @ drop (Suc i) (wq_taken s),
            wq_acks := wq_acks s @ map (\<lambda>(c, _). (c, ack_result r)) b\<rparr>))"

text \<open>Taken and written at once this is the flush of theory \<open>Wal_Manager\<close>.\<close>

lemma flush_is_take_and_write:
  assumes "wq_pending s \<noteq> []" and "wq_taken s = []" and "wm_pending (wq_log s) = []"
  shows "flush_pending_group_commit W now ((wq_log s)\<lparr>wm_pending := map snd (wq_pending s)\<rparr>) =
    map_prod id wq_log (wq_write (batch_write_entries W now) 0 (wq_take s))"
proof -
  have same: "(wq_log s)\<lparr>wm_pending := []\<rparr> = wq_log s" using assms(3) by (cases "wq_log s") simp
  from assms show ?thesis
    by (simp add: same flush_pending_group_commit_def wq_write_def wq_take_def case_prod_unfold prod_eq_iff Let_def)
qed

datatype 'n wq_event = WEnqueue "'n wal_entry" | WTake | WWrite nat

inductive wq_step :: "(nat \<Rightarrow> 'n wal_entry list \<Rightarrow> 'w \<Rightarrow> unit res \<times> 'w) \<Rightarrow> nat \<times> 'n wq_event \<Rightarrow> ('n, 'w) waiting \<Rightarrow> ('n, 'w) waiting \<Rightarrow> bool"
  for wr where
  wq_enqueues: "wq_step wr (now, WEnqueue e) s (wq_enqueue e s)"
| wq_takes: "wq_step wr (now, WTake) s (wq_take s)"
| wq_writes: "i < length (wq_taken s) \<Longrightarrow> wq_step wr (now, WWrite i) s (snd (wq_write (wr now) i s))"

inductive_cases wq_enqueueE: "wq_step wr (now, WEnqueue e) s s'"
inductive_cases wq_takeE: "wq_step wr (now, WTake) s s'"
inductive_cases wq_writeE: "wq_step wr (now, WWrite i) s s'"

inductive wq_run :: "(nat \<Rightarrow> 'n wal_entry list \<Rightarrow> 'w \<Rightarrow> unit res \<times> 'w) \<Rightarrow> (nat \<times> 'n wq_event) list \<Rightarrow> ('n, 'w) waiting \<Rightarrow> ('n, 'w) waiting \<Rightarrow> bool"
  for wr where
  wq_none: "wq_run wr [] s s"
| wq_more: "wq_step wr x s s1 \<Longrightarrow> wq_run wr xs s1 s2 \<Longrightarrow> wq_run wr (x # xs) s s2"

fun queued :: "(nat \<times> 'n wq_event) list \<Rightarrow> 'n wal_entry list" where
  "queued [] = []"
| "queued ((_, WEnqueue e) # xs) = e # queued xs"
| "queued (_ # xs) = queued xs"

text \<open>The entries not yet written, with the channels that wait for them.\<close>

definition unwritten :: "('n, 'w) waiting \<Rightarrow> (nat \<times> 'n wal_entry) list" where
  "unwritten s = concat (wq_taken s) @ wq_pending s"

definition waiters :: "('n, 'w) waiting \<Rightarrow> nat list" where
  "waiters s = map fst (unwritten s)"

text \<open>\<open>es\<close> are all entries queued so far; the log holds those of the channels answered, in the order of the answers.\<close>

definition waiters_ok :: "(nat \<Rightarrow> 'w \<Rightarrow> 'n wal_entry list \<Rightarrow> bool) \<Rightarrow> ('n wal_entry \<Rightarrow> bool) \<Rightarrow> nat \<Rightarrow> 'n wal_entry list \<Rightarrow> ('n, 'w) waiting \<Rightarrow> bool" where
  "waiters_ok J ok n es s \<longleftrightarrow> wq_next s = length es \<and> mset (waiters s) + mset (map fst (wq_acks s)) = mset [0..<length es]
     \<and> (\<forall>p \<in> set (unwritten s). snd p = es ! fst p \<and> ok (es ! fst p)) \<and> [] \<notin> set (wq_taken s)
     \<and> (\<forall>a \<in> set (wq_acks s). snd a = Inr ())
     \<and> J (n + length (unwritten s)) (wq_log s) (map (\<lambda>a. es ! fst a) (wq_acks s))"

lemma concat_without: "i < length xss \<Longrightarrow> mset (concat (take i xss @ drop (Suc i) xss)) + mset (xss ! i) = mset (concat xss)"
  by (subst (4) id_take_nth_drop [of i xss]) (simp_all add: ac_simps)

lemma waiters_below:
  assumes "waiters_ok J ok n es s"
  shows "p \<in> set (unwritten s) \<Longrightarrow> fst p < length es" "a \<in> set (wq_acks s) \<Longrightarrow> fst a < length es"
proof -
  have "set_mset (mset (waiters s) + mset (map fst (wq_acks s))) = set_mset (mset [0..<length es])"
    using assms unfolding waiters_ok_def by simp
  then have "fst ` set (unwritten s) \<union> fst ` set (wq_acks s) = {0..<length es}" by (simp add: waiters_def)
  then show "p \<in> set (unwritten s) \<Longrightarrow> fst p < length es" "a \<in> set (wq_acks s) \<Longrightarrow> fst a < length es" by auto
qed

lemma enqueue_waits:
  assumes s: "waiters_ok J ok (Suc n) es s" and e: "ok e"
  shows "waiters_ok J ok n (es @ [e]) (wq_enqueue e s)"
proof -
  have u: "unwritten (wq_enqueue e s) = unwritten s @ [(length es, e)]" "wq_acks (wq_enqueue e s) = wq_acks s"
    "wq_taken (wq_enqueue e s) = wq_taken s" "wq_log (wq_enqueue e s) = wq_log s" "wq_next (wq_enqueue e s) = Suc (length es)"
    using s by (simp_all add: unwritten_def wq_enqueue_def waiters_ok_def)
  have mp: "map (\<lambda>a. (es @ [e]) ! fst a) (wq_acks s) = map (\<lambda>a. es ! fst a) (wq_acks s)"
    using waiters_below(2) [OF s] by (simp add: nth_append)
  have "J (n + length (unwritten (wq_enqueue e s))) (wq_log s) (map (\<lambda>a. (es @ [e]) ! fst a) (wq_acks s))"
    unfolding mp using s by (simp add: waiters_ok_def u)
  moreover have "\<forall>p \<in> set (unwritten s). snd p = (es @ [e]) ! fst p \<and> ok ((es @ [e]) ! fst p)"
    using s waiters_below(1) [OF s] by (simp add: nth_append waiters_ok_def)
  moreover have "mset (waiters (wq_enqueue e s)) + mset (map fst (wq_acks s)) = mset [0..<length (es @ [e])]"
    using s by (simp add: waiters_ok_def waiters_def u)
  ultimately show ?thesis using s e unfolding waiters_ok_def by (simp add: u)
qed

lemma unwritten_take: "unwritten (wq_take s) = unwritten s" "wq_acks (wq_take s) = wq_acks s" "wq_log (wq_take s) = wq_log s"
  "wq_next (wq_take s) = wq_next s" "[] \<in> set (wq_taken (wq_take s)) \<longleftrightarrow> [] \<in> set (wq_taken s)"
  by (auto simp: wq_take_def unwritten_def)

lemma take_waits: "waiters_ok J ok n es s \<Longrightarrow> waiters_ok J ok n es (wq_take s)"
  by (simp add: waiters_ok_def unwritten_take waiters_def)

subsection \<open>A log that writes batches\<close>

locale batch_log = wal_log ops inv ok crash
  for ops :: "('n, 'w) wal_ops" and inv and ok and crash +
  fixes wr :: "nat \<Rightarrow> 'n wal_entry list \<Rightarrow> 'w \<Rightarrow> unit res \<times> 'w"
  assumes writes: "inv (n + length es) w ds \<Longrightarrow> \<forall>e \<in> set es. ok e \<Longrightarrow> es \<noteq> [] \<Longrightarrow>
    \<exists>w'. wr now es w = (Inr (), w') \<and> inv n w' (ds @ es)"
begin

lemma write_answers:
  assumes s: "waiters_ok inv ok n es s" and i: "i < length (wq_taken s)"
  shows "waiters_ok inv ok n es (snd (wq_write (wr now) i s)) \<and> fst (wq_write (wr now) i s) = Inr ()"
proof -
  define b where "b = wq_taken s ! i"
  define u where "u = concat (take i (wq_taken s) @ drop (Suc i) (wq_taken s)) @ wq_pending s"
  have m: "mset u + mset b = mset (unwritten s)"
    using concat_without [OF i] by (simp add: u_def b_def unwritten_def ac_simps del: concat_append)
  have sub: "set u \<subseteq> set (unwritten s)" "set b \<subseteq> set (unwritten s)" using arg_cong [OF m, of set_mset] by auto
  have len: "length (unwritten s) = length u + length b" using arg_cong [OF m, of size] by simp
  have es: "\<forall>p \<in> set (unwritten s). snd p = es ! fst p \<and> ok (es ! fst p)" using s by (simp add: waiters_ok_def)
  have "b \<noteq> []" using s nth_mem [OF i] by (auto simp: b_def waiters_ok_def)
  moreover have "inv ((n + length u) + length (map snd b)) (wq_log s) (map (\<lambda>a. es ! fst a) (wq_acks s))"
    using s len by (simp add: waiters_ok_def ac_simps)
  moreover have "ok (snd p)" if "p \<in> set b" for p using es sub(2) that by (metis subsetD)
  then have "\<forall>e \<in> set (map snd b). ok e" by auto
  ultimately obtain w where w: "wr now (map snd b) (wq_log s) = (Inr (), w)"
    "inv (n + length u) w (map (\<lambda>a. es ! fst a) (wq_acks s) @ map snd b)" using writes by (metis map_is_Nil_conv)
  define s' where "s' = s\<lparr>wq_log := w, wq_taken := take i (wq_taken s) @ drop (Suc i) (wq_taken s),
      wq_acks := wq_acks s @ map (\<lambda>p. (fst p, Inr ())) b\<rparr>"
  have s': "wq_write (wr now) i s = (Inr (), s')"
    by (simp add: wq_write_def w(1) ack_result_def case_prod_unfold s'_def flip: b_def)
  have u': "unwritten s' = u" "wq_next s' = wq_next s" "wq_log s' = w" "[] \<notin> set (wq_taken s')"
    using s by (auto simp: u_def unwritten_def s'_def waiters_ok_def dest: in_set_takeD in_set_dropD)
  have "map (\<lambda>a. es ! fst a) (wq_acks s') = map (\<lambda>a. es ! fst a) (wq_acks s) @ map snd b"
    using es sub(2) by (simp add: s'_def comp_def) (metis (mono_tags) map_eq_conv subsetD)
  with w(2) have "inv (n + length u) w (map (\<lambda>a. es ! fst a) (wq_acks s'))" by simp
  moreover have "mset (waiters s') + mset (map fst (wq_acks s')) = mset [0..<length es]"
  proof -
    have "mset (map fst u) + mset (map fst b) = mset (waiters s)"
      using arg_cong [OF m, of "image_mset fst"] by (simp add: waiters_def)
    moreover have "map fst (wq_acks s') = map fst (wq_acks s) @ map fst b" by (simp add: s'_def)
    ultimately have "mset (waiters s') + mset (map fst (wq_acks s')) = mset (waiters s) + mset (map fst (wq_acks s))"
      unfolding waiters_def u' by (simp add: ac_simps)
    then show ?thesis using s by (simp add: waiters_ok_def)
  qed
  moreover have "\<forall>a \<in> set (wq_acks s'). snd a = Inr ()" using s by (auto simp: s'_def waiters_ok_def)
  moreover have "\<forall>p \<in> set u. snd p = es ! fst p \<and> ok (es ! fst p)" using es sub(1) by blast
  ultimately show ?thesis using s unfolding s' by (simp add: waiters_ok_def u')
qed

lemma waiters_run:
  assumes "wq_run wr xs s s'"
  shows "waiters_ok inv ok (n + length (queued xs)) es s \<Longrightarrow> \<forall>e \<in> set (queued xs). ok e \<Longrightarrow> waiters_ok inv ok n (es @ queued xs) s'"
  using assms
proof (induction arbitrary: es rule: wq_run.induct)
  case (wq_more x s s1 xs s2)
  obtain now c where x: "x = (now, c)" by (cases x)
  show ?case
  proof (cases c)
    case (WEnqueue e)
    then have "s1 = wq_enqueue e s" using wq_more.hyps(1) by (auto simp: x elim: wq_enqueueE)
    moreover have "waiters_ok inv ok (Suc (n + length (queued xs))) es s" "ok e" using wq_more.prems by (simp_all add: x WEnqueue)
    ultimately show ?thesis using enqueue_waits [of inv ok "n + length (queued xs)" es s e] wq_more.IH [of "es @ [e]"] wq_more.prems(2)
      by (simp add: x WEnqueue)
  next
    case WTake
    then have "s1 = wq_take s" using wq_more.hyps(1) by (auto simp: x elim: wq_takeE)
    then show ?thesis using take_waits [of inv ok "n + length (queued xs)" es s] wq_more.IH [of es] wq_more.prems by (simp add: x WTake)
  next
    case (WWrite i)
    then have "s1 = snd (wq_write (wr now) i s)" "i < length (wq_taken s)" using wq_more.hyps(1) by (auto simp: x elim: wq_writeE)
    then show ?thesis using write_answers [of "n + length (queued xs)" es s i now] wq_more.IH [of es] wq_more.prems by (simp add: x WWrite)
  qed
qed simp

text \<open>Taking the queue and writing what was taken leaves nobody waiting.\<close>

lemma drain:
  "waiters_ok inv ok n es s \<Longrightarrow> wq_pending s = [] \<Longrightarrow>
    \<exists>s'. wq_run wr (replicate (length (wq_taken s)) (now, WWrite 0)) s s' \<and> waiters s' = [] \<and> waiters_ok inv ok n es s'"
proof (induction "length (wq_taken s)" arbitrary: s)
  case 0
  then show ?case by (auto simp: waiters_def unwritten_def intro: wq_none)
next
  case (Suc k)
  let ?s = "snd (wq_write (wr now) 0 s)"
  have i: "0 < length (wq_taken s)" using Suc.hyps(2) by linarith
  have f: "wq_pending ?s = []" "length (wq_taken ?s) = k"
    using Suc.prems(2) Suc.hyps(2) by (simp_all add: wq_write_def Let_def case_prod_unfold)
  from Suc.hyps(1) [of ?s] f write_answers [OF Suc.prems(1) i, of now] obtain s' where
    s': "wq_run wr (replicate k (now, WWrite 0)) ?s s'" "waiters s' = []" "waiters_ok inv ok n es s'" by auto
  from wq_more [OF wq_writes [OF i, of wr now] s'(1)] s'(2,3) show ?case by (auto simp: Suc.hyps(2) [symmetric])
qed

lemma all_answered:
  assumes "waiters_ok inv ok n es s"
  shows "\<exists>k s'. wq_run wr ((now, WTake) # replicate k (now, WWrite 0)) s s' \<and> waiters s' = [] \<and> waiters_ok inv ok n es s'"
proof -
  have "wq_pending (wq_take s) = []" by (simp add: wq_take_def)
  from drain [OF take_waits [OF assms] this, of now] wq_more [OF wq_takes [of wr now s]] show ?thesis by blast
qed

lemma answers_logged:
  assumes "waiters_ok inv ok n es s" and "crash (wq_log s) w"
  shows "w_read ops w = Inr (sort_key entry_timestamp (map (\<lambda>a. es ! fst a) (wq_acks s)))"
  using assms read unfolding waiters_ok_def by blast

end

interpretation seg_waiters: batch_log "seg_ops W" "seg_synced W" "fits W" seg_crash "batch_write_entries W" for W :: "'n wenv"
  by unfold_locales (auto simp: seg_synced_def intro: batch_logged)

interpretation frame_waiters: batch_log "frame_ops F" "frame_inv F" "frame_fits F" frame_crash "fm_batch_write_entries F" for F :: "'n fenv"
  by unfold_locales (rule frame_batch_logged)

subsection \<open>Properties\<close>

lemma start_waits: "J (n + 0) w [] \<Longrightarrow> waiters_ok J ok n [] (wq_start w)"
  by (simp add: waiters_ok_def wq_start_def waiters_def unwritten_def)


text \<open>Two batches are taken; the second is written first, so the answers and the log have the order of the writes, not of the queue.\<close>

definition toy_waits :: "(nat \<times> nat wq_event) list" where
  "toy_waits = [(0, WEnqueue (WPut [97] (VBytes [1]) 0)), (0, WTake), (0, WEnqueue (WDelete [97] 0)), (0, WTake), (0, WWrite 1), (0, WWrite 0),
     (0, WEnqueue (WDelete [98] 0))]"

definition waits_env :: "nat wenv" where
  "waits_env = (toy_wenv 40 SyncFsync)\<lparr>we_group := True, we_wait := True\<rparr>"

lemma waits_env_simps [simp]: "we_ser waits_env = toy_ser" "we_de waits_env = toy_de" "we_hsize waits_env = 17" "we_max waits_env = 40"
  "we_hser waits_env = we_hser (toy_wenv 40 SyncFsync)" "we_hde waits_env = we_hde (toy_wenv 40 SyncFsync)"
  "we_sync waits_env = SyncFsync" "we_group waits_env" "we_wait waits_env"
  by (simp_all add: waits_env_def toy_wenv_def)

lemma waits_env_ok: "wenv_ok waits_env"
  using toy_wenv_ok [of 40 SyncFsync] unfolding wenv_ok_def waits_env_simps toy_wenv_simps .

lemma waits_fits: "fits waits_env e = fits (toy_wenv 40 SyncFsync) e"
  by (simp add: fits_def storable_def ser_len_def)


end
