(* ===== verification/Spec2Isabelle.thy ===== *)
theory Spec2Isabelle
  imports Memtable SSTable_Faults Compaction_Safety Wal_Faults Engine_Faults Engine_Config Wal_Group_Commit
    Storage_Config Error_Handling Monitoring Engine_Stats Engine_Families Mmap_Reader Storage_Adapter Sequence_File
    Value_Forms Engine_Clients Wal_Waiters
begin

text \<open>
  \<^bold>\<open>A log-structured storage engine.\<close>  The program is the Rust workspace under \<open>src/crates\<close>: the engine
  \<open>f4kvs-lsm\<close>, its values \<open>f4kvs-value\<close> and the interface crate \<open>f4kvs-storage-core\<close>.  A write goes to the log and
  then to the active memtable; a full memtable is written as a table of level 0; compaction merges tables
  and installs the result; a read asks the memtables and then the levels, and after a crash the log is
  replayed into the memtable.

  \<^bold>\<open>Representation.\<close>  Keys and strings are lists of bytes, whose lexicographic order is that of Rust's \<open>str\<close>.
  Counters that Rust lets grow are \<open>nat\<close>, where the code saturates or wraps this is written out, and fields of
  a fixed width in a file are words.  An error is a value of \<open>lsm_error\<close> or \<open>kv_error\<close>, a result a sum
  (\<open>'a res\<close>, \<open>'a kv\<close>), and a panic \<open>None\<close> around it.  State is passed explicitly; what the code does in sections
  between which it releases its locks is a definition per section.  \<open>bincode\<close>, \<open>snappy\<close>, \<open>crc32\<close>, the hash
  functions and \<open>serde_json\<close> are libraries: their functions are fields of environment records, and what is asked of
  them (\<open>env_ok\<close>, \<open>wenv_ok\<close>, \<open>entry_ok\<close>, \<open>reads_back\<close>, \<open>storable\<close>) is a hypothesis with a concrete instance in a witness.

  \<^bold>\<open>Foundations.\<close>  \<open>Prelude\<close> has results, bytes, little-endian numbers and lemmas on sorted lists; \<open>BTree_Map\<close> the
  standard library's ordered map; \<open>Names\<close> numbers in file names; \<open>Errors\<close> the public error type (\<open>f4kvs-value/src/error.rs\<close>)
  and the retry loop; \<open>Value_Model\<close> the values (\<open>value.rs\<close>) and their JSON form,
  \<open>Value_Forms\<close> their other forms; \<open>Lsm_Utils\<close> the bounds of range scans.

  \<^bold>\<open>Memory.\<close>  \<open>Memtable\<close> (\<open>storage/memtable.rs\<close>) is shown to be a map with tombstones and exact counters.
  \<open>Block_Cache\<close>, \<open>Bloom\<close> and \<open>Flat_Index\<close> are the caches, filters and packed indexes of tables, each against its
  reference: no false negative, lookups of the sorted list, termination of the eviction.

  \<^bold>\<open>Tables.\<close>  \<open>File_Reader\<close> reads exactly, in one of three modes; \<open>Mmap_Reader\<close> is the inside of the mode that maps the
  file (\<open>storage/mmap_reader\<close>), shown to read what \<open>pread\<close> reads; \<open>SSTable_Format\<close> and \<open>SSTable\<close> are the bytes of a table and the handle on
  it (\<open>storage/sstable.rs\<close>); \<open>SSTable_Correct\<close> and \<open>SSTable_Reopen\<close> show that what was written is read back, before
  and after a restart, through every path; \<open>SSTable_Faults\<close> has the inputs for which that is not so.
  \<open>Levels\<close> is the view of tables through their entries that the theories above it use, and the reads over levels.

  \<^bold>\<open>Compaction.\<close>  \<open>Compaction\<close> is \<open>compaction/manager.rs\<close>; \<open>Compaction_Merge\<close> shows what a merge keeps and how it is
  split into tables, \<open>Compaction_Reads\<close> and \<open>Compaction_Safety\<close> that reads are unchanged, with flushes in between, and
  under which conditions they are not.

  \<^bold>\<open>Logs.\<close>  \<open>Wal_Files\<close> is a directory of files with what of them is synced; \<open>Wal_Segment\<close>, \<open>Wal_Manager\<close> are the
  segment log (\<open>storage/wal.rs\<close>), \<open>Wal_Frame\<close> the frame log and \<open>Wal_Index\<close>, \<open>Wal_Indexed\<close> the indexed log.
  \<open>Wal_Correct\<close> and \<open>Wal_Durability\<close> prove the promises of a log, the locale \<open>wal_log\<close>, for the segment log under a loss
  of power, \<open>Wal_Frame_Correct\<close> for the frame log under a loss of power, \<open>Wal_Indexed_Frames\<close> and \<open>Wal_Indexed_Correct\<close> for the indexed log under a loss of the process.  \<open>Wal_Handle\<close>
  is the handle that chooses one of the logs and has the promises of the one it chose.  \<open>Wal_Waiters\<close> is the group commit of the segment and
  the frame log with many writers that wait for an answer, \<open>Wal_Group_Commit\<close> the timing of the
  background task that writes a batch; \<open>Wal_Faults\<close> has the ways in which an acknowledged entry is lost.

  \<^bold>\<open>Configuration.\<close>  \<open>Float64\<close> is the part of IEEE arithmetic the program uses, \<open>Config\<close> the configuration and its validation,
  \<open>Adaptive\<close> the adaptive compaction manager.  \<open>Engine_Config\<close> makes an engine from a configuration and shows what a
  configuration that passes the validation guarantees.

  \<^bold>\<open>The interface crate.\<close>  \<open>Storage_Config\<close> is the generic configuration of \<open>f4kvs-storage-core/src/config.rs\<close> with its
  conversion into that of the engine, \<open>Validation\<close> the checks of keys and values, \<open>Error_Handling\<close> classification, retries and
  counters of errors, \<open>Stats\<close> the statistics and their health, \<open>Monitoring\<close> metrics, health checks and alerts with the steps of
  their background tasks, \<open>Formatting\<close> the texts of numbers, \<open>File_Util\<close> the helpers for files
  (\<open>common/io.rs\<close>).  \<open>Storage_Adapter\<close> has the trait of storage engines (\<open>traits.rs\<close>), the engine as its implementation, and the
  adapter (\<open>adapter.rs\<close>) to the second trait (\<open>storage_traits.rs\<close>); the two contracts are locales, and a client of either is shown to
  see a map.  \<open>Engine_Stats\<close> is what the engine reports about itself.

  \<^bold>\<open>The engine.\<close>  \<open>Engine\<close>, \<open>Engine_Ops\<close>, \<open>Engine_Scan\<close> and \<open>Engine_Open\<close> are \<open>core/engine.rs\<close>: state, reads, flush and
  compaction, the writing operations, the scans, and opening with recovery.  The record \<open>engine\<close> has the
  fields of \<open>LsmTreeEngine\<close>.  \<open>Engine_Correct\<close> relates a state to the map a reader sees, \<open>Engine_Durable\<close> proves each operation
  over any log with the promises of \<open>wal_log\<close>, \<open>Engine_Steps\<close> is the step relation and its runs, \<open>Engine_Safety\<close> the
  refinement of a plain map by runs with crashes on the segment log and on the indexed log, \<open>Engine_Scan_Correct\<close> the prefix scan, \<open>Engine_Families\<close> that column families are maps of
  their own, and \<open>Engine_Faults\<close> where the engine gives wrong answers.  \<open>Engine_Clients\<close>
  interleaves the sections of many clients between their locks, and shows when a crash keeps what readers saw and when not.  \<open>Sequence_File\<close> is the file with the sequence number, written so
  that a loss of power leaves the old or the new number.

  \<^bold>\<open>Bounds and fuel.\<close>  No definition takes fuel: loops end by a measure, the search for a free file name after \<open>2^64\<close>
  names.  Theorems on runs ask that sequence numbers and segment numbers do not overflow and that the
  disk has room for the records to come; the cost of an operation is \<open>cmd_cost\<close>.

  \<^bold>\<open>Not modelled.\<close>  Log lines, sleeping and the scheduling of background tasks; the operating system behind
  \<open>mmap\<close> and \<open>mincore\<close>, whose answers are parameters; the traits without an implementation; the features \<open>ttl\<close>
  and \<open>metrics\<close>, off by default; the derived codecs of configuration and statistics; the crate \<open>f4kvs-bench\<close> and the tests.
\<close>

end
